(* ===== verification/Prelude.thy ===== *)
theory Prelude
  imports Main "HOL-Library.Word"
begin

text \<open>
  Shared vocabulary of the development: the theorem collections, the types
  that name machine values, and the generic facts about lists, options and
  words the component theories rely on.

  A C assertion (\<open>EJS_ASSERT\<close>), \<open>EJS_NOT_IMPLEMENTED\<close> and
  \<open>EJS_NOT_REACHED\<close> call \<open>abort\<close> in every build of the runtime
  (\<open>ejs.h\<close>), so a C function that may abort is a function into
  \<open>option\<close>, with \<open>None\<close> for the abort.
\<close>

unbundle bit_operations_syntax

named_theorems tag_defs "unfolding the tag constants of the value encoding"
named_theorems tag_facts "the tag of each encoded value"
named_theorems list_ops "unfolding the pointer list operations"
named_theorems heap_simps "reading an updated pointer store"

section \<open>Machine types\<close>

type_synonym uint8 = "8 word"
type_synonym jschar = "16 word"
type_synonym uint32 = "32 word"
type_synonym int32 = "32 word"
type_synonym uint64 = "64 word"
type_synonym ptr = "64 word"
type_synonym addr = nat

section \<open>Assertions\<close>

definition ejs_assert :: "bool \<Rightarrow> 'a option \<Rightarrow> 'a option" where
  "ejs_assert b k = (if b then k else None)"

lemma ejs_assert_simps [simp]:
  "ejs_assert True k = k"
  "ejs_assert False k = None"
  by (simp_all add: ejs_assert_def)

lemma ejs_assert_eq_Some [simp]:
  "ejs_assert b k = Some x \<longleftrightarrow> b \<and> k = Some x"
  by (simp add: ejs_assert_def)

text \<open>Functions that may also throw a JavaScript error return an outcome.\<close>

datatype js_error = TypeError | RangeError | URIError | SyntaxError | ReferenceError

datatype 'a outcome = Return 'a | Throws js_error | Aborts

fun bind_outcome :: "'a outcome \<Rightarrow> ('a \<Rightarrow> 'b outcome) \<Rightarrow> 'b outcome" where
  "bind_outcome (Return x) f = f x"
| "bind_outcome (Throws e) f = Throws e"
| "bind_outcome Aborts f = Aborts"

lemma bind_outcome_Return: "bind_outcome r f = Return y \<longleftrightarrow> (\<exists>x. r = Return x \<and> f x = Return y)"
  by (cases r) auto

lemma bind_outcome_cong [fundef_cong]:
  "x = y \<Longrightarrow> (\<And>a. y = Return a \<Longrightarrow> f a = g a) \<Longrightarrow> bind_outcome x f = bind_outcome y g"
  by (cases y) auto

section \<open>Words\<close>

lemma word_le_iff_unat: "(a::'a::len word) \<le> b \<longleftrightarrow> unat a \<le> unat b"
  by (simp add: word_le_nat_alt)

lemma unat_push_bit_small:
  assumes "unat (t::64 word) < 2 ^ 17"
  shows "unat (push_bit 47 t) = unat t * 2 ^ 47"
proof -
  have "unat t * 2 ^ 47 < 2 ^ 64" using assms by simp
  then have "unat t * unat (2 ^ 47 :: 64 word) < 2 ^ LENGTH(64)" by simp
  then have "unat (t * 2 ^ 47) = unat t * unat (2 ^ 47 :: 64 word)"
    by (rule unat_mult_lem [THEN iffD1])
  then show ?thesis by (simp add: push_bit_eq_mult)
qed

lemma unat_drop_bit_47: "unat (drop_bit 47 (l::64 word)) = unat l div 2 ^ 47"
  unfolding unat_drop_bit_eq by (rule drop_bit_eq_div)

lemma shifted_tag_le:
  assumes "unat (t::64 word) < 2 ^ 17"
  shows "push_bit 47 t \<le> l \<longleftrightarrow> t \<le> drop_bit 47 l"
  unfolding word_le_iff_unat unat_push_bit_small [OF assms] unat_drop_bit_47
  by (simp add: less_eq_div_iff_mult_less_eq)

lemma drop_bit_47_bound: "unat (drop_bit 47 (l::64 word)) < 2 ^ 17"
  unfolding unat_drop_bit_47 using unsigned_less [of l, where 'a = nat]
  by (simp add: less_mult_imp_div_less)

lemma bit_high_zero:
  assumes "drop_bit n (p::64 word) = 0" "n \<le> k"
  shows "\<not> bit p k"
proof -
  have "bit (drop_bit n p) (k - n) = bit p k" using assms(2) by (simp add: bit_simps)
  then show ?thesis using assms(1) by simp
qed

text \<open>A value built from a tag and a payload of fewer than 47 bits gives both back.\<close>

lemma drop_bit_tag_payload:
  assumes "drop_bit 17 (t::64 word) = 0" "drop_bit 47 (p::64 word) = 0"
  shows "drop_bit 47 (push_bit 47 t OR p) = t"
proof (rule bit_word_eqI)
  fix n assume "n < LENGTH(64)"
  then show "bit (drop_bit 47 (push_bit 47 t OR p)) n = bit t n"
    using bit_high_zero [OF assms(1), of n] bit_high_zero [OF assms(2), of "n + 47"]
    by (cases "n < 17") (auto simp: bit_simps add.commute)
qed

lemma payload_tag_payload:
  assumes "drop_bit 47 (p::64 word) = 0"
  shows "(push_bit 47 t OR p) AND mask 47 = p"
proof (rule bit_word_eqI)
  fix n assume "n < LENGTH(64)"
  then show "bit ((push_bit 47 t OR p) AND mask 47) n = bit p n"
    using bit_high_zero [OF assms] by (cases "n < 47") (auto simp: bit_simps)
qed

lemma word_eq_tag_payload: "(l::64 word) = push_bit 47 (drop_bit 47 l) OR (l AND mask 47)"
  by (rule bit_word_eqI) (auto simp: bit_simps)

lemma ucast_32_drop_47: "drop_bit 47 (ucast (x::32 word) :: 64 word) = 0"
  by (rule bit_word_eqI) (auto simp: bit_simps dest: bit_imp_le_length)

section \<open>Pointer chains\<close>

text \<open>
  \<open>path f p xs\<close>: following the link function \<open>f\<close> from the pointer \<open>p\<close> visits the nodes
  \<open>xs\<close> in order and ends at NULL (\<open>None\<close>).
\<close>

primrec path :: "('a \<Rightarrow> 'a option) \<Rightarrow> 'a option \<Rightarrow> 'a list \<Rightarrow> bool" where
  "path f p [] \<longleftrightarrow> p = None"
| "path f p (x # xs) \<longleftrightarrow> p = Some x \<and> path f (f x) xs"

lemma path_None [simp]: "path f None xs \<longleftrightarrow> xs = []"
  by (cases xs) auto

lemma path_upd_notin [simp]: "x \<notin> set xs \<Longrightarrow> path (f(x := q)) p xs \<longleftrightarrow> path f p xs"
  by (induction xs arbitrary: p) auto

lemma path_unique: "path f p xs \<Longrightarrow> path f p ys \<Longrightarrow> xs = ys"
proof (induction xs arbitrary: p ys)
  case (Cons x xs)
  then show ?case by (cases ys) auto
qed auto

lemma path_split:
  "path f p (xs @ y # ys) \<Longrightarrow> path f (Some y) (y # ys)"
  by (induction xs arbitrary: p) auto

lemma path_distinct: "path f p xs \<Longrightarrow> distinct xs"
proof (induction xs arbitrary: p)
  case (Cons x xs)
  have "x \<notin> set xs"
  proof
    assume "x \<in> set xs"
    then obtain ys zs where xs: "xs = ys @ x # zs" by (auto dest: split_list)
    with Cons.prems have p: "path f (f x) (ys @ x # zs)" by simp
    then have "path f (f x) zs" using path_split [OF p] by simp
    from path_unique [OF this p] show False by simp
  qed
  with Cons show ?case by auto
qed simp

text \<open>Linking a fresh node after the last one, before the first one, and around a node.\<close>

lemma path_snoc:
  "path f p xs \<Longrightarrow> xs \<noteq> [] \<Longrightarrow> n \<notin> set xs \<Longrightarrow>
     path (f(last xs := Some n, n := None)) p (xs @ [n])"
proof (induction xs arbitrary: p)
  case (Cons x xs)
  show ?case
  proof (cases "xs = []")
    case False
    have "x \<noteq> last xs" using path_distinct [OF Cons.prems(1)] False by (auto simp: last_in_set)
    with Cons False show ?thesis by (auto simp: fun_upd_other)
  qed (use Cons.prems in auto)
qed simp

lemma path_snoc_old:
  "path f p xs \<Longrightarrow> xs \<noteq> [] \<Longrightarrow> n \<notin> set xs \<Longrightarrow>
     path (f(n := None, last xs := Some n)) p (xs @ [n])"
  using path_snoc [of f p xs n] last_in_set [of xs] by (cases "last xs = n") (auto simp: fun_upd_twist)

lemma path_unlink:
  "path f p (xs @ n # ys) \<Longrightarrow> xs \<noteq> [] \<Longrightarrow> path (f(last xs := f n)) p (xs @ ys)"
proof (induction xs arbitrary: p)
  case (Cons x xs)
  show ?case
  proof (cases "xs = []")
    case True
    with Cons.prems path_distinct [OF Cons.prems(1)] show ?thesis
      by (auto simp del: fun_upd_apply simp: fun_upd_same)
  next
    case False
    have "x \<noteq> last xs" using path_distinct [OF Cons.prems(1)] False by (auto simp: last_in_set)
    with Cons False show ?thesis by auto
  qed
qed simp

lemma path_link:
  "path f p (xs @ c # ys) \<Longrightarrow> xs \<noteq> [] \<Longrightarrow> n \<notin> set (xs @ c # ys) \<Longrightarrow>
     path (f(n := Some c, last xs := Some n)) p (xs @ n # c # ys)"
proof (induction xs arbitrary: p)
  case (Cons x xs)
  show ?case
  proof (cases "xs = []")
    case True
    with Cons.prems path_distinct [OF Cons.prems(1)] show ?thesis
      by (auto simp del: fun_upd_apply simp: fun_upd_same fun_upd_other)
  next
    case False
    have "x \<noteq> last xs" using path_distinct [OF Cons.prems(1)] False by (auto simp: last_in_set)
    with Cons False show ?thesis by auto
  qed
qed simp

lemma path_hd: "path f p xs \<Longrightarrow> p = (if xs = [] then None else Some (hd xs))"
  by (cases xs) auto

section \<open>Lists\<close>

lemma nth_append_last [simp]: "(xs @ [x]) ! length xs = x"
  by simp

lemma distinct_filter_length_le: "length (filter P xs) \<le> length xs"
  by simp

end
