(* ===== verification/Ejsval.thy ===== *)
theory Ejsval
  imports Prelude
begin

text \<open>
  The NaN-boxed value representation of \<open>src/runtime/ejsval.h\<close> on 64-bit
  targets (\<open>EJS_BITS_PER_WORD == 64\<close>).  An \<open>ejsval\<close> is a 64-bit
  word: bit patterns up to \<open>EJSVAL_SHIFTED_TAG_MAX_DOUBLE\<close> are IEEE doubles,
  the others carry a 17-bit tag above a 47-bit payload.  Doubles are carried as
  their bit pattern, the way \<open>union ejsval_layout\<close> does.
\<close>

type_synonym ejsval = "64 word"
type_synonym double = "64 word"

section \<open>Types, tags and shifted tags\<close>

definition EJSVAL_TYPE_DOUBLE :: uint8 where [tag_defs]: "EJSVAL_TYPE_DOUBLE = 0x00"
definition EJSVAL_TYPE_INT32 :: uint8 where [tag_defs]: "EJSVAL_TYPE_INT32 = 0x01"
definition EJSVAL_TYPE_UNDEFINED :: uint8 where [tag_defs]: "EJSVAL_TYPE_UNDEFINED = 0x02"
definition EJSVAL_TYPE_BOOLEAN :: uint8 where [tag_defs]: "EJSVAL_TYPE_BOOLEAN = 0x03"
definition EJSVAL_TYPE_MAGIC :: uint8 where [tag_defs]: "EJSVAL_TYPE_MAGIC = 0x04"
definition EJSVAL_TYPE_STRING :: uint8 where [tag_defs]: "EJSVAL_TYPE_STRING = 0x05"
definition EJSVAL_TYPE_CLOSUREENV :: uint8 where [tag_defs]: "EJSVAL_TYPE_CLOSUREENV = 0x06"
definition EJSVAL_TYPE_NULL :: uint8 where [tag_defs]: "EJSVAL_TYPE_NULL = 0x07"
definition EJSVAL_TYPE_SYMBOL :: uint8 where [tag_defs]: "EJSVAL_TYPE_SYMBOL = 0x08"
definition EJSVAL_TYPE_OBJECT :: uint8 where [tag_defs]: "EJSVAL_TYPE_OBJECT = 0x09"

definition EJSVAL_TAG_SHIFT :: nat where [tag_defs]: "EJSVAL_TAG_SHIFT = 47"
definition EJSVAL_TAG_MAX_DOUBLE :: uint32 where [tag_defs]: "EJSVAL_TAG_MAX_DOUBLE = 0x1FFF0"

definition EJSVAL_TYPE_TO_TAG :: "uint8 \<Rightarrow> uint32" where [tag_defs]:
  "EJSVAL_TYPE_TO_TAG type = EJSVAL_TAG_MAX_DOUBLE OR ucast type"

definition EJSVAL_TYPE_TO_SHIFTED_TAG :: "uint8 \<Rightarrow> uint64" where [tag_defs]:
  "EJSVAL_TYPE_TO_SHIFTED_TAG type = push_bit EJSVAL_TAG_SHIFT (ucast (EJSVAL_TYPE_TO_TAG type))"

definition EJSVAL_TAG_INT32 :: uint32 where [tag_defs]:
  "EJSVAL_TAG_INT32 = EJSVAL_TAG_MAX_DOUBLE OR ucast EJSVAL_TYPE_INT32"
definition EJSVAL_TAG_UNDEFINED :: uint32 where [tag_defs]:
  "EJSVAL_TAG_UNDEFINED = EJSVAL_TAG_MAX_DOUBLE OR ucast EJSVAL_TYPE_UNDEFINED"
definition EJSVAL_TAG_STRING :: uint32 where [tag_defs]:
  "EJSVAL_TAG_STRING = EJSVAL_TAG_MAX_DOUBLE OR ucast EJSVAL_TYPE_STRING"
definition EJSVAL_TAG_CLOSUREENV :: uint32 where [tag_defs]:
  "EJSVAL_TAG_CLOSUREENV = EJSVAL_TAG_MAX_DOUBLE OR ucast EJSVAL_TYPE_CLOSUREENV"
definition EJSVAL_TAG_BOOLEAN :: uint32 where [tag_defs]:
  "EJSVAL_TAG_BOOLEAN = EJSVAL_TAG_MAX_DOUBLE OR ucast EJSVAL_TYPE_BOOLEAN"
definition EJSVAL_TAG_MAGIC :: uint32 where [tag_defs]:
  "EJSVAL_TAG_MAGIC = EJSVAL_TAG_MAX_DOUBLE OR ucast EJSVAL_TYPE_MAGIC"
definition EJSVAL_TAG_NULL :: uint32 where [tag_defs]:
  "EJSVAL_TAG_NULL = EJSVAL_TAG_MAX_DOUBLE OR ucast EJSVAL_TYPE_NULL"
definition EJSVAL_TAG_SYMBOL :: uint32 where [tag_defs]:
  "EJSVAL_TAG_SYMBOL = EJSVAL_TAG_MAX_DOUBLE OR ucast EJSVAL_TYPE_SYMBOL"
definition EJSVAL_TAG_OBJECT :: uint32 where [tag_defs]:
  "EJSVAL_TAG_OBJECT = EJSVAL_TAG_MAX_DOUBLE OR ucast EJSVAL_TYPE_OBJECT"

definition EJSVAL_SHIFTED_TAG_MAX_DOUBLE :: uint64 where [tag_defs]:
  "EJSVAL_SHIFTED_TAG_MAX_DOUBLE = push_bit EJSVAL_TAG_SHIFT (ucast EJSVAL_TAG_MAX_DOUBLE) OR 0xFFFFFFFF"
definition EJSVAL_SHIFTED_TAG_INT32 :: uint64 where [tag_defs]:
  "EJSVAL_SHIFTED_TAG_INT32 = push_bit EJSVAL_TAG_SHIFT (ucast EJSVAL_TAG_INT32)"
definition EJSVAL_SHIFTED_TAG_UNDEFINED :: uint64 where [tag_defs]:
  "EJSVAL_SHIFTED_TAG_UNDEFINED = push_bit EJSVAL_TAG_SHIFT (ucast EJSVAL_TAG_UNDEFINED)"
definition EJSVAL_SHIFTED_TAG_STRING :: uint64 where [tag_defs]:
  "EJSVAL_SHIFTED_TAG_STRING = push_bit EJSVAL_TAG_SHIFT (ucast EJSVAL_TAG_STRING)"
definition EJSVAL_SHIFTED_TAG_CLOSUREENV :: uint64 where [tag_defs]:
  "EJSVAL_SHIFTED_TAG_CLOSUREENV = push_bit EJSVAL_TAG_SHIFT (ucast EJSVAL_TAG_CLOSUREENV)"
definition EJSVAL_SHIFTED_TAG_BOOLEAN :: uint64 where [tag_defs]:
  "EJSVAL_SHIFTED_TAG_BOOLEAN = push_bit EJSVAL_TAG_SHIFT (ucast EJSVAL_TAG_BOOLEAN)"
definition EJSVAL_SHIFTED_TAG_MAGIC :: uint64 where [tag_defs]:
  "EJSVAL_SHIFTED_TAG_MAGIC = push_bit EJSVAL_TAG_SHIFT (ucast EJSVAL_TAG_MAGIC)"
definition EJSVAL_SHIFTED_TAG_NULL :: uint64 where [tag_defs]:
  "EJSVAL_SHIFTED_TAG_NULL = push_bit EJSVAL_TAG_SHIFT (ucast EJSVAL_TAG_NULL)"
definition EJSVAL_SHIFTED_TAG_SYMBOL :: uint64 where [tag_defs]:
  "EJSVAL_SHIFTED_TAG_SYMBOL = push_bit EJSVAL_TAG_SHIFT (ucast EJSVAL_TAG_SYMBOL)"
definition EJSVAL_SHIFTED_TAG_OBJECT :: uint64 where [tag_defs]:
  "EJSVAL_SHIFTED_TAG_OBJECT = push_bit EJSVAL_TAG_SHIFT (ucast EJSVAL_TAG_OBJECT)"

definition EJSVAL_PAYLOAD_MASK :: uint64 where [tag_defs]:
  "EJSVAL_PAYLOAD_MASK = 0x00007FFFFFFFFFFF"

datatype EJSWhyMagic =
    EJS_ARRAY_HOLE | EJS_ARGS_HOLE | EJS_NATIVE_ENUMERATE | EJS_NO_ITER_VALUE
  | EJS_GENERATOR_CLOSING | EJS_NO_CONSTANT | EJS_THIS_POISON | EJS_ARG_POISON
  | EJS_SERIALIZE_NO_NODE | EJS_LAZY_ARGUMENTS | EJS_IS_CONSTRUCTING | EJS_GENERIC_MAGIC

primrec why_bits :: "EJSWhyMagic \<Rightarrow> uint32" where
  "why_bits EJS_ARRAY_HOLE = 0"
| "why_bits EJS_ARGS_HOLE = 1"
| "why_bits EJS_NATIVE_ENUMERATE = 2"
| "why_bits EJS_NO_ITER_VALUE = 3"
| "why_bits EJS_GENERATOR_CLOSING = 4"
| "why_bits EJS_NO_CONSTANT = 5"
| "why_bits EJS_THIS_POISON = 6"
| "why_bits EJS_ARG_POISON = 7"
| "why_bits EJS_SERIALIZE_NO_NODE = 8"
| "why_bits EJS_LAZY_ARGUMENTS = 9"
| "why_bits EJS_IS_CONSTRUCTING = 10"
| "why_bits EJS_GENERIC_MAGIC = 11"

section \<open>Building and reading values\<close>

definition EJSVAL_TO_TAG :: "ejsval \<Rightarrow> uint32" where
  "EJSVAL_TO_TAG l = ucast (drop_bit EJSVAL_TAG_SHIFT l)"

definition BUILD_EJSVAL :: "uint32 \<Rightarrow> uint64 \<Rightarrow> ejsval" where
  "BUILD_EJSVAL tag payload = push_bit EJSVAL_TAG_SHIFT (ucast tag) OR payload"

definition EJSVAL_IS_DOUBLE_IMPL :: "ejsval \<Rightarrow> bool" where
  "EJSVAL_IS_DOUBLE_IMPL l \<longleftrightarrow> l \<le> EJSVAL_SHIFTED_TAG_MAX_DOUBLE"

definition DOUBLE_TO_EJSVAL_IMPL :: "double \<Rightarrow> ejsval option" where
  "DOUBLE_TO_EJSVAL_IMPL d = ejs_assert (d \<le> EJSVAL_SHIFTED_TAG_MAX_DOUBLE) (Some d)"

definition EJSVAL_IS_INT32_IMPL :: "ejsval \<Rightarrow> bool" where
  "EJSVAL_IS_INT32_IMPL l \<longleftrightarrow> ucast (drop_bit EJSVAL_TAG_SHIFT l) = EJSVAL_TAG_INT32"

definition EJSVAL_TO_INT32_IMPL :: "ejsval \<Rightarrow> int32" where
  "EJSVAL_TO_INT32_IMPL l = ucast l"

definition INT32_TO_EJSVAL_IMPL :: "int32 \<Rightarrow> ejsval" where
  "INT32_TO_EJSVAL_IMPL i32 = ucast i32 OR EJSVAL_SHIFTED_TAG_INT32"

definition EJSVAL_IS_NUMBER_IMPL :: "ejsval \<Rightarrow> bool" where
  "EJSVAL_IS_NUMBER_IMPL l \<longleftrightarrow> l < EJSVAL_SHIFTED_TAG_UNDEFINED"

definition EJSVAL_IS_UNDEFINED_IMPL :: "ejsval \<Rightarrow> bool" where
  "EJSVAL_IS_UNDEFINED_IMPL l \<longleftrightarrow> l = EJSVAL_SHIFTED_TAG_UNDEFINED"

definition EJSVAL_IS_STRING_IMPL :: "ejsval \<Rightarrow> bool" where
  "EJSVAL_IS_STRING_IMPL l \<longleftrightarrow> ucast (drop_bit EJSVAL_TAG_SHIFT l) = EJSVAL_TAG_STRING"

definition STRING_TO_EJSVAL_IMPL :: "ptr \<Rightarrow> ejsval option" where
  "STRING_TO_EJSVAL_IMPL str =
     ejs_assert (str \<noteq> 0) (ejs_assert (drop_bit EJSVAL_TAG_SHIFT str = 0)
       (Some (str OR EJSVAL_SHIFTED_TAG_STRING)))"

definition EJSVAL_TO_STRING_IMPL :: "ejsval \<Rightarrow> ptr" where
  "EJSVAL_TO_STRING_IMPL l = l AND EJSVAL_PAYLOAD_MASK"

definition EJSVAL_IS_CLOSUREENV_IMPL :: "ejsval \<Rightarrow> bool" where
  "EJSVAL_IS_CLOSUREENV_IMPL l \<longleftrightarrow> ucast (drop_bit EJSVAL_TAG_SHIFT l) = EJSVAL_TAG_CLOSUREENV"

definition CLOSUREENV_TO_EJSVAL_IMPL :: "ptr \<Rightarrow> ejsval option" where
  "CLOSUREENV_TO_EJSVAL_IMPL env =
     ejs_assert (env \<noteq> 0) (ejs_assert (drop_bit EJSVAL_TAG_SHIFT env = 0)
       (Some (env OR EJSVAL_SHIFTED_TAG_CLOSUREENV)))"

definition EJSVAL_TO_CLOSUREENV_IMPL :: "ejsval \<Rightarrow> ptr" where
  "EJSVAL_TO_CLOSUREENV_IMPL l = l AND EJSVAL_PAYLOAD_MASK"

definition EJSVAL_IS_BOOLEAN_IMPL :: "ejsval \<Rightarrow> bool" where
  "EJSVAL_IS_BOOLEAN_IMPL l \<longleftrightarrow> ucast (drop_bit EJSVAL_TAG_SHIFT l) = EJSVAL_TAG_BOOLEAN"

definition EJSVAL_TO_BOOLEAN_IMPL :: "ejsval \<Rightarrow> int32" where
  "EJSVAL_TO_BOOLEAN_IMPL l = ucast l"

definition BOOLEAN_TO_EJSVAL_IMPL :: "int32 \<Rightarrow> ejsval option" where
  "BOOLEAN_TO_EJSVAL_IMPL b =
     ejs_assert (b = 1 \<or> b = 0) (Some (ucast b OR EJSVAL_SHIFTED_TAG_BOOLEAN))"

definition EJSVAL_IS_SYMBOL_IMPL :: "ejsval \<Rightarrow> bool" where
  "EJSVAL_IS_SYMBOL_IMPL l \<longleftrightarrow> ucast (drop_bit EJSVAL_TAG_SHIFT l) = EJSVAL_TAG_SYMBOL"

definition SYMBOL_TO_EJSVAL_IMPL :: "ptr \<Rightarrow> ejsval option" where
  "SYMBOL_TO_EJSVAL_IMPL str =
     ejs_assert (str \<noteq> 0) (ejs_assert (drop_bit EJSVAL_TAG_SHIFT str = 0)
       (Some (str OR EJSVAL_SHIFTED_TAG_SYMBOL)))"

definition EJSVAL_TO_SYMBOL_IMPL :: "ejsval \<Rightarrow> ptr" where
  "EJSVAL_TO_SYMBOL_IMPL l = l AND EJSVAL_PAYLOAD_MASK"

definition EJSVAL_IS_MAGIC_IMPL :: "ejsval \<Rightarrow> bool" where
  "EJSVAL_IS_MAGIC_IMPL l \<longleftrightarrow> drop_bit EJSVAL_TAG_SHIFT l = ucast EJSVAL_TAG_MAGIC"

definition EJSVAL_IS_PRIMITIVE_IMPL :: "ejsval \<Rightarrow> bool" where
  "EJSVAL_IS_PRIMITIVE_IMPL l \<longleftrightarrow> l < EJSVAL_SHIFTED_TAG_OBJECT"

definition EJSVAL_IS_OBJECT_IMPL :: "ejsval \<Rightarrow> bool option" where
  "EJSVAL_IS_OBJECT_IMPL l =
     ejs_assert (drop_bit EJSVAL_TAG_SHIFT l \<le> EJSVAL_SHIFTED_TAG_OBJECT)
       (Some (EJSVAL_SHIFTED_TAG_OBJECT \<le> l))"

definition EJSVAL_IS_OBJECT_OR_NULL_IMPL :: "ejsval \<Rightarrow> bool option" where
  "EJSVAL_IS_OBJECT_OR_NULL_IMPL l =
     ejs_assert (drop_bit EJSVAL_TAG_SHIFT l \<le> ucast EJSVAL_TAG_OBJECT)
       (Some (EJSVAL_SHIFTED_TAG_NULL \<le> l))"

definition EJSVAL_TO_OBJECT_IMPL :: "ejsval \<Rightarrow> ptr" where
  "EJSVAL_TO_OBJECT_IMPL l = l AND EJSVAL_PAYLOAD_MASK"

definition OBJECT_TO_EJSVAL_IMPL :: "ptr \<Rightarrow> ejsval option" where
  "OBJECT_TO_EJSVAL_IMPL obj =
     ejs_assert (obj \<noteq> 0) (ejs_assert (drop_bit EJSVAL_TAG_SHIFT obj = 0)
       (Some (obj OR EJSVAL_SHIFTED_TAG_OBJECT)))"

definition EJSVAL_IS_NULL_IMPL :: "ejsval \<Rightarrow> bool" where
  "EJSVAL_IS_NULL_IMPL l \<longleftrightarrow> l = EJSVAL_SHIFTED_TAG_NULL"

definition EJSVAL_IS_GCTHING_IMPL :: "ejsval \<Rightarrow> bool" where
  "EJSVAL_IS_GCTHING_IMPL l \<longleftrightarrow> EJSVAL_SHIFTED_TAG_STRING \<le> l"

definition EJSVAL_TO_GCTHING_IMPL :: "ejsval \<Rightarrow> ptr" where
  "EJSVAL_TO_GCTHING_IMPL l = l AND EJSVAL_PAYLOAD_MASK"

definition EJSVAL_IS_TRACEABLE_IMPL :: "ejsval \<Rightarrow> bool" where
  "EJSVAL_IS_TRACEABLE_IMPL l \<longleftrightarrow> EJSVAL_IS_GCTHING_IMPL l \<and> \<not> EJSVAL_IS_NULL_IMPL l"

definition EJSVAL_TRACE_KIND_IMPL :: "ejsval \<Rightarrow> uint32 option" where
  "EJSVAL_TRACE_KIND_IMPL l = map_option (\<lambda>b. if \<not> b then 1 else 0) (EJSVAL_IS_OBJECT_IMPL l)"

definition PRIVATE_PTR_TO_EJSVAL_IMPL :: "ptr \<Rightarrow> ejsval option" where
  "PRIVATE_PTR_TO_EJSVAL_IMPL p =
     ejs_assert (p AND 1 = 0)
       (let l = drop_bit 1 p in ejs_assert (EJSVAL_IS_DOUBLE_IMPL l) (Some l))"

definition EJSVAL_TO_PRIVATE_PTR_IMPL :: "ejsval \<Rightarrow> ptr option" where
  "EJSVAL_TO_PRIVATE_PTR_IMPL l =
     ejs_assert (l AND 0x8000000000000000 = 0) (Some (push_bit 1 l))"

definition EJSVAL_IS_SPECIFIC_INT32_IMPL :: "ejsval \<Rightarrow> int32 \<Rightarrow> bool" where
  "EJSVAL_IS_SPECIFIC_INT32_IMPL l i32 \<longleftrightarrow> l = (ucast i32 OR EJSVAL_SHIFTED_TAG_INT32)"

definition EJSVAL_IS_SPECIFIC_BOOLEAN :: "ejsval \<Rightarrow> int32 \<Rightarrow> bool" where
  "EJSVAL_IS_SPECIFIC_BOOLEAN l b \<longleftrightarrow> l = (ucast b OR EJSVAL_SHIFTED_TAG_BOOLEAN)"

definition MAGIC_TO_EJSVAL_IMPL :: "EJSWhyMagic \<Rightarrow> ejsval" where
  "MAGIC_TO_EJSVAL_IMPL why = ucast (why_bits why) OR EJSVAL_SHIFTED_TAG_MAGIC"

definition EJSVAL_SAME_TYPE_IMPL :: "ejsval \<Rightarrow> ejsval \<Rightarrow> bool" where
  "EJSVAL_SAME_TYPE_IMPL lhs rhs \<longleftrightarrow>
     (lhs \<le> EJSVAL_SHIFTED_TAG_MAX_DOUBLE \<and> rhs \<le> EJSVAL_SHIFTED_TAG_MAX_DOUBLE)
     \<or> (lhs XOR rhs) AND 0xFFFF800000000000 = 0"

definition PRIVATE_UINT32_TO_EJSVAL_IMPL :: "uint32 \<Rightarrow> ejsval option" where
  "PRIVATE_UINT32_TO_EJSVAL_IMPL ui =
     (let l = ucast ui in ejs_assert (EJSVAL_IS_DOUBLE_IMPL l) (Some l))"

definition EJSVAL_TO_PRIVATE_UINT32_IMPL :: "ejsval \<Rightarrow> uint32 option" where
  "EJSVAL_TO_PRIVATE_UINT32_IMPL l = ejs_assert (drop_bit 32 l = 0) (Some (ucast l))"

definition EJSVAL_EXTRACT_NON_DOUBLE_TYPE_IMPL :: "ejsval \<Rightarrow> uint8 option" where
  "EJSVAL_EXTRACT_NON_DOUBLE_TYPE_IMPL l =
     (let type = drop_bit EJSVAL_TAG_SHIFT l AND 0xF in
      ejs_assert (type > ucast EJSVAL_TYPE_DOUBLE) (Some (ucast type)))"

text \<open>The value predicates the runtime uses (\<open>ejs-value.h\<close>).\<close>

definition EJSVAL_IS_PRIMITIVE :: "ejsval \<Rightarrow> bool" where
  "EJSVAL_IS_PRIMITIVE v \<longleftrightarrow>
     EJSVAL_IS_DOUBLE_IMPL v \<or> EJSVAL_IS_STRING_IMPL v \<or> EJSVAL_IS_BOOLEAN_IMPL v
     \<or> EJSVAL_IS_UNDEFINED_IMPL v \<or> EJSVAL_IS_SYMBOL_IMPL v"

definition EJSVAL_IS_NULL_OR_UNDEFINED :: "ejsval \<Rightarrow> bool" where
  "EJSVAL_IS_NULL_OR_UNDEFINED v \<longleftrightarrow> EJSVAL_IS_NULL_IMPL v \<or> EJSVAL_IS_UNDEFINED_IMPL v"

definition EJSVAL_IS_NO_ITER_VALUE_MAGIC :: "ejsval \<Rightarrow> bool" where
  "EJSVAL_IS_NO_ITER_VALUE_MAGIC v \<longleftrightarrow>
     EJSVAL_IS_MAGIC_IMPL v \<and> EJSVAL_TO_INT32_IMPL v = why_bits EJS_NO_ITER_VALUE"

definition EJSVAL_IS_ARRAY_HOLE_MAGIC :: "ejsval \<Rightarrow> bool" where
  "EJSVAL_IS_ARRAY_HOLE_MAGIC v \<longleftrightarrow>
     EJSVAL_IS_MAGIC_IMPL v \<and> EJSVAL_TO_INT32_IMPL v = why_bits EJS_ARRAY_HOLE"

section \<open>The tag view of a value\<close>

text \<open>
  Each predicate of the header compares the word, or its upper 17 bits, with a
  constant.  The lemmas below restate all of them over \<^term>\<open>drop_bit 47 l\<close>.
\<close>

lemma ucast_tag_eq:
  "(ucast (drop_bit 47 (l::64 word)) :: 32 word) = t \<longleftrightarrow> drop_bit 47 l = ucast t \<and> t < 0x20000"
proof
  assume "(ucast (drop_bit 47 l) :: 32 word) = t"
  moreover have "unat (ucast (drop_bit 47 l) :: 32 word) = unat (drop_bit 47 l)"
    using drop_bit_47_bound [of l] by (simp add: unsigned_ucast_eq take_bit_nat_eq_self)
  moreover have "unat (ucast t :: 64 word) = unat t"
    using unsigned_less [of t, where 'a = nat] by (simp add: unsigned_ucast_eq take_bit_nat_eq_self)
  ultimately show "drop_bit 47 l = ucast t \<and> t < 0x20000"
    using drop_bit_47_bound [of l] by (auto simp: word_unat_eq_iff word_less_nat_alt)
next
  assume "drop_bit 47 l = ucast t \<and> t < 0x20000"
  moreover have "(ucast (ucast t :: 64 word) :: 32 word) = t"
    by (rule bit_word_eqI) (auto simp: bit_simps)
  ultimately show "(ucast (drop_bit 47 l) :: 32 word) = t" by simp
qed

lemma tag_values [simp]:
  "(ucast EJSVAL_TAG_INT32 :: 64 word) = 0x1FFF1"
  "(ucast EJSVAL_TAG_UNDEFINED :: 64 word) = 0x1FFF2"
  "(ucast EJSVAL_TAG_BOOLEAN :: 64 word) = 0x1FFF3"
  "(ucast EJSVAL_TAG_MAGIC :: 64 word) = 0x1FFF4"
  "(ucast EJSVAL_TAG_STRING :: 64 word) = 0x1FFF5"
  "(ucast EJSVAL_TAG_CLOSUREENV :: 64 word) = 0x1FFF6"
  "(ucast EJSVAL_TAG_NULL :: 64 word) = 0x1FFF7"
  "(ucast EJSVAL_TAG_SYMBOL :: 64 word) = 0x1FFF8"
  "(ucast EJSVAL_TAG_OBJECT :: 64 word) = 0x1FFF9"
  by (simp_all add: tag_defs)

lemma tag_less [simp]:
  "EJSVAL_TAG_INT32 < 0x20000" "EJSVAL_TAG_BOOLEAN < 0x20000"
  "EJSVAL_TAG_STRING < 0x20000" "EJSVAL_TAG_CLOSUREENV < 0x20000"
  "EJSVAL_TAG_SYMBOL < 0x20000"
  by (simp_all add: tag_defs)

lemma payload_mask: "EJSVAL_PAYLOAD_MASK = mask 47"
  by (simp add: tag_defs mask_eq_exp_minus_1)

lemma tag_shift [simp]: "EJSVAL_TAG_SHIFT = 47"
  by (simp add: tag_defs)

lemma le_max_double_tag:
  assumes "l \<le> EJSVAL_SHIFTED_TAG_MAX_DOUBLE"
  shows "drop_bit 47 l \<le> 0x1FFF0"
proof (rule ccontr)
  assume "\<not> ?thesis"
  then have "0x1FFF1 \<le> drop_bit 47 l" by (simp add: word_le_iff_unat)
  then have "push_bit 47 0x1FFF1 \<le> l" by (simp add: shifted_tag_le del: push_bit_numeral)
  then show False using assms by (simp add: tag_defs word_le_iff_unat)
qed

lemma is_tag_simps [tag_facts]:
  "EJSVAL_IS_INT32_IMPL l \<longleftrightarrow> drop_bit 47 l = 0x1FFF1"
  "EJSVAL_IS_BOOLEAN_IMPL l \<longleftrightarrow> drop_bit 47 l = 0x1FFF3"
  "EJSVAL_IS_MAGIC_IMPL l \<longleftrightarrow> drop_bit 47 l = 0x1FFF4"
  "EJSVAL_IS_STRING_IMPL l \<longleftrightarrow> drop_bit 47 l = 0x1FFF5"
  "EJSVAL_IS_CLOSUREENV_IMPL l \<longleftrightarrow> drop_bit 47 l = 0x1FFF6"
  "EJSVAL_IS_SYMBOL_IMPL l \<longleftrightarrow> drop_bit 47 l = 0x1FFF8"
  unfolding EJSVAL_IS_INT32_IMPL_def EJSVAL_IS_BOOLEAN_IMPL_def EJSVAL_IS_MAGIC_IMPL_def
    EJSVAL_IS_STRING_IMPL_def EJSVAL_IS_CLOSUREENV_IMPL_def EJSVAL_IS_SYMBOL_IMPL_def
  by (simp_all only: tag_shift ucast_tag_eq tag_values tag_less simp_thms)

lemma is_object_tag [tag_facts]: "EJSVAL_IS_OBJECT_IMPL l = Some (0x1FFF9 \<le> drop_bit 47 l)"
proof -
  have "drop_bit 47 l \<le> EJSVAL_SHIFTED_TAG_OBJECT"
    using drop_bit_47_bound [of l] by (simp add: tag_defs word_le_iff_unat)
  moreover have "(EJSVAL_SHIFTED_TAG_OBJECT \<le> l) = (0x1FFF9 \<le> drop_bit 47 l)"
    by (simp add: EJSVAL_SHIFTED_TAG_OBJECT_def shifted_tag_le del: push_bit_numeral)
  ultimately show ?thesis by (simp add: EJSVAL_IS_OBJECT_IMPL_def)
qed

lemma is_object_or_null_tag [tag_facts]:
  "EJSVAL_IS_OBJECT_OR_NULL_IMPL l =
     (if drop_bit 47 l \<le> 0x1FFF9 then Some (0x1FFF7 \<le> drop_bit 47 l) else None)"
  by (simp add: EJSVAL_IS_OBJECT_OR_NULL_IMPL_def EJSVAL_SHIFTED_TAG_NULL_def shifted_tag_le
      del: push_bit_numeral)

lemma is_gcthing_tag [tag_facts]: "EJSVAL_IS_GCTHING_IMPL l \<longleftrightarrow> 0x1FFF5 \<le> drop_bit 47 l"
  by (simp add: EJSVAL_IS_GCTHING_IMPL_def EJSVAL_SHIFTED_TAG_STRING_def shifted_tag_le
      del: push_bit_numeral)

lemma is_primitive_tag [tag_facts]: "EJSVAL_IS_PRIMITIVE_IMPL l \<longleftrightarrow> drop_bit 47 l < 0x1FFF9"
  unfolding EJSVAL_IS_PRIMITIVE_IMPL_def not_le [symmetric]
  by (simp add: EJSVAL_SHIFTED_TAG_OBJECT_def shifted_tag_le del: push_bit_numeral)

lemma is_number_tag [tag_facts]: "EJSVAL_IS_NUMBER_IMPL l \<longleftrightarrow> drop_bit 47 l < 0x1FFF2"
  unfolding EJSVAL_IS_NUMBER_IMPL_def not_le [symmetric]
  by (simp add: EJSVAL_SHIFTED_TAG_UNDEFINED_def shifted_tag_le del: push_bit_numeral)

lemma is_undefined_tag: "EJSVAL_IS_UNDEFINED_IMPL l \<Longrightarrow> drop_bit 47 l = 0x1FFF2"
  by (simp add: EJSVAL_IS_UNDEFINED_IMPL_def tag_defs)

lemma is_null_tag: "EJSVAL_IS_NULL_IMPL l \<Longrightarrow> drop_bit 47 l = 0x1FFF7"
  by (simp add: EJSVAL_IS_NULL_IMPL_def tag_defs)

lemma is_double_tag: "EJSVAL_IS_DOUBLE_IMPL l \<Longrightarrow> drop_bit 47 l \<le> 0x1FFF0"
  unfolding EJSVAL_IS_DOUBLE_IMPL_def by (rule le_max_double_tag)

lemma not_double_tag: "0x1FFF1 \<le> drop_bit 47 l \<Longrightarrow> \<not> EJSVAL_IS_DOUBLE_IMPL l"
  using is_double_tag by (fastforce simp: word_le_iff_unat)

text \<open>Every tagged value in normal form: a tag constant above a payload.\<close>

lemma tagged_forms:
  "INT32_TO_EJSVAL_IMPL i = push_bit 47 0x1FFF1 OR ucast i"
  "MAGIC_TO_EJSVAL_IMPL w = push_bit 47 0x1FFF4 OR ucast (why_bits w)"
  "EJSVAL_SHIFTED_TAG_UNDEFINED = push_bit 47 0x1FFF2"
  "EJSVAL_SHIFTED_TAG_NULL = push_bit 47 0x1FFF7"
  by (simp_all only: INT32_TO_EJSVAL_IMPL_def MAGIC_TO_EJSVAL_IMPL_def or.commute
      EJSVAL_SHIFTED_TAG_INT32_def EJSVAL_SHIFTED_TAG_MAGIC_def EJSVAL_SHIFTED_TAG_UNDEFINED_def
      EJSVAL_SHIFTED_TAG_NULL_def tag_shift tag_values)

lemma pointer_forms:
  "STRING_TO_EJSVAL_IMPL p = Some l \<longleftrightarrow> p \<noteq> 0 \<and> drop_bit 47 p = 0 \<and> l = push_bit 47 0x1FFF5 OR p"
  "CLOSUREENV_TO_EJSVAL_IMPL p = Some l \<longleftrightarrow> p \<noteq> 0 \<and> drop_bit 47 p = 0 \<and> l = push_bit 47 0x1FFF6 OR p"
  "SYMBOL_TO_EJSVAL_IMPL p = Some l \<longleftrightarrow> p \<noteq> 0 \<and> drop_bit 47 p = 0 \<and> l = push_bit 47 0x1FFF8 OR p"
  "OBJECT_TO_EJSVAL_IMPL p = Some l \<longleftrightarrow> p \<noteq> 0 \<and> drop_bit 47 p = 0 \<and> l = push_bit 47 0x1FFF9 OR p"
  unfolding STRING_TO_EJSVAL_IMPL_def CLOSUREENV_TO_EJSVAL_IMPL_def SYMBOL_TO_EJSVAL_IMPL_def
    OBJECT_TO_EJSVAL_IMPL_def EJSVAL_SHIFTED_TAG_STRING_def EJSVAL_SHIFTED_TAG_CLOSUREENV_def
    EJSVAL_SHIFTED_TAG_SYMBOL_def EJSVAL_SHIFTED_TAG_OBJECT_def tag_shift tag_values
  by (auto simp del: push_bit_numeral simp: or.commute)

lemma boolean_form:
  "BOOLEAN_TO_EJSVAL_IMPL b = Some l \<longleftrightarrow> (b = 1 \<or> b = 0) \<and> l = push_bit 47 0x1FFF3 OR ucast b"
  unfolding BOOLEAN_TO_EJSVAL_IMPL_def EJSVAL_SHIFTED_TAG_BOOLEAN_def tag_shift tag_values
  by (auto simp del: push_bit_numeral simp: or.commute)

lemma drop_tagged [simp]:
  assumes "drop_bit 47 (p::64 word) = 0"
  shows "drop_bit 47 (push_bit 47 0x1FFF1 OR p) = (0x1FFF1::64 word)"
    "drop_bit 47 (push_bit 47 0x1FFF3 OR p) = (0x1FFF3::64 word)"
    "drop_bit 47 (push_bit 47 0x1FFF4 OR p) = (0x1FFF4::64 word)"
    "drop_bit 47 (push_bit 47 0x1FFF5 OR p) = (0x1FFF5::64 word)"
    "drop_bit 47 (push_bit 47 0x1FFF6 OR p) = (0x1FFF6::64 word)"
    "drop_bit 47 (push_bit 47 0x1FFF8 OR p) = (0x1FFF8::64 word)"
    "drop_bit 47 (push_bit 47 0x1FFF9 OR p) = (0x1FFF9::64 word)"
  by (rule drop_bit_tag_payload, simp, rule assms)+

section \<open>What a value denotes\<close>

text \<open>
  The abstract values the words stand for, the encoding by the header's
  constructors and the decoding by its predicates and accessors.
\<close>

datatype jsvalue =
    is_Double: Double double
  | is_Int32: Int32 int32
  | is_Undefined: Undefined
  | is_Boolean: Boolean bool
  | is_Magic: Magic EJSWhyMagic
  | is_String: String ptr
  | is_ClosureEnv: ClosureEnv ptr
  | is_Null: Null
  | is_Symbol: Symbol ptr
  | is_Object: Object ptr

fun encode :: "jsvalue \<Rightarrow> ejsval option" where
  "encode (Double d) = DOUBLE_TO_EJSVAL_IMPL d"
| "encode (Int32 i) = Some (INT32_TO_EJSVAL_IMPL i)"
| "encode Undefined = Some (BUILD_EJSVAL EJSVAL_TAG_UNDEFINED 0)"
| "encode (Boolean b) = BOOLEAN_TO_EJSVAL_IMPL (if b then 1 else 0)"
| "encode (Magic w) = Some (MAGIC_TO_EJSVAL_IMPL w)"
| "encode (String p) = STRING_TO_EJSVAL_IMPL p"
| "encode (ClosureEnv p) = CLOSUREENV_TO_EJSVAL_IMPL p"
| "encode Null = Some (BUILD_EJSVAL EJSVAL_TAG_NULL 0)"
| "encode (Symbol p) = SYMBOL_TO_EJSVAL_IMPL p"
| "encode (Object p) = OBJECT_TO_EJSVAL_IMPL p"

definition all_whys :: "EJSWhyMagic list" where
  "all_whys = [EJS_ARRAY_HOLE, EJS_ARGS_HOLE, EJS_NATIVE_ENUMERATE, EJS_NO_ITER_VALUE,
     EJS_GENERATOR_CLOSING, EJS_NO_CONSTANT, EJS_THIS_POISON, EJS_ARG_POISON,
     EJS_SERIALIZE_NO_NODE, EJS_LAZY_ARGUMENTS, EJS_IS_CONSTRUCTING, EJS_GENERIC_MAGIC]"

definition decode :: "ejsval \<Rightarrow> jsvalue option" where
  "decode l =
     (if EJSVAL_IS_DOUBLE_IMPL l then Some (Double l)
      else if EJSVAL_IS_INT32_IMPL l then Some (Int32 (EJSVAL_TO_INT32_IMPL l))
      else if EJSVAL_IS_UNDEFINED_IMPL l then Some Undefined
      else if EJSVAL_IS_BOOLEAN_IMPL l then Some (Boolean (EJSVAL_TO_BOOLEAN_IMPL l \<noteq> 0))
      else if EJSVAL_IS_MAGIC_IMPL l
        then map_option Magic (List.find (\<lambda>w. why_bits w = EJSVAL_TO_INT32_IMPL l) all_whys)
      else if EJSVAL_IS_STRING_IMPL l then Some (String (EJSVAL_TO_STRING_IMPL l))
      else if EJSVAL_IS_CLOSUREENV_IMPL l then Some (ClosureEnv (EJSVAL_TO_CLOSUREENV_IMPL l))
      else if EJSVAL_IS_NULL_IMPL l then Some Null
      else if EJSVAL_IS_SYMBOL_IMPL l then Some (Symbol (EJSVAL_TO_SYMBOL_IMPL l))
      else if EJSVAL_IS_OBJECT_IMPL l = Some True then Some (Object (EJSVAL_TO_OBJECT_IMPL l))
      else None)"

lemma undefined_null_forms:
  "BUILD_EJSVAL EJSVAL_TAG_UNDEFINED 0 = EJSVAL_SHIFTED_TAG_UNDEFINED"
  "BUILD_EJSVAL EJSVAL_TAG_NULL 0 = EJSVAL_SHIFTED_TAG_NULL"
  by (simp_all add: BUILD_EJSVAL_def tag_defs)

lemma find_why: "List.find (\<lambda>v. why_bits v = why_bits w) all_whys = Some w"
  by (cases w) (simp_all add: all_whys_def)

lemma tag_word_order [simp]:
  "(0x1FFF1::64 word) \<le> 0x1FFF3" "(0x1FFF1::64 word) \<le> 0x1FFF4"
  by (simp_all add: word_le_iff_unat)

lemma low_of_tagged:
  "(ucast (push_bit 47 t OR ucast (x::32 word) :: 64 word) :: 32 word) = x"
  by (rule bit_word_eqI) (auto simp: bit_simps)

lemma not_undefined_null:
  "drop_bit 47 l \<noteq> 0x1FFF2 \<Longrightarrow> \<not> EJSVAL_IS_UNDEFINED_IMPL l"
  "drop_bit 47 l \<noteq> 0x1FFF7 \<Longrightarrow> \<not> EJSVAL_IS_NULL_IMPL l"
  using is_undefined_tag is_null_tag by blast+

text \<open>Which tag an encoded value carries; a double stays below every tag.\<close>

primrec tag_of :: "jsvalue \<Rightarrow> 64 word" where
  "tag_of (Double d) = drop_bit 47 d"
| "tag_of (Int32 _) = 0x1FFF1"
| "tag_of Undefined = 0x1FFF2"
| "tag_of (Boolean _) = 0x1FFF3"
| "tag_of (Magic _) = 0x1FFF4"
| "tag_of (String _) = 0x1FFF5"
| "tag_of (ClosureEnv _) = 0x1FFF6"
| "tag_of Null = 0x1FFF7"
| "tag_of (Symbol _) = 0x1FFF8"
| "tag_of (Object _) = 0x1FFF9"

lemma encode_tag:
  assumes "encode v = Some l"
  shows "drop_bit 47 l = tag_of v"
  using assms
  by (cases v)
    (auto simp: DOUBLE_TO_EJSVAL_IMPL_def tagged_forms pointer_forms boolean_form
      undefined_null_forms ucast_32_drop_47)

lemma encode_double_bound: "encode (Double d) = Some l \<longleftrightarrow> l = d \<and> EJSVAL_IS_DOUBLE_IMPL d"
  by (auto simp: DOUBLE_TO_EJSVAL_IMPL_def EJSVAL_IS_DOUBLE_IMPL_def)

lemma encode_is_double:
  assumes "encode v = Some l"
  shows "EJSVAL_IS_DOUBLE_IMPL l \<longleftrightarrow> (\<exists>d. v = Double d)"
proof (cases "\<exists>d. v = Double d")
  case True then show ?thesis using assms encode_double_bound by auto
next
  case False
  then have "0x1FFF1 \<le> tag_of v" by (cases v) (auto simp: word_le_iff_unat)
  then show ?thesis using not_double_tag encode_tag [OF assms] False by simp
qed

lemma encode_undefined_null:
  assumes "encode v = Some l"
  shows "EJSVAL_IS_UNDEFINED_IMPL l \<longleftrightarrow> v = Undefined" "EJSVAL_IS_NULL_IMPL l \<longleftrightarrow> v = Null"
proof -
  show "EJSVAL_IS_UNDEFINED_IMPL l \<longleftrightarrow> v = Undefined"
  proof
    assume u: "EJSVAL_IS_UNDEFINED_IMPL l"
    then have "tag_of v = 0x1FFF2" using encode_tag [OF assms] is_undefined_tag by simp
    moreover have "\<not> EJSVAL_IS_DOUBLE_IMPL l" using is_undefined_tag [OF u] not_double_tag by simp
    ultimately show "v = Undefined" using encode_is_double [OF assms] by (cases v) auto
  next
    assume "v = Undefined"
    then show "EJSVAL_IS_UNDEFINED_IMPL l"
      using assms by (simp add: EJSVAL_IS_UNDEFINED_IMPL_def undefined_null_forms)
  qed
  show "EJSVAL_IS_NULL_IMPL l \<longleftrightarrow> v = Null"
  proof
    assume u: "EJSVAL_IS_NULL_IMPL l"
    then have "tag_of v = 0x1FFF7" using encode_tag [OF assms] is_null_tag by simp
    moreover have "\<not> EJSVAL_IS_DOUBLE_IMPL l" using is_null_tag [OF u] not_double_tag by simp
    ultimately show "v = Null" using encode_is_double [OF assms] by (cases v) auto
  next
    assume "v = Null"
    then show "EJSVAL_IS_NULL_IMPL l"
      using assms by (simp add: EJSVAL_IS_NULL_IMPL_def undefined_null_forms)
  qed
qed

text \<open>
  The payload accessors invert the constructors.  All pointer accessors mask the
  same 47 bits.
\<close>

lemma pointer_payload:
  "drop_bit 47 p = 0 \<Longrightarrow> (push_bit 47 t OR p) AND EJSVAL_PAYLOAD_MASK = p"
  unfolding payload_mask by (rule payload_tag_payload)

lemmas pointer_accessors =
  EJSVAL_TO_STRING_IMPL_def EJSVAL_TO_CLOSUREENV_IMPL_def EJSVAL_TO_SYMBOL_IMPL_def
  EJSVAL_TO_OBJECT_IMPL_def EJSVAL_TO_GCTHING_IMPL_def

lemma int_payloads:
  "encode (Int32 i) = Some l \<Longrightarrow> EJSVAL_TO_INT32_IMPL l = i"
  "encode (Boolean b) = Some l \<Longrightarrow> EJSVAL_TO_BOOLEAN_IMPL l = (if b then 1 else 0)"
  "encode (Magic w) = Some l \<Longrightarrow> EJSVAL_TO_INT32_IMPL l = why_bits w"
  by (auto simp: EJSVAL_TO_INT32_IMPL_def EJSVAL_TO_BOOLEAN_IMPL_def tagged_forms boolean_form
      low_of_tagged low_of_tagged [where x = 1, simplified] low_of_tagged [where x = 0, simplified]
      simp del: push_bit_numeral)

text \<open>C33: decoding with the header's predicates and accessors inverts encoding with its
  constructors, for every value whose constructor's assertions hold.\<close>

theorem decode_encode:
  assumes "encode v = Some l"
  shows "decode l = Some v"
proof -
  have tag: "drop_bit 47 l = tag_of v" by (rule encode_tag [OF assms])
  note facts = tag encode_is_double [OF assms] encode_undefined_null [OF assms] tag_facts
  show ?thesis
  proof (cases v)
    case (Double d)
    then show ?thesis using assms facts encode_double_bound by (simp add: decode_def)
  next
    case (Int32 i)
    then show ?thesis using assms facts int_payloads(1) [of i l] by (simp add: decode_def)
  next
    case (Boolean b)
    then show ?thesis using assms facts int_payloads(2) [of b l] by (simp add: decode_def)
  next
    case (Magic w)
    then show ?thesis using assms facts int_payloads(3) [of w l] by (simp add: decode_def find_why)
  qed (use assms facts in \<open>auto simp: decode_def pointer_forms pointer_accessors pointer_payload
      simp del: push_bit_numeral\<close>)
qed

theorem decode_encode_witness:
  "encode (Object 0x7F0000001000) = Some 0xFFFCFF0000001000
   \<and> decode 0xFFFCFF0000001000 = Some (Object 0x7F0000001000)"
proof -
  have "encode (Object 0x7F0000001000) = Some 0xFFFCFF0000001000"
    by (simp add: OBJECT_TO_EJSVAL_IMPL_def tag_defs)
  with decode_encode [OF this] show ?thesis by simp
qed

lemma encode_tag_iff:
  assumes "encode v = Some l" "0x1FFF1 \<le> t"
  shows "drop_bit 47 l = t \<longleftrightarrow> \<not> is_Double v \<and> tag_of v = t"
  using encode_tag [OF assms(1)] encode_is_double [OF assms(1)] not_double_tag [of l] assms(2)
  by (auto simp: is_Double_def)

lemma double_tag_bound:
  assumes "encode (Double d) = Some l"
  shows "drop_bit 47 l < 0x1FFF1"
  using is_double_tag [of l] encode_is_double [OF assms] by (auto simp: word_le_iff_unat word_less_nat_alt)

lemma encode_tag_range:
  assumes "encode v = Some l"
  shows "drop_bit 47 l \<le> 0x1FFF9"
proof (cases v)
  case (Double d)
  with assms double_tag_bound [of d l] show ?thesis by (simp add: word_le_iff_unat word_less_nat_alt)
qed (use encode_tag [OF assms] in \<open>simp_all\<close>)

lemma encode_tag_ge:
  assumes "encode v = Some l" "0x1FFF1 \<le> t"
  shows "t \<le> drop_bit 47 l \<longleftrightarrow> \<not> is_Double v \<and> t \<le> tag_of v"
  using encode_tag [OF assms(1)] double_tag_bound [of _ l] assms
  by (cases v) (auto simp: word_le_iff_unat word_less_nat_alt)

lemma encoded_is:
  assumes "encode v = Some l"
  shows "EJSVAL_IS_DOUBLE_IMPL l = is_Double v"
    and "EJSVAL_IS_INT32_IMPL l = is_Int32 v"
    and "EJSVAL_IS_UNDEFINED_IMPL l = is_Undefined v"
    and "EJSVAL_IS_BOOLEAN_IMPL l = is_Boolean v"
    and "EJSVAL_IS_MAGIC_IMPL l = is_Magic v"
    and "EJSVAL_IS_STRING_IMPL l = is_String v"
    and "EJSVAL_IS_CLOSUREENV_IMPL l = is_ClosureEnv v"
    and "EJSVAL_IS_NULL_IMPL l = is_Null v"
    and "EJSVAL_IS_SYMBOL_IMPL l = is_Symbol v"
    and "EJSVAL_IS_OBJECT_IMPL l = Some (is_Object v)"
    and "EJSVAL_IS_OBJECT_OR_NULL_IMPL l = Some (is_Null v \<or> is_Symbol v \<or> is_Object v)"
    and "EJSVAL_IS_TRACEABLE_IMPL l = (is_String v \<or> is_ClosureEnv v \<or> is_Symbol v \<or> is_Object v)"
    and "EJSVAL_IS_NUMBER_IMPL l = (is_Double v \<or> is_Int32 v)"
proof -
  note facts = encode_tag_iff [OF assms] encode_tag_ge [OF assms] encode_tag_range [OF assms]
    encode_is_double [OF assms] encode_undefined_null [OF assms] tag_facts
  show "EJSVAL_IS_DOUBLE_IMPL l = is_Double v" by (simp add: facts is_Double_def)
  show "EJSVAL_IS_INT32_IMPL l = is_Int32 v" by (simp add: facts) (cases v; simp)
  show "EJSVAL_IS_UNDEFINED_IMPL l = is_Undefined v" by (simp add: facts is_Undefined_def)
  show "EJSVAL_IS_BOOLEAN_IMPL l = is_Boolean v" by (simp add: facts) (cases v; simp)
  show "EJSVAL_IS_MAGIC_IMPL l = is_Magic v" by (simp add: facts) (cases v; simp)
  show "EJSVAL_IS_STRING_IMPL l = is_String v" by (simp add: facts) (cases v; simp)
  show "EJSVAL_IS_CLOSUREENV_IMPL l = is_ClosureEnv v" by (simp add: facts) (cases v; simp)
  show "EJSVAL_IS_NULL_IMPL l = is_Null v" by (simp add: facts is_Null_def)
  show "EJSVAL_IS_SYMBOL_IMPL l = is_Symbol v" by (simp add: facts) (cases v; simp)
  show "EJSVAL_IS_OBJECT_IMPL l = Some (is_Object v)" by (simp add: facts) (cases v; simp)
  show "EJSVAL_IS_OBJECT_OR_NULL_IMPL l = Some (is_Null v \<or> is_Symbol v \<or> is_Object v)"
    by (simp add: facts) (cases v; simp)
  show "EJSVAL_IS_TRACEABLE_IMPL l = (is_String v \<or> is_ClosureEnv v \<or> is_Symbol v \<or> is_Object v)"
    by (simp add: facts EJSVAL_IS_TRACEABLE_IMPL_def) (cases v; simp)
  show "EJSVAL_IS_NUMBER_IMPL l = (is_Double v \<or> is_Int32 v)"
    by (simp add: facts not_le [symmetric]) (cases v; simp)
qed

lemma encoded_primitive:
  assumes "encode v = Some l"
  shows "EJSVAL_IS_PRIMITIVE_IMPL l \<longleftrightarrow> \<not> is_Object v"
  using encode_tag_ge [OF assms, of "0x1FFF9"] unfolding is_primitive_tag not_le [symmetric]
  by (cases v) (auto simp: word_le_iff_unat)

lemma encoded_gcthing:
  assumes "encode v = Some l"
  shows "EJSVAL_IS_GCTHING_IMPL l \<longleftrightarrow> is_String v \<or> is_ClosureEnv v \<or> is_Null v \<or> is_Symbol v \<or> is_Object v"
  using encode_tag_ge [OF assms, of "0x1FFF5"] unfolding is_gcthing_tag
  by (cases v) (auto simp: word_le_iff_unat)

text \<open>C34: every type predicate of the header holds of an encoded value exactly when the value was
  built by that type's constructor, so exactly one of the ten holds.  Of the composite predicates,
  NUMBER holds for doubles and int32 values, PRIMITIVE for everything but objects, TRACEABLE for strings,
  closure environments, symbols and objects, GCTHING for these and for null, and OBJECT_OR_NULL for null and
  objects, but also for symbols, whose tag lies between those of null and objects.\<close>

theorem type_predicates_exact:
  assumes "encode v = Some l"
  shows "(EJSVAL_IS_DOUBLE_IMPL l = is_Double v)
       \<and> (EJSVAL_IS_INT32_IMPL l = is_Int32 v)
       \<and> (EJSVAL_IS_UNDEFINED_IMPL l = is_Undefined v)
       \<and> (EJSVAL_IS_BOOLEAN_IMPL l = is_Boolean v)
       \<and> (EJSVAL_IS_MAGIC_IMPL l = is_Magic v)
       \<and> (EJSVAL_IS_STRING_IMPL l = is_String v)
       \<and> (EJSVAL_IS_CLOSUREENV_IMPL l = is_ClosureEnv v)
       \<and> (EJSVAL_IS_NULL_IMPL l = is_Null v)
       \<and> (EJSVAL_IS_SYMBOL_IMPL l = is_Symbol v)
       \<and> (EJSVAL_IS_OBJECT_IMPL l = Some (is_Object v))
       \<and> (EJSVAL_IS_OBJECT_OR_NULL_IMPL l = Some (is_Null v \<or> is_Symbol v \<or> is_Object v))
       \<and> (EJSVAL_IS_TRACEABLE_IMPL l = (is_String v \<or> is_ClosureEnv v \<or> is_Symbol v \<or> is_Object v))
       \<and> (EJSVAL_IS_NUMBER_IMPL l = (is_Double v \<or> is_Int32 v))
       \<and> (EJSVAL_IS_PRIMITIVE_IMPL l = (\<not> is_Object v))
       \<and> (EJSVAL_IS_GCTHING_IMPL l =
             (is_String v \<or> is_ClosureEnv v \<or> is_Null v \<or> is_Symbol v \<or> is_Object v))"
  using encoded_is [OF assms] encoded_primitive [OF assms] encoded_gcthing [OF assms] by blast

theorem type_predicates_exact_witness:
  "encode (Symbol 0x1000) = Some 0xFFFC000000001000
   \<and> EJSVAL_IS_OBJECT_OR_NULL_IMPL 0xFFFC000000001000 = Some True
   \<and> EJSVAL_IS_OBJECT_IMPL 0xFFFC000000001000 = Some False"
proof -
  have e: "encode (Symbol 0x1000) = Some 0xFFFC000000001000"
    by (simp add: SYMBOL_TO_EJSVAL_IMPL_def tag_defs)
  show ?thesis using type_predicates_exact [OF e] e by simp
qed

text \<open>The assertions of the constructors abort exactly on what cannot be represented: a null
  pointer, a pointer of 48 or more bits, and the NaN patterns above \<open>0xFFF80000FFFFFFFF\<close>, which
  would be taken for tagged values.\<close>

theorem encode_aborts_iff:
  "encode v = None \<longleftrightarrow>
     (case v of
        Double d \<Rightarrow> 0xFFF80000FFFFFFFF < d
      | String p \<Rightarrow> p = 0 \<or> 2 ^ 47 \<le> unat p
      | ClosureEnv p \<Rightarrow> p = 0 \<or> 2 ^ 47 \<le> unat p
      | Symbol p \<Rightarrow> p = 0 \<or> 2 ^ 47 \<le> unat p
      | Object p \<Rightarrow> p = 0 \<or> 2 ^ 47 \<le> unat p
      | _ \<Rightarrow> False)"
proof -
  have drop: "drop_bit 47 p = 0 \<longleftrightarrow> unat p < 2 ^ 47" for p :: ptr
    unfolding word_unat_eq_iff [of "drop_bit 47 p"] unat_drop_bit_47 by (simp add: div_eq_0_iff)
  show ?thesis
    by (cases v)
      (simp_all add: DOUBLE_TO_EJSVAL_IMPL_def STRING_TO_EJSVAL_IMPL_def
        CLOSUREENV_TO_EJSVAL_IMPL_def SYMBOL_TO_EJSVAL_IMPL_def OBJECT_TO_EJSVAL_IMPL_def
        BOOLEAN_TO_EJSVAL_IMPL_def ejs_assert_def tag_shift drop not_less not_le tag_defs)
qed

end
