(* ===== verification/EjsList.thy ===== *)
theory EjsList
  imports Prelude
begin

text \<open>
  The intrusive doubly linked lists of \<open>src/runtime/ejs-types.c\<close> and the list macros of
  \<open>src/runtime/ejs-types.h\<close>.  Nodes are addresses, \<open>None\<close> is NULL; the \<open>prev\<close> and
  \<open>next\<close> fields of all nodes form one store that every operation takes and returns.
  The collector keeps its pages in such lists, the promises their reactions.
\<close>

record links =
  prev_of :: "addr \<Rightarrow> addr option"
  next_of :: "addr \<Rightarrow> addr option"

record EJSList =
  head :: "addr option"
  tail :: "addr option"

abbreviation set_prev :: "addr \<Rightarrow> addr option \<Rightarrow> links \<Rightarrow> links" where
  "set_prev n p s \<equiv> s\<lparr>prev_of := (prev_of s)(n := p)\<rparr>"

abbreviation set_next :: "addr \<Rightarrow> addr option \<Rightarrow> links \<Rightarrow> links" where
  "set_next n p s \<equiv> s\<lparr>next_of := (next_of s)(n := p)\<rparr>"

section \<open>The list operations\<close>

definition ejs_list_append_node :: "EJSList \<Rightarrow> addr \<Rightarrow> links \<Rightarrow> EJSList \<times> links" where
  [list_ops]: "ejs_list_append_node list node s =
     (case tail list of
        None \<Rightarrow> (list\<lparr>head := Some node, tail := Some node\<rparr>,
                 set_prev node None (set_next node None s))
      | Some t \<Rightarrow> (list\<lparr>tail := Some node\<rparr>,
                   set_next node None (set_prev node (tail list) (set_next t (Some node) s))))"

definition ejs_list_prepend_node :: "EJSList \<Rightarrow> addr \<Rightarrow> links \<Rightarrow> EJSList \<times> links" where
  [list_ops]: "ejs_list_prepend_node list node s =
     (case head list of
        None \<Rightarrow> (list\<lparr>head := Some node, tail := Some node\<rparr>,
                 set_prev node None (set_next node None s))
      | Some h \<Rightarrow> (list\<lparr>head := Some node\<rparr>,
                   set_prev node None (set_next node (head list) (set_prev h (Some node) s))))"

definition ejs_list_detach_node :: "EJSList \<Rightarrow> addr \<Rightarrow> links \<Rightarrow> EJSList \<times> links" where
  [list_ops]: "ejs_list_detach_node list n s =
     (let list = (if head list = Some n then list\<lparr>head := next_of s n\<rparr> else list);
          list = (if tail list = Some n then list\<lparr>tail := prev_of s n\<rparr> else list);
          s = (case next_of s n of None \<Rightarrow> s | Some m \<Rightarrow> set_prev m (prev_of s n) s);
          s = (case prev_of s n of None \<Rightarrow> s | Some m \<Rightarrow> set_next m (next_of s n) s)
      in (list, set_next n None (set_prev n None s)))"

text \<open>The search loop: the first node that the new node is to precede; \<open>None\<close> when the
  loop does not end (a cyclic list), \<open>Some None\<close> at the end of the list.\<close>

partial_function (option) insert_find ::
  "(addr \<Rightarrow> addr \<Rightarrow> int) \<Rightarrow> addr \<Rightarrow> links \<Rightarrow> addr option \<Rightarrow> addr option option" where
  "insert_find compare node s cur =
     (case cur of
        None \<Rightarrow> Some None
      | Some c \<Rightarrow> if compare node c < 0 then Some cur
                  else insert_find compare node s (next_of s c))"

definition ejs_list_insert_node_sorted ::
  "(addr \<Rightarrow> addr \<Rightarrow> int) \<Rightarrow> EJSList \<Rightarrow> addr \<Rightarrow> links \<Rightarrow> (EJSList \<times> links) option" where
  "ejs_list_insert_node_sorted compare list node s =
     (if head list = None
      then Some (list\<lparr>head := Some node, tail := Some node\<rparr>,
                 set_prev node None (set_next node None s))
      else
        (case insert_find compare node s (head list) of
           None \<Rightarrow> None
         | Some None \<Rightarrow> Some (ejs_list_append_node list node s)
         | Some (Some cur) \<Rightarrow>
             (let s = set_next node (Some cur) (set_prev node (prev_of s cur) s);
                  s = (case prev_of s cur of None \<Rightarrow> s | Some p \<Rightarrow> set_next p (Some node) s);
                  s = (case next_of s cur of None \<Rightarrow> s | Some q \<Rightarrow> set_prev q (Some node) s);
                  list = (if head list = Some cur then list\<lparr>head := Some node\<rparr> else list)
              in Some (list, s))))"

definition ejs_list_pop_head :: "EJSList \<Rightarrow> links \<Rightarrow> EJSList \<times> links" where
  [list_ops]: "ejs_list_pop_head list s =
     (case head list of
        None \<Rightarrow> (list, s)
      | Some h \<Rightarrow>
          (let tl = tail list;
               list = list\<lparr>head := next_of s h\<rparr>;
               list = (if tl = Some h then list\<lparr>tail := None\<rparr> else list)
           in (list, set_next h None (set_prev h None s))))"

partial_function (option) length_loop :: "links \<Rightarrow> addr option \<Rightarrow> nat \<Rightarrow> nat option" where
  "length_loop s el len =
     (case el of None \<Rightarrow> Some len | Some e \<Rightarrow> length_loop s (next_of s e) (len + 1))"

definition ejs_list_length :: "EJSList \<Rightarrow> links \<Rightarrow> nat option" where
  "ejs_list_length list s = length_loop s (head list) 0"

section \<open>The list macros\<close>

text \<open>The macros keep no tail: the list is the pointer to its first node.\<close>

definition EJS_LIST_INIT :: "addr \<Rightarrow> links \<Rightarrow> links" where
  "EJS_LIST_INIT v s = set_prev v None (set_next v None s)"

definition EJS_LIST_PREPEND :: "addr \<Rightarrow> addr option \<Rightarrow> links \<Rightarrow> addr option \<times> links" where
  "EJS_LIST_PREPEND v l s =
     (let s = set_next v l s;
          s = (case l of None \<Rightarrow> s | Some h \<Rightarrow> set_prev h (Some v) s)
      in (Some v, s))"

definition EJS_LIST_DETACH :: "addr \<Rightarrow> addr option \<Rightarrow> links \<Rightarrow> addr option \<times> links" where
  "EJS_LIST_DETACH v l s =
     (let s = (case next_of s v of None \<Rightarrow> s | Some m \<Rightarrow> set_prev m (prev_of s v) s);
          s = (case prev_of s v of None \<Rightarrow> s | Some m \<Rightarrow> set_next m (next_of s v) s);
          l = (if l = Some v then next_of s v else l)
      in (l, EJS_LIST_INIT v s))"

partial_function (option) find_end :: "links \<Rightarrow> addr \<Rightarrow> addr option" where
  "find_end s e = (case next_of s e of None \<Rightarrow> Some e | Some m \<Rightarrow> find_end s m)"

definition EJS_LIST_APPEND :: "addr \<Rightarrow> addr option \<Rightarrow> links \<Rightarrow> (addr option \<times> links) option" where
  "EJS_LIST_APPEND v l s =
     (case l of
        None \<Rightarrow> Some (EJS_LIST_PREPEND v l s)
      | Some h \<Rightarrow>
          (case find_end s h of
             None \<Rightarrow> None
           | Some e \<Rightarrow> Some (l, set_next v None (set_prev v (Some e) (set_next e (Some v) s)))))"

definition EJS_SLIST_ATTACH :: "addr \<Rightarrow> addr option \<Rightarrow> links \<Rightarrow> addr option \<times> links" where
  "EJS_SLIST_ATTACH v l s = (Some v, set_next v l s)"

definition EJS_SLIST_DETACH_HEAD :: "addr option \<Rightarrow> links \<Rightarrow> addr option option" where
  "EJS_SLIST_DETACH_HEAD l s = (case l of None \<Rightarrow> None | Some h \<Rightarrow> Some (next_of s h))"

section \<open>What a list represents\<close>

text \<open>
  \<open>repr\<close> is the contract of the header: both chains hold the same nodes in opposite orders,
  the first node has no predecessor and the last no successor.  \<open>fwd\<close> is the part of it
  that traversal relies on.
\<close>

definition repr :: "links \<Rightarrow> EJSList \<Rightarrow> addr list \<Rightarrow> bool" where
  "repr s l xs \<longleftrightarrow> path (next_of s) (head l) xs \<and> path (prev_of s) (tail l) (rev xs)"

definition fwd :: "links \<Rightarrow> EJSList \<Rightarrow> addr list \<Rightarrow> bool" where
  "fwd s l xs \<longleftrightarrow> path (next_of s) (head l) xs \<and> tail l = (if xs = [] then None else Some (last xs))"

lemma repr_fwd: "repr s l xs \<Longrightarrow> fwd s l xs"
  unfolding repr_def fwd_def using path_hd [of "prev_of s" "tail l" "rev xs"] by (auto simp: hd_rev)

lemma repr_distinct: "repr s l xs \<Longrightarrow> distinct xs"
  unfolding repr_def by (auto dest: path_distinct)

lemma repr_empty: "repr s l [] \<longleftrightarrow> head l = None \<and> tail l = None"
  by (simp add: repr_def)

lemma path_prepend:
  "path f p (rev xs) \<Longrightarrow> xs \<noteq> [] \<Longrightarrow> n \<notin> set xs \<Longrightarrow>
     path (f(hd xs := Some n, n := None)) p (rev xs @ [n])"
  using path_snoc [of f p "rev xs" n] by (simp add: last_rev)

lemma append_fwd:
  assumes "fwd s l xs" "n \<notin> set xs" "ejs_list_append_node l n s = (l', s')"
  shows "fwd s' l' (xs @ [n])"
proof (cases "xs = []")
  case True
  then show ?thesis using assms by (auto simp: fwd_def list_ops)
next
  case False
  then show ?thesis using assms path_snoc [of "next_of s" "head l" xs n]
    by (auto simp: fwd_def list_ops)
qed

lemma append_repr:
  assumes "repr s l xs" "n \<notin> set xs" "ejs_list_append_node l n s = (l', s')"
  shows "repr s' l' (xs @ [n])"
proof -
  have "path (next_of s') (head l') (xs @ [n])"
    using append_fwd [OF repr_fwd [OF assms(1)] assms(2,3)] by (simp add: fwd_def)
  moreover have "path (prev_of s') (tail l') (n # rev xs)"
    using assms repr_fwd [OF assms(1)]
    by (cases "xs = []") (auto simp: repr_def fwd_def list_ops)
  ultimately show ?thesis by (simp add: repr_def)
qed

lemma prepend_repr:
  assumes "repr s l xs" "n \<notin> set xs" "ejs_list_prepend_node l n s = (l', s')"
  shows "repr s' l' (n # xs)"
proof (cases xs)
  case Nil
  then show ?thesis using assms by (auto simp: repr_def list_ops)
next
  case (Cons h t)
  then show ?thesis
    using assms path_prepend [of "prev_of s" "tail l" xs n] by (auto simp: repr_def list_ops)
qed

lemma prepend_fwd:
  assumes "fwd s l xs" "n \<notin> set xs" "ejs_list_prepend_node l n s = (l', s')"
  shows "fwd s' l' (n # xs)"
  using assms by (cases xs) (auto simp: fwd_def list_ops)

lemma pop_head_fwd:
  assumes "fwd s l (x # xs)" "ejs_list_pop_head l s = (l', s')"
  shows "fwd s' l' xs"
proof -
  have "x \<notin> set xs" using assms(1) path_distinct [of _ _ "x # xs"] by (auto simp: fwd_def)
  then show ?thesis using assms last_in_set [of xs]
    by (auto simp: fwd_def list_ops Let_def split: if_splits)
qed

lemma pop_head_tl:
  assumes "fwd s l xs" "ejs_list_pop_head l s = (l', s')"
  shows "fwd s' l' (tl xs)"
proof (cases xs)
  case Nil
  with assms show ?thesis by (auto simp: fwd_def list_ops)
next
  case (Cons x ys)
  with assms pop_head_fwd [of s l x ys] show ?thesis by simp
qed

lemma length_loop_Some: "length_loop s p n = Some m \<longleftrightarrow> (\<exists>xs. path (next_of s) p xs \<and> m = n + length xs)"
proof
  assume "length_loop s p n = Some m"
  then show "\<exists>xs. path (next_of s) p xs \<and> m = n + length xs"
  proof (rule length_loop.raw_induct
      [where P = "\<lambda>s p n m. \<exists>xs. path (next_of s) p xs \<and> m = n + length xs", rotated])
    fix go s el len y
    assume IH: "\<And>s el len y. go s el len = Some y \<Longrightarrow> \<exists>xs. path (next_of s) el xs \<and> y = len + length xs"
      and step: "(case el of None \<Rightarrow> Some len | Some e \<Rightarrow> go s (next_of s e) (len + 1)) = Some y"
    show "\<exists>xs. path (next_of s) el xs \<and> y = len + length xs"
    proof (cases el)
      case (Some e)
      with step have "go s (next_of s e) (len + 1) = Some y" by simp
      from IH [OF this] obtain xs where "path (next_of s) (next_of s e) xs" "y = len + 1 + length xs"
        by blast
      with Some show ?thesis by (auto intro!: exI [of _ "e # xs"])
    qed (use step in auto)
  qed
next
  assume "\<exists>xs. path (next_of s) p xs \<and> m = n + length xs"
  then obtain xs where "path (next_of s) p xs" "m = n + length xs" by blast
  then show "length_loop s p n = Some m"
    by (induction xs arbitrary: p n) (auto simp: length_loop.simps)
qed

lemma length_fwd: "fwd s l xs \<Longrightarrow> ejs_list_length l s = Some (length xs)"
  unfolding ejs_list_length_def length_loop_Some by (auto simp: fwd_def)

lemma repr_around:
  assumes "repr s l (as @ n # bs)"
  shows "next_of s n = (if bs = [] then None else Some (hd bs))"
    and "prev_of s n = (if as = [] then None else Some (last as))"
proof -
  have "path (next_of s) (next_of s n) bs"
    using assms path_split [of "next_of s" _ as n bs] by (auto simp: repr_def)
  from path_hd [OF this] show "next_of s n = (if bs = [] then None else Some (hd bs))" .
  have "path (prev_of s) (prev_of s n) (rev as)"
    using assms path_split [of "prev_of s" _ "rev bs" n "rev as"] by (auto simp: repr_def)
  from path_hd [OF this] show "prev_of s n = (if as = [] then None else Some (last as))"
    by (auto simp: hd_rev split: if_splits)
qed

text \<open>
  Detaching, one chain at a time: the forward chain is relinked at the predecessor,
  the backward chain at the successor.
\<close>

lemma unlink_chain:
  assumes "path f p (as @ n # bs)"
  shows "path (if as = [] then f(n := None) else (f(last as := f n))(n := None))
           (if as = [] then f n else p) (as @ bs)"
proof -
  have "n \<notin> set (as @ bs)" using path_distinct [OF assms] by auto
  then show ?thesis using assms path_unlink [OF assms] by (cases "as = []") auto
qed

lemma detach_repr:
  assumes "repr s l (as @ n # bs)" "ejs_list_detach_node l n s = (l', s')"
  shows "repr s' l' (as @ bs)"
proof -
  note around = repr_around [OF assms(1)]
  have fw: "path (next_of s) (head l) (as @ n # bs)"
    and bw: "path (prev_of s) (tail l) (rev bs @ n # rev as)"
    using assms(1) by (auto simp: repr_def)
  have d: "distinct (as @ n # bs)" by (rule repr_distinct [OF assms(1)])
  have head: "head l = Some n \<longleftrightarrow> as = []" using path_hd [OF fw] d by (cases as) auto
  have tail: "tail l = Some n \<longleftrightarrow> bs = []" using path_hd [OF bw] d by (cases bs rule: rev_cases) auto
  have last: "last (rev bs) = hd bs" "rev bs = [] \<longleftrightarrow> bs = []" by (auto simp: last_rev)
  have "path (next_of s') (head l') (as @ bs)" "path (prev_of s') (tail l') (rev bs @ rev as)"
    using unlink_chain [OF fw] unlink_chain [OF bw] assms(2) around head tail last
    by (cases "as = []"; cases "bs = []"; auto simp: list_ops Let_def split: if_splits)+
  then show ?thesis by (simp add: repr_def)
qed

section \<open>The queue interface\<close>

text \<open>
  The allocator uses a page list as a queue: it takes the page at the head and, when the page
  is full, moves it to the end (\<open>_ejs_gc_alloc\<close>).  What it relies on, for any list with
  these two operations:
\<close>

locale node_queue =
  fixes holds :: "'s \<Rightarrow> 'l \<Rightarrow> addr list \<Rightarrow> bool"
    and push_back :: "'l \<Rightarrow> addr \<Rightarrow> 's \<Rightarrow> 'l \<times> 's"
    and pop_front :: "'l \<Rightarrow> 's \<Rightarrow> 'l \<times> 's"
  assumes push_back_holds:
      "holds s l xs \<Longrightarrow> n \<notin> set xs \<Longrightarrow> push_back l n s = (l', s') \<Longrightarrow> holds s' l' (xs @ [n])"
    and pop_front_holds:
      "holds s l (x # xs) \<Longrightarrow> pop_front l s = (l', s') \<Longrightarrow> holds s' l' xs"
    and holds_distinct: "holds s l xs \<Longrightarrow> distinct xs"
begin

fun push_all :: "addr list \<Rightarrow> 'l \<times> 's \<Rightarrow> 'l \<times> 's" where
  "push_all [] ls = ls"
| "push_all (n # ns) (l, s) = push_all ns (push_back l n s)"

fun rotate_queue :: "addr list \<Rightarrow> 'l \<times> 's \<Rightarrow> 'l \<times> 's" where
  "rotate_queue [] ls = ls"
| "rotate_queue (n # ns) (l, s) =
     rotate_queue ns (let (l, s) = pop_front l s in push_back l n s)"

lemma push_all_holds:
  "holds s l xs \<Longrightarrow> distinct (xs @ ns) \<Longrightarrow> push_all ns (l, s) = (l', s') \<Longrightarrow> holds s' l' (xs @ ns)"
proof (induction ns arbitrary: l s xs)
  case (Cons n ns)
  obtain l1 s1 where p: "push_back l n s = (l1, s1)" by fastforce
  then have "holds s1 l1 (xs @ [n])" using push_back_holds Cons.prems by auto
  from Cons.IH [OF this] show ?case using Cons.prems p by simp
qed simp

lemma rotate_one:
  assumes "holds s l (x # xs)" "pop_front l s = (l1, s1)" "push_back l1 x s1 = (l2, s2)"
  shows "holds s2 l2 (xs @ [x])"
  using push_back_holds [OF pop_front_holds [OF assms(1,2)] _ assms(3)] holds_distinct [OF assms(1)]
  by simp

lemma rotate_holds:
  "holds s l (xs @ ys) \<Longrightarrow> rotate_queue xs (l, s) = (l', s') \<Longrightarrow> holds s' l' (ys @ xs)"
proof (induction xs arbitrary: l s ys)
  case (Cons x xs)
  obtain l1 s1 where p: "pop_front l s = (l1, s1)" by fastforce
  obtain l2 s2 where q: "push_back l1 x s1 = (l2, s2)" by fastforce
  have "holds s2 l2 (xs @ (ys @ [x]))" using rotate_one [OF _ p q, of "xs @ ys"] Cons.prems by simp
  from Cons.IH [OF this] show ?case using Cons.prems p q by simp
qed simp

end

interpretation page_queue: node_queue fwd ejs_list_append_node ejs_list_pop_head
proof
  show "distinct xs" if "fwd s l xs" for s l xs
    using that path_distinct by (auto simp: fwd_def)
qed (fact append_fwd pop_head_fwd)+

text \<open>The traversal contract of the page lists.  Appending, prepending and removing the head
  keep the forward chain and the tail pointer consistent with the expected node sequence, and
  \<open>_ejs_list_length\<close> returns its length (so it terminates).\<close>

theorem list_queue_contract:
  assumes "fwd s l xs" "n \<notin> set xs"
  shows "(let (l', s') = ejs_list_append_node l n s in fwd s' l' (xs @ [n]))
       \<and> (let (l', s') = ejs_list_prepend_node l n s in fwd s' l' (n # xs))
       \<and> (let (l', s') = ejs_list_pop_head l s in fwd s' l' (tl xs))
       \<and> ejs_list_length l s = Some (length xs)"
  using append_fwd [OF assms] prepend_fwd [OF assms] pop_head_tl [OF assms(1)] length_fwd [OF assms(1)]
  by (auto split: prod.split)

theorem list_queue_contract_witness:
  "fwd \<lparr>prev_of = \<lambda>_. None, next_of = \<lambda>_. None\<rparr> \<lparr>head = Some 1, tail = Some 1\<rparr> [1]
   \<and> ejs_list_length \<lparr>head = Some 1, tail = Some 1\<rparr>
        \<lparr>prev_of = \<lambda>_. None, next_of = \<lambda>_. None\<rparr> = Some 1"
proof -
  have f: "fwd \<lparr>prev_of = \<lambda>_. None, next_of = \<lambda>_. None\<rparr> \<lparr>head = Some 1, tail = Some 1\<rparr> [1]"
    by (simp add: fwd_def)
  show ?thesis using list_queue_contract [OF f, of 2] f by simp
qed

text \<open>On a well-formed list, appending, prepending and detaching any member keep both chains
  consistent; the detached node is removed and every other node keeps its place.\<close>

theorem list_repr_contract:
  assumes "repr s l (as @ n # bs)" "m \<notin> set (as @ n # bs)"
  shows "(let (l', s') = ejs_list_append_node l m s in repr s' l' (as @ n # bs @ [m]))
       \<and> (let (l', s') = ejs_list_prepend_node l m s in repr s' l' (m # as @ n # bs))
       \<and> (let (l', s') = ejs_list_detach_node l n s in repr s' l' (as @ bs))"
  using append_repr [OF assms] prepend_repr [OF assms] detach_repr [OF assms(1)]
  by (auto split: prod.split)

theorem list_repr_contract_witness:
  "repr \<lparr>prev_of = (\<lambda>_. None)(2 := Some 1), next_of = (\<lambda>_. None)(1 := Some 2)\<rparr>
      \<lparr>head = Some 1, tail = Some 2\<rparr> ([1] @ 2 # [])
   \<and> (let (l', s') = ejs_list_detach_node \<lparr>head = Some 1, tail = Some 2\<rparr> 2
          \<lparr>prev_of = (\<lambda>_. None)(2 := Some 1), next_of = (\<lambda>_. None)(1 := Some 2)\<rparr>
       in repr s' l' ([1] @ []))"
proof -
  have r: "repr \<lparr>prev_of = (\<lambda>_. None)(2 := Some 1), next_of = (\<lambda>_. None)(1 := Some 2)\<rparr>
      \<lparr>head = Some 1, tail = Some 2\<rparr> ([1] @ 2 # [])"
    by (simp add: repr_def)
  show ?thesis using list_repr_contract [OF r, of 3] r by simp
qed

section \<open>A cycle after rotating and detaching\<close>

lemma cycle_no_length:
  assumes "head l = Some c" "next_of s x = Some c"
    and "\<And>zs. path (next_of s) (Some c) zs \<Longrightarrow> x \<in> set zs"
  shows "ejs_list_length l s = None"
proof (rule ccontr)
  assume "\<not> ?thesis"
  then obtain zs where zs: "path (next_of s) (Some c) zs"
    unfolding ejs_list_length_def using length_loop_Some [of s "head l" 0] assms(1) by auto
  then obtain as bs where "zs = as @ x # bs" using assms(3) by (meson split_list)
  then have p: "path (next_of s) (Some c) (as @ x # bs)" using zs by simp
  from path_split [OF p] have "path (next_of s) (Some c) bs" using assms(2) by simp
  from path_unique [OF this p] show False by simp
qed

lemma chain_visits:
  "path (f(x := q)) p zs \<Longrightarrow> path f p (ys @ [x]) \<Longrightarrow> x \<in> set zs"
proof (induction ys arbitrary: p zs)
  case Nil
  then show ?case by (cases zs) auto
next
  case (Cons y ys)
  then show ?case by (cases zs; cases "y = x") auto
qed

text \<open>\<open>_ejs_list_pop_head\<close> leaves the new head's \<open>prev\<close> pointing at the removed node.  When the
  removed node is appended again, as the allocator does with a full page, and the new head is
  then detached, as the sweep does with an empty page, the list becomes cyclic: traversing it
  does not end.\<close>

theorem rotate_then_detach_cyclic:
  assumes "repr s l (x # y # ys)"
    and "ejs_list_pop_head l s = (l1, s1)"
    and "ejs_list_append_node l1 x s1 = (l2, s2)"
    and "ejs_list_detach_node l2 y s2 = (l3, s3)"
  shows "fwd s2 l2 (y # ys @ [x]) \<and> ejs_list_length l3 s3 = None"
proof -
  have f0: "fwd s l (x # y # ys)" by (rule repr_fwd [OF assms(1)])
  have f2: "fwd s2 l2 (y # ys @ [x])"
    using page_queue.rotate_one [OF f0 assms(2,3)] by simp
  have d: "distinct (x # y # ys)" by (rule repr_distinct [OF assms(1)])
  have prev: "prev_of s2 y = Some x" "tail l2 = Some x" "head l2 = Some y"
    using assms(1-3) d f2 repr_around(2) [of s l "[x]" y ys]
    by (auto simp: list_ops Let_def fwd_def split: if_splits option.splits)
  have p: "path (next_of s2) (next_of s2 y) (ys @ [x])" using f2 by (simp add: fwd_def)
  obtain c where c: "next_of s2 y = Some c" using p by (cases "next_of s2 y") auto
  have l3: "head l3 = Some c" "next_of s3 = (next_of s2)(x := Some c, y := None)"
    using assms(4) prev c d by (auto simp: list_ops Let_def split: if_splits)
  have y: "y \<notin> set (ys @ [x])" using d by auto
  have "x \<in> set zs" if "path (next_of s3) (Some c) zs" for zs
  proof -
    have "path ((next_of s2)(y := None)) (Some c) (ys @ [x])" using p c y by simp
    moreover have "path (((next_of s2)(y := None))(x := Some c)) (Some c) zs"
      using that l3(2) d by (simp add: fun_upd_twist)
    ultimately show ?thesis by (rule chain_visits [rotated])
  qed
  then have "ejs_list_length l3 s3 = None"
    using cycle_no_length [of l3 c s3 x] l3 d by auto
  with f2 show ?thesis by simp
qed

theorem rotate_then_detach_cyclic_witness:
  "\<exists>l s l1 s1 l2 s2 l3 s3. repr s l [1, 2]
     \<and> ejs_list_pop_head l s = (l1, s1) \<and> ejs_list_append_node l1 1 s1 = (l2, s2)
     \<and> ejs_list_detach_node l2 2 s2 = (l3, s3) \<and> ejs_list_length l3 s3 = None"
proof -
  define s where "s = \<lparr>prev_of = (\<lambda>_. None)(2 := Some 1), next_of = (\<lambda>_. None)(1 := Some 2)\<rparr>"
  define l where "l = \<lparr>head = Some (1::addr), tail = Some 2\<rparr>"
  have r: "repr s l (1 # 2 # [])" by (simp add: repr_def s_def l_def)
  obtain l1 s1 where p: "ejs_list_pop_head l s = (l1, s1)" by fastforce
  obtain l2 s2 where q: "ejs_list_append_node l1 1 s1 = (l2, s2)" by fastforce
  obtain l3 s3 where d: "ejs_list_detach_node l2 2 s2 = (l3, s3)" by fastforce
  from rotate_then_detach_cyclic [OF r p q d] r p q d show ?thesis by blast
qed

section \<open>Sorted insertion\<close>

definition not_before :: "(addr \<Rightarrow> addr \<Rightarrow> int) \<Rightarrow> addr \<Rightarrow> addr \<Rightarrow> bool" where
  "not_before cmp n c \<longleftrightarrow> \<not> cmp n c < 0"

lemma insert_find_path:
  "path (next_of s) p xs \<Longrightarrow>
     insert_find cmp n s p = Some (case dropWhile (not_before cmp n) xs of [] \<Rightarrow> None | c # _ \<Rightarrow> Some c)"
  by (induction xs arbitrary: p) (auto simp: insert_find.simps not_before_def)

text \<open>Inserting into a well-formed list terminates and puts the node, along the forward chain,
  before the first node it compares less than; but the backward link of that node is left at its
  old predecessor, so the backward chain misses the new node.\<close>

theorem insert_sorted_forward:
  assumes "repr s l xs" "n \<notin> set xs"
  shows "\<exists>l' s'. ejs_list_insert_node_sorted cmp l n s = Some (l', s')
           \<and> path (next_of s') (head l') (takeWhile (not_before cmp n) xs @ n # dropWhile (not_before cmp n) xs)
           \<and> (dropWhile (not_before cmp n) xs = [] \<or> prev_of s' (hd (dropWhile (not_before cmp n) xs)) \<noteq> Some n)"
proof (cases "dropWhile (not_before cmp n) xs")
  case Nil
  then have t: "takeWhile (not_before cmp n) xs = xs" by (metis append.right_neutral takeWhile_dropWhile_id)
  obtain l' s' where a: "ejs_list_append_node l n s = (l', s')" by fastforce
  have "path (next_of s') (head l') (xs @ [n])"
    using append_repr [OF assms(1,2) a] by (simp add: repr_def)
  moreover have "ejs_list_insert_node_sorted cmp l n s = Some (l', s')"
  proof (cases "head l = None")
    case True
    then have "xs = []" "tail l = None" using assms(1) by (auto simp: repr_def)
    then show ?thesis using a True by (simp add: ejs_list_insert_node_sorted_def list_ops)
  next
    case False
    then show ?thesis
      using a insert_find_path [of s "head l" xs cmp n] assms(1) Nil
      by (auto simp add: ejs_list_insert_node_sorted_def repr_def simp del: dropWhile_eq_Nil_conv)
  qed
  ultimately show ?thesis unfolding Nil t by blast
next
  case (Cons c bs)
  define as where "as = takeWhile (not_before cmp n) xs"
  have xs: "xs = as @ c # bs" unfolding as_def Cons [symmetric] by simp
  have r: "repr s l (as @ c # bs)" using assms(1) xs by simp
  note around = repr_around [OF r]
  have fw: "path (next_of s) (head l) (as @ c # bs)" using r by (simp add: repr_def)
  have d: "distinct (as @ c # bs)" by (rule repr_distinct [OF r])
  have n: "n \<notin> set (as @ c # bs)" using assms(2) xs by simp
  have find: "insert_find cmp n s (head l) = Some (Some c)" "head l \<noteq> None"
    using insert_find_path [of s "head l" xs cmp n] fw xs Cons path_hd [OF fw] by auto
  have hd: "head l = Some c \<longleftrightarrow> as = []" using path_hd [OF fw] d by (cases as) auto
  obtain l' s' where ins: "ejs_list_insert_node_sorted cmp l n s = Some (l', s')"
    using find by (auto simp: ejs_list_insert_node_sorted_def Let_def)
  have "path (next_of s') (head l') (as @ n # c # bs)"
    using ins find around hd fw n d path_link [OF fw _ n] last_in_set [of as]
    by (cases "as = []"; auto simp: ejs_list_insert_node_sorted_def Let_def
        split: if_splits option.splits)
  moreover have "prev_of s' c \<noteq> Some n"
    using ins find around n d last_in_set [of as] hd_in_set [of bs]
    by (cases "as = []"; auto simp: ejs_list_insert_node_sorted_def Let_def
        split: if_splits option.splits)
  ultimately show ?thesis using ins Cons as_def by auto
qed

theorem insert_sorted_forward_witness:
  "\<exists>l' s'. ejs_list_insert_node_sorted (\<lambda>a b. int a - int b) \<lparr>head = Some 3, tail = Some 3\<rparr> 2
       \<lparr>prev_of = \<lambda>_. None, next_of = \<lambda>_. None\<rparr> = Some (l', s')
     \<and> path (next_of s') (head l') [2, 3] \<and> prev_of s' 3 \<noteq> Some 2"
proof -
  have r: "repr \<lparr>prev_of = \<lambda>_. None, next_of = \<lambda>_. None\<rparr> \<lparr>head = Some 3, tail = Some 3\<rparr> [3]"
    by (simp add: repr_def)
  show ?thesis
    using insert_sorted_forward [OF r, of 2 "\<lambda>a b. int a - int b"] by (simp add: not_before_def)
qed

end
