(* ===== verification/Ucs2.thy ===== *)
theory Ucs2
  imports Prelude "HOL-Library.Sublist"
begin

text \<open>
  The UCS-2 and UTF-8 helpers at the top of \<open>src/runtime/ejs-string.c\<close>.  A pointer into a
  C buffer is the list of units from the pointer to the end of the buffer, terminator
  included; reading through the empty list is an out-of-bounds read and yields \<open>None\<close>.
  Plain \<open>char\<close> is signed, as on the x86-64 targets of the build.
\<close>

abbreviation chars :: "'a::zero list \<Rightarrow> 'a list" where
  "chars s \<equiv> takeWhile (\<lambda>c. c \<noteq> 0) s"

section \<open>Comparison, length, copy\<close>

fun strcmp_loop :: "jschar list \<Rightarrow> jschar list \<Rightarrow> int option" where
  "strcmp_loop (a # s1) (b # s2) =
     (if a = b then (if a = 0 then Some 0 else strcmp_loop s1 s2)
      else Some (uint a - uint b))"
| "strcmp_loop _ _ = None"

definition ucs2_strcmp :: "(nat \<Rightarrow> jschar list) \<Rightarrow> nat \<Rightarrow> nat \<Rightarrow> int option" where
  "ucs2_strcmp mem s1 s2 = (if s1 = s2 then Some 0 else strcmp_loop (mem s1) (mem s2))"

fun strlen_loop :: "jschar list \<Rightarrow> int32 \<Rightarrow> int32 option" where
  "strlen_loop [] rv = None"
| "strlen_loop (c # str) rv = (if c = 0 then Some rv else strlen_loop str (rv + 1))"

definition ucs2_strlen :: "jschar list \<Rightarrow> int32 option" where
  "ucs2_strlen str = strlen_loop str 0"

definition ucs2_strdup :: "jschar list \<Rightarrow> jschar list option" where
  "ucs2_strdup str =
     (case ucs2_strlen str of
        None \<Rightarrow> None
      | Some len \<Rightarrow> if sint len < 0 then None else Some (take (nat (sint len)) str @ [0]))"

section \<open>Hashing\<close>

text \<open>One round of the loop: the low byte of the unit, then the high byte (little endian).\<close>

definition hash_round :: "int32 \<Rightarrow> jschar \<Rightarrow> int32" where
  "hash_round hash c =
     (let lo = (ucast c :: uint8);
          hi = (ucast (drop_bit 8 c) :: uint8);
          hash = push_bit 5 hash - hash * scast lo
      in push_bit 5 hash - hash + scast hi)"

fun ucs2_hash :: "jschar list \<Rightarrow> int32 \<Rightarrow> int \<Rightarrow> int32 option" where
  "ucs2_hash [] hash len = (if len \<ge> 0 then None else Some hash)"
| "ucs2_hash (c # str) hash len =
     (if len \<ge> 0 then ucs2_hash str (hash_round hash c) (len - 1) else Some hash)"

section \<open>Searching\<close>

text \<open>
  The inner loop of \<open>ucs2_strstr\<close>: compares the rest of the needle with \<open>p2\<close> and remembers the
  first later position whose unit is \<open>nc\<close>, the needle's first.
\<close>

fun strstr_inner ::
  "jschar \<Rightarrow> jschar list \<Rightarrow> jschar list \<Rightarrow> jschar list option \<Rightarrow> (bool \<times> jschar list option) option" where
  "strstr_inner nc [] p2 next_candidate = None"
| "strstr_inner nc (c # n) p2 next_candidate =
     (if c = 0 then Some (True, next_candidate)
      else case p2 of
        [] \<Rightarrow> None
      | d # p2' \<Rightarrow>
          if c \<noteq> d then Some (False, next_candidate)
          else (case p2' of
              [] \<Rightarrow> None
            | e # _ \<Rightarrow> strstr_inner nc n p2'
                        (if next_candidate = None \<and> e = nc then Some p2' else next_candidate)))"

lemma strstr_inner_candidate:
  "strstr_inner nc n p2 cand = Some (b, Some q) \<Longrightarrow>
     cand = Some q \<or> (cand = None \<and> length q < length p2)"
proof (induction nc n p2 cand arbitrary: rule: strstr_inner.induct)
  case (2 nc c n p2 cand)
  then show ?case by (auto split: if_splits list.splits)
qed simp

function strstr_loop :: "jschar list \<Rightarrow> jschar list \<Rightarrow> jschar list option option" where
  "strstr_loop needle p =
     (case p of
        [] \<Rightarrow> None
      | c # ps \<Rightarrow>
          if c = 0 then Some None
          else (case needle of
              [] \<Rightarrow> None
            | nc # n \<Rightarrow>
                if c = nc then
                  (case ps of
                     [] \<Rightarrow> None
                   | d # _ \<Rightarrow>
                       (case strstr_inner nc n ps (if d = nc then Some ps else None) of
                          None \<Rightarrow> None
                        | Some (True, _) \<Rightarrow> Some (Some p)
                        | Some (False, Some q) \<Rightarrow> strstr_loop needle q
                        | Some (False, None) \<Rightarrow> strstr_loop needle ps))
                else strstr_loop needle ps))"
  by pat_completeness auto
termination
  by (relation "measure (length \<circ> snd)")
    (auto dest!: strstr_inner_candidate split: if_splits)

definition ucs2_strstr :: "jschar list \<Rightarrow> jschar list \<Rightarrow> jschar list option option" where
  "ucs2_strstr haystack needle = strstr_loop needle haystack"

section \<open>UTF-8\<close>

text \<open>Returns the unit (\<open>-1\<close> for an error) and the pointer stored through \<open>end_ptr\<close>.\<close>

definition utf8_to_ucs2 :: "uint8 list \<Rightarrow> (jschar \<times> uint8 list) option" where
  "utf8_to_ucs2 input =
     (case input of
        [] \<Rightarrow> None
      | b0 # r1 \<Rightarrow>
          if b0 = 0 then Some (-1, input)
          else if b0 < 0x80 then Some (ucast b0, r1)
          else if b0 AND 0xE0 = 0xE0 then
            (case r1 of
               [] \<Rightarrow> None
             | b1 # r2 \<Rightarrow>
                 if b1 = 0 then Some (-1, input)
                 else (case r2 of
                     [] \<Rightarrow> None
                   | b2 # r3 \<Rightarrow>
                       if b2 = 0 then Some (-1, input)
                       else Some (push_bit 12 (ucast (b0 AND 0x0F)) OR push_bit 6 (ucast (b1 AND 0x3F))
                                    OR ucast (b2 AND 0x3F), r3)))
          else if b0 AND 0xC0 = 0xC0 then
            (case r1 of
               [] \<Rightarrow> None
             | b1 # r2 \<Rightarrow>
                 if b1 = 0 then Some (-1, input)
                 else Some (push_bit 6 (ucast (b0 AND 0x1F)) OR ucast (b1 AND 0x3F), r2))
          else Some (-1, input))"

text \<open>The bytes written to \<open>utf8\<close> (their number is the return value) and \<open>utf16_adv\<close>.\<close>

definition utf16_to_utf8_char :: "jschar list \<Rightarrow> (uint8 list \<times> nat) option" where
  "utf16_to_utf8_char utf16 =
     (case utf16 of
        [] \<Rightarrow> None
      | ucs2 # rest \<Rightarrow>
          if ucs2 < 0x80 then Some ([ucast ucs2], 1)
          else if ucs2 \<ge> 0x80 \<and> ucs2 < 0x800 then
            Some ([ucast (drop_bit 6 ucs2) OR 0xC0, ucast (ucs2 AND 0x3F) OR 0x80], 1)
          else if ucs2 \<ge> 0xD800 \<and> ucs2 \<le> 0xDFFF then
            (case rest of
               [] \<Rightarrow> None
             | ucs2_2 # _ \<Rightarrow>
                 (let combined = 0x10000 + (push_bit 10 (ucast ucs2 - 0xD800) OR (ucast ucs2_2 - 0xDC00) :: uint32)
                  in Some ([0xF0 OR ucast (drop_bit 18 combined),
                            0x80 OR ucast (drop_bit 12 combined AND 0x3F),
                            0x80 OR ucast (drop_bit 6 combined AND 0x3F),
                            0x80 OR ucast (combined AND 0x3F)], 2)))
          else Some ([ucast (drop_bit 12 ucs2) OR 0xE0, ucast (drop_bit 6 ucs2 AND 0x3F) OR 0x80,
                      ucast (ucs2 AND 0x3F) OR 0x80], 1))"

text \<open>\<open>None\<close> is the abort of \<open>EJS_NOT_IMPLEMENTED\<close>.\<close>

definition ucs2_to_utf8_char :: "jschar \<Rightarrow> uint8 list option" where
  "ucs2_to_utf8_char ucs2 =
     (if ucs2 < 0x80 then Some [ucast ucs2]
      else if ucs2 \<ge> 0x80 \<and> ucs2 < 0x800 then
        Some [ucast (drop_bit 6 ucs2) OR 0xC0, ucast (ucs2 AND 0x3F) OR 0x80]
      else if ucs2 \<ge> 0x800 \<and> ucs2 < 0xFFFF then
        (if ucs2 \<ge> 0xD800 \<and> ucs2 \<le> 0xDFFF then None
         else Some [ucast (drop_bit 12 ucs2) OR 0xE0, ucast (drop_bit 6 ucs2 AND 0x3F) OR 0x80,
                    ucast (ucs2 AND 0x3F) OR 0x80])
      else None)"

text \<open>The loop of \<open>ucs2_to_utf8\<close> over the pointer \<open>p\<close>, the bytes written so far and \<open>len\<close>.
  Each round consumes at least one unit of the buffer.\<close>

function to_utf8_loop :: "jschar list \<Rightarrow> uint8 list \<Rightarrow> int \<Rightarrow> uint8 list option" where
  "to_utf8_loop p out len =
     (case p of
        [] \<Rightarrow> None
      | c # _ \<Rightarrow>
          if c = 0 then Some out
          else (case utf16_to_utf8_char p of
              None \<Rightarrow> None
            | Some (bs, adv) \<Rightarrow>
                if len - 1 = 0 then Some (out @ bs)
                else to_utf8_loop (drop adv p) (out @ bs) (len - 1)))"
  by pat_completeness auto
termination
  by (relation "measure (\<lambda>(p, _, _). length p)")
    (auto simp: utf16_to_utf8_char_def Let_def split: if_splits list.splits)

definition ucs2_to_utf8 :: "jschar list \<Rightarrow> uint8 list option" where
  "ucs2_to_utf8 str =
     (case ucs2_strlen str of
        None \<Rightarrow> None
      | Some len \<Rightarrow>
          if sint len * 4 + 1 < 0 \<or> sint len * 4 + 1 \<ge> 2 ^ 31 then None
          else map_option (\<lambda>out. out @ [0]) (to_utf8_loop str [] (sint len)))"

fun to_utf8_buf_loop :: "jschar list \<Rightarrow> uint8 list \<Rightarrow> int \<Rightarrow> nat \<Rightarrow> uint8 list option option" where
  "to_utf8_buf_loop [] out len buf_size = None"
| "to_utf8_buf_loop (c # p) out len buf_size =
     (if c = 0 then Some (Some out)
      else (case ucs2_to_utf8_char c of
          None \<Rightarrow> None
        | Some bs \<Rightarrow>
            if length (out @ bs) > buf_size then Some None
            else if len - 1 = 0 then Some (Some (out @ bs))
            else to_utf8_buf_loop p (out @ bs) (len - 1) buf_size))"

definition ucs2_to_utf8_buf :: "jschar list \<Rightarrow> nat \<Rightarrow> uint8 list option option" where
  "ucs2_to_utf8_buf str buf_size =
     (case ucs2_strlen str of
        None \<Rightarrow> None
      | Some len \<Rightarrow>
          if unat (scast len :: uint64) > buf_size then Some None
          else map_option (map_option (\<lambda>out. out @ [0])) (to_utf8_buf_loop str [] (sint len) buf_size))"

lemma utf8_to_ucs2_advances:
  "utf8_to_ucs2 stru = Some (c, rest) \<Longrightarrow> c \<noteq> -1 \<Longrightarrow> length rest < length stru"
  by (auto simp: utf8_to_ucs2_def split: if_splits list.splits)

text \<open>The loop of \<open>_ejs_string_new_utf8\<close>: the units stored in the new string's buffer.\<close>

function from_utf8_loop :: "uint8 list \<Rightarrow> jschar list \<Rightarrow> jschar list option" where
  "from_utf8_loop stru out =
     (case stru of
        [] \<Rightarrow> None
      | b # _ \<Rightarrow>
          if b = 0 then Some out
          else (case utf8_to_ucs2 stru of
              None \<Rightarrow> None
            | Some (c, rest) \<Rightarrow> if c = -1 then Some out else from_utf8_loop rest (out @ [c])))"
  by pat_completeness auto
termination
  by (relation "measure (\<lambda>(p, _). length p)") (auto dest: utf8_to_ucs2_advances)

section \<open>Comparison and length\<close>

lemma strcmp_loop_spec:
  "0 \<in> set s1 \<Longrightarrow> 0 \<in> set s2 \<Longrightarrow>
     \<exists>r. strcmp_loop s1 s2 = Some r \<and> (r = 0 \<longleftrightarrow> chars s1 = chars s2)
         \<and> (r < 0 \<longleftrightarrow> ord_class.lexordp (chars s1) (chars s2))"
proof (induction s1 s2 rule: strcmp_loop.induct)
  case (1 a s1 b s2)
  show ?case
  proof (cases "a = b")
    case True
    then show ?thesis using 1 by auto
  next
    case False
    have "uint a - uint b < 0 \<longleftrightarrow> a < b" by (simp add: word_less_def)
    moreover have "uint a \<noteq> uint b" using False by (metis word_uint_eq_iff)
    moreover have "0 < b" if "a = 0" using that False by (auto simp: word_neq_0_conv)
    moreover have "\<not> a < b" if "b = 0" using that by simp
    ultimately show ?thesis using False by auto
  qed
qed auto

lemma strlen_loop_spec: "0 \<in> set s \<Longrightarrow> strlen_loop s rv = Some (rv + of_nat (length (chars s)))"
  by (induction s rv rule: strlen_loop.induct) (auto simp: algebra_simps)

lemma strlen_spec: "0 \<in> set s \<Longrightarrow> ucs2_strlen s = Some (of_nat (length (chars s)))"
  by (simp add: ucs2_strlen_def strlen_loop_spec)

lemma sint_of_nat_small: "n < 2 ^ 31 \<Longrightarrow> sint (of_nat n :: int32) = int n"
  by (simp add: signed_of_nat signed_take_bit_int_eq_self)

lemma chars_append: "0 \<notin> set xs \<Longrightarrow> chars (xs @ ys) = xs @ chars ys"
  by (induction xs) auto

text \<open>\<open>ucs2_strcmp\<close> on terminated strings returns (it does not run past a terminator), returns 0
  exactly for equal strings and a negative number exactly when the first string precedes the
  second in the lexicographic order of code units.\<close>

theorem strcmp_lexicographic:
  assumes "0 \<in> set (mem p)" "0 \<in> set (mem q)"
  shows "\<exists>r. ucs2_strcmp mem p q = Some r \<and> (r = 0 \<longleftrightarrow> chars (mem p) = chars (mem q))
           \<and> (r < 0 \<longleftrightarrow> ord_class.lexordp (chars (mem p)) (chars (mem q)))"
proof (cases "p = q")
  case True
  then show ?thesis by (auto simp: ucs2_strcmp_def lexordp_irreflexive')
next
  case False
  then show ?thesis using strcmp_loop_spec [OF assms] by (simp add: ucs2_strcmp_def)
qed

theorem strcmp_lexicographic_witness:
  "\<exists>r. ucs2_strcmp ((\<lambda>_. [0])(1 := [97, 98, 0], 2 := [97, 99, 0])) 1 2 = Some r \<and> r < 0"
  using strcmp_lexicographic [of "(\<lambda>_. [0])(1 := [97, 98, 0], 2 := [97, 99, 0])" 1 2] by auto

section \<open>The hash\<close>

lemma hash_round_zero: "c < 256 \<Longrightarrow> hash_round 0 c = 0"
proof -
  assume "c < 256"
  then have "unat (drop_bit 8 c) = 0"
    unfolding unat_drop_bit_eq by (simp add: drop_bit_eq_div word_less_nat_alt)
  then have "drop_bit 8 c = 0" by (simp add: unat_eq_0)
  then show ?thesis by (simp add: hash_round_def Let_def)
qed

lemma ucs2_hash_prefix:
  "int (length s1) = len + 1 \<Longrightarrow> ucs2_hash (s1 @ t) hash len = ucs2_hash (s1 @ u) hash len"
proof (induction s1 arbitrary: hash len)
  case Nil
  then show ?case by (cases t; cases u) auto
qed simp

lemma ucs2_hash_append:
  "int (length s1) = len + 1 \<Longrightarrow> ucs2_hash (s1 @ t) hash len = Some (foldl hash_round hash s1)"
proof (induction s1 arbitrary: hash len)
  case Nil
  then show ?case by (cases t) auto
qed simp

lemma foldl_hash_zero: "\<forall>c\<in>set s. c < 256 \<Longrightarrow> foldl hash_round 0 s = 0"
  by (induction s) (auto simp: hash_round_zero)

text \<open>Because the low byte is multiplied into the hash instead of added, the hash of every
  string whose code units are all below 256 is 0, whatever the string; such strings all share
  one bucket of every property map.\<close>

theorem latin1_strings_hash_to_zero:
  assumes "\<forall>c\<in>set cs. c < 256"
  shows "ucs2_hash (cs @ 0 # rest) 0 (int (length cs)) = Some 0"
proof -
  have "ucs2_hash ((cs @ [0]) @ rest) 0 (int (length cs)) = Some (foldl hash_round 0 (cs @ [0]))"
    by (rule ucs2_hash_append) simp
  then show ?thesis using foldl_hash_zero [of "cs @ [0]"] assms by simp
qed

theorem latin1_strings_hash_to_zero_witness:
  "ucs2_hash [108, 101, 110, 103, 116, 104, 0] 0 6 = Some 0"
  using latin1_strings_hash_to_zero [of "[108, 101, 110, 103, 116, 104]" "[]"] by simp

section \<open>Searching\<close>

text \<open>The reference: the first position of the haystack the needle is a prefix of.\<close>

fun first_occurrence :: "jschar list \<Rightarrow> jschar list \<Rightarrow> jschar list option" where
  "first_occurrence nd [] = None"
| "first_occurrence nd (c # p) =
     (if c = 0 then None
      else if prefix nd (chars (c # p)) then Some (c # p)
      else first_occurrence nd p)"

lemma first_occurrence_skip:
  "nc \<notin> set us \<Longrightarrow> 0 \<notin> set us \<Longrightarrow> first_occurrence (nc # nd) (us @ q) = first_occurrence (nc # nd) q"
  by (induction us) auto

lemma strstr_inner_spec:
  "0 \<in> set n \<Longrightarrow> 0 \<in> set p2 \<Longrightarrow> (cand = None \<longrightarrow> hd p2 \<noteq> nc) \<Longrightarrow>
     \<exists>m. strstr_inner nc n p2 cand = Some (prefix (chars n) (chars p2), m)
       \<and> (cand \<noteq> None \<longrightarrow> m = cand)
       \<and> (cand = None \<longrightarrow> (\<forall>q. m = Some q \<longrightarrow>
            (\<exists>us. p2 = us @ q \<and> us \<noteq> [] \<and> nc \<notin> set us \<and> 0 \<notin> set us \<and> 0 \<in> set q)))"
proof (induction n arbitrary: p2 cand)
  case (Cons c n)
  show ?case
  proof (cases "c = 0")
    case False
    obtain d p2' where p2: "p2 = d # p2'" using Cons.prems(2) by (cases p2) auto
    show ?thesis
    proof (cases "c = d")
      case True
      then have "0 \<in> set p2'" using Cons.prems(2) p2 False by auto
      then obtain e p3 where p2': "p2' = e # p3" by (cases p2') auto
      define cand' where "cand' = (if cand = None \<and> e = nc then Some p2' else cand)"
      have "cand' = None \<longrightarrow> hd p2' \<noteq> nc" using p2' by (auto simp: cand'_def)
      with Cons.IH [of p2' cand'] Cons.prems False \<open>0 \<in> set p2'\<close> obtain m where m:
        "strstr_inner nc n p2' cand' = Some (prefix (chars n) (chars p2'), m)"
        "cand' \<noteq> None \<longrightarrow> m = cand'"
        "cand' = None \<longrightarrow> (\<forall>q. m = Some q \<longrightarrow>
            (\<exists>us. p2' = us @ q \<and> us \<noteq> [] \<and> nc \<notin> set us \<and> 0 \<notin> set us \<and> 0 \<in> set q))"
        by auto
      have "strstr_inner nc (c # n) p2 cand = strstr_inner nc n p2' cand'"
        using False True p2 p2' by (simp add: cand'_def)
      moreover have "prefix (chars (c # n)) (chars p2) = prefix (chars n) (chars p2')"
        using False True p2 by simp
      ultimately have "strstr_inner nc (c # n) p2 cand = Some (prefix (chars (c # n)) (chars p2), m)"
        using m(1) by simp
      moreover have "\<exists>us. p2 = us @ q \<and> us \<noteq> [] \<and> nc \<notin> set us \<and> 0 \<notin> set us \<and> 0 \<in> set q"
        if "cand = None" "m = Some q" for q
      proof (cases "e = nc")
        case True
        then have "q = p2'" using m(2) that by (simp add: cand'_def)
        then show ?thesis
          using that p2 Cons.prems(3) \<open>c = d\<close> False \<open>0 \<in> set p2'\<close> by (auto intro!: exI [of _ "[d]"])
      next
        case False
        with m(3) that obtain us where "p2' = us @ q" "nc \<notin> set us" "0 \<notin> set us" "0 \<in> set q"
          by (auto simp: cand'_def)
        then show ?thesis
          using that p2 Cons.prems(3) \<open>c = d\<close> \<open>c \<noteq> 0\<close> by (auto intro!: exI [of _ "d # us"])
      qed
      ultimately show ?thesis using m(2) by (auto simp: cand'_def)
    next
      case False
      have "\<not> prefix (chars (c # n)) (chars p2)" using False \<open>c \<noteq> 0\<close> p2 by auto
      then show ?thesis using False \<open>c \<noteq> 0\<close> p2 by auto
    qed
  qed auto
qed simp

lemma strstr_loop_spec:
  assumes "nc \<noteq> 0" "0 \<in> set n"
  shows "0 \<in> set p \<Longrightarrow> strstr_loop (nc # n) p = Some (first_occurrence (nc # chars n) p)"
proof (induction "length p" arbitrary: p rule: less_induct)
  case less
  obtain c ps where p: "p = c # ps" using less.prems by (cases p) auto
  consider (null) "c = 0" | (other) "c \<noteq> 0" "c \<noteq> nc" | (hit) "c \<noteq> 0" "c = nc" by blast
  then show ?case
  proof cases
    case null
    then show ?thesis using p by simp
  next
    case other
    then have "strstr_loop (nc # n) p = strstr_loop (nc # n) ps" using p by simp
    moreover have "0 \<in> set ps" using other p less.prems by auto
    ultimately show ?thesis using less.hyps [of ps] other p by simp
  next
    case hit
    have ps: "0 \<in> set ps" using hit p less.prems by auto
    then obtain d ds where d: "ps = d # ds" by (cases ps) auto
    define cand where "cand = (if d = nc then Some ps else None)"
    have "cand = None \<longrightarrow> hd ps \<noteq> nc" using d by (simp add: cand_def)
    from strstr_inner_spec [OF assms(2) ps this] obtain m where
      m: "strstr_inner nc n ps cand = Some (prefix (chars n) (chars ps), m)"
        "cand \<noteq> None \<longrightarrow> m = cand"
        "cand = None \<longrightarrow> (\<forall>q. m = Some q \<longrightarrow>
            (\<exists>us. ps = us @ q \<and> us \<noteq> [] \<and> nc \<notin> set us \<and> 0 \<notin> set us \<and> 0 \<in> set q))" by blast
    have step: "strstr_loop (nc # n) p =
        (if prefix (chars n) (chars ps) then Some (Some p)
         else strstr_loop (nc # n) (case m of Some q \<Rightarrow> q | None \<Rightarrow> ps))"
      using m(1) hit p d unfolding cand_def
      by (subst strstr_loop.simps) (auto split: option.split)
    show ?thesis
    proof (cases "prefix (chars n) (chars ps)")
      case True
      then show ?thesis using step hit p by simp
    next
      case False
      have "first_occurrence (nc # chars n) p = first_occurrence (nc # chars n) ps"
        using False hit p by simp
      moreover have "strstr_loop (nc # n) (case m of Some q \<Rightarrow> q | None \<Rightarrow> ps)
          = Some (first_occurrence (nc # chars n) ps)"
      proof (cases m)
        case None
        then show ?thesis using less.hyps [of ps] ps p by simp
      next
        case (Some q)
        then obtain us where us: "ps = us @ q" "nc \<notin> set us" "0 \<notin> set us" "0 \<in> set q"
          using m(2,3) ps unfolding cand_def by (cases "d = nc") (auto intro: exI [of _ "[]"])
        then show ?thesis
          using less.hyps [of q] Some p first_occurrence_skip [of nc us "chars n" q] by simp
      qed
      ultimately show ?thesis using step False by simp
    qed
  qed
qed

lemma strstr_empty_needle: "0 \<in> set p \<Longrightarrow> strstr_loop (0 # n) p = Some None"
  by (induction p) auto

text \<open>C36: for a terminated haystack and a nonempty terminated needle, the candidate-skipping search
  of \<open>ucs2_strstr\<close> terminates, stays inside both buffers and returns the first occurrence,
  NULL when there is none.  For the empty needle it always returns NULL.\<close>

theorem strstr_first_occurrence:
  assumes "0 \<in> set haystack" "0 \<in> set needle"
  shows "ucs2_strstr haystack needle =
    Some (if chars needle = [] then None else first_occurrence (chars needle) haystack)"
proof -
  obtain nc n where needle: "needle = nc # n" using assms(2) by (cases needle) auto
  show ?thesis
  proof (cases "nc = 0")
    case True
    then show ?thesis using assms needle strstr_empty_needle by (simp add: ucs2_strstr_def)
  next
    case False
    then show ?thesis using assms needle strstr_loop_spec [of nc n haystack] by (simp add: ucs2_strstr_def)
  qed
qed

theorem strstr_first_occurrence_witness:
  "ucs2_strstr [97, 97, 98, 97, 98, 99, 0] [97, 98, 99, 0] = Some (Some [97, 98, 99, 0])"
  using strstr_first_occurrence [of "[97, 97, 98, 97, 98, 99, 0]" "[97, 98, 99, 0]"] by simp

section \<open>UTF-8 conversion\<close>

lemma byte_masks:
  "(0x3F :: 16 word) = mask 6" "(0x3F :: 8 word) = mask 6"
  "(0x0F :: 8 word) = mask 4" "(0x1F :: 8 word) = mask 5"
  "(0xE0 :: 8 word) = push_bit 5 (mask 3)" "(0xC0 :: 8 word) = push_bit 6 (mask 2)"
  "(0x80 :: 8 word) = push_bit 7 (mask 1)"
  by (simp_all add: mask_eq_exp_minus_1)

lemma bits_below:
  assumes "unat (c :: jschar) < 2 ^ n"
  shows "n \<le> k \<Longrightarrow> \<not> bit c k"
proof -
  assume "n \<le> k"
  have "take_bit n (unat c) = unat c" using assms by (simp add: take_bit_nat_eq_self)
  then have "bit (unat c) k = (k < n \<and> bit (unat c) k)" by (metis bit_take_bit_iff)
  then show "\<not> bit c k" using \<open>n \<le> k\<close> by (simp add: bit_unsigned_iff) 
qed

lemma bit_0x80: "bit (0x80 :: int) n \<longleftrightarrow> n = 7" "bit (0x80 :: nat) n \<longleftrightarrow> n = 7"
  using bit_exp_iff [of 7 n, where 'a = int] bit_exp_iff [of 7 n, where 'a = nat] by auto

lemma three_bytes:
  "push_bit 12 (ucast ((ucast (drop_bit 12 c) OR 0xE0) AND 0x0F :: uint8)) OR
   push_bit 6 (ucast ((ucast (drop_bit 6 c AND 0x3F) OR 0x80) AND 0x3F :: uint8)) OR
   ucast ((ucast (c AND 0x3F) OR 0x80) AND 0x3F :: uint8) = (c :: jschar)"
  unfolding byte_masks
proof (rule bit_word_eqI)
  fix n assume "n < LENGTH(16)"
  then show "bit (push_bit 12 (ucast ((ucast (drop_bit 12 c) OR push_bit 5 (mask 3)) AND mask 4 :: uint8)) OR
   push_bit 6 (ucast ((ucast (drop_bit 6 c AND mask 6) OR push_bit 7 (mask 1)) AND mask 6 :: uint8)) OR
   ucast ((ucast (c AND mask 6) OR push_bit 7 (mask 1)) AND mask 6 :: uint8) :: jschar) n = bit c n"
    by (cases "n < 6"; cases "n < 12") (auto simp: bit_simps bit_0x80)
qed

lemma two_bytes:
  assumes "c < 0x800"
  shows "push_bit 6 (ucast ((ucast (drop_bit 6 c) OR 0xC0) AND 0x1F :: uint8)) OR
    ucast ((ucast (c AND 0x3F) OR 0x80) AND 0x3F :: uint8) = (c :: jschar)"
  unfolding byte_masks
proof (rule bit_word_eqI)
  fix n assume "n < LENGTH(16)"
  moreover have "\<not> bit c n" if "11 \<le> n" using bits_below [of c 11 n] assms that
    by (simp add: word_less_nat_alt)
  ultimately show "bit (push_bit 6 (ucast ((ucast (drop_bit 6 c) OR push_bit 6 (mask 2)) AND mask 5 :: uint8)) OR
    ucast ((ucast (c AND mask 6) OR push_bit 7 (mask 1)) AND mask 6 :: uint8) :: jschar) n = bit c n"
    by (cases "n < 6"; cases "n < 11") (auto simp: bit_simps bit_0x80)
qed

lemma high_bits:
  "(x OR 0xE0) AND 0xE0 = (0xE0 :: uint8)" "(x OR 0xC0) AND 0xC0 = (0xC0 :: uint8)"
  by (rule bit_word_eqI; auto simp: bit_simps)+

lemma bit7_ge: "bit (b :: uint8) 7 \<Longrightarrow> 0x80 \<le> b"
proof -
  assume "bit b 7"
  then have "bit (unat b) 7" by (simp add: bit_unsigned_iff)
  then have "odd (unat b div 128)" by (simp add: bit_iff_odd)
  then have "unat b div 128 \<noteq> 0" by (metis even_zero)
  then have "128 \<le> unat b" by (metis div_less not_less)
  then show "0x80 \<le> b" by (simp add: word_le_nat_alt)
qed

lemma lead_bytes:
  "x OR 0x80 \<noteq> (0 :: uint8)" "x OR 0xE0 \<noteq> (0 :: uint8)" "x OR 0xC0 \<noteq> (0 :: uint8)"
  "\<not> x OR 0xE0 < (0x80 :: uint8)" "\<not> x OR 0xC0 < (0x80 :: uint8)"
proof -
  have "0x80 \<le> x OR 0x80" "0x80 \<le> x OR 0xE0" "0x80 \<le> x OR 0xC0"
    by (rule bit7_ge; simp add: bit_simps)+
  then show "x OR 0x80 \<noteq> (0 :: uint8)" "x OR 0xE0 \<noteq> (0 :: uint8)" "x OR 0xC0 \<noteq> (0 :: uint8)"
    "\<not> x OR 0xE0 < (0x80 :: uint8)" "\<not> x OR 0xC0 < (0x80 :: uint8)"
    by auto
qed

lemma two_byte_lead:
  assumes "c < 0x800"
  shows "(ucast (drop_bit 6 (c :: jschar)) OR 0xC0) AND 0xE0 \<noteq> (0xE0 :: uint8)"
proof
  assume "(ucast (drop_bit 6 c) OR 0xC0) AND 0xE0 = (0xE0 :: uint8)"
  then have "bit ((ucast (drop_bit 6 c) OR 0xC0) AND 0xE0 :: uint8) 5 = bit (0xE0 :: uint8) 5" by simp
  then have "bit c 11" by (simp add: bit_simps)
  then show False using bits_below [of c 11 11] assms by (simp add: word_less_nat_alt)
qed

lemma utf8_char_roundtrip:
  assumes "c \<noteq> 0" "\<not> (0xD800 \<le> c \<and> c \<le> 0xDFFF)" "utf16_to_utf8_char (c # r) = Some (bs, adv)"
  shows "utf8_to_ucs2 (bs @ t) = Some (c, t)" and "adv = 1" and "hd bs \<noteq> 0" and "0 < length bs \<and> length bs \<le> 3"
proof -
  consider (one) "c < 0x80" | (two) "\<not> c < 0x80" "c < 0x800" | (three) "\<not> c < 0x80" "\<not> c < 0x800" by blast
  then have "utf8_to_ucs2 (bs @ t) = Some (c, t) \<and> adv = 1 \<and> hd bs \<noteq> 0 \<and> 0 < length bs \<and> length bs \<le> 3"
  proof cases
    case one
    have u: "unat (ucast c :: uint8) = unat c"
      using one by (simp add: unsigned_ucast_eq take_bit_nat_eq_self word_less_nat_alt)
    have "(ucast c :: uint8) \<noteq> 0" "(ucast c :: uint8) < 0x80"
      using u assms(1) one by (auto simp: word_less_nat_alt unat_eq_0 simp flip: unat_eq_zero)
    moreover have "ucast (ucast c :: uint8) = c"
      using u by (simp add: word_unat_eq_iff unsigned_ucast_eq unsigned_take_bit_eq)
    ultimately show ?thesis using assms(3) one by (auto simp: utf16_to_utf8_char_def utf8_to_ucs2_def)
  next
    case two
    then have "0x80 \<le> c" by simp
    with two assms(3) have "bs = [ucast (drop_bit 6 c) OR 0xC0, ucast (c AND 0x3F) OR 0x80]" "adv = 1"
      by (simp_all add: utf16_to_utf8_char_def)
    then show ?thesis using two_bytes [OF two(2)] two_byte_lead [OF two(2)]
      by (simp add: utf8_to_ucs2_def lead_bytes high_bits)
  next
    case three
    then have "bs = [ucast (drop_bit 12 c) OR 0xE0, ucast (drop_bit 6 c AND 0x3F) OR 0x80,
                     ucast (c AND 0x3F) OR 0x80]" "adv = 1"
      using assms(2,3) by (auto simp: utf16_to_utf8_char_def split: if_splits)
    then show ?thesis using three_bytes [of c]
      by (simp add: utf8_to_ucs2_def lead_bytes high_bits)
  qed
  then show "utf8_to_ucs2 (bs @ t) = Some (c, t)" "adv = 1" "hd bs \<noteq> 0" "0 < length bs \<and> length bs \<le> 3" by auto
qed
text \<open>Code units that are not half of a surrogate pair, nor NUL, nor the error value.\<close>

definition plain_unit :: "jschar \<Rightarrow> bool" where
  "plain_unit c \<longleftrightarrow> c \<noteq> 0 \<and> \<not> (0xD800 \<le> c \<and> c \<le> 0xDFFF) \<and> c \<noteq> -1"

definition unit_bytes :: "jschar \<Rightarrow> uint8 list" where
  "unit_bytes c = fst (the (utf16_to_utf8_char [c]))"

lemma plain_unit_bytes:
  assumes "plain_unit c"
  shows "utf16_to_utf8_char (c # r) = Some (unit_bytes c, 1)"
    and "utf8_to_ucs2 (unit_bytes c @ t) = Some (c, t)"
    and "unit_bytes c = b # bs \<Longrightarrow> b \<noteq> 0" and "unit_bytes c \<noteq> []"
proof -
  have "\<exists>bs adv. utf16_to_utf8_char (c # r) = Some (bs, adv) \<and> utf16_to_utf8_char [c] = Some (bs, adv)"
    using assms by (auto simp: utf16_to_utf8_char_def plain_unit_def)
  then obtain bs adv where e: "utf16_to_utf8_char (c # r) = Some (bs, adv)"
    "utf16_to_utf8_char [c] = Some (bs, adv)" by blast
  have p: "c \<noteq> 0" "\<not> (0xD800 \<le> c \<and> c \<le> 0xDFFF)" using assms by (auto simp: plain_unit_def)
  note rt = utf8_char_roundtrip [OF p e(1)]
  show "utf16_to_utf8_char (c # r) = Some (unit_bytes c, 1)" using e rt by (simp add: unit_bytes_def)
  show "utf8_to_ucs2 (unit_bytes c @ t) = Some (c, t)" using e rt(1) [of t] by (simp add: unit_bytes_def)
  show "unit_bytes c = b # bs \<Longrightarrow> b \<noteq> 0" for b bs using e rt(3) by (simp add: unit_bytes_def)
  show "unit_bytes c \<noteq> []" using e rt(4) by (simp add: unit_bytes_def)
qed

declare to_utf8_loop.simps [simp del] from_utf8_loop.simps [simp del] strstr_loop.simps [simp del]

lemma to_utf8_loop_plain:
  "\<forall>c\<in>set cs. plain_unit c \<Longrightarrow>
     to_utf8_loop (cs @ 0 # rest) out (int (length cs)) = Some (out @ concat (map unit_bytes cs))"
proof (induction cs arbitrary: out)
  case Nil
  then show ?case by (simp add: to_utf8_loop.simps)
next
  case (Cons c cs)
  have u: "utf16_to_utf8_char (c # cs @ 0 # rest) = Some (unit_bytes c, 1)"
    using Cons.prems by (simp add: plain_unit_bytes)
  have "c \<noteq> 0" using Cons.prems by (simp add: plain_unit_def)
  then show ?case using Cons u by (cases cs) (simp_all add: to_utf8_loop.simps [of "c # _"])
qed

lemma from_utf8_loop_plain:
  "\<forall>c\<in>set cs. plain_unit c \<Longrightarrow>
     from_utf8_loop (concat (map unit_bytes cs) @ [0]) out = Some (out @ cs)"
proof (induction cs arbitrary: out)
  case Nil
  then show ?case by (simp add: from_utf8_loop.simps)
next
  case (Cons c cs)
  then have c: "plain_unit c" by simp
  obtain b bs where b: "unit_bytes c = b # bs" "b \<noteq> 0"
    using plain_unit_bytes(3,4) [OF c] by (cases "unit_bytes c") auto
  have "utf8_to_ucs2 (b # bs @ concat (map unit_bytes cs) @ [0]) = Some (c, concat (map unit_bytes cs) @ [0])"
    using plain_unit_bytes(2) [OF c, of "concat (map unit_bytes cs) @ [0]"] b by simp
  moreover have "c \<noteq> -1" using c by (simp add: plain_unit_def)
  ultimately show ?case using Cons b by (simp add: from_utf8_loop.simps [of "b # _"])
qed

lemma to_utf8_loop_bound:
  "to_utf8_loop p out len = Some res \<Longrightarrow> 0 < len \<Longrightarrow> int (length res) \<le> int (length out) + 4 * len"
proof (induction p out len rule: to_utf8_loop.induct)
  case (1 p out len)
  show ?case
  proof (cases p)
    case Nil
    then show ?thesis using 1 by (simp add: to_utf8_loop.simps)
  next
    case (Cons c ps)
    show ?thesis
    proof (cases "c = 0")
      case True
      then show ?thesis using 1 Cons by (simp add: to_utf8_loop.simps)
    next
      case False
      then obtain bs adv where u: "utf16_to_utf8_char p = Some (bs, adv)"
        using 1(2) Cons by (auto simp: to_utf8_loop.simps [of "c # ps"] split: option.splits)
      have "length bs \<le> 4"
        using u by (auto simp: utf16_to_utf8_char_def Let_def split: if_splits list.splits)
      moreover have "to_utf8_loop p out len =
          (if len - 1 = 0 then Some (out @ bs) else to_utf8_loop (drop adv p) (out @ bs) (len - 1))"
        using False Cons u by (simp add: to_utf8_loop.simps [of "c # ps"])
      moreover have "to_utf8_loop (drop adv p) (out @ bs) (len - 1) = Some res \<Longrightarrow> len \<noteq> 1 \<Longrightarrow>
          int (length res) \<le> int (length (out @ bs)) + 4 * (len - 1)"
        using 1(1) [OF Cons False u] 1(3) by auto
      ultimately show ?thesis using 1(2,3) by (auto split: if_splits)
    qed
  qed
qed

text \<open>C37: decoding with the loop of \<open>_ejs_string_new_utf8\<close> what \<open>ucs2_to_utf8\<close> encoded gives the same string back,
  for every string of fewer than 2^29 units without NUL, without surrogates and without U+FFFF.  From 2^29 units on,
  up to 2^31, there is no encoding: the size of its buffer, four bytes for each unit and one more, overflows an int.\<close>

theorem utf8_roundtrip:
  assumes "\<forall>c\<in>set cs. plain_unit c" "length cs < 2 ^ 31"
  shows "if length cs < 2 ^ 29
    then \<exists>bs. ucs2_to_utf8 (cs @ [0]) = Some bs \<and> from_utf8_loop bs [] = Some cs
    else ucs2_to_utf8 (cs @ [0]) = None"
proof -
  have c: "chars (cs @ [0]) = cs" using assms(1) by (subst chars_append) (auto simp: plain_unit_def)
  have "ucs2_strlen (cs @ [0]) = Some (of_nat (length cs))" using strlen_spec [of "cs @ [0]"] c by simp
  then have "ucs2_to_utf8 (cs @ [0]) = (if length cs < 2 ^ 29 then Some (concat (map unit_bytes cs) @ [0]) else None)"
    using to_utf8_loop_plain [OF assms(1), of "[]" "[]"] sint_of_nat_small [OF assms(2)]
    by (simp add: ucs2_to_utf8_def)
  then show ?thesis using from_utf8_loop_plain [OF assms(1), of "[]"] by simp
qed

theorem utf8_roundtrip_witness:
  "\<exists>bs. ucs2_to_utf8 [0x65E5, 0xE9, 97, 0] = Some bs \<and> from_utf8_loop bs [] = Some [0x65E5, 0xE9, 97]"
  using utf8_roundtrip [of "[0x65E5, 0xE9, 97]"] by (simp add: plain_unit_def)

text \<open>\<open>ucs2_to_utf8\<close> never writes past the buffer of \<open>len * 4 + 1\<close> bytes it allocates,
  for any terminated string of fewer than 2^31 units, surrogates included.\<close>

theorem utf8_fits_buffer:
  assumes "0 \<in> set s" "length (chars s) < 2 ^ 31" "ucs2_to_utf8 s = Some bs"
  shows "length bs \<le> 4 * length (chars s) + 1"
proof (cases "chars s = []")
  case True
  then have "hd s = 0" "s \<noteq> []" using assms(1) by (cases s; auto split: if_splits)+
  then obtain t where "s = 0 # t" by (cases s) auto
  then show ?thesis using assms(3) by (auto simp: ucs2_to_utf8_def ucs2_strlen_def to_utf8_loop.simps split: if_splits)
next
  case False
  obtain out where out: "to_utf8_loop s [] (int (length (chars s))) = Some out" "bs = out @ [0]"
    using assms(3) strlen_spec [OF assms(1)] sint_of_nat_small [OF assms(2)]
    by (auto simp: ucs2_to_utf8_def split: if_splits)
  show ?thesis using to_utf8_loop_bound [OF out(1)] False out(2) by simp
qed

theorem utf8_fits_buffer_witness:
  "\<exists>bs. ucs2_to_utf8 [0xD83D, 0xDE00, 0] = Some bs \<and> length bs \<le> 4 * 2 + 1"
proof -
  have "ucs2_to_utf8 [0xD83D, 0xDE00, 0] = Some [0xF0, 0x9F, 0x98, 0x80, 0]"
    by (simp add: ucs2_to_utf8_def ucs2_strlen_def to_utf8_loop.simps utf16_to_utf8_char_def)
  with utf8_fits_buffer [OF _ _ this] show ?thesis by simp
qed

text \<open>Two memory-safety limits of the converters.  A lone surrogate at the end of a string that
  also holds a complete pair makes \<open>ucs2_to_utf8\<close> step over the terminator and read beyond the
  buffer; and \<open>ucs2_to_utf8_buf\<close>, whose size check is not strict, writes the terminator one byte
  past a buffer that the text fills exactly.\<close>

theorem utf8_out_of_bounds:
  "ucs2_to_utf8 [0xD83D, 0xDE00, 0xD83D, 0] = None
   \<and> (\<exists>bs. ucs2_to_utf8_buf [97, 98, 0] 2 = Some (Some bs) \<and> length bs = 2 + 1)"
  by (simp add: ucs2_to_utf8_def ucs2_to_utf8_buf_def ucs2_strlen_def to_utf8_loop.simps
      utf16_to_utf8_char_def ucs2_to_utf8_char_def)

end
