(* ===== verification/PrimString.thy ===== *)
theory PrimString
  imports Ucs2
begin

text \<open>
  Primitive strings (\<open>struct _EJSPrimString\<close> of \<open>src/runtime/ejs-string.h\<close> and the section
  "EJSPrimString's" of \<open>src/runtime/ejs-string.c\<close>): flat buffers, ropes made by concatenation
  and dependent strings made by taking substrings.  A string is the tree its pointers span;
  flattening in place replaces the node by the flat one that is returned.  Lengths are the
  \<open>uint32_t\<close> of the struct read as naturals, offsets and counters are C \<open>int\<close>s.  The
  \<open>HAS_HASH\<close> flag and the \<open>hash\<close> field are one optional value.
\<close>

datatype EJSPrimString =
    EJS_STRING_FLAT (str_length: nat) (str_hash: "int32 option") (has_ool_buffer: bool)
      (flat: "jschar list")
  | EJS_STRING_ROPE (str_length: nat) (str_hash: "int32 option")
      (left: EJSPrimString) (right: EJSPrimString)
  | EJS_STRING_DEPENDENT (str_length: nat) (str_hash: "int32 option")
      (dep: EJSPrimString) (dep_off: int)

definition FLAT_ROPE_THRESHOLD :: nat where "FLAT_ROPE_THRESHOLD = 32"
definition FLAT_DEP_THRESHOLD :: nat where "FLAT_DEP_THRESHOLD = 32"
definition EJS_PRIMSTR_FLAT_ALLOC_SIZE :: nat where "EJS_PRIMSTR_FLAT_ALLOC_SIZE = 24"

text \<open>An \<open>int\<close> compared with a \<open>uint32_t\<close> is converted to unsigned.\<close>

definition u32 :: "int \<Rightarrow> nat" where "u32 i = nat (i mod 2 ^ 32)"

section \<open>Creation\<close>

definition needs_ool_buffer :: "nat \<Rightarrow> bool" where
  "needs_ool_buffer len \<longleftrightarrow> EJS_PRIMSTR_FLAT_ALLOC_SIZE + 2 * (len + 1) > 2048"

definition ejs_string_new_utf8 :: "uint8 list \<Rightarrow> EJSPrimString option" where
  "ejs_string_new_utf8 str =
     (if 0 \<in> set str then
        (let str_len = length (chars str) in
         map_option (\<lambda>out. EJS_STRING_FLAT (length out) None (needs_ool_buffer str_len) (out @ [0]))
           (from_utf8_loop str []))
      else None)"

fun from_utf8_len_loop :: "nat \<Rightarrow> uint8 list \<Rightarrow> jschar list \<Rightarrow> jschar list option" where
  "from_utf8_len_loop 0 stru out = Some out"
| "from_utf8_len_loop (Suc len) stru out =
     (case utf8_to_ucs2 stru of
        None \<Rightarrow> None
      | Some (c, rest) \<Rightarrow> if c = -1 then Some out else from_utf8_len_loop len rest (out @ [c]))"

definition ejs_string_new_utf8_len :: "uint8 list \<Rightarrow> nat \<Rightarrow> EJSPrimString option" where
  "ejs_string_new_utf8_len str len =
     map_option (\<lambda>out. EJS_STRING_FLAT (length out) None (needs_ool_buffer len) (out @ [0]))
       (from_utf8_len_loop len str [])"

definition ejs_string_new_ucs2_len :: "jschar list \<Rightarrow> nat \<Rightarrow> EJSPrimString option" where
  "ejs_string_new_ucs2_len str len =
     (if len \<le> length str
      then Some (EJS_STRING_FLAT len None (needs_ool_buffer len) (take len str @ [0]))
      else None)"

definition ejs_string_new_ucs2 :: "jschar list \<Rightarrow> EJSPrimString option" where
  "ejs_string_new_ucs2 str =
     (case ucs2_strlen str of
        None \<Rightarrow> None
      | Some len \<Rightarrow> ejs_string_new_ucs2_len str (nat (sint len)))"

section \<open>Flattening\<close>

text \<open>The result is the text appended at \<open>*p\<close> and the new \<open>*off\<close> and \<open>*len\<close>.\<close>

fun flatten_dep :: "EJSPrimString \<Rightarrow> int \<Rightarrow> int \<Rightarrow> (jschar list \<times> int \<times> int) option" where
  "flatten_dep (EJS_STRING_FLAT n h ool buf) off len =
     (if len = 0 then Some ([], off, len)
      else if off \<ge> 0 then
        (if u32 off < n then
           (let length_to_append = min len (int n - off) in
            if off + length_to_append \<le> int (length buf)
            then Some (take (nat length_to_append) (drop (nat off) buf), 0, len - length_to_append)
            else None)
         else Some ([], off - int n, len))
      else
        (let length_to_append = min len (int n) in
         if length_to_append \<le> int (length buf)
         then Some (take (nat length_to_append) buf, off, len - length_to_append)
         else None))"
| "flatten_dep (EJS_STRING_ROPE n h l r) off len =
     (if len = 0 then Some ([], off, len)
      else case flatten_dep l off len of
        None \<Rightarrow> None
      | Some (t1, off1, len1) \<Rightarrow>
          (case flatten_dep r off1 len1 of
             None \<Rightarrow> None
           | Some (t2, off2, len2) \<Rightarrow> Some (t1 @ t2, off2, len2)))"
| "flatten_dep (EJS_STRING_DEPENDENT n h d doff) off len =
     (if len = 0 then Some ([], off, len)
      else if off \<ge> 0 then flatten_dep d (off + doff) len
      else
        (case flatten_dep d off (min len (int n)) of
           None \<Rightarrow> None
         | Some (t, off', length_to_append) \<Rightarrow> Some (t, off', len - length_to_append)))"

fun flatten_rope :: "EJSPrimString \<Rightarrow> jschar list option" where
  "flatten_rope (EJS_STRING_FLAT n h ool buf) = (if n \<le> length buf then Some (take n buf) else None)"
| "flatten_rope (EJS_STRING_ROPE n h l r) =
     (case flatten_rope l of
        None \<Rightarrow> None
      | Some t1 \<Rightarrow> (case flatten_rope r of None \<Rightarrow> None | Some t2 \<Rightarrow> Some (t1 @ t2)))"
| "flatten_rope (EJS_STRING_DEPENDENT n h d doff) = map_option fst (flatten_dep d doff (int n))"

text \<open>
  \<open>buffer\<close> has room for \<open>length + 1\<close> units: more text than that is an overflow (\<open>None\<close>), less
  leaves the units in between uninitialised, which the model fills with 0.
\<close>

definition ejs_primstring_flatten :: "EJSPrimString \<Rightarrow> EJSPrimString option" where
  "ejs_primstring_flatten primstr =
     (let n = str_length primstr;
          finish = (\<lambda>t. if length t \<le> n + 1
                        then Some (EJS_STRING_FLAT n (str_hash primstr) True
                                     (take n (t @ replicate n 0) @ [0]))
                        else None)
      in case primstr of
           EJS_STRING_FLAT _ _ _ _ \<Rightarrow> Some primstr
         | EJS_STRING_DEPENDENT _ _ _ _ \<Rightarrow>
             (case flatten_dep primstr 0 (int n) of None \<Rightarrow> None | Some (t, _, _) \<Rightarrow> finish t)
         | EJS_STRING_ROPE _ _ _ _ \<Rightarrow>
             (case flatten_rope primstr of None \<Rightarrow> None | Some t \<Rightarrow> finish t))"

section \<open>Substrings and concatenation\<close>

definition ejs_string_new_substring :: "EJSPrimString \<Rightarrow> int \<Rightarrow> nat \<Rightarrow> EJSPrimString option" where
  "ejs_string_new_substring prim_str off len =
     (if len < FLAT_DEP_THRESHOLD then
        (case flatten_dep (EJS_STRING_DEPENDENT len None prim_str off) 0 (int len) of
           None \<Rightarrow> None
         | Some (t, _, _) \<Rightarrow>
             if length t \<le> len
             then Some (EJS_STRING_FLAT len None False (t @ [0] @ replicate (len - length t) 0))
             else None)
      else Some (EJS_STRING_DEPENDENT len None prim_str off))"

definition ejs_string_concat :: "EJSPrimString \<Rightarrow> EJSPrimString \<Rightarrow> EJSPrimString option" where
  "ejs_string_concat lhs rhs =
     (let new_strlen = (str_length lhs + str_length rhs) mod 2 ^ 32 in
      if new_strlen < FLAT_ROPE_THRESHOLD then
        (case flatten_rope lhs of
           None \<Rightarrow> None
         | Some t1 \<Rightarrow>
             (case flatten_rope rhs of
                None \<Rightarrow> None
              | Some t2 \<Rightarrow>
                  if length (t1 @ t2) \<le> FLAT_ROPE_THRESHOLD
                  then ejs_string_new_ucs2_len
                         (t1 @ t2 @ replicate (FLAT_ROPE_THRESHOLD - length (t1 @ t2)) 0) new_strlen
                  else None))
      else Some (EJS_STRING_ROPE new_strlen None lhs rhs))"

text \<open>The variadic version; the compiler always passes a second string before the sentinel.\<close>

fun ejs_string_concatv :: "EJSPrimString \<Rightarrow> EJSPrimString list \<Rightarrow> EJSPrimString option" where
  "ejs_string_concatv result [] = Some result"
| "ejs_string_concatv result (arg # args) =
     (case ejs_string_concat result arg of None \<Rightarrow> None | Some r \<Rightarrow> ejs_string_concatv r args)"

section \<open>Hashing\<close>

fun hash_dep :: "int32 \<Rightarrow> EJSPrimString \<Rightarrow> int \<Rightarrow> int \<Rightarrow> (int32 \<times> int \<times> int) option" where
  "hash_dep hash (EJS_STRING_FLAT n h ool buf) off len =
     (if len = 0 \<or> off < 0 then Some (hash, off, len)
      else if u32 off < n then
        (let length_to_hash = min len (int n - off) in
         (case ucs2_hash (drop (nat off) buf) hash length_to_hash of
            None \<Rightarrow> None
          | Some hash' \<Rightarrow> Some (hash', 0, len - length_to_hash)))
      else Some (hash, off - int n, len))"
| "hash_dep hash (EJS_STRING_ROPE n h l r) off len =
     (if len = 0 \<or> off < 0 then Some (hash, off, len)
      else case hash_dep hash l off len of
        None \<Rightarrow> None
      | Some (hash1, off1, len1) \<Rightarrow> hash_dep hash1 r off1 len1)"
| "hash_dep hash (EJS_STRING_DEPENDENT n h d doff) off len =
     (if len = 0 \<or> off < 0 then Some (hash, off, len)
      else hash_dep hash d (off + doff) len)"

fun primstring_hash_inner :: "EJSPrimString \<Rightarrow> int32 \<Rightarrow> int32 option" where
  "primstring_hash_inner (EJS_STRING_FLAT n h ool buf) cur_hash = ucs2_hash buf cur_hash (int n)"
| "primstring_hash_inner (EJS_STRING_DEPENDENT n h d doff) cur_hash =
     map_option fst (hash_dep cur_hash (EJS_STRING_DEPENDENT n h d doff) 0 (int n))"
| "primstring_hash_inner (EJS_STRING_ROPE n h l r) cur_hash =
     (case primstring_hash_inner l cur_hash of
        None \<Rightarrow> None
      | Some hash \<Rightarrow> primstring_hash_inner r hash)"

fun set_hash :: "int32 \<Rightarrow> EJSPrimString \<Rightarrow> EJSPrimString" where
  "set_hash v (EJS_STRING_FLAT n h ool buf) = EJS_STRING_FLAT n (Some v) ool buf"
| "set_hash v (EJS_STRING_ROPE n h l r) = EJS_STRING_ROPE n (Some v) l r"
| "set_hash v (EJS_STRING_DEPENDENT n h d doff) = EJS_STRING_DEPENDENT n (Some v) d doff"

definition ejs_primstring_hash :: "EJSPrimString \<Rightarrow> (int32 \<times> EJSPrimString) option" where
  "ejs_primstring_hash primstr =
     (case str_hash primstr of
        Some h \<Rightarrow> Some (h, primstr)
      | None \<Rightarrow> map_option (\<lambda>h. (h, set_hash h primstr)) (primstring_hash_inner primstr 0))"

section \<open>Characters\<close>

fun ejs_string_char_code_at :: "EJSPrimString \<Rightarrow> int \<Rightarrow> jschar option" where
  "ejs_string_char_code_at (EJS_STRING_FLAT n h ool buf) i =
     (if u32 i \<ge> n then Some (-1)
      else if 0 \<le> i \<and> nat i < length buf then Some (buf ! nat i) else None)"
| "ejs_string_char_code_at (EJS_STRING_ROPE n h l r) i =
     (if u32 i \<ge> n then Some (-1)
      else if u32 i \<ge> str_length l then ejs_string_char_code_at l i
      else ejs_string_char_code_at r (i - int (str_length l)))"
| "ejs_string_char_code_at (EJS_STRING_DEPENDENT n h d doff) i =
     (if u32 i \<ge> n then Some (-1)
      else ejs_string_char_code_at d (i + doff))"

text \<open>\<open>Inl i\<close> is the message "error converting ucs2 to utf8, index i" returned as the text.\<close>

fun to_utf8_chars :: "EJSPrimString \<Rightarrow> nat \<Rightarrow> nat \<Rightarrow> uint8 list \<Rightarrow> (nat + uint8 list) option" where
  "to_utf8_chars primstr i 0 out = Some (Inr (out @ [0]))"
| "to_utf8_chars primstr i (Suc k) out =
     (case ejs_string_char_code_at primstr (int i) of
        None \<Rightarrow> None
      | Some ucs2 \<Rightarrow>
          if ucs2 = -1 then Some (Inl i)
          else (case ucs2_to_utf8_char ucs2 of
              None \<Rightarrow> None
            | Some bs \<Rightarrow> to_utf8_chars primstr (Suc i) k (out @ bs)))"

definition ejs_string_to_utf8 :: "EJSPrimString \<Rightarrow> (nat + uint8 list) option" where
  "ejs_string_to_utf8 primstr = to_utf8_chars primstr 0 (str_length primstr) []"

section \<open>What a string denotes\<close>

fun content :: "EJSPrimString \<Rightarrow> jschar list" where
  "content (EJS_STRING_FLAT n h ool buf) = take n buf"
| "content (EJS_STRING_ROPE n h l r) = content l @ content r"
| "content (EJS_STRING_DEPENDENT n h d doff) = take n (drop (nat doff) (content d))"

fun wf_str :: "EJSPrimString \<Rightarrow> bool" where
  "wf_str (EJS_STRING_FLAT n h ool buf) \<longleftrightarrow> n < length buf \<and> buf ! n = 0 \<and> n < 2 ^ 31"
| "wf_str (EJS_STRING_ROPE n h l r) \<longleftrightarrow>
     wf_str l \<and> wf_str r \<and> n = str_length l + str_length r \<and> n < 2 ^ 31"
| "wf_str (EJS_STRING_DEPENDENT n h d doff) \<longleftrightarrow>
     wf_str d \<and> 0 \<le> doff \<and> doff + int n \<le> int (str_length d) \<and> n < 2 ^ 31"

text \<open>
  Dependent strings are only flattened correctly when no dependent string occurs below a rope
  in what they depend on; \<open>flattenable\<close> says so.
\<close>

fun no_dependent :: "EJSPrimString \<Rightarrow> bool" where
  "no_dependent (EJS_STRING_FLAT n h ool buf) = True"
| "no_dependent (EJS_STRING_ROPE n h l r) \<longleftrightarrow> no_dependent l \<and> no_dependent r"
| "no_dependent (EJS_STRING_DEPENDENT n h d doff) = False"

fun dep_base :: "EJSPrimString \<Rightarrow> bool" where
  "dep_base (EJS_STRING_DEPENDENT n h d doff) = dep_base d"
| "dep_base s = no_dependent s"

fun flattenable :: "EJSPrimString \<Rightarrow> bool" where
  "flattenable (EJS_STRING_FLAT n h ool buf) = True"
| "flattenable (EJS_STRING_ROPE n h l r) \<longleftrightarrow> flattenable l \<and> flattenable r"
| "flattenable (EJS_STRING_DEPENDENT n h d doff) = dep_base d"

lemma wf_length: "wf_str s \<Longrightarrow> length (content s) = str_length s \<and> str_length s < 2 ^ 31"
  by (induction s) auto

lemma u32_small: "0 \<le> i \<Longrightarrow> i < 2 ^ 32 \<Longrightarrow> u32 i = nat i"
  by (simp add: u32_def)

lemma flatten_dep_zero [simp]: "flatten_dep s off 0 = Some ([], off, 0)"
  by (cases s) auto

lemma flatten_dep_plain:
  assumes "wf_str s" "no_dependent s" "0 \<le> off" "off < 2 ^ 32" "0 < len"
  shows "flatten_dep s off len =
    (if off < int (str_length s)
     then Some (take (nat len) (drop (nat off) (content s)), 0, len - min len (int (str_length s) - off))
     else Some ([], off - int (str_length s), len))"
  using assms
proof (induction s arbitrary: off len)
  case (EJS_STRING_FLAT n h ool buf)
  then have u: "u32 off < n \<longleftrightarrow> off < int n" "off \<ge> 0" "len \<noteq> 0"
    by (auto simp: u32_small nat_less_iff)
  have "nat (min len (int n - off)) = min (nat len) (n - nat off)"
    using u(2) by (auto simp: min_def)
  moreover have "off + min len (int n - off) \<le> int (length buf)"
    using EJS_STRING_FLAT.prems by (simp add: min_def)
  ultimately show ?case using u by (simp add: Let_def drop_take)
next
  case (EJS_STRING_ROPE n h l r)
  have w: "length (content l) = str_length l" "length (content r) = str_length r"
    "str_length l < 2 ^ 31" "str_length r < 2 ^ 31"
    using EJS_STRING_ROPE.prems wf_length by auto
  show ?case
  proof (cases "off < int (str_length l)")
    case True
    define len1 where "len1 = len - min len (int (str_length l) - off)"
    have l: "flatten_dep l off len = Some (take (nat len) (drop (nat off) (content l)), 0, len1)"
      using EJS_STRING_ROPE True by (simp add: len1_def)
    show ?thesis
    proof (cases "len1 = 0")
      case True
      then have "len \<le> int (str_length l) - off" by (auto simp: len1_def min_def split: if_splits)
      then show ?thesis using l True \<open>off < int (str_length l)\<close> EJS_STRING_ROPE.prems w by auto
    next
      case False
      then have len1: "0 < len1" "len1 = len - (int (str_length l) - off)"
        by (auto simp: len1_def min_def split: if_splits)
      have r: "flatten_dep r 0 len1 =
          (if 0 < int (str_length r) then Some (take (nat len1) (content r), 0, len1 - min len1 (int (str_length r)))
           else Some ([], 0, len1))"
        using EJS_STRING_ROPE.IH(2) [of 0 len1] EJS_STRING_ROPE.prems len1 by simp
      have "take (nat len) (drop (nat off) (content l @ content r)) =
          take (nat len) (drop (nat off) (content l)) @ take (nat len1) (content r)"
        using w True len1 EJS_STRING_ROPE.prems by (auto simp: nat_diff_distrib nat_le_iff)
      then show ?thesis using l r True EJS_STRING_ROPE.prems len1 w by (auto simp: min_def)
    qed
  next
    case False
    have l: "flatten_dep l off len = Some ([], off - int (str_length l), len)"
      using EJS_STRING_ROPE False by simp
    have r: "flatten_dep r (off - int (str_length l)) len =
      (if off - int (str_length l) < int (str_length r)
       then Some (take (nat len) (drop (nat (off - int (str_length l))) (content r)), 0,
              len - min len (int (str_length r) - (off - int (str_length l))))
       else Some ([], off - int (str_length l) - int (str_length r), len))"
      using EJS_STRING_ROPE.IH(2) [of "off - int (str_length l)" len] EJS_STRING_ROPE.prems False by simp
    show ?thesis using l r False EJS_STRING_ROPE.prems w
      by (auto simp: nat_diff_distrib algebra_simps)
  qed
next
  case (EJS_STRING_DEPENDENT n h d doff)
  then show ?case by simp
qed

lemma flatten_dep_base:
  "wf_str s \<Longrightarrow> dep_base s \<Longrightarrow> 0 \<le> off \<Longrightarrow> 0 \<le> len \<Longrightarrow> off + len \<le> int (str_length s) \<Longrightarrow>
     \<exists>o' l'. flatten_dep s off len = Some (take (nat len) (drop (nat off) (content s)), o', l')"
proof (induction s arbitrary: off)
  case (EJS_STRING_DEPENDENT n h d doff)
  have "take (nat len) (drop (nat off) (take n (drop (nat doff) (content d)))) =
      take (nat len) (drop (nat (off + doff)) (content d))"
    using EJS_STRING_DEPENDENT.prems
    by (simp add: drop_take min_def nat_add_distrib add.commute)
  moreover obtain o' l' where
    "flatten_dep d (off + doff) len = Some (take (nat len) (drop (nat (off + doff)) (content d)), o', l')"
    using EJS_STRING_DEPENDENT.IH [of "off + doff"] EJS_STRING_DEPENDENT.prems by auto
  ultimately show ?case using EJS_STRING_DEPENDENT.prems by (cases "len = 0") auto
next
  case (EJS_STRING_FLAT n h ool buf)
  then show ?case using flatten_dep_plain [of "EJS_STRING_FLAT n h ool buf" off len]
    by (cases "len = 0") auto
next
  case (EJS_STRING_ROPE n h l r)
  then show ?case using flatten_dep_plain [of "EJS_STRING_ROPE n h l r" off len]
    by (cases "len = 0") auto
qed

lemma flatten_rope_content: "wf_str s \<Longrightarrow> flattenable s \<Longrightarrow> flatten_rope s = Some (content s)"
proof (induction s)
  case (EJS_STRING_DEPENDENT n h d doff)
  then show ?case using flatten_dep_base [of d doff "int n"] by auto
qed auto

lemma flatten_correct:
  assumes "wf_str s" "flattenable s"
  shows "\<exists>r. ejs_primstring_flatten s = Some r \<and> content r = content s \<and> wf_str r
           \<and> str_length r = str_length s \<and> str_hash r = str_hash s
           \<and> flat r ! str_length s = 0"
proof -
  have len: "length (content s) = str_length s" "str_length s < 2 ^ 31" using wf_length [OF assms(1)] by auto
  show ?thesis
  proof (cases s)
    case (EJS_STRING_FLAT n h ool buf)
    then show ?thesis using assms by (auto simp: ejs_primstring_flatten_def)
  next
    case (EJS_STRING_ROPE n h l r)
    then show ?thesis using flatten_rope_content [OF assms] len
      by (auto simp: ejs_primstring_flatten_def nth_append)
  next
    case (EJS_STRING_DEPENDENT n h d doff)
    then obtain o' l' where
      "flatten_dep s 0 (int n) = Some (take n (content s), o', l')"
      using flatten_dep_base [of s 0 "int n"] assms by auto
    then show ?thesis using EJS_STRING_DEPENDENT len
      by (auto simp: ejs_primstring_flatten_def nth_append)
  qed
qed

text \<open>C35: flattening a well-formed string terminates inside its buffer and yields a flat string
  with the same length, the same cached hash and the same characters, followed by a terminator
  (for strings whose dependent parts have no dependent string below a rope).\<close>

theorem flatten_preserves_content:
  assumes "wf_str s" "flattenable s"
  shows "\<exists>r. ejs_primstring_flatten s = Some r \<and> content r = content s \<and> wf_str r
           \<and> str_length r = str_length s \<and> str_hash r = str_hash s
           \<and> flat r ! str_length s = 0"
  by (rule flatten_correct [OF assms])

definition sample_flat :: EJSPrimString where
  "sample_flat = EJS_STRING_FLAT 40 None False (replicate 40 65 @ [0])"

theorem flatten_preserves_content_witness:
  "\<exists>r. ejs_primstring_flatten (EJS_STRING_DEPENDENT 33 None sample_flat 2) = Some r
       \<and> content r = replicate 33 65"
  using flatten_preserves_content [of "EJS_STRING_DEPENDENT 33 None sample_flat 2"]
  by (auto simp: sample_flat_def nth_append)

lemma string_concat_content:
  assumes "wf_str l" "wf_str r" "flattenable l" "flattenable r" "str_length l + str_length r < 2 ^ 31"
  shows "\<exists>c. ejs_string_concat l r = Some c \<and> wf_str c \<and> flattenable c \<and> content c = content l @ content r"
proof -
  have "length (content l) = str_length l" "length (content r) = str_length r"
    using wf_length assms(1,2) by auto
  then show ?thesis
    using flatten_rope_content [OF assms(1,3)] flatten_rope_content [OF assms(2,4)] assms
    by (auto simp: ejs_string_concat_def ejs_string_new_ucs2_len_def FLAT_ROPE_THRESHOLD_def nth_append
        Let_def)
qed

lemma string_substring_content:
  assumes "wf_str l" "dep_base l" "0 \<le> off" "off + int len \<le> int (str_length l)"
  shows "\<exists>t. ejs_string_new_substring l off len = Some t \<and> wf_str t \<and> flattenable t \<and> dep_base t
            \<and> content t = take len (drop (nat off) (content l))"
proof -
  obtain o' l' where
    "flatten_dep (EJS_STRING_DEPENDENT len None l off) 0 (int len)
       = Some (content (EJS_STRING_DEPENDENT len None l off), o', l')"
    using flatten_dep_base [of "EJS_STRING_DEPENDENT len None l off" 0 "int len"] assms
      wf_length [OF assms(1)] by auto
  moreover have "len \<le> length (drop (nat off) (content l))" "len < 2 ^ 31"
    using assms wf_length [OF assms(1)] by auto
  ultimately show ?thesis
    using assms by (auto simp: ejs_string_new_substring_def nth_append)
qed

text \<open>Concatenation and taking a substring are correct on the characters, whether the result is
  a flat copy, a rope or a dependent string, and keep strings well-formed.\<close>

theorem concat_substring_content:
  assumes "wf_str l" "wf_str r" "flattenable l" "flattenable r" "str_length l + str_length r < 2 ^ 31"
    and "dep_base l" "0 \<le> off" "off + int len \<le> int (str_length l)"
  shows "(\<exists>c. ejs_string_concat l r = Some c \<and> wf_str c \<and> flattenable c
            \<and> content c = content l @ content r)
       \<and> (\<exists>t. ejs_string_new_substring l off len = Some t \<and> wf_str t \<and> flattenable t
            \<and> content t = take len (drop (nat off) (content l)))"
  using string_concat_content [OF assms(1-5)] string_substring_content [OF assms(1,6-8)] by blast

theorem concat_substring_content_witness:
  "\<exists>c. ejs_string_concat sample_flat sample_flat = Some c \<and> content c = replicate 80 65"
proof -
  have "wf_str sample_flat" "flattenable sample_flat" "dep_base sample_flat" "str_length sample_flat = 40"
    by (auto simp: sample_flat_def nth_append)
  then show ?thesis using concat_substring_content [of sample_flat sample_flat 0 1]
    by (auto simp: sample_flat_def replicate_add [symmetric])
qed

section \<open>Representation leaks\<close>

lemma u32_neg: "i < 0 \<Longrightarrow> - (2 ^ 31) \<le> i \<Longrightarrow> 2 ^ 31 \<le> u32 i"
proof -
  assume a: "i < 0" "- (2 ^ 31) \<le> i"
  have "i mod 2 ^ 32 = (i + 2 ^ 32) mod 2 ^ 32" by simp
  also have "\<dots> = i + 2 ^ 32" using a by (intro mod_pos_pos_trivial) auto
  finally show ?thesis using a by (simp add: u32_def)
qed

lemma char_code_out_of_range: "str_length s \<le> u32 i \<Longrightarrow> ejs_string_char_code_at s i = Some (-1)"
  by (cases s) auto

text \<open>The two branches of \<open>_ejs_string_char_code_at\<close> for ropes are swapped: it asks the left
  half for indices past its end and the right half for negative ones, so on a rope it reports
  every index as out of range, and \<open>_ejs_string_to_utf8\<close> of a nonempty rope returns an error text.\<close>

theorem rope_char_code_never_found:
  assumes "wf_str (EJS_STRING_ROPE n h l r)" "0 \<le> i" "i < int n"
  shows "ejs_string_char_code_at (EJS_STRING_ROPE n h l r) i = Some (-1)
       \<and> ejs_string_to_utf8 (EJS_STRING_ROPE n h l r) = Some (Inl 0)"
proof -
  have w: "str_length l < 2 ^ 31" "str_length r < 2 ^ 31" "n < 2 ^ 31" using assms wf_length by auto
  have *: "ejs_string_char_code_at (EJS_STRING_ROPE n h l r) i = Some (-1)" if "0 \<le> i" "i < int n" for i
  proof (cases "int (str_length l) \<le> i")
    case True
    then have "str_length l \<le> u32 i" using that w by (simp add: u32_small)
    then show ?thesis using char_code_out_of_range by simp
  next
    case False
    then have "str_length r \<le> u32 (i - int (str_length l))"
      using u32_neg [of "i - int (str_length l)"] that w by simp
    moreover have "\<not> str_length l \<le> u32 i" using False that w by (simp add: u32_small)
    ultimately show ?thesis using char_code_out_of_range by simp
  qed
  obtain k where "n = Suc k" using assms by (cases n) auto
  then have "to_utf8_chars (EJS_STRING_ROPE n h l r) 0 n [] = Some (Inl 0)"
    using * [of 0] by (simp del: ejs_string_char_code_at.simps)
  then show ?thesis using * [of i] assms
    by (simp add: ejs_string_to_utf8_def del: ejs_string_char_code_at.simps)
qed

theorem rope_char_code_never_found_witness:
  "ejs_string_char_code_at (EJS_STRING_ROPE 80 None sample_flat sample_flat) 3 = Some (-1)"
  using rope_char_code_never_found [of 80 None sample_flat sample_flat 3]
  by (simp add: sample_flat_def nth_append)

definition sample_half :: EJSPrimString where
  "sample_half = EJS_STRING_FLAT 16 None False (replicate 16 0x65E5 @ [0])"

definition sample_whole :: EJSPrimString where
  "sample_whole = EJS_STRING_FLAT 32 None False (replicate 32 0x65E5 @ [0])"

text \<open>Equal strings may have different hashes.  A rope is hashed piece by piece, each piece with
  one unit more than its length, so a rope and the flat string with the same characters get
  different hashes; as a property key the rope is then looked up in another bucket.\<close>

theorem rope_hash_differs_from_flat:
  "\<exists>rope. ejs_string_concat sample_half sample_half = Some rope
     \<and> wf_str rope \<and> wf_str sample_whole \<and> content rope = content sample_whole
     \<and> map_option fst (ejs_primstring_hash rope) \<noteq> map_option fst (ejs_primstring_hash sample_whole)"
proof -
  have "map_option fst (ejs_primstring_hash (EJS_STRING_ROPE 32 None sample_half sample_half))
      \<noteq> map_option fst (ejs_primstring_hash sample_whole)"
    by code_simp
  then show ?thesis
    by (auto simp: ejs_string_concat_def FLAT_ROPE_THRESHOLD_def sample_half_def sample_whole_def
        nth_append replicate_add [symmetric])
qed

text \<open>The restriction on nested dependent strings in flattening is needed.  \<open>flatten_dep\<close> enters a dependent string without bounding
  the copy by that string's own length, so a substring of a rope whose left part is itself a
  substring is flattened with characters from beyond that part.\<close>

theorem flatten_nested_dependent_wrong:
  "\<exists>d rope t r. ejs_string_new_substring sample_flat 0 32 = Some d
     \<and> ejs_string_concat d sample_half = Some rope
     \<and> ejs_string_new_substring rope 0 40 = Some t \<and> wf_str t
     \<and> ejs_primstring_flatten t = Some r \<and> content t \<noteq> content r"
proof -
  define d where "d = EJS_STRING_DEPENDENT 32 None sample_flat 0"
  define t where "t = EJS_STRING_DEPENDENT 40 None (EJS_STRING_ROPE 48 None d sample_half) 0"
  have "flatten_dep t 0 40 = Some (replicate 40 65, 0, 0)"
    by (simp add: t_def d_def sample_flat_def u32_def)
  then have f: "ejs_primstring_flatten t = Some (EJS_STRING_FLAT 40 None True (replicate 40 65 @ [0]))"
    by (simp add: t_def ejs_primstring_flatten_def)
  moreover have "content t \<noteq> replicate 40 65"
  proof
    assume "content t = replicate 40 65"
    then have "content t ! 32 = 65" by simp
    then show False by (simp add: t_def d_def sample_flat_def sample_half_def nth_append)
  qed
  moreover have "wf_str t"
    by (simp add: t_def d_def sample_flat_def sample_half_def nth_append)
  moreover have "ejs_string_new_substring sample_flat 0 32 = Some d"
    "ejs_string_concat d sample_half = Some (EJS_STRING_ROPE 48 None d sample_half)"
    "ejs_string_new_substring (EJS_STRING_ROPE 48 None d sample_half) 0 40 = Some t"
    by (simp_all add: ejs_string_new_substring_def ejs_string_concat_def FLAT_DEP_THRESHOLD_def
        FLAT_ROPE_THRESHOLD_def d_def t_def sample_half_def)
  ultimately show ?thesis by (intro exI conjI) auto
qed

end
