(* ===== verification/Doubles.thy ===== *)
theory Doubles
  imports Ejsval
begin

text \<open>
  IEEE-754 binary64 on bit patterns, as far as the runtime's C code uses it: classification,
  equality, sign, truncation to an integer and conversion of an integer, plus the helpers of
  \<open>src/runtime/ejsval.h\<close> that inspect doubles.
\<close>

definition dbl_exp :: "double \<Rightarrow> nat" where "dbl_exp d = unat (drop_bit 52 d AND mask 11)"
definition dbl_mant :: "double \<Rightarrow> nat" where "dbl_mant d = unat (d AND mask 52)"
definition dbl_neg :: "double \<Rightarrow> bool" where "dbl_neg d \<longleftrightarrow> bit d 63"

definition isnan :: "double \<Rightarrow> bool" where "isnan d \<longleftrightarrow> dbl_exp d = 2047 \<and> dbl_mant d \<noteq> 0"
definition isinf :: "double \<Rightarrow> bool" where "isinf d \<longleftrightarrow> dbl_exp d = 2047 \<and> dbl_mant d = 0"
definition iszero :: "double \<Rightarrow> bool" where "iszero d \<longleftrightarrow> d = 0 \<or> d = 0x8000000000000000"

text \<open>The C operator \<open>==\<close> on doubles.\<close>

definition dbl_eq :: "double \<Rightarrow> double \<Rightarrow> bool" where
  "dbl_eq d e \<longleftrightarrow> \<not> isnan d \<and> \<not> isnan e \<and> (d = e \<or> iszero d \<and> iszero e)"

text \<open>The integer part, rounded towards zero, of a finite double.\<close>

definition dbl_magnitude :: "double \<Rightarrow> nat" where
  "dbl_magnitude d =
     (let e = dbl_exp d; m = dbl_mant d in
      if e = 0 then 0
      else if e \<ge> 1075 then (2 ^ 52 + m) * 2 ^ (e - 1075)
      else (2 ^ 52 + m) div 2 ^ (1075 - e))"

definition dbl_trunc :: "double \<Rightarrow> int" where
  "dbl_trunc d = (if dbl_neg d then - int (dbl_magnitude d) else int (dbl_magnitude d))"

text \<open>The double with the value of an integer below \<open>2 ^ 53\<close> in absolute value.\<close>

fun ilog2 :: "nat \<Rightarrow> nat" where
  "ilog2 n = (if n < 2 then 0 else Suc (ilog2 (n div 2)))"

declare ilog2.simps [simp del]

definition dbl_of_int :: "int \<Rightarrow> double" where
  "dbl_of_int i =
     (let n = nat \<bar>i\<bar>; k = ilog2 n;
          b = (if n = 0 then 0
               else word_of_nat ((k + 1023) * 2 ^ 52 + (n * 2 ^ (52 - k) - 2 ^ 52)))
      in if i < 0 then b OR 0x8000000000000000 else b)"

section \<open>The header's helpers\<close>

definition EJSDOUBLE_IS_NEGZERO :: "double \<Rightarrow> bool" where
  "EJSDOUBLE_IS_NEGZERO d \<longleftrightarrow>
     (if \<not> dbl_eq d 0 then False
      else (ucast (drop_bit 32 d) AND 0x80000000 :: uint32) \<noteq> 0)"

text \<open>\<open>None\<close> where the conversion to \<open>int32_t\<close> is out of range.\<close>

definition EJSDOUBLE_IS_INT32 :: "double \<Rightarrow> (bool \<times> int32) option" where
  "EJSDOUBLE_IS_INT32 d =
     (if EJSDOUBLE_IS_NEGZERO d then Some (False, 0)
      else if isnan d \<or> isinf d \<or> dbl_trunc d < - (2 ^ 31) \<or> dbl_trunc d \<ge> 2 ^ 31 then None
      else let i = word_of_int (dbl_trunc d) in Some (dbl_eq d (dbl_of_int (sint i)), i))"

definition EJS_CANONICALIZE_NAN :: "double \<Rightarrow> double" where
  "EJS_CANONICALIZE_NAN d = (if \<not> dbl_eq d d then 0x7FF8000000000000 else d)"

section \<open>Facts\<close>

lemma zero_not_nan [simp]: "\<not> isnan 0" "\<not> isnan 0x8000000000000000"
  by (simp_all add: isnan_def dbl_exp_def dbl_mant_def mask_eq_exp_minus_1)

lemma iszero_not_nan: "iszero d \<Longrightarrow> \<not> isnan d"
  by (auto simp: iszero_def)

lemma dbl_eq_refl [simp]: "dbl_eq d d \<longleftrightarrow> \<not> isnan d"
  by (simp add: dbl_eq_def)

lemma dbl_eq_zero [simp]: "dbl_eq d 0 \<longleftrightarrow> iszero d"
  by (auto simp: dbl_eq_def iszero_def)

lemma negzero_iff [simp]: "EJSDOUBLE_IS_NEGZERO d \<longleftrightarrow> d = 0x8000000000000000"
  by (auto simp: EJSDOUBLE_IS_NEGZERO_def iszero_def)

lemma canonical_nan_encodes:
  "EJS_CANONICALIZE_NAN d = d \<or> encode (Double (EJS_CANONICALIZE_NAN d)) = Some 0x7FF8000000000000"
  by (simp add: EJS_CANONICALIZE_NAN_def DOUBLE_TO_EJSVAL_IMPL_def tag_defs)

lemma ilog2_bounds: "0 < n \<Longrightarrow> 2 ^ ilog2 n \<le> n \<and> n < 2 ^ Suc (ilog2 n)"
proof (induction n rule: ilog2.induct)
  case (1 n)
  show ?case
  proof (cases "n < 2")
    case True
    then show ?thesis using 1 by (simp add: ilog2.simps)
  next
    case False
    then have "2 ^ ilog2 (n div 2) \<le> n div 2 \<and> n div 2 < 2 ^ Suc (ilog2 (n div 2))" using 1 by simp
    then show ?thesis using False by (simp add: ilog2.simps [of n]) linarith
  qed
qed

lemma sign_bit: "(0x8000000000000000 :: double) = push_bit 63 1"
  by simp

lemma sign_fields:
  "dbl_exp (b OR 0x8000000000000000) = dbl_exp b" "dbl_mant (b OR 0x8000000000000000) = dbl_mant b"
  "dbl_neg (b OR 0x8000000000000000)"
proof -
  have "drop_bit 52 (b OR push_bit 63 1) AND mask 11 = drop_bit 52 b AND mask 11"
    by (rule bit_word_eqI) (auto simp: bit_simps simp del: push_bit_of_1)
  then show "dbl_exp (b OR 0x8000000000000000) = dbl_exp b" unfolding dbl_exp_def sign_bit by simp
  have "(b OR push_bit 63 1) AND mask 52 = b AND mask 52"
    by (rule bit_word_eqI) (auto simp: bit_simps simp del: push_bit_of_1)
  then show "dbl_mant (b OR 0x8000000000000000) = dbl_mant b" unfolding dbl_mant_def sign_bit by simp
  show "dbl_neg (b OR 0x8000000000000000)"
    unfolding dbl_neg_def sign_bit by (simp add: bit_simps del: push_bit_of_1)
qed

lemma dbl_fields:
  assumes "e < 2048" "m < 2 ^ 52"
  shows "dbl_exp (word_of_nat (e * 2 ^ 52 + m)) = e" "dbl_mant (word_of_nat (e * 2 ^ 52 + m)) = m"
    "\<not> dbl_neg (word_of_nat (e * 2 ^ 52 + m))"
proof -
  have lt: "e * 2 ^ 52 + m < 2 ^ 63" using assms by simp
  have u: "unat (word_of_nat (e * 2 ^ 52 + m) :: double) = e * 2 ^ 52 + m"
    by (subst unsigned_of_nat) (use lt in \<open>simp add: take_bit_nat_eq_self\<close>)
  have div: "(e * 2 ^ 52 + m) div 2 ^ 52 = e" and mod: "(e * 2 ^ 52 + m) mod 2 ^ 52 = m"
    using assms(2) by simp_all
  show "dbl_exp (word_of_nat (e * 2 ^ 52 + m)) = e"
    unfolding dbl_exp_def take_bit_eq_mask [symmetric] unsigned_take_bit_eq unat_drop_bit_eq u
    unfolding drop_bit_eq_div div using assms(1) by (simp add: take_bit_nat_eq_self)
  show "dbl_mant (word_of_nat (e * 2 ^ 52 + m)) = m"
    unfolding dbl_mant_def take_bit_eq_mask [symmetric] unsigned_take_bit_eq u
    unfolding take_bit_eq_mod mod ..
  have "\<not> bit (unat (word_of_nat (e * 2 ^ 52 + m) :: double)) 63"
    unfolding u using lt by (simp add: bit_iff_odd div_less)
  then show "\<not> dbl_neg (word_of_nat (e * 2 ^ 52 + m))"
    by (simp add: dbl_neg_def bit_unsigned_iff)
qed

text \<open>The fields of a double made from a nonzero integer below \<open>2 ^ 53\<close>.\<close>

lemma of_int_fields:
  assumes "i \<noteq> 0" "\<bar>i\<bar> < 2 ^ 53"
  shows "\<exists>k m. k < 53 \<and> dbl_exp (dbl_of_int i) = k + 1023 \<and> dbl_mant (dbl_of_int i) = m \<and>
    2 ^ 52 + m = nat \<bar>i\<bar> * 2 ^ (52 - k) \<and> (dbl_neg (dbl_of_int i) \<longleftrightarrow> i < 0)"
proof -
  define n where "n = nat \<bar>i\<bar>"
  define k where "k = ilog2 n"
  have n: "0 < n" "n < 2 ^ 53" "2 ^ k \<le> n" "n < 2 ^ Suc k"
    using assms ilog2_bounds [of n] by (auto simp: n_def k_def)
  have "k < 53"
  proof (rule ccontr)
    assume "\<not> k < 53"
    then have "(2::nat) ^ 53 \<le> 2 ^ k" by (intro power_increasing) auto
    then show False using n by linarith
  qed
  define m where "m = n * 2 ^ (52 - k) - 2 ^ 52"
  have split: "(2::nat) ^ 52 = 2 ^ k * 2 ^ (52 - k)"
    using \<open>k < 53\<close> by (simp flip: power_add)
  have lo: "2 ^ 52 \<le> n * 2 ^ (52 - k)" unfolding split using n(3) by (intro mult_le_mono1)
  have "n * 2 ^ (52 - k) < 2 ^ Suc k * 2 ^ (52 - k)" using n(4) by (intro mult_less_mono1) auto
  also have "\<dots> = 2 * 2 ^ 52" using split by simp
  finally have m: "m < 2 ^ 52" "2 ^ 52 + m = n * 2 ^ (52 - k)" using lo by (simp_all add: m_def)
  define b where "b = (word_of_nat ((k + 1023) * 2 ^ 52 + m) :: double)"
  have f: "dbl_exp b = k + 1023" "dbl_mant b = m" "\<not> dbl_neg b"
    using dbl_fields [of "k + 1023" m] \<open>k < 53\<close> m(1) by (simp_all add: b_def)
  have "dbl_of_int i = (if i < 0 then b OR 0x8000000000000000 else b)"
    using n(1) by (simp add: dbl_of_int_def Let_def b_def m_def k_def n_def)
  then show ?thesis using f sign_fields [of b] m(2) \<open>k < 53\<close> by (auto simp: n_def)
qed

lemma of_int_finite: "\<bar>i\<bar> < 2 ^ 53 \<Longrightarrow> \<not> isnan (dbl_of_int i) \<and> \<not> isinf (dbl_of_int i)"
  using of_int_fields [of i]
  by (cases "i = 0") (auto simp: isnan_def isinf_def dbl_of_int_def dbl_exp_def)

text \<open>Converting an integer below \<open>2 ^ 53\<close> to a double and truncating it back is the identity.\<close>

lemma trunc_of_int:
  assumes "\<bar>i\<bar> < 2 ^ 53"
  shows "dbl_trunc (dbl_of_int i) = i"
proof (cases "i = 0")
  case True
  then show ?thesis
    by (simp add: dbl_of_int_def dbl_trunc_def dbl_magnitude_def dbl_exp_def dbl_neg_def)
next
  case False
  then obtain k m where "k < 53" and f: "dbl_exp (dbl_of_int i) = k + 1023" "dbl_mant (dbl_of_int i) = m"
    "2 ^ 52 + m = nat \<bar>i\<bar> * 2 ^ (52 - k)" "dbl_neg (dbl_of_int i) \<longleftrightarrow> i < 0"
    using of_int_fields [OF False assms] by blast
  then have "dbl_magnitude (dbl_of_int i) = nat \<bar>i\<bar>"
    by (cases "k = 52") (auto simp: dbl_magnitude_def Let_def)
  then show ?thesis using f(4) by (auto simp: dbl_trunc_def)
qed

end
