(* ===== verification/Ops.thy ===== *)
theory Ops
  imports Doubles PrimString
begin

text \<open>
  The abstract operations and comparisons of \<open>src/runtime/ejs-ops.c\<close>.  Strings are read
  through a store \<open>strs\<close> from pointers to primitive strings; \<open>EJSVAL_TO_FLAT_STRING\<close> flattens
  them, which leaves their characters as they are.  Conversions that run user code
  (\<open>ToPrimitive\<close> on objects) and the C library's \<open>strtod\<close> are arguments.
\<close>

type_synonym strings = "ptr \<Rightarrow> EJSPrimString option"

section \<open>Constants\<close>

definition ejs_undefined :: ejsval where "ejs_undefined = BUILD_EJSVAL EJSVAL_TAG_UNDEFINED 0"
definition ejs_null :: ejsval where "ejs_null = BUILD_EJSVAL EJSVAL_TAG_NULL 0"
definition ejs_true :: ejsval where "ejs_true = ucast (1 :: uint32) OR EJSVAL_SHIFTED_TAG_BOOLEAN"
definition ejs_false :: ejsval where "ejs_false = ucast (0 :: uint32) OR EJSVAL_SHIFTED_TAG_BOOLEAN"
definition ejs_zero :: ejsval where "ejs_zero = 0"
definition ejs_one :: ejsval where "ejs_one = 0x3FF0000000000000"
definition ejs_nan :: ejsval where "ejs_nan = 0x7FF8000000000000"

section \<open>Strings of values\<close>

definition EJSVAL_TO_STRLEN :: "strings \<Rightarrow> ejsval \<Rightarrow> nat option" where
  "EJSVAL_TO_STRLEN strs v = map_option str_length (strs (EJSVAL_TO_STRING_IMPL v))"

definition EJSVAL_TO_FLAT_STRING :: "strings \<Rightarrow> ejsval \<Rightarrow> jschar list option" where
  "EJSVAL_TO_FLAT_STRING strs v =
     Option.bind (strs (EJSVAL_TO_STRING_IMPL v)) (\<lambda>s. map_option flat (ejs_primstring_flatten s))"

text \<open>\<open>ucs2_strcmp\<close> of the flattened texts; equal string pointers have equal texts.\<close>

definition compare_texts :: "strings \<Rightarrow> ejsval \<Rightarrow> ejsval \<Rightarrow> int option" where
  "compare_texts strs x y =
     Option.bind (EJSVAL_TO_FLAT_STRING strs x) (\<lambda>s.
       Option.bind (EJSVAL_TO_FLAT_STRING strs y) (\<lambda>t.
         if EJSVAL_TO_STRING_IMPL x = EJSVAL_TO_STRING_IMPL y then Some 0 else strcmp_loop s t))"

definition same_text :: "strings \<Rightarrow> ejsval \<Rightarrow> ejsval \<Rightarrow> bool option" where
  "same_text strs x y =
     Option.bind (EJSVAL_TO_STRLEN strs x) (\<lambda>n.
       Option.bind (EJSVAL_TO_STRLEN strs y) (\<lambda>k.
         if n \<noteq> k then Some False else map_option (\<lambda>r. r = 0) (compare_texts strs x y)))"

section \<open>Conversions\<close>

text \<open>
  \<open>text_number\<close> stands for the conversion of the string's text by \<open>strtod\<close>: the double, or
  \<open>None\<close> when the text does not end with the number.
\<close>

definition ToNumber ::
  "(ejsval \<Rightarrow> double option) \<Rightarrow> (ejsval \<Rightarrow> ejsval outcome) \<Rightarrow> ejsval \<Rightarrow> ejsval outcome" where
  "ToNumber text_number object_number exp =
     (if EJSVAL_IS_DOUBLE_IMPL exp then Return exp
      else if EJSVAL_IS_BOOLEAN_IMPL exp then
        Return (if EJSVAL_TO_BOOLEAN_IMPL exp \<noteq> 0 then ejs_one else ejs_zero)
      else if EJSVAL_IS_STRING_IMPL exp then
        (case text_number exp of
           None \<Rightarrow> Return ejs_nan
         | Some d \<Rightarrow> (case DOUBLE_TO_EJSVAL_IMPL d of None \<Rightarrow> Aborts | Some v \<Rightarrow> Return v))
      else if EJSVAL_IS_SYMBOL_IMPL exp then Throws TypeError
      else if EJSVAL_IS_UNDEFINED_IMPL exp then Return ejs_nan
      else if EJSVAL_IS_OBJECT_IMPL exp = Some True then object_number exp
      else Aborts)"

text \<open>The part of \<open>ToInteger\<close> and \<open>ToInt32\<close> after \<open>ToDouble\<close>; \<open>None\<close> where the C conversion of
  the double to \<open>int64_t\<close> is out of range.\<close>

definition double_to_int64 :: "double \<Rightarrow> int option" where
  "double_to_int64 d =
     (if isnan d \<or> isinf d \<or> dbl_trunc d < - (2 ^ 63) \<or> dbl_trunc d \<ge> 2 ^ 63 then None
      else Some (dbl_trunc d))"

definition ToInteger :: "double \<Rightarrow> int option" where
  "ToInteger number =
     (if isnan number then Some 0
      else if iszero number \<or> isinf number then double_to_int64 number
      else double_to_int64 number)"

text \<open>C's \<open>%\<close> takes the sign of the dividend; narrowing to \<open>int32_t\<close> keeps the low 32 bits.\<close>

definition c_rem :: "int \<Rightarrow> int \<Rightarrow> int" where
  "c_rem a b = sgn a * (\<bar>a\<bar> mod \<bar>b\<bar>)"

definition ToInt32 :: "double \<Rightarrow> int32 option" where
  "ToInt32 number =
     (if isnan number then Some 0
      else if iszero number \<or> isinf number then Some 0
      else map_option
        (\<lambda>i. let int32bit = c_rem i (2 ^ 32) in
             if int32bit \<ge> 2 ^ 31 then word_of_int (int32bit - 2 ^ 32) else word_of_int int32bit)
        (double_to_int64 number))"

definition EJS_MAX_SAFE_INTEGER :: int where "EJS_MAX_SAFE_INTEGER = 9007199254740991"

definition ToLength :: "double \<Rightarrow> int option" where
  "ToLength number =
     map_option (\<lambda>len. if len \<le> 0 then 0 else min len EJS_MAX_SAFE_INTEGER) (ToInteger number)"

definition ToEJSBool :: "strings \<Rightarrow> ejsval \<Rightarrow> bool option" where
  "ToEJSBool strs exp =
     (if EJSVAL_IS_NULL_IMPL exp \<or> EJSVAL_IS_UNDEFINED_IMPL exp then Some False
      else if EJSVAL_IS_BOOLEAN_IMPL exp then Some (EJSVAL_TO_BOOLEAN_IMPL exp \<noteq> 0)
      else if EJSVAL_IS_DOUBLE_IMPL exp then Some (\<not> dbl_eq exp 0)
      else if EJSVAL_IS_STRING_IMPL exp then map_option (\<lambda>n. n \<noteq> 0) (EJSVAL_TO_STRLEN strs exp)
      else if EJSVAL_IS_OBJECT_IMPL exp = Some True then Some True
      else None)"

definition ToBoolean :: "strings \<Rightarrow> ejsval \<Rightarrow> ejsval option" where
  "ToBoolean strs exp =
     Option.bind (ToEJSBool strs exp) (\<lambda>b. BOOLEAN_TO_EJSVAL_IMPL (if b then 1 else 0))"

section \<open>Comparisons\<close>

definition SameValue :: "strings \<Rightarrow> ejsval \<Rightarrow> ejsval \<Rightarrow> bool option" where
  "SameValue strs x y =
     (if EJSVAL_TO_TAG x \<noteq> EJSVAL_TO_TAG y then Some False
      else if EJSVAL_IS_UNDEFINED_IMPL x then Some True
      else if EJSVAL_IS_NULL_IMPL x then Some True
      else if EJSVAL_IS_DOUBLE_IMPL x then
        (if isnan x \<and> isnan y then Some True
         else if dbl_eq x 0 \<and> EJSDOUBLE_IS_NEGZERO y then Some False
         else if \<not> EJSDOUBLE_IS_NEGZERO x \<and> dbl_eq y 0 then Some False
         else if dbl_eq x y then Some True
         else Some False)
      else if EJSVAL_IS_STRING_IMPL x then same_text strs x y
      else if EJSVAL_IS_BOOLEAN_IMPL x then Some (EJSVAL_TO_BOOLEAN_IMPL x = EJSVAL_TO_BOOLEAN_IMPL y)
      else if EJSVAL_IS_SYMBOL_IMPL x then None
      else Some (x = y))"

definition SameValueZero :: "strings \<Rightarrow> ejsval \<Rightarrow> ejsval \<Rightarrow> bool option" where
  "SameValueZero strs x y =
     (if EJSVAL_IS_DOUBLE_IMPL x \<noteq> EJSVAL_IS_DOUBLE_IMPL y \<and> EJSVAL_TO_TAG x \<noteq> EJSVAL_TO_TAG y
      then Some False
      else if EJSVAL_IS_UNDEFINED_IMPL x then Some True
      else if EJSVAL_IS_NULL_IMPL x then Some True
      else if EJSVAL_IS_DOUBLE_IMPL x then
        (if isnan x \<and> isnan y then Some True
         else if dbl_eq x 0 \<and> EJSDOUBLE_IS_NEGZERO y then Some True
         else if EJSDOUBLE_IS_NEGZERO x \<and> dbl_eq y 0 then Some True
         else if dbl_eq x y then Some True
         else Some False)
      else if EJSVAL_IS_STRING_IMPL x then same_text strs x y
      else if EJSVAL_IS_BOOLEAN_IMPL x then Some (EJSVAL_TO_BOOLEAN_IMPL x = EJSVAL_TO_BOOLEAN_IMPL y)
      else if EJSVAL_IS_SYMBOL_IMPL x then None
      else Some (x = y))"

definition ejs_op_strict_eq :: "strings \<Rightarrow> ejsval \<Rightarrow> ejsval \<Rightarrow> bool option" where
  "ejs_op_strict_eq strs x y =
     (if EJSVAL_TO_TAG x \<noteq> EJSVAL_TO_TAG y then Some False
      else if EJSVAL_IS_UNDEFINED_IMPL x then Some True
      else if EJSVAL_IS_NULL_IMPL x then Some True
      else if EJSVAL_IS_DOUBLE_IMPL x then
        (if isnan x then Some False
         else if isnan y then Some False
         else if dbl_eq x y then Some True
         else if dbl_eq x 0 \<and> EJSDOUBLE_IS_NEGZERO y then Some True
         else if \<not> EJSDOUBLE_IS_NEGZERO x \<and> dbl_eq y 0 then Some True
         else Some False)
      else if EJSVAL_IS_STRING_IMPL x then same_text strs x y
      else if EJSVAL_IS_BOOLEAN_IMPL x then Some (EJSVAL_TO_BOOLEAN_IMPL x = EJSVAL_TO_BOOLEAN_IMPL y)
      else if EJSVAL_IS_SYMBOL_IMPL x then Some (x = y)
      else Some (x = y))"

definition ejs_op_strict_neq :: "strings \<Rightarrow> ejsval \<Rightarrow> ejsval \<Rightarrow> bool option" where
  "ejs_op_strict_neq strs x y = map_option Not (ejs_op_strict_eq strs x y)"

section \<open>\<open>typeof\<close>\<close>

definition ejs_op_typeof :: "(ptr \<Rightarrow> bool) \<Rightarrow> ejsval \<Rightarrow> string option" where
  "ejs_op_typeof is_function exp =
     (if EJSVAL_IS_NULL_IMPL exp then Some ''null''
      else if EJSVAL_IS_BOOLEAN_IMPL exp then Some ''boolean''
      else if EJSVAL_IS_STRING_IMPL exp then Some ''string''
      else if EJSVAL_IS_SYMBOL_IMPL exp then Some ''symbol''
      else if EJSVAL_IS_DOUBLE_IMPL exp then Some ''number''
      else if EJSVAL_IS_UNDEFINED_IMPL exp then Some ''undefined''
      else if EJSVAL_IS_OBJECT_IMPL exp = Some True then
        Some (if is_function (EJSVAL_TO_OBJECT_IMPL exp) then ''function'' else ''object'')
      else None)"

text \<open>The specialised tests the compiler emits for \<open>typeof x == "..."\<close>.\<close>

definition ejs_op_typeof_is_object :: "ejsval \<Rightarrow> bool option" where
  "ejs_op_typeof_is_object exp = EJSVAL_IS_OBJECT_IMPL exp"
definition ejs_op_typeof_is_function :: "(ptr \<Rightarrow> bool) \<Rightarrow> ejsval \<Rightarrow> bool option" where
  "ejs_op_typeof_is_function is_function exp =
     map_option (\<lambda>b. b \<and> is_function (EJSVAL_TO_OBJECT_IMPL exp)) (EJSVAL_IS_OBJECT_IMPL exp)"
definition ejs_op_typeof_is_string :: "ejsval \<Rightarrow> bool" where
  "ejs_op_typeof_is_string exp = EJSVAL_IS_STRING_IMPL exp"
definition ejs_op_typeof_is_symbol :: "ejsval \<Rightarrow> bool" where
  "ejs_op_typeof_is_symbol exp = EJSVAL_IS_SYMBOL_IMPL exp"
definition ejs_op_typeof_is_number :: "ejsval \<Rightarrow> bool" where
  "ejs_op_typeof_is_number exp = EJSVAL_IS_DOUBLE_IMPL exp"
definition ejs_op_typeof_is_undefined :: "ejsval \<Rightarrow> bool" where
  "ejs_op_typeof_is_undefined exp = EJSVAL_IS_UNDEFINED_IMPL exp"
definition ejs_op_typeof_is_boolean :: "ejsval \<Rightarrow> bool" where
  "ejs_op_typeof_is_boolean exp = EJSVAL_IS_BOOLEAN_IMPL exp"
definition ejs_op_typeof_is_null :: "ejsval \<Rightarrow> bool" where
  "ejs_op_typeof_is_null exp = EJSVAL_IS_NULL_IMPL exp"

section \<open>Bitwise operators\<close>

text \<open>\<open>int lhs_int = ToInteger(lhs)\<close> narrows the \<open>int64_t\<close>.\<close>

definition ejs_op_bitwise_not :: "double \<Rightarrow> ejsval option" where
  "ejs_op_bitwise_not val =
     Option.bind (ToInteger val) (\<lambda>i.
       DOUBLE_TO_EJSVAL_IMPL (dbl_of_int (sint (NOT (word_of_int i :: int32)))))"

definition ejs_op_bitwise_xor :: "double \<Rightarrow> double \<Rightarrow> ejsval option" where
  "ejs_op_bitwise_xor lhs rhs =
     Option.bind (ToInt32 lhs) (\<lambda>a. Option.bind (ToInt32 rhs) (\<lambda>b.
       DOUBLE_TO_EJSVAL_IMPL (dbl_of_int (sint (a XOR b)))))"

definition ejs_op_bitwise_and :: "double \<Rightarrow> double \<Rightarrow> ejsval option" where
  "ejs_op_bitwise_and lhs rhs =
     Option.bind (ToInteger lhs) (\<lambda>a. Option.bind (ToInteger rhs) (\<lambda>b.
       DOUBLE_TO_EJSVAL_IMPL (dbl_of_int (sint ((word_of_int a :: int32) AND word_of_int b)))))"

definition ejs_op_bitwise_or :: "double \<Rightarrow> double \<Rightarrow> ejsval option" where
  "ejs_op_bitwise_or lhs rhs =
     Option.bind (ToInteger lhs) (\<lambda>a. Option.bind (ToInteger rhs) (\<lambda>b.
       DOUBLE_TO_EJSVAL_IMPL (dbl_of_int (sint ((word_of_int a :: int32) OR word_of_int b)))))"

section \<open>Numbers\<close>

lemma double_tag_lt: "EJSVAL_IS_DOUBLE_IMPL x \<Longrightarrow> drop_bit 47 x < 0x1FFF1"
  using is_double_tag [of x] by (auto simp: word_le_iff_unat word_less_nat_alt)

lemma double_not_tagged:
  assumes "EJSVAL_IS_DOUBLE_IMPL x"
  shows "\<not> EJSVAL_IS_UNDEFINED_IMPL x" "\<not> EJSVAL_IS_NULL_IMPL x"
  using double_tag_lt [OF assms] is_undefined_tag [of x] is_null_tag [of x] by auto

lemma to_tag_eq: "EJSVAL_TO_TAG x = EJSVAL_TO_TAG y \<longleftrightarrow> drop_bit 47 x = drop_bit 47 y"
proof -
  have "unat (ucast (drop_bit 47 l) :: uint32) = unat (drop_bit 47 l)" for l :: uint64
    using drop_bit_47_bound [of l] by (simp add: unsigned_ucast_eq take_bit_nat_eq_self)
  then show ?thesis unfolding EJSVAL_TO_TAG_def tag_shift by (metis word_unat_eq_iff)
qed

lemma zero_tags: "drop_bit 47 (0::uint64) \<noteq> drop_bit 47 0x8000000000000000"
  by simp

text \<open>The exact meaning of \<open>===\<close> on numbers.  It agrees with the IEEE comparison except in two
  cases: zeros of opposite sign compare different (their tags differ), and a number too small to
  show in the upper 17 bits compares equal to the zero of its sign.\<close>

theorem strict_eq_numbers:
  assumes "EJSVAL_IS_DOUBLE_IMPL x" "EJSVAL_IS_DOUBLE_IMPL y"
  shows "ejs_op_strict_eq strs x y =
    Some (if iszero x \<and> iszero y then x = y
          else if iszero y \<and> EJSVAL_TO_TAG x = EJSVAL_TO_TAG y then \<not> isnan x
          else dbl_eq x y)"
proof -
  have n: "iszero d \<Longrightarrow> \<not> isnan d" for d by (rule iszero_not_nan)
  show ?thesis
    using assms double_not_tagged [OF assms(1)] zero_tags n [of x] n [of y]
    by (auto simp: ejs_op_strict_eq_def to_tag_eq dbl_eq_def iszero_def)
qed

theorem strict_eq_numbers_witness:
  "ejs_op_strict_eq (\<lambda>_. None) 0 0x8000000000000000 = Some False
   \<and> ejs_op_strict_eq (\<lambda>_. None) 1 0 = Some True"
proof -
  have d: "EJSVAL_IS_DOUBLE_IMPL 0" "EJSVAL_IS_DOUBLE_IMPL 1" "EJSVAL_IS_DOUBLE_IMPL 0x8000000000000000"
    by (simp_all add: EJSVAL_IS_DOUBLE_IMPL_def tag_defs)
  have "\<not> isnan 1" by (simp add: isnan_def dbl_exp_def dbl_mant_def mask_eq_exp_minus_1)
  then show ?thesis
    using strict_eq_numbers [OF d(1,3), of "\<lambda>_. None"] strict_eq_numbers [OF d(2,1), of "\<lambda>_. None"]
    by (simp add: iszero_def to_tag_eq)
qed

text \<open>\<open>SameValue\<close> of a number with itself holds, NaN included, except for zeros: the tests
  meant for zeros of opposite sign also catch equal zeros, so \<open>SameValue(0, 0)\<close> is false.
  Distinct numbers are told apart unless both are NaN.\<close>

theorem same_value_numbers:
  assumes "EJSVAL_IS_DOUBLE_IMPL x" "EJSVAL_IS_DOUBLE_IMPL y"
  shows "SameValue strs x x = Some (\<not> iszero x)
       \<and> (SameValue strs x y = Some True \<longrightarrow> x = y \<or> isnan x \<and> isnan y)"
proof
  note x = assms(1) double_not_tagged [OF assms(1)]
  show "SameValue strs x x = Some (\<not> iszero x)"
    using x iszero_not_nan [of x] by (auto simp: SameValue_def iszero_def)
  show "SameValue strs x y = Some True \<longrightarrow> x = y \<or> isnan x \<and> isnan y"
  proof
    assume "SameValue strs x y = Some True"
    then have "EJSVAL_TO_TAG x = EJSVAL_TO_TAG y" "isnan x \<and> isnan y \<or> dbl_eq x y"
      using x by (simp_all add: SameValue_def split: if_splits)
    then show "x = y \<or> isnan x \<and> isnan y"
      using zero_tags unfolding to_tag_eq dbl_eq_def iszero_def by metis
  qed
qed

theorem same_value_numbers_witness: "SameValue (\<lambda>_. None) 0 0 = Some False"
proof -
  have "EJSVAL_IS_DOUBLE_IMPL 0" by (simp add: EJSVAL_IS_DOUBLE_IMPL_def)
  from same_value_numbers [OF this this, of "\<lambda>_. None"] show ?thesis by (simp add: iszero_def)
qed

text \<open>\<open>SameValueZero\<close>, the key comparison of Map and Set, implements the standard on numbers
  (zeros equal, NaN equal to NaN); but undefined and null compare equal to every value that is
  not a number, because the type test requires both of its conditions to fail.\<close>

theorem same_value_zero_cases:
  assumes "EJSVAL_IS_DOUBLE_IMPL x" "EJSVAL_IS_DOUBLE_IMPL y" "\<not> EJSVAL_IS_DOUBLE_IMPL z"
  shows "SameValueZero strs x y = Some (dbl_eq x y \<or> isnan x \<and> isnan y)
       \<and> SameValueZero strs ejs_undefined z = Some True \<and> SameValueZero strs ejs_null z = Some True"
proof (intro conjI)
  show "SameValueZero strs x y = Some (dbl_eq x y \<or> isnan x \<and> isnan y)"
    using assms double_not_tagged [OF assms(1)]
    by (auto simp: SameValueZero_def dbl_eq_def iszero_def)
  have u: "\<not> EJSVAL_IS_DOUBLE_IMPL ejs_undefined" "EJSVAL_IS_UNDEFINED_IMPL ejs_undefined"
    "\<not> EJSVAL_IS_DOUBLE_IMPL ejs_null" "EJSVAL_IS_NULL_IMPL ejs_null"
    by (simp_all add: ejs_undefined_def ejs_null_def BUILD_EJSVAL_def EJSVAL_IS_DOUBLE_IMPL_def
        EJSVAL_IS_UNDEFINED_IMPL_def EJSVAL_IS_NULL_IMPL_def tag_defs)
  show "SameValueZero strs ejs_undefined z = Some True" "SameValueZero strs ejs_null z = Some True"
    using u assms(3) by (simp_all add: SameValueZero_def)
qed

theorem same_value_zero_cases_witness:
  "SameValueZero (\<lambda>_. None) ejs_undefined ejs_null = Some True
   \<and> SameValueZero (\<lambda>_. None) 0 0x8000000000000000 = Some True"
proof -
  have d: "EJSVAL_IS_DOUBLE_IMPL 0" "EJSVAL_IS_DOUBLE_IMPL 0x8000000000000000"
    "\<not> EJSVAL_IS_DOUBLE_IMPL ejs_null"
    by (simp_all add: EJSVAL_IS_DOUBLE_IMPL_def ejs_null_def BUILD_EJSVAL_def tag_defs)
  from same_value_zero_cases [OF d, of "\<lambda>_. None"] show ?thesis by (simp add: dbl_eq_def iszero_def)
qed

section \<open>Integers\<close>

lemma int32_of_int_eq: "i mod 2 ^ 32 = j mod 2 ^ 32 \<Longrightarrow> (word_of_int i :: int32) = word_of_int j"
  by (simp add: word_of_int_eq_iff take_bit_eq_mod)

lemma c_rem_word:
  "(word_of_int (c_rem i (2 ^ 32)) :: int32) = word_of_int i"
  "(word_of_int (c_rem i (2 ^ 32) - 2 ^ 32) :: int32) = word_of_int i"
proof -
  have "c_rem i (2 ^ 32) mod 2 ^ 32 = i mod 2 ^ 32"
  proof (cases "0 \<le> i")
    case False
    then show ?thesis by (simp add: c_rem_def mod_minus_eq)
  qed (auto simp: c_rem_def sgn_if)
  then show "(word_of_int (c_rem i (2 ^ 32)) :: int32) = word_of_int i"
    "(word_of_int (c_rem i (2 ^ 32) - 2 ^ 32) :: int32) = word_of_int i"
    by (auto intro: int32_of_int_eq simp del: of_int_diff)
qed

text \<open>C40: \<open>ToInt32\<close> of every double: NaN and the infinities give 0, as zeros do; every other double whose integer part
  is in the range of \<open>int64_t\<close> gives its integer part modulo \<open>2 ^ 32\<close>, negative numbers included, as the standard
  asks; a finite double outside that range has no defined result, since the C conversion to \<open>int64_t\<close> is undefined.\<close>

theorem to_int32_wraps:
  "ToInt32 d =
     (if isnan d \<or> isinf d then Some 0
      else if - (2 ^ 63) \<le> dbl_trunc d \<and> dbl_trunc d < 2 ^ 63 then Some (word_of_int (dbl_trunc d))
      else None)"
proof -
  have z: "iszero d \<Longrightarrow> dbl_trunc d = 0"
    by (auto simp: iszero_def dbl_trunc_def dbl_magnitude_def dbl_exp_def mask_eq_exp_minus_1)
  show ?thesis
  proof (cases "isnan d \<or> isinf d \<or> iszero d")
    case True
    then show ?thesis using z iszero_not_nan [of d] by (auto simp: ToInt32_def)
  next
    case False
    then show ?thesis using c_rem_word [of "dbl_trunc d"]
      by (auto simp: ToInt32_def double_to_int64_def Let_def)
  qed
qed

theorem to_int32_wraps_witness:
  "dbl_trunc 0xC1E0000000200000 = -2147483649 \<and> ToInt32 0xC1E0000000200000 = Some 0x7FFFFFFF"
proof -
  have t: "dbl_trunc 0xC1E0000000200000 = -2147483649"
    by (simp add: dbl_trunc_def dbl_magnitude_def dbl_exp_def dbl_mant_def dbl_neg_def
        mask_eq_exp_minus_1)
  moreover have "dbl_exp 0xC1E0000000200000 \<noteq> 2047" by (simp add: dbl_exp_def mask_eq_exp_minus_1)
  ultimately show ?thesis using to_int32_wraps [of "0xC1E0000000200000"]
    by (simp add: isnan_def isinf_def)
qed

section \<open>Strings\<close>

lemma chars_zero_append: "chars (xs @ 0 # ys) = chars xs"
  by (induction xs) auto

lemma flatten_is_flat:
  "ejs_primstring_flatten s = Some r \<Longrightarrow>
     r = EJS_STRING_FLAT (str_length r) (str_hash r) (has_ool_buffer r) (flat r)"
  by (cases s) (auto simp: ejs_primstring_flatten_def Let_def split: option.splits if_splits)

lemma flat_string_text:
  assumes "strs (EJSVAL_TO_STRING_IMPL x) = Some s" "wf_str s" "flattenable s"
  shows "\<exists>t. EJSVAL_TO_FLAT_STRING strs x = Some t \<and> 0 \<in> set t \<and> chars t = chars (content s)"
proof -
  obtain r where r: "ejs_primstring_flatten s = Some r" "content r = content s" "wf_str r"
    using flatten_correct [OF assms(2,3)] by blast
  obtain n h ool buf where f: "r = EJS_STRING_FLAT n h ool buf" using flatten_is_flat [OF r(1)] by blast
  have n: "n < length buf" "buf ! n = 0" using r(3) f by auto
  then have "buf = take n buf @ 0 # drop (Suc n) buf" by (metis id_take_nth_drop)
  then have "chars buf = chars (take n buf)" by (metis chars_zero_append)
  moreover have "0 \<in> set buf" using n by (metis nth_mem)
  ultimately show ?thesis using r f assms(1) by (simp add: EJSVAL_TO_FLAT_STRING_def)
qed

lemma same_text_spec:
  assumes "strs (EJSVAL_TO_STRING_IMPL x) = Some s" "wf_str s" "flattenable s"
    and "strs (EJSVAL_TO_STRING_IMPL y) = Some t" "wf_str t" "flattenable t"
  shows "same_text strs x y =
    Some (str_length s = str_length t \<and> chars (content s) = chars (content t))"
proof -
  obtain a where a: "EJSVAL_TO_FLAT_STRING strs x = Some a" "0 \<in> set a" "chars a = chars (content s)"
    using flat_string_text [of strs x s] assms by blast
  obtain b where b: "EJSVAL_TO_FLAT_STRING strs y = Some b" "0 \<in> set b" "chars b = chars (content t)"
    using flat_string_text [of strs y t] assms by blast
  obtain r where r: "strcmp_loop a b = Some r" "r = 0 \<longleftrightarrow> chars (content s) = chars (content t)"
    using strcmp_loop_spec [OF a(2) b(2)] a(3) b(3) by auto
  show ?thesis
  proof (cases "EJSVAL_TO_STRING_IMPL x = EJSVAL_TO_STRING_IMPL y")
    case True
    then have "s = t" using assms by simp
    then show ?thesis using a b assms True by (simp add: same_text_def compare_texts_def EJSVAL_TO_STRLEN_def)
  next
    case False
    then show ?thesis using a b r assms by (simp add: same_text_def compare_texts_def EJSVAL_TO_STRLEN_def)
  qed
qed

lemma string_value:
  assumes "encode (String p) = Some x"
  shows "EJSVAL_TO_STRING_IMPL x = p" "EJSVAL_IS_STRING_IMPL x" "\<not> EJSVAL_IS_DOUBLE_IMPL x"
    "\<not> EJSVAL_IS_UNDEFINED_IMPL x" "\<not> EJSVAL_IS_NULL_IMPL x" "drop_bit 47 x = 0x1FFF5"
  using assms encoded_is [OF assms] encode_tag [OF assms]
  by (auto simp: pointer_forms pointer_accessors pointer_payload simp del: push_bit_numeral)

text \<open>\<open>===\<close> and \<open>SameValue\<close> on strings, whatever their representation (flat, rope or dependent):
  true exactly when the lengths agree and the characters before the first NUL agree, so for
  strings without NUL characters exactly when the characters are the same.\<close>

theorem string_equality:
  assumes "encode (String p) = Some x" "strs p = Some s" "wf_str s" "flattenable s"
    and "encode (String q) = Some y" "strs q = Some t" "wf_str t" "flattenable t"
  shows "ejs_op_strict_eq strs x y = Some (str_length s = str_length t \<and> chars (content s) = chars (content t))
       \<and> SameValue strs x y = ejs_op_strict_eq strs x y
       \<and> (0 \<notin> set (content s) \<and> 0 \<notin> set (content t) \<longrightarrow>
            ejs_op_strict_eq strs x y = Some (content s = content t))"
proof -
  note x = string_value [OF assms(1)] and y = string_value [OF assms(5)]
  have st: "same_text strs x y = Some (str_length s = str_length t \<and> chars (content s) = chars (content t))"
    by (rule same_text_spec) (use x y assms in auto)
  have tags: "EJSVAL_TO_TAG x = EJSVAL_TO_TAG y" using x y by (simp add: to_tag_eq)
  have nul: "0 \<notin> set cs \<Longrightarrow> chars cs = cs" for cs :: "jschar list"
    by (induction cs) auto
  have len: "length (content s) = str_length s" "length (content t) = str_length t"
    using wf_length assms by auto
  have "ejs_op_strict_eq strs x y = same_text strs x y" "SameValue strs x y = same_text strs x y"
    using tags x by (simp_all add: ejs_op_strict_eq_def SameValue_def)
  moreover have "(str_length s = str_length t \<and> chars (content s) = chars (content t)) = (content s = content t)"
    if "0 \<notin> set (content s) \<and> 0 \<notin> set (content t)"
  proof -
    have "chars (content s) = content s" "chars (content t) = content t" using that nul by blast+
    then show ?thesis unfolding len [symmetric] by metis
  qed
  ultimately show ?thesis using st by simp
qed

definition nul_string :: "jschar \<Rightarrow> EJSPrimString" where
  "nul_string c = EJS_STRING_FLAT 3 None False [97, 0, c, 0]"

theorem string_equality_witness:
  "ejs_op_strict_eq ((\<lambda>_. None)(8 := Some (nul_string 98), 16 := Some (nul_string 99)))
     0xFFFA800000000008 0xFFFA800000000010 = Some True"
proof -
  have e: "encode (String 8) = Some 0xFFFA800000000008" "encode (String 16) = Some 0xFFFA800000000010"
    by (simp_all add: STRING_TO_EJSVAL_IMPL_def tag_defs)
  have w: "wf_str (nul_string c)" "flattenable (nul_string c)" for c by (simp_all add: nul_string_def)
  show ?thesis
    using string_equality [OF e(1) _ w(1) w(2) e(2) _ w(1) w(2),
        of "(\<lambda>_. None)(8 := Some (nul_string 98), 16 := Some (nul_string 99))" 98 99]
    by (simp add: nul_string_def numeral_3_eq_3)
qed

text \<open>The specialised \<open>typeof\<close> tests agree with the general operator on every value the compiled
  program can hold, except that the test for objects also accepts functions.\<close>

theorem typeof_tests_agree:
  assumes "encode v = Some l" "\<not> is_Int32 v" "\<not> is_Magic v" "\<not> is_ClosureEnv v"
  shows "(ejs_op_typeof_is_string l \<longleftrightarrow> ejs_op_typeof isfn l = Some ''string'')
       \<and> (ejs_op_typeof_is_symbol l \<longleftrightarrow> ejs_op_typeof isfn l = Some ''symbol'')
       \<and> (ejs_op_typeof_is_number l \<longleftrightarrow> ejs_op_typeof isfn l = Some ''number'')
       \<and> (ejs_op_typeof_is_undefined l \<longleftrightarrow> ejs_op_typeof isfn l = Some ''undefined'')
       \<and> (ejs_op_typeof_is_boolean l \<longleftrightarrow> ejs_op_typeof isfn l = Some ''boolean'')
       \<and> (ejs_op_typeof_is_null l \<longleftrightarrow> ejs_op_typeof isfn l = Some ''null'')
       \<and> ejs_op_typeof_is_function isfn l = Some (ejs_op_typeof isfn l = Some ''function'')
       \<and> ejs_op_typeof_is_object l
          = Some (ejs_op_typeof isfn l = Some ''object'' \<or> ejs_op_typeof isfn l = Some ''function'')"
  using assms(2-4)
  by (cases v)
    (simp_all add: encoded_is [OF assms(1)] ejs_op_typeof_def ejs_op_typeof_is_string_def
      ejs_op_typeof_is_symbol_def ejs_op_typeof_is_number_def ejs_op_typeof_is_undefined_def
      ejs_op_typeof_is_boolean_def ejs_op_typeof_is_null_def ejs_op_typeof_is_function_def
      ejs_op_typeof_is_object_def)

theorem typeof_tests_agree_witness:
  "ejs_op_typeof_is_object 0xFFFC800000001000 = Some True
   \<and> ejs_op_typeof (\<lambda>_. True) 0xFFFC800000001000 = Some ''function''"
proof -
  have e: "encode (Object 0x1000) = Some 0xFFFC800000001000"
    by (simp add: OBJECT_TO_EJSVAL_IMPL_def tag_defs)
  show ?thesis using typeof_tests_agree [OF e, of "\<lambda>_. True"]
    by (simp add: ejs_op_typeof_def encoded_is [OF e])
qed

end
