(* ===== verification/PropertyMap.thy ===== *)
theory PropertyMap
  imports Prelude
begin

text \<open>
  The property maps of \<open>src/runtime/ejs-object.c\<close> (\<open>_ejs_propertymap_*\<close>): a chained hash table
  whose entries are also linked in insertion order.  Entries live in a heap of addresses; the
  hash of a key (\<open>PropertyKeyHash\<close>) and the comparison of keys (\<open>_ejs_op_strict_eq\<close>) are
  arguments, so the map is verified for any keys that meet the contract below.  A function that
  may abort or loop returns \<open>None\<close> for both.
\<close>

section \<open>The structures\<close>

record ('k, 'd) pm_entry =
  next_bucket :: "addr option"
  next_insert :: "addr option"
  entry_hash :: uint32
  name :: 'k
  desc :: 'd

record EJSPropertyMap =
  head_insert :: "addr option"
  tail_insert :: "addr option"
  buckets :: "addr option list option"
  nbuckets :: nat
  inuse :: nat

text \<open>The heap of entries and the address the next \<open>malloc\<close> returns.\<close>

record ('k, 'd) pm_heap =
  entry :: "addr \<Rightarrow> ('k, 'd) pm_entry"
  next_free :: addr

abbreviation upd_entry where
  "upd_entry a f h \<equiv> h\<lparr>entry := (entry h)(a := f (entry h a))\<rparr>"

definition primes :: "nat list" where
  "primes = [5, 17, 31, 67, 131, 257, 521, 1031, 2053, 4099]"

definition bucket_of :: "uint32 \<Rightarrow> nat \<Rightarrow> nat" where
  "bucket_of hashcode n = unat hashcode mod n"

section \<open>The operations\<close>

definition ejs_propertymap_init :: EJSPropertyMap where
  "ejs_propertymap_init =
     \<lparr>head_insert = None, tail_insert = None, buckets = None, nbuckets = 0, inuse = 0\<rparr>"

text \<open>The loop over a bucket that \<open>lookup\<close> and \<open>insert\<close> share.\<close>

partial_function (option) bucket_find ::
  "('k \<Rightarrow> 'k \<Rightarrow> bool) \<Rightarrow> (addr \<Rightarrow> ('k, 'd) pm_entry) \<Rightarrow> uint32 \<Rightarrow> 'k \<Rightarrow> addr option \<Rightarrow> addr option option" where
  "bucket_find eq e hashcode k s =
     (case s of
        None \<Rightarrow> Some None
      | Some a \<Rightarrow>
          if entry_hash (e a) \<noteq> hashcode then bucket_find eq e hashcode k (next_bucket (e a))
          else if eq (name (e a)) k then Some (Some a)
          else bucket_find eq e hashcode k (next_bucket (e a)))"

definition ejs_propertymap_lookup ::
  "('k \<Rightarrow> uint32) \<Rightarrow> ('k \<Rightarrow> 'k \<Rightarrow> bool) \<Rightarrow> ('k, 'd) pm_heap \<Rightarrow> EJSPropertyMap \<Rightarrow> 'k \<Rightarrow> 'd option option" where
  "ejs_propertymap_lookup hash eq h m k =
     (if inuse m = 0 then Some None
      else case buckets m of
        None \<Rightarrow> None
      | Some bs \<Rightarrow>
          (let hashcode = hash k; bucket = bucket_of hashcode (nbuckets m) in
           map_option (map_option (\<lambda>a. desc (entry h a)))
             (bucket_find eq (entry h) hashcode k (bs ! bucket))))"

text \<open>\<open>rehash\<close>: the loop over the insertion list that pushes every entry on its new bucket.\<close>

partial_function (option) rehash_loop ::
  "nat \<Rightarrow> addr option \<Rightarrow> addr option list \<Rightarrow> (addr \<Rightarrow> ('k, 'd) pm_entry)
     \<Rightarrow> (addr option list \<times> (addr \<Rightarrow> ('k, 'd) pm_entry)) option" where
  "rehash_loop n s bs e =
     (case s of
        None \<Rightarrow> Some (bs, e)
      | Some a \<Rightarrow>
          (let bucket = bucket_of (entry_hash (e a)) n;
               e' = e(a := (e a)\<lparr>next_bucket := bs ! bucket\<rparr>)
           in rehash_loop n (next_insert (e' a)) (bs[bucket := Some a]) e'))"

fun next_prime :: "nat list \<Rightarrow> nat \<Rightarrow> nat option" where
  "next_prime (p # q # ps) n = (if n = p then Some q else next_prime (q # ps) n)"
| "next_prime _ n = None"

definition ejs_propertymap_rehash ::
  "('k, 'd) pm_heap \<Rightarrow> EJSPropertyMap \<Rightarrow> (('k, 'd) pm_heap \<times> EJSPropertyMap) option" where
  "ejs_propertymap_rehash h m =
     (case next_prime primes (nbuckets m) of
        None \<Rightarrow> None
      | Some new_size \<Rightarrow>
          (case rehash_loop new_size (head_insert m) (replicate new_size None) (entry h) of
             None \<Rightarrow> None
           | Some (bs, e) \<Rightarrow> Some (h\<lparr>entry := e\<rparr>, m\<lparr>buckets := Some bs, nbuckets := new_size\<rparr>)))"

definition add_entry ::
  "('k, 'd) pm_heap \<Rightarrow> EJSPropertyMap \<Rightarrow> addr option list \<Rightarrow> uint32 \<Rightarrow> 'k \<Rightarrow> 'd
     \<Rightarrow> ('k, 'd) pm_heap \<times> EJSPropertyMap" where
  "add_entry h m bs hashcode k d =
     (let bucket = bucket_of hashcode (nbuckets m);
          new_s = next_free h;
          h = h\<lparr>entry := (entry h)(new_s := \<lparr>next_bucket = bs ! bucket, next_insert = None,
                  entry_hash = hashcode, name = k, desc = d\<rparr>), next_free := new_s + 1\<rparr>;
          m = m\<lparr>buckets := Some (bs[bucket := Some new_s]), inuse := inuse m + 1\<rparr>;
          m = (if head_insert m = None then m\<lparr>head_insert := Some new_s\<rparr> else m);
          h = (case tail_insert m of
                 None \<Rightarrow> h
               | Some t \<Rightarrow> upd_entry t (next_insert_update (\<lambda>_. Some new_s)) h)
      in (h, m\<lparr>tail_insert := Some new_s\<rparr>))"

definition ejs_propertymap_insert ::
  "('k \<Rightarrow> uint32) \<Rightarrow> ('k \<Rightarrow> 'k \<Rightarrow> bool) \<Rightarrow> ('k, 'd) pm_heap \<Rightarrow> EJSPropertyMap \<Rightarrow> 'k \<Rightarrow> 'd
     \<Rightarrow> (('k, 'd) pm_heap \<times> EJSPropertyMap) option" where
  "ejs_propertymap_insert hash eq h m k d =
     (let m = (if buckets m = None
                 then m\<lparr>nbuckets := hd primes, buckets := Some (replicate (hd primes) None)\<rparr>
                 else m);
          bs = the (buckets m);
          hashcode = hash k;
          bucket = bucket_of hashcode (nbuckets m)
      in case bucket_find eq (entry h) hashcode k (bs ! bucket) of
           None \<Rightarrow> None
         | Some (Some a) \<Rightarrow> Some (upd_entry a (desc_update (\<lambda>_. d)) h, m)
         | Some None \<Rightarrow>
             (let (h, m) = add_entry h m bs hashcode k d in
              if 4 * inuse m > 3 * nbuckets m then ejs_propertymap_rehash h m
              else Some (h, m)))"

text \<open>\<open>remove\<close>: the loop over the bucket with its trailing pointer \<open>prev\<close>.\<close>

partial_function (option) remove_find ::
  "('k \<Rightarrow> 'k \<Rightarrow> bool) \<Rightarrow> (addr \<Rightarrow> ('k, 'd) pm_entry) \<Rightarrow> uint32 \<Rightarrow> 'k \<Rightarrow> addr option \<Rightarrow> addr option
     \<Rightarrow> (addr option \<times> addr) option option" where
  "remove_find eq e hashcode k prev s =
     (case s of
        None \<Rightarrow> Some None
      | Some a \<Rightarrow>
          if entry_hash (e a) = hashcode \<and> eq (name (e a)) k then Some (Some (prev, a))
          else remove_find eq e hashcode k (Some a) (next_bucket (e a)))"

partial_function (option) prev_insert_find ::
  "(addr \<Rightarrow> ('k, 'd) pm_entry) \<Rightarrow> addr \<Rightarrow> addr option \<Rightarrow> addr option option" where
  "prev_insert_find e s prev_insert =
     (case prev_insert of
        None \<Rightarrow> Some None
      | Some p \<Rightarrow> if next_insert (e p) = Some s then Some (Some p)
                  else prev_insert_find e s (next_insert (e p)))"

definition unlink_bucket ::
  "('k, 'd) pm_heap \<Rightarrow> EJSPropertyMap \<Rightarrow> addr option list \<Rightarrow> nat \<Rightarrow> addr option \<Rightarrow> addr
     \<Rightarrow> ('k, 'd) pm_heap \<times> EJSPropertyMap" where
  "unlink_bucket h m bs bucket prev s =
     (case prev of
        Some p \<Rightarrow> (upd_entry p (next_bucket_update (\<lambda>_. next_bucket (entry h s))) h, m)
      | None \<Rightarrow> (h, m\<lparr>buckets := Some (bs[bucket := next_bucket (entry h s)])\<rparr>))"

definition unlink_insert ::
  "('k, 'd) pm_heap \<Rightarrow> EJSPropertyMap \<Rightarrow> addr \<Rightarrow> (('k, 'd) pm_heap \<times> EJSPropertyMap) option" where
  "unlink_insert h m s =
     (if head_insert m = Some s then
        (let m = m\<lparr>head_insert := next_insert (entry h s)\<rparr> in
         Some (h, if tail_insert m = Some s then m\<lparr>tail_insert := None\<rparr> else m))
      else
        (case prev_insert_find (entry h) s (head_insert m) of
           None \<Rightarrow> None
         | Some None \<Rightarrow> Some (h, m)
         | Some (Some p) \<Rightarrow>
             Some (upd_entry p (next_insert_update (\<lambda>_. next_insert (entry h s))) h,
                   if tail_insert m = Some s then m\<lparr>tail_insert := Some p\<rparr> else m)))"

definition ejs_propertymap_remove ::
  "('k \<Rightarrow> uint32) \<Rightarrow> ('k \<Rightarrow> 'k \<Rightarrow> bool) \<Rightarrow> ('k, 'd) pm_heap \<Rightarrow> EJSPropertyMap \<Rightarrow> 'k
     \<Rightarrow> (('k, 'd) pm_heap \<times> EJSPropertyMap) option" where
  "ejs_propertymap_remove hash eq h m k =
     (if inuse m = 0 then Some (h, m)
      else case buckets m of
        None \<Rightarrow> None
      | Some bs \<Rightarrow>
          (let hashcode = hash k; bucket = bucket_of hashcode (nbuckets m) in
           case remove_find eq (entry h) hashcode k None (bs ! bucket) of
             None \<Rightarrow> None
           | Some None \<Rightarrow> Some (h, m)
           | Some (Some (prev, s)) \<Rightarrow>
               (let (h, m) = unlink_bucket h m bs bucket prev s in
                case unlink_insert h m s of
                  None \<Rightarrow> None
                | Some (h, m) \<Rightarrow> Some (h, m\<lparr>inuse := inuse m - 1\<rparr>))))"

text \<open>The two \<open>foreach\<close> functions visit the entries in insertion order.\<close>

partial_function (option) foreach_loop ::
  "(addr \<Rightarrow> ('k, 'd) pm_entry) \<Rightarrow> addr option \<Rightarrow> ('k \<times> 'd) list \<Rightarrow> ('k \<times> 'd) list option" where
  "foreach_loop e s visited =
     (case s of
        None \<Rightarrow> Some visited
      | Some a \<Rightarrow> foreach_loop e (next_insert (e a)) (visited @ [(name (e a), desc (e a))]))"

definition ejs_propertymap_foreach_property ::
  "('k, 'd) pm_heap \<Rightarrow> EJSPropertyMap \<Rightarrow> ('k \<times> 'd) list option" where
  "ejs_propertymap_foreach_property h m = foreach_loop (entry h) (head_insert m) []"

definition ejs_propertymap_foreach_value ::
  "('d \<Rightarrow> bool) \<Rightarrow> ('d \<Rightarrow> 'v) \<Rightarrow> ('k, 'd) pm_heap \<Rightarrow> EJSPropertyMap \<Rightarrow> 'v list option" where
  "ejs_propertymap_foreach_value has_value get_value h m =
     map_option (\<lambda>al. map (get_value \<circ> snd) (filter (has_value \<circ> snd) al))
       (foreach_loop (entry h) (head_insert m) [])"

section \<open>The abstract map\<close>

text \<open>Keys and descriptors in insertion order; keys are compared with \<open>eq\<close>, stored key first.\<close>

fun al_lookup :: "('k \<Rightarrow> 'k \<Rightarrow> bool) \<Rightarrow> ('k \<times> 'd) list \<Rightarrow> 'k \<Rightarrow> 'd option" where
  "al_lookup eq [] k = None"
| "al_lookup eq ((n, d) # al) k = (if eq n k then Some d else al_lookup eq al k)"

fun al_insert :: "('k \<Rightarrow> 'k \<Rightarrow> bool) \<Rightarrow> ('k \<times> 'd) list \<Rightarrow> 'k \<Rightarrow> 'd \<Rightarrow> ('k \<times> 'd) list" where
  "al_insert eq [] k d = [(k, d)]"
| "al_insert eq ((n, e) # al) k d = (if eq n k then (n, d) # al else (n, e) # al_insert eq al k d)"

fun al_remove :: "('k \<Rightarrow> 'k \<Rightarrow> bool) \<Rightarrow> ('k \<times> 'd) list \<Rightarrow> 'k \<Rightarrow> ('k \<times> 'd) list" where
  "al_remove eq [] k = []"
| "al_remove eq ((n, e) # al) k = (if eq n k then al else (n, e) # al_remove eq al k)"

section \<open>The representation invariant\<close>

definition pm_abs :: "('k, 'd) pm_heap \<Rightarrow> addr list \<Rightarrow> ('k \<times> 'd) list" where
  "pm_abs h xs = map (\<lambda>a. (name (entry h a), desc (entry h a))) xs"

text \<open>
  \<open>pm_order\<close>: the insertion list is \<open>xs\<close>; \<open>pm_buckets\<close>: every bucket chains exactly the entries of
  \<open>xs\<close> that hash to it; \<open>pm_keys\<close>: hashes are cached correctly and keys are pairwise different.
\<close>

definition pm_order :: "('k, 'd) pm_heap \<Rightarrow> EJSPropertyMap \<Rightarrow> addr list \<Rightarrow> bool" where
  "pm_order h m xs \<longleftrightarrow>
     path (\<lambda>a. next_insert (entry h a)) (head_insert m) xs
     \<and> tail_insert m = (if xs = [] then None else Some (last xs))
     \<and> inuse m = length xs \<and> (\<forall>a\<in>set xs. a < next_free h)"

definition chains ::
  "(addr \<Rightarrow> ('k, 'd) pm_entry) \<Rightarrow> addr option list \<Rightarrow> nat \<Rightarrow> addr set \<Rightarrow> bool" where
  "chains e bs n A \<longleftrightarrow>
     length bs = n \<and>
     (\<forall>b<n. \<exists>ys. path (\<lambda>a. next_bucket (e a)) (bs ! b) ys
                \<and> set ys = {a \<in> A. bucket_of (entry_hash (e a)) n = b})"

definition pm_buckets :: "('k, 'd) pm_heap \<Rightarrow> EJSPropertyMap \<Rightarrow> addr list \<Rightarrow> bool" where
  "pm_buckets h m xs \<longleftrightarrow>
     (case buckets m of
        None \<Rightarrow> xs = [] \<and> nbuckets m = 0
      | Some bs \<Rightarrow> nbuckets m \<in> set primes \<and> chains (entry h) bs (nbuckets m) (set xs))"

definition pm_keys ::
  "('k \<Rightarrow> bool) \<Rightarrow> ('k \<Rightarrow> uint32) \<Rightarrow> ('k \<Rightarrow> 'k \<Rightarrow> bool) \<Rightarrow> ('k, 'd) pm_heap \<Rightarrow> addr list \<Rightarrow> bool" where
  "pm_keys adm hash eq h xs \<longleftrightarrow>
     (\<forall>a\<in>set xs. adm (name (entry h a)) \<and> entry_hash (entry h a) = hash (name (entry h a)))
     \<and> (\<forall>a\<in>set xs. \<forall>b\<in>set xs. eq (name (entry h a)) (name (entry h b)) \<longrightarrow> a = b)"

definition pm_inv where
  "pm_inv adm hash eq h m xs \<longleftrightarrow> pm_order h m xs \<and> pm_buckets h m xs \<and> pm_keys adm hash eq h xs"

section \<open>Facts that do not depend on the key contract\<close>

lemma bucket_find_path:
  "path (\<lambda>a. next_bucket (e a)) s ys \<Longrightarrow>
     bucket_find eq e hc k s = Some (List.find (\<lambda>a. entry_hash (e a) = hc \<and> eq (name (e a)) k) ys)"
  by (induction ys arbitrary: s) (auto simp: bucket_find.simps)

lemma foreach_loop_path:
  "path (\<lambda>a. next_insert (e a)) s xs \<Longrightarrow>
     foreach_loop e s acc = Some (acc @ map (\<lambda>a. (name (e a), desc (e a))) xs)"
  by (induction xs arbitrary: s acc) (auto simp: foreach_loop.simps)

lemma remove_find_path:
  "path (\<lambda>a. next_bucket (e a)) s ys \<Longrightarrow>
     List.find (\<lambda>a. entry_hash (e a) = hc \<and> eq (name (e a)) k) ys = Some a \<Longrightarrow>
     \<exists>us vs. ys = us @ a # vs \<and>
       remove_find eq e hc k prev s = Some (Some (if us = [] then prev else Some (last us), a))"
proof (induction ys arbitrary: s prev)
  case (Cons y ys)
  show ?case
  proof (cases "entry_hash (e y) = hc \<and> eq (name (e y)) k")
    case True
    then show ?thesis using Cons.prems by (auto simp: remove_find.simps intro!: exI [of _ "[]"])
  next
    case False
    then have f: "List.find (\<lambda>a. entry_hash (e a) = hc \<and> eq (name (e a)) k) ys = Some a"
      using Cons.prems by (simp split: if_splits)
    have p: "path (\<lambda>a. next_bucket (e a)) (next_bucket (e y)) ys" using Cons.prems by simp
    from Cons.IH [OF p f, of "Some y"] obtain us vs where "ys = us @ a # vs"
      "remove_find eq e hc k (Some y) (next_bucket (e y)) =
        Some (Some (if us = [] then Some y else Some (last us), a))" by blast
    moreover have "remove_find eq e hc k prev s = remove_find eq e hc k (Some y) (next_bucket (e y))"
      using Cons.prems False by (subst remove_find.simps) auto
    ultimately have "y # ys = (y # us) @ a # vs \<and> remove_find eq e hc k prev s =
        Some (Some (if y # us = [] then prev else Some (last (y # us)), a))" by simp
    then show ?thesis by blast
  qed
qed simp

lemma remove_find_path_None:
  "path (\<lambda>a. next_bucket (e a)) s ys \<Longrightarrow>
     List.find (\<lambda>a. entry_hash (e a) = hc \<and> eq (name (e a)) k) ys = None \<Longrightarrow>
     remove_find eq e hc k prev s = Some None"
  by (induction ys arbitrary: s prev) (auto simp: remove_find.simps split: if_splits)

lemma prev_insert_find_path:
  "path (\<lambda>a. next_insert (e a)) s (us @ a # vs) \<Longrightarrow> us \<noteq> [] \<Longrightarrow>
     prev_insert_find e a s = Some (Some (last us))"
proof (induction us arbitrary: s)
  case (Cons u us)
  show ?case
  proof (cases us)
    case Nil
    then show ?thesis using Cons.prems by (simp add: prev_insert_find.simps)
  next
    case (Cons w ws)
    then have "w \<noteq> a" using path_distinct [OF Cons.prems(1)] by simp
    then show ?thesis using Cons.IH [of "Some w"] Cons.prems Cons
      by (simp add: prev_insert_find.simps)
  qed
qed simp

lemma al_lookup_map:
  "al_lookup eq (map (\<lambda>a. (n a, d a)) xs) k = map_option d (List.find (\<lambda>a. eq (n a) k) xs)"
  by (induction xs) auto

lemma al_insert_map_None:
  "List.find (\<lambda>a. eq (n a) k) xs = None \<Longrightarrow>
     al_insert eq (map (\<lambda>a. (n a, d a)) xs) k v = map (\<lambda>a. (n a, d a)) xs @ [(k, v)]"
  by (induction xs) (auto split: if_splits)

lemma al_insert_map_Some:
  "List.find (\<lambda>a. eq (n a) k) xs = Some a \<Longrightarrow> distinct xs \<Longrightarrow>
     al_insert eq (map (\<lambda>a. (n a, d a)) xs) k v = map (\<lambda>b. (n b, if b = a then v else d b)) xs"
proof (induction xs)
  case (Cons x xs)
  show ?case
  proof (cases "eq (n x) k")
    case True
    then show ?thesis using Cons.prems by auto
  next
    case False
    have "a \<in> set xs" using Cons.prems False by (auto simp: find_Some_iff)
    then show ?thesis using Cons False by auto
  qed
qed simp

lemma al_remove_map_Some:
  "List.find (\<lambda>a. eq (n a) k) xs = Some a \<Longrightarrow>
     al_remove eq (map (\<lambda>a. (n a, d a)) xs) k = map (\<lambda>a. (n a, d a)) (remove1 a xs)"
proof (induction xs)
  case (Cons x xs)
  show ?case
  proof (cases "eq (n x) k")
    case False
    then have "List.find (\<lambda>a. eq (n a) k) xs = Some a" using Cons.prems by simp
    moreover from this have "eq (n a) k" by (auto simp: find_Some_iff)
    ultimately show ?thesis using Cons.IH False by auto
  qed (use Cons.prems in auto)
qed simp

lemma al_remove_map_None:
  "List.find (\<lambda>a. eq (n a) k) xs = None \<Longrightarrow>
     al_remove eq (map (\<lambda>a. (n a, d a)) xs) k = map (\<lambda>a. (n a, d a)) xs"
  by (induction xs) (auto split: if_splits)

lemma find_unique:
  assumes "a \<in> set xs" "P a" "\<And>b. b \<in> set xs \<Longrightarrow> P b \<Longrightarrow> b = a"
  shows "List.find P xs = Some a"
proof (cases "List.find P xs")
  case None
  then show ?thesis using assms(1,2) by (auto simp: find_None_iff)
next
  case (Some b)
  then have "b \<in> set xs" "P b" by (auto simp: find_Some_iff)
  then show ?thesis using assms(3) Some by blast
qed

lemma pm_inv_empty: "pm_inv adm hash eq h ejs_propertymap_init []"
  by (simp add: pm_inv_def pm_order_def pm_buckets_def pm_keys_def ejs_propertymap_init_def)

section \<open>The key contract\<close>

text \<open>
  What the map needs of its keys: on the admissible ones the comparison is an equivalence that
  the hash respects.
\<close>

locale property_keys =
  fixes adm :: "'k \<Rightarrow> bool" and hash :: "'k \<Rightarrow> uint32" and eq :: "'k \<Rightarrow> 'k \<Rightarrow> bool"
  assumes eq_refl: "adm k \<Longrightarrow> eq k k"
    and eq_sym: "adm k \<Longrightarrow> adm l \<Longrightarrow> eq k l \<Longrightarrow> eq l k"
    and eq_trans: "adm k \<Longrightarrow> adm l \<Longrightarrow> adm n \<Longrightarrow> eq k l \<Longrightarrow> eq l n \<Longrightarrow> eq k n"
    and eq_hash: "adm k \<Longrightarrow> adm l \<Longrightarrow> eq k l \<Longrightarrow> hash k = hash l"
begin

lemma match_unique:
  assumes "pm_keys adm hash eq h xs" "adm k" "a \<in> set xs" "b \<in> set xs"
    and "eq (name (entry h a)) k" "eq (name (entry h b)) k"
  shows "a = b"
proof -
  have "adm (name (entry h a))" "adm (name (entry h b))" using assms by (auto simp: pm_keys_def)
  then have "eq (name (entry h a)) (name (entry h b))"
    using assms eq_sym [of "name (entry h b)" k] eq_trans [of "name (entry h a)" k "name (entry h b)"] by blast
  then show ?thesis using assms by (auto simp: pm_keys_def)
qed

text \<open>Searching the key's bucket finds what searching the whole insertion list finds.\<close>

lemma bucket_find_eq_find:
  assumes keys: "pm_keys adm hash eq h xs" and "adm k"
    and ys: "set ys = {a \<in> set xs. bucket_of (entry_hash (entry h a)) n = bucket_of (hash k) n}"
  shows "List.find (\<lambda>a. entry_hash (entry h a) = hash k \<and> eq (name (entry h a)) k) ys
       = List.find (\<lambda>a. eq (name (entry h a)) k) xs"
proof (cases "\<exists>a\<in>set xs. eq (name (entry h a)) k")
  case True
  then obtain a where a: "a \<in> set xs" "eq (name (entry h a)) k" by blast
  have facts: "entry_hash (entry h a) = hash k"
    using a keys \<open>adm k\<close> eq_hash [of "name (entry h a)" k] by (auto simp: pm_keys_def)
  have uniq: "b = a" if "b \<in> set xs" "eq (name (entry h b)) k" for b
    using match_unique [OF keys \<open>adm k\<close> that(1) a(1) that(2) a(2)] .
  have "List.find (\<lambda>a. eq (name (entry h a)) k) xs = Some a"
    by (rule find_unique) (use a uniq in blast)+
  moreover have "List.find (\<lambda>a. entry_hash (entry h a) = hash k \<and> eq (name (entry h a)) k) ys = Some a"
  proof (rule find_unique)
    show "a \<in> set ys" unfolding ys using a facts by simp
    show "entry_hash (entry h a) = hash k \<and> eq (name (entry h a)) k" using a facts by simp
    show "b = a" if "b \<in> set ys" "entry_hash (entry h b) = hash k \<and> eq (name (entry h b)) k" for b
      using that uniq ys by simp
  qed
  ultimately show ?thesis by simp
next
  case False
  then have "List.find (\<lambda>a. entry_hash (entry h a) = hash k \<and> eq (name (entry h a)) k) ys = None"
    "List.find (\<lambda>a. eq (name (entry h a)) k) xs = None"
    using ys by (simp_all add: find_None_iff)
  then show ?thesis by simp
qed

lemma bucket_lookup:
  assumes inv: "pm_inv adm hash eq h m xs" and "adm k" and bs: "buckets m = Some bs"
  shows "bucket_find eq (entry h) (hash k) k (bs ! bucket_of (hash k) (nbuckets m))
       = Some (List.find (\<lambda>a. eq (name (entry h a)) k) xs)"
    and "\<exists>ys. path (\<lambda>a. next_bucket (entry h a)) (bs ! bucket_of (hash k) (nbuckets m)) ys
       \<and> List.find (\<lambda>a. entry_hash (entry h a) = hash k \<and> eq (name (entry h a)) k) ys
         = List.find (\<lambda>a. eq (name (entry h a)) k) xs"
proof -
  have n: "nbuckets m \<in> set primes" "chains (entry h) bs (nbuckets m) (set xs)"
    and keys: "pm_keys adm hash eq h xs"
    using inv bs by (auto simp: pm_inv_def pm_buckets_def)
  have "bucket_of (hash k) (nbuckets m) < nbuckets m"
    using n(1) by (auto simp: bucket_of_def primes_def)
  then obtain ys where ys: "path (\<lambda>a. next_bucket (entry h a)) (bs ! bucket_of (hash k) (nbuckets m)) ys"
    "set ys = {a \<in> set xs. bucket_of (entry_hash (entry h a)) (nbuckets m) = bucket_of (hash k) (nbuckets m)}"
    using n(2) by (auto simp: chains_def)
  note eq = bucket_find_eq_find [OF keys \<open>adm k\<close> ys(2)]
  show "bucket_find eq (entry h) (hash k) k (bs ! bucket_of (hash k) (nbuckets m))
       = Some (List.find (\<lambda>a. eq (name (entry h a)) k) xs)"
    using bucket_find_path [OF ys(1), of eq "hash k" k] eq by simp
  show "\<exists>ys. path (\<lambda>a. next_bucket (entry h a)) (bs ! bucket_of (hash k) (nbuckets m)) ys
       \<and> List.find (\<lambda>a. entry_hash (entry h a) = hash k \<and> eq (name (entry h a)) k) ys
         = List.find (\<lambda>a. eq (name (entry h a)) k) xs"
    using ys(1) eq by blast
qed

lemma lookup_refines:
  assumes inv: "pm_inv adm hash eq h m xs" and "adm k"
  shows "ejs_propertymap_lookup hash eq h m k = Some (al_lookup eq (pm_abs h xs) k)"
proof (cases "inuse m = 0")
  case True
  then have "xs = []" using inv by (simp add: pm_inv_def pm_order_def)
  then show ?thesis using True by (simp add: ejs_propertymap_lookup_def pm_abs_def)
next
  case False
  then have "xs \<noteq> []" using inv by (auto simp: pm_inv_def pm_order_def)
  then obtain bs where bs: "buckets m = Some bs" using inv
    by (auto simp: pm_inv_def pm_buckets_def split: option.splits)
  show ?thesis using False bs bucket_lookup(1) [OF inv \<open>adm k\<close> bs]
    by (simp add: ejs_propertymap_lookup_def pm_abs_def al_lookup_map)
qed

end

section \<open>Insertion\<close>

lemma chains_bucket_cong:
  assumes "chains e bs n A" "\<And>a. a \<in> A \<Longrightarrow> next_bucket (e' a) = next_bucket (e a)"
    "\<And>a. a \<in> A \<Longrightarrow> entry_hash (e' a) = entry_hash (e a)"
  shows "chains e' bs n A"
  unfolding chains_def
proof (intro conjI allI impI)
  show "length bs = n" using assms(1) by (simp add: chains_def)
  fix b assume "b < n"
  then obtain ys where ys: "path (\<lambda>a. next_bucket (e a)) (bs ! b) ys"
    "set ys = {a \<in> A. bucket_of (entry_hash (e a)) n = b}"
    using assms(1) by (auto simp: chains_def)
  have "path (\<lambda>a. next_bucket (e' a)) p ys = path (\<lambda>a. next_bucket (e a)) p ys" if "set ys \<subseteq> A" for p ys
    using that assms(2) by (induction ys arbitrary: p) auto
  then have "path (\<lambda>a. next_bucket (e' a)) (bs ! b) ys" using ys by auto
  moreover have "set ys = {a \<in> A. bucket_of (entry_hash (e' a)) n = b}" using ys(2) assms(3) by auto
  ultimately show "\<exists>ys. path (\<lambda>a. next_bucket (e' a)) (bs ! b) ys
      \<and> set ys = {a \<in> A. bucket_of (entry_hash (e' a)) n = b}" by blast
qed

text \<open>Pushing an entry that is in no chain yet on the front of its bucket.\<close>

lemma chains_push:
  assumes "chains e bs n A" "s \<notin> A" "0 < n" "\<And>a. a \<in> A \<Longrightarrow> e' a = e a"
    and "next_bucket (e' s) = bs ! bucket_of (entry_hash (e' s)) n"
  shows "chains e' (bs[bucket_of (entry_hash (e' s)) n := Some s]) n (insert s A)"
  unfolding chains_def
proof (intro conjI allI impI)
  define b0 where "b0 = bucket_of (entry_hash (e' s)) n"
  have len: "length bs = n" using assms(1) by (simp add: chains_def)
  then show "length (bs[bucket_of (entry_hash (e' s)) n := Some s]) = n" by simp
  fix b assume "b < n"
  have "chains e' bs n A" by (rule chains_bucket_cong [OF assms(1)]) (simp_all add: assms(4))
  then obtain ys where ys: "path (\<lambda>a. next_bucket (e' a)) (bs ! b) ys"
    "set ys = {a \<in> A. bucket_of (entry_hash (e' a)) n = b}"
    using \<open>b < n\<close> by (auto simp: chains_def)
  show "\<exists>ys. path (\<lambda>a. next_bucket (e' a)) (bs[bucket_of (entry_hash (e' s)) n := Some s] ! b) ys
      \<and> set ys = {a \<in> insert s A. bucket_of (entry_hash (e' a)) n = b}"
  proof (cases "b = b0")
    case True
    then have "path (\<lambda>a. next_bucket (e' a)) (bs[b0 := Some s] ! b) (s # ys)"
      using ys(1) assms(5) len \<open>b < n\<close> by (simp add: b0_def)
    moreover have "set (s # ys) = {a \<in> insert s A. bucket_of (entry_hash (e' a)) n = b}"
      using ys(2) True by (auto simp: b0_def)
    ultimately show ?thesis unfolding b0_def by blast
  next
    case False
    then show ?thesis using ys by (intro exI [of _ ys]) (auto simp: b0_def)
  qed
qed

lemma rehash_loop_spec:
  "path (\<lambda>a. next_insert (e a)) s xs \<Longrightarrow> 0 < n \<Longrightarrow> chains e bs n A \<Longrightarrow> set xs \<inter> A = {} \<Longrightarrow>
     \<exists>bs' e'. rehash_loop n s bs e = Some (bs', e') \<and> chains e' bs' n (A \<union> set xs)
       \<and> (\<forall>a. \<exists>q. e' a = (e a)\<lparr>next_bucket := q\<rparr>)"
proof (induction xs arbitrary: s bs e A)
  case Nil
  have "\<exists>q. e a = (e a)\<lparr>next_bucket := q\<rparr>" for a by (rule exI [of _ "next_bucket (e a)"]) simp
  then show ?case using Nil by (simp add: rehash_loop.simps)
next
  case (Cons x xs)
  define b where "b = bucket_of (entry_hash (e x)) n"
  define e1 where "e1 = e(x := (e x)\<lparr>next_bucket := bs ! b\<rparr>)"
  have fields: "next_insert (e1 a) = next_insert (e a)" "entry_hash (e1 a) = entry_hash (e a)" for a
    by (simp_all add: e1_def)
  have x: "x \<notin> A" "x \<notin> set xs" using Cons.prems path_distinct [OF Cons.prems(1)] by auto
  have "chains e1 (bs[bucket_of (entry_hash (e1 x)) n := Some x]) n (insert x A)"
    using Cons.prems x by (intro chains_push [of e bs n A x e1]) (auto simp: e1_def b_def)
  then have c: "chains e1 (bs[b := Some x]) n (insert x A)" by (simp add: fields b_def)
  have p: "path (\<lambda>a. next_insert (e1 a)) (next_insert (e1 x)) xs" using Cons.prems by (simp add: fields)
  have d: "set xs \<inter> insert x A = {}" using Cons.prems x by auto
  obtain bs' e' where r: "rehash_loop n (next_insert (e1 x)) (bs[b := Some x]) e1 = Some (bs', e')"
    "chains e' bs' n (insert x A \<union> set xs)" "\<forall>a. \<exists>q. e' a = (e1 a)\<lparr>next_bucket := q\<rparr>"
    using Cons.IH [OF p Cons.prems(2) c d] by blast
  have step: "rehash_loop n s bs e = Some (bs', e')"
    using r(1) Cons.prems(1) unfolding e1_def b_def by (subst rehash_loop.simps) (simp add: Let_def)
  have "\<exists>q. e' a = (e a)\<lparr>next_bucket := q\<rparr>" for a
    using r(3) [rule_format, of a] by (cases "a = x") (auto simp: e1_def)
  then show ?case using step r(2) by auto
qed

lemma next_prime_props:
  "next_prime primes n = Some q \<Longrightarrow> n \<in> set primes \<and> q \<in> set primes \<and> 4 * (3 * n div 4 + 1) \<le> 3 * q"
  "n \<in> set primes \<Longrightarrow> next_prime primes n = None \<longleftrightarrow> n = 4099"
  by (auto simp: primes_def split: if_splits)

lemma rehash_refines:
  assumes inv: "pm_inv adm hash eq h m xs" and q: "next_prime primes (nbuckets m) = Some q"
  shows "\<exists>h' m'. ejs_propertymap_rehash h m = Some (h', m') \<and> pm_inv adm hash eq h' m' xs
           \<and> pm_abs h' xs = pm_abs h xs \<and> nbuckets m' = q \<and> inuse m' = inuse m"
proof -
  have p: "path (\<lambda>a. next_insert (entry h a)) (head_insert m) xs"
    using inv by (simp add: pm_inv_def pm_order_def)
  have qp: "q \<in> set primes" "0 < q" using next_prime_props(1) [OF q] by (auto simp: primes_def)
  have "chains (entry h) (replicate q None) q {}" by (simp add: chains_def)
  from rehash_loop_spec [OF p qp(2) this] obtain bs e where
    r: "rehash_loop q (head_insert m) (replicate q None) (entry h) = Some (bs, e)"
    "chains e bs q (set xs)" "\<forall>a. \<exists>r. e a = (entry h a)\<lparr>next_bucket := r\<rparr>" by auto
  have fields: "next_insert (e a) = next_insert (entry h a)" "name (e a) = name (entry h a)"
    "desc (e a) = desc (entry h a)" "entry_hash (e a) = entry_hash (entry h a)" for a
    using r(3) [rule_format, of a] by auto
  let ?h = "h\<lparr>entry := e\<rparr>" and ?m = "m\<lparr>buckets := Some bs, nbuckets := q\<rparr>"
  have "ejs_propertymap_rehash h m = Some (?h, ?m)" using q r(1) by (simp add: ejs_propertymap_rehash_def)
  moreover have "pm_inv adm hash eq ?h ?m xs"
    using inv r(2) qp by (simp add: pm_inv_def pm_order_def pm_buckets_def pm_keys_def fields)
  moreover have "pm_abs ?h xs = pm_abs h xs" by (simp add: pm_abs_def fields)
  ultimately show ?thesis by auto
qed

lemma init_buckets_inv:
  assumes "pm_inv adm hash eq h m xs" "buckets m = None"
  shows "pm_inv adm hash eq h (m\<lparr>nbuckets := hd primes, buckets := Some (replicate (hd primes) None)\<rparr>) xs"
    and "xs = []"
proof -
  show "xs = []" using assms by (simp add: pm_inv_def pm_buckets_def)
  then show "pm_inv adm hash eq h (m\<lparr>nbuckets := hd primes, buckets := Some (replicate (hd primes) None)\<rparr>) xs"
    using assms by (auto simp: pm_inv_def pm_order_def pm_buckets_def pm_keys_def chains_def primes_def)
qed

lemma pm_order_add:
  assumes "pm_order h m xs" "add_entry h m bs hc k d = (h', m')"
  shows "pm_order h' m' (xs @ [next_free h])"
proof -
  have n: "next_free h \<notin> set xs" using assms(1) by (auto simp: pm_order_def)
  show ?thesis
  proof (cases "xs = []")
    case True
    then show ?thesis using assms by (auto simp: pm_order_def add_entry_def Let_def)
  next
    case False
    have "last xs \<noteq> next_free h" using n last_in_set [OF False] by metis
    then have l: "tail_insert m = Some (last xs)" "last xs \<noteq> next_free h" "head_insert m \<noteq> None"
      using assms(1) False path_hd [of "\<lambda>a. next_insert (entry h a)" "head_insert m" xs]
      by (simp_all add: pm_order_def)
    have f: "(\<lambda>a. next_insert (entry h' a)) =
        (\<lambda>a. next_insert (entry h a))(next_free h := None, last xs := Some (next_free h))"
      using assms(2) l by (auto simp: add_entry_def Let_def fun_eq_iff)
    have "path (\<lambda>a. next_insert (entry h' a)) (head_insert m') (xs @ [next_free h])"
      using path_snoc_old [of "\<lambda>a. next_insert (entry h a)" "head_insert m" xs "next_free h"] assms False n l
      unfolding f by (auto simp: pm_order_def add_entry_def Let_def)
    then show ?thesis using assms l by (auto simp: pm_order_def add_entry_def Let_def less_Suc_eq)
  qed
qed

lemma add_entry_fields:
  assumes "pm_order h m xs" "add_entry h m bs hc k d = (h', m')"
  shows "a \<in> set xs \<Longrightarrow> name (entry h' a) = name (entry h a) \<and> desc (entry h' a) = desc (entry h a)
      \<and> entry_hash (entry h' a) = entry_hash (entry h a) \<and> next_bucket (entry h' a) = next_bucket (entry h a)"
    and "name (entry h' (next_free h)) = k" "desc (entry h' (next_free h)) = d"
      "entry_hash (entry h' (next_free h)) = hc"
      "next_bucket (entry h' (next_free h)) = bs ! bucket_of hc (nbuckets m)"
    and "buckets m' = Some (bs[bucket_of hc (nbuckets m) := Some (next_free h)])"
      "nbuckets m' = nbuckets m" "inuse m' = inuse m + 1"
  using assms last_in_set [of xs]
  by (auto simp: pm_order_def add_entry_def Let_def split: if_splits option.splits)

context property_keys
begin

lemma add_entry_refines:
  assumes inv: "pm_inv adm hash eq h m xs" and "adm k" and bs: "buckets m = Some bs"
    and new: "List.find (\<lambda>a. eq (name (entry h a)) k) xs = None"
    and add: "add_entry h m bs (hash k) k d = (h', m')"
  shows "pm_inv adm hash eq h' m' (xs @ [next_free h])"
    and "pm_abs h' (xs @ [next_free h]) = pm_abs h xs @ [(k, d)]"
proof -
  have ord: "pm_order h m xs" and bk: "nbuckets m \<in> set primes" "chains (entry h) bs (nbuckets m) (set xs)"
    and keys: "pm_keys adm hash eq h xs"
    using inv bs by (auto simp: pm_inv_def pm_buckets_def)
  note f = add_entry_fields [OF ord add]
  have n: "next_free h \<notin> set xs" using ord by (auto simp: pm_order_def)
  have "0 < nbuckets m" using bk(1) by (auto simp: primes_def)
  have "chains (entry h') bs (nbuckets m) (set xs)"
    by (rule chains_bucket_cong [OF bk(2)]) (simp_all add: f(1))
  from chains_push [OF this n \<open>0 < nbuckets m\<close>, of "entry h'"] f
  have "chains (entry h') (bs[bucket_of (hash k) (nbuckets m) := Some (next_free h)]) (nbuckets m)
      (insert (next_free h) (set xs))" by simp
  then have "pm_buckets h' m' (xs @ [next_free h])"
    using f bk(1) by (simp add: pm_buckets_def)
  moreover have "pm_keys adm hash eq h' (xs @ [next_free h])"
  proof -
    have no: "\<not> eq (name (entry h a)) k" if "a \<in> set xs" for a
      using new that by (auto simp: find_None_iff)
    moreover have "\<not> eq k (name (entry h a))" if "a \<in> set xs" for a
      using no [OF that] eq_sym [of k "name (entry h a)"] keys that \<open>adm k\<close> by (auto simp: pm_keys_def)
    ultimately show ?thesis using keys f \<open>adm k\<close> by (auto simp: pm_keys_def)
  qed
  ultimately show "pm_inv adm hash eq h' m' (xs @ [next_free h])"
    using pm_order_add [OF ord add] by (simp add: pm_inv_def)
  show "pm_abs h' (xs @ [next_free h]) = pm_abs h xs @ [(k, d)]"
    using f by (simp add: pm_abs_def)
qed

lemma update_refines:
  assumes inv: "pm_inv adm hash eq h m xs"
    and found: "List.find (\<lambda>a. eq (name (entry h a)) k) xs = Some a"
  shows "pm_inv adm hash eq (upd_entry a (desc_update (\<lambda>_. d)) h) m xs"
    and "pm_abs (upd_entry a (desc_update (\<lambda>_. d)) h) xs = al_insert eq (pm_abs h xs) k d"
proof -
  let ?h = "upd_entry a (desc_update (\<lambda>_. d)) h"
  have f: "next_bucket (entry ?h b) = next_bucket (entry h b)" "next_insert (entry ?h b) = next_insert (entry h b)"
    "name (entry ?h b) = name (entry h b)" "entry_hash (entry ?h b) = entry_hash (entry h b)" for b
    by simp_all
  show "pm_inv adm hash eq ?h m xs"
    using inv by (simp only: pm_inv_def pm_order_def pm_buckets_def pm_keys_def chains_def f) simp
  have "distinct xs" using inv path_distinct by (auto simp: pm_inv_def pm_order_def)
  from al_insert_map_Some [where eq = eq, OF found this, of "\<lambda>a. desc (entry h a)" d]
  show "pm_abs ?h xs = al_insert eq (pm_abs h xs) k d" by (auto simp: pm_abs_def)
qed

lemma insert_refines:
  assumes inv: "pm_inv adm hash eq h m xs" and load: "4 * inuse m \<le> 3 * nbuckets m" and "adm k"
  shows "if al_lookup eq (pm_abs h xs) k = None \<and> inuse m = 3074
         then ejs_propertymap_insert hash eq h m k d = None
         else \<exists>h' m' xs'. ejs_propertymap_insert hash eq h m k d = Some (h', m')
                \<and> pm_inv adm hash eq h' m' xs' \<and> 4 * inuse m' \<le> 3 * nbuckets m'
                \<and> pm_abs h' xs' = al_insert eq (pm_abs h xs) k d"
proof -
  define m0 where "m0 = (if buckets m = None
      then m\<lparr>nbuckets := hd primes, buckets := Some (replicate (hd primes) None)\<rparr> else m)"
  have inv0: "pm_inv adm hash eq h m0 xs"
    using init_buckets_inv(1) [OF inv] inv by (auto simp: m0_def)
  obtain bs where bs: "buckets m0 = Some bs" by (cases "buckets m") (auto simp: m0_def)
  have use: "inuse m0 = inuse m" "inuse m = length xs"
    using inv by (auto simp: m0_def pm_inv_def pm_order_def)
  have load0: "4 * inuse m0 \<le> 3 * nbuckets m0" "inuse m = 3074 \<Longrightarrow> nbuckets m0 = nbuckets m"
    using load init_buckets_inv(2) [OF inv] use by (auto simp: m0_def)
  have prime: "nbuckets m0 \<in> set primes" using inv0 bs by (simp add: pm_inv_def pm_buckets_def)
  note find = bucket_lookup(1) [OF inv0 \<open>adm k\<close> bs]
  have look: "al_lookup eq (pm_abs h xs) k = None \<longleftrightarrow> List.find (\<lambda>a. eq (name (entry h a)) k) xs = None"
    by (simp add: pm_abs_def al_lookup_map)
  show ?thesis
  proof (cases "List.find (\<lambda>a. eq (name (entry h a)) k) xs")
    case (Some a)
    have "ejs_propertymap_insert hash eq h m k d = Some (upd_entry a (desc_update (\<lambda>_. d)) h, m0)"
      using find Some bs by (simp add: ejs_propertymap_insert_def m0_def [symmetric] Let_def)
    then show ?thesis using update_refines [OF inv0 Some] load0 look Some by auto
  next
    case None
    obtain h1 m1 where add: "add_entry h m0 bs (hash k) k d = (h1, m1)" by fastforce
    note r = add_entry_refines [OF inv0 \<open>adm k\<close> bs None add]
    have f: "nbuckets m1 = nbuckets m0" "inuse m1 = inuse m + 1"
      using add_entry_fields(7,8) [OF _ add] inv0 use by (auto simp: pm_inv_def)
    have ab: "al_insert eq (pm_abs h xs) k d = pm_abs h xs @ [(k, d)]"
      using None by (simp add: pm_abs_def al_insert_map_None)
    have ins: "ejs_propertymap_insert hash eq h m k d =
        (if 4 * inuse m1 > 3 * nbuckets m1 then ejs_propertymap_rehash h1 m1 else Some (h1, m1))"
      using find None bs add by (simp add: ejs_propertymap_insert_def m0_def [symmetric] Let_def)
    consider (fits) "4 * inuse m1 \<le> 3 * nbuckets m1"
      | (grow) q where "4 * inuse m1 > 3 * nbuckets m1" "next_prime primes (nbuckets m1) = Some q"
      | (full) "4 * inuse m1 > 3 * nbuckets m1" "next_prime primes (nbuckets m1) = None"
      by (cases "next_prime primes (nbuckets m1)"; force)
    then show ?thesis
    proof cases
      case fits
      have "inuse m \<noteq> 3074" using fits f load0 prime by (auto simp: primes_def)
      then show ?thesis using ins r fits ab by auto
    next
      case grow
      from rehash_refines [OF r(1) grow(2)] obtain h2 m2 where
        h2: "ejs_propertymap_rehash h1 m1 = Some (h2, m2)" "pm_inv adm hash eq h2 m2 (xs @ [next_free h])"
        "pm_abs h2 (xs @ [next_free h]) = pm_abs h1 (xs @ [next_free h])" "nbuckets m2 = q" "inuse m2 = inuse m1"
        by blast
      have "4 * (3 * nbuckets m1 div 4 + 1) \<le> 3 * q" using next_prime_props(1) [OF grow(2)] by blast
      moreover have "inuse m \<le> 3 * nbuckets m1 div 4" using load0(1) use f by simp
      ultimately have "4 * inuse m2 \<le> 3 * nbuckets m2" unfolding h2(4,5) f(2) by simp
      moreover have "inuse m \<noteq> 3074"
        using grow f load0 prime use by (auto simp: primes_def)
      ultimately show ?thesis using ins r grow h2 ab by auto
    next
      case full
      then have "nbuckets m1 = 4099" using next_prime_props(2) f prime by simp
      then have "inuse m = 3074" using full f load0 use by linarith
      moreover have "ejs_propertymap_rehash h1 m1 = None"
        using full by (simp add: ejs_propertymap_rehash_def)
      ultimately show ?thesis using ins full look None by simp
    qed
  qed
qed

end

section \<open>Removal\<close>

lemma unlink_bucket_chains:
  assumes c: "chains (entry h) bs n A" and b: "b < n" and bs: "buckets m = Some bs"
    and p: "path (\<lambda>a. next_bucket (entry h a)) (bs ! b) (us @ s # vs)"
    and u: "unlink_bucket h m bs b (if us = [] then None else Some (last us)) s = (h1, m1)"
  shows "\<exists>bs'. m1 = m\<lparr>buckets := Some bs'\<rparr> \<and> chains (entry h1) bs' n (A - {s})
           \<and> next_free h1 = next_free h \<and> (\<forall>a. \<exists>q. entry h1 a = (entry h a)\<lparr>next_bucket := q\<rparr>)"
proof -
  have len: "length bs = n" using c by (simp add: chains_def)
  define nb where "nb = (\<lambda>a. next_bucket (entry h a))"
  define bs' where "bs' = (if us = [] then bs[b := nb s] else bs)"
  have m1: "m1 = m\<lparr>buckets := Some bs'\<rparr>" and nf: "next_free h1 = next_free h"
    using u bs by (auto simp: unlink_bucket_def bs'_def nb_def split: if_splits)
  have nb1: "(\<lambda>a. next_bucket (entry h1 a)) = (if us = [] then nb else nb(last us := nb s))"
    using u by (auto simp: unlink_bucket_def nb_def fun_eq_iff split: if_splits)
  have hash1: "entry_hash (entry h1 a) = entry_hash (entry h a)" for a
    using u by (auto simp: unlink_bucket_def split: if_splits)
  have d: "distinct (us @ s # vs)" using path_distinct [OF p] .
  have inb: "set (us @ s # vs) = {a \<in> A. bucket_of (entry_hash (entry h a)) n = b}"
    using c b p path_unique unfolding chains_def by metis
  have "chains (entry h1) bs' n (A - {s})"
    unfolding chains_def
  proof (intro conjI allI impI)
    show "length bs' = n" using len by (simp add: bs'_def)
    fix b' assume b': "b' < n"
    show "\<exists>ys. path (\<lambda>a. next_bucket (entry h1 a)) (bs' ! b') ys
        \<and> set ys = {a \<in> A - {s}. bucket_of (entry_hash (entry h1 a)) n = b'}"
    proof (cases "b' = b")
      case True
      have "path (\<lambda>a. next_bucket (entry h1 a)) (bs' ! b') (us @ vs)"
        using p path_unlink [of nb "bs ! b" us s vs] True len b unfolding nb_def [symmetric]
        by (cases "us = []") (auto simp: nb1 bs'_def)
      moreover have "set (us @ vs) = {a \<in> A - {s}. bucket_of (entry_hash (entry h1 a)) n = b'}"
        using inb d True by (auto simp: hash1)
      ultimately show ?thesis by blast
    next
      case False
      obtain ys where ys: "path nb (bs ! b') ys"
        "set ys = {a \<in> A. bucket_of (entry_hash (entry h a)) n = b'}"
        using c b' by (auto simp: chains_def nb_def)
      have "last us \<notin> set ys" if "us \<noteq> []"
        using ys(2) inb last_in_set [OF that] False by auto
      then have "path (\<lambda>a. next_bucket (entry h1 a)) (bs' ! b') ys"
        using ys(1) False by (cases "us = []") (auto simp: nb1 bs'_def)
      moreover have "set ys = {a \<in> A - {s}. bucket_of (entry_hash (entry h1 a)) n = b'}"
        using ys(2) inb False by (auto simp: hash1)
      ultimately show ?thesis by blast
    qed
  qed
  moreover have "\<exists>q. entry h1 a = (entry h a)\<lparr>next_bucket := q\<rparr>" for a
    using u by (cases "us = []"; cases "a = last us")
      (auto simp: unlink_bucket_def intro: exI [of _ "next_bucket (entry h a)"])
  ultimately show ?thesis using m1 nf by blast
qed

lemma unlink_insert_order:
  assumes o: "path (\<lambda>a. next_insert (entry h a)) (head_insert m) (us @ s # vs)"
    and t: "tail_insert m = Some (last (us @ s # vs))"
  shows "\<exists>h' m'. unlink_insert h m s = Some (h', m')
           \<and> path (\<lambda>a. next_insert (entry h' a)) (head_insert m') (us @ vs)
           \<and> tail_insert m' = (if us @ vs = [] then None else Some (last (us @ vs)))
           \<and> buckets m' = buckets m \<and> nbuckets m' = nbuckets m \<and> inuse m' = inuse m
           \<and> next_free h' = next_free h \<and> (\<forall>a. \<exists>q. entry h' a = (entry h a)\<lparr>next_insert := q\<rparr>)"
proof -
  have d: "distinct (us @ s # vs)" using path_distinct [OF o] .
  have same: "\<exists>q. entry h a = (entry h a)\<lparr>next_insert := q\<rparr>" for a
    by (rule exI [of _ "next_insert (entry h a)"]) simp
  have last: "tail_insert m = Some s \<longleftrightarrow> vs = []"
    using t d last_in_set [of vs] by (cases "vs = []") auto
  show ?thesis
  proof (cases "us = []")
    case True
    then show ?thesis using o t d same last
      by (auto simp: unlink_insert_def Let_def)
  next
    case False
    have "head_insert m \<noteq> Some s" using o d False by (cases us) auto
    moreover have "prev_insert_find (entry h) s (head_insert m) = Some (Some (last us))"
      by (rule prev_insert_find_path [OF o False])
    ultimately have u: "unlink_insert h m s =
      Some (upd_entry (last us) (next_insert_update (\<lambda>_. next_insert (entry h s))) h,
            if tail_insert m = Some s then m\<lparr>tail_insert := Some (last us)\<rparr> else m)"
      by (simp add: unlink_insert_def)
    have "(\<lambda>a. next_insert (entry (upd_entry (last us) (next_insert_update (\<lambda>_. next_insert (entry h s))) h) a))
        = (\<lambda>a. next_insert (entry h a))(last us := next_insert (entry h s))"
      by (simp add: fun_eq_iff)
    moreover have "path ((\<lambda>a. next_insert (entry h a))(last us := next_insert (entry h s))) (head_insert m) (us @ vs)"
      using path_unlink [OF o False] .
    moreover have "\<exists>q. entry (upd_entry (last us) (next_insert_update (\<lambda>_. next_insert (entry h s))) h) a
        = (entry h a)\<lparr>next_insert := q\<rparr>" for a
      using same by (cases "a = last us") auto
    ultimately show ?thesis using u t last False by (auto simp del: fun_upd_apply)
  qed
qed

context property_keys
begin

lemma pm_keys_subset:
  assumes "pm_keys adm hash eq h xs" "set ys \<subseteq> set xs"
    and "\<And>a. name (entry h' a) = name (entry h a)" "\<And>a. entry_hash (entry h' a) = entry_hash (entry h a)"
  shows "pm_keys adm hash eq h' ys"
  using assms by (simp add: pm_keys_def subset_iff)

lemma remove_refines:
  assumes inv: "pm_inv adm hash eq h m xs" and "adm k"
  shows "\<exists>h' m' xs'. ejs_propertymap_remove hash eq h m k = Some (h', m')
           \<and> pm_inv adm hash eq h' m' xs' \<and> nbuckets m' = nbuckets m \<and> inuse m' \<le> inuse m
           \<and> pm_abs h' xs' = al_remove eq (pm_abs h xs) k"
proof (cases "inuse m = 0")
  case True
  then have "xs = []" using inv by (simp add: pm_inv_def pm_order_def)
  then show ?thesis using True inv by (auto simp: ejs_propertymap_remove_def pm_abs_def)
next
  case False
  have ord: "pm_order h m xs" and keys: "pm_keys adm hash eq h xs" using inv by (auto simp: pm_inv_def)
  then have "xs \<noteq> []" using False by (auto simp: pm_order_def)
  then obtain bs where bs: "buckets m = Some bs" using inv
    by (auto simp: pm_inv_def pm_buckets_def split: option.splits)
  define b where "b = bucket_of (hash k) (nbuckets m)"
  have n: "nbuckets m \<in> set primes" "chains (entry h) bs (nbuckets m) (set xs)"
    using inv bs by (auto simp: pm_inv_def pm_buckets_def)
  have bn: "b < nbuckets m" using n(1) by (auto simp: bucket_of_def primes_def b_def)
  obtain ys where ys: "path (\<lambda>a. next_bucket (entry h a)) (bs ! b) ys"
    "List.find (\<lambda>a. entry_hash (entry h a) = hash k \<and> eq (name (entry h a)) k) ys
       = List.find (\<lambda>a. eq (name (entry h a)) k) xs"
    using bucket_lookup(2) [OF inv \<open>adm k\<close> bs] unfolding b_def by blast
  show ?thesis
  proof (cases "List.find (\<lambda>a. eq (name (entry h a)) k) xs")
    case None
    have "ejs_propertymap_remove hash eq h m k = Some (h, m)"
      using remove_find_path_None [OF ys(1), of "hash k" eq k None] ys(2) None False bs
      by (simp add: ejs_propertymap_remove_def b_def [symmetric])
    then show ?thesis using inv None by (auto simp: pm_abs_def al_remove_map_None)
  next
    case (Some s)
    obtain us vs where uv: "ys = us @ s # vs"
      "remove_find eq (entry h) (hash k) k None (bs ! b) = Some (Some (if us = [] then None else Some (last us), s))"
      using remove_find_path [OF ys(1), of "hash k" eq k s None] ys(2) Some by auto
    obtain h1 m1 where u1: "unlink_bucket h m bs b (if us = [] then None else Some (last us)) s = (h1, m1)"
      by fastforce
    obtain bs' where c1: "m1 = m\<lparr>buckets := Some bs'\<rparr>" "chains (entry h1) bs' (nbuckets m) (set xs - {s})"
      "next_free h1 = next_free h" "\<forall>a. \<exists>q. entry h1 a = (entry h a)\<lparr>next_bucket := q\<rparr>"
      using unlink_bucket_chains [OF n(2) bn bs ys(1) [unfolded uv(1)] u1] by blast
    have f1: "next_insert (entry h1 a) = next_insert (entry h a)" "name (entry h1 a) = name (entry h a)"
      "desc (entry h1 a) = desc (entry h a)" "entry_hash (entry h1 a) = entry_hash (entry h a)" for a
      using c1(4) [rule_format, of a] by auto
    have "s \<in> set xs" using Some by (auto simp: find_Some_iff)
    then obtain ps qs where xs: "xs = ps @ s # qs" by (auto dest: split_list)
    have dx: "distinct xs" using ord path_distinct by (auto simp: pm_order_def)
    then have rem: "remove1 s xs = ps @ qs" using xs by (simp add: remove1_append)
    have o1: "path (\<lambda>a. next_insert (entry h1 a)) (head_insert m1) (ps @ s # qs)"
      "tail_insert m1 = Some (last (ps @ s # qs))"
      using ord xs c1(1) by (auto simp: pm_order_def f1)
    obtain h2 m2 where u2: "unlink_insert h1 m1 s = Some (h2, m2)"
      "path (\<lambda>a. next_insert (entry h2 a)) (head_insert m2) (ps @ qs)"
      "tail_insert m2 = (if ps @ qs = [] then None else Some (last (ps @ qs)))"
      "buckets m2 = buckets m1" "nbuckets m2 = nbuckets m1" "inuse m2 = inuse m1"
      "next_free h2 = next_free h1" "\<forall>a. \<exists>q. entry h2 a = (entry h1 a)\<lparr>next_insert := q\<rparr>"
      using unlink_insert_order [OF o1] by blast
    have f2: "next_bucket (entry h2 a) = next_bucket (entry h1 a)" "name (entry h2 a) = name (entry h a)"
      "desc (entry h2 a) = desc (entry h a)" "entry_hash (entry h2 a) = entry_hash (entry h a)" for a
      using u2(8) [rule_format, of a] f1 [of a] by auto
    let ?m = "m2\<lparr>inuse := inuse m2 - 1\<rparr>"
    have step: "ejs_propertymap_remove hash eq h m k = Some (h2, ?m)"
      using False bs uv(2) u1 u2(1) by (simp add: ejs_propertymap_remove_def b_def [symmetric])
    have diff: "set xs - {s} = set (ps @ qs)" using xs dx by auto
    have "chains (entry h2) bs' (nbuckets m) (set (ps @ qs))"
      unfolding diff [symmetric] by (rule chains_bucket_cong [OF c1(2)]) (simp_all add: f2 f1)
    then have "pm_buckets h2 ?m (ps @ qs)" using u2 c1(1) n(1) by (simp add: pm_buckets_def)
    moreover have "pm_order h2 ?m (ps @ qs)" using u2 c1 ord xs by (auto simp: pm_order_def)
    moreover have "pm_keys adm hash eq h2 (ps @ qs)"
      by (rule pm_keys_subset [OF keys]) (auto simp: xs f2)
    moreover have "pm_abs h2 (ps @ qs) = al_remove eq (pm_abs h xs) k"
      unfolding pm_abs_def al_remove_map_Some [where eq = eq, OF Some] rem by (simp add: f2)
    ultimately show ?thesis using step u2 c1(1) by (auto simp: pm_inv_def)
  qed
qed

end

end
