(* ===== verification/PropertyKeys.thy ===== *)
theory PropertyKeys
  imports Ops PropertyMap
begin

text \<open>
  The keys of the runtime's property maps: strings and symbols, hashed by \<open>PropertyKeyHash\<close>
  (\<open>src/runtime/ejs-object.c\<close>) and compared by \<open>_ejs_op_strict_eq\<close>.  They meet the contract of
  the map on flat strings without NUL characters and on symbols, which makes the map's
  correctness available for them; the theorems about the maps are stated here.
\<close>

section \<open>Hashing a key\<close>

definition ejs_symbol_hash :: "(ptr \<Rightarrow> uint32) \<Rightarrow> ejsval \<Rightarrow> uint32" where
  "ejs_symbol_hash hashcode obj =
     (let sym = EJSVAL_TO_SYMBOL_IMPL obj in
      if hashcode sym AND 1 = 0 then ucast sym OR 1 else hashcode sym)"

definition ejs_string_hash :: "strings \<Rightarrow> ejsval \<Rightarrow> uint32 option" where
  "ejs_string_hash strs str =
     ejs_assert (EJSVAL_IS_STRING_IMPL str)
       (Option.bind (strs (EJSVAL_TO_STRING_IMPL str)) (\<lambda>s. map_option fst (ejs_primstring_hash s)))"

definition PropertyKeyHash :: "strings \<Rightarrow> (ptr \<Rightarrow> uint32) \<Rightarrow> ejsval \<Rightarrow> uint32 option" where
  "PropertyKeyHash strs hashcode argument =
     ejs_assert (EJSVAL_IS_STRING_IMPL argument \<or> EJSVAL_IS_SYMBOL_IMPL argument)
       (if EJSVAL_IS_STRING_IMPL argument then ejs_string_hash strs argument
        else Some (ejs_symbol_hash hashcode argument))"

definition key_hash :: "strings \<Rightarrow> (ptr \<Rightarrow> uint32) \<Rightarrow> ejsval \<Rightarrow> uint32" where
  "key_hash strs hashcode k = the (PropertyKeyHash strs hashcode k)"

definition key_eq :: "strings \<Rightarrow> ejsval \<Rightarrow> ejsval \<Rightarrow> bool" where
  "key_eq strs a b \<longleftrightarrow> ejs_op_strict_eq strs a b = Some True"

section \<open>Admissible keys\<close>

definition key_string :: "EJSPrimString \<Rightarrow> bool" where
  "key_string s \<longleftrightarrow> no_dependent s \<and> wf_str s \<and> 0 \<notin> set (content s)
     \<and> (case s of
          EJS_STRING_FLAT n h ool buf \<Rightarrow> h = None \<or> h = ucs2_hash buf 0 (int n)
        | _ \<Rightarrow> False)"

definition adm_key :: "strings \<Rightarrow> ejsval \<Rightarrow> bool" where
  "adm_key strs k \<longleftrightarrow>
     (EJSVAL_IS_STRING_IMPL k \<and>
        (case strs (EJSVAL_TO_STRING_IMPL k) of Some s \<Rightarrow> key_string s | None \<Rightarrow> False))
     \<or> EJSVAL_IS_SYMBOL_IMPL k"

lemma key_string_flat:
  assumes "key_string s"
  obtains n h ool buf where "s = EJS_STRING_FLAT n h ool buf" "n < length buf" "buf ! n = 0"
    "h = None \<or> h = ucs2_hash buf 0 (int n)" "wf_str s" "flattenable s" "0 \<notin> set (content s)"
  using assms by (cases s) (auto simp: key_string_def)

lemma key_string_hash:
  assumes "key_string s"
  shows "map_option fst (ejs_primstring_hash s) = Some (foldl hash_round 0 (content s @ [0]))"
proof -
  obtain n h ool buf where s: "s = EJS_STRING_FLAT n h ool buf" "n < length buf" "buf ! n = 0"
    "h = None \<or> h = ucs2_hash buf 0 (int n)" using assms by (rule key_string_flat)
  have "buf = (take n buf @ [0]) @ drop (Suc n) buf" using s(2,3) id_take_nth_drop [of n buf] by simp
  moreover have "ucs2_hash ((take n buf @ [0]) @ drop (Suc n) buf) 0 (int n)
      = Some (foldl hash_round 0 (take n buf @ [0]))"
    using s(2) by (intro ucs2_hash_append) simp
  ultimately have "ucs2_hash buf 0 (int n) = Some (foldl hash_round 0 (take n buf @ [0]))" by simp
  then show ?thesis using s by (auto simp: ejs_primstring_hash_def)
qed

lemma key_tag:
  assumes "adm_key strs k"
  shows "drop_bit 47 k = 0x1FFF5 \<or> drop_bit 47 k = 0x1FFF8"
    and "\<not> EJSVAL_IS_DOUBLE_IMPL k" "\<not> EJSVAL_IS_UNDEFINED_IMPL k" "\<not> EJSVAL_IS_NULL_IMPL k"
proof -
  show t: "drop_bit 47 k = 0x1FFF5 \<or> drop_bit 47 k = 0x1FFF8"
    using assms by (auto simp: adm_key_def tag_facts)
  then show "\<not> EJSVAL_IS_DOUBLE_IMPL k" using not_double_tag [of k] by auto
  show "\<not> EJSVAL_IS_UNDEFINED_IMPL k" "\<not> EJSVAL_IS_NULL_IMPL k"
    using t is_undefined_tag [of k] is_null_tag [of k] by auto
qed

text \<open>What a key stands for: the characters of a string or the symbol itself.\<close>

definition key_meaning :: "strings \<Rightarrow> ejsval \<Rightarrow> jschar list + ejsval" where
  "key_meaning strs k =
     (if EJSVAL_IS_STRING_IMPL k then Inl (content (the (strs (EJSVAL_TO_STRING_IMPL k)))) else Inr k)"

lemma key_eq_meaning:
  assumes "adm_key strs k" "adm_key strs l"
  shows "key_eq strs k l \<longleftrightarrow> key_meaning strs k = key_meaning strs l"
proof -
  note k = key_tag [OF assms(1)] and l = key_tag [OF assms(2)]
  consider (strings) "drop_bit 47 k = 0x1FFF5" "drop_bit 47 l = 0x1FFF5"
    | (symbols) "drop_bit 47 k = 0x1FFF8" "drop_bit 47 l = 0x1FFF8"
    | (mixed) "drop_bit 47 k \<noteq> drop_bit 47 l" using k(1) l(1) by auto
  then show ?thesis
  proof cases
    case strings
    then obtain s t where s: "strs (EJSVAL_TO_STRING_IMPL k) = Some s" "key_string s"
      and t: "strs (EJSVAL_TO_STRING_IMPL l) = Some t" "key_string t"
      using assms by (auto simp: adm_key_def tag_facts split: option.splits)
    have ws: "wf_str s" "flattenable s" "0 \<notin> set (content s)"
      and wt: "wf_str t" "flattenable t" "0 \<notin> set (content t)"
      using s(2) t(2) by (auto elim!: key_string_flat)
    have c: "0 \<notin> set cs \<Longrightarrow> chars cs = cs" for cs :: "jschar list" by (induction cs) auto
    have "ejs_op_strict_eq strs k l = same_text strs k l"
      using strings k by (simp add: ejs_op_strict_eq_def to_tag_eq tag_facts)
    also have "\<dots> = Some (str_length s = str_length t \<and> content s = content t)"
      using same_text_spec [OF s(1) ws(1,2) t(1) wt(1,2)] c [OF ws(3)] c [OF wt(3)] by simp
    finally show ?thesis
      using strings s t wf_length [OF ws(1)] wf_length [OF wt(1)]
      by (auto simp: key_eq_def key_meaning_def tag_facts)
  next
    case symbols
    then show ?thesis using k by (simp add: key_eq_def key_meaning_def ejs_op_strict_eq_def to_tag_eq tag_facts)
  next
    case mixed
    then show ?thesis using k(1) l(1) by (auto simp: key_eq_def key_meaning_def ejs_op_strict_eq_def to_tag_eq tag_facts)
  qed
qed

lemma key_hash_meaning:
  assumes "adm_key strs k" "adm_key strs l" "key_meaning strs k = key_meaning strs l"
  shows "key_hash strs hc k = key_hash strs hc l"
proof (cases "EJSVAL_IS_STRING_IMPL k")
  case True
  then have l: "EJSVAL_IS_STRING_IMPL l" using assms(3) by (auto simp: key_meaning_def split: if_splits)
  have h: "key_hash strs hc k = foldl hash_round 0 (content (the (strs (EJSVAL_TO_STRING_IMPL k))) @ [0])"
    if a: "adm_key strs k" "EJSVAL_IS_STRING_IMPL k" for k
  proof -
    obtain s where s: "strs (EJSVAL_TO_STRING_IMPL k) = Some s" "key_string s"
      using a by (auto simp: adm_key_def tag_facts split: option.splits)
    then show ?thesis using a key_string_hash [OF s(2)]
      by (auto simp: key_hash_def PropertyKeyHash_def ejs_string_hash_def)
  qed
  have "content (the (strs (EJSVAL_TO_STRING_IMPL k))) = content (the (strs (EJSVAL_TO_STRING_IMPL l)))"
    using assms(3) True l by (simp add: key_meaning_def)
  then show ?thesis using h [OF assms(1) True] h [OF assms(2) l] by simp
next
  case False
  then show ?thesis using assms(3) by (auto simp: key_meaning_def split: if_splits)
qed

interpretation runtime_keys: property_keys "adm_key strs" "key_hash strs hc" "key_eq strs" for strs hc
  by unfold_locales (auto simp: key_eq_meaning intro: key_hash_meaning)

section \<open>The map is an ordered dictionary\<close>

text \<open>
  \<open>map_holds\<close>: the map is well-formed and represents the given association list, in insertion
  order.  The locale states what the object code relies on, for any implementation.
\<close>

definition map_holds ::
  "strings \<Rightarrow> (ptr \<Rightarrow> uint32) \<Rightarrow> (ejsval, 'd) pm_heap \<times> EJSPropertyMap \<Rightarrow> (ejsval \<times> 'd) list \<Rightarrow> bool" where
  "map_holds strs hc hm al \<longleftrightarrow>
     (\<exists>xs. pm_inv (adm_key strs) (key_hash strs hc) (key_eq strs) (fst hm) (snd hm) xs
        \<and> 4 * inuse (snd hm) \<le> 3 * nbuckets (snd hm) \<and> pm_abs (fst hm) xs = al)"

locale ordered_dictionary =
  fixes ok :: "'k \<Rightarrow> bool" and eq :: "'k \<Rightarrow> 'k \<Rightarrow> bool" and holds :: "'m \<Rightarrow> ('k \<times> 'd) list \<Rightarrow> bool"
    and lookup :: "'m \<Rightarrow> 'k \<Rightarrow> 'd option option"
    and ins :: "'m \<Rightarrow> 'k \<Rightarrow> 'd \<Rightarrow> 'm option"
    and rem :: "'m \<Rightarrow> 'k \<Rightarrow> 'm option"
  assumes ok_refl: "ok k \<Longrightarrow> eq k k"
    and ok_sym: "ok k \<Longrightarrow> ok l \<Longrightarrow> eq k l \<Longrightarrow> eq l k"
    and ok_trans: "ok k \<Longrightarrow> ok l \<Longrightarrow> ok n \<Longrightarrow> eq k l \<Longrightarrow> eq l n \<Longrightarrow> eq k n"
    and keys_ok: "holds m al \<Longrightarrow> \<forall>(n, d)\<in>set al. ok n"
    and keys_distinct: "holds m al \<Longrightarrow> i < length al \<Longrightarrow> j < length al \<Longrightarrow>
        eq (fst (al ! i)) (fst (al ! j)) \<Longrightarrow> i = j"
    and lookup_law: "holds m al \<Longrightarrow> ok k \<Longrightarrow> lookup m k = Some (al_lookup eq al k)"
    and ins_law: "holds m al \<Longrightarrow> ok k \<Longrightarrow> ins m k d = Some m' \<Longrightarrow> holds m' (al_insert eq al k d)"
    and rem_law: "holds m al \<Longrightarrow> ok k \<Longrightarrow> \<exists>m'. rem m k = Some m' \<and> holds m' (al_remove eq al k)"
begin

lemma al_lookup_insert:
  assumes "\<forall>(n, d)\<in>set al. ok n" "ok k" "ok l"
  shows "al_lookup eq (al_insert eq al k d) l = (if eq k l then Some d else al_lookup eq al l)"
  using assms(1)
proof (induction al)
  case (Cons nd al)
  obtain n e where nd: "nd = (n, e)" by fastforce
  have n: "ok n" using Cons.prems nd by simp
  have *: "eq n l \<longleftrightarrow> eq k l" if "eq n k"
    using that n assms(2,3) ok_sym [of n k] ok_trans [of n k l] ok_trans [of k n l] by blast
  show ?case
  proof (cases "eq n k")
    case True
    then show ?thesis using * nd by simp
  next
    case False
    have "\<not> (eq n l \<and> eq k l)" using False n assms(2,3) ok_sym [of k l] ok_trans [of n l k] by blast
    then show ?thesis using False Cons nd by auto
  qed
qed simp

lemma al_insert_fresh:
  assumes "al_lookup eq al k = None"
  shows "al_insert eq al k d = al @ [(k, d)]"
  using assms by (induction al) (auto split: if_splits)

lemma al_lookup_remove_other:
  assumes "\<forall>(n, d)\<in>set al. ok n" "ok k" "ok l" "\<not> eq k l"
  shows "al_lookup eq (al_remove eq al k) l = al_lookup eq al l"
  using assms(1)
proof (induction al)
  case (Cons nd al)
  obtain n e where nd: "nd = (n, e)" by fastforce
  have "\<not> eq n l" if "eq n k"
    using that Cons.prems nd assms ok_sym [of n k] ok_trans [of k n l] by auto
  then show ?case using Cons nd by auto
qed simp

lemma lookup_after_insert:
  assumes "holds m al" "ok k" "ok l" "ins m k d = Some m'"
  shows "lookup m' l = (if eq k l then Some (Some d) else lookup m l)"
proof -
  have "holds m' (al_insert eq al k d)" by (rule ins_law [OF assms(1,2,4)])
  then show ?thesis
    using lookup_law [of m'] lookup_law [OF assms(1,3)] al_lookup_insert [OF keys_ok [OF assms(1)] assms(2,3)]
      assms(3) by simp
qed

lemma lookup_after_remove:
  assumes "holds m al" "ok k" "ok l" "\<not> eq k l"
  shows "\<exists>m'. rem m k = Some m' \<and> lookup m' l = lookup m l"
  using rem_law [OF assms(1,2)] lookup_law [OF assms(1,3)] lookup_law [OF _ assms(3)]
    al_lookup_remove_other [OF keys_ok [OF assms(1)] assms(2-4)] by auto

end

definition pm_lookup where
  "pm_lookup strs hc hm k = ejs_propertymap_lookup (key_hash strs hc) (key_eq strs) (fst hm) (snd hm) k"

definition pm_insert where
  "pm_insert strs hc hm k d = ejs_propertymap_insert (key_hash strs hc) (key_eq strs) (fst hm) (snd hm) k d"

definition pm_remove where
  "pm_remove strs hc hm k = ejs_propertymap_remove (key_hash strs hc) (key_eq strs) (fst hm) (snd hm) k"

lemma map_holds_length: "map_holds strs hc hm al \<Longrightarrow> inuse (snd hm) = length al"
  by (auto simp: map_holds_def pm_inv_def pm_order_def pm_abs_def)

lemma pm_lookup_holds:
  "map_holds strs hc hm al \<Longrightarrow> adm_key strs k \<Longrightarrow> pm_lookup strs hc hm k = Some (al_lookup (key_eq strs) al k)"
  unfolding map_holds_def pm_lookup_def using runtime_keys.lookup_refines by blast

lemma pm_insert_holds:
  assumes "map_holds strs hc hm al" "adm_key strs k"
  shows "if al_lookup (key_eq strs) al k = None \<and> length al = 3074 then pm_insert strs hc hm k d = None
         else \<exists>hm'. pm_insert strs hc hm k d = Some hm' \<and> map_holds strs hc hm' (al_insert (key_eq strs) al k d)"
proof -
  obtain xs where xs: "pm_inv (adm_key strs) (key_hash strs hc) (key_eq strs) (fst hm) (snd hm) xs"
    "4 * inuse (snd hm) \<le> 3 * nbuckets (snd hm)" "pm_abs (fst hm) xs = al"
    using assms(1) by (auto simp: map_holds_def)
  have r: "if al_lookup (key_eq strs) al k = None \<and> length al = 3074
      then pm_insert strs hc hm k d = None
      else \<exists>h' m' xs'. pm_insert strs hc hm k d = Some (h', m')
        \<and> pm_inv (adm_key strs) (key_hash strs hc) (key_eq strs) h' m' xs' \<and> 4 * inuse m' \<le> 3 * nbuckets m'
        \<and> pm_abs h' xs' = al_insert (key_eq strs) al k d"
    using runtime_keys.insert_refines [OF xs(1,2) assms(2), of d]
    unfolding pm_insert_def xs(3) map_holds_length [OF assms(1)] .
  show ?thesis
  proof (cases "al_lookup (key_eq strs) al k = None \<and> length al = 3074")
    case True
    then show ?thesis using r by simp
  next
    case False
    then obtain h' m' xs' where n: "pm_insert strs hc hm k d = Some (h', m')"
      "pm_inv (adm_key strs) (key_hash strs hc) (key_eq strs) h' m' xs'" "4 * inuse m' \<le> 3 * nbuckets m'"
      "pm_abs h' xs' = al_insert (key_eq strs) al k d" using r by (simp only: if_False) blast
    then have "map_holds strs hc (h', m') (al_insert (key_eq strs) al k d)"
      by (auto simp: map_holds_def)
    with n(1) False show ?thesis by (simp only: if_False) blast
  qed
qed

lemma pm_remove_holds:
  assumes "map_holds strs hc hm al" "adm_key strs k"
  shows "\<exists>hm'. pm_remove strs hc hm k = Some hm' \<and> map_holds strs hc hm' (al_remove (key_eq strs) al k)"
proof -
  obtain xs where xs: "pm_inv (adm_key strs) (key_hash strs hc) (key_eq strs) (fst hm) (snd hm) xs"
    "4 * inuse (snd hm) \<le> 3 * nbuckets (snd hm)" "pm_abs (fst hm) xs = al"
    using assms(1) by (auto simp: map_holds_def)
  obtain h' m' xs' where n: "pm_remove strs hc hm k = Some (h', m')"
    "pm_inv (adm_key strs) (key_hash strs hc) (key_eq strs) h' m' xs'" "nbuckets m' = nbuckets (snd hm)"
    "inuse m' \<le> inuse (snd hm)" "pm_abs h' xs' = al_remove (key_eq strs) al k"
    using runtime_keys.remove_refines [OF xs(1) assms(2)] xs(3) unfolding pm_remove_def by blast
  have "4 * inuse m' \<le> 3 * nbuckets m'" using n(3,4) xs(2) by linarith
  then have "map_holds strs hc (h', m') (al_remove (key_eq strs) al k)" using n by (auto simp: map_holds_def)
  then show ?thesis using n(1) by blast
qed

lemma map_holds_keys:
  assumes "map_holds strs hc hm al"
  shows "\<forall>(n, d)\<in>set al. adm_key strs n"
    and "i < length al \<Longrightarrow> j < length al \<Longrightarrow> key_eq strs (fst (al ! i)) (fst (al ! j)) \<Longrightarrow> i = j"
proof -
  obtain xs where xs: "pm_inv (adm_key strs) (key_hash strs hc) (key_eq strs) (fst hm) (snd hm) xs"
    and al: "al = pm_abs (fst hm) xs" using assms by (auto simp: map_holds_def)
  have keys: "pm_keys (adm_key strs) (key_hash strs hc) (key_eq strs) (fst hm) xs" and "distinct xs"
    using xs path_distinct by (auto simp: pm_inv_def pm_order_def)
  show "\<forall>(n, d)\<in>set al. adm_key strs n" using keys by (auto simp: al pm_abs_def pm_keys_def)
  assume "i < length al" "j < length al" "key_eq strs (fst (al ! i)) (fst (al ! j))"
  then have "xs ! i = xs ! j" "i < length xs" "j < length xs" using keys by (auto simp: al pm_abs_def pm_keys_def)
  then show "i = j" using \<open>distinct xs\<close> by (simp add: nth_eq_iff_index_eq)
qed

interpretation property_dict: ordered_dictionary "adm_key strs" "key_eq strs" "map_holds strs hc"
  "pm_lookup strs hc" "pm_insert strs hc" "pm_remove strs hc" for strs hc
proof
  show "map_holds strs hc m' (al_insert (key_eq strs) al k d)"
    if "map_holds strs hc m al" "adm_key strs k" "pm_insert strs hc m k d = Some m'" for m al k d m'
    using pm_insert_holds [OF that(1,2), of d] that(3) by (auto split: if_splits)
qed (fact runtime_keys.eq_refl runtime_keys.eq_sym runtime_keys.eq_trans map_holds_keys
    pm_lookup_holds pm_remove_holds)+

section \<open>Properties\<close>

text \<open>A lookup in a well-formed property map ends and returns the descriptor of the unique entry
  with an equal key, or NULL; visiting the map yields all entries in insertion order.\<close>

theorem propertymap_lookup_correct:
  assumes "map_holds strs hc (h, m) al" "adm_key strs k"
  shows "ejs_propertymap_lookup (key_hash strs hc) (key_eq strs) h m k = Some (al_lookup (key_eq strs) al k)
       \<and> ejs_propertymap_foreach_property h m = Some al"
proof
  show "ejs_propertymap_lookup (key_hash strs hc) (key_eq strs) h m k = Some (al_lookup (key_eq strs) al k)"
    using pm_lookup_holds [OF assms] by (simp add: pm_lookup_def)
  obtain xs where xs: "path (\<lambda>a. next_insert (entry h a)) (head_insert m) xs" "al = pm_abs h xs"
    using assms(1) by (auto simp: map_holds_def pm_inv_def pm_order_def)
  show "ejs_propertymap_foreach_property h m = Some al"
    using foreach_loop_path [OF xs(1), of "[]"] xs(2)
    by (simp add: ejs_propertymap_foreach_property_def pm_abs_def)
qed

definition sample_key :: ejsval where "sample_key = 0xFFFC000000001000"

definition empty_heap :: "(ejsval, nat) pm_heap" where
  "empty_heap = \<lparr>entry = \<lambda>_. \<lparr>next_bucket = None, next_insert = None, entry_hash = 0, name = 0, desc = 0\<rparr>,
     next_free = 1\<rparr>"

lemma sample_holds: "map_holds strs hc (h, ejs_propertymap_init) []"
proof -
  have "pm_inv (adm_key strs) (key_hash strs hc) (key_eq strs) h ejs_propertymap_init []"
    by (rule pm_inv_empty)
  then show ?thesis by (auto simp: map_holds_def pm_abs_def ejs_propertymap_init_def)
qed

lemma sample_key_adm: "adm_key strs sample_key"
  by (simp add: adm_key_def tag_facts sample_key_def)

theorem propertymap_lookup_correct_witness:
  "ejs_propertymap_lookup (key_hash (\<lambda>_. None) (\<lambda>_. 0)) (key_eq (\<lambda>_. None)) empty_heap
     ejs_propertymap_init sample_key = Some None"
  using propertymap_lookup_correct [OF sample_holds sample_key_adm, of "\<lambda>_. None" "\<lambda>_. 0" empty_heap] by simp

text \<open>C32: inserting, for keys that are symbols or flat strings without NUL (a rope has another hash than the
  equal flat string), ends and yields a well-formed map in which the key's descriptor is replaced in place or, for a
  new key, appended to the insertion order, across every rehash.  The only exception among such keys is a new key in
  a map of 3074 entries: there is no larger prime, and the runtime aborts.\<close>

theorem propertymap_insert_correct:
  assumes "map_holds strs hc (h, m) al" "adm_key strs k"
  shows "if al_lookup (key_eq strs) al k = None \<and> length al = 3074
         then ejs_propertymap_insert (key_hash strs hc) (key_eq strs) h m k d = None
         else \<exists>h' m'. ejs_propertymap_insert (key_hash strs hc) (key_eq strs) h m k d = Some (h', m')
                \<and> map_holds strs hc (h', m') (al_insert (key_eq strs) al k d)"
  using pm_insert_holds [OF assms, of d] unfolding pm_insert_def by (cases "length al = 3074") auto

theorem propertymap_insert_correct_witness:
  "\<exists>h' m'. ejs_propertymap_insert (key_hash (\<lambda>_. None) (\<lambda>_. 0)) (key_eq (\<lambda>_. None)) empty_heap
     ejs_propertymap_init sample_key 7 = Some (h', m')
     \<and> map_holds (\<lambda>_. None) (\<lambda>_. 0) (h', m') [(sample_key, 7)]"
  using propertymap_insert_correct [OF sample_holds sample_key_adm, of "\<lambda>_. None" "\<lambda>_. 0" empty_heap 7] by simp

text \<open>Removing ends and yields a well-formed map without the key's entry, the others in the same
  order; the lookup of any other key is unchanged by it.\<close>

theorem propertymap_remove_correct:
  assumes "map_holds strs hc (h, m) al" "adm_key strs k" "adm_key strs l" "\<not> key_eq strs k l"
  shows "\<exists>h' m'. ejs_propertymap_remove (key_hash strs hc) (key_eq strs) h m k = Some (h', m')
           \<and> map_holds strs hc (h', m') (al_remove (key_eq strs) al k)
           \<and> ejs_propertymap_lookup (key_hash strs hc) (key_eq strs) h' m' l
             = ejs_propertymap_lookup (key_hash strs hc) (key_eq strs) h m l"
proof -
  obtain hm' where r: "pm_remove strs hc (h, m) k = Some hm'" "map_holds strs hc hm' (al_remove (key_eq strs) al k)"
    using pm_remove_holds [OF assms(1,2)] by blast
  moreover have "pm_lookup strs hc hm' l = pm_lookup strs hc (h, m) l"
    using property_dict.lookup_after_remove [OF assms] r(1) by simp
  ultimately show ?thesis unfolding pm_remove_def pm_lookup_def by (cases hm') auto
qed

definition other_key :: ejsval where "other_key = 0xFFFC000000002000"

theorem propertymap_remove_correct_witness:
  "\<exists>h' m'. ejs_propertymap_remove (key_hash (\<lambda>_. None) (\<lambda>_. 0)) (key_eq (\<lambda>_. None)) empty_heap
     ejs_propertymap_init sample_key = Some (h', m') \<and> map_holds (\<lambda>_. None) (\<lambda>_. 0) (h', m') []"
proof -
  have o: "adm_key strs other_key" "\<not> key_eq strs sample_key other_key" for strs
    using key_eq_meaning [of strs sample_key other_key]
    by (simp_all add: adm_key_def tag_facts sample_key_def other_key_def key_meaning_def)
  show ?thesis
    using propertymap_remove_correct [OF sample_holds sample_key_adm o, of "\<lambda>_. None" "\<lambda>_. 0" empty_heap]
    by auto
qed

text \<open>After an insertion, a lookup finds the inserted descriptor under every key equal to the
  inserted one and the old result under every other key.\<close>

theorem propertymap_lookup_insert:
  assumes "map_holds strs hc (h, m) al" "adm_key strs k" "adm_key strs l"
    and "ejs_propertymap_insert (key_hash strs hc) (key_eq strs) h m k d = Some (h', m')"
  shows "ejs_propertymap_lookup (key_hash strs hc) (key_eq strs) h' m' l
       = (if key_eq strs k l then Some (Some d)
          else ejs_propertymap_lookup (key_hash strs hc) (key_eq strs) h m l)"
  using property_dict.lookup_after_insert [OF assms(1-3), of d "(h', m')"] assms(4)
  by (simp add: pm_insert_def pm_lookup_def)

theorem propertymap_lookup_insert_witness:
  "\<exists>h' m'. ejs_propertymap_insert (key_hash (\<lambda>_. None) (\<lambda>_. 0)) (key_eq (\<lambda>_. None)) empty_heap
     ejs_propertymap_init sample_key 7 = Some (h', m')
     \<and> ejs_propertymap_lookup (key_hash (\<lambda>_. None) (\<lambda>_. 0)) (key_eq (\<lambda>_. None)) h' m' sample_key = Some (Some 7)"
proof -
  obtain hm where i: "pm_insert (\<lambda>_. None) (\<lambda>_. 0) (empty_heap, ejs_propertymap_init) sample_key 7 = Some hm"
    using pm_insert_holds [OF sample_holds sample_key_adm, of "\<lambda>_. None" "\<lambda>_. 0" empty_heap 7] by auto
  then have j: "ejs_propertymap_insert (key_hash (\<lambda>_. None) (\<lambda>_. 0)) (key_eq (\<lambda>_. None)) empty_heap
     ejs_propertymap_init sample_key 7 = Some (fst hm, snd hm)" by (simp add: pm_insert_def)
  show ?thesis
    using propertymap_lookup_insert [OF sample_holds sample_key_adm sample_key_adm j] j
      runtime_keys.eq_refl [OF sample_key_adm] by (cases hm) auto
qed

end
