(* ===== verification/GcMark.thy ===== *)
theory GcMark
  imports Ejsval
begin

text \<open>
  The marking half of the collector (\<open>src/runtime/ejs-gc.c\<close>): cell colours, the segmented
  worklist, the scan functions and \<open>process_worklist\<close>.  A cell is a page and an index in its
  bitmap; \<open>bm\<close> holds the bitmap bytes of all pages.  How a pointer is resolved to its cell
  (\<open>find_page_and_cell\<close>, theory GcHeap) and what the object at a pointer is are arguments:
  \<open>lookup_cell p = None\<close> is a crash, \<open>Some None\<close> a pointer outside the heap.
\<close>

type_synonym cell = "nat \<times> nat"
type_synonym bitmap = "cell \<Rightarrow> uint8"

section \<open>Cell colours\<close>

definition CELL_COLOR_MASK :: uint8 where "CELL_COLOR_MASK = 0x03"
definition CELL_GRAY_MASK :: uint8 where "CELL_GRAY_MASK = 0x02"
definition CELL_WHITE_MASK_START :: uint8 where "CELL_WHITE_MASK_START = 0x00"
definition CELL_BLACK_MASK_START :: uint8 where "CELL_BLACK_MASK_START = 0x01"
definition CELL_FREE :: uint8 where "CELL_FREE = 0x04"

definition SET_GRAY :: "uint8 \<Rightarrow> uint8" where
  "SET_GRAY cell = (cell AND NOT CELL_COLOR_MASK) OR CELL_GRAY_MASK"
definition SET_WHITE :: "uint8 \<Rightarrow> uint8 \<Rightarrow> uint8" where
  "SET_WHITE white_mask cell = (cell AND NOT CELL_COLOR_MASK) OR white_mask"
definition SET_BLACK :: "uint8 \<Rightarrow> uint8 \<Rightarrow> uint8" where
  "SET_BLACK black_mask cell = (cell AND NOT CELL_COLOR_MASK) OR black_mask"
definition SET_FREE :: "uint8 \<Rightarrow> uint8" where "SET_FREE cell = CELL_FREE"
definition SET_ALLOCATED :: "uint8 \<Rightarrow> uint8" where "SET_ALLOCATED cell = cell AND NOT CELL_FREE"

definition IS_FREE :: "uint8 \<Rightarrow> bool" where "IS_FREE cell \<longleftrightarrow> cell AND CELL_FREE = CELL_FREE"
definition IS_GRAY :: "uint8 \<Rightarrow> bool" where "IS_GRAY cell \<longleftrightarrow> cell AND CELL_COLOR_MASK = CELL_GRAY_MASK"
definition IS_WHITE :: "uint8 \<Rightarrow> uint8 \<Rightarrow> bool" where
  "IS_WHITE white_mask cell \<longleftrightarrow> cell AND CELL_COLOR_MASK = white_mask"
definition IS_BLACK :: "uint8 \<Rightarrow> uint8 \<Rightarrow> bool" where
  "IS_BLACK black_mask cell \<longleftrightarrow> cell AND CELL_COLOR_MASK = black_mask"

section \<open>The worklist\<close>

definition MAX_WORKLIST_SEGMENT_SIZE :: nat where "MAX_WORKLIST_SEGMENT_SIZE = 512"

text \<open>A segment is its used entries, the last one on top; \<open>size\<close> is their number.  Recycled
  segments are empty, so the free list is their number.\<close>

record WorkList =
  segments :: "addr list list"
  free_list :: nat

definition ejs_gc_worklist_init :: WorkList where
  "ejs_gc_worklist_init = \<lparr>segments = [], free_list = 0\<rparr>"

definition ejs_gc_worklist_push :: "addr \<Rightarrow> WorkList \<Rightarrow> WorkList" where
  "ejs_gc_worklist_push obj wl =
     (if obj = 0 then wl
      else case segments wl of
        [] \<Rightarrow> wl\<lparr>segments := [[obj]], free_list := free_list wl - 1\<rparr>
      | seg # rest \<Rightarrow>
          if length seg = MAX_WORKLIST_SEGMENT_SIZE
          then wl\<lparr>segments := [obj] # seg # rest, free_list := free_list wl - 1\<rparr>
          else wl\<lparr>segments := (seg @ [obj]) # rest\<rparr>)"

definition ejs_gc_worklist_pop :: "WorkList \<Rightarrow> (addr \<times> WorkList) option" where
  "ejs_gc_worklist_pop wl =
     (case segments wl of
        [] \<Rightarrow> None
      | seg # rest \<Rightarrow>
          if seg = [] then None
          else Some (last seg,
                 if butlast seg = [] then wl\<lparr>segments := rest, free_list := free_list wl + 1\<rparr>
                 else wl\<lparr>segments := butlast seg # rest\<rparr>))"

section \<open>Marking\<close>

type_synonym mark_state = "bitmap \<times> WorkList"

definition is_white :: "(addr \<Rightarrow> cell option option) \<Rightarrow> uint8 \<Rightarrow> bitmap \<Rightarrow> addr \<Rightarrow> bool option" where
  "is_white lookup_cell white_mask bm p =
     (case lookup_cell p of
        None \<Rightarrow> None
      | Some None \<Rightarrow> Some False
      | Some (Some c) \<Rightarrow> Some (IS_WHITE white_mask (bm c)))"

definition set_gray :: "(addr \<Rightarrow> cell option option) \<Rightarrow> bitmap \<Rightarrow> addr \<Rightarrow> bitmap option" where
  "set_gray lookup_cell bm p =
     (case lookup_cell p of
        None \<Rightarrow> None
      | Some None \<Rightarrow> Some bm
      | Some (Some c) \<Rightarrow> Some (bm(c := SET_GRAY (bm c))))"

definition set_black :: "(addr \<Rightarrow> cell option option) \<Rightarrow> uint8 \<Rightarrow> bitmap \<Rightarrow> addr \<Rightarrow> bitmap option" where
  "set_black lookup_cell black_mask bm p =
     (case lookup_cell p of
        None \<Rightarrow> None
      | Some None \<Rightarrow> Some bm
      | Some (Some c) \<Rightarrow> Some (bm(c := SET_BLACK black_mask (bm c))))"

definition WORKLIST_PUSH_AND_GRAY ::
  "(addr \<Rightarrow> cell option option) \<Rightarrow> uint8 \<Rightarrow> addr \<Rightarrow> mark_state \<Rightarrow> mark_state option" where
  "WORKLIST_PUSH_AND_GRAY lookup_cell white_mask x st =
     (case st of (bm, wl) \<Rightarrow>
       (case is_white lookup_cell white_mask bm x of
          None \<Rightarrow> None
        | Some False \<Rightarrow> Some (bm, wl)
        | Some True \<Rightarrow> map_option (\<lambda>bm. (bm, ejs_gc_worklist_push x wl)) (set_gray lookup_cell bm x)))"

text \<open>What a scan visits: the values of an object (its \<open>Scan\<close> operation) or closure environment,
  the parts of a string, the description of a symbol.\<close>

datatype gcobj =
    ObjectCell "ejsval list"
  | RopeCell addr addr
  | DependentCell addr
  | FlatCell
  | SymbolCell ejsval
  | ClosureEnvCell "ejsval list"

definition scan_ejsvalue ::
  "(addr \<Rightarrow> cell option option) \<Rightarrow> uint8 \<Rightarrow> ejsval \<Rightarrow> mark_state \<Rightarrow> mark_state option" where
  "scan_ejsvalue lookup_cell white_mask val st =
     (if \<not> EJSVAL_IS_TRACEABLE_IMPL val then Some st
      else let gcptr = unat (EJSVAL_TO_GCTHING_IMPL val) in
        if gcptr = 0 then Some st else WORKLIST_PUSH_AND_GRAY lookup_cell white_mask gcptr st)"

fun scan_values ::
  "(addr \<Rightarrow> cell option option) \<Rightarrow> uint8 \<Rightarrow> ejsval list \<Rightarrow> mark_state \<Rightarrow> mark_state option" where
  "scan_values lookup_cell white_mask [] st = Some st"
| "scan_values lookup_cell white_mask (v # vs) st =
     (case scan_ejsvalue lookup_cell white_mask v st of
        None \<Rightarrow> None
      | Some st \<Rightarrow> scan_values lookup_cell white_mask vs st)"

definition scan_from_ejsprimstr ::
  "(addr \<Rightarrow> cell option option) \<Rightarrow> uint8 \<Rightarrow> gcobj \<Rightarrow> mark_state \<Rightarrow> mark_state option" where
  "scan_from_ejsprimstr lookup_cell white_mask str st =
     (case str of
        RopeCell l r \<Rightarrow>
          (case WORKLIST_PUSH_AND_GRAY lookup_cell white_mask l st of
             None \<Rightarrow> None
           | Some st \<Rightarrow> WORKLIST_PUSH_AND_GRAY lookup_cell white_mask r st)
      | DependentCell d \<Rightarrow> WORKLIST_PUSH_AND_GRAY lookup_cell white_mask d st
      | _ \<Rightarrow> Some st)"

text \<open>The dispatch on the header's scan type in \<open>process_worklist\<close>.\<close>

definition scan_object ::
  "(addr \<Rightarrow> cell option option) \<Rightarrow> uint8 \<Rightarrow> gcobj \<Rightarrow> mark_state \<Rightarrow> mark_state option" where
  "scan_object lookup_cell white_mask ob st =
     (case ob of
        ObjectCell vs \<Rightarrow> scan_values lookup_cell white_mask vs st
      | SymbolCell v \<Rightarrow> scan_ejsvalue lookup_cell white_mask v st
      | ClosureEnvCell vs \<Rightarrow> scan_values lookup_cell white_mask vs st
      | _ \<Rightarrow> scan_from_ejsprimstr lookup_cell white_mask ob st)"

partial_function (option) process_worklist ::
  "(addr \<Rightarrow> cell option option) \<Rightarrow> (addr \<Rightarrow> gcobj) \<Rightarrow> uint8 \<Rightarrow> uint8 \<Rightarrow> mark_state \<Rightarrow> mark_state option" where
  "process_worklist lookup_cell ob white_mask black_mask st =
     (case ejs_gc_worklist_pop (snd st) of
        None \<Rightarrow> if segments (snd st) = [] then Some st else None
      | Some (p, wl) \<Rightarrow>
          (case set_black lookup_cell black_mask (fst st) p of
             None \<Rightarrow> None
           | Some bm \<Rightarrow>
               (case scan_object lookup_cell white_mask (ob p) (bm, wl) of
                  None \<Rightarrow> None
                | Some st' \<Rightarrow> process_worklist lookup_cell ob white_mask black_mask st')))"

text \<open>Roots, registers and stack words: free cells and cells that are not white are skipped.\<close>

definition mark_pointer ::
  "(addr \<Rightarrow> cell option option) \<Rightarrow> uint8 \<Rightarrow> addr \<Rightarrow> mark_state \<Rightarrow> mark_state option" where
  "mark_pointer lookup_cell white_mask gcptr st =
     (case st of (bm, wl) \<Rightarrow>
       if gcptr = 0 then Some st
       else case lookup_cell gcptr of
         None \<Rightarrow> None
       | Some None \<Rightarrow> Some st
       | Some (Some c) \<Rightarrow>
           if IS_FREE (bm c) then Some st
           else if \<not> IS_WHITE white_mask (bm c) then Some st
           else Some (bm(c := SET_GRAY (bm c)), ejs_gc_worklist_push gcptr wl))"

fun mark_from_roots ::
  "(addr \<Rightarrow> cell option option) \<Rightarrow> uint8 \<Rightarrow> ejsval list \<Rightarrow> mark_state \<Rightarrow> mark_state option" where
  "mark_from_roots lookup_cell white_mask [] st = Some st"
| "mark_from_roots lookup_cell white_mask (rootval # roots) st =
     (if \<not> EJSVAL_IS_GCTHING_IMPL rootval then mark_from_roots lookup_cell white_mask roots st
      else case mark_pointer lookup_cell white_mask (unat (EJSVAL_TO_GCTHING_IMPL rootval)) st of
        None \<Rightarrow> None
      | Some st \<Rightarrow> mark_from_roots lookup_cell white_mask roots st)"

text \<open>Conservative scanning: every word of the range but the last.\<close>

fun mark_words ::
  "(addr \<Rightarrow> cell option option) \<Rightarrow> uint8 \<Rightarrow> addr list \<Rightarrow> mark_state \<Rightarrow> mark_state option" where
  "mark_words lookup_cell white_mask [] st = Some st"
| "mark_words lookup_cell white_mask (w # ws) st =
     (case mark_pointer lookup_cell white_mask w st of
        None \<Rightarrow> None
      | Some st \<Rightarrow> mark_words lookup_cell white_mask ws st)"

definition mark_pointers_in_range ::
  "(addr \<Rightarrow> cell option option) \<Rightarrow> uint8 \<Rightarrow> uint64 list \<Rightarrow> mark_state \<Rightarrow> mark_state option" where
  "mark_pointers_in_range lookup_cell white_mask words st =
     mark_words lookup_cell white_mask (map unat (butlast words)) st"

definition mark_ejsvals_in_range ::
  "(addr \<Rightarrow> cell option option) \<Rightarrow> uint8 \<Rightarrow> ejsval list \<Rightarrow> mark_state \<Rightarrow> mark_state option" where
  "mark_ejsvals_in_range lookup_cell white_mask words st =
     mark_words lookup_cell white_mask
       (map (unat \<circ> EJSVAL_TO_GCTHING_IMPL) (filter EJSVAL_IS_GCTHING_IMPL (butlast words))) st"

text \<open>Module objects are scanned, not pushed: they are not allocated on the collected heap.\<close>

fun mark_from_modules ::
  "(addr \<Rightarrow> cell option option) \<Rightarrow> uint8 \<Rightarrow> ejsval list list \<Rightarrow> mark_state \<Rightarrow> mark_state option" where
  "mark_from_modules lookup_cell white_mask [] st = Some st"
| "mark_from_modules lookup_cell white_mask (vs # ms) st =
     (case scan_values lookup_cell white_mask vs st of
        None \<Rightarrow> None
      | Some st \<Rightarrow> mark_from_modules lookup_cell white_mask ms st)"

definition mark_thread_stack ::
  "(addr \<Rightarrow> cell option option) \<Rightarrow> uint8 \<Rightarrow> uint64 list \<Rightarrow> ejsval list \<Rightarrow> mark_state \<Rightarrow> mark_state option" where
  "mark_thread_stack lookup_cell white_mask registers stack st =
     Option.bind (mark_pointers_in_range lookup_cell white_mask registers st)
       (mark_ejsvals_in_range lookup_cell white_mask stack)"

text \<open>The marking steps of \<open>_ejs_gc_collect_inner\<close>.  The words the mutator holds are the roots'
  values, the values of the module objects, the saved registers and the stack;
  \<open>mark_generator_stacks\<close> does nothing.\<close>

record gc_roots =
  root_values :: "ejsval list"
  module_values :: "ejsval list list"
  register_words :: "uint64 list"
  stack_words :: "ejsval list"

definition mark_phase ::
  "(addr \<Rightarrow> cell option option) \<Rightarrow> (addr \<Rightarrow> gcobj) \<Rightarrow> uint8 \<Rightarrow> uint8 \<Rightarrow> gc_roots \<Rightarrow> mark_state \<Rightarrow> mark_state option" where
  "mark_phase lookup_cell ob white_mask black_mask rts st =
     Option.bind (mark_from_roots lookup_cell white_mask (root_values rts) st) (\<lambda>st.
     Option.bind (mark_from_modules lookup_cell white_mask (module_values rts) st) (\<lambda>st.
     Option.bind (mark_thread_stack lookup_cell white_mask (register_words rts) (stack_words rts) st) (\<lambda>st.
     process_worklist lookup_cell ob white_mask black_mask st)))"

section \<open>Colours partition the cells\<close>

text \<open>The two masks in use: white and black exchange roles at the end of every collection.\<close>

definition masks :: "uint8 \<Rightarrow> uint8 \<Rightarrow> bool" where
  "masks w b \<longleftrightarrow> (w = CELL_WHITE_MASK_START \<and> b = CELL_BLACK_MASK_START) \<or>
                 (w = CELL_BLACK_MASK_START \<and> b = CELL_WHITE_MASK_START)"

named_theorems colour_defs \<open>colour masks and tests of a bitmap cell\<close>
named_theorems colour_facts \<open>what the colour tests answer after a colour is set\<close>

lemmas [colour_defs] = CELL_COLOR_MASK_def CELL_GRAY_MASK_def CELL_WHITE_MASK_START_def
  CELL_BLACK_MASK_START_def CELL_FREE_def SET_GRAY_def SET_WHITE_def SET_BLACK_def SET_FREE_def
  SET_ALLOCATED_def IS_FREE_def IS_GRAY_def IS_WHITE_def IS_BLACK_def masks_def

lemma set_colour_bits:
  fixes x m :: uint8
  assumes "m AND 3 = m"
  shows "(x AND - 4 OR m) AND 3 = m" "(x AND - 4 OR m) AND 4 = x AND 4"
proof -
  have *: "(x AND NOT 3 OR m) AND 3 = m AND 3"
    by (rule bit_word_eqI) (auto simp only: bit_simps)
  then show "(x AND - 4 OR m) AND 3 = m" using assms by simp
  have "m AND 4 = (m AND 3) AND 4" using assms by simp
  also have "\<dots> = m AND (3 AND 4)" by (simp only: and.assoc)
  finally have m: "m AND 4 = 0" by simp
  have n: "(x AND - 4) AND 4 = x AND 4"
    by (simp only: and.assoc) simp
  show "(x AND - 4 OR m) AND 4 = x AND 4"
    using m n by (simp add: bit.conj_disj_distrib2)
qed

lemmas set_colour_bits_0 = set_colour_bits [of 0, simplified]

lemma colour_after_gray [colour_facts]: "IS_GRAY (SET_GRAY x)" "IS_FREE (SET_GRAY x) = IS_FREE x"
  by (simp_all add: colour_defs set_colour_bits)

lemma colour_after_black [colour_facts]:
  assumes "masks w b"
  shows "IS_BLACK b (SET_BLACK b x)" "IS_FREE (SET_BLACK b x) = IS_FREE x"
  using assms by (auto simp: colour_defs set_colour_bits set_colour_bits_0)

lemma colour_after_white [colour_facts]:
  assumes "masks w b"
  shows "IS_WHITE w (SET_WHITE w x)" "IS_FREE (SET_WHITE w x) = IS_FREE x"
  using assms by (auto simp: colour_defs set_colour_bits set_colour_bits_0)

lemma colours_exclusive [colour_facts]:
  assumes "masks w b"
  shows "IS_GRAY x \<Longrightarrow> \<not> IS_WHITE w x" "IS_GRAY x \<Longrightarrow> \<not> IS_BLACK b x" "IS_BLACK b x \<Longrightarrow> \<not> IS_WHITE w x"
  using assms by (auto simp: colour_defs)

lemma free_cell_colour [colour_facts]: "\<not> IS_GRAY CELL_FREE" "IS_FREE CELL_FREE"
  by (simp_all add: colour_defs)

section \<open>The worklist is a stack\<close>

definition worklist_items :: "WorkList \<Rightarrow> addr list" where
  "worklist_items wl = concat (map rev (segments wl))"

definition worklist_inv :: "WorkList \<Rightarrow> bool" where
  "worklist_inv wl \<longleftrightarrow>
     (\<forall>seg \<in> set (segments wl). seg \<noteq> [] \<and> length seg \<le> MAX_WORKLIST_SEGMENT_SIZE)"

locale work_stack =
  fixes push :: "addr \<Rightarrow> 'w \<Rightarrow> 'w" and pop :: "'w \<Rightarrow> (addr \<times> 'w) option"
    and items :: "'w \<Rightarrow> addr list" and inv :: "'w \<Rightarrow> bool"
  assumes push_items: "\<lbrakk>inv w; p \<noteq> 0\<rbrakk> \<Longrightarrow> items (push p w) = p # items w \<and> inv (push p w)"
    and pop_none: "inv w \<Longrightarrow> (pop w = None) \<longleftrightarrow> items w = []"
    and pop_some: "\<lbrakk>inv w; pop w = Some (p, w')\<rbrakk> \<Longrightarrow> items w = p # items w' \<and> inv w'"
begin

lemma push_fold:
  "\<lbrakk>inv w; 0 \<notin> set ps\<rbrakk> \<Longrightarrow> items (fold push ps w) = rev ps @ items w \<and> inv (fold push ps w)"
  by (induction ps arbitrary: w) (auto simp: push_items)

lemma pop_push:
  assumes "inv w" "p \<noteq> 0"
  obtains w' where "pop (push p w) = Some (p, w')" "items w' = items w" "inv w'"
proof -
  from push_items[OF assms] have i: "items (push p w) = p # items w" "inv (push p w)" by simp_all
  then obtain q w' where pop: "pop (push p w) = Some (q, w')" using pop_none by fastforce
  with pop_some[OF i(2) pop] i(1) that show thesis by simp
qed

end

lemma concat_rev_segments: "seg \<noteq> [] \<Longrightarrow> rev seg = last seg # rev (butlast seg)"
  by (cases seg rule: rev_cases) auto

lemma worklist_push_items:
  assumes "worklist_inv w" "p \<noteq> 0"
  shows "worklist_items (ejs_gc_worklist_push p w) = p # worklist_items w \<and>
         worklist_inv (ejs_gc_worklist_push p w)"
  using assms
  by (cases "segments w")
     (simp_all add: worklist_inv_def worklist_items_def ejs_gc_worklist_push_def
        MAX_WORKLIST_SEGMENT_SIZE_def)

lemma worklist_pop_items:
  assumes "worklist_inv w" "ejs_gc_worklist_pop w = Some (p, w')"
  shows "worklist_items w = p # worklist_items w' \<and> worklist_inv w'"
  using assms
  by (cases "segments w")
     (auto simp: worklist_inv_def worklist_items_def ejs_gc_worklist_pop_def concat_rev_segments
        split: if_splits)

interpretation worklist: work_stack ejs_gc_worklist_push ejs_gc_worklist_pop worklist_items worklist_inv
proof unfold_locales
  fix w assume "worklist_inv w"
  then show "(ejs_gc_worklist_pop w = None) \<longleftrightarrow> worklist_items w = []"
    by (cases "segments w") (auto simp: worklist_inv_def worklist_items_def ejs_gc_worklist_pop_def)
qed (rule worklist_push_items worklist_pop_items; assumption)+

lemma worklist_empty_segments:
  "worklist_inv wl \<Longrightarrow> worklist_items wl = [] \<longleftrightarrow> segments wl = []"
  by (cases "segments wl") (auto simp: worklist_inv_def worklist_items_def)

section \<open>Scans as pushes\<close>

fun push_all ::
  "(addr \<Rightarrow> cell option option) \<Rightarrow> uint8 \<Rightarrow> addr list \<Rightarrow> mark_state \<Rightarrow> mark_state option" where
  "push_all lookup_cell white_mask [] st = Some st"
| "push_all lookup_cell white_mask (p # ps) st =
     (case WORKLIST_PUSH_AND_GRAY lookup_cell white_mask p st of
        None \<Rightarrow> None
      | Some st \<Rightarrow> push_all lookup_cell white_mask ps st)"

definition value_pointers :: "ejsval list \<Rightarrow> addr list" where
  "value_pointers vs =
     filter (\<lambda>p. p \<noteq> 0) (map (unat \<circ> EJSVAL_TO_GCTHING_IMPL) (filter EJSVAL_IS_TRACEABLE_IMPL vs))"

definition object_pointers :: "gcobj \<Rightarrow> addr list" where
  "object_pointers ob =
     (case ob of
        ObjectCell vs \<Rightarrow> value_pointers vs
      | RopeCell l r \<Rightarrow> [l, r]
      | DependentCell d \<Rightarrow> [d]
      | FlatCell \<Rightarrow> []
      | SymbolCell v \<Rightarrow> value_pointers [v]
      | ClosureEnvCell vs \<Rightarrow> value_pointers vs)"

lemma scan_values_pushes: "scan_values lk w vs st = push_all lk w (value_pointers vs) st"
  by (induction vs arbitrary: st)
     (auto simp: value_pointers_def scan_ejsvalue_def Let_def split: option.splits)

lemma scan_object_pushes: "scan_object lk w ob st = push_all lk w (object_pointers ob) st"
  by (cases ob)
     (auto simp: scan_object_def object_pointers_def scan_values_pushes scan_from_ejsprimstr_def
        value_pointers_def scan_ejsvalue_def Let_def split: option.splits)

lemma push_all_append:
  "push_all lk w (ps @ qs) st = Option.bind (push_all lk w ps st) (push_all lk w qs)"
  by (induction ps arbitrary: st) (auto split: option.splits)

lemma mark_from_modules_pushes:
  "mark_from_modules lk w ms st = push_all lk w (concat (map value_pointers ms)) st"
  by (induction ms arbitrary: st) (auto simp: scan_values_pushes push_all_append split: option.splits)

text \<open>Conservative words push the pointers to cells in use.\<close>

definition points_to_free :: "(addr \<Rightarrow> cell option option) \<Rightarrow> bitmap \<Rightarrow> addr \<Rightarrow> bool" where
  "points_to_free lookup_cell bm p \<longleftrightarrow>
     (case lookup_cell p of Some (Some c) \<Rightarrow> IS_FREE (bm c) | _ \<Rightarrow> False)"

definition candidates :: "(addr \<Rightarrow> cell option option) \<Rightarrow> bitmap \<Rightarrow> addr list \<Rightarrow> addr list" where
  "candidates lookup_cell bm ws = filter (\<lambda>p. p \<noteq> 0 \<and> \<not> points_to_free lookup_cell bm p) ws"

definition gcthing_words :: "ejsval list \<Rightarrow> addr list" where
  "gcthing_words vs = map (unat \<circ> EJSVAL_TO_GCTHING_IMPL) (filter EJSVAL_IS_GCTHING_IMPL vs)"

definition root_pointers :: "(addr \<Rightarrow> cell option option) \<Rightarrow> bitmap \<Rightarrow> gc_roots \<Rightarrow> addr list" where
  "root_pointers lookup_cell bm rts =
     candidates lookup_cell bm (gcthing_words (root_values rts)) @
     concat (map value_pointers (module_values rts)) @
     candidates lookup_cell bm (map unat (butlast (register_words rts))) @
     candidates lookup_cell bm (gcthing_words (butlast (stack_words rts)))"

lemma push_keeps_free:
  assumes "WORKLIST_PUSH_AND_GRAY lk w p st = Some st'"
  shows "IS_FREE (fst st' c) = IS_FREE (fst st c)"
  using assms
  by (auto simp: WORKLIST_PUSH_AND_GRAY_def set_gray_def colour_after_gray
      split: prod.splits option.splits bool.splits if_splits)

lemma push_all_keeps_free:
  "push_all lk w ps st = Some st' \<Longrightarrow> IS_FREE (fst st' c) = IS_FREE (fst st c)"
  by (induction ps arbitrary: st) (auto simp: push_keeps_free split: option.splits)

lemma candidates_cong:
  "(\<And>c. IS_FREE (bm c) = IS_FREE (bm' c)) \<Longrightarrow> candidates lk bm = candidates lk bm'"
  by (rule ext) (auto simp: candidates_def points_to_free_def intro!: filter_cong split: option.splits)

lemma mark_pointer_pushes:
  "mark_pointer lk w p (bm, wl) =
     (if p \<noteq> 0 \<and> \<not> points_to_free lk bm p then WORKLIST_PUSH_AND_GRAY lk w p (bm, wl) else Some (bm, wl))"
  by (auto simp: mark_pointer_def points_to_free_def WORKLIST_PUSH_AND_GRAY_def is_white_def set_gray_def
      split: option.splits bool.splits)

lemma mark_words_pushes: "mark_words lk w ws (bm, wl) = push_all lk w (candidates lk bm ws) (bm, wl)"
proof (induction ws arbitrary: bm wl)
  case (Cons p ws)
  show ?case
  proof (cases "p \<noteq> 0 \<and> \<not> points_to_free lk bm p")
    case True
    show ?thesis
    proof (cases "WORKLIST_PUSH_AND_GRAY lk w p (bm, wl)")
      case (Some st)
      have "candidates lk (fst st) = candidates lk bm"
        using push_keeps_free[OF Some] by (intro candidates_cong) simp
      with Some True Cons.IH[of "fst st" "snd st"] show ?thesis
        by (simp add: mark_pointer_pushes) (simp add: candidates_def)
    qed (use True in \<open>simp add: mark_pointer_pushes candidates_def\<close>)
  qed (use Cons.IH in \<open>auto simp: mark_pointer_pushes candidates_def\<close>)
qed (simp add: candidates_def)

lemma mark_from_roots_words: "mark_from_roots lk w rs st = mark_words lk w (gcthing_words rs) st"
  by (induction rs arbitrary: st) (auto simp: gcthing_words_def split: option.splits)

lemma mark_phase_pushes:
  "mark_phase lk ob w b rts (bm, wl) =
     Option.bind (push_all lk w (root_pointers lk bm rts) (bm, wl)) (process_worklist lk ob w b)"
proof -
  have words: "mark_words lk w ws st = push_all lk w (candidates lk bm ws) st"
    if "push_all lk w ps (bm, wl) = Some st" for ws ps st
    using mark_words_pushes[of lk w ws "fst st" "snd st"]
      candidates_cong[of "fst st" bm lk] push_all_keeps_free[OF that] by simp
  have next_words: "Option.bind (push_all lk w ps (bm, wl)) (\<lambda>st. Option.bind (mark_words lk w ws st) k) =
      Option.bind (push_all lk w (ps @ candidates lk bm ws) (bm, wl)) k" for ps ws k
    using words by (cases "push_all lk w ps (bm, wl)") (auto simp: push_all_append)
  have next_pushes: "Option.bind (push_all lk w ps st) (\<lambda>st. Option.bind (push_all lk w qs st) k) =
      Option.bind (push_all lk w (ps @ qs) st) k" for ps qs st k
    by (simp add: push_all_append)
  show ?thesis
    unfolding mark_phase_def mark_thread_stack_def mark_from_roots_words mark_from_modules_pushes
      mark_pointers_in_range_def mark_ejsvals_in_range_def gcthing_words_def [symmetric]
      mark_words_pushes [of lk w _ bm wl] bind_assoc next_pushes next_words root_pointers_def append_assoc ..
qed

section \<open>Reachability\<close>

inductive reachable ::
  "(addr \<Rightarrow> cell option option) \<Rightarrow> (addr \<Rightarrow> gcobj) \<Rightarrow> addr set \<Rightarrow> addr \<Rightarrow> bool"
  for lookup_cell ob roots where
  root: "p \<in> roots \<Longrightarrow> lookup_cell p = Some (Some c) \<Longrightarrow> reachable lookup_cell ob roots p"
| step: "reachable lookup_cell ob roots p \<Longrightarrow> q \<in> set (object_pointers (ob p))
         \<Longrightarrow> lookup_cell q = Some (Some d) \<Longrightarrow> reachable lookup_cell ob roots q"

text \<open>The state of a heap between collections: every cell is free or white, and no pointer held
  by an allocated object crashes the lookup or leads to a free cell.\<close>

definition cells_white :: "(addr \<Rightarrow> cell option option) \<Rightarrow> uint8 \<Rightarrow> bitmap \<Rightarrow> bool" where
  "cells_white lookup_cell w bm \<longleftrightarrow>
     (\<forall>p c. lookup_cell p = Some (Some c) \<longrightarrow> bm c = CELL_FREE \<or> \<not> IS_FREE (bm c) \<and> IS_WHITE w (bm c))"

definition safe_pointer :: "(addr \<Rightarrow> cell option option) \<Rightarrow> bitmap \<Rightarrow> addr \<Rightarrow> bool" where
  "safe_pointer lookup_cell bm q \<longleftrightarrow>
     (case lookup_cell q of
        None \<Rightarrow> False
      | Some None \<Rightarrow> True
      | Some (Some c) \<Rightarrow> \<not> IS_FREE (bm c))"

definition no_dangling :: "(addr \<Rightarrow> cell option option) \<Rightarrow> (addr \<Rightarrow> gcobj) \<Rightarrow> bitmap \<Rightarrow> bool" where
  "no_dangling lookup_cell ob bm \<longleftrightarrow>
     (\<forall>p c. lookup_cell p = Some (Some c) \<longrightarrow> \<not> IS_FREE (bm c) \<longrightarrow>
        (\<forall>q \<in> set (object_pointers (ob p)). safe_pointer lookup_cell bm q))"

section \<open>Marking computes reachability\<close>

declare split_paired_All [simp del] split_paired_Ex [simp del]

locale cell_index =
  fixes lookup_cell :: "addr \<Rightarrow> cell option option" and w b :: uint8
  assumes lookup_inj: "\<lbrakk>lookup_cell p = Some (Some c); lookup_cell q = Some (Some c)\<rbrakk> \<Longrightarrow> p = q"
    and lookup_null: "lookup_cell 0 = Some None"
    and finite_cells: "finite {c. \<exists>p. lookup_cell p = Some (Some c)}"
    and masks: "masks w b"
begin

lemmas colours = colour_after_gray colour_after_black [OF masks] colours_exclusive [OF masks]

lemma white_gray [simp]: "\<not> IS_WHITE w (SET_GRAY x)"
  using colours(1,5) by blast

text \<open>The gray cells are exactly those on the worklist, each there once.\<close>

definition gray_inv :: "mark_state \<Rightarrow> bool" where
  "gray_inv st \<longleftrightarrow> worklist_inv (snd st) \<and> distinct (worklist_items (snd st)) \<and>
     (\<forall>p. p \<in> set (worklist_items (snd st)) \<longleftrightarrow>
            (\<exists>c. lookup_cell p = Some (Some c) \<and> IS_GRAY (fst st c)))"

lemma lookup_nonzero: "lookup_cell p = Some (Some c) \<Longrightarrow> p \<noteq> 0"
  using lookup_null by (cases "p = 0") auto

lemma push_white:
  assumes inv: "gray_inv (bm, wl)" and p: "lookup_cell p = Some (Some c)" and c: "IS_WHITE w (bm c)"
  shows "gray_inv (bm(c := SET_GRAY (bm c)), ejs_gc_worklist_push p wl)"
proof -
  have wl: "worklist_inv wl" using inv by (simp add: gray_inv_def)
  from worklist.push_items[OF wl lookup_nonzero[OF p]]
  have items: "worklist_items (ejs_gc_worklist_push p wl) = p # worklist_items wl"
    "worklist_inv (ejs_gc_worklist_push p wl)" by simp_all
  have new: "p \<notin> set (worklist_items wl)"
    using inv p c colours by (auto simp: gray_inv_def)
  have "q = p \<or> q \<in> set (worklist_items wl) \<longleftrightarrow>
      (\<exists>d. lookup_cell q = Some (Some d) \<and> IS_GRAY ((bm(c := SET_GRAY (bm c))) d))" for q
  proof (cases "lookup_cell q = Some (Some c)")
    case True
    with lookup_inj[OF True p] show ?thesis by (auto simp: colours)
  next
    case False
    with inv p show ?thesis by (auto simp: gray_inv_def)
  qed
  with items new inv show ?thesis by (simp add: gray_inv_def)
qed

text \<open>What pushing pointers does: it grays the white cells among them and nothing else.\<close>

definition grayed :: "addr set \<Rightarrow> bitmap \<Rightarrow> bitmap" where
  "grayed S bm = (\<lambda>c. if IS_WHITE w (bm c) \<and> (\<exists>p\<in>S. lookup_cell p = Some (Some c))
                      then SET_GRAY (bm c) else bm c)"

lemma grayed_free [simp]: "IS_FREE (grayed S bm c) = IS_FREE (bm c)"
  by (simp add: grayed_def colours)

lemma grayed_twice: "grayed S (grayed {p} bm) = grayed (insert p S) bm"
proof (rule ext)
  fix c show "grayed S (grayed {p} bm) c = grayed (insert p S) bm c"
    by (cases "lookup_cell p = Some (Some c)") (simp_all add: grayed_def, blast)
qed

lemma push_one:
  assumes inv: "gray_inv (bm, wl)" and p: "lookup_cell p \<noteq> None"
  obtains wl' where "WORKLIST_PUSH_AND_GRAY lookup_cell w p (bm, wl) = Some (grayed {p} bm, wl')"
    "gray_inv (grayed {p} bm, wl')"
proof (cases "\<exists>c. lookup_cell p = Some (Some c) \<and> IS_WHITE w (bm c)")
  case True
  then obtain c where c: "lookup_cell p = Some (Some c)" "IS_WHITE w (bm c)" by blast
  then have "grayed {p} bm = bm(c := SET_GRAY (bm c))" by (auto simp: grayed_def)
  with push_white[OF inv c] c that show thesis
    by (auto simp: WORKLIST_PUSH_AND_GRAY_def is_white_def set_gray_def)
next
  case False
  then have "grayed {p} bm = bm" by (intro ext) (auto simp: grayed_def)
  moreover have "is_white lookup_cell w bm p = Some False"
    using False p by (auto simp: is_white_def split: option.splits)
  ultimately show thesis using inv that by (auto simp: WORKLIST_PUSH_AND_GRAY_def)
qed

lemma push_all_grays:
  assumes "gray_inv (bm, wl)" "\<forall>p\<in>set ps. lookup_cell p \<noteq> None"
  obtains wl' where "push_all lookup_cell w ps (bm, wl) = Some (grayed (set ps) bm, wl')"
    "gray_inv (grayed (set ps) bm, wl')"
proof -
  have "\<exists>wl'. push_all lookup_cell w ps (bm, wl) = Some (grayed (set ps) bm, wl') \<and>
          gray_inv (grayed (set ps) bm, wl')"
    using assms
  proof (induction ps arbitrary: bm wl)
    case (Cons p ps)
    have p: "lookup_cell p \<noteq> None" and ps: "\<forall>p\<in>set ps. lookup_cell p \<noteq> None"
      using Cons.prems(2) by (simp_all del: not_None_eq)
    obtain wl1 where one: "WORKLIST_PUSH_AND_GRAY lookup_cell w p (bm, wl) = Some (grayed {p} bm, wl1)"
      "gray_inv (grayed {p} bm, wl1)"
      by (rule push_one[OF Cons.prems(1) p])
    have "grayed (set ps) (grayed {p} bm) = grayed (set (p # ps)) bm"
      by (simp add: grayed_twice)
    moreover obtain wl' where
      "push_all lookup_cell w ps (grayed {p} bm, wl1) = Some (grayed (set ps) (grayed {p} bm), wl')"
      "gray_inv (grayed (set ps) (grayed {p} bm), wl')"
      using Cons.IH[OF one(2) ps] by blast
    ultimately show ?case using one(1) by simp
  qed (simp add: grayed_def)
  with that show thesis by blast
qed

text \<open>The invariant of the marking loop, for the bitmap \<open>bm0\<close> the collection started from.\<close>

definition mark_inv :: "(addr \<Rightarrow> gcobj) \<Rightarrow> addr set \<Rightarrow> bitmap \<Rightarrow> mark_state \<Rightarrow> bool" where
  "mark_inv ob roots bm0 st \<longleftrightarrow> gray_inv st \<and>
     (\<forall>c. IS_FREE (fst st c) = IS_FREE (bm0 c)) \<and>
     (\<forall>p c. lookup_cell p = Some (Some c) \<longrightarrow>
        (IS_FREE (bm0 c) \<longrightarrow> fst st c = CELL_FREE) \<and>
        (\<not> IS_FREE (bm0 c) \<longrightarrow>
           (IS_WHITE w (fst st c) \<or> IS_GRAY (fst st c) \<or> IS_BLACK b (fst st c)) \<and>
           (\<not> IS_WHITE w (fst st c) \<longrightarrow> reachable lookup_cell ob roots p) \<and>
           (p \<in> roots \<longrightarrow> \<not> IS_WHITE w (fst st c)) \<and>
           (IS_BLACK b (fst st c) \<longrightarrow>
              (\<forall>q \<in> set (object_pointers (ob p)). \<forall>d. lookup_cell q = Some (Some d) \<longrightarrow>
                 \<not> IS_WHITE w (fst st d)))))"

lemmas mark_invD = mark_inv_def [THEN iffD1, THEN conjunct1]
  mark_inv_def [THEN iffD1, THEN conjunct2, THEN conjunct1, rule_format]
  mark_inv_def [THEN iffD1, THEN conjunct2, THEN conjunct2, rule_format]

text \<open>Popping a gray pointer blackens its cell.\<close>

lemma blacken_gray_inv:
  assumes inv: "gray_inv (bm, wl)" and pop: "ejs_gc_worklist_pop wl = Some (p, wl')"
  obtains c where "lookup_cell p = Some (Some c)" "IS_GRAY (bm c)"
    "gray_inv (bm(c := SET_BLACK b (bm c)), wl')"
proof -
  from inv have wl: "worklist_inv wl" "distinct (worklist_items wl)"
    and mem: "\<And>q. q \<in> set (worklist_items wl) \<longleftrightarrow> (\<exists>c. lookup_cell q = Some (Some c) \<and> IS_GRAY (bm c))"
    by (simp_all add: gray_inv_def)
  from worklist.pop_some[OF wl(1) pop]
  have items: "worklist_items wl = p # worklist_items wl'" "worklist_inv wl'" by simp_all
  with mem[of p] obtain c where c: "lookup_cell p = Some (Some c)" "IS_GRAY (bm c)" by auto
  have "q \<in> set (worklist_items wl') \<longleftrightarrow>
      (\<exists>d. lookup_cell q = Some (Some d) \<and> IS_GRAY ((bm(c := SET_BLACK b (bm c))) d))" for q
  proof (cases "q = p")
    case True
    with c items wl(2) colours(3,6) show ?thesis by auto
  next
    case False
    then have "lookup_cell q \<noteq> Some (Some c)" using lookup_inj c(1) by blast
    with mem[of q] items False show ?thesis by auto
  qed
  with items wl(2) have "gray_inv (bm(c := SET_BLACK b (bm c)), wl')" by (simp add: gray_inv_def)
  with c that show thesis by blast
qed

lemma safe_children:
  assumes "no_dangling lookup_cell ob bm0" "lookup_cell p = Some (Some c)" "\<not> IS_FREE (bm0 c)"
    "q \<in> set (object_pointers (ob p))"
  shows "lookup_cell q \<noteq> None" "lookup_cell q = Some (Some d) \<Longrightarrow> \<not> IS_FREE (bm0 d)"
proof -
  have "safe_pointer lookup_cell bm0 q" using assms unfolding no_dangling_def by blast
  then show "lookup_cell q \<noteq> None" "lookup_cell q = Some (Some d) \<Longrightarrow> \<not> IS_FREE (bm0 d)"
    by (auto simp: safe_pointer_def split: option.splits)
qed

definition live_unblack :: "bitmap \<Rightarrow> cell set" where
  "live_unblack bm = {c. (\<exists>p. lookup_cell p = Some (Some c)) \<and> \<not> IS_BLACK b (bm c)}"

text \<open>The bitmap after one round of the loop: the popped cell \<open>c\<close> is black, its white children
  are gray, everything else is as before.\<close>

lemma round_colours:
  assumes "IS_GRAY (bm c)" and bm2: "bm2 = grayed S (bm(c := SET_BLACK b (bm c)))"
  shows "IS_WHITE w (bm2 d) \<longleftrightarrow> d \<noteq> c \<and> IS_WHITE w (bm d) \<and> (\<forall>p\<in>S. lookup_cell p \<noteq> Some (Some d))"
    and "IS_BLACK b (bm2 d) \<longleftrightarrow> d = c \<or> IS_BLACK b (bm d)"
    and "IS_GRAY (bm2 d) \<longleftrightarrow>
           d \<noteq> c \<and> (IS_GRAY (bm d) \<or> IS_WHITE w (bm d) \<and> (\<exists>p\<in>S. lookup_cell p = Some (Some d)))"
    and "IS_FREE (bm2 d) = IS_FREE (bm d)"
proof -
  have black: "IS_BLACK b (SET_BLACK b x)" "\<not> IS_WHITE w (SET_BLACK b x)" "\<not> IS_GRAY (SET_BLACK b x)"
      "\<not> IS_BLACK b (SET_GRAY x)" for x
    using colours by blast+
  show "IS_WHITE w (bm2 d) \<longleftrightarrow> d \<noteq> c \<and> IS_WHITE w (bm d) \<and> (\<forall>p\<in>S. lookup_cell p \<noteq> Some (Some d))"
    by (simp add: bm2 grayed_def black) blast
  show "IS_BLACK b (bm2 d) \<longleftrightarrow> d = c \<or> IS_BLACK b (bm d)"
    using colours(7)[of "bm d"] by (simp add: bm2 grayed_def black) blast
  show "IS_GRAY (bm2 d) \<longleftrightarrow>
      d \<noteq> c \<and> (IS_GRAY (bm d) \<or> IS_WHITE w (bm d) \<and> (\<exists>p\<in>S. lookup_cell p = Some (Some d)))"
    by (simp add: bm2 grayed_def black colours(1)) blast
  show "IS_FREE (bm2 d) = IS_FREE (bm d)"
    by (simp add: bm2 colours)
qed

lemma mark_round:
  assumes inv: "mark_inv ob roots bm0 (bm, wl)" and nd: "no_dangling lookup_cell ob bm0"
    and pop: "ejs_gc_worklist_pop wl = Some (p, wl')"
  obtains bm1 bm2 wl2 where "set_black lookup_cell b bm p = Some bm1"
    "scan_object lookup_cell w (ob p) (bm1, wl') = Some (bm2, wl2)"
    "mark_inv ob roots bm0 (bm2, wl2)" "live_unblack bm2 \<subset> live_unblack bm"
proof -
  note inv1 = mark_invD(1)[OF inv]
  obtain c where c: "lookup_cell p = Some (Some c)" "IS_GRAY (bm c)"
    and g: "gray_inv (bm(c := SET_BLACK b (bm c)), wl')"
    using blacken_gray_inv[OF inv1 pop] by blast
  define S where "S = set (object_pointers (ob p))"
  define bm2 where "bm2 = grayed S (bm(c := SET_BLACK b (bm c)))"
  note col = round_colours[OF c(2) bm2_def]
  note cells = mark_invD(3)[OF inv, simplified]
  have free: "\<not> IS_FREE (bm0 c)" using cells[OF c(1)] c(2) free_cell_colour by auto
  then have reach: "reachable lookup_cell ob roots p" using cells[OF c(1)] c(2) colours by blast
  note safe = safe_children[OF nd c(1) free, folded S_def]
  from push_all_grays[OF g, of "object_pointers (ob p)"] safe(1) obtain wl2 where
    push: "scan_object lookup_cell w (ob p) (bm(c := SET_BLACK b (bm c)), wl') = Some (bm2, wl2)"
    and g2: "gray_inv (bm2, wl2)"
    unfolding scan_object_pushes bm2_def S_def by blast
  have free2: "IS_FREE (bm2 d) = IS_FREE (bm0 d)" for d
    using col(4) mark_invD(2)[OF inv] by simp
  have "mark_inv ob roots bm0 (bm2, wl2)"
    unfolding mark_inv_def fst_conv
  proof (intro conjI allI impI ballI)
    fix q d assume q: "lookup_cell q = Some (Some d)"
    note old = cells[OF q]
    { assume "IS_FREE (bm0 d)"
      then have "d \<noteq> c" "\<forall>r\<in>S. lookup_cell r \<noteq> Some (Some d)" using free safe(2) by blast+
      then have "bm2 d = bm d" unfolding bm2_def grayed_def by simp
      with old \<open>IS_FREE (bm0 d)\<close> show "bm2 d = CELL_FREE" by simp }
    assume nf: "\<not> IS_FREE (bm0 d)"
    show "IS_WHITE w (bm2 d) \<or> IS_GRAY (bm2 d) \<or> IS_BLACK b (bm2 d)"
      using old nf col by blast
    { assume "\<not> IS_WHITE w (bm2 d)"
      then consider "d = c" | "\<not> IS_WHITE w (bm d)" | r where "r \<in> S" "lookup_cell r = Some (Some d)"
        using col(1) by blast
      then show "reachable lookup_cell ob roots q"
        using lookup_inj q c(1) reach old nf reachable.step[OF reach] S_def by cases blast+ }
    { assume "q \<in> roots" then show "\<not> IS_WHITE w (bm2 d)" using old nf col(1) by blast }
    { fix r e assume "IS_BLACK b (bm2 d)" "r \<in> set (object_pointers (ob q))" "lookup_cell r = Some (Some e)"
      note r = this
      show "\<not> IS_WHITE w (bm2 e)"
      proof (cases "d = c")
        case True
        with lookup_inj[OF q] c(1) r have "r \<in> S" unfolding S_def by blast
        with r(3) col(1) show ?thesis by blast
      next
        case False
        with r col(2) have "IS_BLACK b (bm d)" by blast
        with old nf r(2,3) have "\<not> IS_WHITE w (bm e)" by blast
        with col(1) show ?thesis by blast
      qed }
  qed (use g2 free2 in auto)
  moreover have "live_unblack bm2 \<subset> live_unblack bm"
    using c col(2) colours(6) unfolding live_unblack_def by blast
  moreover have "set_black lookup_cell b bm p = Some (bm(c := SET_BLACK b (bm c)))"
    using c by (simp add: set_black_def)
  ultimately show thesis using push that by blast
qed

lemma process_worklist_marks:
  assumes "mark_inv ob roots bm0 (bm, wl)" "no_dangling lookup_cell ob bm0"
  shows "\<exists>bm' wl'. process_worklist lookup_cell ob w b (bm, wl) = Some (bm', wl') \<and>
           segments wl' = [] \<and> mark_inv ob roots bm0 (bm', wl')"
  using assms
proof (induction "card (live_unblack bm)" arbitrary: bm wl rule: less_induct)
  case less
  have wl: "worklist_inv wl" using mark_invD(1)[OF less.prems(1)] by (simp add: gray_inv_def)
  show ?case
  proof (cases "ejs_gc_worklist_pop wl")
    case None
    then have "segments wl = []" using worklist.pop_none[OF wl] worklist_empty_segments[OF wl] by simp
    with None less.prems(1) show ?thesis by (subst process_worklist.simps) simp
  next
    case (Some pw)
    then obtain p wl' where pop: "ejs_gc_worklist_pop wl = Some (p, wl')" by (cases pw) simp
    obtain bm1 bm2 wl2 where round: "set_black lookup_cell b bm p = Some bm1"
        "scan_object lookup_cell w (ob p) (bm1, wl') = Some (bm2, wl2)"
        "mark_inv ob roots bm0 (bm2, wl2)" "live_unblack bm2 \<subset> live_unblack bm"
      by (rule mark_round[OF less.prems pop])
    have "finite (live_unblack bm)"
      by (rule finite_subset[OF _ finite_cells]) (auto simp: live_unblack_def)
    then have "card (live_unblack bm2) < card (live_unblack bm)" using round(4) by (rule psubset_card_mono)
    from less.hyps[OF this round(3) less.prems(2)] show ?thesis
      by (subst process_worklist.simps) (simp add: pop round(1,2))
  qed
qed

lemma mark_inv_start:
  assumes bm0: "cells_white lookup_cell w bm0" and wl: "segments wl = []"
    and roots: "\<forall>p\<in>set rs. safe_pointer lookup_cell bm0 p"
  obtains wl' where "push_all lookup_cell w rs (bm0, wl) = Some (grayed (set rs) bm0, wl')"
    "mark_inv ob (set rs) bm0 (grayed (set rs) bm0, wl')"
proof -
  have start: "gray_inv (bm0, wl)"
  proof -
    have "\<not> IS_GRAY (bm0 c)" if "lookup_cell p = Some (Some c)" for p c
      using bm0 that colours(5) free_cell_colour(1) unfolding cells_white_def by metis
    then show ?thesis using wl by (auto simp: gray_inv_def worklist_inv_def worklist_items_def)
  qed
  have lk: "\<forall>p\<in>set rs. lookup_cell p \<noteq> None"
    using roots by (auto simp: safe_pointer_def split: option.splits)
  obtain wl' where push: "push_all lookup_cell w rs (bm0, wl) = Some (grayed (set rs) bm0, wl')"
    and g: "gray_inv (grayed (set rs) bm0, wl')"
    by (rule push_all_grays[OF start lk])
  have cell: "(IS_FREE (bm0 c) \<longrightarrow> grayed (set rs) bm0 c = CELL_FREE) \<and>
      (\<not> IS_FREE (bm0 c) \<longrightarrow> \<not> IS_BLACK b (grayed (set rs) bm0 c) \<and>
         (IS_WHITE w (grayed (set rs) bm0 c) \<or> IS_GRAY (grayed (set rs) bm0 c)) \<and>
         (IS_WHITE w (grayed (set rs) bm0 c) \<longleftrightarrow> p \<notin> set rs))"
    if p: "lookup_cell p = Some (Some c)" for p c
  proof -
    have "(\<exists>q\<in>set rs. lookup_cell q = Some (Some c)) \<longleftrightarrow> p \<in> set rs" using p lookup_inj by blast
    moreover have "p \<in> set rs \<Longrightarrow> \<not> IS_FREE (bm0 c)" using roots p by (auto simp: safe_pointer_def)
    moreover have "bm0 c = CELL_FREE \<or> \<not> IS_FREE (bm0 c) \<and> IS_WHITE w (bm0 c)"
      using bm0 p by (simp add: cells_white_def)
    ultimately show ?thesis using colours(1,6,7) by (auto simp: grayed_def free_cell_colour)
  qed
  have "mark_inv ob (set rs) bm0 (grayed (set rs) bm0, wl')"
    unfolding mark_inv_def fst_conv using g cell by (auto intro: reachable.root)
  with push that show thesis by blast
qed

text \<open>When the worklist is empty, black is reachable and white is not.\<close>

lemma mark_inv_final:
  assumes inv: "mark_inv ob roots bm0 (bm, wl)" and wl: "segments wl = []"
    and nd: "no_dangling lookup_cell ob bm0"
    and roots: "\<forall>p\<in>roots. safe_pointer lookup_cell bm0 p"
    and p: "lookup_cell p = Some (Some c)" and c: "\<not> IS_FREE (bm0 c)"
  shows "IS_BLACK b (bm c) \<longleftrightarrow> reachable lookup_cell ob roots p"
    and "IS_WHITE w (bm c) \<longleftrightarrow> \<not> reachable lookup_cell ob roots p"
proof -
  note cells = mark_invD(3)[OF inv, simplified]
  have no_gray: "\<not> IS_GRAY (bm d)" if "lookup_cell q = Some (Some d)" for q d
    using mark_invD(1)[OF inv] wl that by (auto simp: gray_inv_def worklist_items_def)
  have black: "\<not> IS_FREE (bm0 d) \<and> IS_BLACK b (bm d)"
    if "reachable lookup_cell ob roots q" "lookup_cell q = Some (Some d)" for q d
    using that
  proof (induction arbitrary: d rule: reachable.induct)
    case (root q c')
    then have "\<not> IS_FREE (bm0 d)" using roots by (auto simp: safe_pointer_def)
    with cells[OF root.prems] root.hyps(1) no_gray[OF root.prems] show ?case by blast
  next
    case (step r q d')
    obtain e where e: "lookup_cell r = Some (Some e)" using step.hyps(1) by (auto elim: reachable.cases)
    with step.IH have r: "\<not> IS_FREE (bm0 e)" "IS_BLACK b (bm e)" by blast+
    then have "\<not> IS_WHITE w (bm d)" using cells[OF e] step.hyps(2) step.prems by blast
    moreover have "\<not> IS_FREE (bm0 d)" by (rule safe_children(2)[OF nd e r(1) step.hyps(2) step.prems])
    ultimately show ?case using cells[OF step.prems] no_gray[OF step.prems] by blast
  qed
  show "IS_BLACK b (bm c) \<longleftrightarrow> reachable lookup_cell ob roots p"
    using black[OF _ p] cells[OF p] c colours(7) by blast
  then show "IS_WHITE w (bm c) \<longleftrightarrow> \<not> reachable lookup_cell ob roots p"
    using cells[OF p] c colours(7) no_gray[OF p] by blast
qed

theorem mark_phase_correct:
  assumes "cells_white lookup_cell w bm0" "segments wl = []" "no_dangling lookup_cell ob bm0"
    and "\<forall>p\<in>set (root_pointers lookup_cell bm0 rts). safe_pointer lookup_cell bm0 p"
  obtains bm wl' where "mark_phase lookup_cell ob w b rts (bm0, wl) = Some (bm, wl')" "segments wl' = []"
    "\<And>c. IS_FREE (bm c) = IS_FREE (bm0 c)"
    "\<And>p c. \<lbrakk>lookup_cell p = Some (Some c); IS_FREE (bm0 c)\<rbrakk> \<Longrightarrow> bm c = CELL_FREE"
    "\<And>p c. \<lbrakk>lookup_cell p = Some (Some c); \<not> IS_FREE (bm0 c)\<rbrakk> \<Longrightarrow>
       (IS_BLACK b (bm c) \<longleftrightarrow> reachable lookup_cell ob (set (root_pointers lookup_cell bm0 rts)) p) \<and>
       (IS_WHITE w (bm c) \<longleftrightarrow> \<not> reachable lookup_cell ob (set (root_pointers lookup_cell bm0 rts)) p)"
proof -
  let ?rs = "root_pointers lookup_cell bm0 rts"
  obtain wl1 where push: "push_all lookup_cell w ?rs (bm0, wl) = Some (grayed (set ?rs) bm0, wl1)"
    and inv: "mark_inv ob (set ?rs) bm0 (grayed (set ?rs) bm0, wl1)"
    by (rule mark_inv_start[OF assms(1,2,4)])
  from process_worklist_marks[OF inv assms(3)] obtain bm wl' where
    fin: "process_worklist lookup_cell ob w b (grayed (set ?rs) bm0, wl1) = Some (bm, wl')"
      "segments wl' = []" "mark_inv ob (set ?rs) bm0 (bm, wl')" by blast
  have "mark_phase lookup_cell ob w b rts (bm0, wl) = Some (bm, wl')"
    by (simp add: mark_phase_pushes push fin(1))
  then show thesis
  proof (rule that[OF _ fin(2)])
    show "IS_FREE (bm c) = IS_FREE (bm0 c)" for c using mark_invD(2)[OF fin(3)] by simp
    show "bm c = CELL_FREE" if "lookup_cell p = Some (Some c)" "IS_FREE (bm0 c)" for p c
      using mark_invD(3)[OF fin(3) that(1)] that(2) by simp
  qed (use mark_inv_final[OF fin(3,2) assms(3,4)] in blast)
qed

end

end
