(* ===== verification/GcHeap.thy ===== *)
theory GcHeap
  imports GcMark EjsList
begin

text \<open>
  The heap of the collector (\<open>src/runtime/ejs-gc.c\<close>): arenas of pages of equal cells, the large
  object store, sweeping, a whole collection and allocation.  Addresses are natural numbers; the
  page descriptors live in a store indexed by their address, the bitmap byte \<open>i\<close> of the page
  described at \<open>pa\<close> is \<open>bitmap_of s (pa, i)\<close>, and the page lists are the pointer-level lists of
  EjsList.  \<open>mmap\<close> and \<open>calloc\<close> are arguments that map the number of the call to its result.
\<close>

section \<open>Sizes and addresses\<close>

definition PAGE_SIZE :: nat where "PAGE_SIZE = 4096"
definition ARENA_PAGES :: nat where "ARENA_PAGES = 8192"
definition ARENA_SIZE :: nat where "ARENA_SIZE = PAGE_SIZE * ARENA_PAGES"
definition MAX_HEAP_SIZE :: nat where "MAX_HEAP_SIZE = 2 * 1024 * 1024 * 1024"
definition MAX_ARENAS :: nat where "MAX_ARENAS = MAX_HEAP_SIZE div ARENA_SIZE"
definition OBJECT_SIZE_LOW_LIMIT_BITS :: nat where "OBJECT_SIZE_LOW_LIMIT_BITS = 4"
definition OBJECT_SIZE_HIGH_LIMIT_BITS :: nat where "OBJECT_SIZE_HIGH_LIMIT_BITS = 8"

text \<open>Three pointers, the two tables of \<open>ARENA_PAGES\<close> pointers and a padded int; the header of a
  large object is two links, a size and a 64-byte page descriptor.\<close>

definition sizeof_Arena :: nat where "sizeof_Arena = 3 * 8 + 2 * (8 * ARENA_PAGES) + 8"
definition sizeof_LargeObjectInfo :: nat where "sizeof_LargeObjectInfo = 24 + 64"

definition CELLS_OF_SIZE :: "nat \<Rightarrow> nat" where "CELLS_OF_SIZE sz = PAGE_SIZE div sz"

text \<open>The alignments used are powers of two, so masking is rounding down to a multiple.\<close>

definition EJS_ALIGN :: "nat \<Rightarrow> nat \<Rightarrow> nat" where "EJS_ALIGN v a = (v + a - 1) div a * a"
definition IS_ALIGNED_TO :: "nat \<Rightarrow> nat \<Rightarrow> bool" where "IS_ALIGNED_TO v a \<longleftrightarrow> v mod a = 0"
definition PTR_TO_ARENA :: "addr \<Rightarrow> addr" where "PTR_TO_ARENA p = p div ARENA_SIZE * ARENA_SIZE"
definition PTR_TO_ARENA_PAGE_BASE :: "addr \<Rightarrow> addr" where
  "PTR_TO_ARENA_PAGE_BASE p = EJS_ALIGN (PTR_TO_ARENA p + sizeof_Arena) PAGE_SIZE"

text \<open>An unsigned 64-bit difference of offsets, divided, then stored in an \<open>int\<close>.\<close>

definition PTR_TO_ARENA_PAGE_INDEX :: "addr \<Rightarrow> int" where
  "PTR_TO_ARENA_PAGE_INDEX p =
     sint (word_of_int
       ((int (p mod ARENA_SIZE) - int (PTR_TO_ARENA_PAGE_BASE p mod ARENA_SIZE)) mod 2 ^ 64
          div int PAGE_SIZE) :: int32)"

text \<open>\<open>ffs\<close> of the C library: the number of the lowest set bit, counted from 1.\<close>

fun ffs :: "nat \<Rightarrow> nat" where
  "ffs n = (if n = 0 then 0 else if odd n then 1 else Suc (ffs (n div 2)))"

declare ffs.simps [simp del]

section \<open>State\<close>

record PageInfo =
  bump_ptr :: addr
  page_start :: addr
  page_end :: addr
  los_info :: "addr option"
  cell_size :: nat
  num_cells :: nat
  num_free_cells :: nat

record Arena =
  arena_end :: addr
  arena_pos :: addr
  free_pages :: "addr option"
  page_infos :: "addr list"

record gc_state =
  heap_arenas :: "addr list"
  arena_at :: "addr \<Rightarrow> Arena"
  page_at :: "addr \<Rightarrow> PageInfo"
  bitmap_of :: bitmap
  page_links :: links
  heap_pages :: "nat \<Rightarrow> EJSList"
  los_list :: "addr list"
  los_alloc_size :: "addr \<Rightarrow> nat"
  work_list :: WorkList
  white_mask :: uint8
  black_mask :: uint8
  root_set :: "addr list"
  root_mem :: "addr \<Rightarrow> ejsval"
  os_calls :: nat
  finalized :: "addr list"
  unmapped :: "(addr \<times> nat) list"
  alloc_size :: nat
  num_allocs :: nat
  alloc_size_at_last_gc :: nat
  gc_disabled :: bool
  collect_every_alloc :: nat

text \<open>A large object is named by the address of its header; its page descriptor follows the links
  and the size.\<close>

definition lobj_page :: "addr \<Rightarrow> addr" where "lobj_page l = l + 24"

section \<open>The operating system\<close>

text \<open>\<open>alloc_from_os\<close> over-allocates to align: the result, and the ranges given back.\<close>

definition alloc_from_os :: "(nat \<Rightarrow> addr option) \<Rightarrow> nat \<Rightarrow> nat \<Rightarrow> gc_state \<Rightarrow> addr option \<times> gc_state" where
  "alloc_from_os mmap sz align s =
     (let r = mmap (os_calls s); s = s\<lparr>os_calls := Suc (os_calls s)\<rparr> in
      if align = 0 then (r, s)
      else case r of
        None \<Rightarrow> (None, s)
      | Some res \<Rightarrow>
          if res mod align = 0
          then (Some res, s\<lparr>unmapped := unmapped s @ [(res + sz, sz)]\<rparr>)
          else let aligned_res = EJS_ALIGN res align in
            (Some aligned_res,
             s\<lparr>unmapped := unmapped s @ [(res, aligned_res - res),
                 (aligned_res + sz, res + sz * 2 - (aligned_res + sz))]\<rparr>))"

definition release_to_los :: "addr \<Rightarrow> gc_state \<Rightarrow> gc_state" where
  "release_to_los lobj s = s\<lparr>unmapped := unmapped s @ [(lobj, los_alloc_size s lobj)]\<rparr>"

section \<open>Arenas and pages\<close>

definition arena_new :: "(nat \<Rightarrow> addr option) \<Rightarrow> gc_state \<Rightarrow> addr option \<times> gc_state" where
  "arena_new mmap s =
     (if length (heap_arenas s) = MAX_ARENAS - 1 then (None, s)
      else case alloc_from_os mmap ARENA_SIZE ARENA_SIZE s of
        (None, s) \<Rightarrow> (None, s)
      | (Some start, s) \<Rightarrow>
          (Some start,
           s\<lparr>arena_at := (arena_at s)(start :=
                \<lparr>arena_end = start + ARENA_SIZE, arena_pos = EJS_ALIGN (start + sizeof_Arena) PAGE_SIZE,
                 free_pages = None, page_infos = []\<rparr>),
             heap_arenas := takeWhile (\<lambda>a. \<not> start < a) (heap_arenas s) @ start #
                            dropWhile (\<lambda>a. \<not> start < a) (heap_arenas s)\<rparr>))"

definition clear_bitmap :: "addr \<Rightarrow> nat \<Rightarrow> bitmap \<Rightarrow> bitmap" where
  "clear_bitmap pa n bm = (\<lambda>(q, i). if q = pa \<and> i < n then CELL_FREE else bm (q, i))"

definition alloc_page_info_from_arena ::
  "(nat \<Rightarrow> addr) \<Rightarrow> addr \<Rightarrow> nat \<Rightarrow> gc_state \<Rightarrow> (addr \<times> gc_state) option" where
  "alloc_page_info_from_arena calloc page_data sz s =
     (let info = calloc (os_calls s) in
      ejs_assert (CELLS_OF_SIZE sz > 0)
        (Some (info,
           s\<lparr>os_calls := Suc (os_calls s),
             page_links := EJS_LIST_INIT info (page_links s),
             page_at := (page_at s)(info :=
               \<lparr>bump_ptr = page_data, page_start = page_data, page_end = page_data + PAGE_SIZE,
                los_info = None, cell_size = sz, num_cells = CELLS_OF_SIZE sz,
                num_free_cells = CELLS_OF_SIZE sz\<rparr>),
             bitmap_of := clear_bitmap info (CELLS_OF_SIZE sz)
               (\<lambda>(q, i). if q = info then 0 else bitmap_of s (q, i))\<rparr>)))"

definition alloc_page_from_arena ::
  "(nat \<Rightarrow> addr) \<Rightarrow> addr \<Rightarrow> nat \<Rightarrow> gc_state \<Rightarrow> (addr option \<times> gc_state) option" where
  "alloc_page_from_arena calloc arena sz s =
     (let ar = arena_at s arena; page_data = EJS_ALIGN (arena_pos ar) PAGE_SIZE in
      case free_pages ar of
        Some info \<Rightarrow>
          (let (fp, lk) = EJS_LIST_DETACH info (free_pages ar) (page_links s);
               pg = page_at s info
           in Some (Some info,
               s\<lparr>arena_at := (arena_at s)(arena := ar\<lparr>free_pages := fp\<rparr>),
                 page_links := lk,
                 page_at := (page_at s)(info := pg\<lparr>cell_size := sz, num_cells := CELLS_OF_SIZE sz,
                    num_free_cells := CELLS_OF_SIZE sz, bump_ptr := page_start pg\<rparr>),
                 bitmap_of := clear_bitmap info (CELLS_OF_SIZE sz) (bitmap_of s)\<rparr>))
      | None \<Rightarrow>
          if page_data < arena_end ar
          then map_option (\<lambda>(info, s).
                 (Some info,
                  s\<lparr>arena_at := (arena_at s)(arena := ar\<lparr>arena_pos := page_data + PAGE_SIZE,
                       page_infos := page_infos ar @ [info]\<rparr>)\<rparr>))
               (alloc_page_info_from_arena calloc page_data sz s)
          else Some (None, s))"

fun alloc_from_arenas ::
  "(nat \<Rightarrow> addr) \<Rightarrow> nat \<Rightarrow> addr list \<Rightarrow> gc_state \<Rightarrow> (addr option \<times> gc_state) option" where
  "alloc_from_arenas calloc sz [] s = Some (None, s)"
| "alloc_from_arenas calloc sz (a # as) s =
     (case alloc_page_from_arena calloc a sz s of
        None \<Rightarrow> None
      | Some (Some info, s) \<Rightarrow> Some (Some info, s)
      | Some (None, s) \<Rightarrow> alloc_from_arenas calloc sz as s)"

definition alloc_new_page ::
  "(nat \<Rightarrow> addr option) \<Rightarrow> (nat \<Rightarrow> addr) \<Rightarrow> nat \<Rightarrow> gc_state \<Rightarrow> (addr option \<times> gc_state) option" where
  "alloc_new_page mmap calloc sz s =
     ejs_assert (sz \<ge> 2 ^ OBJECT_SIZE_LOW_LIMIT_BITS)
       (case alloc_from_arenas calloc sz (heap_arenas s) s of
          None \<Rightarrow> None
        | Some (Some info, s) \<Rightarrow> Some (Some info, s)
        | Some (None, s) \<Rightarrow>
            (case arena_new mmap s of
               (None, s) \<Rightarrow> Some (None, s)
             | (Some arena, s) \<Rightarrow> alloc_page_from_arena calloc arena sz s))"

section \<open>From a pointer to its cell\<close>

text \<open>The binary search over the sorted arena table: the loop of \<open>find_arena\<close>, which is also the
  C library's \<open>bsearch\<close> that \<open>find_arena_in_array\<close> calls with \<open>compare_ptrs\<close>.\<close>

fun bsearch_loop :: "addr \<Rightarrow> addr list \<Rightarrow> nat \<Rightarrow> nat \<Rightarrow> nat option" where
  "bsearch_loop key arr base lim =
     (if lim = 0 then None
      else let p = base + lim div 2 in
        if key = arr ! p then Some p
        else if key > arr ! p then bsearch_loop key arr (p + 1) ((lim - 1) div 2)
        else bsearch_loop key arr base (lim div 2))"

declare bsearch_loop.simps [simp del]

definition find_arena_in_array :: "addr \<Rightarrow> addr list \<Rightarrow> addr option" where
  "find_arena_in_array p array =
     map_option (\<lambda>i. array ! i) (bsearch_loop (PTR_TO_ARENA p) array 0 (length array))"

text \<open>\<open>None\<close> is a crash (the null entry after the last page, or the assertion), \<open>Some None\<close> the
  NULL result.\<close>

definition find_page_and_cell_from_arena :: "gc_state \<Rightarrow> addr \<Rightarrow> addr option \<Rightarrow> cell option option" where
  "find_page_and_cell_from_arena s p arena =
     (case arena of
        Some a \<Rightarrow>
          (let page_index = PTR_TO_ARENA_PAGE_INDEX p; infos = page_infos (arena_at s a) in
           if page_index < 0 \<or> page_index > int (length infos) then Some None
           else if page_index = int (length infos) then None
           else let page = infos ! nat page_index; info = page_at s page in
             if \<not> IS_ALIGNED_TO p (cell_size info) then Some None
             else let cell_idx = (p - page_start info) div cell_size info in
               ejs_assert (cell_idx < CELLS_OF_SIZE (cell_size info)) (Some (Some (page, cell_idx))))
      | None \<Rightarrow>
          Some (map_option (\<lambda>l. (lobj_page l, 0))
                 (List.find (\<lambda>l. page_start (page_at s (lobj_page l)) = p) (los_list s))))"

definition find_page_and_cell :: "gc_state \<Rightarrow> addr \<Rightarrow> cell option option" where
  "find_page_and_cell s p = find_page_and_cell_from_arena s p (find_arena_in_array p (heap_arenas s))"

section \<open>Sweeping\<close>

definition ejs_finalize_obj :: "addr \<Rightarrow> addr option \<Rightarrow> addr \<Rightarrow> nat \<Rightarrow> gc_state \<Rightarrow> gc_state option" where
  "ejs_finalize_obj p arena info cell_idx s =
     (if IS_FREE (bitmap_of s (info, cell_idx)) then Some s
      else
        let pg = page_at s info; pg = pg\<lparr>num_free_cells := num_free_cells pg + 1\<rparr>;
            s = s\<lparr>finalized := finalized s @ [p],
                  bitmap_of := (bitmap_of s)((info, cell_idx) := SET_FREE (bitmap_of s (info, cell_idx))),
                  page_at := (page_at s)(info := pg)\<rparr>
        in if num_free_cells pg \<noteq> num_cells pg then Some s
           else case los_info pg of
             Some lobj \<Rightarrow> Some (release_to_los lobj s)
           | None \<Rightarrow>
               (case arena of
                  None \<Rightarrow> None
                | Some a \<Rightarrow>
                    let bucket = ffs (cell_size pg) - OBJECT_SIZE_LOW_LIMIT_BITS;
                        (l, lk) = ejs_list_detach_node (heap_pages s bucket) info (page_links s);
                        ar = arena_at s a;
                        (fp, lk) = EJS_LIST_PREPEND info (free_pages ar) lk
                    in Some (s\<lparr>heap_pages := (heap_pages s)(bucket := l), page_links := lk,
                               arena_at := (arena_at s)(a := ar\<lparr>free_pages := fp\<rparr>)\<rparr>)))"

fun sweep_cells :: "addr \<Rightarrow> addr \<Rightarrow> nat list \<Rightarrow> gc_state \<Rightarrow> gc_state option" where
  "sweep_cells arena info [] s = Some s"
| "sweep_cells arena info (c # cs) s =
     (let cell = bitmap_of s (info, c) in
      if IS_FREE cell \<or> \<not> IS_WHITE (white_mask s) cell then sweep_cells arena info cs s
      else case ejs_finalize_obj (page_start (page_at s info) + c * cell_size (page_at s info))
                  (Some arena) info c s of
        None \<Rightarrow> None
      | Some s \<Rightarrow> sweep_cells arena info cs s)"

definition sweep_page :: "addr \<Rightarrow> addr \<Rightarrow> gc_state \<Rightarrow> gc_state option" where
  "sweep_page arena info s =
     (let pg = page_at s info in
      if num_free_cells pg = num_cells pg then Some s
      else sweep_cells arena info [0..<num_cells pg] s)"

fun sweep_pages :: "addr \<Rightarrow> addr list \<Rightarrow> gc_state \<Rightarrow> gc_state option" where
  "sweep_pages arena [] s = Some s"
| "sweep_pages arena (i # is) s =
     (case sweep_page arena i s of None \<Rightarrow> None | Some s \<Rightarrow> sweep_pages arena is s)"

fun sweep_arenas :: "addr list \<Rightarrow> gc_state \<Rightarrow> gc_state option" where
  "sweep_arenas [] s = Some s"
| "sweep_arenas (a # as) s =
     (case sweep_pages a (page_infos (arena_at s a)) s of None \<Rightarrow> None | Some s \<Rightarrow> sweep_arenas as s)"

fun sweep_los :: "addr list \<Rightarrow> gc_state \<Rightarrow> gc_state option" where
  "sweep_los [] s = Some s"
| "sweep_los (l # ls) s =
     (let info = lobj_page l in
      if \<not> IS_WHITE (white_mask s) (bitmap_of s (info, 0)) then sweep_los ls s
      else case ejs_finalize_obj (page_start (page_at s info)) None info 0
                  (s\<lparr>los_list := remove1 l (los_list s)\<rparr>) of
        None \<Rightarrow> None
      | Some s \<Rightarrow> sweep_los ls s)"

definition sweep_heap :: "gc_state \<Rightarrow> gc_state option" where
  "sweep_heap s = Option.bind (sweep_arenas (heap_arenas s) s) (\<lambda>s. sweep_los (los_list s) s)"

section \<open>Collections\<close>

record mutator =
  module_vals :: "ejsval list list"
  registers :: "uint64 list"
  stack :: "ejsval list"
  object_at :: "addr \<Rightarrow> gcobj"

definition gc_roots_of :: "mutator \<Rightarrow> gc_state \<Rightarrow> gc_roots" where
  "gc_roots_of m s =
     \<lparr>root_values = map (root_mem s) (filter (\<lambda>r. r \<noteq> 0) (root_set s)),
      module_values = module_vals m, register_words = registers m, stack_words = stack m\<rparr>"

definition ejs_gc_collect_inner :: "bool \<Rightarrow> mutator \<Rightarrow> gc_state \<Rightarrow> gc_state option" where
  "ejs_gc_collect_inner shutting_down m s =
     Option.bind
       (if shutting_down then Some (bitmap_of s, work_list s)
        else mark_phase (find_page_and_cell s) (object_at m) (white_mask s) (black_mask s)
               (gc_roots_of m s) (bitmap_of s, work_list s))
       (\<lambda>(bm, wl). Option.bind (sweep_heap (s\<lparr>bitmap_of := bm, work_list := wl\<rparr>))
         (\<lambda>s. let s = s\<lparr>black_mask := white_mask s, white_mask := black_mask s\<rparr> in
              if \<not> shutting_down then Some s
              else if 0 \<in> set (root_set s) then None
              else Some (s\<lparr>root_mem := (\<lambda>r. if r \<in> set (root_set s) then BUILD_EJSVAL EJSVAL_TAG_NULL 0 else root_mem s r),
                           root_set := []\<rparr>)))"

definition ejs_gc_collect :: "mutator \<Rightarrow> gc_state \<Rightarrow> gc_state option" where
  "ejs_gc_collect m s = ejs_gc_collect_inner False m s"

definition ejs_gc_shutdown :: "mutator \<Rightarrow> gc_state \<Rightarrow> gc_state option" where
  "ejs_gc_shutdown m s = ejs_gc_collect_inner True m s"

section \<open>Allocation\<close>

text \<open>\<open>SIZEOF_PTR\<close> is defined nowhere, so the conditional \<open>x |= x >> 32\<close> is not compiled.\<close>

definition pow2_ceil :: "uint64 \<Rightarrow> uint64" where
  "pow2_ceil x =
     (let x = x - 1;
          x = x OR drop_bit 1 x;
          x = x OR drop_bit 2 x;
          x = x OR drop_bit 4 x;
          x = x OR drop_bit 8 x;
          x = x OR drop_bit 16 x
      in x + 1)"

definition alloc_from_page :: "addr \<Rightarrow> gc_state \<Rightarrow> (addr \<times> gc_state) option" where
  "alloc_from_page info s =
     (let pg = page_at s info in
      ejs_assert (num_free_cells pg > 0)
        (Option.bind
          (if bump_ptr pg \<noteq> 0
           then Some (EJS_ALIGN (bump_ptr pg) 8, (bump_ptr pg - page_start pg) div cell_size pg,
                  let b = bump_ptr pg + cell_size pg
                  in pg\<lparr>bump_ptr := (if b + cell_size pg \<ge> page_end pg then 0 else b)\<rparr>)
           else map_option (\<lambda>cell. (page_start pg + cell * cell_size pg, cell, pg))
                  (List.find (\<lambda>cell. IS_FREE (bitmap_of s (info, cell))) [0..<num_cells pg]))
          (\<lambda>(rv, cell, pg).
             ejs_assert (rv \<noteq> 0)
               (Some (rv,
                 s\<lparr>bitmap_of := (bitmap_of s)((info, cell) :=
                      SET_WHITE (white_mask s) (SET_ALLOCATED (bitmap_of s (info, cell)))),
                   page_at := (page_at s)(info := pg\<lparr>num_free_cells := num_free_cells pg - 1\<rparr>)\<rparr>)))))"

definition alloc_from_los :: "(nat \<Rightarrow> addr option) \<Rightarrow> nat \<Rightarrow> gc_state \<Rightarrow> addr option \<times> gc_state" where
  "alloc_from_los mmap sz s =
     (case alloc_from_os mmap (sz + sizeof_LargeObjectInfo + 16) 0 s of
        (None, s) \<Rightarrow> (None, s)
      | (Some rv, s) \<Rightarrow>
          (let start = EJS_ALIGN (rv + sizeof_LargeObjectInfo + 8) 8 in
           (Some start,
            s\<lparr>page_at := (page_at s)(lobj_page rv :=
                 \<lparr>bump_ptr = 0, page_start = start, page_end = 0, los_info = Some rv,
                  cell_size = sz, num_cells = 1, num_free_cells = 0\<rparr>),
              bitmap_of := (bitmap_of s)((lobj_page rv, 0) := SET_ALLOCATED (SET_WHITE (white_mask s) 0)),
              los_alloc_size := (los_alloc_size s)(rv := sz),
              los_list := rv # los_list s\<rparr>)))"

text \<open>One pass from the label \<open>retry_allocation\<close> with the value that \<open>bucket\<close> has there: no cell when no memory was
  found, and the value of \<open>bucket\<close> at the end of the pass, which the code has reduced unless the size belongs to the
  large objects.  Reduced twice it can leave the array of page lists, \<open>None\<close>.\<close>

definition alloc_attempt ::
  "(nat \<Rightarrow> addr option) \<Rightarrow> (nat \<Rightarrow> addr) \<Rightarrow> nat \<Rightarrow> uint64 \<Rightarrow> int \<Rightarrow> gc_state \<Rightarrow> (addr option \<times> int \<times> gc_state) option" where
  "alloc_attempt mmap calloc bucket_size sz bucket s =
     (if bucket > int OBJECT_SIZE_HIGH_LIMIT_BITS then
        let (rv, s) = alloc_from_los mmap (unat sz) s in Some (rv, bucket, s)
      else
        let index = bucket - int OBJECT_SIZE_LOW_LIMIT_BITS; i = nat index in
        if index < 0 then None
        else
          let page = (case head (heap_pages s i) of
                  Some info \<Rightarrow>
                    if num_free_cells (page_at s info) = 0 then None else Some info
                | None \<Rightarrow> None)
           in Option.bind
             (case page of
                Some info \<Rightarrow> Some (Some info, s)
              | None \<Rightarrow>
                  map_option (\<lambda>(r, s).
                      case r of
                        None \<Rightarrow> (None, s)
                      | Some info \<Rightarrow>
                          (let (l, lk) = ejs_list_prepend_node (heap_pages s i) info (page_links s)
                           in (Some info,
                               s\<lparr>heap_pages := (heap_pages s)(i := l), page_links := lk\<rparr>)))
                    (alloc_new_page mmap calloc bucket_size s))
             (\<lambda>(r, s).
                case r of
                  None \<Rightarrow> Some (None, index, s)
                | Some info \<Rightarrow>
                    map_option (\<lambda>(rv, s).
                        (Some rv, index,
                         let l = heap_pages s i in
                         if num_free_cells (page_at s info) = 0 \<and> head l \<noteq> tail l
                         then let (l, lk) = ejs_list_pop_head l (page_links s);
                                  (l, lk) = ejs_list_append_node l info lk
                              in s\<lparr>heap_pages := (heap_pages s)(i := l), page_links := lk\<rparr>
                         else s))
                      (alloc_from_page info s)))"

definition collect_and_reset :: "mutator \<Rightarrow> gc_state \<Rightarrow> gc_state option" where
  "collect_and_reset m s =
     map_option (\<lambda>s. s\<lparr>alloc_size_at_last_gc := alloc_size s, num_allocs := 0\<rparr>) (ejs_gc_collect m s)"

datatype gc_result = Allocated addr | AllocationFailed

text \<open>The jump back to \<open>retry_allocation\<close> is taken at most once, because the collection before it
  resets \<open>num_allocs\<close>.  It does not compute \<open>bucket\<close> anew.\<close>

definition ejs_gc_alloc ::
  "(nat \<Rightarrow> addr option) \<Rightarrow> (nat \<Rightarrow> addr) \<Rightarrow> mutator \<Rightarrow> uint64 \<Rightarrow> gc_state \<Rightarrow> (gc_result \<times> gc_state) option" where
  "ejs_gc_alloc mmap calloc m sz s =
     (let s = s\<lparr>alloc_size := alloc_size s + unat sz, num_allocs := num_allocs s + 1\<rparr>;
          bucket_size = unat (ucast (max (pow2_ceil sz) (2 ^ OBJECT_SIZE_LOW_LIMIT_BITS)) :: int32);
          due = \<not> gc_disabled s \<and>
                (alloc_size s - alloc_size_at_last_gc s \<ge> 60 * 1024 * 1024 \<or>
                 collect_every_alloc s \<noteq> 0 \<and> collect_every_alloc s = num_allocs s)
      in Option.bind (if due then collect_and_reset m s else Some s) (\<lambda>s.
         Option.bind (alloc_attempt mmap calloc bucket_size sz (int (ffs bucket_size)) s) (\<lambda>(r, bucket, s).
           case r of
             Some p \<Rightarrow> Some (Allocated p, s)
           | None \<Rightarrow>
               if num_allocs s = 0 then Some (AllocationFailed, s)
               else Option.bind (collect_and_reset m s) (\<lambda>s.
                    map_option (\<lambda>(r, _, s). (case r of Some p \<Rightarrow> Allocated p | None \<Rightarrow> AllocationFailed, s))
                      (alloc_attempt mmap calloc bucket_size sz bucket s)))))"

definition ejs_gc_add_root :: "addr \<Rightarrow> gc_state \<Rightarrow> gc_state" where
  "ejs_gc_add_root root s = s\<lparr>root_set := root # root_set s\<rparr>"

definition ejs_gc_remove_root :: "addr \<Rightarrow> gc_state \<Rightarrow> gc_state" where
  "ejs_gc_remove_root root s = s\<lparr>root_set := remove1 root (root_set s)\<rparr>"

section \<open>Rounding up to a power of two\<close>

lemma smear_bit:
  fixes x :: uint64
  assumes "\<And>i. bit y i \<longleftrightarrow> (\<exists>j<n. bit x (i + j))"
  shows "bit (y OR drop_bit n y) i \<longleftrightarrow> (\<exists>j<2 * n. bit x (i + j))"
proof -
  have "(\<exists>j<2 * n. bit x (i + j)) \<longleftrightarrow> (\<exists>j<n. bit x (i + j)) \<or> (\<exists>j<n. bit x (i + n + j))"
  proof safe
    fix j assume j: "j < 2 * n" "bit x (i + j)" "\<not> (\<exists>j<n. bit x (i + n + j))"
    show "\<exists>j<n. bit x (i + j)"
    proof (cases "j < n")
      case False
      with j(1,2) have "j - n < n" "bit x (i + n + (j - n))" by simp_all
      with j(3) show ?thesis by blast
    qed (use j in blast)
  next
    fix j assume "j < n" "bit x (i + n + j)"
    then have "n + j < 2 * n \<and> bit x (i + (n + j))" by (simp add: add.assoc)
    then show "\<exists>j<2 * n. bit x (i + j)" by blast
  qed force
  then show ?thesis by (simp add: bit_simps assms add.commute)
qed

lemma smear_all:
  fixes x :: uint64
  defines "y1 \<equiv> x OR drop_bit 1 x" defines "y2 \<equiv> y1 OR drop_bit 2 y1"
  defines "y4 \<equiv> y2 OR drop_bit 4 y2" defines "y8 \<equiv> y4 OR drop_bit 8 y4"
  shows "bit (y8 OR drop_bit 16 y8) i \<longleftrightarrow> (\<exists>j<32. bit x (i + j))"
proof -
  have "bit x i \<longleftrightarrow> (\<exists>j<1. bit x (i + j))" for i by auto
  from smear_bit[OF this] have "bit y1 i \<longleftrightarrow> (\<exists>j<2. bit x (i + j))" for i by (simp add: y1_def)
  from smear_bit[OF this] have "bit y2 i \<longleftrightarrow> (\<exists>j<4. bit x (i + j))" for i by (simp add: y2_def)
  from smear_bit[OF this] have "bit y4 i \<longleftrightarrow> (\<exists>j<8. bit x (i + j))" for i by (simp add: y4_def)
  from smear_bit[OF this] have "bit y8 i \<longleftrightarrow> (\<exists>j<16. bit x (i + j))" for i by (simp add: y8_def)
  from smear_bit[OF this] show ?thesis by simp
qed

lemma bit_unat: "bit (x :: uint64) i \<longleftrightarrow> odd (unat x div 2 ^ i)"
proof -
  have "bit x i \<longleftrightarrow> bit (uint x) i" using bit_imp_le_length [of x i] by (auto simp: bit_uint_iff)
  also have "\<dots> \<longleftrightarrow> odd (int (unat x) div 2 ^ i)" by (simp only: uint_nat bit_iff_odd)
  also have "\<dots> \<longleftrightarrow> odd (unat x div 2 ^ i)"
    by (metis even_of_nat_iff of_nat_numeral of_nat_power zdiv_int)
  finally show ?thesis .
qed

lemma pow2_ceil_value:
  assumes "1 < unat x" "unat x \<le> 2 ^ 32"
  obtains k where "unat (pow2_ceil x) = 2 ^ Suc k" "2 ^ k < unat x" "unat x \<le> 2 ^ Suc k"
proof -
  let ?n = "unat (x - 1)"
  have n: "?n = unat x - 1" using assms(1) by (simp add: unat_sub word_le_nat_alt)
  obtain k where k: "2 ^ k \<le> ?n" "?n < 2 ^ Suc k"
  proof -
    have "1 \<le> ?n" using assms(1) n by linarith
    with ex_power_ivl1[of 2 ?n] that show thesis by auto
  qed
  then have bounds: "2 ^ k < unat x" "unat x \<le> 2 ^ Suc k" using n assms(1) by simp_all
  have k32: "k < 32"
  proof (rule ccontr)
    assume "\<not> k < 32"
    then have "(2::nat) ^ 32 \<le> 2 ^ k" by (intro power_increasing) simp_all
    with bounds(1) assms(2) show False by simp
  qed
  have top: "bit (x - 1) k"
  proof -
    have "?n div 2 ^ k = 1" using k by (intro div_nat_eqI) simp_all
    then show ?thesis by (simp add: bit_unat)
  qed
  have above: "\<not> bit (x - 1) i" if "k < i" for i
  proof -
    have "(2::nat) ^ Suc k \<le> 2 ^ i" using that by (intro power_increasing) simp_all
    then have "?n div 2 ^ i = 0" using k(2) by simp
    then show ?thesis by (simp add: bit_unat)
  qed
  have "pow2_ceil x = mask (Suc k) + 1"
  proof -
    have "(\<exists>j<32. bit (x - 1) (i + j)) \<longleftrightarrow> i < 64 \<and> i < Suc k" for i
    proof
      assume "i < 64 \<and> i < Suc k"
      then have "k - i < 32" "bit (x - 1) (i + (k - i))" using top k32 by simp_all
      then show "\<exists>j<32. bit (x - 1) (i + j)" by blast
    next
      assume "\<exists>j<32. bit (x - 1) (i + j)"
      then obtain j where "bit (x - 1) (i + j)" by blast
      with above[of "i + j"] have "i + j \<le> k" by (meson linorder_not_less)
      with k32 show "i < 64 \<and> i < Suc k" by simp
    qed
    then show ?thesis
      unfolding pow2_ceil_def Let_def
      by (intro arg_cong[where f = "\<lambda>y. y + 1"] bit_word_eqI)
         (simp only: smear_all, simp add: bit_mask_iff)
  qed
  also have "\<dots> = 2 ^ Suc k" by (simp add: mask_eq_exp_minus_1)
  finally have "pow2_ceil x = of_nat (2 ^ Suc k)" by simp
  moreover have "(2::nat) ^ Suc k < 2 ^ 64" using k32 by (intro power_strict_increasing) simp_all
  ultimately have "unat (pow2_ceil x) = 2 ^ Suc k" by (simp only: unat_of_nat) (simp add: take_bit_nat_eq_self)
  with bounds that show thesis by blast
qed

section \<open>Searching the arena table\<close>

lemma bsearch_loop_found:
  "bsearch_loop key arr base lim = Some i \<Longrightarrow> base + lim \<le> length arr \<Longrightarrow> i < length arr \<and> arr ! i = key"
proof (induction key arr base lim rule: bsearch_loop.induct)
  case (1 key arr base lim)
  show ?case
    using 1(3,4) 1(1)[OF _ refl] 1(2)[OF _ refl]
    by (subst (asm) bsearch_loop.simps) (auto simp: Let_def split: if_splits)
qed

lemma bsearch_loop_missing:
  assumes "sorted_wrt (<) arr"
  shows "bsearch_loop key arr base lim = None \<Longrightarrow> base + lim \<le> length arr \<Longrightarrow>
           base \<le> i \<Longrightarrow> i < base + lim \<Longrightarrow> arr ! i \<noteq> key"
  using assms
proof (induction key arr base lim rule: bsearch_loop.induct)
  case (1 key arr base lim)
  define p where "p = base + lim div 2"
  have lim: "lim \<noteq> 0" and p: "p < base + lim" using 1(6) 1(5) by (auto simp: p_def)
  have step: "key \<noteq> arr ! p"
    "key > arr ! p \<Longrightarrow> bsearch_loop key arr (p + 1) ((lim - 1) div 2) = None"
    "\<not> key > arr ! p \<Longrightarrow> bsearch_loop key arr base (lim div 2) = None"
    using 1(3) lim by (subst (asm) bsearch_loop.simps, simp add: Let_def p_def split: if_splits)+
  have mono: "arr ! m < arr ! n" if "m < n" "n < length arr" for m n
    using sorted_wrt_nth_less[OF 1(7) that] .
  consider "key > arr ! p" "p < i" | "key > arr ! p" "i < p" | "key < arr ! p" "i < p" | "key < arr ! p" "p < i"
    | "i = p"
    using step(1) by linarith
  then show ?case
  proof cases
    assume a: "key > arr ! p" "p < i"
    moreover have "p + 1 + (lim - 1) div 2 = base + lim" using lim unfolding p_def by presburger
    ultimately show ?thesis using 1(1)[OF lim p_def step(1) a(1) step(2)[OF a(1)]] 1(4,6,7) by simp
  next
    assume a: "key < arr ! p" "i < p"
    then have "\<not> arr ! p < key" by simp
    from 1(2)[OF lim p_def step(1) this step(3)[OF this]] a 1(4,5,7) p show ?thesis by (simp add: p_def)
  next
    assume "key > arr ! p" "i < p" then show ?thesis using mono[of i p] p 1(4) by simp
  next
    assume "key < arr ! p" "p < i" then show ?thesis using mono[of p i] 1(4,6) by simp
  next
    assume "i = p" then show ?thesis using step(1) by simp
  qed
qed
section \<open>Well-formed heaps\<close>

text \<open>The pages of an arena follow its header, which takes the first 33 pages; a page's descriptor
  counts its free cells, and the cells from the bump pointer on are free.\<close>

definition ARENA_HEADER :: nat where "ARENA_HEADER = 33 * 4096"

definition page_wf :: "gc_state \<Rightarrow> addr \<Rightarrow> addr \<Rightarrow> bool" where
  "page_wf s start pa \<longleftrightarrow>
     (let pg = page_at s pa in
        page_start pg = start \<and> page_end pg = start + PAGE_SIZE \<and> los_info pg = None \<and>
        cell_size pg \<in> {16, 32, 64, 128} \<and> num_cells pg = CELLS_OF_SIZE (cell_size pg) \<and>
        num_free_cells pg = card {i. i < num_cells pg \<and> IS_FREE (bitmap_of s (pa, i))} \<and>
        (bump_ptr pg = 0 \<or> (\<exists>k. k + 1 < num_cells pg \<and> bump_ptr pg = start + k * cell_size pg \<and>
           (\<forall>i. k \<le> i \<and> i < num_cells pg \<longrightarrow> IS_FREE (bitmap_of s (pa, i))))))"

definition arena_wf :: "gc_state \<Rightarrow> addr \<Rightarrow> bool" where
  "arena_wf s a \<longleftrightarrow> a \<noteq> 0 \<and> a mod ARENA_SIZE = 0 \<and>
     length (page_infos (arena_at s a)) \<le> ARENA_PAGES - 33 \<and>
     (\<forall>i < length (page_infos (arena_at s a)).
        page_wf s (a + ARENA_HEADER + i * PAGE_SIZE) (page_infos (arena_at s a) ! i))"

definition los_wf :: "gc_state \<Rightarrow> addr \<Rightarrow> bool" where
  "los_wf s l \<longleftrightarrow>
     (let pg = page_at s (lobj_page l) in
        page_start pg \<noteq> 0 \<and> PTR_TO_ARENA (page_start pg) \<notin> set (heap_arenas s) \<and>
        num_cells pg = 1 \<and> num_free_cells pg = 0 \<and> los_info pg = Some l \<and>
        \<not> IS_FREE (bitmap_of s (lobj_page l, 0)))"

definition arena_pages :: "gc_state \<Rightarrow> addr list" where
  "arena_pages s = concat (map (\<lambda>a. page_infos (arena_at s a)) (heap_arenas s))"

definition heap_wf :: "gc_state \<Rightarrow> bool" where
  "heap_wf s \<longleftrightarrow> sorted_wrt (<) (heap_arenas s) \<and> (\<forall>a \<in> set (heap_arenas s). arena_wf s a) \<and>
     (\<forall>l \<in> set (los_list s). los_wf s l) \<and>
     distinct (arena_pages s @ map lobj_page (los_list s)) \<and>
     distinct (map (\<lambda>l. page_start (page_at s (lobj_page l))) (los_list s))"

text \<open>The address a cell stands for.\<close>

definition cell_addr :: "gc_state \<Rightarrow> cell \<Rightarrow> addr" where
  "cell_addr s c = page_start (page_at s (fst c)) + snd c * cell_size (page_at s (fst c))"

definition heap_cell :: "gc_state \<Rightarrow> cell \<Rightarrow> bool" where
  "heap_cell s c \<longleftrightarrow>
     fst c \<in> set (arena_pages s) \<and> snd c < num_cells (page_at s (fst c)) \<or>
     fst c \<in> lobj_page ` set (los_list s) \<and> snd c = 0"

section \<open>A pointer leads to the cell it points to\<close>

lemmas sizes = PAGE_SIZE_def ARENA_PAGES_def ARENA_SIZE_def sizeof_Arena_def CELLS_OF_SIZE_def
  ARENA_HEADER_def

lemma arena_split:
  assumes "a mod ARENA_SIZE = 0" "off < ARENA_SIZE"
  shows "PTR_TO_ARENA (a + off) = a" "(a + off) mod ARENA_SIZE = off"
  using assms by (auto simp: PTR_TO_ARENA_def sizes elim!: dvdE simp flip: dvd_eq_mod_eq_0)

lemma PTR_TO_ARENA_split: "p = PTR_TO_ARENA p + p mod ARENA_SIZE" "PTR_TO_ARENA p mod ARENA_SIZE = 0"
  by (simp_all add: PTR_TO_ARENA_def)

lemma header_rounds: "(135199 + m * 33554432) div 4096 * 4096 mod 33554432 = (135168::nat)"
proof -
  have "135199 + m * 33554432 = 31 + (33 + m * 8192) * (4096::nat)" by simp
  then have "(135199 + m * 33554432) div 4096 * 4096 = 135168 + m * (33554432::nat)"
    by (simp only: div_mult_self1) simp
  then show ?thesis by simp
qed

lemma page_base: "PTR_TO_ARENA_PAGE_BASE p mod ARENA_SIZE = ARENA_HEADER"
  by (simp add: PTR_TO_ARENA_PAGE_BASE_def EJS_ALIGN_def PTR_TO_ARENA_def sizes header_rounds)

lemma page_index_in_pages:
  assumes "p mod ARENA_SIZE \<ge> ARENA_HEADER"
  shows "PTR_TO_ARENA_PAGE_INDEX p = int ((p mod ARENA_SIZE - ARENA_HEADER) div PAGE_SIZE)"
proof -
  let ?d = "(p mod ARENA_SIZE - ARENA_HEADER) div PAGE_SIZE"
  have b: "?d < 2 ^ 31" "p mod ARENA_SIZE < 2 ^ 25" by (simp_all add: sizes)
  have "(int (p mod ARENA_SIZE) - int ARENA_HEADER) mod 2 ^ 64 div int PAGE_SIZE = int ?d"
    using assms b(2) by (simp add: of_nat_diff zdiv_int mod_pos_pos_trivial)
  moreover have "signed_take_bit (32 - 1) (int ?d) = int ?d"
    using b(1) by (intro signed_take_bit_int_eq_self) simp_all
  ultimately show ?thesis
    by (simp only: PTR_TO_ARENA_PAGE_INDEX_def page_base sint_sbintrunc' len_num0 len_num1 len_bit0 len_of_numeral_defs) simp
qed

lemma page_index_in_header:
  assumes "p mod ARENA_SIZE < ARENA_HEADER"
  shows "PTR_TO_ARENA_PAGE_INDEX p < 0"
proof -
  define n where "n = int ARENA_HEADER - int (p mod ARENA_SIZE)"
  have n: "0 < n" "n \<le> 33 * 4096" using assms by (simp_all add: n_def ARENA_HEADER_def)
  define c where "c = (n + 4095) div 4096"
  have c: "0 < c" "c \<le> 33" "0 \<le> 4096 * c - n" "4096 * c - n < 4096" using n by (auto simp: c_def)
  have "(- n) mod 2 ^ 64 = 2 ^ 64 - n" using n by (simp add: zmod_zminus1_eq_if)
  also have "\<dots> = 4096 * (2 ^ 52 - c) + (4096 * c - n)" by simp
  finally have "(- n) mod 2 ^ 64 div 4096 = 2 ^ 52 - c" using c(3,4) by (intro int_div_pos_eq)
  then have "PTR_TO_ARENA_PAGE_INDEX p = (2 ^ 52 - c + 2 ^ 31) mod 2 ^ 32 - 2 ^ 31"
    by (simp only: PTR_TO_ARENA_PAGE_INDEX_def page_base int_word_sint n_def PAGE_SIZE_def minus_diff_eq) simp
  also have "2 ^ 52 - c + 2 ^ 31 = (2 ^ 31 - c) + 2 ^ 20 * 2 ^ 32" by simp
  also have "\<dots> mod 2 ^ 32 = 2 ^ 31 - c" using c(1,2) by (simp only: mod_mult_self1) (simp add: mod_pos_pos_trivial)
  finally show ?thesis using c(1) by simp
qed

lemma find_arena_correct:
  assumes "sorted_wrt (<) arr"
  shows "find_arena_in_array p arr = (if PTR_TO_ARENA p \<in> set arr then Some (PTR_TO_ARENA p) else None)"
proof (cases "bsearch_loop (PTR_TO_ARENA p) arr 0 (length arr)")
  case None
  with bsearch_loop_missing[OF assms None] show ?thesis
    by (auto simp: find_arena_in_array_def in_set_conv_nth)
next
  case (Some i)
  with bsearch_loop_found[OF Some] show ?thesis
    by (auto simp: find_arena_in_array_def in_set_conv_nth)
qed

lemma cell_size_cases:
  assumes "page_wf s start pa"
  obtains "cell_size (page_at s pa) = 16" | "cell_size (page_at s pa) = 32"
    | "cell_size (page_at s pa) = 64" | "cell_size (page_at s pa) = 128"
  using assms unfolding page_wf_def Let_def by blast

lemma page_wfD:
  assumes "page_wf s start pa"
  shows "page_start (page_at s pa) = start" "los_info (page_at s pa) = None"
    "num_cells (page_at s pa) = CELLS_OF_SIZE (cell_size (page_at s pa))"
  using assms unfolding page_wf_def Let_def by blast+

text \<open>Offsets inside a page: a page holds a whole number of cells, aligned to their size.\<close>

lemma page_layout:
  assumes "page_wf s start pa" "4096 dvd start"
  defines "cs \<equiv> cell_size (page_at s pa)"
  shows "i < CELLS_OF_SIZE cs \<Longrightarrow> i * cs < 4096" "cs > 0"
    "(start + d) mod cs = d mod cs" "d < 4096 \<Longrightarrow> d div cs < CELLS_OF_SIZE cs"
proof -
  have dvd: "cs dvd 4096" "cs > 0"
    using cell_size_cases[OF assms(1)] unfolding cs_def by (cases; simp)+
  show "cs > 0" by (fact dvd(2))
  show "i * cs < 4096" if "i < CELLS_OF_SIZE cs"
    using that dvd(2) dvd_mult_div_cancel[OF dvd(1)]
    by (metis CELLS_OF_SIZE_def PAGE_SIZE_def mult.commute mult_less_mono2)
  show "(start + d) mod cs = d mod cs"
    using dvd_trans[OF dvd(1) assms(2)] by (auto elim!: dvdE)
  show "d < 4096 \<Longrightarrow> d div cs < CELLS_OF_SIZE cs"
    using dvd unfolding CELLS_OF_SIZE_def PAGE_SIZE_def by (metis div_less_iff_less_mult dvd_div_mult_self)
qed

lemma arena_page_at:
  assumes wf: "heap_wf s" and a: "a \<in> set (heap_arenas s)" and i: "i < length (page_infos (arena_at s a))"
  defines "start \<equiv> a + ARENA_HEADER + i * PAGE_SIZE"
  shows "page_wf s start (page_infos (arena_at s a) ! i)" "4096 dvd start" "a mod ARENA_SIZE = 0"
    "start + 4096 \<le> a + ARENA_SIZE"
proof -
  have aw: "arena_wf s a" using wf a by (simp add: heap_wf_def)
  then show "page_wf s start (page_infos (arena_at s a) ! i)" "a mod ARENA_SIZE = 0"
    using i by (simp_all add: arena_wf_def start_def)
  then have "33554432 dvd a" by (simp add: sizes mod_eq_0_iff_dvd)
  then have "4096 dvd a" by (rule dvd_trans[rotated]) simp
  then show "4096 dvd start" by (simp add: start_def sizes)
  show "start + 4096 \<le> a + ARENA_SIZE" using aw i by (simp add: arena_wf_def start_def sizes)
qed

lemma arena_lookup:
  assumes wf: "heap_wf s" and a: "PTR_TO_ARENA p \<in> set (heap_arenas s)"
  shows "find_page_and_cell s p = find_page_and_cell_from_arena s p (Some (PTR_TO_ARENA p))"
  using assms find_arena_correct[of "heap_arenas s" p] by (simp add: find_page_and_cell_def heap_wf_def)

lemma los_lookup:
  assumes wf: "heap_wf s" and a: "PTR_TO_ARENA p \<notin> set (heap_arenas s)"
  shows "find_page_and_cell s p = find_page_and_cell_from_arena s p None"
  using assms find_arena_correct[of "heap_arenas s" p] by (simp add: find_page_and_cell_def heap_wf_def)

lemma find_arena_cell:
  assumes wf: "heap_wf s" and a: "a \<in> set (heap_arenas s)" and i: "i < length (page_infos (arena_at s a))"
    and pa: "pa = page_infos (arena_at s a) ! i" and j: "j < num_cells (page_at s pa)"
  shows "find_page_and_cell s (cell_addr s (pa, j)) = Some (Some (pa, j))"
proof -
  let ?start = "a + ARENA_HEADER + i * PAGE_SIZE" and ?cs = "cell_size (page_at s pa)"
  note pw = arena_page_at[OF wf a i, folded pa]
  note lay = page_layout[OF pw(1,2)]
  have jc: "j < CELLS_OF_SIZE ?cs" using j page_wfD(3)[OF pw(1)] by simp
  then have small: "j * ?cs < 4096" by (rule lay(1))
  define p where "p = cell_addr s (pa, j)"
  have p: "p = a + (ARENA_HEADER + i * PAGE_SIZE + j * ?cs)"
    using page_wfD(1)[OF pw(1)] by (simp add: p_def cell_addr_def)
  have "ARENA_HEADER + i * PAGE_SIZE + j * ?cs < ARENA_SIZE" using pw(4) small by simp
  note spl = arena_split[OF pw(3) this, folded p]
  have "PTR_TO_ARENA_PAGE_INDEX p = int ((i * PAGE_SIZE + j * ?cs) div PAGE_SIZE)"
    using page_index_in_pages[of p] spl(2) by simp
  also have "(i * PAGE_SIZE + j * ?cs) div PAGE_SIZE = i" using small by (simp add: PAGE_SIZE_def)
  finally have idx: "PTR_TO_ARENA_PAGE_INDEX p = int i" .
  have "p mod ?cs = 0" "(p - ?start) div ?cs = j"
    using lay(3)[of "j * ?cs"] lay(2) p by (simp_all add: add.assoc)
  then have "find_page_and_cell_from_arena s p (Some a) = Some (Some (pa, j))"
    using idx i jc page_wfD(1)[OF pw(1)]
    by (simp add: find_page_and_cell_from_arena_def IS_ALIGNED_TO_def pa [symmetric] Let_def)
  then show ?thesis using arena_lookup[OF wf] spl(1) a by (simp add: p_def)
qed

lemma arena_find_sound:
  assumes wf: "heap_wf s" and a: "PTR_TO_ARENA p \<in> set (heap_arenas s)"
    and f: "find_page_and_cell s p = Some (Some (pa, j))"
  shows "pa \<in> set (arena_pages s)" "j < num_cells (page_at s pa)" "p = cell_addr s (pa, j)"
proof -
  let ?a = "PTR_TO_ARENA p"
  define infos where "infos = page_infos (arena_at s ?a)"
  have f': "find_page_and_cell_from_arena s p (Some ?a) = Some (Some (pa, j))"
    using f arena_lookup[OF wf a] by simp
  then have nonneg: "\<not> PTR_TO_ARENA_PAGE_INDEX p < 0"
    by (auto simp: find_page_and_cell_from_arena_def)
  then have hdr: "ARENA_HEADER \<le> p mod ARENA_SIZE" using page_index_in_header[of p] by (meson not_le)
  define i where "i = (p mod ARENA_SIZE - ARENA_HEADER) div PAGE_SIZE"
  have idx: "PTR_TO_ARENA_PAGE_INDEX p = int i" using page_index_in_pages[OF hdr] by (simp add: i_def)
  from f' have i: "i < length infos" and pa: "pa = infos ! i" and al: "p mod cell_size (page_at s pa) = 0"
    and j: "j = (p - page_start (page_at s pa)) div cell_size (page_at s pa)"
    and jc: "j < CELLS_OF_SIZE (cell_size (page_at s pa))"
    by (auto simp: find_page_and_cell_from_arena_def idx infos_def IS_ALIGNED_TO_def Let_def ejs_assert_def
        split: if_splits)
  note pw = arena_page_at[OF wf a i[unfolded infos_def], folded infos_def pa]
  note lay = page_layout[OF pw(1,2)]
  define d where "d = p - (?a + ARENA_HEADER + i * PAGE_SIZE)"
  have "p = ?a + p mod ARENA_SIZE" by (fact PTR_TO_ARENA_split(1))
  then have "p \<ge> ?a + ARENA_HEADER + i * PAGE_SIZE" using hdr by (simp add: i_def PAGE_SIZE_def)
  then have p: "p = ?a + ARENA_HEADER + i * PAGE_SIZE + d" by (simp add: d_def)
  have "d mod cell_size (page_at s pa) = 0" using al lay(3)[of d] p by metis
  moreover have "j = d div cell_size (page_at s pa)" using j page_wfD(1)[OF pw(1)] by (simp add: d_def)
  ultimately have "d = j * cell_size (page_at s pa)" by auto
  then show "p = cell_addr s (pa, j)" using p page_wfD(1)[OF pw(1)] by (simp add: cell_addr_def)
  show "pa \<in> set (arena_pages s)" using a i pa by (auto simp: arena_pages_def infos_def intro!: bexI[OF _ a])
  show "j < num_cells (page_at s pa)" using jc page_wfD(3)[OF pw(1)] by simp
qed

lemma find_distinct:
  "\<lbrakk>distinct (map f xs); x \<in> set xs\<rbrakk> \<Longrightarrow> List.find (\<lambda>y. f y = f x) xs = Some x"
  by (induction xs) auto

lemma find_cell_iff:
  assumes wf: "heap_wf s"
  shows "find_page_and_cell s p = Some (Some c) \<longleftrightarrow> heap_cell s c \<and> p = cell_addr s c"
proof
  obtain pa j where c: "c = (pa, j)" by (cases c)
  assume f: "find_page_and_cell s p = Some (Some c)"
  show "heap_cell s c \<and> p = cell_addr s c"
  proof (cases "PTR_TO_ARENA p \<in> set (heap_arenas s)")
    case True
    with arena_find_sound[OF wf True] f c show ?thesis by (auto simp: heap_cell_def)
  next
    case False
    with f los_lookup[OF wf False] obtain l where
      "List.find (\<lambda>l. page_start (page_at s (lobj_page l)) = p) (los_list s) = Some l" "c = (lobj_page l, 0)"
      by (auto simp: find_page_and_cell_from_arena_def)
    then show ?thesis by (auto simp: heap_cell_def cell_addr_def find_Some_iff)
  qed
next
  obtain pa j where c: "c = (pa, j)" by (cases c)
  assume h: "heap_cell s c \<and> p = cell_addr s c"
  then consider "pa \<in> set (arena_pages s)" "j < num_cells (page_at s pa)"
    | l where "l \<in> set (los_list s)" "pa = lobj_page l" "j = 0" by (auto simp: heap_cell_def c)
  then show "find_page_and_cell s p = Some (Some c)"
  proof cases
    case 1
    then obtain a i where "a \<in> set (heap_arenas s)" "i < length (page_infos (arena_at s a))"
      "pa = page_infos (arena_at s a) ! i" by (auto simp: arena_pages_def in_set_conv_nth)
    from find_arena_cell[OF wf this 1(2)] h c show ?thesis by simp
  next
    case 2
    have l: "los_wf s l" "distinct (map (\<lambda>l. page_start (page_at s (lobj_page l))) (los_list s))"
      using wf 2(1) by (simp_all add: heap_wf_def)
    have p: "p = page_start (page_at s (lobj_page l))" using h c 2 by (simp add: cell_addr_def)
    with los_lookup[OF wf, of p] l(1) find_distinct[OF l(2) 2(1)] show ?thesis
      by (simp add: los_wf_def Let_def find_page_and_cell_from_arena_def c 2)
  qed
qed

lemma find_null:
  assumes wf: "heap_wf s" shows "find_page_and_cell s 0 = Some None"
proof -
  have "0 \<notin> set (heap_arenas s)" "\<forall>l\<in>set (los_list s). page_start (page_at s (lobj_page l)) \<noteq> 0"
    using wf by (auto simp: heap_wf_def arena_wf_def los_wf_def Let_def)
  with los_lookup[OF wf, of 0] show ?thesis
    by (simp add: find_page_and_cell_from_arena_def PTR_TO_ARENA_def find_None_iff)
qed

lemma finite_heap_cells: "finite {c. heap_cell s c}"
proof (rule finite_subset)
  show "{c. heap_cell s c} \<subseteq> (\<Union>pa \<in> set (arena_pages s) \<union> lobj_page ` set (los_list s).
      (\<lambda>i. (pa, i)) ` ({0} \<union> {..<num_cells (page_at s pa)}))"
    by (auto simp: heap_cell_def)
qed auto

text \<open>The well-formed heaps as a type, so that the marking theorems hold of every one of them.\<close>

definition empty_gc_state :: gc_state where
  "empty_gc_state =
     \<lparr>heap_arenas = [],
      arena_at = \<lambda>_. \<lparr>arena_end = 0, arena_pos = 0, free_pages = None, page_infos = []\<rparr>,
      page_at = \<lambda>_. \<lparr>bump_ptr = 0, page_start = 0, page_end = 0, los_info = None, cell_size = 0,
                     num_cells = 0, num_free_cells = 0\<rparr>,
      bitmap_of = \<lambda>_. 0, page_links = \<lparr>prev_of = \<lambda>_. None, next_of = \<lambda>_. None\<rparr>,
      heap_pages = \<lambda>_. \<lparr>head = None, tail = None\<rparr>, los_list = [], los_alloc_size = \<lambda>_. 0,
      work_list = ejs_gc_worklist_init, white_mask = CELL_WHITE_MASK_START,
      black_mask = CELL_BLACK_MASK_START, root_set = [], root_mem = \<lambda>_. 0, os_calls = 0,
      finalized = [], unmapped = [], alloc_size = 0, num_allocs = 0, alloc_size_at_last_gc = 0,
      gc_disabled = False, collect_every_alloc = 0\<rparr>"

typedef wf_heap = "{s. heap_wf s \<and> masks (white_mask s) (black_mask s)}"
  by (rule exI[of _ empty_gc_state])
     (simp add: empty_gc_state_def heap_wf_def arena_pages_def masks_def)

lemma Rep_wf_heap_facts: "heap_wf (Rep_wf_heap h)" "masks (white_mask (Rep_wf_heap h)) (black_mask (Rep_wf_heap h))"
  using Rep_wf_heap[of h] by simp_all

interpretation heap_cells: cell_index "find_page_and_cell (Rep_wf_heap h)"
  "white_mask (Rep_wf_heap h)" "black_mask (Rep_wf_heap h)"
proof unfold_locales
  note wf = Rep_wf_heap_facts(1)[of h]
  show "p = q" if "find_page_and_cell (Rep_wf_heap h) p = Some (Some c)"
    "find_page_and_cell (Rep_wf_heap h) q = Some (Some c)" for p q c
    using that by (simp add: find_cell_iff[OF wf])
  show "find_page_and_cell (Rep_wf_heap h) 0 = Some None" by (rule find_null[OF wf])
  show "finite {c. \<exists>p. find_page_and_cell (Rep_wf_heap h) p = Some (Some c)}"
    by (rule finite_subset[OF _ finite_heap_cells[of "Rep_wf_heap h"]]) (auto simp: find_cell_iff[OF wf])
qed (rule Rep_wf_heap_facts)

end
