(* ===== verification/GcCollect.thy ===== *)
theory GcCollect
  imports GcHeap
begin

text \<open>
  Correctness of the collector: what sweeping frees, what a whole collection keeps, what shutting
  down leaves, and what the allocator returns.
\<close>

section \<open>The part of the state that sweeping does not change\<close>

definition layout :: "gc_state \<Rightarrow> _" where
  "layout s = (heap_arenas s, \<lambda>a. page_infos (arena_at s a),
     \<lambda>pa. (bump_ptr (page_at s pa), page_start (page_at s pa), page_end (page_at s pa),
           los_info (page_at s pa), cell_size (page_at s pa), num_cells (page_at s pa)),
     white_mask s, black_mask s, work_list s, root_set s, root_mem s)"

lemma layout_eqD:
  assumes "layout s' = layout s"
  shows "heap_arenas s' = heap_arenas s" "page_infos (arena_at s' a) = page_infos (arena_at s a)"
    "bump_ptr (page_at s' pa) = bump_ptr (page_at s pa)" "page_start (page_at s' pa) = page_start (page_at s pa)"
    "page_end (page_at s' pa) = page_end (page_at s pa)" "los_info (page_at s' pa) = los_info (page_at s pa)"
    "cell_size (page_at s' pa) = cell_size (page_at s pa)" "num_cells (page_at s' pa) = num_cells (page_at s pa)"
    "white_mask s' = white_mask s" "black_mask s' = black_mask s" "work_list s' = work_list s"
    "root_set s' = root_set s" "root_mem s' = root_mem s" "cell_addr s' c = cell_addr s c"
    "arena_pages s' = arena_pages s"
  using assms by (auto simp: layout_def fun_eq_iff cell_addr_def arena_pages_def)

text \<open>\<open>swept s cs s'\<close>: the cells \<open>cs\<close> have been finalised in this order, and nothing else changed.\<close>

definition swept :: "gc_state \<Rightarrow> cell list \<Rightarrow> gc_state \<Rightarrow> bool" where
  "swept s cs s' \<longleftrightarrow> layout s' = layout s \<and>
     bitmap_of s' = (\<lambda>c. if c \<in> set cs then CELL_FREE else bitmap_of s c) \<and>
     (\<forall>q. num_free_cells (page_at s' q) = num_free_cells (page_at s q) + length (filter (\<lambda>c. fst c = q) cs)) \<and>
     finalized s' = finalized s @ map (cell_addr s) cs"

lemma swept_none: "swept s [] s"
  by (simp add: swept_def)

lemma swept_trans:
  assumes "swept s cs s1" "swept s1 ds s2" shows "swept s (cs @ ds) s2"
proof -
  have "cell_addr s1 = cell_addr s" using assms(1) by (auto simp: swept_def fun_eq_iff dest: layout_eqD(14))
  then show ?thesis using assms by (auto simp: swept_def fun_eq_iff)
qed

definition doomed :: "gc_state \<Rightarrow> cell \<Rightarrow> bool" where
  "doomed s c \<longleftrightarrow> \<not> IS_FREE (bitmap_of s c) \<and> IS_WHITE (white_mask s) (bitmap_of s c)"

lemma doomed_swept: "swept s cs s' \<Longrightarrow> c \<notin> set cs \<Longrightarrow> doomed s' c = doomed s c"
  by (auto simp: doomed_def swept_def dest: layout_eqD(9))

section \<open>Sweeping pages\<close>

lemma finalize_arena_cell:
  assumes "\<not> IS_FREE (bitmap_of s (info, c))" "los_info (page_at s info) = None"
  obtains s' where "ejs_finalize_obj (cell_addr s (info, c)) (Some a) info c s = Some s'"
    "swept s [(info, c)] s'" "los_list s' = los_list s"
proof -
  let ?f = "ejs_finalize_obj (cell_addr s (info, c)) (Some a) info c s"
  have "\<exists>s'. ?f = Some s'"
    using assms by (auto simp: ejs_finalize_obj_def Let_def split: prod.splits)
  then obtain s' where s': "?f = Some s'" by blast
  have "swept s [(info, c)] s' \<and> los_list s' = los_list s"
    using s' assms
    by (auto simp: ejs_finalize_obj_def Let_def swept_def layout_def SET_FREE_def fun_eq_iff
        split: prod.splits if_splits)
  with s' that show thesis by blast
qed

lemma sweep_cells_swept:
  assumes "los_info (page_at s info) = None" "distinct cs"
  obtains s' where "sweep_cells a info cs s = Some s'" "los_list s' = los_list s"
    "swept s (filter (doomed s) (map (Pair info) cs)) s'"
proof -
  have "\<exists>s'. sweep_cells a info cs s = Some s' \<and> los_list s' = los_list s \<and>
      swept s (filter (doomed s) (map (Pair info) cs)) s'"
    using assms
  proof (induction cs arbitrary: s)
    case (Cons c cs)
    show ?case
    proof (cases "doomed s (info, c)")
      case False
      with Cons show ?thesis by (auto simp: doomed_def Let_def)
    next
      case True
      then obtain s1 where s1: "ejs_finalize_obj (cell_addr s (info, c)) (Some a) info c s = Some s1"
        "swept s [(info, c)] s1" "los_list s1 = los_list s"
        using finalize_arena_cell[of s info c a] Cons.prems(1) by (auto simp: doomed_def)
      have "los_info (page_at s1 info) = None"
        using Cons.prems(1) s1(2) layout_eqD(6)[of s1 s] by (simp add: swept_def)
      with Cons.IH[of s1] Cons.prems(2) obtain s' where s': "sweep_cells a info cs s1 = Some s'"
        "los_list s' = los_list s1" "swept s1 (filter (doomed s1) (map (Pair info) cs)) s'" by auto
      have "filter (doomed s1) (map (Pair info) cs) = filter (doomed s) (map (Pair info) cs)"
        using Cons.prems(2) by (intro filter_cong) (auto intro!: doomed_swept[OF s1(2)])
      moreover have "\<not> IS_FREE (bitmap_of s (info, c))" "IS_WHITE (white_mask s) (bitmap_of s (info, c))"
        using True by (simp_all add: doomed_def)
      ultimately show ?thesis
        using swept_trans[OF s1(2) s'(3)] s'(1,2) s1 True by (simp add: Let_def cell_addr_def)
    qed
  qed (simp add: swept_none)
  with that show thesis by blast
qed

definition dead_in_page :: "gc_state \<Rightarrow> addr \<Rightarrow> cell list" where
  "dead_in_page s info = filter (doomed s) (map (Pair info) [0..<num_cells (page_at s info)])"

text \<open>The descriptor's count is right, so skipping a page whose count is full skips no object.\<close>

definition count_ok :: "gc_state \<Rightarrow> addr \<Rightarrow> bool" where
  "count_ok s pa \<longleftrightarrow> num_free_cells (page_at s pa) =
     card {i. i < num_cells (page_at s pa) \<and> IS_FREE (bitmap_of s (pa, i))}"

lemma full_page_free:
  assumes "count_ok s pa" "num_free_cells (page_at s pa) = num_cells (page_at s pa)"
    "i < num_cells (page_at s pa)"
  shows "IS_FREE (bitmap_of s (pa, i))"
proof -
  let ?F = "{i. i < num_cells (page_at s pa) \<and> IS_FREE (bitmap_of s (pa, i))}"
  have "?F = {..<num_cells (page_at s pa)}"
    by (rule card_subset_eq) (use assms in \<open>auto simp: count_ok_def\<close>)
  with assms(3) show ?thesis by blast
qed

lemma sweep_page_swept:
  assumes "los_info (page_at s info) = None" "count_ok s info"
  obtains s' where "sweep_page a info s = Some s'" "los_list s' = los_list s" "swept s (dead_in_page s info) s'"
proof (cases "num_free_cells (page_at s info) = num_cells (page_at s info)")
  case True
  then have "dead_in_page s info = []"
    using full_page_free[OF assms(2)] by (auto simp: dead_in_page_def doomed_def filter_empty_conv)
  with True that show thesis by (simp add: sweep_page_def swept_none)
next
  case False
  obtain s' where "sweep_cells a info [0..<num_cells (page_at s info)] s = Some s'"
    "los_list s' = los_list s" "swept s (dead_in_page s info) s'"
    unfolding dead_in_page_def by (rule sweep_cells_swept[OF assms(1) distinct_upt])
  with False that show thesis by (simp add: sweep_page_def Let_def)
qed

lemma dead_in_page_fst: "c \<in> set (dead_in_page s pa) \<Longrightarrow> fst c = pa"
  by (auto simp: dead_in_page_def)

lemma filter_fst_empty: "pa \<notin> fst ` set cs \<Longrightarrow> filter (\<lambda>c. fst c = pa) cs = []"
  by (auto simp: filter_empty_conv)

lemma other_page_unchanged:
  assumes "swept s cs s'" "pa \<notin> fst ` set cs"
  shows "dead_in_page s' pa = dead_in_page s pa" "count_ok s' pa = count_ok s pa"
    "los_info (page_at s' pa) = los_info (page_at s pa)"
proof -
  note l = layout_eqD[of s' s]
  have lay: "layout s' = layout s" using assms(1) by (simp add: swept_def)
  have notin: "(pa, i) \<notin> set cs" for i using assms(2) by (force)
  then have "doomed s' (pa, i) = doomed s (pa, i)" for i using doomed_swept[OF assms(1)] by blast
  then show "dead_in_page s' pa = dead_in_page s pa"
    by (auto simp: dead_in_page_def l(8)[OF lay] intro!: filter_cong)
  note none = filter_fst_empty[OF assms(2)]
  have "num_free_cells (page_at s' pa) = num_free_cells (page_at s pa)"
    "\<And>i. bitmap_of s' (pa, i) = bitmap_of s (pa, i)"
    using assms(1) none notin by (simp_all add: swept_def)
  then show "count_ok s' pa = count_ok s pa" by (simp add: count_ok_def l(8)[OF lay])
  show "los_info (page_at s' pa) = los_info (page_at s pa)" by (rule l(6)[OF lay])
qed

lemma sweep_pages_swept:
  assumes "\<forall>pa\<in>set infos. los_info (page_at s pa) = None \<and> count_ok s pa" "distinct infos"
  obtains s' where "sweep_pages a infos s = Some s'" "los_list s' = los_list s"
    "swept s (concat (map (dead_in_page s) infos)) s'"
proof -
  have "\<exists>s'. sweep_pages a infos s = Some s' \<and> los_list s' = los_list s \<and>
      swept s (concat (map (dead_in_page s) infos)) s'"
    using assms
  proof (induction infos arbitrary: s)
    case (Cons pa infos)
    then obtain s1 where s1: "sweep_page a pa s = Some s1" "los_list s1 = los_list s" "swept s (dead_in_page s pa) s1"
      using sweep_page_swept[of s pa a] by auto
    have other: "q \<notin> fst ` set (dead_in_page s pa)" if "q \<in> set infos" for q
      using that Cons.prems(2) dead_in_page_fst by fastforce
    note un = other_page_unchanged[OF s1(3) other]
    have "\<forall>q\<in>set infos. los_info (page_at s1 q) = None \<and> count_ok s1 q" using un Cons.prems(1) by simp
    with Cons.IH[of s1] Cons.prems(2) obtain s' where s': "sweep_pages a infos s1 = Some s'"
      "los_list s' = los_list s1" "swept s1 (concat (map (dead_in_page s1) infos)) s'" by auto
    have "map (dead_in_page s1) infos = map (dead_in_page s) infos" using un(1) by simp
    with swept_trans[OF s1(3) s'(3)] s' s1 show ?case by auto
  qed (simp add: swept_none)
  with that show thesis by blast
qed

lemma sweep_arenas_swept:
  assumes "\<forall>pa\<in>set (concat (map (\<lambda>a. page_infos (arena_at s a)) as)). los_info (page_at s pa) = None \<and> count_ok s pa"
    and "distinct (concat (map (\<lambda>a. page_infos (arena_at s a)) as))"
  obtains s' where "sweep_arenas as s = Some s'" "los_list s' = los_list s"
    "swept s (concat (map (dead_in_page s) (concat (map (\<lambda>a. page_infos (arena_at s a)) as)))) s'"
proof -
  have "\<exists>s'. sweep_arenas as s = Some s' \<and> los_list s' = los_list s \<and>
      swept s (concat (map (dead_in_page s) (concat (map (\<lambda>a. page_infos (arena_at s a)) as)))) s'"
    using assms
  proof (induction as arbitrary: s)
    case (Cons a as)
    let ?infos = "page_infos (arena_at s a)"
    obtain s1 where s1: "sweep_pages a ?infos s = Some s1" "los_list s1 = los_list s"
      "swept s (concat (map (dead_in_page s) ?infos)) s1"
      using sweep_pages_swept[of ?infos s a] Cons.prems by auto
    have lay: "layout s1 = layout s" using s1(3) by (simp add: swept_def)
    have other: "q \<notin> fst ` set (concat (map (dead_in_page s) ?infos))"
      if "q \<in> set (concat (map (\<lambda>a. page_infos (arena_at s a)) as))" for q
      using that Cons.prems(2) dead_in_page_fst by fastforce
    note un = other_page_unchanged[OF s1(3) other]
    have infos: "(\<lambda>a. page_infos (arena_at s1 a)) = (\<lambda>a. page_infos (arena_at s a))"
      using layout_eqD(2)[OF lay] by simp
    have "\<exists>s'. sweep_arenas as s1 = Some s' \<and> los_list s' = los_list s1 \<and>
        swept s1 (concat (map (dead_in_page s1) (concat (map (\<lambda>a. page_infos (arena_at s a)) as)))) s'"
      using Cons.IH[of s1] Cons.prems un(2,3) unfolding infos by simp
    then obtain s' where s': "sweep_arenas as s1 = Some s'" "los_list s' = los_list s1"
      "swept s1 (concat (map (dead_in_page s1) (concat (map (\<lambda>a. page_infos (arena_at s a)) as)))) s'" by blast
    have "map (dead_in_page s1) (concat (map (\<lambda>a. page_infos (arena_at s a)) as)) =
        map (dead_in_page s) (concat (map (\<lambda>a. page_infos (arena_at s a)) as))"
      using un(1) by (intro map_cong) auto
    with swept_trans[OF s1(3) s'(3)] s' s1 show ?case by auto
  qed (simp add: swept_none)
  with that show thesis by blast
qed

section \<open>Sweeping the large object store\<close>

definition los_cell :: "addr \<Rightarrow> cell" where "los_cell l = (lobj_page l, 0)"

definition los_count :: "gc_state \<Rightarrow> addr \<Rightarrow> bool" where
  "los_count s l \<longleftrightarrow> los_info (page_at s (lobj_page l)) = Some l \<and> \<not> IS_FREE (bitmap_of s (los_cell l)) \<and>
     num_cells (page_at s (lobj_page l)) = 1 \<and> num_free_cells (page_at s (lobj_page l)) = 0"

lemma finalize_los_cell:
  assumes "los_count s l"
  obtains s' where "ejs_finalize_obj (page_start (page_at s (lobj_page l))) None (lobj_page l) 0
      (s\<lparr>los_list := ls\<rparr>) = Some s'"
    "swept s [los_cell l] s'" "los_list s' = ls"
  using assms that
  by (auto simp: los_count_def ejs_finalize_obj_def Let_def swept_def layout_def SET_FREE_def fun_eq_iff
      los_cell_def release_to_los_def cell_addr_def)

lemma lobj_page_inj [simp]: "lobj_page l = lobj_page m \<longleftrightarrow> l = m"
  by (simp add: lobj_page_def)

lemma sweep_los_swept:
  assumes "\<forall>l\<in>set ls. los_count s l" "distinct ls" "distinct (los_list s)" "set ls \<subseteq> set (los_list s)"
  obtains s' where "sweep_los ls s = Some s'"
    "swept s (filter (doomed s) (map los_cell ls)) s'"
    "los_list s' = filter (\<lambda>l. l \<notin> set ls \<or> \<not> doomed s (los_cell l)) (los_list s)"
proof -
  have "\<exists>s'. sweep_los ls s = Some s' \<and> swept s (filter (doomed s) (map los_cell ls)) s' \<and>
    los_list s' = filter (\<lambda>l. l \<notin> set ls \<or> \<not> doomed s (los_cell l)) (los_list s)"
    using assms
  proof (induction ls arbitrary: s)
    case (Cons l ls)
    have nf: "\<not> IS_FREE (bitmap_of s (lobj_page l, 0))" using Cons.prems(1) by (auto simp: los_count_def los_cell_def)
    show ?case
    proof (cases "doomed s (los_cell l)")
      case False
      then have "\<not> IS_WHITE (white_mask s) (bitmap_of s (lobj_page l, 0))" using nf by (simp add: doomed_def los_cell_def)
      moreover obtain s' where "sweep_los ls s = Some s'" "swept s (filter (doomed s) (map los_cell ls)) s'"
        "los_list s' = filter (\<lambda>l. l \<notin> set ls \<or> \<not> doomed s (los_cell l)) (los_list s)"
        using Cons.IH[of s] Cons.prems by auto
      moreover have "filter (\<lambda>m. m \<notin> set ls \<or> \<not> doomed s (los_cell m)) (los_list s) =
          filter (\<lambda>m. m \<notin> set (l # ls) \<or> \<not> doomed s (los_cell m)) (los_list s)"
        using False by (intro filter_cong) auto
      ultimately show ?thesis using False by simp
    next
      case True
      then have w: "IS_WHITE (white_mask s) (bitmap_of s (lobj_page l, 0))" by (simp add: doomed_def los_cell_def)
      obtain s1 where s1: "ejs_finalize_obj (page_start (page_at s (lobj_page l))) None (lobj_page l) 0
          (s\<lparr>los_list := remove1 l (los_list s)\<rparr>) = Some s1"
        "swept s [los_cell l] s1" "los_list s1 = remove1 l (los_list s)"
        using finalize_los_cell[of s l] Cons.prems(1) by auto
      have same: "los_cell m \<noteq> los_cell l" if "m \<in> set ls" for m
        using that Cons.prems(2) by (auto simp: los_cell_def)
      have d1: "doomed s1 (los_cell m) = doomed s (los_cell m)" if "m \<in> set ls" for m
        using doomed_swept[OF s1(2)] same[OF that] by simp
      have "los_count s1 m" if m: "m \<in> set ls" for m
        using Cons.prems(1) m same[OF m] s1(2) layout_eqD(6,8)[of s1 s]
        by (auto simp: los_count_def swept_def los_cell_def)
      with Cons.IH[of s1] Cons.prems s1(3) obtain s' where s': "sweep_los ls s1 = Some s'"
        "swept s1 (filter (doomed s1) (map los_cell ls)) s'"
        "los_list s' = filter (\<lambda>l. l \<notin> set ls \<or> \<not> doomed s1 (los_cell l)) (los_list s1)"
        by (auto simp: distinct_remove1 in_set_remove1)
      have "filter (doomed s1) (map los_cell ls) = filter (doomed s) (map los_cell ls)"
        using d1 by (intro filter_cong) auto
      moreover have "los_list s' = filter (\<lambda>m. m \<notin> set (l # ls) \<or> \<not> doomed s (los_cell m)) (los_list s)"
        unfolding s'(3) s1(3) distinct_remove1_removeAll[OF Cons.prems(3)] removeAll_filter_not_eq filter_filter
        using True d1 by (intro filter_cong) auto
      ultimately show ?thesis using swept_trans[OF s1(2) s'(2)] s'(1) s1(1) True w
        by (simp add: Let_def)
    qed
  qed (simp add: swept_none)
  with that show thesis by blast
qed

section \<open>Sweeping the heap\<close>

definition dead_cells :: "gc_state \<Rightarrow> cell list" where
  "dead_cells s = concat (map (dead_in_page s) (arena_pages s)) @ filter (doomed s) (map los_cell (los_list s))"

lemma dead_cells_iff: "c \<in> set (dead_cells s) \<longleftrightarrow> heap_cell s c \<and> doomed s c"
  by (cases c) (fastforce simp: dead_cells_def dead_in_page_def heap_cell_def los_cell_def)

lemma wf_pages:
  assumes "heap_wf s" "pa \<in> set (arena_pages s)"
  obtains start where "page_wf s start pa"
  using assms by (auto simp: heap_wf_def arena_pages_def arena_wf_def in_set_conv_nth)

lemma wf_count: assumes "heap_wf s" "pa \<in> set (arena_pages s)"
  shows "los_info (page_at s pa) = None \<and> count_ok s pa"
proof -
  obtain start where "page_wf s start pa" by (rule wf_pages[OF assms])
  then show ?thesis by (simp add: page_wf_def count_ok_def Let_def)
qed

lemma wf_los: "heap_wf s \<Longrightarrow> l \<in> set (los_list s) \<Longrightarrow> los_count s l"
  by (auto simp: heap_wf_def los_wf_def los_count_def los_cell_def Let_def)

lemma wf_distinct:
  assumes "heap_wf s"
  shows "distinct (arena_pages s)" "distinct (los_list s)"
    "l \<in> set (los_list s) \<Longrightarrow> lobj_page l \<notin> set (arena_pages s)"
  using assms by (auto simp: heap_wf_def distinct_map)

lemma sweep_heap_swept:
  assumes wf: "heap_wf s"
  obtains s' where "sweep_heap s = Some s'" "swept s (dead_cells s) s'"
    "los_list s' = filter (\<lambda>l. \<not> doomed s (los_cell l)) (los_list s)"
proof -
  obtain s1 where s1: "sweep_arenas (heap_arenas s) s = Some s1" "los_list s1 = los_list s"
    "swept s (concat (map (dead_in_page s) (arena_pages s))) s1"
    using sweep_arenas_swept[of s "heap_arenas s"] wf_count[OF wf] wf_distinct(1)[OF wf]
    unfolding arena_pages_def by blast
  have other: "lobj_page l \<notin> fst ` set (concat (map (dead_in_page s) (arena_pages s)))" if "l \<in> set (los_list s)" for l
    using wf_distinct(3)[OF wf that] dead_in_page_fst by fastforce
  then have notin: "los_cell l \<notin> set (concat (map (dead_in_page s) (arena_pages s)))" if "l \<in> set (los_list s)" for l
    using that by (force simp: los_cell_def)
  have lay: "layout s1 = layout s" using s1(3) by (simp add: swept_def)
  have "los_count s1 l" if l: "l \<in> set (los_list s)" for l
  proof -
    note none = filter_fst_empty[OF other[OF l]]
    then show ?thesis using wf_los[OF wf l] notin[OF l] s1(3) layout_eqD(6,8)[OF lay]
      by (simp add: los_count_def swept_def)
  qed
  then obtain s' where s': "sweep_los (los_list s1) s1 = Some s'"
    "swept s1 (filter (doomed s1) (map los_cell (los_list s1))) s'"
    "los_list s' = filter (\<lambda>l. l \<notin> set (los_list s1) \<or> \<not> doomed s1 (los_cell l)) (los_list s1)"
    using sweep_los_swept[of "los_list s1" s1] wf_distinct(2)[OF wf] s1(2) by auto
  have d: "doomed s1 (los_cell l) = doomed s (los_cell l)" if "l \<in> set (los_list s)" for l
    using doomed_swept[OF s1(3) notin[OF that]] .
  then have "filter (doomed s1) (map los_cell (los_list s)) = filter (doomed s) (map los_cell (los_list s))"
    by (intro filter_cong) auto
  with swept_trans[OF s1(3) s'(2)] s1(2) have "swept s (dead_cells s) s'" by (simp add: dead_cells_def)
  moreover have "los_list s' = filter (\<lambda>l. \<not> doomed s (los_cell l)) (los_list s)"
    unfolding s'(3) s1(2) using d by (intro filter_cong) auto
  ultimately show thesis using s1(1) s'(1) that by (simp add: sweep_heap_def)
qed

section \<open>Sweeping keeps the heap well formed\<close>

lemma dead_of_page:
  assumes "heap_wf s" "pa \<in> set (arena_pages s)"
  shows "filter (\<lambda>c. fst c = pa) (dead_cells s) = dead_in_page s pa"
proof -
  have "distinct ps \<Longrightarrow> pa \<in> set ps \<Longrightarrow> filter (\<lambda>c. fst c = pa) (concat (map (dead_in_page s) ps)) = dead_in_page s pa" for ps
  proof (induction ps)
    case (Cons p ps)
    have own: "filter (\<lambda>c. fst c = q) (dead_in_page s q) = dead_in_page s q" for q
      by (auto simp: filter_id_conv dead_in_page_fst)
    have other: "filter (\<lambda>c. fst c = pa) (dead_in_page s q) = []" if "q \<noteq> pa" for q
      using that dead_in_page_fst by (fastforce simp: filter_empty_conv)
    show ?case
    proof (cases "p = pa")
      case True
      then have "filter (\<lambda>c. fst c = pa) (concat (map (dead_in_page s) ps)) = []"
        using Cons.prems(1) dead_in_page_fst by (fastforce simp: filter_empty_conv)
      with True own show ?thesis by simp
    qed (use Cons other in simp)
  qed simp
  moreover have "filter (\<lambda>c. fst c = pa) (filter (doomed s) (map los_cell (los_list s))) = []"
    using wf_distinct(3)[OF assms(1)] assms(2) by (auto simp: filter_empty_conv los_cell_def)
  ultimately show ?thesis using assms(2) wf_distinct(1)[OF assms(1)] by (simp add: dead_cells_def)
qed

lemma length_dead_in_page: "length (dead_in_page s pa) = card {i. i < num_cells (page_at s pa) \<and> doomed s (pa, i)}"
  by (simp add: dead_in_page_def filter_map length_filter_conv_card o_def)
    (intro arg_cong[where f = card], auto)

lemma swept_page_wf:
  assumes wf: "heap_wf s" and sw: "swept s (dead_cells s) s'" and pa: "pa \<in> set (arena_pages s)"
    and pw: "page_wf s start pa"
  shows "page_wf s' start pa"
proof -
  let ?n = "num_cells (page_at s pa)"
  have lay: "layout s' = layout s" using sw by (simp add: swept_def)
  have free: "IS_FREE (bitmap_of s' (pa, i)) \<longleftrightarrow> IS_FREE (bitmap_of s (pa, i)) \<or> doomed s (pa, i)" if "i < ?n" for i
    using sw that pa dead_cells_iff[of "(pa, i)" s] by (auto simp: swept_def heap_cell_def free_cell_colour doomed_def)
  have "{i. i < ?n \<and> IS_FREE (bitmap_of s' (pa, i))} =
      {i. i < ?n \<and> IS_FREE (bitmap_of s (pa, i))} \<union> {i. i < ?n \<and> doomed s (pa, i)}" using free by auto
  moreover have "{i. i < ?n \<and> IS_FREE (bitmap_of s (pa, i))} \<inter> {i. i < ?n \<and> doomed s (pa, i)} = {}"
    by (auto simp: doomed_def)
  ultimately have "card {i. i < ?n \<and> IS_FREE (bitmap_of s' (pa, i))} =
      card {i. i < ?n \<and> IS_FREE (bitmap_of s (pa, i))} + card {i. i < ?n \<and> doomed s (pa, i)}"
    by (simp add: card_Un_disjoint)
  moreover have "num_free_cells (page_at s' pa) = num_free_cells (page_at s pa) + card {i. i < ?n \<and> doomed s (pa, i)}"
    using sw by (simp add: swept_def dead_of_page[OF wf pa] length_dead_in_page)
  ultimately have "num_free_cells (page_at s' pa) = card {i. i < ?n \<and> IS_FREE (bitmap_of s' (pa, i))}"
    using pw by (simp add: page_wf_def Let_def)
  then show ?thesis
    using pw free unfolding page_wf_def Let_def layout_eqD[OF lay] by metis
qed

lemma swept_heap_wf:
  assumes wf: "heap_wf s" and sw: "swept s (dead_cells s) s'"
    and los: "los_list s' = filter (\<lambda>l. \<not> doomed s (los_cell l)) (los_list s)"
  shows "heap_wf s'"
proof -
  have lay: "layout s' = layout s" using sw by (simp add: swept_def)
  note l = layout_eqD[OF lay]
  have "arena_wf s' a" if a: "a \<in> set (heap_arenas s)" for a
  proof -
    have "arena_wf s a" using wf a by (simp add: heap_wf_def)
    moreover have "page_infos (arena_at s a) ! i \<in> set (arena_pages s)" if "i < length (page_infos (arena_at s a))" for i
      using that by (auto simp: arena_pages_def intro!: bexI[OF _ a])
    ultimately show ?thesis using swept_page_wf[OF wf sw] by (simp add: arena_wf_def l(2))
  qed
  moreover have "los_wf s' m" if m: "m \<in> set (los_list s')" for m
  proof -
    have m': "m \<in> set (los_list s)" "los_cell m \<notin> set (dead_cells s)" using m by (auto simp: los dead_cells_iff)
    have "filter (\<lambda>c. fst c = lobj_page m) (dead_cells s) = []"
    proof (rule filter_fst_empty, rule notI)
      assume "lobj_page m \<in> fst ` set (dead_cells s)"
      then obtain i where "(lobj_page m, i) \<in> set (dead_cells s)" by auto
      then show False using m'(2) wf_distinct(3)[OF wf m'(1)]
        by (auto simp: dead_cells_iff heap_cell_def los_cell_def)
    qed
    then show ?thesis using wf m' sw by (auto simp: heap_wf_def los_wf_def Let_def l swept_def los_cell_def)
  qed
  moreover have "distinct (arena_pages s @ map lobj_page (los_list s'))"
    using wf by (auto simp: heap_wf_def los distinct_map intro: inj_on_subset)
  moreover have "distinct (map (\<lambda>l. page_start (page_at s (lobj_page l))) (los_list s'))"
    using wf by (auto simp: heap_wf_def los distinct_map intro: inj_on_subset)
  ultimately show ?thesis using wf by (simp add: heap_wf_def l)
qed

lemma swept_heap_cell:
  assumes wf: "heap_wf s" and sw: "swept s (dead_cells s) s'"
    and los: "los_list s' = filter (\<lambda>l. \<not> doomed s (los_cell l)) (los_list s)"
  shows "heap_cell s' c \<longleftrightarrow> heap_cell s c \<and> (fst c \<in> set (arena_pages s) \<or> c \<notin> set (dead_cells s))"
proof -
  have lay: "layout s' = layout s" using sw by (simp add: swept_def)
  show ?thesis using wf_distinct(3)[OF wf]
    by (cases c) (auto simp: heap_cell_def layout_eqD[OF lay] los dead_cells_iff los_cell_def)
qed

text \<open>Whether a lookup crashes depends on the layout only.\<close>

lemma layout_crash:
  assumes "layout s' = layout s"
  shows "find_page_and_cell s' p = None \<longleftrightarrow> find_page_and_cell s p = None"
  by (auto simp: find_page_and_cell_def find_page_and_cell_from_arena_def layout_eqD[OF assms] Let_def
      split: option.splits)

section \<open>Collections\<close>

definition allocated :: "gc_state \<Rightarrow> addr \<Rightarrow> bool" where
  "allocated s p \<longleftrightarrow> (\<exists>c. find_page_and_cell s p = Some (Some c) \<and> \<not> IS_FREE (bitmap_of s c))"

text \<open>The invariant between collections.\<close>

definition gc_ok :: "(addr \<Rightarrow> gcobj) \<Rightarrow> gc_state \<Rightarrow> bool" where
  "gc_ok ob s \<longleftrightarrow> heap_wf s \<and> masks (white_mask s) (black_mask s) \<and> segments (work_list s) = [] \<and>
     cells_white (find_page_and_cell s) (white_mask s) (bitmap_of s) \<and>
     no_dangling (find_page_and_cell s) ob (bitmap_of s)"

definition gc_live :: "mutator \<Rightarrow> gc_state \<Rightarrow> addr \<Rightarrow> bool" where
  "gc_live m s = reachable (find_page_and_cell s) (object_at m)
     (set (root_pointers (find_page_and_cell s) (bitmap_of s) (gc_roots_of m s)))"

definition roots_safe :: "mutator \<Rightarrow> gc_state \<Rightarrow> bool" where
  "roots_safe m s \<longleftrightarrow>
     (\<forall>p\<in>set (root_pointers (find_page_and_cell s) (bitmap_of s) (gc_roots_of m s)).
        safe_pointer (find_page_and_cell s) (bitmap_of s) p)"

text \<open>Well-formedness and lookups do not depend on the colours.\<close>

lemma recolour_wf:
  assumes "heap_wf s" "\<And>c. IS_FREE (bm c) = IS_FREE (bitmap_of s c)"
  shows "heap_wf (s\<lparr>bitmap_of := bm, work_list := wl\<rparr>)"
proof -
  let ?s = "s\<lparr>bitmap_of := bm, work_list := wl\<rparr>"
  have "page_wf ?s start pa = page_wf s start pa" for start pa using assms(2) by (simp add: page_wf_def Let_def)
  moreover have "los_wf ?s l = los_wf s l" for l using assms(2) by (simp add: los_wf_def Let_def)
  moreover have "arena_pages ?s = arena_pages s" by (simp add: arena_pages_def)
  ultimately show ?thesis using assms(1) by (simp add: heap_wf_def arena_wf_def)
qed

lemma recolour_find: "find_page_and_cell (s\<lparr>bitmap_of := bm, work_list := wl\<rparr>) = find_page_and_cell s"
  by (rule ext) (simp add: find_page_and_cell_def find_page_and_cell_from_arena_def Let_def
      cong: option.case_cong if_cong)

lemma swap_masks:
  fixes s :: gc_state and b w :: uint8
  defines "s' \<equiv> s\<lparr>black_mask := b, white_mask := w\<rparr>"
  shows "find_page_and_cell s' = find_page_and_cell s" "heap_wf s' = heap_wf s"
proof -
  have "page_wf s' start pa = page_wf s start pa" for start pa by (simp add: page_wf_def Let_def s'_def)
  moreover have "los_wf s' l = los_wf s l" for l by (simp add: los_wf_def Let_def s'_def)
  moreover have "arena_pages s' = arena_pages s" by (simp add: arena_pages_def s'_def)
  ultimately show "heap_wf s' = heap_wf s" by (simp add: heap_wf_def arena_wf_def s'_def)
  show "find_page_and_cell s' = find_page_and_cell s"
    by (rule ext) (simp add: find_page_and_cell_def find_page_and_cell_from_arena_def Let_def s'_def
        cong: option.case_cong if_cong)
qed

lemma distinct_dead_cells:
  assumes wf: "heap_wf s" shows "distinct (dead_cells s)"
proof -
  have one: "distinct (dead_in_page s pa)" for pa
    by (simp add: dead_in_page_def distinct_map inj_on_def)
  have many: "distinct ps \<Longrightarrow> distinct (concat (map (dead_in_page s) ps))" for ps
  proof (induction ps)
    case (Cons pa ps)
    then have "q \<noteq> pa" if "q \<in> set ps" for q using that by auto
    then have "set (dead_in_page s pa) \<inter> set (concat (map (dead_in_page s) ps)) = {}"
      using dead_in_page_fst by (fastforce simp del: split_paired_All)
    with Cons one show ?case by simp
  qed simp
  show ?thesis
    using many[OF wf_distinct(1)[OF wf]] wf_distinct(2,3)[OF wf]
    by (auto simp: dead_cells_def distinct_map inj_on_def los_cell_def dest!: dead_in_page_fst)
qed

lemma cell_addr_inj: "heap_wf s \<Longrightarrow> inj_on (cell_addr s) {c. heap_cell s c}"
  by (rule inj_onI) (metis find_cell_iff mem_Collect_eq option.inject)

lemma distinct_dead_addrs:
  assumes wf: "heap_wf s" shows "distinct (map (cell_addr s) (dead_cells s))"
proof -
  have "set (dead_cells s) \<subseteq> {c. heap_cell s c}" using dead_cells_iff by blast
  then show ?thesis
    using distinct_dead_cells[OF wf] inj_on_subset[OF cell_addr_inj[OF wf]] by (simp add: distinct_map)
qed

lemma mark_heap:
  assumes ok: "gc_ok (object_at m) s" and roots: "roots_safe m s"
  obtains bm wl where "mark_phase (find_page_and_cell s) (object_at m) (white_mask s) (black_mask s)
      (gc_roots_of m s) (bitmap_of s, work_list s) = Some (bm, wl)" "segments wl = []"
    "\<And>c. IS_FREE (bm c) = IS_FREE (bitmap_of s c)"
    "\<And>c. \<lbrakk>heap_cell s c; IS_FREE (bitmap_of s c)\<rbrakk> \<Longrightarrow> bm c = CELL_FREE"
    "\<And>c. \<lbrakk>heap_cell s c; \<not> IS_FREE (bitmap_of s c)\<rbrakk> \<Longrightarrow>
       (IS_BLACK (black_mask s) (bm c) \<longleftrightarrow> gc_live m s (cell_addr s c)) \<and>
       (IS_WHITE (white_mask s) (bm c) \<longleftrightarrow> \<not> gc_live m s (cell_addr s c))"
proof -
  have wf: "heap_wf s" "masks (white_mask s) (black_mask s)" "segments (work_list s) = []"
    "cells_white (find_page_and_cell s) (white_mask s) (bitmap_of s)"
    "no_dangling (find_page_and_cell s) (object_at m) (bitmap_of s)"
    using ok by (simp_all add: gc_ok_def)
  obtain h where h: "Rep_wf_heap h = s" using wf(1,2) Abs_wf_heap_inverse[of s] by auto
  note cor = heap_cells.mark_phase_correct[of h "bitmap_of s" "work_list s" "object_at m" "gc_roots_of m s", unfolded h,
    OF wf(4,3,5) roots[unfolded roots_safe_def]]
  show thesis
  proof (rule cor, goal_cases)
    case (1 bm wl)
    show ?case
      by (rule that[OF 1(1,2,3)]) (use 1(4,5) in \<open>simp_all add: find_cell_iff[OF wf(1)] gc_live_def\<close>)
  qed
qed

lemma live_allocated:
  assumes ok: "gc_ok (object_at m) s" and roots: "roots_safe m s" and p: "gc_live m s p"
  shows "allocated s p"
  using p unfolding gc_live_def
proof (induction rule: reachable.induct)
  case (root p c)
  then show ?case using roots by (auto simp: roots_safe_def safe_pointer_def allocated_def)
next
  case (step p q d)
  have "no_dangling (find_page_and_cell s) (object_at m) (bitmap_of s)" using ok by (simp add: gc_ok_def)
  with step have "safe_pointer (find_page_and_cell s) (bitmap_of s) q"
    by (auto simp: no_dangling_def allocated_def)
  with step(3) show ?case by (auto simp: safe_pointer_def allocated_def)
qed

lemma sweep_after_mark:
  assumes ok: "gc_ok (object_at m) s" and roots: "roots_safe m s"
  obtains s' where "ejs_gc_collect m s = Some s'" "gc_ok (object_at m) s'"
    "white_mask s' = black_mask s" "black_mask s' = white_mask s"
    "\<And>p. allocated s' p \<longleftrightarrow> allocated s p \<and> gc_live m s p"
    "\<exists>dead. finalized s' = finalized s @ dead \<and> distinct dead \<and> set dead = {p. allocated s p \<and> \<not> gc_live m s p}"
    "root_set s' = root_set s" "root_mem s' = root_mem s"
proof -
  have wf: "heap_wf s" and msk: "masks (white_mask s) (black_mask s)"
    and nd: "no_dangling (find_page_and_cell s) (object_at m) (bitmap_of s)"
    using ok by (simp_all add: gc_ok_def)
  obtain bm wl where mark: "mark_phase (find_page_and_cell s) (object_at m) (white_mask s) (black_mask s)
      (gc_roots_of m s) (bitmap_of s, work_list s) = Some (bm, wl)" "segments wl = []"
    and free: "\<And>c. IS_FREE (bm c) = IS_FREE (bitmap_of s c)"
    and freec: "\<And>c. \<lbrakk>heap_cell s c; IS_FREE (bitmap_of s c)\<rbrakk> \<Longrightarrow> bm c = CELL_FREE"
    and col: "\<And>c. \<lbrakk>heap_cell s c; \<not> IS_FREE (bitmap_of s c)\<rbrakk> \<Longrightarrow>
       (IS_BLACK (black_mask s) (bm c) \<longleftrightarrow> gc_live m s (cell_addr s c)) \<and>
       (IS_WHITE (white_mask s) (bm c) \<longleftrightarrow> \<not> gc_live m s (cell_addr s c))"
    by (rule mark_heap[OF ok roots]) blast
  define s1 where "s1 = s\<lparr>bitmap_of := bm, work_list := wl\<rparr>"
  have wf1: "heap_wf s1" unfolding s1_def by (rule recolour_wf[OF wf free])
  have cell1: "heap_cell s1 = heap_cell s" "cell_addr s1 = cell_addr s" "arena_pages s1 = arena_pages s"
    by (auto simp: s1_def heap_cell_def cell_addr_def arena_pages_def fun_eq_iff)
  have dead: "c \<in> set (dead_cells s1) \<longleftrightarrow> heap_cell s c \<and> \<not> IS_FREE (bitmap_of s c) \<and> \<not> gc_live m s (cell_addr s c)" for c
  proof -
    have "doomed s1 c \<longleftrightarrow> \<not> IS_FREE (bm c) \<and> IS_WHITE (white_mask s) (bm c)"
      by (simp add: doomed_def s1_def)
    then show ?thesis using col[of c] free[of c] unfolding dead_cells_iff cell1 by blast
  qed
  obtain s2 where sw: "sweep_heap s1 = Some s2" "swept s1 (dead_cells s1) s2"
    "los_list s2 = filter (\<lambda>l. \<not> doomed s1 (los_cell l)) (los_list s1)"
    by (rule sweep_heap_swept[OF wf1])
  define s' where "s' = s2\<lparr>black_mask := white_mask s2, white_mask := black_mask s2\<rparr>"
  have wf2: "heap_wf s2" by (rule swept_heap_wf[OF wf1 sw(2,3)])
  have lay: "layout s2 = layout s1" using sw(2) by (simp add: swept_def)
  note l = layout_eqD[OF lay]
  note hc = swept_heap_cell[OF wf1 sw(2,3), unfolded cell1]
  have bm2: "bitmap_of s2 c = (if c \<in> set (dead_cells s1) then CELL_FREE else bm c)" for c
    using sw(2) by (simp add: swept_def s1_def)
  have find2: "find_page_and_cell s2 p = Some (Some c) \<longleftrightarrow> heap_cell s2 c \<and> p = cell_addr s c" for p c
    by (simp add: find_cell_iff[OF wf2] l cell1)
  have alloc2: "allocated s2 p \<longleftrightarrow> allocated s p \<and> gc_live m s p" for p
    unfolding allocated_def find2 find_cell_iff[OF wf] hc bm2 dead using free free_cell_colour(2) by auto
  have safe2: "safe_pointer (find_page_and_cell s2) (bitmap_of s2) q"
    if q: "safe_pointer (find_page_and_cell s) (bitmap_of s) q" "allocated s q \<Longrightarrow> gc_live m s q" for q
  proof -
    have "find_page_and_cell s q \<noteq> None" using q(1) by (auto simp: safe_pointer_def split: option.splits)
    then have "find_page_and_cell s2 q \<noteq> None"
      using layout_crash[OF lay] recolour_find by (simp add: s1_def)
    moreover have "\<not> IS_FREE (bitmap_of s2 d)" if d: "find_page_and_cell s2 q = Some (Some d)" for d
    proof -
      have "find_page_and_cell s q = Some (Some d)" using d find2 hc find_cell_iff[OF wf] by blast
      with q(1) have "allocated s q" by (auto simp: safe_pointer_def allocated_def)
      with q(2) alloc2 have "allocated s2 q" by blast
      with d show ?thesis by (auto simp: allocated_def)
    qed
    ultimately show ?thesis by (auto simp: safe_pointer_def split: option.splits)
  qed
  have nd2: "no_dangling (find_page_and_cell s2) (object_at m) (bitmap_of s2)"
    unfolding no_dangling_def
  proof (intro allI impI ballI)
    fix p c q assume "find_page_and_cell s2 p = Some (Some c)" "\<not> IS_FREE (bitmap_of s2 c)"
      and q: "q \<in> set (object_pointers (object_at m p))"
    then have "allocated s2 p" by (auto simp: allocated_def)
    then have p: "allocated s p" "gc_live m s p" using alloc2 by blast+
    then have "safe_pointer (find_page_and_cell s) (bitmap_of s) q" using nd q by (auto simp: no_dangling_def allocated_def)
    then show "safe_pointer (find_page_and_cell s2) (bitmap_of s2) q"
      by (rule safe2) (use p(2) q in \<open>auto simp: allocated_def gc_live_def intro: reachable.step\<close>)
  qed
  have white2: "cells_white (find_page_and_cell s2) (black_mask s) (bitmap_of s2)"
    unfolding cells_white_def
  proof (intro allI impI)
    fix p c assume "find_page_and_cell s2 p = Some (Some c)"
    then have c: "heap_cell s c" using find2 hc by blast
    show "bitmap_of s2 c = CELL_FREE \<or> \<not> IS_FREE (bitmap_of s2 c) \<and> IS_WHITE (black_mask s) (bitmap_of s2 c)"
    proof (cases "c \<in> set (dead_cells s1) \<or> IS_FREE (bitmap_of s c)")
      case False
      then have "IS_BLACK (black_mask s) (bm c)" using col[OF c] dead c by blast
      with False free show ?thesis by (auto simp: bm2 IS_WHITE_def IS_BLACK_def)
    qed (use freec[OF c] bm2 in auto)
  qed
  have fields: "white_mask s2 = white_mask s" "black_mask s2 = black_mask s" "work_list s2 = wl"
    "root_set s2 = root_set s" "root_mem s2 = root_mem s" using l(9-13) by (simp_all add: s1_def)
  have "gc_ok (object_at m) s'"
    using wf2 msk mark(2) white2 nd2 swap_masks
    by (auto simp: gc_ok_def s'_def fields masks_def)
  moreover have "ejs_gc_collect m s = Some s'"
    using mark(1) sw(1) by (simp add: ejs_gc_collect_def ejs_gc_collect_inner_def s1_def s'_def Let_def)
  moreover have "allocated s' p \<longleftrightarrow> allocated s p \<and> gc_live m s p" for p
    using alloc2 swap_masks by (simp add: allocated_def s'_def)
  moreover have "finalized s' = finalized s @ map (cell_addr s) (dead_cells s1) \<and>
      distinct (map (cell_addr s) (dead_cells s1)) \<and>
      set (map (cell_addr s) (dead_cells s1)) = {p. allocated s p \<and> \<not> gc_live m s p}"
  proof (intro conjI)
    show "finalized s' = finalized s @ map (cell_addr s) (dead_cells s1)"
      using sw(2) cell1(2) by (simp add: swept_def s'_def s1_def)
    show "distinct (map (cell_addr s) (dead_cells s1))"
      using distinct_dead_addrs[OF wf1] cell1(2) by simp
    show "set (map (cell_addr s) (dead_cells s1)) = {p. allocated s p \<and> \<not> gc_live m s p}"
      using dead find_cell_iff[OF wf] by (auto simp: allocated_def)
  qed
  ultimately show thesis using that[of s'] fields by (auto simp: s'_def)
qed

section \<open>The properties of the collector\<close>

text \<open>C1: a collection.  The heap is well formed (gc_ok: pages, bitmaps and lists agree, every object is
  white, no object refers to a freed cell), and no root makes the lookup crash or leads to a freed cell (roots_safe:
  no scanned word points into the first page of an arena before that page is handed out, the crash of
  pointer_lookup_exact, and the values of module objects lead to allocated cells or out of the heap).  Then the
  collection ends without aborting and frees exactly the garbage: afterwards a pointer leads to an allocated cell if
  and only if it did before and is reachable from the registered roots, the module objects, and the words of
  registers and stack, the last word of each of the two ranges excepted, which the loops leave out; every
  unreachable object is finalised once and no other object is; and the invariant holds again, with the colours
  exchanged, so the next collection can start.\<close>

theorem collect_frees_exactly_garbage:
  assumes "gc_ok (object_at m) s" "roots_safe m s"
  shows "\<exists>s' dead. ejs_gc_collect m s = Some s' \<and> gc_ok (object_at m) s' \<and>
           white_mask s' = black_mask s \<and> black_mask s' = white_mask s \<and>
           (\<forall>p. allocated s' p \<longleftrightarrow> allocated s p \<and> gc_live m s p) \<and>
           finalized s' = finalized s @ dead \<and> distinct dead \<and>
           set dead = {p. allocated s p \<and> \<not> gc_live m s p}"
proof -
  obtain s' where "ejs_gc_collect m s = Some s'" "gc_ok (object_at m) s'"
    "white_mask s' = black_mask s" "black_mask s' = white_mask s"
    "\<And>p. allocated s' p \<longleftrightarrow> allocated s p \<and> gc_live m s p"
    "\<exists>dead. finalized s' = finalized s @ dead \<and> distinct dead \<and> set dead = {p. allocated s p \<and> \<not> gc_live m s p}"
    by (rule sweep_after_mark[OF assms]) blast
  then show ?thesis by blast
qed

text \<open>A heap of one page of 32 cells of 128 bytes, two of them in use; the root refers to the first.\<close>

definition sample_heap :: gc_state where
  "sample_heap = empty_gc_state
     \<lparr>heap_arenas := [33554432],
      arena_at := (\<lambda>_. \<lparr>arena_end = 67108864, arena_pos = 33693696, free_pages = None, page_infos = [7]\<rparr>),
      page_at := (\<lambda>_. \<lparr>bump_ptr = 33689856, page_start = 33689600, page_end = 33693696, los_info = None,
                        cell_size = 128, num_cells = 32, num_free_cells = 30\<rparr>),
      bitmap_of := (\<lambda>(pa, i). if i < 2 then 0 else CELL_FREE),
      root_set := [8], root_mem := (\<lambda>_. EJSVAL_SHIFTED_TAG_OBJECT OR 33689600)\<rparr>"

definition sample_mutator :: mutator where
  "sample_mutator = \<lparr>module_vals = [], registers = [], stack = [], object_at = \<lambda>_. ObjectCell []\<rparr>"

lemma sample_heap_wf: "heap_wf sample_heap"
proof -
  have "{i. i < 32 \<and> IS_FREE (if i < (2::nat) then 0 else CELL_FREE)} = {2..<32}"
    by (auto simp: IS_FREE_def CELL_FREE_def)
  then have "page_wf sample_heap 33689600 7"
    by (auto simp: page_wf_def sample_heap_def empty_gc_state_def sizes IS_FREE_def CELL_FREE_def intro!: exI[of _ 2])
  then show ?thesis
    by (simp add: heap_wf_def arena_wf_def arena_pages_def sizes sample_heap_def empty_gc_state_def)
qed

lemma sample_heap_cell: "heap_cell sample_heap c \<longleftrightarrow> fst c = 7 \<and> snd c < 32"
  by (auto simp: heap_cell_def arena_pages_def sample_heap_def empty_gc_state_def)

lemma sample_heap_fields:
  "bitmap_of sample_heap c = (if snd c < 2 then 0 else CELL_FREE)"
  "white_mask sample_heap = CELL_WHITE_MASK_START" "black_mask sample_heap = CELL_BLACK_MASK_START"
  "segments (work_list sample_heap) = []" "cell_addr sample_heap (7, i) = 33689600 + i * 128"
  by (cases c) (simp_all add: sample_heap_def empty_gc_state_def ejs_gc_worklist_init_def cell_addr_def)

lemma sample_gc_ok: "gc_ok (object_at sample_mutator) sample_heap"
proof -
  have "cells_white (find_page_and_cell sample_heap) CELL_WHITE_MASK_START (bitmap_of sample_heap)"
    by (simp add: cells_white_def sample_heap_fields colour_defs)
  moreover have "no_dangling (find_page_and_cell sample_heap) (object_at sample_mutator) (bitmap_of sample_heap)"
    by (simp add: no_dangling_def sample_mutator_def object_pointers_def value_pointers_def)
  ultimately show ?thesis by (simp add: gc_ok_def sample_heap_wf sample_heap_fields masks_def)
qed

lemma sample_find:
  "find_page_and_cell sample_heap 33689600 = Some (Some (7, 0))"
  "find_page_and_cell sample_heap 33689728 = Some (Some (7, 1))"
  by (simp_all add: find_cell_iff[OF sample_heap_wf] sample_heap_cell sample_heap_fields)

lemma sample_roots:
  "root_pointers (find_page_and_cell sample_heap) (bitmap_of sample_heap) (gc_roots_of sample_mutator sample_heap) = [33689600]"
proof -
  have "root_values (gc_roots_of sample_mutator sample_heap) = [EJSVAL_SHIFTED_TAG_OBJECT OR 33689600]"
    "module_values (gc_roots_of sample_mutator sample_heap) = []"
    "register_words (gc_roots_of sample_mutator sample_heap) = []"
    "stack_words (gc_roots_of sample_mutator sample_heap) = []"
    by (simp_all add: gc_roots_of_def sample_heap_def sample_mutator_def empty_gc_state_def)
  moreover have "gcthing_words [EJSVAL_SHIFTED_TAG_OBJECT OR 33689600] = [33689600]"
    by (simp add: gcthing_words_def EJSVAL_IS_GCTHING_IMPL_def EJSVAL_TO_GCTHING_IMPL_def tag_defs)
  ultimately show ?thesis
    by (simp add: root_pointers_def candidates_def gcthing_words_def points_to_free_def sample_find sample_heap_fields
        IS_FREE_def CELL_FREE_def)
qed

lemma sample_live: "gc_live sample_mutator sample_heap p \<longleftrightarrow> p = 33689600"
proof
  assume "gc_live sample_mutator sample_heap p"
  then show "p = 33689600" unfolding gc_live_def sample_roots
    by (induction rule: reachable.induct)
      (auto simp: sample_mutator_def object_pointers_def value_pointers_def)
qed (auto simp: gc_live_def sample_roots sample_find intro: reachable.root)

theorem collect_frees_exactly_garbage_witness:
  "\<exists>s'. ejs_gc_collect sample_mutator sample_heap = Some s' \<and> gc_ok (object_at sample_mutator) s' \<and>
     allocated sample_heap 33689600 \<and> allocated sample_heap 33689728 \<and>
     allocated s' 33689600 \<and> \<not> allocated s' 33689728"
proof -
  have "roots_safe sample_mutator sample_heap"
    by (simp add: roots_safe_def sample_roots safe_pointer_def sample_find sample_heap_fields IS_FREE_def CELL_FREE_def)
  moreover have "allocated sample_heap 33689600" "allocated sample_heap 33689728"
    by (simp_all add: allocated_def sample_find sample_heap_fields IS_FREE_def CELL_FREE_def)
  ultimately show ?thesis
    using collect_frees_exactly_garbage[OF sample_gc_ok] sample_live by auto
qed

text \<open>C25: shutting down finalises every object once, leaves no cell allocated, and empties the root
  set after setting every root to null.\<close>

theorem shutdown_frees_everything:
  assumes "gc_ok ob s" "0 \<notin> set (root_set s)"
  shows "\<exists>s' dead. ejs_gc_shutdown m s = Some s' \<and> (\<forall>p. \<not> allocated s' p) \<and>
           finalized s' = finalized s @ dead \<and> distinct dead \<and> set dead = {p. allocated s p} \<and>
           root_set s' = [] \<and> (\<forall>r \<in> set (root_set s). root_mem s' r = BUILD_EJSVAL EJSVAL_TAG_NULL 0)"
proof -
  have wf: "heap_wf s" and white: "cells_white (find_page_and_cell s) (white_mask s) (bitmap_of s)"
    using assms(1) by (simp_all add: gc_ok_def)
  obtain s2 where sw: "sweep_heap s = Some s2" "swept s (dead_cells s) s2"
    "los_list s2 = filter (\<lambda>l. \<not> doomed s (los_cell l)) (los_list s)"
    by (rule sweep_heap_swept[OF wf])
  have wf2: "heap_wf s2" by (rule swept_heap_wf[OF wf sw(2,3)])
  have lay: "layout s2 = layout s" using sw(2) by (simp add: swept_def)
  have dead: "c \<in> set (dead_cells s) \<longleftrightarrow> heap_cell s c \<and> \<not> IS_FREE (bitmap_of s c)" for c
    using white free_cell_colour(2) unfolding dead_cells_iff doomed_def cells_white_def find_cell_iff[OF wf] by metis
  have free2: "IS_FREE (bitmap_of s2 c)" if "heap_cell s2 c" for c
    using that sw(2) dead swept_heap_cell[OF wf sw(2,3)] by (auto simp: swept_def free_cell_colour)
  define s' where "s' = s2\<lparr>black_mask := white_mask s2, white_mask := black_mask s2,
    root_mem := (\<lambda>r. if r \<in> set (root_set s2) then BUILD_EJSVAL EJSVAL_TAG_NULL 0 else root_mem s2 r), root_set := []\<rparr>"
  have find': "find_page_and_cell s' = find_page_and_cell s2"
    by (rule ext) (simp add: s'_def find_page_and_cell_def find_page_and_cell_from_arena_def Let_def
        cong: option.case_cong if_cong)
  have "ejs_gc_shutdown m s = Some s'"
    using sw(1) assms(2) layout_eqD(12)[OF lay]
    by (simp add: ejs_gc_shutdown_def ejs_gc_collect_inner_def Let_def s'_def cong: if_cong)
  moreover have "\<not> allocated s' p" for p
    using free2 by (auto simp: allocated_def find' find_cell_iff[OF wf2]) (auto simp: s'_def)
  moreover have "finalized s' = finalized s @ map (cell_addr s) (dead_cells s)"
    using sw(2) by (simp add: swept_def s'_def)
  moreover note distinct_dead_addrs[OF wf]
  moreover have "set (map (cell_addr s) (dead_cells s)) = {p. allocated s p}"
    using dead find_cell_iff[OF wf] by (auto simp: allocated_def)
  moreover have "root_set s' = [] \<and> (\<forall>r \<in> set (root_set s). root_mem s' r = BUILD_EJSVAL EJSVAL_TAG_NULL 0)"
    using layout_eqD(12)[OF lay] by (simp add: s'_def)
  ultimately show ?thesis by blast
qed

theorem shutdown_frees_everything_witness:
  "\<exists>s'. ejs_gc_shutdown sample_mutator sample_heap = Some s' \<and> \<not> allocated s' 33689600 \<and>
     allocated sample_heap 33689600 \<and> root_mem s' 8 = BUILD_EJSVAL EJSVAL_TAG_NULL 0"
proof -
  have "root_set sample_heap = [8]" by (simp add: sample_heap_def)
  moreover have "allocated sample_heap 33689600"
    by (simp add: allocated_def sample_find sample_heap_fields IS_FREE_def CELL_FREE_def)
  ultimately show ?thesis
    using shutdown_frees_everything[OF sample_gc_ok, of sample_mutator] by auto
qed

section \<open>Allocation\<close>

text \<open>Setting one cell of a page in use: what \<open>alloc_from_page\<close> does to the state.\<close>

definition took_cell :: "gc_state \<Rightarrow> cell \<Rightarrow> gc_state \<Rightarrow> bool" where
  "took_cell s c s' \<longleftrightarrow> heap_arenas s' = heap_arenas s \<and> arena_at s' = arena_at s \<and> los_list s' = los_list s \<and>
     white_mask s' = white_mask s \<and> black_mask s' = black_mask s \<and> work_list s' = work_list s \<and>
     bitmap_of s' = (bitmap_of s)(c := SET_WHITE (white_mask s) (SET_ALLOCATED (bitmap_of s c))) \<and>
     (\<forall>q. q \<noteq> fst c \<longrightarrow> page_at s' q = page_at s q) \<and>
     (\<exists>b. page_at s' (fst c) = page_at s (fst c)\<lparr>bump_ptr := b, num_free_cells := num_free_cells (page_at s (fst c)) - 1\<rparr>)"

lemma alloc_colour:
  assumes "masks w b"
  shows "\<not> IS_FREE (SET_WHITE w (SET_ALLOCATED x))" "IS_WHITE w (SET_WHITE w (SET_ALLOCATED x))"
proof -
  have "(x AND NOT 4) AND 4 = 0" by (simp only: and.assoc) simp
  then show "\<not> IS_FREE (SET_WHITE w (SET_ALLOCATED x))"
    using colour_after_white(2)[OF assms] by (simp add: IS_FREE_def SET_ALLOCATED_def CELL_FREE_def)
  show "IS_WHITE w (SET_WHITE w (SET_ALLOCATED x))" by (rule colour_after_white(1)[OF assms])
qed

lemma alloc_from_page_takes:
  assumes pw: "page_wf s start pa" and dvd: "4096 dvd start" and nz: "start \<noteq> 0"
    and nf: "num_free_cells (page_at s pa) > 0"
  obtains i s' where "alloc_from_page pa s = Some (cell_addr s (pa, i), s')" "i < num_cells (page_at s pa)"
    "IS_FREE (bitmap_of s (pa, i))" "took_cell s (pa, i) s'"
    "bump_ptr (page_at s' pa) = 0 \<or> (\<exists>k > i. k + 1 < num_cells (page_at s pa) \<and>
       bump_ptr (page_at s' pa) = start + k * cell_size (page_at s pa) \<and>
       (\<forall>j. k \<le> j \<and> j < num_cells (page_at s pa) \<longrightarrow> IS_FREE (bitmap_of s (pa, j))))"
proof (cases "bump_ptr (page_at s pa) = 0")
  case True
  let ?n = "num_cells (page_at s pa)"
  have "card {i. i < ?n \<and> IS_FREE (bitmap_of s (pa, i))} > 0" using nf pw by (simp add: page_wf_def Let_def)
  then have "{i. i < ?n \<and> IS_FREE (bitmap_of s (pa, i))} \<noteq> {}" by (metis card.empty less_irrefl)
  then obtain i where i: "List.find (\<lambda>c. IS_FREE (bitmap_of s (pa, c))) [0..<?n] = Some i"
    by (cases "List.find (\<lambda>c. IS_FREE (bitmap_of s (pa, c))) [0..<?n]") (auto simp: find_None_iff)
  then have "i < ?n" "IS_FREE (bitmap_of s (pa, i))" by (auto simp: find_Some_iff)
  moreover have "page_start (page_at s pa) \<noteq> 0" using nz page_wfD(1)[OF pw] by simp
  moreover have "\<exists>b. page_at s pa\<lparr>num_free_cells := n\<rparr> = page_at s pa\<lparr>bump_ptr := b, num_free_cells := n\<rparr>" for n
    using True by (cases "page_at s pa") (auto intro: exI[of _ 0])
  ultimately show thesis
    using that[of i] True nf i by (auto simp: alloc_from_page_def Let_def took_cell_def cell_addr_def)
next
  case False
  let ?cs = "cell_size (page_at s pa)" and ?n = "num_cells (page_at s pa)"
  obtain k where k: "k + 1 < ?n" "bump_ptr (page_at s pa) = start + k * ?cs"
    "\<And>i. k \<le> i \<Longrightarrow> i < ?n \<Longrightarrow> IS_FREE (bitmap_of s (pa, i))"
    using pw False by (auto simp: page_wf_def Let_def)
  note lay = page_layout[OF pw dvd]
  have "8 dvd start" by (rule dvd_trans[OF _ dvd]) simp
  moreover have "8 dvd ?cs" using cell_size_cases[OF pw] by (cases; simp)
  ultimately have "8 dvd bump_ptr (page_at s pa)" using k(2) by simp
  then have al: "EJS_ALIGN (bump_ptr (page_at s pa)) 8 = bump_ptr (page_at s pa)"
    by (auto simp: EJS_ALIGN_def elim!: dvdE)
  have cell: "(bump_ptr (page_at s pa) - page_start (page_at s pa)) div ?cs = k"
    using k(2) page_wfD(1)[OF pw] lay(2) by simp
  have addr: "bump_ptr (page_at s pa) = cell_addr s (pa, k)" using k(2) page_wfD(1)[OF pw] by (simp add: cell_addr_def)
  have pend: "page_end (page_at s pa) = start + ?n * ?cs"
  proof -
    have "CELLS_OF_SIZE ?cs * ?cs = PAGE_SIZE" by (rule cell_size_cases[OF pw]) (simp_all add: sizes)
    then show ?thesis using pw by (simp add: page_wf_def Let_def)
  qed
  define b where "b = (if bump_ptr (page_at s pa) + ?cs + ?cs \<ge> page_end (page_at s pa) then 0 else bump_ptr (page_at s pa) + ?cs)"
  have nxt: "b = 0 \<or> (\<exists>k' > k. k' + 1 < ?n \<and> b = start + k' * ?cs \<and>
      (\<forall>j. k' \<le> j \<and> j < ?n \<longrightarrow> IS_FREE (bitmap_of s (pa, j))))"
  proof (cases "bump_ptr (page_at s pa) + ?cs + ?cs \<ge> page_end (page_at s pa)")
    case False
    then have "(k + 2) * ?cs < ?n * ?cs" using k(2) pend by (simp add: algebra_simps)
    then have "k + 2 < ?n" by (simp only: mult_less_cancel2)
    with False k show ?thesis by (intro disjI2 exI[of _ "k + 1"]) (simp add: b_def)
  qed (simp add: b_def)
  show thesis
    using that[of k] k(1) k(3)[of k] nxt False nf al addr cell
    by (auto simp: alloc_from_page_def Let_def took_cell_def b_def split: if_splits)
qed

lemma took_cell_find:
  assumes t: "took_cell s c s'"
  shows "find_page_and_cell s' = find_page_and_cell s" "heap_cell s' = heap_cell s" "arena_pages s' = arena_pages s"
    "cell_addr s' = cell_addr s"
proof -
  obtain b where b: "page_at s' (fst c) = page_at s (fst c)\<lparr>bump_ptr := b, num_free_cells := num_free_cells (page_at s (fst c)) - 1\<rparr>"
    using t by (auto simp: took_cell_def)
  have same: "page_start (page_at s' q) = page_start (page_at s q)" "cell_size (page_at s' q) = cell_size (page_at s q)"
    "num_cells (page_at s' q) = num_cells (page_at s q)" for q
    using t b by (cases "q = fst c"; simp add: took_cell_def)+
  have rest: "heap_arenas s' = heap_arenas s" "arena_at s' = arena_at s" "los_list s' = los_list s"
    using t by (simp_all add: took_cell_def)
  show "find_page_and_cell s' = find_page_and_cell s"
    by (rule ext) (simp add: find_page_and_cell_def find_page_and_cell_from_arena_def Let_def same rest
        cong: option.case_cong if_cong)
  show "arena_pages s' = arena_pages s" by (simp add: arena_pages_def rest)
  then show "heap_cell s' = heap_cell s" by (auto simp: heap_cell_def same rest fun_eq_iff)
  show "cell_addr s' = cell_addr s" by (auto simp: cell_addr_def same fun_eq_iff)
qed

lemma took_cell_page_wf:
  assumes t: "took_cell s (pa, i) s'" and pw: "page_wf s start pa" and msk: "masks (white_mask s) (black_mask s)"
    and i: "i < num_cells (page_at s pa)" "IS_FREE (bitmap_of s (pa, i))"
    and bump: "bump_ptr (page_at s' pa) = 0 \<or> (\<exists>k > i. k + 1 < num_cells (page_at s pa) \<and>
       bump_ptr (page_at s' pa) = start + k * cell_size (page_at s pa) \<and>
       (\<forall>j. k \<le> j \<and> j < num_cells (page_at s pa) \<longrightarrow> IS_FREE (bitmap_of s (pa, j))))"
  shows "page_wf s' start pa"
proof -
  let ?F = "{j. j < num_cells (page_at s pa) \<and> IS_FREE (bitmap_of s (pa, j))}"
  obtain b where b: "page_at s' pa = page_at s pa\<lparr>bump_ptr := b, num_free_cells := num_free_cells (page_at s pa) - 1\<rparr>"
    using t by (auto simp: took_cell_def)
  have bm: "bitmap_of s' (pa, j) = (if j = i then SET_WHITE (white_mask s) (SET_ALLOCATED (bitmap_of s (pa, i)))
      else bitmap_of s (pa, j))" for j
    using t by (simp add: took_cell_def)
  have "{j. j < num_cells (page_at s pa) \<and> IS_FREE (bitmap_of s' (pa, j))} = ?F - {i}"
    using alloc_colour(1)[OF msk] by (auto simp: bm)
  moreover have "card (?F - {i}) = card ?F - 1" using i by simp
  ultimately have cnt: "card {j. j < num_cells (page_at s pa) \<and> IS_FREE (bitmap_of s' (pa, j))} = card ?F - 1" by simp
  have "bump_ptr (page_at s' pa) = 0 \<or> (\<exists>k. k + 1 < num_cells (page_at s pa) \<and>
       bump_ptr (page_at s' pa) = start + k * cell_size (page_at s pa) \<and>
       (\<forall>j. k \<le> j \<and> j < num_cells (page_at s pa) \<longrightarrow> IS_FREE (bitmap_of s' (pa, j))))"
    using bump by (fastforce simp: bm)
  with pw cnt b show ?thesis by (simp add: page_wf_def Let_def)
qed

lemma took_cell_wf:
  assumes wf: "heap_wf s" and t: "took_cell s (pa, i) s'" and msk: "masks (white_mask s) (black_mask s)"
    and pa: "pa \<in> set (arena_pages s)" and new: "\<And>start. page_wf s start pa \<Longrightarrow> page_wf s' start pa"
  shows "heap_wf s'"
proof -
  note same = took_cell_find[OF t]
  have other: "page_wf s' start q = page_wf s start q" if "q \<noteq> pa" for start q
    using t that by (simp add: took_cell_def page_wf_def Let_def)
  have los: "lobj_page l \<noteq> pa" if "l \<in> set (los_list s)" for l using wf_distinct(3)[OF wf that] pa by metis
  have fields: "heap_arenas s' = heap_arenas s" "arena_at s' = arena_at s" "los_list s' = los_list s"
    "\<And>q. q \<noteq> pa \<Longrightarrow> page_at s' q = page_at s q" "\<And>q j. q \<noteq> pa \<Longrightarrow> bitmap_of s' (q, j) = bitmap_of s (q, j)"
    using t by (simp_all add: took_cell_def)
  have "page_wf s' start q" if "page_wf s start q" for start q using new other that by (cases "q = pa") auto
  then have "arena_wf s' a" if "a \<in> set (heap_arenas s)" for a
    using wf that by (auto simp: heap_wf_def arena_wf_def fields(2))
  moreover have "los_wf s' l" if "l \<in> set (los_list s)" for l
    using wf that los[OF that] by (simp add: heap_wf_def los_wf_def Let_def fields)
  moreover have "distinct (map (\<lambda>l. page_start (page_at s' (lobj_page l))) (los_list s))"
  proof -
    have eq: "map (\<lambda>l. page_start (page_at s' (lobj_page l))) (los_list s) =
        map (\<lambda>l. page_start (page_at s (lobj_page l))) (los_list s)"
      using los fields(4) by (intro map_cong) auto
    show ?thesis unfolding eq using wf by (simp add: heap_wf_def)
  qed
  ultimately show ?thesis using wf by (simp add: heap_wf_def fields(1,3) same(3))
qed

text \<open>C2: allocating from a page with a free cell succeeds, whether through the bump pointer or through
  the bitmap.  The object it returns was not allocated before, is allocated and white afterwards, is a
  whole cell of the page, no other object changes, and the heap stays well formed.\<close>

theorem alloc_from_page_fresh:
  assumes "heap_wf s" "masks (white_mask s) (black_mask s)" "pa \<in> set (arena_pages s)"
    and "num_free_cells (page_at s pa) > 0"
    and "cells_white (find_page_and_cell s) (white_mask s) (bitmap_of s)"
  shows "\<exists>rv s' i. alloc_from_page pa s = Some (rv, s') \<and> i < num_cells (page_at s pa) \<and>
           rv = page_start (page_at s pa) + i * cell_size (page_at s pa) \<and>
           \<not> allocated s rv \<and> (\<forall>p. allocated s' p \<longleftrightarrow> allocated s p \<or> p = rv) \<and> heap_wf s' \<and>
           cells_white (find_page_and_cell s') (white_mask s') (bitmap_of s')"
proof -
  note wf = assms(1) and msk = assms(2) and pa = assms(3)
  obtain a j where aj: "a \<in> set (heap_arenas s)" "j < length (page_infos (arena_at s a))" "pa = page_infos (arena_at s a) ! j"
    using pa by (auto simp: arena_pages_def in_set_conv_nth)
  note pw = arena_page_at[OF wf aj(1,2), folded aj(3)]
  have nz: "a + ARENA_HEADER + j * PAGE_SIZE \<noteq> 0" by (simp add: ARENA_HEADER_def)
  obtain i s' where al: "alloc_from_page pa s = Some (cell_addr s (pa, i), s')" "i < num_cells (page_at s pa)"
    "IS_FREE (bitmap_of s (pa, i))" "took_cell s (pa, i) s'"
    and bump: "bump_ptr (page_at s' pa) = 0 \<or> (\<exists>k > i. k + 1 < num_cells (page_at s pa) \<and>
       bump_ptr (page_at s' pa) = (a + ARENA_HEADER + j * PAGE_SIZE) + k * cell_size (page_at s pa) \<and>
       (\<forall>j. k \<le> j \<and> j < num_cells (page_at s pa) \<longrightarrow> IS_FREE (bitmap_of s (pa, j))))"
    by (rule alloc_from_page_takes[OF pw(1,2) nz assms(4)])
  note same = took_cell_find[OF al(4)]
  have cell: "heap_cell s (pa, i)" using pa al(2) by (simp add: heap_cell_def)
  have bm: "bitmap_of s' = (bitmap_of s)((pa, i) := SET_WHITE (white_mask s) (SET_ALLOCATED (bitmap_of s (pa, i))))"
    using al(4) by (simp add: took_cell_def)
  have start: "start = a + ARENA_HEADER + j * PAGE_SIZE" if "page_wf s start pa" for start
    using page_wfD(1)[OF that] page_wfD(1)[OF pw(1)] by simp
  have "heap_wf s'"
    by (rule took_cell_wf[OF wf al(4) msk pa])
       (use start took_cell_page_wf[OF al(4) pw(1) msk al(2,3) bump] in blast)
  moreover have "cells_white (find_page_and_cell s') (white_mask s') (bitmap_of s')"
    using assms(5) alloc_colour[OF msk] al(4) by (auto simp: cells_white_def same bm took_cell_def)
  moreover have "\<not> allocated s (cell_addr s (pa, i))"
    using al(3) cell cell_addr_inj[OF wf] by (auto simp: allocated_def find_cell_iff[OF wf] inj_on_def)
  moreover have "allocated s' p \<longleftrightarrow> allocated s p \<or> p = cell_addr s (pa, i)" for p
  proof (cases "p = cell_addr s (pa, i)")
    case True
    then have "find_page_and_cell s' p = Some (Some (pa, i))" using cell by (simp add: same find_cell_iff[OF wf])
    with True alloc_colour(1)[OF msk] show ?thesis by (auto simp: allocated_def bm)
  next
    case False
    then have "c \<noteq> (pa, i)" if "find_page_and_cell s p = Some (Some c)" for c
      using that by (auto simp: find_cell_iff[OF wf])
    with False show ?thesis by (auto simp: allocated_def same bm)
  qed
  ultimately show ?thesis using al(1,2) by (auto simp: cell_addr_def)
qed

theorem alloc_from_page_fresh_witness:
  "\<exists>rv s' i. alloc_from_page 7 sample_heap = Some (rv, s') \<and> i < 32 \<and> rv = 33689600 + i * 128 \<and>
     \<not> allocated sample_heap rv \<and> allocated s' rv \<and> allocated s' 33689600"
proof -
  have al: "allocated sample_heap 33689600"
    by (simp add: allocated_def sample_find sample_heap_fields IS_FREE_def CELL_FREE_def)
  have pg: "page_start (page_at sample_heap 7) = 33689600" "cell_size (page_at sample_heap 7) = 128"
    "num_cells (page_at sample_heap 7) = 32" "num_free_cells (page_at sample_heap 7) = 30"
    "7 \<in> set (arena_pages sample_heap)"
    by (simp_all add: sample_heap_def empty_gc_state_def arena_pages_def)
  have ok: "masks (white_mask sample_heap) (black_mask sample_heap)"
    "cells_white (find_page_and_cell sample_heap) (white_mask sample_heap) (bitmap_of sample_heap)"
    using sample_gc_ok by (simp_all add: gc_ok_def)
  show ?thesis
    using alloc_from_page_fresh[OF sample_heap_wf ok(1) pg(5) _ ok(2)] al by (auto simp: pg)
qed

section \<open>Lookups and sizes\<close>

text \<open>C3: on a well-formed heap \<open>find_page_and_cell\<close> maps exactly the addresses of cells to their cells,
  and rejects every other pointer; but a pointer into the first page of an arena that has not been handed
  out yet passes the bounds check \<open>page_index > num_pages\<close> and crashes the lookup.\<close>

theorem pointer_lookup_exact:
  assumes wf: "heap_wf s"
  shows "(\<forall>c. find_page_and_cell s p = Some (Some c) \<longleftrightarrow> heap_cell s c \<and> p = cell_addr s c) \<and>
         (find_page_and_cell s p = None \<longleftrightarrow>
            PTR_TO_ARENA p \<in> set (heap_arenas s) \<and>
            ARENA_HEADER \<le> p mod ARENA_SIZE \<and>
            (p mod ARENA_SIZE - ARENA_HEADER) div PAGE_SIZE = length (page_infos (arena_at s (PTR_TO_ARENA p))))"
proof (intro conjI allI)
  show "find_page_and_cell s p = Some (Some c) \<longleftrightarrow> heap_cell s c \<and> p = cell_addr s c" for c
    by (rule find_cell_iff[OF wf])
  let ?a = "PTR_TO_ARENA p" and ?i = "(p mod ARENA_SIZE - ARENA_HEADER) div PAGE_SIZE"
  let ?infos = "page_infos (arena_at s (PTR_TO_ARENA p))"
  consider "?a \<notin> set (heap_arenas s)" | "?a \<in> set (heap_arenas s)" "p mod ARENA_SIZE < ARENA_HEADER"
    | "?a \<in> set (heap_arenas s)" "ARENA_HEADER \<le> p mod ARENA_SIZE" by linarith
  then show "find_page_and_cell s p = None \<longleftrightarrow>
      ?a \<in> set (heap_arenas s) \<and> ARENA_HEADER \<le> p mod ARENA_SIZE \<and> ?i = length ?infos"
  proof cases
    case 1
    then show ?thesis using los_lookup[OF wf] by (simp add: find_page_and_cell_from_arena_def)
  next
    case 2
    then show ?thesis using arena_lookup[OF wf] page_index_in_header[of p]
      by (simp add: find_page_and_cell_from_arena_def Let_def)
  next
    case 3
    note idx = page_index_in_pages[OF 3(2)]
    have "find_page_and_cell s p \<noteq> None" if i: "?i < length ?infos"
    proof -
      note pw = arena_page_at[OF wf 3(1) i]
      define d where "d = p - (?a + ARENA_HEADER + ?i * PAGE_SIZE)"
      have "p mod ARENA_SIZE - ARENA_HEADER - ?i * PAGE_SIZE < 4096"
        using mod_less_divisor[of 4096 "p mod ARENA_SIZE - ARENA_HEADER"]
        by (simp add: PAGE_SIZE_def minus_div_mult_eq_mod)
      moreover have "d = p mod ARENA_SIZE - ARENA_HEADER - ?i * PAGE_SIZE"
        using PTR_TO_ARENA_split(1)[of p] by (simp add: d_def)
      ultimately have "d < 4096" by simp
      from page_layout(4)[OF pw(1,2) this] show ?thesis
        using arena_lookup[OF wf 3(1)] idx i page_wfD(1)[OF pw(1)]
        by (simp add: find_page_and_cell_from_arena_def Let_def d_def)
    qed
    moreover have "find_page_and_cell s p = None" if "?i = length ?infos"
      using that arena_lookup[OF wf 3(1)] idx by (simp add: find_page_and_cell_from_arena_def Let_def)
    moreover have "find_page_and_cell s p \<noteq> None" if "?i > length ?infos"
      using that arena_lookup[OF wf 3(1)] idx by (simp add: find_page_and_cell_from_arena_def Let_def)
    ultimately show ?thesis using 3 nat_neq_iff by blast
  qed
qed

theorem pointer_lookup_exact_witness:
  "find_page_and_cell sample_heap 33689728 = Some (Some (7, 1)) \<and> find_page_and_cell sample_heap 33693696 = None"
proof -
  have "PTR_TO_ARENA 33693696 \<in> set (heap_arenas sample_heap)"
    "length (page_infos (arena_at sample_heap (PTR_TO_ARENA 33693696))) = 1"
    by (simp_all add: sample_heap_def PTR_TO_ARENA_def sizes)
  then show ?thesis
    using pointer_lookup_exact[OF sample_heap_wf, of 33693696] pointer_lookup_exact[OF sample_heap_wf, of 33689728]
    by (simp add: sizes sample_heap_cell sample_heap_fields)
qed

text \<open>\<open>pow2_ceil\<close> computes the least power of two not below its argument for every size from 1 to
  \<open>2 ^ 32\<close>; beyond, the last smearing step is missing (it is compiled only when \<open>SIZEOF_PTR\<close> is 8, and the
  macro is defined nowhere) and the result need not be a power of two.\<close>

theorem pow2_ceil_least:
  "(\<forall>x. 1 \<le> unat x \<and> unat x \<le> 2 ^ 32 \<longrightarrow>
      (\<exists>k. unat (pow2_ceil x) = 2 ^ k \<and> unat x \<le> 2 ^ k \<and> (\<forall>j. unat x \<le> 2 ^ j \<longrightarrow> k \<le> j)))
   \<and> pow2_ceil 0x10000000001 = 0x1FFFFFFFE01"
proof (intro conjI allI impI)
  fix x :: uint64 assume x: "1 \<le> unat x \<and> unat x \<le> 2 ^ 32"
  show "\<exists>k. unat (pow2_ceil x) = 2 ^ k \<and> unat x \<le> 2 ^ k \<and> (\<forall>j. unat x \<le> 2 ^ j \<longrightarrow> k \<le> j)"
  proof (cases "unat x = 1")
    case True
    then have "x = 1" by (metis unat_1 word_unat_eq_iff)
    then show ?thesis by (intro exI[of _ 0]) (simp add: pow2_ceil_def)
  next
    case False
    with x have "1 < unat x" by simp
    then obtain k where k: "unat (pow2_ceil x) = 2 ^ Suc k" "2 ^ k < unat x" "unat x \<le> 2 ^ Suc k"
      using pow2_ceil_value[of x] x by blast
    have "Suc k \<le> j" if "unat x \<le> 2 ^ j" for j
    proof -
      have "(2::nat) ^ k < 2 ^ j" by (rule less_le_trans[OF k(2) that])
      then show ?thesis using power_less_imp_less_exp[of "2::nat" k j] by simp
    qed
    with k show ?thesis by blast
  qed
qed (simp add: pow2_ceil_def Let_def)

theorem pow2_ceil_least_witness: "\<exists>k. unat (pow2_ceil 100) = 2 ^ k \<and> 100 \<le> (2::nat) ^ k \<and> (\<forall>j. (100::nat) \<le> 2 ^ j \<longrightarrow> k \<le> j)"
  using conjunct1[OF pow2_ceil_least, rule_format, of 100] by simp

lemma EJS_ALIGN_bounds:
  assumes "0 < a" shows "EJS_ALIGN v a mod a = 0" "v \<le> EJS_ALIGN v a" "EJS_ALIGN v a < v + a"
proof -
  have "v + a - 1 = (v + a - 1) div a * a + (v + a - 1) mod a" by simp
  moreover have "(v + a - 1) mod a < a" using assms by simp
  ultimately show "v \<le> EJS_ALIGN v a" "EJS_ALIGN v a < v + a" using assms unfolding EJS_ALIGN_def by linarith+
qed (simp add: EJS_ALIGN_def)

lemma sorted_table_insert:
  fixes x :: nat
  assumes "sorted_wrt (<) xs" "x \<notin> set xs"
  shows "sorted_wrt (<) (takeWhile (\<lambda>a. \<not> x < a) xs @ x # dropWhile (\<lambda>a. \<not> x < a) xs)"
  using assms
proof (induction xs)
  case (Cons y ys)
  show ?case
  proof (cases "x < y")
    case False
    then have "y < x" using Cons.prems(2) by auto
    then show ?thesis using Cons False by (auto dest: set_takeWhileD set_dropWhileD)
  qed (use Cons in auto)
qed simp

text \<open>\<open>alloc_from_os\<close> returns an aligned block inside the mapping it made and gives back the rest of
  it: the block and the ranges it unmaps are disjoint and together are the whole mapping.  \<open>arena_new\<close> keeps
  the arena table sorted, so the binary search stays correct.\<close>

theorem arena_allocation:
  assumes "mmap (os_calls s) = Some res" "sorted_wrt (<) (heap_arenas s)"
    and "length (heap_arenas s) < MAX_ARENAS - 1"
    and "\<forall>a \<in> set (heap_arenas s). a + ARENA_SIZE \<le> res \<or> res + 2 * ARENA_SIZE \<le> a"
  shows "\<exists>start s'. arena_new mmap s = (Some start, s') \<and> start mod ARENA_SIZE = 0 \<and>
           res \<le> start \<and> start + ARENA_SIZE \<le> res + 2 * ARENA_SIZE \<and>
           sorted_wrt (<) (heap_arenas s') \<and> set (heap_arenas s') = insert start (set (heap_arenas s)) \<and>
           {res..<res + 2 * ARENA_SIZE} = {start..<start + ARENA_SIZE} \<union>
             (\<Union>(p, n) \<in> set (drop (length (unmapped s)) (unmapped s')). {p..<p + n}) \<and>
           (\<forall>(p, n) \<in> set (drop (length (unmapped s)) (unmapped s')). {p..<p + n} \<inter> {start..<start + ARENA_SIZE} = {})"
proof -
  let ?A = ARENA_SIZE
  define start where "start = (if res mod ?A = 0 then res else EJS_ALIGN res ?A)"
  have A: "0 < ?A" by (simp add: sizes)
  have st: "start mod ?A = 0" "res \<le> start" "start < res + ?A"
    using EJS_ALIGN_bounds[OF A, of res] A by (auto simp: start_def)
  obtain s1 ranges where os: "alloc_from_os mmap ?A ?A s = (Some start, s1)" "heap_arenas s1 = heap_arenas s"
    "unmapped s1 = unmapped s @ ranges"
    "ranges = (if res mod ?A = 0 then [(res + ?A, ?A)] else [(res, start - res), (start + ?A, res + ?A * 2 - (start + ?A))])"
    using assms(1) A by (cases "res mod ?A = 0") (auto simp: alloc_from_os_def Let_def start_def)
  have cover: "{res..<res + 2 * ?A} = {start..<start + ?A} \<union> (\<Union>(p, n) \<in> set ranges. {p..<p + n})"
    "\<forall>(p, n) \<in> set ranges. {p..<p + n} \<inter> {start..<start + ?A} = {}"
    using st os(4) by (auto simp: start_def)
  have "start \<notin> set (heap_arenas s)" using assms(4) st A by force
  note sorted = sorted_table_insert[OF assms(2) this]
  have set: "set (takeWhile P xs @ start # dropWhile P xs) = insert start (set xs)" for P xs
    by (metis Un_insert_right list.simps(15) set_append takeWhile_dropWhile_id)
  show ?thesis
    using assms(3) os st cover sorted set by (intro exI[of _ start] exI) (auto simp: arena_new_def)
qed

theorem arena_allocation_witness:
  "\<exists>start s'. arena_new (\<lambda>_. Some 100000000) empty_gc_state = (Some start, s') \<and> start mod ARENA_SIZE = 0"
  using arena_allocation[of "\<lambda>_. Some 100000000" empty_gc_state 100000000]
  by (auto simp: empty_gc_state_def MAX_ARENAS_def MAX_HEAP_SIZE_def sizes)

end
