(* ===== verification/PropertyDesc.thy ===== *)
theory PropertyDesc
  imports PropertyKeys
begin

text \<open>
  Property descriptors (\<open>src/runtime/ejs-object.h\<close>, \<open>ejs-object.c\<close>): a word of flags, a union of value
  and getter, and a setter; the macros that read and write them; and the validation of
  \<open>_ejs_object_specop_define_own_property\<close>, which decides from the current descriptor and the
  requested one whether a definition is rejected and what is stored.
\<close>

section \<open>Flags\<close>

named_theorems flag_defs \<open>the flag constants and the macros over them\<close>
named_theorems flag_tests \<open>the tests of a descriptor after its fields are set\<close>

definition EJS_PROP_FLAGS_ENUMERABLE :: uint32 where [flag_defs]: "EJS_PROP_FLAGS_ENUMERABLE = push_bit 0 1"
definition EJS_PROP_FLAGS_CONFIGURABLE :: uint32 where [flag_defs]: "EJS_PROP_FLAGS_CONFIGURABLE = push_bit 1 1"
definition EJS_PROP_FLAGS_WRITABLE :: uint32 where [flag_defs]: "EJS_PROP_FLAGS_WRITABLE = push_bit 2 1"
definition EJS_PROP_FLAGS_ENUMERABLE_SET :: uint32 where [flag_defs]: "EJS_PROP_FLAGS_ENUMERABLE_SET = push_bit 4 1"
definition EJS_PROP_FLAGS_CONFIGURABLE_SET :: uint32 where [flag_defs]: "EJS_PROP_FLAGS_CONFIGURABLE_SET = push_bit 5 1"
definition EJS_PROP_FLAGS_WRITABLE_SET :: uint32 where [flag_defs]: "EJS_PROP_FLAGS_WRITABLE_SET = push_bit 6 1"
definition EJS_PROP_FLAGS_VALUE_SET :: uint32 where [flag_defs]: "EJS_PROP_FLAGS_VALUE_SET = push_bit 7 1"
definition EJS_PROP_FLAGS_GETTER_SET :: uint32 where [flag_defs]: "EJS_PROP_FLAGS_GETTER_SET = push_bit 8 1"
definition EJS_PROP_FLAGS_SETTER_SET :: uint32 where [flag_defs]: "EJS_PROP_FLAGS_SETTER_SET = push_bit 9 1"

definition EJS_PROP_FLAGS_SET_MASK :: uint32 where [flag_defs]:
  "EJS_PROP_FLAGS_SET_MASK = EJS_PROP_FLAGS_ENUMERABLE_SET OR EJS_PROP_FLAGS_CONFIGURABLE_SET OR
     EJS_PROP_FLAGS_WRITABLE_SET OR EJS_PROP_FLAGS_VALUE_SET OR EJS_PROP_FLAGS_GETTER_SET OR
     EJS_PROP_FLAGS_SETTER_SET"

definition EJS_PROP_ENUMERABLE :: uint32 where [flag_defs]:
  "EJS_PROP_ENUMERABLE = EJS_PROP_FLAGS_ENUMERABLE OR EJS_PROP_FLAGS_ENUMERABLE_SET"
definition EJS_PROP_CONFIGURABLE :: uint32 where [flag_defs]:
  "EJS_PROP_CONFIGURABLE = EJS_PROP_FLAGS_CONFIGURABLE OR EJS_PROP_FLAGS_CONFIGURABLE_SET"
definition EJS_PROP_WRITABLE :: uint32 where [flag_defs]:
  "EJS_PROP_WRITABLE = EJS_PROP_FLAGS_WRITABLE OR EJS_PROP_FLAGS_WRITABLE_SET"

section \<open>Descriptors\<close>

record EJSPropertyDesc =
  flags :: uint32
  value_or_getter :: ejsval
  setter :: ejsval

definition ejs_propertydesc_new :: EJSPropertyDesc where
  "ejs_propertydesc_new = \<lparr>flags = 0, value_or_getter = 0, setter = 0\<rparr>"

definition desc_set_flag :: "EJSPropertyDesc \<Rightarrow> bool \<Rightarrow> uint32 \<Rightarrow> uint32 \<Rightarrow> EJSPropertyDesc" where
  [flag_defs]: "desc_set_flag p v propflag flagset =
     p\<lparr>flags := (if v then flags p OR propflag else flags p AND NOT propflag) OR flagset\<rparr>"

definition desc_set_enumerable :: "EJSPropertyDesc \<Rightarrow> bool \<Rightarrow> EJSPropertyDesc" where
  [flag_defs]: "desc_set_enumerable p v = desc_set_flag p v EJS_PROP_FLAGS_ENUMERABLE EJS_PROP_FLAGS_ENUMERABLE_SET"
definition desc_set_configurable :: "EJSPropertyDesc \<Rightarrow> bool \<Rightarrow> EJSPropertyDesc" where
  [flag_defs]: "desc_set_configurable p v = desc_set_flag p v EJS_PROP_FLAGS_CONFIGURABLE EJS_PROP_FLAGS_CONFIGURABLE_SET"
definition desc_set_writable :: "EJSPropertyDesc \<Rightarrow> bool \<Rightarrow> EJSPropertyDesc" where
  [flag_defs]: "desc_set_writable p v = desc_set_flag p v EJS_PROP_FLAGS_WRITABLE EJS_PROP_FLAGS_WRITABLE_SET"
definition desc_set_value :: "EJSPropertyDesc \<Rightarrow> ejsval \<Rightarrow> EJSPropertyDesc" where
  [flag_defs]: "desc_set_value p v = p\<lparr>value_or_getter := v, flags := flags p OR EJS_PROP_FLAGS_VALUE_SET\<rparr>"
definition desc_set_getter :: "EJSPropertyDesc \<Rightarrow> ejsval \<Rightarrow> EJSPropertyDesc" where
  [flag_defs]: "desc_set_getter p v = p\<lparr>value_or_getter := v, flags := flags p OR EJS_PROP_FLAGS_GETTER_SET\<rparr>"
definition desc_set_setter :: "EJSPropertyDesc \<Rightarrow> ejsval \<Rightarrow> EJSPropertyDesc" where
  [flag_defs]: "desc_set_setter p v = p\<lparr>setter := v, flags := flags p OR EJS_PROP_FLAGS_SETTER_SET\<rparr>"

definition desc_clear_value :: "EJSPropertyDesc \<Rightarrow> EJSPropertyDesc" where
  [flag_defs]: "desc_clear_value p = p\<lparr>value_or_getter := ejs_undefined, flags := flags p AND NOT EJS_PROP_FLAGS_VALUE_SET\<rparr>"
definition desc_clear_writable :: "EJSPropertyDesc \<Rightarrow> EJSPropertyDesc" where
  [flag_defs]: "desc_clear_writable p = p\<lparr>flags := flags p AND NOT EJS_PROP_FLAGS_WRITABLE_SET\<rparr>"
definition desc_clear_getter :: "EJSPropertyDesc \<Rightarrow> EJSPropertyDesc" where
  [flag_defs]: "desc_clear_getter p = p\<lparr>value_or_getter := ejs_undefined, flags := flags p AND NOT EJS_PROP_FLAGS_GETTER_SET\<rparr>"
definition desc_clear_setter :: "EJSPropertyDesc \<Rightarrow> EJSPropertyDesc" where
  [flag_defs]: "desc_clear_setter p = p\<lparr>setter := ejs_undefined, flags := flags p AND NOT EJS_PROP_FLAGS_SETTER_SET\<rparr>"

definition FLAG_TO_BOOL :: "uint32 \<Rightarrow> bool" where [flag_defs]: "FLAG_TO_BOOL x \<longleftrightarrow> x \<noteq> 0"

definition desc_has_enumerable :: "EJSPropertyDesc \<Rightarrow> bool" where
  [flag_defs]: "desc_has_enumerable p = FLAG_TO_BOOL (flags p AND EJS_PROP_FLAGS_ENUMERABLE_SET)"
definition desc_has_configurable :: "EJSPropertyDesc \<Rightarrow> bool" where
  [flag_defs]: "desc_has_configurable p = FLAG_TO_BOOL (flags p AND EJS_PROP_FLAGS_CONFIGURABLE_SET)"
definition desc_has_writable :: "EJSPropertyDesc \<Rightarrow> bool" where
  [flag_defs]: "desc_has_writable p = FLAG_TO_BOOL (flags p AND EJS_PROP_FLAGS_WRITABLE_SET)"
definition desc_has_value :: "EJSPropertyDesc \<Rightarrow> bool" where
  [flag_defs]: "desc_has_value p = FLAG_TO_BOOL (flags p AND EJS_PROP_FLAGS_VALUE_SET)"
definition desc_has_getter :: "EJSPropertyDesc \<Rightarrow> bool" where
  [flag_defs]: "desc_has_getter p = FLAG_TO_BOOL (flags p AND EJS_PROP_FLAGS_GETTER_SET)"
definition desc_has_setter :: "EJSPropertyDesc \<Rightarrow> bool" where
  [flag_defs]: "desc_has_setter p = FLAG_TO_BOOL (flags p AND EJS_PROP_FLAGS_SETTER_SET)"

definition desc_is_enumerable :: "EJSPropertyDesc \<Rightarrow> bool" where
  "desc_is_enumerable p \<longleftrightarrow> desc_has_enumerable p \<and> FLAG_TO_BOOL (flags p AND EJS_PROP_FLAGS_ENUMERABLE)"
definition desc_is_configurable :: "EJSPropertyDesc \<Rightarrow> bool" where
  "desc_is_configurable p \<longleftrightarrow> desc_has_configurable p \<and> FLAG_TO_BOOL (flags p AND EJS_PROP_FLAGS_CONFIGURABLE)"
definition desc_is_writable :: "EJSPropertyDesc \<Rightarrow> bool" where
  "desc_is_writable p \<longleftrightarrow> desc_has_writable p \<and> FLAG_TO_BOOL (flags p AND EJS_PROP_FLAGS_WRITABLE)"
definition desc_get_value :: "EJSPropertyDesc \<Rightarrow> ejsval" where
  "desc_get_value p = (if desc_has_value p then value_or_getter p else ejs_undefined)"
definition desc_get_getter :: "EJSPropertyDesc \<Rightarrow> ejsval" where
  "desc_get_getter p = (if desc_has_getter p then value_or_getter p else ejs_undefined)"
definition desc_get_setter :: "EJSPropertyDesc \<Rightarrow> ejsval" where
  "desc_get_setter p = (if desc_has_setter p then setter p else ejs_undefined)"

definition IsAccessorDescriptor :: "EJSPropertyDesc option \<Rightarrow> bool" where
  "IsAccessorDescriptor Desc =
     (case Desc of None \<Rightarrow> False
      | Some d \<Rightarrow> if \<not> desc_has_getter d \<and> \<not> desc_has_setter d then False else True)"
definition IsDataDescriptor :: "EJSPropertyDesc option \<Rightarrow> bool" where
  "IsDataDescriptor Desc =
     (case Desc of None \<Rightarrow> False
      | Some d \<Rightarrow> if \<not> desc_has_value d \<and> \<not> desc_has_writable d then False else True)"
definition IsGenericDescriptor :: "EJSPropertyDesc option \<Rightarrow> bool" where
  "IsGenericDescriptor Desc =
     (case Desc of None \<Rightarrow> False
      | Some d \<Rightarrow> if \<not> IsAccessorDescriptor Desc \<and> \<not> IsDataDescriptor Desc then True else False)"

section \<open>Validation and application\<close>

definition when_field :: "bool \<Rightarrow> (EJSPropertyDesc \<Rightarrow> EJSPropertyDesc) \<Rightarrow> EJSPropertyDesc \<Rightarrow> EJSPropertyDesc" where
  "when_field present f d = (if present then f d else d)"

text \<open>Step 4: the descriptor of a new property.\<close>

definition define_new :: "EJSPropertyDesc \<Rightarrow> EJSPropertyDesc" where
  "define_new Desc =
     (let dest = ejs_propertydesc_new in
      if IsGenericDescriptor (Some Desc) \<or> IsDataDescriptor (Some Desc) then
        let dest = when_field (desc_has_value Desc) (\<lambda>d. desc_set_value d (desc_get_value Desc)) dest;
            dest = when_field (desc_has_configurable Desc) (\<lambda>d. desc_set_configurable d (desc_is_configurable Desc)) dest;
            dest = when_field (desc_has_enumerable Desc) (\<lambda>d. desc_set_enumerable d (desc_is_enumerable Desc)) dest
        in when_field (desc_has_writable Desc) (\<lambda>d. desc_set_writable d (desc_is_writable Desc)) dest
      else
        let dest = when_field (desc_has_getter Desc) (\<lambda>d. desc_set_getter d (desc_get_getter Desc)) dest;
            dest = when_field (desc_has_setter Desc) (\<lambda>d. desc_set_setter d (desc_get_setter Desc)) dest;
            dest = when_field (desc_has_configurable Desc) (\<lambda>d. desc_set_configurable d (desc_is_configurable Desc)) dest
        in when_field (desc_has_enumerable Desc) (\<lambda>d. desc_set_enumerable d (desc_is_enumerable Desc)) dest)"

text \<open>Step 6: every field present and the same; values are compared bit by bit.\<close>

definition same_fields :: "EJSPropertyDesc \<Rightarrow> EJSPropertyDesc \<Rightarrow> bool" where
  "same_fields Desc current \<longleftrightarrow>
     flags Desc AND EJS_PROP_FLAGS_SET_MASK = flags current AND EJS_PROP_FLAGS_SET_MASK \<and>
     (\<not> desc_has_enumerable Desc \<or> desc_is_enumerable Desc = desc_is_enumerable current) \<and>
     (\<not> desc_has_configurable Desc \<or> desc_is_configurable Desc = desc_is_configurable current) \<and>
     (\<not> desc_has_writable Desc \<or> desc_is_writable Desc = desc_is_writable current) \<and>
     (\<not> desc_has_value Desc \<or> desc_get_value Desc = desc_get_value current) \<and>
     (\<not> desc_has_getter Desc \<or> desc_get_getter Desc = desc_get_getter current) \<and>
     (\<not> desc_has_setter Desc \<or> desc_get_setter Desc = desc_get_setter current)"

text \<open>Step 12.\<close>

definition apply_fields :: "EJSPropertyDesc \<Rightarrow> EJSPropertyDesc \<Rightarrow> EJSPropertyDesc" where
  "apply_fields Desc dest =
     (let dest = when_field (desc_has_getter Desc) (\<lambda>d. desc_set_getter d (desc_get_getter Desc)) dest;
          dest = when_field (desc_has_setter Desc) (\<lambda>d. desc_set_setter d (desc_get_setter Desc)) dest;
          dest = when_field (desc_has_value Desc) (\<lambda>d. desc_set_value d (desc_get_value Desc)) dest;
          dest = when_field (desc_has_configurable Desc) (\<lambda>d. desc_set_configurable d (desc_is_configurable Desc)) dest;
          dest = when_field (desc_has_enumerable Desc) (\<lambda>d. desc_set_enumerable d (desc_is_enumerable Desc)) dest
      in when_field (desc_has_writable Desc) (\<lambda>d. desc_set_writable d (desc_is_writable Desc)) dest)"

datatype define_step = Reject | Keep | Store EJSPropertyDesc

definition validate_define :: "bool \<Rightarrow> EJSPropertyDesc option \<Rightarrow> EJSPropertyDesc \<Rightarrow> define_step" where
  "validate_define extensible cur Desc =
     (case cur of
        None \<Rightarrow> if \<not> extensible then Reject else Store (define_new Desc)
      | Some current \<Rightarrow>
          if flags Desc AND EJS_PROP_FLAGS_SET_MASK = 0 then Keep
          else if same_fields Desc current then Keep
          else if \<not> desc_is_configurable current \<and> desc_is_configurable Desc then Reject
          else if \<not> desc_is_configurable current \<and> desc_has_enumerable Desc \<and>
                  desc_is_enumerable Desc \<noteq> desc_is_enumerable current then Reject
          else if IsGenericDescriptor (Some Desc) then Store (apply_fields Desc current)
          else if IsDataDescriptor cur \<noteq> IsDataDescriptor (Some Desc) then
            if \<not> desc_is_configurable current then Reject
            else if IsDataDescriptor cur
            then Store (apply_fields Desc (desc_clear_writable (desc_clear_value current)))
            else Store (apply_fields Desc (desc_clear_setter (desc_clear_getter current)))
          else if IsDataDescriptor cur \<and> IsDataDescriptor (Some Desc) then
            if \<not> desc_is_configurable current \<and> \<not> desc_is_writable current \<and> desc_is_writable Desc then Reject
            else if \<not> desc_is_configurable current \<and> \<not> desc_is_writable current \<and>
                    desc_has_value Desc \<and> desc_get_value Desc \<noteq> desc_get_value current then Reject
            else Store (apply_fields Desc current)
          else
            if \<not> desc_is_configurable current \<and> desc_has_setter Desc \<and>
               desc_get_setter Desc \<noteq> desc_get_setter current then Reject
            else if \<not> desc_is_configurable current \<and> desc_has_getter Desc \<and>
                    desc_get_getter Desc \<noteq> desc_get_getter current then Reject
            else Store (apply_fields Desc current))"

section \<open>Reading back fields\<close>

lemma and_push_bit: "(x :: uint32) AND push_bit k 1 \<noteq> 0 \<longleftrightarrow> bit x k"
  by (simp add: push_bit_eq_mult and_exp_eq_0_iff_not_bit)

lemma has_bits:
  "desc_has_enumerable p = bit (flags p) 4" "desc_has_configurable p = bit (flags p) 5"
  "desc_has_writable p = bit (flags p) 6" "desc_has_value p = bit (flags p) 7"
  "desc_has_getter p = bit (flags p) 8" "desc_has_setter p = bit (flags p) 9"
  by (simp_all only: flag_defs and_push_bit)

lemma is_bits:
  "desc_is_enumerable p \<longleftrightarrow> bit (flags p) 4 \<and> bit (flags p) 0"
  "desc_is_configurable p \<longleftrightarrow> bit (flags p) 5 \<and> bit (flags p) 1"
  "desc_is_writable p \<longleftrightarrow> bit (flags p) 6 \<and> bit (flags p) 2"
  by (simp_all only: desc_is_enumerable_def desc_is_configurable_def desc_is_writable_def has_bits flag_defs and_push_bit)

lemmas desc_bits = has_bits is_bits bit_simps

text \<open>Every field of a descriptor after step 12, in terms of the requested and the previous one.\<close>

lemmas desc_macros = when_field_def desc_set_flag_def desc_set_enumerable_def
  desc_set_configurable_def desc_set_writable_def desc_set_value_def desc_set_getter_def desc_set_setter_def
  desc_clear_value_def desc_clear_writable_def desc_clear_getter_def desc_clear_setter_def
  EJS_PROP_FLAGS_ENUMERABLE_def EJS_PROP_FLAGS_CONFIGURABLE_def EJS_PROP_FLAGS_WRITABLE_def
  EJS_PROP_FLAGS_ENUMERABLE_SET_def EJS_PROP_FLAGS_CONFIGURABLE_SET_def EJS_PROP_FLAGS_WRITABLE_SET_def
  EJS_PROP_FLAGS_VALUE_SET_def EJS_PROP_FLAGS_GETTER_SET_def EJS_PROP_FLAGS_SETTER_SET_def

lemma apply_fields_flags [flag_tests]:
  "desc_has_enumerable (apply_fields D d) \<longleftrightarrow> desc_has_enumerable D \<or> desc_has_enumerable d"
  "desc_has_configurable (apply_fields D d) \<longleftrightarrow> desc_has_configurable D \<or> desc_has_configurable d"
  "desc_has_writable (apply_fields D d) \<longleftrightarrow> desc_has_writable D \<or> desc_has_writable d"
  "desc_has_value (apply_fields D d) \<longleftrightarrow> desc_has_value D \<or> desc_has_value d"
  "desc_has_getter (apply_fields D d) \<longleftrightarrow> desc_has_getter D \<or> desc_has_getter d"
  "desc_has_setter (apply_fields D d) \<longleftrightarrow> desc_has_setter D \<or> desc_has_setter d"
  "desc_is_enumerable (apply_fields D d) = (if desc_has_enumerable D then desc_is_enumerable D else desc_is_enumerable d)"
  "desc_is_configurable (apply_fields D d) = (if desc_has_configurable D then desc_is_configurable D else desc_is_configurable d)"
  "desc_is_writable (apply_fields D d) = (if desc_has_writable D then desc_is_writable D else desc_is_writable d)"
  by (auto simp: apply_fields_def Let_def desc_bits desc_macros)

lemma apply_fields_values [flag_tests]:
  "value_or_getter (apply_fields D d) =
     (if desc_has_value D \<or> desc_has_getter D then value_or_getter D else value_or_getter d)"
  "setter (apply_fields D d) = (if desc_has_setter D then setter D else setter d)"
  by (auto simp: apply_fields_def Let_def when_field_def desc_set_flag_def desc_set_enumerable_def
      desc_set_configurable_def desc_set_writable_def desc_set_value_def desc_set_getter_def
      desc_set_setter_def desc_get_value_def desc_get_getter_def desc_get_setter_def)

lemma cleared_fields [flag_tests]:
  "desc_has_value (desc_clear_writable (desc_clear_value d)) = False"
  "desc_has_writable (desc_clear_writable (desc_clear_value d)) = False"
  "desc_is_writable (desc_clear_writable (desc_clear_value d)) = False"
  "desc_has_getter (desc_clear_writable (desc_clear_value d)) = desc_has_getter d"
  "desc_has_setter (desc_clear_writable (desc_clear_value d)) = desc_has_setter d"
  "desc_has_enumerable (desc_clear_writable (desc_clear_value d)) = desc_has_enumerable d"
  "desc_has_configurable (desc_clear_writable (desc_clear_value d)) = desc_has_configurable d"
  "desc_is_enumerable (desc_clear_writable (desc_clear_value d)) = desc_is_enumerable d"
  "desc_is_configurable (desc_clear_writable (desc_clear_value d)) = desc_is_configurable d"
  "desc_has_getter (desc_clear_setter (desc_clear_getter d)) = False"
  "desc_has_setter (desc_clear_setter (desc_clear_getter d)) = False"
  "desc_has_value (desc_clear_setter (desc_clear_getter d)) = desc_has_value d"
  "desc_has_writable (desc_clear_setter (desc_clear_getter d)) = desc_has_writable d"
  "desc_is_writable (desc_clear_setter (desc_clear_getter d)) = desc_is_writable d"
  "desc_has_enumerable (desc_clear_setter (desc_clear_getter d)) = desc_has_enumerable d"
  "desc_has_configurable (desc_clear_setter (desc_clear_getter d)) = desc_has_configurable d"
  "desc_is_enumerable (desc_clear_setter (desc_clear_getter d)) = desc_is_enumerable d"
  "desc_is_configurable (desc_clear_setter (desc_clear_getter d)) = desc_is_configurable d"
  by (simp_all add: desc_bits desc_macros)

lemma new_desc [flag_tests]:
  "flags ejs_propertydesc_new = 0" "\<not> desc_has_value ejs_propertydesc_new" "\<not> desc_has_getter ejs_propertydesc_new"
  "\<not> desc_has_setter ejs_propertydesc_new" "\<not> desc_has_writable ejs_propertydesc_new"
  "\<not> desc_is_enumerable ejs_propertydesc_new" "\<not> desc_is_configurable ejs_propertydesc_new"
  "\<not> desc_is_writable ejs_propertydesc_new"
  by (simp_all add: ejs_propertydesc_new_def desc_bits)

text \<open>What \<open>ToPropertyDescriptor\<close> guarantees: not both kinds at once.\<close>

definition valid_desc :: "EJSPropertyDesc \<Rightarrow> bool" where
  "valid_desc d \<longleftrightarrow> \<not> (IsAccessorDescriptor (Some d) \<and> IsDataDescriptor (Some d))"

lemmas desc_kinds = IsAccessorDescriptor_def IsDataDescriptor_def IsGenericDescriptor_def valid_desc_def

lemma define_new_apply: "valid_desc D \<Longrightarrow> define_new D = apply_fields D ejs_propertydesc_new"
proof -
  assume v: "valid_desc D"
  show ?thesis
  proof (cases "IsAccessorDescriptor (Some D)")
    case True
    then have "\<not> desc_has_value D" "\<not> desc_has_writable D" using v by (auto simp: desc_kinds split: if_splits)
    with True show ?thesis by (simp add: define_new_def apply_fields_def when_field_def desc_kinds)
  next
    case False
    then have "\<not> desc_has_getter D" "\<not> desc_has_setter D" by (auto simp: desc_kinds split: if_splits)
    then show ?thesis by (simp add: define_new_def apply_fields_def when_field_def desc_kinds)
  qed
qed

section \<open>The invariants of a property definition\<close>

lemma nonconfigurable_fields:
  assumes "validate_define ext (Some cur) D = Store new" "\<not> desc_is_configurable cur"
    and "valid_desc cur" "valid_desc D"
  shows "\<not> desc_is_configurable new \<and> desc_is_enumerable new = desc_is_enumerable cur \<and>
         IsDataDescriptor (Some new) = IsDataDescriptor (Some cur) \<and>
         (IsDataDescriptor (Some cur) \<and> \<not> desc_is_writable cur \<longrightarrow>
            \<not> desc_is_writable new \<and> desc_get_value new = desc_get_value cur) \<and>
         (IsAccessorDescriptor (Some cur) \<longrightarrow> IsAccessorDescriptor (Some new) \<and>
            desc_get_getter new = desc_get_getter cur \<and> desc_get_setter new = desc_get_setter cur)"
proof -
  have new: "new = apply_fields D cur"
    and conf: "\<not> desc_is_configurable D"
    and enum: "desc_has_enumerable D \<Longrightarrow> desc_is_enumerable D = desc_is_enumerable cur"
    and kind: "\<not> IsGenericDescriptor (Some D) \<Longrightarrow> IsDataDescriptor (Some cur) = IsDataDescriptor (Some D)"
    and wr: "\<lbrakk>IsDataDescriptor (Some cur); IsDataDescriptor (Some D); \<not> desc_is_writable cur\<rbrakk> \<Longrightarrow>
        \<not> desc_is_writable D \<and> (desc_has_value D \<longrightarrow> desc_get_value D = desc_get_value cur)"
    and acc: "\<lbrakk>\<not> IsGenericDescriptor (Some D); \<not> IsDataDescriptor (Some D)\<rbrakk> \<Longrightarrow>
        (desc_has_setter D \<longrightarrow> desc_get_setter D = desc_get_setter cur) \<and>
        (desc_has_getter D \<longrightarrow> desc_get_getter D = desc_get_getter cur)"
    using assms(1,2) by (auto simp: validate_define_def desc_kinds split: if_splits)
  have D: "IsAccessorDescriptor (Some D) \<longleftrightarrow> desc_has_getter D \<or> desc_has_setter D"
    "IsDataDescriptor (Some D) \<longleftrightarrow> desc_has_value D \<or> desc_has_writable D"
    "\<not> (IsAccessorDescriptor (Some D) \<and> IsDataDescriptor (Some D))"
    "IsGenericDescriptor (Some D) \<longleftrightarrow> \<not> IsAccessorDescriptor (Some D) \<and> \<not> IsDataDescriptor (Some D)"
    and C: "IsAccessorDescriptor (Some cur) \<longleftrightarrow> desc_has_getter cur \<or> desc_has_setter cur"
    "IsDataDescriptor (Some cur) \<longleftrightarrow> desc_has_value cur \<or> desc_has_writable cur"
    "\<not> (IsAccessorDescriptor (Some cur) \<and> IsDataDescriptor (Some cur))"
    using assms(3,4) by (auto simp: desc_kinds split: if_splits)
  have N: "IsAccessorDescriptor (Some new) \<longleftrightarrow> IsAccessorDescriptor (Some D) \<or> IsAccessorDescriptor (Some cur)"
    "IsDataDescriptor (Some new) \<longleftrightarrow> IsDataDescriptor (Some D) \<or> IsDataDescriptor (Some cur)"
    unfolding D C by (auto simp: new desc_kinds flag_tests)
  show ?thesis
  proof (intro conjI impI)
    show "\<not> desc_is_configurable new" "desc_is_enumerable new = desc_is_enumerable cur"
      using conf enum assms(2) by (simp_all add: new flag_tests)
    show "IsDataDescriptor (Some new) = IsDataDescriptor (Some cur)" using kind D(4) N by blast
  next
    assume data: "IsDataDescriptor (Some cur) \<and> \<not> desc_is_writable cur"
    then have acc: "\<not> desc_has_getter D" using kind D by blast
    show "\<not> desc_is_writable new" using data wr D(2) by (auto simp: new flag_tests)
    show "desc_get_value new = desc_get_value cur"
      using data wr D(2) acc by (auto simp: new flag_tests desc_get_value_def)
  next
    assume a: "IsAccessorDescriptor (Some cur)"
    then have nd: "\<not> IsDataDescriptor (Some D)" using kind C(3) D(4) by blast
    then have v: "\<not> desc_has_value D" using D(2) by blast
    show "IsAccessorDescriptor (Some new)" using a N by blast
    have same: "desc_has_setter D \<longrightarrow> desc_get_setter D = desc_get_setter cur"
      "desc_has_getter D \<longrightarrow> desc_get_getter D = desc_get_getter cur" using acc nd D(1,4) by blast+
    show "desc_get_getter new = desc_get_getter cur"
      using same v by (auto simp: new flag_tests desc_get_getter_def)
    show "desc_get_setter new = desc_get_setter cur"
      using same by (auto simp: new flag_tests desc_get_setter_def)
  qed
qed

text \<open>C22: a property that is not configurable is stable under every definition.  Whatever descriptor is
  requested, what is stored stays non-configurable, keeps its enumerability and its kind; a
  non-writable value can neither change nor become writable, and the accessors of an accessor property
  cannot change.\<close>

theorem nonconfigurable_is_stable:
  assumes "validate_define ext (Some cur) D = Store new" "\<not> desc_is_configurable cur"
    and "valid_desc cur" "valid_desc D"
  shows "\<not> desc_is_configurable new \<and> desc_is_enumerable new = desc_is_enumerable cur \<and>
         IsDataDescriptor (Some new) = IsDataDescriptor (Some cur) \<and>
         (IsDataDescriptor (Some cur) \<and> \<not> desc_is_writable cur \<longrightarrow>
            \<not> desc_is_writable new \<and> desc_get_value new = desc_get_value cur) \<and>
         (IsAccessorDescriptor (Some cur) \<longrightarrow> IsAccessorDescriptor (Some new) \<and>
            desc_get_getter new = desc_get_getter cur \<and> desc_get_setter new = desc_get_setter cur)"
  using assms by (rule nonconfigurable_fields)

theorem nonconfigurable_is_stable_witness:
  "\<exists>cur D new. validate_define False (Some cur) D = Store new \<and> \<not> desc_is_configurable cur \<and>
     desc_get_value new = desc_get_value cur \<and> desc_get_value cur = ejs_one"
proof -
  define cur where "cur = \<lparr>flags = EJS_PROP_FLAGS_VALUE_SET OR EJS_PROP_ENUMERABLE, value_or_getter = ejs_one, setter = 0\<rparr>"
  define D where "D = \<lparr>flags = EJS_PROP_FLAGS_WRITABLE_SET, value_or_getter = 0, setter = 0\<rparr>"
  have v: "valid_desc cur" "valid_desc D" "\<not> desc_is_configurable cur" "IsDataDescriptor (Some cur)" "\<not> desc_is_writable cur"
    "desc_get_value cur = ejs_one"
    by (simp_all add: cur_def D_def desc_kinds desc_bits flag_defs desc_get_value_def)
  have "validate_define False (Some cur) D = Store (apply_fields D cur)"
    by (simp add: cur_def D_def validate_define_def same_fields_def desc_kinds desc_bits flag_defs)
  from nonconfigurable_is_stable[OF this v(3,1,2)] this v show ?thesis by blast
qed

text \<open>A definition that turns a data property into an accessor property or back.\<close>

definition converts :: "EJSPropertyDesc option \<Rightarrow> EJSPropertyDesc \<Rightarrow> bool" where
  "converts cur D \<longleftrightarrow> cur \<noteq> None \<and> \<not> IsGenericDescriptor (Some D) \<and> IsDataDescriptor cur \<noteq> IsDataDescriptor (Some D)"

lemma stored_applies_request:
  assumes "validate_define ext cur D = Store new" "valid_desc D" "\<And>c. cur = Some c \<Longrightarrow> valid_desc c"
  defines "old \<equiv> (case cur of Some c \<Rightarrow> c | None \<Rightarrow> ejs_propertydesc_new)"
  shows "valid_desc new \<and>
    desc_is_enumerable new = (if desc_has_enumerable D then desc_is_enumerable D else desc_is_enumerable old) \<and>
    desc_is_configurable new = (if desc_has_configurable D then desc_is_configurable D else desc_is_configurable old) \<and>
    desc_is_writable new = (if desc_has_writable D then desc_is_writable D else desc_is_writable old \<and> \<not> converts cur D) \<and>
    desc_get_value new = (if desc_has_value D then desc_get_value D else if converts cur D then ejs_undefined else desc_get_value old) \<and>
    desc_get_getter new = (if desc_has_getter D then desc_get_getter D else if converts cur D then ejs_undefined else desc_get_getter old) \<and>
    desc_get_setter new = (if desc_has_setter D then desc_get_setter D else if converts cur D then ejs_undefined else desc_get_setter old)"
proof -
  have kD: "desc_has_value D \<or> desc_has_writable D \<Longrightarrow> \<not> desc_has_getter D \<and> \<not> desc_has_setter D"
    using assms(2) by (auto simp: desc_kinds split: if_splits)
  consider (fresh) "cur = None" "new = apply_fields D old" "\<not> converts cur D"
    | (same) c where "cur = Some c" "new = apply_fields D c" "\<not> converts cur D"
    | (toacc) c where "cur = Some c" "converts cur D" "IsDataDescriptor cur"
        "new = apply_fields D (desc_clear_writable (desc_clear_value c))"
    | (todata) c where "cur = Some c" "converts cur D" "\<not> IsDataDescriptor cur"
        "new = apply_fields D (desc_clear_setter (desc_clear_getter c))"
    using assms(1) define_new_apply[OF assms(2)]
    by (cases cur) (auto simp: validate_define_def converts_def old_def split: if_splits)
  then show ?thesis
  proof cases
    case fresh
    then show ?thesis using kD
      by (auto simp: old_def flag_tests desc_get_value_def desc_get_getter_def desc_get_setter_def desc_kinds split: if_splits)
  next
    case same
    have kc: "desc_has_value c \<or> desc_has_writable c \<Longrightarrow> \<not> desc_has_getter c \<and> \<not> desc_has_setter c"
      using assms(3)[OF same(1)] by (auto simp: desc_kinds split: if_splits)
    have k: "desc_has_getter D \<or> desc_has_setter D \<Longrightarrow> \<not> desc_has_value c \<and> \<not> desc_has_writable c"
      "desc_has_value D \<or> desc_has_writable D \<Longrightarrow> \<not> desc_has_getter c \<and> \<not> desc_has_setter c"
      using same(1,3) kD kc by (auto simp: converts_def desc_kinds split: if_splits)
    show ?thesis using same kD kc k
      by (auto simp: old_def flag_tests desc_get_value_def desc_get_getter_def desc_get_setter_def desc_kinds split: if_splits)
  next
    case toacc
    have kc: "\<not> desc_has_getter c" "\<not> desc_has_setter c"
      using assms(3)[OF toacc(1)] toacc(1,3) by (auto simp: desc_kinds split: if_splits)
    have k: "\<not> desc_has_value D" "\<not> desc_has_writable D"
      using toacc(1-3) by (auto simp: converts_def desc_kinds split: if_splits)
    show ?thesis using toacc kc k
      by (simp add: old_def flag_tests desc_get_value_def desc_get_getter_def desc_get_setter_def desc_kinds)
  next
    case todata
    have kc: "\<not> desc_has_value c" "\<not> desc_has_writable c" "\<not> desc_is_writable c"
      using todata(1,3) by (auto simp: desc_kinds desc_is_writable_def split: if_splits)
    have k: "\<not> desc_has_getter D" "\<not> desc_has_setter D"
      using todata(1-3) kD by (auto simp: converts_def desc_kinds split: if_splits)
    show ?thesis using todata kc k
      by (simp add: old_def flag_tests desc_get_value_def desc_get_getter_def desc_get_setter_def desc_kinds)
  qed
qed

lemma set_mask_bits: "4 \<le> n \<Longrightarrow> n \<le> 9 \<Longrightarrow> bit EJS_PROP_FLAGS_SET_MASK n"
proof -
  assume "4 \<le> n" "n \<le> 9"
  then have "n \<in> {4, 5, 6, 7, 8, 9}" by auto
  then show "bit EJS_PROP_FLAGS_SET_MASK n" by (auto simp: flag_defs bit_simps)
qed

lemma kept_applies_request:
  assumes "validate_define ext cur D = Keep" "cur = Some new" "valid_desc new"
  shows "valid_desc new \<and>
    (desc_has_enumerable D \<longrightarrow> desc_is_enumerable new = desc_is_enumerable D) \<and>
    (desc_has_configurable D \<longrightarrow> desc_is_configurable new = desc_is_configurable D) \<and>
    (desc_has_writable D \<longrightarrow> desc_is_writable new = desc_is_writable D) \<and>
    (desc_has_value D \<longrightarrow> desc_get_value new = desc_get_value D) \<and>
    (desc_has_getter D \<longrightarrow> desc_get_getter new = desc_get_getter D) \<and>
    (desc_has_setter D \<longrightarrow> desc_get_setter new = desc_get_setter D) \<and> \<not> converts cur D"
proof (cases "flags D AND EJS_PROP_FLAGS_SET_MASK = 0")
  case True
  have "\<not> bit (flags D) n" if "4 \<le> n" "n \<le> 9" for n
  proof -
    have "\<not> bit (flags D AND EJS_PROP_FLAGS_SET_MASK) n" using True by simp
    then show ?thesis using set_mask_bits [OF that] by (simp add: bit_and_iff)
  qed
  then show ?thesis using assms(3) by (simp add: has_bits converts_def desc_kinds)
next
  case False
  then have same: "same_fields D new" using assms(1,2) by (auto simp: validate_define_def split: if_splits)
  have "bit (flags D) n = bit (flags new) n" if "4 \<le> n" "n \<le> 9" for n
  proof -
    have "bit (flags D AND EJS_PROP_FLAGS_SET_MASK) n = bit (flags new AND EJS_PROP_FLAGS_SET_MASK) n"
      using same by (simp add: same_fields_def)
    then show ?thesis using set_mask_bits [OF that] by (simp add: bit_and_iff)
  qed
  then have "\<not> converts cur D" using assms(2) by (simp add: converts_def desc_kinds has_bits)
  then show ?thesis using same assms(3) by (auto simp: same_fields_def)
qed

text \<open>C23: a definition by a valid descriptor that is not rejected, whether it is stored or changes nothing,
  leaves the property with every requested field; fields that were not requested keep their previous value, or, when
  the property changes between data and accessor, take their default (undefined, not writable).\<close>

theorem define_applies_request:
  assumes "validate_define ext cur D = r" "r \<noteq> Reject" "valid_desc D" "\<And>c. cur = Some c \<Longrightarrow> valid_desc c"
  defines "old \<equiv> (case cur of Some c \<Rightarrow> c | None \<Rightarrow> ejs_propertydesc_new)"
  defines "new \<equiv> (case r of Store d \<Rightarrow> d | _ \<Rightarrow> old)"
  shows "valid_desc new \<and>
    desc_is_enumerable new = (if desc_has_enumerable D then desc_is_enumerable D else desc_is_enumerable old) \<and>
    desc_is_configurable new = (if desc_has_configurable D then desc_is_configurable D else desc_is_configurable old) \<and>
    desc_is_writable new = (if desc_has_writable D then desc_is_writable D else desc_is_writable old \<and> \<not> converts cur D) \<and>
    desc_get_value new = (if desc_has_value D then desc_get_value D else if converts cur D then ejs_undefined else desc_get_value old) \<and>
    desc_get_getter new = (if desc_has_getter D then desc_get_getter D else if converts cur D then ejs_undefined else desc_get_getter old) \<and>
    desc_get_setter new = (if desc_has_setter D then desc_get_setter D else if converts cur D then ejs_undefined else desc_get_setter old)"
proof (cases r)
  case (Store d)
  then show ?thesis using stored_applies_request [OF _ assms(3,4), of ext _ d] assms(1) by (simp add: old_def new_def)
next
  case Keep
  then obtain c where c: "cur = Some c" using assms(1) by (auto simp: validate_define_def split: option.splits if_splits)
  then show ?thesis using kept_applies_request [OF _ c, of ext D] assms(1,4) Keep by (simp add: old_def new_def)
qed (use assms(2) in simp)

theorem define_applies_request_witness:
  "\<exists>D new. validate_define True None D = Store new \<and> desc_get_value new = ejs_one \<and> desc_is_writable new \<and>
     \<not> desc_is_configurable new"
proof -
  define D where "D = \<lparr>flags = EJS_PROP_FLAGS_VALUE_SET OR EJS_PROP_WRITABLE, value_or_getter = ejs_one, setter = 0\<rparr>"
  have D: "valid_desc D" "desc_has_value D" "desc_get_value D = ejs_one" "desc_has_writable D" "desc_is_writable D"
    "\<not> desc_has_configurable D"
    by (simp_all add: D_def desc_kinds desc_bits flag_defs desc_get_value_def)
  have st: "validate_define True None D = Store (define_new D)" by (simp add: validate_define_def)
  show ?thesis using define_applies_request[OF st _ D(1)] st D by (auto simp: flag_tests)
qed

end
