(* ===== verification/Objects.thy ===== *)
theory Objects
  imports PropertyDesc
begin

text \<open>
  Ordinary objects (\<open>src/runtime/ejs-object.c\<close>): the internal methods of the \<open>Object\<close> class over a
  store of objects, and the integrity levels of \<open>Object.seal\<close> and \<open>Object.freeze\<close>.  The property map
  of an object is the association list, in insertion order, that the hash table of PropertyMap
  implements (it aborts on the 3075th key).  Keys are strings and symbols, on which \<open>ToPropertyKey\<close>
  is the identity.  \<open>qsort\<close> is a stable sort, and the difference that its comparison computes does not overflow.  Calling a getter or setter runs compiled code, so it is returned as a request to
  the caller: in the source it is the last thing these functions do.
\<close>

record EJSObject =
  proto :: ejsval
  props :: "(ejsval \<times> EJSPropertyDesc) list"
  extensible :: bool

type_synonym objects = "ptr \<Rightarrow> EJSObject"

definition MAX_PROPERTIES :: nat where "MAX_PROPERTIES = 3074"

abbreviation is_object :: "ejsval \<Rightarrow> bool" where "is_object v \<equiv> EJSVAL_IS_OBJECT_IMPL v = Some True"

abbreviation the_object :: "objects \<Rightarrow> ejsval \<Rightarrow> EJSObject" where
  "the_object h v \<equiv> h (EJSVAL_TO_OBJECT_IMPL v)"

abbreviation put_object :: "ejsval \<Rightarrow> EJSObject \<Rightarrow> objects \<Rightarrow> objects" where
  "put_object v ob h \<equiv> h(EJSVAL_TO_OBJECT_IMPL v := ob)"

section \<open>Own properties\<close>

definition ejs_object_specop_get_own_property :: "strings \<Rightarrow> objects \<Rightarrow> ejsval \<Rightarrow> ejsval \<Rightarrow> EJSPropertyDesc option" where
  "ejs_object_specop_get_own_property strs h O' P = al_lookup (key_eq strs) (props (the_object h O')) P"

text \<open>The message of the TypeError is \<open>P\<close> and a reason, concatenated as strings, which is undefined for a symbol.\<close>

definition ejs_object_specop_define_own_property ::
  "strings \<Rightarrow> ejsval \<Rightarrow> ejsval \<Rightarrow> EJSPropertyDesc \<Rightarrow> bool \<Rightarrow> objects \<Rightarrow> bool outcome \<times> objects" where
  "ejs_object_specop_define_own_property strs O' P Desc Throw h =
     (let obj = the_object h O'; current = ejs_object_specop_get_own_property strs h O' P in
      case validate_define (extensible obj) current Desc of
        Reject \<Rightarrow>
          (if \<not> Throw then Return False else if EJSVAL_IS_STRING_IMPL P then Throws TypeError else Aborts, h)
      | Keep \<Rightarrow> (Return True, h)
      | Store d \<Rightarrow>
          if current = None \<and> length (props obj) = MAX_PROPERTIES then (Aborts, h)
          else (Return True, put_object O' (obj\<lparr>props := al_insert (key_eq strs) (props obj) P d\<rparr>) h))"

definition ejs_object_define_value_property ::
  "strings \<Rightarrow> ejsval \<Rightarrow> ejsval \<Rightarrow> ejsval \<Rightarrow> uint32 \<Rightarrow> objects \<Rightarrow> bool outcome \<times> objects" where
  "ejs_object_define_value_property strs obj key value fl h =
     ejs_object_specop_define_own_property strs obj key
       \<lparr>flags = fl OR EJS_PROP_FLAGS_VALUE_SET, value_or_getter = value, setter = 0\<rparr> False h"

definition ejs_object_define_accessor_property ::
  "strings \<Rightarrow> ejsval \<Rightarrow> ejsval \<Rightarrow> ejsval \<Rightarrow> ejsval \<Rightarrow> uint32 \<Rightarrow> objects \<Rightarrow> bool outcome \<times> objects" where
  "ejs_object_define_accessor_property strs obj key getter st fl h =
     ejs_object_specop_define_own_property strs obj key
       \<lparr>flags = fl OR EJS_PROP_FLAGS_SETTER_SET OR EJS_PROP_FLAGS_GETTER_SET, value_or_getter = getter, setter = st\<rparr>
       False h"

definition ejs_object_specop_delete :: "strings \<Rightarrow> ejsval \<Rightarrow> ejsval \<Rightarrow> bool \<Rightarrow> objects \<Rightarrow> bool outcome \<times> objects" where
  "ejs_object_specop_delete strs O' P Throw h =
     (case ejs_object_specop_get_own_property strs h O' P of
        None \<Rightarrow> (Return True, h)
      | Some d \<Rightarrow>
          if desc_is_configurable d then
            let obj = the_object h O' in
            (Return True, put_object O' (obj\<lparr>props := al_remove (key_eq strs) (props obj) P\<rparr>) h)
          else if Throw then (Throws TypeError, h)
          else (Return False, h))"

definition ejs_object_specop_is_extensible :: "objects \<Rightarrow> ejsval \<Rightarrow> bool" where
  "ejs_object_specop_is_extensible h O' = extensible (the_object h O')"

definition ejs_object_specop_preventextensions :: "ejsval \<Rightarrow> objects \<Rightarrow> bool \<times> objects" where
  "ejs_object_specop_preventextensions O' h = (True, put_object O' ((the_object h O')\<lparr>extensible := False\<rparr>) h)"

section \<open>The prototype chain\<close>

definition ejs_object_specop_get_prototype_of :: "objects \<Rightarrow> ejsval \<Rightarrow> ejsval" where
  "ejs_object_specop_get_prototype_of h O' = proto (the_object h O')"

text \<open>The loops along the chain: \<open>None\<close> when they do not end.\<close>

partial_function (option) in_chain :: "strings \<Rightarrow> objects \<Rightarrow> ejsval \<Rightarrow> ejsval \<Rightarrow> bool option" where
  "in_chain strs h O' p =
     (if EJSVAL_IS_NULL_IMPL p then Some False
      else case SameValue strs p O' of
        None \<Rightarrow> None
      | Some same \<Rightarrow> if same then Some True else in_chain strs h O' (ejs_object_specop_get_prototype_of h p))"

definition ejs_object_specop_set_prototype_of :: "strings \<Rightarrow> ejsval \<Rightarrow> ejsval \<Rightarrow> objects \<Rightarrow> (bool \<times> objects) option" where
  "ejs_object_specop_set_prototype_of strs O' V h =
     ejs_assert (is_object V \<or> EJSVAL_IS_NULL_IMPL V)
       (let obj = the_object h O' in
        case SameValue strs V (proto obj) of
          None \<Rightarrow> None
        | Some True \<Rightarrow> Some (True, h)
        | Some False \<Rightarrow>
            if \<not> extensible obj then Some (False, h)
            else case in_chain strs h O' V of
              None \<Rightarrow> None
            | Some True \<Rightarrow> Some (False, h)
            | Some False \<Rightarrow> Some (True, put_object O' (obj\<lparr>proto := V\<rparr>) h))"

partial_function (option) ejs_object_specop_has_property :: "strings \<Rightarrow> objects \<Rightarrow> ejsval \<Rightarrow> ejsval \<Rightarrow> bool option" where
  "ejs_object_specop_has_property strs h O' P =
     (case ejs_object_specop_get_own_property strs h O' P of
        Some d \<Rightarrow> Some True
      | None \<Rightarrow>
          let parent = ejs_object_specop_get_prototype_of h O' in
          if \<not> EJSVAL_IS_NULL_IMPL parent then ejs_object_specop_has_property strs h parent P
          else Some False)"

datatype get_result = Value ejsval | InvokeGetter ejsval ejsval

definition proto_name :: "jschar list" where
  "proto_name = map (\<lambda>c. word_of_nat (of_char c)) ''__proto__'' @ [0]"

definition is_proto_name :: "strings \<Rightarrow> ejsval \<Rightarrow> bool" where
  "is_proto_name strs P \<longleftrightarrow> EJSVAL_IS_STRING_IMPL P \<and>
     Option.bind (EJSVAL_TO_FLAT_STRING strs P) (strcmp_loop proto_name) = Some 0"

partial_function (option) ejs_object_specop_get ::
  "strings \<Rightarrow> objects \<Rightarrow> ejsval \<Rightarrow> ejsval \<Rightarrow> ejsval \<Rightarrow> get_result option" where
  "ejs_object_specop_get strs h O' P Receiver =
     (if is_proto_name strs P then Some (Value (ejs_object_specop_get_prototype_of h O'))
      else case ejs_object_specop_get_own_property strs h O' P of
        None \<Rightarrow>
          let parent = ejs_object_specop_get_prototype_of h O' in
          if EJSVAL_IS_NULL_IMPL parent then Some (Value ejs_undefined)
          else ejs_object_specop_get strs h parent P Receiver
      | Some d \<Rightarrow>
          if IsDataDescriptor (Some d) then Some (Value (value_or_getter d))
          else if EJSVAL_IS_UNDEFINED_IMPL (desc_get_getter d) then Some (Value ejs_undefined)
          else Some (InvokeGetter (desc_get_getter d) Receiver))"

datatype set_result = SetDone "bool outcome" | InvokeSetter ejsval ejsval ejsval

definition undefined_desc :: EJSPropertyDesc where
  "undefined_desc = \<lparr>flags = EJS_PROP_FLAGS_VALUE_SET OR EJS_PROP_WRITABLE OR EJS_PROP_ENUMERABLE OR EJS_PROP_CONFIGURABLE,
                     value_or_getter = ejs_undefined, setter = 0\<rparr>"

text \<open>Steps 5 and 6 of \<open>[[Set]]\<close>, once the descriptor is found.\<close>

definition set_with_desc ::
  "strings \<Rightarrow> EJSPropertyDesc \<Rightarrow> ejsval \<Rightarrow> ejsval \<Rightarrow> ejsval \<Rightarrow> objects \<Rightarrow> set_result \<times> objects" where
  "set_with_desc strs ownDesc P V Receiver h =
     (if IsDataDescriptor (Some ownDesc) then
        if \<not> desc_is_writable ownDesc then (SetDone (Return False), h)
        else if \<not> is_object Receiver then (SetDone (Return False), h)
        else
          (case ejs_object_specop_get_own_property strs h Receiver P of
             Some existing \<Rightarrow>
               (let (r, h) = ejs_object_specop_define_own_property strs Receiver P
                     \<lparr>flags = EJS_PROP_FLAGS_VALUE_SET, value_or_getter = V, setter = 0\<rparr> False h
                in (SetDone r, h))
           | None \<Rightarrow>
               (let (r, h) = ejs_object_define_value_property strs Receiver P V
                     (EJS_PROP_ENUMERABLE OR EJS_PROP_CONFIGURABLE OR EJS_PROP_WRITABLE) h
                in (SetDone r, h)))
      else if IsAccessorDescriptor (Some ownDesc) then
        if EJSVAL_IS_UNDEFINED_IMPL (desc_get_setter ownDesc) then (SetDone (Return False), h)
        else (InvokeSetter (desc_get_setter ownDesc) Receiver V, h)
      else (SetDone (Return True), h))"

partial_function (option) ejs_object_specop_set ::
  "strings \<Rightarrow> ejsval \<Rightarrow> ejsval \<Rightarrow> ejsval \<Rightarrow> ejsval \<Rightarrow> objects \<Rightarrow> (set_result \<times> objects) option" where
  "ejs_object_specop_set strs O' P V Receiver h =
     (case ejs_object_specop_get_own_property strs h O' P of
        Some ownDesc \<Rightarrow> Some (set_with_desc strs ownDesc P V Receiver h)
      | None \<Rightarrow>
          let parent = ejs_object_specop_get_prototype_of h O' in
          if \<not> EJSVAL_IS_NULL_IMPL parent then ejs_object_specop_set strs parent P V Receiver h
          else Some (set_with_desc strs undefined_desc P V Receiver h))"

section \<open>Keys and integrity levels\<close>

text \<open>\<open>index_key\<close> stands for the conversion of a string key by \<open>ToNumber\<close>: its \<open>ToInt32\<close> when the number
  is integral and not negative.\<close>

definition ejs_object_specop_own_property_keys :: "(ejsval \<Rightarrow> int32 option) \<Rightarrow> objects \<Rightarrow> ejsval \<Rightarrow> ejsval list" where
  "ejs_object_specop_own_property_keys index_key h O' =
     (let names = map fst (props (the_object h O'));
          strs = filter EJSVAL_IS_STRING_IMPL names
      in sort_key (\<lambda>k. sint (the (index_key k))) (filter (\<lambda>k. index_key k \<noteq> None) strs) @
         filter (\<lambda>k. index_key k = None) strs @ filter (\<lambda>k. \<not> EJSVAL_IS_STRING_IMPL k) names)"

definition DefinePropertyOrThrow ::
  "strings \<Rightarrow> ejsval \<Rightarrow> ejsval \<Rightarrow> EJSPropertyDesc \<Rightarrow> objects \<Rightarrow> bool outcome \<times> objects" where
  "DefinePropertyOrThrow strs O' P d h = ejs_object_specop_define_own_property strs O' P d False h"

datatype IntegrityLevel = INTEGRITY_SEALED | INTEGRITY_FROZEN

definition sealed_desc :: EJSPropertyDesc where
  "sealed_desc = \<lparr>flags = EJS_PROP_FLAGS_CONFIGURABLE_SET, value_or_getter = 0, setter = 0\<rparr>"

definition frozen_desc :: "EJSPropertyDesc \<Rightarrow> EJSPropertyDesc" where
  "frozen_desc currentDesc =
     (if IsAccessorDescriptor (Some currentDesc)
      then desc_set_configurable ejs_propertydesc_new False
      else desc_set_writable (desc_set_configurable ejs_propertydesc_new False) False)"

text \<open>The two loops over the keys; the flag is the pending exception, always a TypeError.  Only an insertion
  into a full property map aborts.\<close>

fun seal_loop :: "strings \<Rightarrow> ejsval \<Rightarrow> ejsval list \<Rightarrow> bool \<Rightarrow> objects \<Rightarrow> (bool \<times> objects) option" where
  "seal_loop strs O' [] pending h = Some (pending, h)"
| "seal_loop strs O' (k # ks) pending h =
     (case DefinePropertyOrThrow strs O' k sealed_desc h of
        (Return ok, h) \<Rightarrow> seal_loop strs O' ks (pending \<or> \<not> ok) h
      | _ \<Rightarrow> None)"

fun freeze_loop :: "strings \<Rightarrow> ejsval \<Rightarrow> ejsval list \<Rightarrow> bool \<Rightarrow> objects \<Rightarrow> (bool \<times> objects) option" where
  "freeze_loop strs O' [] pending h = Some (pending, h)"
| "freeze_loop strs O' (k # ks) pending h =
     (case ejs_object_specop_get_own_property strs h O' k of
        None \<Rightarrow> freeze_loop strs O' ks pending h
      | Some currentDesc \<Rightarrow>
          (case DefinePropertyOrThrow strs O' k (frozen_desc currentDesc) h of
             (Return ok, h) \<Rightarrow> freeze_loop strs O' ks (pending \<or> \<not> ok) h
           | _ \<Rightarrow> None))"

definition SetIntegrityLevel ::
  "(ejsval \<Rightarrow> int32 option) \<Rightarrow> strings \<Rightarrow> ejsval \<Rightarrow> IntegrityLevel \<Rightarrow> objects \<Rightarrow> bool outcome \<times> objects" where
  "SetIntegrityLevel index_key strs O' level h =
     (let keys = ejs_object_specop_own_property_keys index_key h O' in
      case (case level of INTEGRITY_SEALED \<Rightarrow> seal_loop strs O' keys False h
            | INTEGRITY_FROZEN \<Rightarrow> freeze_loop strs O' keys False h) of
        None \<Rightarrow> (Aborts, h)
      | Some (pending, h) \<Rightarrow>
          if pending then (Throws TypeError, h)
          else let (r, h) = ejs_object_specop_preventextensions O' h in (Return r, h))"

fun test_loop :: "strings \<Rightarrow> objects \<Rightarrow> ejsval \<Rightarrow> IntegrityLevel \<Rightarrow> ejsval list \<Rightarrow> bool" where
  "test_loop strs h O' level [] = True"
| "test_loop strs h O' level (k # ks) =
     (case ejs_object_specop_get_own_property strs h O' k of
        None \<Rightarrow> test_loop strs h O' level ks
      | Some currentDesc \<Rightarrow>
          if desc_is_configurable currentDesc then False
          else if level = INTEGRITY_FROZEN \<and> IsDataDescriptor (Some currentDesc) \<and> desc_is_writable currentDesc
          then False
          else test_loop strs h O' level ks)"

definition TestIntegrityLevel :: "(ejsval \<Rightarrow> int32 option) \<Rightarrow> strings \<Rightarrow> objects \<Rightarrow> ejsval \<Rightarrow> IntegrityLevel \<Rightarrow> bool" where
  "TestIntegrityLevel index_key strs h O' level =
     (if ejs_object_specop_is_extensible h O' then False
      else test_loop strs h O' level (ejs_object_specop_own_property_keys index_key h O'))"

definition ejs_object_freeze ::
  "(ejsval \<Rightarrow> int32 option) \<Rightarrow> strings \<Rightarrow> ejsval \<Rightarrow> objects \<Rightarrow> ejsval outcome \<times> objects" where
  "ejs_object_freeze index_key strs O' h =
     (if \<not> is_object O' then (Return O', h)
      else case SetIntegrityLevel index_key strs O' INTEGRITY_FROZEN h of
        (Return status, h) \<Rightarrow> (if \<not> status then Throws TypeError else Return O', h)
      | (Throws e, h) \<Rightarrow> (Throws e, h)
      | (Aborts, h) \<Rightarrow> (Aborts, h))"

definition ejs_Object_seal ::
  "(ejsval \<Rightarrow> int32 option) \<Rightarrow> strings \<Rightarrow> ejsval \<Rightarrow> objects \<Rightarrow> ejsval outcome \<times> objects" where
  "ejs_Object_seal index_key strs O' h =
     (if \<not> is_object O' then (Return O', h)
      else case SetIntegrityLevel index_key strs O' INTEGRITY_SEALED h of
        (Return status, h) \<Rightarrow> (if \<not> status then Throws TypeError else Return O', h)
      | (Throws e, h) \<Rightarrow> (Throws e, h)
      | (Aborts, h) \<Rightarrow> (Aborts, h))"

definition ejs_Object_isFrozen :: "(ejsval \<Rightarrow> int32 option) \<Rightarrow> strings \<Rightarrow> objects \<Rightarrow> ejsval \<Rightarrow> bool" where
  "ejs_Object_isFrozen index_key strs h O' =
     (if \<not> is_object O' then True else TestIntegrityLevel index_key strs h O' INTEGRITY_FROZEN)"

definition ejs_Object_isSealed :: "(ejsval \<Rightarrow> int32 option) \<Rightarrow> strings \<Rightarrow> objects \<Rightarrow> ejsval \<Rightarrow> bool" where
  "ejs_Object_isSealed index_key strs h O' =
     (if \<not> is_object O' then True else TestIntegrityLevel index_key strs h O' INTEGRITY_SEALED)"

definition ejs_Object_preventExtensions :: "ejsval \<Rightarrow> objects \<Rightarrow> ejsval outcome \<times> objects" where
  "ejs_Object_preventExtensions O' h =
     (if \<not> is_object O' then (Return O', h)
      else let (status, h) = ejs_object_specop_preventextensions O' h in
        (if \<not> status then Throws TypeError else Return O', h))"

definition ejs_Object_isExtensible :: "objects \<Rightarrow> ejsval \<Rightarrow> bool" where
  "ejs_Object_isExtensible h O' = (if \<not> is_object O' then False else ejs_object_specop_is_extensible h O')"

definition Get :: "strings \<Rightarrow> objects \<Rightarrow> ejsval \<Rightarrow> ejsval \<Rightarrow> get_result option" where
  "Get strs h O' P = ejs_assert (is_object O') (ejs_object_specop_get strs h O' P O')"

definition Put :: "strings \<Rightarrow> ejsval \<Rightarrow> ejsval \<Rightarrow> ejsval \<Rightarrow> bool \<Rightarrow> objects \<Rightarrow> (set_result \<times> objects) option" where
  "Put strs O' P V Throw h =
     ejs_assert (is_object O')
       (map_option (\<lambda>(r, h). (if r = SetDone (Return False) \<and> Throw then SetDone (Throws TypeError) else r, h))
          (ejs_object_specop_set strs O' P V O' h))"

definition HasProperty :: "strings \<Rightarrow> objects \<Rightarrow> ejsval \<Rightarrow> ejsval \<Rightarrow> bool outcome option" where
  "HasProperty strs h argument property =
     (if \<not> is_object argument then Some (Throws TypeError)
      else map_option Return (ejs_object_specop_has_property strs h argument property))"

definition DeletePropertyOrThrow :: "strings \<Rightarrow> ejsval \<Rightarrow> ejsval \<Rightarrow> objects \<Rightarrow> bool outcome \<times> objects" where
  "DeletePropertyOrThrow strs argument property h =
     (if \<not> is_object argument then (Throws TypeError, h)
      else case ejs_object_specop_delete strs argument property True h of
        (Return False, h) \<Rightarrow> (Throws TypeError, h)
      | r \<Rightarrow> r)"

definition EnumerableOwnNames :: "(ejsval \<Rightarrow> int32 option) \<Rightarrow> strings \<Rightarrow> objects \<Rightarrow> ejsval \<Rightarrow> ejsval list" where
  "EnumerableOwnNames index_key strs h O' =
     filter (\<lambda>key. EJSVAL_IS_STRING_IMPL key \<and>
         (case ejs_object_specop_get_own_property strs h O' key of
            None \<Rightarrow> False | Some d \<Rightarrow> desc_is_enumerable d))
       (ejs_object_specop_own_property_keys index_key h O')"

definition ejs_Object_prototype_hasOwnProperty :: "strings \<Rightarrow> objects \<Rightarrow> ejsval \<Rightarrow> ejsval \<Rightarrow> bool" where
  "ejs_Object_prototype_hasOwnProperty strs h this needle =
     (ejs_object_specop_get_own_property strs h this needle \<noteq> None)"

definition ejs_Object_prototype_propertyIsEnumerable :: "strings \<Rightarrow> objects \<Rightarrow> ejsval \<Rightarrow> ejsval \<Rightarrow> bool" where
  "ejs_Object_prototype_propertyIsEnumerable strs h this P =
     (case ejs_object_specop_get_own_property strs h this P of
        None \<Rightarrow> False | Some d \<Rightarrow> desc_is_enumerable d)"

partial_function (option) proto_of_loop :: "objects \<Rightarrow> ejsval \<Rightarrow> ejsval \<Rightarrow> bool option" where
  "proto_of_loop h O' V =
     (let V = ejs_object_specop_get_prototype_of h V in
      if EJSVAL_IS_NULL_IMPL V then Some False
      else if O' = V then Some True
      else proto_of_loop h O' V)"

definition ejs_Object_prototype_isPrototypeOf :: "objects \<Rightarrow> ejsval \<Rightarrow> ejsval \<Rightarrow> bool option" where
  "ejs_Object_prototype_isPrototypeOf h this V =
     (if \<not> is_object V then Some False else proto_of_loop h this V)"

section \<open>Scanning\<close>

text \<open>The values that the collector is told about.\<close>

definition scan_property :: "ejsval \<times> EJSPropertyDesc \<Rightarrow> ejsval list" where
  "scan_property p = (case p of (k, d) \<Rightarrow>
     k # (if desc_has_value d then [value_or_getter d] else []) @
     (if desc_has_getter d then [value_or_getter d] else []) @ (if desc_has_setter d then [setter d] else []))"

definition ejs_object_specop_scan :: "EJSObject \<Rightarrow> ejsval list" where
  "ejs_object_specop_scan obj = concat (map scan_property (props obj)) @ [proto obj]"

end
