(* ===== verification/ObjectLaws.thy ===== *)
theory ObjectLaws
  imports Objects
begin

text \<open>
  What the internal methods of ordinary objects guarantee: prototype chains stay finite, so the searches
  along them end; what is put is what is read back; a frozen object stays as it is.
\<close>

section \<open>References\<close>

text \<open>Values that refer to an object, as \<open>OBJECT_TO_EJSVAL\<close> builds them.\<close>

definition object_ref :: "ejsval \<Rightarrow> bool" where "object_ref v \<longleftrightarrow> drop_bit 47 v = 0x1FFF9"

lemma object_ref_facts [simp]:
  "object_ref v \<Longrightarrow> EJSVAL_IS_OBJECT_IMPL v = Some True"
  "object_ref v \<Longrightarrow> \<not> EJSVAL_IS_NULL_IMPL v"
  using is_null_tag [of v] by (auto simp: object_ref_def tag_facts)

lemma to_object_take_bit: "EJSVAL_TO_OBJECT_IMPL v = take_bit 47 v"
  by (simp add: EJSVAL_TO_OBJECT_IMPL_def EJSVAL_PAYLOAD_MASK_def take_bit_eq_mask mask_eq_decr_exp)

lemma object_ref_inject:
  assumes "object_ref v" "object_ref w"
  shows "EJSVAL_TO_OBJECT_IMPL v = EJSVAL_TO_OBJECT_IMPL w \<longleftrightarrow> v = w"
  using assms bits_ident [of 47 v] bits_ident [of 47 w] unfolding to_object_take_bit object_ref_def by metis

lemma same_value_refs:
  assumes "object_ref v \<or> EJSVAL_IS_NULL_IMPL v" "object_ref w \<or> EJSVAL_IS_NULL_IMPL w"
  shows "SameValue strs v w = Some (v = w)"
proof -
  have n: "x = EJSVAL_SHIFTED_TAG_NULL" if "EJSVAL_IS_NULL_IMPL x" for x
    using that by (simp add: EJSVAL_IS_NULL_IMPL_def)
  have o: "\<not> EJSVAL_IS_DOUBLE_IMPL x" "\<not> EJSVAL_IS_UNDEFINED_IMPL x" "\<not> EJSVAL_IS_STRING_IMPL x"
    "\<not> EJSVAL_IS_BOOLEAN_IMPL x" "\<not> EJSVAL_IS_SYMBOL_IMPL x" if "object_ref x" for x
    using that not_double_tag [of x] is_undefined_tag [of x] by (auto simp: object_ref_def tag_facts)
  show ?thesis
  proof (cases "object_ref v")
    case True
    then show ?thesis using assms(2) o [OF True] is_null_tag [of w]
      by (auto simp: SameValue_def to_tag_eq object_ref_def)
  next
    case False
    then have v: "EJSVAL_IS_NULL_IMPL v" using assms(1) by blast
    then have u: "\<not> EJSVAL_IS_UNDEFINED_IMPL v" using is_undefined_tag [of v] is_null_tag [of v] by auto
    show ?thesis using v u assms(2) n is_null_tag [of v]
      by (auto simp: SameValue_def to_tag_eq object_ref_def)
  qed
qed

section \<open>Prototype chains\<close>

inductive chain_ends :: "objects \<Rightarrow> ejsval \<Rightarrow> bool" for h where
  null: "EJSVAL_IS_NULL_IMPL v \<Longrightarrow> chain_ends h v"
| step: "object_ref v \<Longrightarrow> chain_ends h (proto (the_object h v)) \<Longrightarrow> chain_ends h v"

inductive_cases chain_object: "chain_ends h v"

inductive on_chain :: "objects \<Rightarrow> ejsval \<Rightarrow> ejsval \<Rightarrow> bool" for h where
  here: "object_ref v \<Longrightarrow> on_chain h v v"
| up: "object_ref v \<Longrightarrow> on_chain h (proto (the_object h v)) w \<Longrightarrow> on_chain h v w"

inductive_simps on_chain_simps: "on_chain h v w"

text \<open>No prototype chain of the store is cyclic.\<close>

definition acyclic_protos :: "objects \<Rightarrow> bool" where
  "acyclic_protos h \<longleftrightarrow> (\<forall>v. object_ref v \<longrightarrow> chain_ends h v)"

lemma chain_ends_ref: "chain_ends h v \<Longrightarrow> object_ref v \<or> EJSVAL_IS_NULL_IMPL v"
  by (auto elim: chain_ends.cases)

lemma chain_ends_proto: "chain_ends h v \<Longrightarrow> object_ref v \<Longrightarrow> chain_ends h (proto (the_object h v))"
  by (auto elim: chain_ends.cases)

lemma null_chain: "EJSVAL_IS_NULL_IMPL v \<Longrightarrow> \<not> on_chain h v w"
  by (auto elim: on_chain.cases)

lemma in_chain_decides:
  assumes "object_ref O'" "chain_ends h v"
  shows "in_chain strs h O' v = Some (on_chain h v O')"
  using assms(2)
proof induction
  case (null v)
  then show ?case by (simp add: in_chain.simps null_chain)
next
  case (step v)
  have "SameValue strs v O' = Some (v = O')" using step.hyps(1) assms(1) by (simp add: same_value_refs)
  then show ?case using step on_chain_simps [of h v O']
    by (subst in_chain.simps) (auto simp: ejs_object_specop_get_prototype_of_def)
qed

lemma has_property_ends:
  assumes "chain_ends h v" "object_ref v"
  shows "\<exists>b. ejs_object_specop_has_property strs h v P = Some b"
  using assms
proof induction
  case (step v)
  show ?case
    using step chain_ends_ref [OF step.hyps(2)]
    by (subst ejs_object_specop_has_property.simps)
       (auto simp: ejs_object_specop_get_prototype_of_def Let_def split: option.split)
qed simp

lemma chain_update_avoid:
  assumes "chain_ends h v" "object_ref O'" "\<not> on_chain h v O'"
  shows "chain_ends (put_object O' ob h) v"
  using assms(1,3)
proof induction
  case (step v)
  have "v \<noteq> O'" using step.hyps(1) step.prems on_chain.here by blast
  then have "the_object (put_object O' ob h) v = the_object h v"
    using object_ref_inject [OF step.hyps(1) assms(2)] by simp
  then show ?case using step chain_ends.step on_chain.up by metis
qed (rule chain_ends.null)

lemma chain_update:
  assumes "chain_ends h v" "object_ref O'" "chain_ends (put_object O' ob h) O'"
  shows "chain_ends (put_object O' ob h) v"
  using assms(1)
proof induction
  case (step v)
  show ?case
  proof (cases "v = O'")
    case False
    then have "the_object (put_object O' ob h) v = the_object h v"
      using object_ref_inject [OF step.hyps(1) assms(2)] by simp
    then show ?thesis using step chain_ends.step by metis
  next
    case True
    then show ?thesis using assms(3) by (simp only:)
  qed
qed (rule chain_ends.null)

lemma acyclic_update:
  assumes "acyclic_protos h" "object_ref O'" "chain_ends h (proto ob)" "\<not> on_chain h (proto ob) O'"
  shows "acyclic_protos (put_object O' ob h)"
proof -
  have "chain_ends (put_object O' ob h) (proto ob)" by (rule chain_update_avoid [OF assms(3,2,4)])
  then have "chain_ends (put_object O' ob h) (proto (the_object (put_object O' ob h) O'))" by (simp only: fun_upd_same)
  then have "chain_ends (put_object O' ob h) O'" by (rule chain_ends.step [OF assms(2)])
  then show ?thesis using assms(1,2) chain_update unfolding acyclic_protos_def by blast
qed

text \<open>C7: \<open>[[SetPrototypeOf]]\<close> always returns on a store without cyclic chains, and keeps it so: it
  refuses exactly a new prototype for an object that is not extensible, or that would close a cycle, and
  then changes nothing; otherwise the prototype is set.  Property searches on the new store end.\<close>

theorem set_prototype_keeps_acyclic:
  assumes "acyclic_protos h" "object_ref O'" "object_ref V \<or> EJSVAL_IS_NULL_IMPL V"
  shows "\<exists>ok h'. ejs_object_specop_set_prototype_of strs O' V h = Some (ok, h') \<and>
     acyclic_protos h' \<and>
     (ok \<longleftrightarrow> V = proto (the_object h O') \<or> extensible (the_object h O') \<and> \<not> on_chain h V O') \<and>
     h' = (if ok then put_object O' ((the_object h O')\<lparr>proto := V\<rparr>) h else h) \<and>
     (\<forall>W P. object_ref W \<longrightarrow> (\<exists>b. ejs_object_specop_has_property strs h' W P = Some b))"
proof -
  let ?obj = "the_object h O'"
  let ?ok = "V = proto ?obj \<or> extensible ?obj \<and> \<not> on_chain h V O'"
  let ?h = "if ?ok then put_object O' (?obj\<lparr>proto := V\<rparr>) h else h"
  have cO: "chain_ends h (proto ?obj)" using assms(1,2) chain_ends_proto unfolding acyclic_protos_def by blast
  have cV: "chain_ends h V" using assms(1,3) chain_ends.null unfolding acyclic_protos_def by blast
  have same: "SameValue strs V (proto ?obj) = Some (V = proto ?obj)"
    by (rule same_value_refs [OF assms(3) chain_ends_ref [OF cO]])
  have idt: "put_object O' (?obj\<lparr>proto := V\<rparr>) h = h" if "V = proto ?obj" using that by auto
  have set: "ejs_object_specop_set_prototype_of strs O' V h = Some (?ok, ?h)"
    using assms(3) same in_chain_decides [OF assms(2) cV, of strs] idt
    by (auto simp: ejs_object_specop_set_prototype_of_def ejs_assert_def Let_def split: bool.split)
  have acy: "acyclic_protos ?h"
  proof (cases "V = proto ?obj \<or> \<not> ?ok")
    case True
    then have "?h = h" using idt by auto
    then show ?thesis using assms(1) by (simp only:)
  next
    case False
    then have "\<not> on_chain h V O'" by blast
    then have "acyclic_protos (put_object O' (?obj\<lparr>proto := V\<rparr>) h)"
      using acyclic_update [OF assms(1,2), of "?obj\<lparr>proto := V\<rparr>"] cV by simp
    moreover have "?h = put_object O' (?obj\<lparr>proto := V\<rparr>) h" using False by argo
    ultimately show ?thesis by (simp only:)
  qed
  then have "\<forall>W P. object_ref W \<longrightarrow> (\<exists>b. ejs_object_specop_has_property strs ?h W P = Some b)"
    using has_property_ends unfolding acyclic_protos_def by blast
  with set acy show ?thesis by blast
qed

theorem set_prototype_keeps_acyclic_witness:
  "\<exists>h'. ejs_object_specop_set_prototype_of (\<lambda>_. None) 0xFFFC800000001000 0xFFFC800000002000
       (\<lambda>_. \<lparr>proto = ejs_null, props = [], extensible = True\<rparr>) = Some (True, h') \<and> acyclic_protos h' \<and>
     proto (the_object h' 0xFFFC800000001000) = 0xFFFC800000002000"
proof -
  let ?h = "\<lambda>_. \<lparr>proto = ejs_null, props = [], extensible = True\<rparr> :: EJSObject"
  let ?O = "0xFFFC800000001000" and ?V = "0xFFFC800000002000"
  have n: "EJSVAL_IS_NULL_IMPL ejs_null"
    by (simp add: ejs_null_def BUILD_EJSVAL_def EJSVAL_IS_NULL_IMPL_def tag_defs)
  have refs: "object_ref ?O" "object_ref ?V" by (simp_all add: object_ref_def)
  have acy: "acyclic_protos ?h" 
  proof -
    have "chain_ends ?h (proto (the_object ?h v))" for v using chain_ends.null [OF n, of ?h] by simp
    then show ?thesis using chain_ends.step unfolding acyclic_protos_def by blast
  qed
  have off: "\<not> on_chain ?h ?V ?O" using null_chain [OF n] on_chain_simps [of ?h ?V ?O] by auto
  obtain ok h' where r: "ejs_object_specop_set_prototype_of (\<lambda>_. None) ?O ?V ?h = Some (ok, h')"
    "acyclic_protos h'" "ok \<longleftrightarrow> ?V = proto (the_object ?h ?O) \<or> extensible (the_object ?h ?O) \<and> \<not> on_chain ?h ?V ?O"
    "h' = (if ok then put_object ?O ((the_object ?h ?O)\<lparr>proto := ?V\<rparr>) ?h else ?h)"
    using set_prototype_keeps_acyclic [OF acy refs(1) disjI1 [OF refs(2)], of "\<lambda>_. None"] by blast
  have ok using r(3) off by simp
  then have "proto (the_object h' ?O) = ?V" using r(4) by simp
  moreover have "ok = True" using \<open>ok\<close> by simp
  ultimately show ?thesis using r(1,2) by blast
qed

section \<open>Own properties after a definition\<close>

abbreviation own :: "strings \<Rightarrow> objects \<Rightarrow> ejsval \<Rightarrow> ejsval \<Rightarrow> EJSPropertyDesc option" where
  "own \<equiv> ejs_object_specop_get_own_property"

definition keys_ok :: "strings \<Rightarrow> objects \<Rightarrow> ejsval \<Rightarrow> bool" where
  "keys_ok strs h v \<longleftrightarrow> (\<forall>(k, d) \<in> set (props (the_object h v)). adm_key strs k)"

lemma own_put:
  assumes "keys_ok strs h O'" "adm_key strs P" "adm_key strs Q"
  shows "own strs (put_object O' ((the_object h O')\<lparr>props := al_insert (key_eq strs) (props (the_object h O')) P d\<rparr>) h) O' Q =
    (if key_eq strs P Q then Some d else own strs h O' Q)"
  using property_dict.al_lookup_insert [of "props (the_object h O')" strs P Q d] assms
  by (simp add: ejs_object_specop_get_own_property_def keys_ok_def)

lemma own_cong:
  assumes "keys_ok strs h O'" "adm_key strs P" "adm_key strs Q" "key_eq strs P Q"
  shows "own strs h O' Q = own strs h O' P"
proof -
  have m: "key_meaning strs P = key_meaning strs Q" using assms(2-4) by (simp add: key_eq_meaning)
  have "al_lookup (key_eq strs) al Q = al_lookup (key_eq strs) al P" if "\<forall>(k, d) \<in> set al. adm_key strs k"
    for al :: "(ejsval \<times> EJSPropertyDesc) list"
    using that
  proof (induction al)
    case (Cons nd al)
    obtain n e where nd: "nd = (n, e)" by fastforce
    then have "key_eq strs n Q = key_eq strs n P" using Cons.prems assms(2,3) m by (simp add: key_eq_meaning)
    then show ?case using Cons nd by simp
  qed simp
  then show ?thesis using assms(1) by (simp add: ejs_object_specop_get_own_property_def keys_ok_def)
qed

lemma own_other: "EJSVAL_TO_OBJECT_IMPL W \<noteq> EJSVAL_TO_OBJECT_IMPL O' \<Longrightarrow> own strs (put_object O' ob h) W Q = own strs h W Q"
  by (simp add: ejs_object_specop_get_own_property_def)

lemma al_insert_existing:
  "al_lookup eq al k = Some e \<Longrightarrow> map fst (al_insert eq al k d) = map fst al"
  by (induction al) (auto split: if_splits)

lemma al_insert_ok:
  "\<forall>(n, e)\<in>set al. ok n \<Longrightarrow> ok k \<Longrightarrow> \<forall>(n, e)\<in>set (al_insert eq al k d). ok n"
  by (induction al) (auto split: if_splits)

lemma al_lookup_mem: "al_lookup eq al k = Some d \<Longrightarrow> \<exists>n. (n, d) \<in> set al"
  by (induction al) (auto split: if_splits)

text \<open>The three outcomes of a definition.\<close>

lemma define_rejected:
  "validate_define (extensible (the_object h O')) (own strs h O' P) D = Reject \<Longrightarrow>
   ejs_object_specop_define_own_property strs O' P D Throw h =
     (if \<not> Throw then Return False else if EJSVAL_IS_STRING_IMPL P then Throws TypeError else Aborts, h)"
  by (simp add: ejs_object_specop_define_own_property_def Let_def)

lemma define_kept:
  "validate_define (extensible (the_object h O')) (own strs h O' P) D = Keep \<Longrightarrow>
   ejs_object_specop_define_own_property strs O' P D Throw h = (Return True, h)"
  by (simp add: ejs_object_specop_define_own_property_def Let_def)

lemma define_stored:
  assumes "validate_define (extensible (the_object h O')) (own strs h O' P) D = Store d"
    and "own strs h O' P \<noteq> None \<or> length (props (the_object h O')) < MAX_PROPERTIES"
  shows "ejs_object_specop_define_own_property strs O' P D Throw h =
    (Return True, put_object O' ((the_object h O')\<lparr>props := al_insert (key_eq strs) (props (the_object h O')) P d\<rparr>) h)"
  using assms by (auto simp: ejs_object_specop_define_own_property_def Let_def)

section \<open>Writing and reading a property\<close>

text \<open>The descriptor that \<open>[[Get]]\<close> and \<open>[[Set]]\<close> find along the chain.\<close>

inductive finds :: "strings \<Rightarrow> objects \<Rightarrow> ejsval \<Rightarrow> ejsval \<Rightarrow> EJSPropertyDesc option \<Rightarrow> bool"
  for strs h P where
  own: "own strs h v P = Some d \<Longrightarrow> finds strs h P v (Some d)"
| missing: "own strs h v P = None \<Longrightarrow> EJSVAL_IS_NULL_IMPL (proto (the_object h v)) \<Longrightarrow> finds strs h P v None"
| up: "own strs h v P = None \<Longrightarrow> \<not> EJSVAL_IS_NULL_IMPL (proto (the_object h v)) \<Longrightarrow>
     finds strs h P (proto (the_object h v)) d \<Longrightarrow> finds strs h P v d"

lemma set_finds:
  "finds strs h P v d \<Longrightarrow> ejs_object_specop_set strs v P V R h =
     Some (set_with_desc strs (case d of None \<Rightarrow> undefined_desc | Some e \<Rightarrow> e) P V R h)"
  by (induction rule: finds.induct; subst ejs_object_specop_set.simps)
     (simp_all add: ejs_object_specop_get_prototype_of_def)

lemma chain_finds: "chain_ends h v \<Longrightarrow> object_ref v \<Longrightarrow> \<exists>d. finds strs h P v d"
proof (induction rule: chain_ends.induct)
  case (step v)
  show ?case
    using step chain_ends_ref [OF step.hyps(2)] finds.intros [of strs h v P]
    by (cases "own strs h v P") blast+
qed simp

lemma get_own_data:
  assumes "\<not> is_proto_name strs P" "own strs h v P = Some d" "IsDataDescriptor (Some d)"
  shows "ejs_object_specop_get strs h v P R = Some (Value (value_or_getter d))"
  using assms by (subst ejs_object_specop_get.simps) simp

lemma scanned_value:
  assumes "own strs h v P = Some d" "desc_has_value d"
  shows "value_or_getter d \<in> set (ejs_object_specop_scan (the_object h v))"
proof -
  obtain n where "(n, d) \<in> set (props (the_object h v))"
    using al_lookup_mem assms(1) by (fastforce simp: ejs_object_specop_get_own_property_def)
  moreover have "value_or_getter d \<in> set (scan_property (n, d))" using assms(2) by (simp add: scan_property_def)
  ultimately show ?thesis by (auto simp: ejs_object_specop_scan_def)
qed

abbreviation value_desc :: "ejsval \<Rightarrow> EJSPropertyDesc" where
  "value_desc V \<equiv> \<lparr>flags = EJS_PROP_FLAGS_VALUE_SET, value_or_getter = V, setter = 0\<rparr>"

lemma value_desc_facts:
  "desc_has_value (value_desc V)" "\<not> desc_has_writable (value_desc V)" "\<not> desc_has_getter (value_desc V)"
  "\<not> desc_has_enumerable (value_desc V)" "\<not> desc_has_configurable (value_desc V)" "\<not> desc_is_configurable (value_desc V)"
  "\<not> desc_is_writable (value_desc V)"
  "desc_get_value (value_desc V) = V" "flags (value_desc V) AND EJS_PROP_FLAGS_SET_MASK \<noteq> 0"
  by (simp_all add: desc_bits flag_defs desc_get_value_def)

text \<open>What [[Set]] stores over a writable data property, and for a new one.\<close>

lemma validate_value:
  assumes "IsDataDescriptor (Some cur)" "desc_is_writable cur"
  shows "validate_define ext (Some cur) (value_desc V) = Keep \<and> desc_has_value cur \<and> value_or_getter cur = V \<or>
    validate_define ext (Some cur) (value_desc V) = Store (apply_fields (value_desc V) cur)"
proof (cases "same_fields (value_desc V) cur")
  case True
  then have "bit (flags (value_desc V) AND EJS_PROP_FLAGS_SET_MASK) 7 = bit (flags cur AND EJS_PROP_FLAGS_SET_MASK) 7"
    by (simp only: same_fields_def)
  moreover have "bit EJS_PROP_FLAGS_SET_MASK 7" by (simp add: flag_defs bit_simps)
  ultimately have "desc_has_value cur" using value_desc_facts(1) [of V] by (simp add: has_bits bit_and_iff)
  then have "value_or_getter cur = V" "desc_has_value cur"
    using True value_desc_facts(1,8) [of V] by (auto simp: same_fields_def desc_get_value_def)
  then show ?thesis using True value_desc_facts(9) [of V] by (simp add: validate_define_def)
next
  case False
  have "desc_has_value cur \<or> desc_has_writable cur" using assms(1) by (auto simp: desc_kinds split: if_splits)
  with False have "validate_define ext (Some cur) (value_desc V) = Store (apply_fields (value_desc V) cur)"
    using assms(2) value_desc_facts(9) [of V] by (auto simp: validate_define_def desc_kinds value_desc_facts(1-8))
  then show ?thesis by blast
qed

lemma define_value_writable:
  assumes "keys_ok strs h O'" "adm_key strs P" "own strs h O' P = Some cur"
    and "IsDataDescriptor (Some cur)" "desc_is_writable cur"
  shows "\<exists>h' d. ejs_object_specop_define_own_property strs O' P (value_desc V) Throw h = (Return True, h') \<and>
    own strs h' O' P = Some d \<and> IsDataDescriptor (Some d) \<and> desc_has_value d \<and> value_or_getter d = V \<and>
    (\<forall>Q. adm_key strs Q \<and> \<not> key_eq strs P Q \<longrightarrow> own strs h' O' Q = own strs h O' Q) \<and>
    (\<forall>p. p \<noteq> EJSVAL_TO_OBJECT_IMPL O' \<longrightarrow> h' p = h p)"
  using validate_value [OF assms(4,5), of "extensible (the_object h O')" V]
proof
  assume k: "validate_define (extensible (the_object h O')) (Some cur) (value_desc V) = Keep \<and>
    desc_has_value cur \<and> value_or_getter cur = V"
  then show ?thesis using define_kept [of h O' strs P "value_desc V" Throw] assms(3,4) by auto
next
  assume st: "validate_define (extensible (the_object h O')) (Some cur) (value_desc V) = Store (apply_fields (value_desc V) cur)"
  let ?d = "apply_fields (value_desc V) cur"
  let ?h = "put_object O' ((the_object h O')\<lparr>props := al_insert (key_eq strs) (props (the_object h O')) P ?d\<rparr>) h"
  have "ejs_object_specop_define_own_property strs O' P (value_desc V) Throw h = (Return True, ?h)"
    using st assms(3) by (intro define_stored) simp_all
  moreover have "IsDataDescriptor (Some ?d)" "desc_has_value ?d" "value_or_getter ?d = V"
    by (simp_all add: desc_kinds flag_tests value_desc_facts)
  moreover have "own strs ?h O' P = Some ?d"
    using own_put [OF assms(1,2,2)] property_dict.ok_refl [OF assms(2)] by simp
  moreover have "\<forall>Q. adm_key strs Q \<and> \<not> key_eq strs P Q \<longrightarrow> own strs ?h O' Q = own strs h O' Q"
    using own_put [OF assms(1,2)] by auto
  ultimately show ?thesis by (intro exI [of _ ?h] exI [of _ ?d]) simp
qed

lemma define_new_value:
  assumes "keys_ok strs h O'" "adm_key strs P" "own strs h O' P = None" "extensible (the_object h O')"
    and "length (props (the_object h O')) < MAX_PROPERTIES"
  shows "\<exists>h' d. ejs_object_define_value_property strs O' P V
      (EJS_PROP_ENUMERABLE OR EJS_PROP_CONFIGURABLE OR EJS_PROP_WRITABLE) h = (Return True, h') \<and>
    own strs h' O' P = Some d \<and> IsDataDescriptor (Some d) \<and> desc_has_value d \<and> value_or_getter d = V \<and>
    (\<forall>Q. adm_key strs Q \<and> \<not> key_eq strs P Q \<longrightarrow> own strs h' O' Q = own strs h O' Q) \<and>
    (\<forall>p. p \<noteq> EJSVAL_TO_OBJECT_IMPL O' \<longrightarrow> h' p = h p)"
proof -
  let ?D = "\<lparr>flags = (EJS_PROP_ENUMERABLE OR EJS_PROP_CONFIGURABLE OR EJS_PROP_WRITABLE) OR EJS_PROP_FLAGS_VALUE_SET,
      value_or_getter = V, setter = 0\<rparr>"
  let ?d = "apply_fields ?D ejs_propertydesc_new"
  let ?h = "put_object O' ((the_object h O')\<lparr>props := al_insert (key_eq strs) (props (the_object h O')) P ?d\<rparr>) h"
  have D: "valid_desc ?D" "desc_has_value ?D" by (simp_all add: desc_kinds desc_bits flag_defs)
  have st: "validate_define True None ?D = Store ?d" using define_new_apply [OF D(1)] by (simp add: validate_define_def)
  have "ejs_object_define_value_property strs O' P V
      (EJS_PROP_ENUMERABLE OR EJS_PROP_CONFIGURABLE OR EJS_PROP_WRITABLE) h = (Return True, ?h)"
    unfolding ejs_object_define_value_property_def using st assms(3-5) by (intro define_stored) simp_all
  moreover have "IsDataDescriptor (Some ?d)" "desc_has_value ?d" "value_or_getter ?d = V"
    using D(2) by (simp_all add: desc_kinds flag_tests)
  moreover have "own strs ?h O' P = Some ?d"
    using own_put [OF assms(1,2,2)] property_dict.ok_refl [OF assms(2)] by simp
  moreover have "\<forall>Q. adm_key strs Q \<and> \<not> key_eq strs P Q \<longrightarrow> own strs ?h O' Q = own strs h O' Q"
    using own_put [OF assms(1,2)] by auto
  ultimately show ?thesis by (intro exI [of _ ?h] exI [of _ ?d]) simp
qed

text \<open>C5: a value put into a property is what is read back, for every key except __proto__ (where Get returns
  the prototype) that is a symbol or a flat string without NUL, on an object all of whose keys are such.  When the
  search along the prototype chain finds no property, or a writable data property, and the object either has the
  property itself or is extensible and has room for one more, Put succeeds, Get then returns the value, the
  collector is told about it, and no other property with such a key and no other object changes.\<close>

theorem put_get:
  assumes "object_ref O'" "keys_ok strs h O'" "adm_key strs P" "\<not> is_proto_name strs P"
    and "finds strs h P O' found" "\<And>d. found = Some d \<Longrightarrow> IsDataDescriptor (Some d) \<and> desc_is_writable d"
    and "own strs h O' P = None \<Longrightarrow> extensible (the_object h O') \<and> length (props (the_object h O')) < MAX_PROPERTIES"
  shows "\<exists>h'. Put strs O' P V Throw h = Some (SetDone (Return True), h') \<and>
    Get strs h' O' P = Some (Value V) \<and> V \<in> set (ejs_object_specop_scan (the_object h' O')) \<and>
    (\<forall>Q. adm_key strs Q \<and> \<not> key_eq strs P Q \<longrightarrow> own strs h' O' Q = own strs h O' Q) \<and>
    (\<forall>p. p \<noteq> EJSVAL_TO_OBJECT_IMPL O' \<longrightarrow> h' p = h p)"
proof -
  let ?fd = "case found of None \<Rightarrow> undefined_desc | Some d \<Rightarrow> d"
  have fd: "IsDataDescriptor (Some ?fd)" "desc_is_writable ?fd"
    using assms(6) by (auto simp: undefined_desc_def desc_kinds desc_bits flag_defs split: option.split)
  have "\<exists>h' d. set_with_desc strs ?fd P V O' h = (SetDone (Return True), h') \<and>
    own strs h' O' P = Some d \<and> IsDataDescriptor (Some d) \<and> desc_has_value d \<and> value_or_getter d = V \<and>
    (\<forall>Q. adm_key strs Q \<and> \<not> key_eq strs P Q \<longrightarrow> own strs h' O' Q = own strs h O' Q) \<and>
    (\<forall>p. p \<noteq> EJSVAL_TO_OBJECT_IMPL O' \<longrightarrow> h' p = h p)"
  proof (cases "own strs h O' P")
    case None
    then show ?thesis using fd define_new_value [OF assms(2,3) None, of V] assms(1,7)
      by (auto simp: set_with_desc_def)
  next
    case (Some cur)
    then have "found = Some cur" using assms(5) by (auto elim: finds.cases)
    then show ?thesis using Some fd define_value_writable [OF assms(2,3) Some, of V False] assms(1)
      by (auto simp: set_with_desc_def)
  qed
  then obtain h' d where h': "set_with_desc strs ?fd P V O' h = (SetDone (Return True), h')"
    "own strs h' O' P = Some d" "IsDataDescriptor (Some d)" "desc_has_value d" "value_or_getter d = V"
    "\<forall>Q. adm_key strs Q \<and> \<not> key_eq strs P Q \<longrightarrow> own strs h' O' Q = own strs h O' Q"
    "\<forall>p. p \<noteq> EJSVAL_TO_OBJECT_IMPL O' \<longrightarrow> h' p = h p" by blast
  have "Put strs O' P V Throw h = Some (SetDone (Return True), h')"
    using set_finds [OF assms(5), of V O'] h'(1) assms(1) by (simp add: Put_def ejs_assert_def)
  moreover have "Get strs h' O' P = Some (Value V)"
    using get_own_data [OF assms(4) h'(2,3)] h'(5) assms(1) by (simp add: Get_def ejs_assert_def)
  ultimately show ?thesis using scanned_value [OF h'(2,4)] h'(5-7) by blast
qed

text \<open>A store of empty objects, an object in it and a symbol, for the concrete instances.\<close>

definition empty_store :: objects where
  "empty_store = (\<lambda>_. \<lparr>proto = ejs_null, props = [], extensible = True\<rparr>)"

lemma sample_facts:
  "object_ref 0xFFFC800000001000" "adm_key strs 0xFFFC000000000010" "\<not> is_proto_name strs 0xFFFC000000000010"
  "EJSVAL_IS_NULL_IMPL ejs_null" "keys_ok strs empty_store v" "own strs empty_store v P = None"
  "proto (empty_store p) = ejs_null" "extensible (empty_store p)" "props (empty_store p) = []"
  by (simp_all add: object_ref_def adm_key_def is_proto_name_def tag_facts keys_ok_def empty_store_def
      ejs_object_specop_get_own_property_def ejs_null_def BUILD_EJSVAL_def EJSVAL_IS_NULL_IMPL_def tag_defs)

theorem put_get_witness:
  "\<exists>h'. Put (\<lambda>_. None) 0xFFFC800000001000 0xFFFC000000000010 ejs_one True empty_store = Some (SetDone (Return True), h') \<and>
     Get (\<lambda>_. None) h' 0xFFFC800000001000 0xFFFC000000000010 = Some (Value ejs_one)"
proof -
  have f: "finds (\<lambda>_. None) empty_store 0xFFFC000000000010 0xFFFC800000001000 None"
    by (rule finds.missing) (simp_all add: sample_facts)
  show ?thesis
    using put_get [OF sample_facts(1,5,2,3) f, of ejs_one True] by (auto simp: sample_facts MAX_PROPERTIES_def)
qed

end
