(* ===== verification/Integrity.thy ===== *)
theory Integrity
  imports ObjectLaws
begin

text \<open>
  \<open>Object.freeze\<close> and what it guarantees against every later operation on the store of objects.
\<close>

section \<open>Observing a property\<close>

text \<open>The attributes of a property that a program can see.\<close>

definition desc_view :: "EJSPropertyDesc \<Rightarrow> bool \<times> bool \<times> bool \<times> bool \<times> ejsval \<times> ejsval \<times> ejsval" where
  "desc_view d = (IsDataDescriptor (Some d), desc_is_writable d, desc_is_enumerable d, desc_is_configurable d,
     desc_get_value d, desc_get_getter d, desc_get_setter d)"

text \<open>What freezing may not change.\<close>

definition content_view :: "EJSPropertyDesc \<Rightarrow> bool \<times> bool \<times> ejsval \<times> ejsval \<times> ejsval" where
  "content_view d = (IsDataDescriptor (Some d), desc_is_enumerable d,
     desc_get_value d, desc_get_getter d, desc_get_setter d)"

definition proper :: "EJSPropertyDesc \<Rightarrow> bool" where
  "proper d \<longleftrightarrow> valid_desc d \<and> \<not> IsGenericDescriptor (Some d)"

definition frozen_prop :: "EJSPropertyDesc \<Rightarrow> bool" where
  "frozen_prop d \<longleftrightarrow> proper d \<and> \<not> desc_is_configurable d \<and> \<not> (IsDataDescriptor (Some d) \<and> desc_is_writable d)"

definition frozen :: "strings \<Rightarrow> objects \<Rightarrow> ejsval \<Rightarrow> bool" where
  "frozen strs h v \<longleftrightarrow> keys_ok strs h v \<and> \<not> extensible (the_object h v) \<and>
     (\<forall>Q d. adm_key strs Q \<and> own strs h v Q = Some d \<longrightarrow> frozen_prop d)"

lemma kinds:
  "IsDataDescriptor (Some d) \<longleftrightarrow> desc_has_value d \<or> desc_has_writable d"
  "IsAccessorDescriptor (Some d) \<longleftrightarrow> desc_has_getter d \<or> desc_has_setter d"
  "IsGenericDescriptor (Some d) \<longleftrightarrow> \<not> IsDataDescriptor (Some d) \<and> \<not> IsAccessorDescriptor (Some d)"
  "valid_desc d \<longleftrightarrow> \<not> (IsAccessorDescriptor (Some d) \<and> IsDataDescriptor (Some d))"
  by (auto simp: desc_kinds)

lemma frozen_store:
  assumes "frozen_prop cur" "valid_desc D" "validate_define ext (Some cur) D = Store new"
  shows "frozen_prop new" "desc_view new = desc_view cur"
proof -
  have c: "\<not> desc_is_configurable cur" "valid_desc cur" "\<not> IsGenericDescriptor (Some cur)"
    "IsDataDescriptor (Some cur) \<Longrightarrow> \<not> desc_is_writable cur"
    using assms(1) by (auto simp: frozen_prop_def proper_def)
  have new: "new = apply_fields D cur"
    and kind: "IsGenericDescriptor (Some D) \<or> IsDataDescriptor (Some D) = IsDataDescriptor (Some cur)"
    using assms(3) c(1) by (auto simp: validate_define_def split: if_splits)
  note f = nonconfigurable_fields [OF assms(3) c(1,2) assms(2)]
  have acc: "IsAccessorDescriptor (Some new) = IsAccessorDescriptor (Some cur)"
    using kind c(2,3) assms(2) by (auto simp: new kinds flag_tests)
  show "frozen_prop new" using f acc c by (auto simp: frozen_prop_def proper_def kinds(3,4))
  have ac: "desc_get_getter new = desc_get_getter cur" "desc_get_setter new = desc_get_setter cur"
    if "\<not> IsAccessorDescriptor (Some cur)"
    using that acc by (simp_all add: desc_get_getter_def desc_get_setter_def kinds)
  have da: "desc_get_value new = desc_get_value cur" "\<not> desc_is_writable new" "\<not> desc_is_writable cur"
    if "\<not> IsDataDescriptor (Some cur)"
    using that f by (auto simp: desc_get_value_def kinds desc_is_writable_def)
  show "desc_view new = desc_view cur" using f ac da c by (auto simp: desc_view_def)
qed

section \<open>Later operations\<close>

text \<open>The operations that change the store: definitions of valid descriptors, deletions, assignments,
  changes of prototype, and preventing extensions, of any object and key.\<close>

inductive object_step :: "strings \<Rightarrow> objects \<Rightarrow> objects \<Rightarrow> bool" for strs where
  define_step: "valid_desc D \<Longrightarrow> adm_key strs P \<Longrightarrow>
    object_step strs h (snd (ejs_object_specop_define_own_property strs W P D Throw h))"
| delete_step: "adm_key strs P \<Longrightarrow> object_step strs h (snd (ejs_object_specop_delete strs W P Throw h))"
| set_step: "ejs_object_specop_set strs W P V R h = Some (r, h') \<Longrightarrow> adm_key strs P \<Longrightarrow> object_step strs h h'"
| proto_step: "ejs_object_specop_set_prototype_of strs W V h = Some (b, h') \<Longrightarrow> object_step strs h h'"
| prevent_step: "object_step strs h (snd (ejs_object_specop_preventextensions W h))"

inductive_cases object_stepE: "object_step strs h h'"

text \<open>What a step keeps of a frozen object.\<close>

definition same_frozen :: "strings \<Rightarrow> ejsval \<Rightarrow> objects \<Rightarrow> objects \<Rightarrow> bool" where
  "same_frozen strs v h h' \<longleftrightarrow> frozen strs h' v \<and>
     (\<forall>Q. adm_key strs Q \<longrightarrow> map_option desc_view (own strs h' v Q) = map_option desc_view (own strs h v Q))"

lemma same_frozen_refl: "frozen strs h v \<Longrightarrow> same_frozen strs v h h"
  by (simp add: same_frozen_def)

lemma same_frozen_trans: "same_frozen strs v h h' \<Longrightarrow> same_frozen strs v h' h'' \<Longrightarrow> same_frozen strs v h h''"
  by (simp add: same_frozen_def)

lemma frozen_same_object:
  assumes "frozen strs h v" "props (the_object h' v) = props (the_object h v)"
    and "extensible (the_object h' v) = extensible (the_object h v)"
  shows "same_frozen strs v h h'"
  using assms by (simp add: same_frozen_def frozen_def keys_ok_def ejs_object_specop_get_own_property_def)

lemma frozen_define:
  assumes "frozen strs h v" "valid_desc D" "adm_key strs P"
  shows "same_frozen strs v h (snd (ejs_object_specop_define_own_property strs W P D Throw h))"
proof (cases "validate_define (extensible (the_object h W)) (own strs h W P) D")
  case Reject
  then show ?thesis using define_rejected [OF Reject] same_frozen_refl [OF assms(1)] by simp
next
  case Keep
  then show ?thesis using define_kept [OF Keep] same_frozen_refl [OF assms(1)] by simp
next
  case (Store d)
  let ?h = "put_object W ((the_object h W)\<lparr>props := al_insert (key_eq strs) (props (the_object h W)) P d\<rparr>) h"
  show ?thesis
  proof (cases "EJSVAL_TO_OBJECT_IMPL W = EJSVAL_TO_OBJECT_IMPL v")
    case False
    have "the_object (snd (ejs_object_specop_define_own_property strs W P D Throw h)) v = the_object h v"
      using False Store by (simp add: ejs_object_specop_define_own_property_def Let_def)
    then show ?thesis by (intro frozen_same_object [OF assms(1)]) simp_all
  next
    case True
    note same = True [simplified]
    have own: "own strs h W = own strs h v" "the_object h W = the_object h v"
      by (simp_all add: same ejs_object_specop_get_own_property_def fun_eq_iff)
    obtain cur where cur: "own strs h v P = Some cur"
      using Store assms(1) by (auto simp: own validate_define_def frozen_def split: option.splits if_splits)
    have fz: "frozen_prop cur" using assms(1,3) cur by (auto simp: frozen_def)
    have new: "frozen_prop d" "desc_view d = desc_view cur"
      using frozen_store [OF fz assms(2), of "extensible (the_object h v)" d] Store own cur by auto
    have res: "snd (ejs_object_specop_define_own_property strs W P D Throw h) = ?h"
      using define_stored [OF Store, of Throw] cur own by simp
    have put: "own strs ?h v Q = (if key_eq strs P Q then Some d else own strs h v Q)" if "adm_key strs Q" for Q
      using own_put [of strs h v P Q d] assms(1,3) that by (simp add: frozen_def same)
    have cong: "own strs h v Q = Some cur" if "adm_key strs Q" "key_eq strs P Q" for Q
      using own_cong [of strs h v P Q] cur that assms(1,3) by (simp add: frozen_def)
    have "keys_ok strs ?h v"
      using al_insert_ok [of "props (the_object h v)" "adm_key strs" P "key_eq strs" d] assms(1,3)
      by (simp add: keys_ok_def frozen_def same)
    then have "frozen strs ?h v" using assms(1) put new(1) by (auto simp: frozen_def same split: if_splits)
    then show ?thesis unfolding res same_frozen_def using put cong new(2) by auto
  qed
qed

lemma frozen_delete:
  assumes "frozen strs h v" "adm_key strs P"
  shows "same_frozen strs v h (snd (ejs_object_specop_delete strs W P Throw h))"
proof (cases "EJSVAL_TO_OBJECT_IMPL W = EJSVAL_TO_OBJECT_IMPL v")
  case True
  then have "own strs h W P = own strs h v P" by (simp add: ejs_object_specop_get_own_property_def)
  then have "\<not> desc_is_configurable d" if "own strs h W P = Some d" for d
    using that assms by (auto simp: frozen_def frozen_prop_def)
  then have "snd (ejs_object_specop_delete strs W P Throw h) = h"
    by (auto simp: ejs_object_specop_delete_def split: option.split)
  then show ?thesis using same_frozen_refl [OF assms(1)] by simp
next
  case False
  then have "the_object (snd (ejs_object_specop_delete strs W P Throw h)) v = the_object h v"
    by (auto simp: ejs_object_specop_delete_def Let_def split: option.split)
  then show ?thesis by (intro frozen_same_object [OF assms(1)]) simp_all
qed

lemma create_desc_valid:
  "valid_desc \<lparr>flags = (EJS_PROP_ENUMERABLE OR EJS_PROP_CONFIGURABLE OR EJS_PROP_WRITABLE) OR EJS_PROP_FLAGS_VALUE_SET,
     value_or_getter = V, setter = 0\<rparr>" "valid_desc (value_desc V)"
  by (simp_all add: desc_kinds desc_bits flag_defs)

lemma frozen_set_with_desc:
  assumes "frozen strs h v" "adm_key strs P"
  shows "same_frozen strs v h (snd (set_with_desc strs d P V R h))"
  using same_frozen_refl [OF assms(1)] frozen_define [OF assms(1) create_desc_valid(1) assms(2), of R V False]
    frozen_define [OF assms(1) create_desc_valid(2) assms(2), of R V False]
  by (auto simp: set_with_desc_def ejs_object_define_value_property_def split: option.split prod.split)

text \<open>Every [[Set]] that returns acted on some descriptor that it found.\<close>

lemma set_result:
  assumes "ejs_object_specop_set strs W P V R h = Some rh"
  shows "\<exists>d. rh = set_with_desc strs d P V R h"
proof -
  let ?acted = "\<lambda>(((((strs, W), P), V), R), h) rh. \<exists>d. set_with_desc strs d P V R h = rh"
  have "?acted (((((strs, W), P), V), R), h) rh"
    by (rule ejs_object_specop_set.raw_induct [where Pa = ?acted, OF _ assms])
       (auto simp: Let_def split: option.splits if_splits)
  then show ?thesis by auto
qed

lemma frozen_step:
  assumes "object_step strs h h'" "frozen strs h v"
  shows "same_frozen strs v h h'"
  using assms(1)
proof cases
  case (set_step W P V R r)
  then obtain d where "h' = snd (set_with_desc strs d P V R h)" using set_result by (metis snd_conv)
  then show ?thesis using frozen_set_with_desc [OF assms(2) set_step(2)] by simp
next
  case (proto_step W V b)
  then have "props (the_object h' v) = props (the_object h v) \<and> extensible (the_object h' v) = extensible (the_object h v)"
    by (auto simp: ejs_object_specop_set_prototype_of_def Let_def ejs_assert_def split: option.splits bool.splits if_splits)
  then show ?thesis using frozen_same_object [OF assms(2)] by blast
next
  case (prevent_step W)
  then have "props (the_object h' v) = props (the_object h v) \<and> extensible (the_object h' v) = extensible (the_object h v)"
    using assms(2) by (auto simp: ejs_object_specop_preventextensions_def frozen_def)
  then show ?thesis using frozen_same_object [OF assms(2)] by blast
qed (use frozen_define frozen_delete assms(2) in auto)

lemma frozen_steps:
  assumes "(object_step strs)\<^sup>*\<^sup>* h h'" "frozen strs h v"
  shows "same_frozen strs v h h'"
  using assms(1)
proof induction
  case (step h' h'')
  then have "frozen strs h' v" by (simp add: same_frozen_def)
  then show ?case using frozen_step [OF step.hyps(2)] same_frozen_trans [OF step.IH] by blast
qed (rule same_frozen_refl [OF assms(2)])

section \<open>Freezing\<close>

lemma own_keys_set: "set (ejs_object_specop_own_property_keys index_key h v) = fst ` set (props (the_object h v))"
  by (auto simp: ejs_object_specop_own_property_keys_def Let_def)

lemma frozen_passes:
  assumes "frozen strs h v" "\<forall>k\<in>set ks. adm_key strs k"
  shows "test_loop strs h v INTEGRITY_FROZEN ks"
  using assms(2)
proof (induction ks)
  case (Cons k ks)
  then show ?case using assms(1) by (auto simp: frozen_def frozen_prop_def split: option.split)
qed simp

lemma frozen_isFrozen:
  assumes "frozen strs h v"
  shows "ejs_Object_isFrozen index_key strs h v"
proof -
  have "\<forall>k\<in>set (ejs_object_specop_own_property_keys index_key h v). adm_key strs k"
    using assms by (auto simp: own_keys_set frozen_def keys_ok_def)
  then show ?thesis using assms frozen_passes
    by (simp add: ejs_Object_isFrozen_def TestIntegrityLevel_def ejs_object_specop_is_extensible_def frozen_def)
qed

text \<open>One round of the loop: the property becomes frozen, its content stays.\<close>

definition refrozen :: "EJSPropertyDesc \<Rightarrow> EJSPropertyDesc \<Rightarrow> bool" where
  "refrozen d e \<longleftrightarrow> proper e \<and> content_view e = content_view d \<and> (frozen_prop d \<longrightarrow> frozen_prop e)"

lemma refrozen_refl: "proper d \<Longrightarrow> refrozen d d" by (simp add: refrozen_def)
lemma refrozen_trans: "refrozen d e \<Longrightarrow> refrozen e f \<Longrightarrow> refrozen d f" by (simp add: refrozen_def)

lemma frozen_desc_facts:
  "\<not> desc_is_configurable (frozen_desc cur)" "desc_has_configurable (frozen_desc cur)"
  "\<not> desc_is_writable (frozen_desc cur)" "desc_has_writable (frozen_desc cur) \<longleftrightarrow> \<not> IsAccessorDescriptor (Some cur)"
  "\<not> desc_has_enumerable (frozen_desc cur)" "\<not> desc_has_value (frozen_desc cur)"
  "\<not> desc_has_getter (frozen_desc cur)" "\<not> desc_has_setter (frozen_desc cur)"
  by (simp_all add: frozen_desc_def ejs_propertydesc_new_def desc_bits flag_defs)

lemma frozen_desc_mask: "flags (frozen_desc cur) AND EJS_PROP_FLAGS_SET_MASK \<noteq> 0"
proof -
  have "bit (flags (frozen_desc cur) AND EJS_PROP_FLAGS_SET_MASK) 5"
    using frozen_desc_facts(2) [of cur] by (simp add: has_bits bit_and_iff) (simp add: flag_defs bit_simps)
  then show ?thesis by auto
qed

lemma undefined_is_undefined: "EJSVAL_IS_UNDEFINED_IMPL ejs_undefined"
  by (simp add: ejs_undefined_def BUILD_EJSVAL_def EJSVAL_IS_UNDEFINED_IMPL_def tag_defs)

lemma validate_freeze:
  assumes "proper cur"
  shows "\<exists>new. (validate_define ext (Some cur) (frozen_desc cur) = Keep \<and> new = cur \<or>
      validate_define ext (Some cur) (frozen_desc cur) = Store new) \<and> refrozen cur new \<and> frozen_prop new"
proof -
  let ?D = "frozen_desc cur"
  have k: "IsAccessorDescriptor (Some cur) \<longleftrightarrow> \<not> IsDataDescriptor (Some cur)"
    using assms by (auto simp: proper_def kinds)
  note mask = frozen_desc_mask [of cur]
  show ?thesis
  proof (cases "same_fields ?D cur")
    case True
    then have "frozen_prop cur" using assms k frozen_desc_facts [of cur]
      by (auto simp: same_fields_def frozen_prop_def)
    then show ?thesis using True mask assms refrozen_refl by (auto simp: validate_define_def)
  next
    case False
    have "IsGenericDescriptor (Some ?D) \<longleftrightarrow> IsAccessorDescriptor (Some cur)"
      "IsDataDescriptor (Some ?D) \<longleftrightarrow> \<not> IsAccessorDescriptor (Some cur)"
      using frozen_desc_facts [of cur] by (auto simp: kinds)
    with False mask k have st: "validate_define ext (Some cur) ?D = Store (apply_fields ?D cur)"
      using frozen_desc_facts [of cur] by (auto simp: validate_define_def)
    have "proper (apply_fields ?D cur)" "content_view (apply_fields ?D cur) = content_view cur"
      using assms k frozen_desc_facts [of cur]
      by (auto simp: proper_def content_view_def kinds flag_tests desc_get_value_def desc_get_getter_def desc_get_setter_def)
    moreover then have "frozen_prop (apply_fields ?D cur)"
      using k frozen_desc_facts [of cur] by (auto simp: frozen_prop_def flag_tests content_view_def)
    ultimately show ?thesis using st by (auto simp: refrozen_def)
  qed
qed

text \<open>What the loop keeps and what it has frozen so far.\<close>

definition freezing :: "strings \<Rightarrow> ejsval \<Rightarrow> ejsval list \<Rightarrow> objects \<Rightarrow> objects \<Rightarrow> bool" where
  "freezing strs v ks h h' \<longleftrightarrow> keys_ok strs h' v \<and>
     map fst (props (the_object h' v)) = map fst (props (the_object h v)) \<and>
     (\<forall>p. p \<noteq> EJSVAL_TO_OBJECT_IMPL v \<longrightarrow> h' p = h p) \<and>
     (\<forall>Q. adm_key strs Q \<longrightarrow> rel_option refrozen (own strs h v Q) (own strs h' v Q)) \<and>
     (\<forall>Q k d. adm_key strs Q \<and> k \<in> set ks \<and> key_eq strs k Q \<and> own strs h' v Q = Some d \<longrightarrow> frozen_prop d)"

lemma freezing_compose:
  assumes a: "freezing strs v ks h h'" and b: "freezing strs v ls h' h''"
  shows "freezing strs v (ks @ ls) h h''"
proof -
  have rel: "rel_option refrozen (own strs h v Q) (own strs h'' v Q)" if "adm_key strs Q" for Q
    using a b that option.rel_transp [of refrozen] refrozen_trans
    unfolding freezing_def transp_def by blast
  have fz: "frozen_prop d" if "adm_key strs Q" "k \<in> set (ks @ ls)" "key_eq strs k Q" "own strs h'' v Q = Some d" for Q k d
  proof (cases "k \<in> set ls")
    case True
    then show ?thesis using b that unfolding freezing_def by blast
  next
    case False
    have "rel_option refrozen (own strs h' v Q) (Some d)" using b that unfolding freezing_def by metis
    then obtain e where e: "own strs h' v Q = Some e" "refrozen e d" by (auto simp: option_rel_Some2)
    then have "frozen_prop e" using a that False unfolding freezing_def by auto
    then show ?thesis using e(2) by (simp add: refrozen_def)
  qed
  show ?thesis using a b rel fz by (simp add: freezing_def) blast
qed

lemma freeze_round:
  assumes "keys_ok strs h v" "adm_key strs k" "own strs h v k = Some cur"
    and "\<forall>Q d. adm_key strs Q \<and> own strs h v Q = Some d \<longrightarrow> proper d"
  shows "\<exists>h'. DefinePropertyOrThrow strs v k (frozen_desc cur) h = (Return True, h') \<and> freezing strs v [k] h h'"
proof -
  let ?ext = "extensible (the_object h v)"
  have "proper cur" using assms(2-4) by blast
  from validate_freeze [OF this, of ?ext] obtain new where
    new: "validate_define ?ext (Some cur) (frozen_desc cur) = Keep \<and> new = cur \<or>
      validate_define ?ext (Some cur) (frozen_desc cur) = Store new" "refrozen cur new" "frozen_prop new" by blast
  have at: "own strs h v Q = Some cur" if "adm_key strs Q" "key_eq strs k Q" for Q
    using own_cong [OF assms(1,2) that] assms(3) by simp
  have refl: "rel_option refrozen (own strs h v Q) (own strs h v Q)" if "adm_key strs Q" for Q
    using assms(4) that refrozen_refl by (cases "own strs h v Q") auto
  from new(1) show ?thesis
  proof
    assume "validate_define ?ext (Some cur) (frozen_desc cur) = Keep \<and> new = cur"
    then show ?thesis
      using define_kept [of h v strs k "frozen_desc cur" False] assms(1,3) at refl new(3)
      by (auto simp: DefinePropertyOrThrow_def freezing_def)
  next
    assume st: "validate_define ?ext (Some cur) (frozen_desc cur) = Store new"
    let ?h = "put_object v ((the_object h v)\<lparr>props := al_insert (key_eq strs) (props (the_object h v)) k new\<rparr>) h"
    have put: "own strs ?h v Q = (if key_eq strs k Q then Some new else own strs h v Q)" if "adm_key strs Q" for Q
      by (rule own_put [OF assms(1,2) that])
    have "keys_ok strs ?h v"
      using al_insert_ok [of "props (the_object h v)" "adm_key strs" k "key_eq strs" new] assms(1,2)
      by (simp add: keys_ok_def)
    moreover have "map fst (props (the_object ?h v)) = map fst (props (the_object h v))"
      using al_insert_existing [of "key_eq strs" "props (the_object h v)" k cur new] assms(3)
      by (simp add: ejs_object_specop_get_own_property_def)
    moreover have "\<forall>Q. adm_key strs Q \<longrightarrow> rel_option refrozen (own strs h v Q) (own strs ?h v Q)"
      using put at refl new(2) by simp
    moreover have "\<forall>Q j d. adm_key strs Q \<and> j \<in> set [k] \<and> key_eq strs j Q \<and> own strs ?h v Q = Some d \<longrightarrow> frozen_prop d"
      using put new(3) by auto
    ultimately have "freezing strs v [k] h ?h" unfolding freezing_def by simp
    moreover have "DefinePropertyOrThrow strs v k (frozen_desc cur) h = (Return True, ?h)"
      unfolding DefinePropertyOrThrow_def using st assms(3) by (intro define_stored) simp_all
    ultimately show ?thesis by blast
  qed
qed

lemma al_lookup_key: "al_lookup eq al k = Some d \<Longrightarrow> \<exists>n\<in>set al. eq (fst n) k"
  by (induction al) (auto split: if_splits)

lemma freezing_refl:
  assumes "keys_ok strs h v" "\<forall>Q d. adm_key strs Q \<and> own strs h v Q = Some d \<longrightarrow> proper d"
    and "\<forall>k\<in>set ks. own strs h v k = None \<and> adm_key strs k"
  shows "freezing strs v ks h h"
proof -
  have refl: "rel_option refrozen (own strs h v Q) (own strs h v Q)" if "adm_key strs Q" for Q
    using assms(2) that refrozen_refl by (cases "own strs h v Q") auto
  have "own strs h v Q = None" if "adm_key strs Q" "k \<in> set ks" "key_eq strs k Q" for Q k
    using own_cong [OF assms(1) _ that(1,3)] assms(3) that(2) by simp
  then show ?thesis using assms(1) refl unfolding freezing_def by auto
qed

lemma freezing_proper:
  assumes "freezing strs v ks h h'" "adm_key strs Q" "own strs h' v Q = Some d"
  shows "proper d"
  using assms unfolding freezing_def by (metis option.rel_cases option.discI option.inject refrozen_def)

lemma freeze_loop_succeeds:
  assumes "keys_ok strs h v" "\<forall>k\<in>set ks. adm_key strs k"
    and "\<forall>Q d. adm_key strs Q \<and> own strs h v Q = Some d \<longrightarrow> proper d"
  shows "\<exists>h'. freeze_loop strs v ks pending h = Some (pending, h') \<and> freezing strs v ks h h'"
  using assms
proof (induction ks arbitrary: h)
  case Nil
  then show ?case using freezing_refl by simp
next
  case (Cons k ks)
  show ?case
  proof (cases "own strs h v k")
    case None
    then have "freezing strs v [k] h h" using freezing_refl [of strs h v "[k]"] Cons.prems by simp
    moreover obtain h' where "freeze_loop strs v ks pending h = Some (pending, h')" "freezing strs v ks h h'"
      using Cons.IH [OF Cons.prems(1) _ Cons.prems(3)] Cons.prems(2) by auto
    ultimately show ?thesis using None freezing_compose [of strs v "[k]" h h ks h'] by auto
  next
    case (Some cur)
    obtain h1 where h1: "DefinePropertyOrThrow strs v k (frozen_desc cur) h = (Return True, h1)"
      "freezing strs v [k] h h1" using freeze_round [OF Cons.prems(1) _ Some Cons.prems(3)] Cons.prems(2) by auto
    have "keys_ok strs h1 v" "\<forall>Q d. adm_key strs Q \<and> own strs h1 v Q = Some d \<longrightarrow> proper d"
      using h1(2) freezing_proper [OF h1(2)] by (auto simp: freezing_def)
    from Cons.IH [OF this(1) _ this(2)] Cons.prems(2) obtain h2 where
      "freeze_loop strs v ks pending h1 = Some (pending, h2)" "freezing strs v ks h1 h2" by auto
    then show ?thesis using Some h1 freezing_compose [OF h1(2)] by auto
  qed
qed

text \<open>C4: freezing an object whose properties are all data or accessor properties succeeds, keeps their
  values, accessors and enumerability, and is final: after any sequence of definitions, deletions,
  assignments, prototype changes and \<open>preventExtensions\<close>, of this or other objects, the object is still
  reported as frozen, it has the same properties, and every attribute of them is what it was.\<close>

theorem freeze_is_final:
  assumes "object_ref v" "keys_ok strs h v"
    and "\<forall>Q d. adm_key strs Q \<and> own strs h v Q = Some d \<longrightarrow> proper d"
  shows "\<exists>h'. ejs_object_freeze index_key strs v h = (Return v, h') \<and>
     (\<forall>Q. adm_key strs Q \<longrightarrow> map_option content_view (own strs h' v Q) = map_option content_view (own strs h v Q)) \<and>
     (\<forall>h''. (object_step strs)\<^sup>*\<^sup>* h' h'' \<longrightarrow> ejs_Object_isFrozen index_key strs h'' v \<and>
        (\<forall>Q. adm_key strs Q \<longrightarrow> map_option desc_view (own strs h'' v Q) = map_option desc_view (own strs h' v Q)))"
proof -
  let ?ks = "ejs_object_specop_own_property_keys index_key h v"
  have ks: "\<forall>k\<in>set ?ks. adm_key strs k" using assms(2) by (auto simp: own_keys_set keys_ok_def)
  obtain h1 where h1: "freeze_loop strs v ?ks False h = Some (False, h1)" and fz: "freezing strs v ?ks h h1"
    using freeze_loop_succeeds [OF assms(2) ks assms(3)] by blast
  let ?h = "put_object v ((the_object h1 v)\<lparr>extensible := False\<rparr>) h1"
  have own: "own strs ?h v Q = own strs h1 v Q" for Q by (simp add: ejs_object_specop_get_own_property_def)
  have "frozen_prop d" if Q: "adm_key strs Q" "own strs h1 v Q = Some d" for Q d
  proof -
    obtain n where "n \<in> set (props (the_object h1 v))" "key_eq strs (fst n) Q"
      using al_lookup_key [of "key_eq strs" _ Q d] Q(2) unfolding ejs_object_specop_get_own_property_def by blast
    moreover have "set ?ks = fst ` set (props (the_object h1 v))"
    proof -
      have "map fst (props (the_object h1 v)) = map fst (props (the_object h v))" using fz by (simp add: freezing_def)
      then have "set (map fst (props (the_object h1 v))) = set (map fst (props (the_object h v)))" by (simp only:)
      then show ?thesis by (simp add: own_keys_set)
    qed
    ultimately show ?thesis using fz Q unfolding freezing_def by blast
  qed
  then have frozen: "frozen strs ?h v" using fz own by (auto simp: frozen_def freezing_def keys_ok_def)
  have "ejs_object_freeze index_key strs v h = (Return v, ?h)"
    using h1 assms(1) by (simp add: ejs_object_freeze_def SetIntegrityLevel_def ejs_object_specop_preventextensions_def)
  moreover have "map_option content_view (own strs ?h v Q) = map_option content_view (own strs h v Q)" if "adm_key strs Q" for Q
  proof -
    have "rel_option refrozen (own strs h v Q) (own strs h1 v Q)" using fz that by (simp add: freezing_def)
    then show ?thesis unfolding own by (cases rule: option.rel_cases) (simp_all add: refrozen_def)
  qed
  moreover have "ejs_Object_isFrozen index_key strs h'' v \<and>
      (\<forall>Q. adm_key strs Q \<longrightarrow> map_option desc_view (own strs h'' v Q) = map_option desc_view (own strs ?h v Q))"
    if "(object_step strs)\<^sup>*\<^sup>* ?h h''" for h''
    using frozen_steps [OF that frozen] frozen_isFrozen unfolding same_frozen_def by blast
  ultimately show ?thesis by blast
qed

text \<open>The object of the store with one ordinary property.\<close>

definition one_prop_store :: objects where
  "one_prop_store = (\<lambda>_. \<lparr>proto = ejs_null, props = [(0xFFFC000000000010, undefined_desc\<lparr>value_or_getter := ejs_one\<rparr>)],
     extensible = True\<rparr>)"

theorem freeze_is_final_witness:
  "\<exists>h' d. ejs_object_freeze (\<lambda>_. None) (\<lambda>_. None) 0xFFFC800000001000 one_prop_store = (Return 0xFFFC800000001000, h') \<and>
     ejs_Object_isFrozen (\<lambda>_. None) (\<lambda>_. None) h' 0xFFFC800000001000 \<and>
     own (\<lambda>_. None) h' 0xFFFC800000001000 0xFFFC000000000010 = Some d \<and> desc_get_value d = ejs_one"
proof -
  let ?strs = "\<lambda>_. None" and ?v = "0xFFFC800000001000" and ?k = "0xFFFC000000000010"
  let ?d = "undefined_desc\<lparr>value_or_getter := ejs_one\<rparr>"
  have k: "adm_key ?strs ?k" by (rule sample_facts)
  have d: "proper ?d" "desc_get_value ?d = ejs_one"
    by (simp_all add: proper_def undefined_desc_def desc_kinds desc_bits flag_defs desc_get_value_def)
  have keys: "keys_ok ?strs one_prop_store ?v" using k by (simp add: keys_ok_def one_prop_store_def)
  have p: "\<forall>Q d. adm_key ?strs Q \<and> own ?strs one_prop_store ?v Q = Some d \<longrightarrow> proper d"
    using d(1) by (simp add: ejs_object_specop_get_own_property_def one_prop_store_def)
  have o: "own ?strs one_prop_store ?v ?k = Some ?d"
    using property_dict.ok_refl [OF k] by (simp add: ejs_object_specop_get_own_property_def one_prop_store_def)
  obtain h' where h': "ejs_object_freeze ?strs ?strs ?v one_prop_store = (Return ?v, h')"
    "map_option content_view (own ?strs h' ?v ?k) = map_option content_view (own ?strs one_prop_store ?v ?k)"
    "ejs_Object_isFrozen ?strs ?strs h' ?v"
    using freeze_is_final [OF sample_facts(1) keys p, of ?strs] k by blast
  then obtain d' where "own ?strs h' ?v ?k = Some d'" "content_view d' = content_view ?d" using o by auto
  then show ?thesis using h' d(2) by (auto simp: content_view_def)
qed

section \<open>Properties without a kind\<close>

text \<open>\<open>[[DefineOwnProperty]]\<close> with a descriptor that has neither value nor writable nor accessors creates a
  property of neither kind.\<close>

lemma same_fields_writable:
  assumes "same_fields D d"
  shows "desc_has_writable D = desc_has_writable d"
proof -
  have "bit (flags D AND EJS_PROP_FLAGS_SET_MASK) 6 = bit (flags d AND EJS_PROP_FLAGS_SET_MASK) 6"
    using assms by (simp only: same_fields_def)
  moreover have "bit EJS_PROP_FLAGS_SET_MASK 6" by (simp add: flag_defs bit_simps)
  ultimately show ?thesis by (simp add: has_bits bit_and_iff)
qed

lemma validate_freeze_generic:
  assumes "IsGenericDescriptor (Some d)" "\<not> desc_is_configurable d"
  shows "validate_define ext (Some d) (frozen_desc d) = Reject"
proof -
  have k: "\<not> IsAccessorDescriptor (Some d)" "\<not> IsDataDescriptor (Some d)" "\<not> desc_has_writable d"
    using assms(1) by (auto simp: kinds)
  then have w: "desc_has_writable (frozen_desc d)" by (simp add: frozen_desc_facts)
  then have "\<not> same_fields (frozen_desc d) d" using same_fields_writable k(3) by blast
  moreover have "IsDataDescriptor (Some (frozen_desc d))" using w by (simp add: kinds)
  ultimately show ?thesis using assms k frozen_desc_mask [of d] frozen_desc_facts [of d]
    by (simp add: validate_define_def kinds(3))
qed

lemma generic_blocks_round:
  assumes "own strs h v P = Some d" "IsGenericDescriptor (Some d)" "\<not> desc_is_configurable d"
    "keys_ok strs h v" "adm_key strs P" "adm_key strs k" "own strs h v k = Some cur"
  shows "\<exists>ok h'. DefinePropertyOrThrow strs v k (frozen_desc cur) h = (Return ok, h') \<and>
     own strs h' v P = Some d \<and> keys_ok strs h' v \<and> (key_eq strs k P \<longrightarrow> \<not> ok)"
proof (cases "key_eq strs k P")
  case True
  then have "cur = d" using own_cong [OF assms(4,6,5)] assms(1,7) by simp
  then have "validate_define (extensible (the_object h v)) (own strs h v k) (frozen_desc cur) = Reject"
    using validate_freeze_generic [OF assms(2,3)] assms(7) by simp
  from define_rejected [OF this, of False] show ?thesis using assms(1,4) by (auto simp: DefinePropertyOrThrow_def)
next
  case False
  show ?thesis
  proof (cases "validate_define (extensible (the_object h v)) (own strs h v k) (frozen_desc cur)")
    case (Store new)
    then show ?thesis using define_stored [OF Store, of False] own_put [OF assms(4,6), of _ new] False assms
        al_insert_ok [of "props (the_object h v)" "adm_key strs" k "key_eq strs" new]
      by (auto simp: DefinePropertyOrThrow_def keys_ok_def)
  qed (use False assms define_rejected define_kept in \<open>auto simp: DefinePropertyOrThrow_def\<close>)
qed

lemma generic_blocks_freeze:
  assumes "own strs h v P = Some d" "IsGenericDescriptor (Some d)" "\<not> desc_is_configurable d"
    "keys_ok strs h v" "adm_key strs P" "\<forall>k\<in>set ks. adm_key strs k"
  shows "\<exists>b h'. freeze_loop strs v ks pending h = Some (b, h') \<and> (pending \<or> (\<exists>k\<in>set ks. key_eq strs k P) \<longrightarrow> b)"
  using assms
proof (induction ks arbitrary: h pending)
  case (Cons k ks)
  show ?case
  proof (cases "own strs h v k")
    case None
    then have "\<not> key_eq strs k P" using own_cong [OF Cons.prems(4) _ Cons.prems(5), of k] Cons.prems(1,6) by force
    then show ?thesis using None Cons.IH [OF Cons.prems(1-5)] Cons.prems(6) by simp
  next
    case (Some cur)
    obtain ok h1 where h1: "DefinePropertyOrThrow strs v k (frozen_desc cur) h = (Return ok, h1)"
      "own strs h1 v P = Some d" "keys_ok strs h1 v" "key_eq strs k P \<longrightarrow> \<not> ok"
      using generic_blocks_round [OF Cons.prems(1-5) _ Some] Cons.prems(6) by auto
    show ?thesis
      using Some h1(1,4) Cons.IH [OF h1(2) Cons.prems(2,3) h1(3) Cons.prems(5), of "pending \<or> \<not> ok"] Cons.prems(6) by auto
  qed
qed simp

text \<open>A property defined by an empty descriptor is neither a data nor an accessor property, and then
  the standard's guarantees fail: \<open>[[Set]]\<close> reports success but stores nothing, and \<open>Object.freeze\<close>
  throws a TypeError.  A descriptor with only \<open>writable\<close> does give a data property, but its value reads as
  the bits 0, the number 0, not as undefined.\<close>

theorem empty_descriptor_property:
  assumes "object_ref v" "keys_ok strs h v" "adm_key strs P" "\<not> is_proto_name strs P" "own strs h v P = None"
    and "extensible (the_object h v)" "length (props (the_object h v)) < MAX_PROPERTIES"
  shows "(\<exists>h1. ejs_object_specop_define_own_property strs v P ejs_propertydesc_new True h = (Return True, h1) \<and>
      Put strs v P V Throw h1 = Some (SetDone (Return True), h1) \<and> Get strs h1 v P = Some (Value ejs_undefined) \<and>
      fst (ejs_object_freeze index_key strs v h1) = Throws TypeError) \<and>
    (\<exists>h2. ejs_object_specop_define_own_property strs v P (desc_set_writable ejs_propertydesc_new True) True h = (Return True, h2) \<and>
      Get strs h2 v P = Some (Value 0))"
proof
  let ?put = "\<lambda>d. put_object v ((the_object h v)\<lparr>props := al_insert (key_eq strs) (props (the_object h v)) P d\<rparr>) h"
  have def: "ejs_object_specop_define_own_property strs v P D True h = (Return True, ?put (define_new D))" for D
    using assms(5-7) by (intro define_stored) (simp_all add: validate_define_def)
  have own: "own strs (?put d) v P = Some d" for d
    using own_put [OF assms(2,3,3)] property_dict.ok_refl [OF assms(3)] by simp
  let ?e = "define_new ejs_propertydesc_new" and ?w = "define_new (desc_set_writable ejs_propertydesc_new True)"
  have g: "IsGenericDescriptor (Some ?e)" "\<not> desc_is_configurable ?e" "\<not> IsDataDescriptor (Some ?e)"
    "\<not> IsAccessorDescriptor (Some ?e)" "desc_get_getter ?e = ejs_undefined"
    by (simp_all add: define_new_def ejs_propertydesc_new_def desc_kinds desc_bits when_field_def desc_get_getter_def)
  have w: "IsDataDescriptor (Some ?w)" "value_or_getter ?w = 0"
    by (simp_all add: define_new_def ejs_propertydesc_new_def desc_kinds desc_bits when_field_def flag_defs)
  have keys: "keys_ok strs (?put d) v" for d
    using al_insert_ok [of "props (the_object h v)" "adm_key strs" P "key_eq strs" d] assms(2,3) by (simp add: keys_ok_def)
  let ?ks = "ejs_object_specop_own_property_keys index_key (?put ?e) v"
  have "\<forall>k\<in>set ?ks. adm_key strs k" using keys [of ?e] by (auto simp: own_keys_set keys_ok_def)
  moreover have "\<exists>k\<in>set ?ks. key_eq strs k P"
    using al_lookup_key [of "key_eq strs" _ P ?e] own [of ?e]
    unfolding own_keys_set ejs_object_specop_get_own_property_def by blast
  ultimately obtain h' where "freeze_loop strs v ?ks False (?put ?e) = Some (True, h')"
    using generic_blocks_freeze [OF own [of ?e] g(1,2) keys [of ?e] assms(3), of ?ks False] by (metis (full_types))
  then have "fst (ejs_object_freeze index_key strs v (?put ?e)) = Throws TypeError"
    using assms(1) by (simp add: ejs_object_freeze_def SetIntegrityLevel_def Let_def)
  moreover have "Put strs v P V Throw (?put ?e) = Some (SetDone (Return True), ?put ?e)"
    using set_finds [OF finds.own [OF own [of ?e]], of V v] g assms(1) by (simp add: Put_def ejs_assert_def set_with_desc_def)
  moreover have "Get strs (?put ?e) v P = Some (Value ejs_undefined)"
    using own [of ?e] g assms(1,4) undefined_is_undefined
    by (simp add: Get_def ejs_assert_def ejs_object_specop_get.simps del: fun_upd_apply)
  ultimately show "\<exists>h1. ejs_object_specop_define_own_property strs v P ejs_propertydesc_new True h = (Return True, h1) \<and>
      Put strs v P V Throw h1 = Some (SetDone (Return True), h1) \<and> Get strs h1 v P = Some (Value ejs_undefined) \<and>
      fst (ejs_object_freeze index_key strs v h1) = Throws TypeError" using def [of ejs_propertydesc_new] by blast
  have "Get strs (?put ?w) v P = Some (Value 0)"
    using get_own_data [OF assms(4) own w(1), of v] w(2) assms(1) by (simp add: Get_def ejs_assert_def)
  then show "\<exists>h2. ejs_object_specop_define_own_property strs v P (desc_set_writable ejs_propertydesc_new True) True h = (Return True, h2) \<and>
      Get strs h2 v P = Some (Value 0)" using def by blast
qed

theorem empty_descriptor_property_witness:
  "\<exists>h1. ejs_object_specop_define_own_property (\<lambda>_. None) 0xFFFC800000001000 0xFFFC000000000010 ejs_propertydesc_new True
       empty_store = (Return True, h1) \<and>
     fst (ejs_object_freeze (\<lambda>_. None) (\<lambda>_. None) 0xFFFC800000001000 h1) = Throws TypeError"
proof -
  have l: "length (props (the_object empty_store 0xFFFC800000001000)) < MAX_PROPERTIES"
    by (simp add: sample_facts MAX_PROPERTIES_def)
  show ?thesis
    using empty_descriptor_property [OF sample_facts(1,5,2,3,6,8) l, where index_key = "\<lambda>_. None"] by blast
qed

end
