(* ===== verification/SpecOps.thy ===== *)
theory SpecOps
  imports ObjectLaws
begin

text \<open>
  The table of internal methods that every class of objects has (\<open>EJSSpecOps\<close> in \<open>src/runtime/ejs-object.h\<close>), over
  any type of states, and the table of the ordinary objects.  A method returns an outcome and the new state, since the
  methods of some classes run compiled code.
\<close>

section \<open>Methods\<close>

type_synonym ('h, 'a) action = "'h \<Rightarrow> 'a outcome \<times> 'h"

definition return_m :: "'a \<Rightarrow> ('h, 'a) action" where "return_m x h = (Return x, h)"

definition throw_m :: "js_error \<Rightarrow> ('h, 'a) action" where "throw_m e h = (Throws e, h)"

definition abort_m :: "('h, 'a) action" where "abort_m h = (Aborts, h)"

definition option_m :: "'a option \<Rightarrow> ('h, 'a) action" where
  "option_m x h = (case x of None \<Rightarrow> (Aborts, h) | Some y \<Rightarrow> (Return y, h))"

definition bind_m :: "('h, 'a) action \<Rightarrow> ('a \<Rightarrow> ('h, 'b) action) \<Rightarrow> ('h, 'b) action" where
  "bind_m m f h = (case m h of (Return x, h) \<Rightarrow> f x h | (Throws e, h) \<Rightarrow> (Throws e, h) | (Aborts, h) \<Rightarrow> (Aborts, h))"

lemma bind_m_Return:
  "bind_m m f h = (Return y, h') \<longleftrightarrow> (\<exists>x g. m h = (Return x, g) \<and> f x g = (Return y, h'))"
  by (auto simp: bind_m_def split: prod.splits outcome.splits)

lemma method_simps [simp]:
  "return_m x h = (Return x, h)" "throw_m e h = (Throws e, h)" "abort_m h = (Aborts, h)"
  "option_m z h = (Return y, h') \<longleftrightarrow> z = Some y \<and> h' = h"
  by (auto simp: return_m_def throw_m_def abort_m_def option_m_def split: option.splits)

lemma bind_m_known: "m h = (Return x, g) \<Longrightarrow> bind_m m f h = f x g"
  by (simp add: bind_m_def)

lemma option_m_Some [simp]: "option_m (Some x) = return_m x"
  by (rule ext) (simp add: option_m_def return_m_def)

lemma return_bind_m [simp]: "bind_m (return_m x) f = f x"
  by (rule ext) (simp add: bind_m_def return_m_def)

section \<open>The table\<close>

record 'h EJSSpecOps =
  op_GetPrototypeOf :: "ejsval \<Rightarrow> ('h, ejsval) action"
  op_SetPrototypeOf :: "ejsval \<Rightarrow> ejsval \<Rightarrow> ('h, bool) action"
  op_IsExtensible :: "ejsval \<Rightarrow> ('h, bool) action"
  op_PreventExtensions :: "ejsval \<Rightarrow> ('h, bool) action"
  op_GetOwnProperty :: "ejsval \<Rightarrow> ejsval \<Rightarrow> ('h, EJSPropertyDesc option) action"
  op_DefineOwnProperty :: "ejsval \<Rightarrow> ejsval \<Rightarrow> EJSPropertyDesc \<Rightarrow> bool \<Rightarrow> ('h, bool) action"
  op_HasProperty :: "ejsval \<Rightarrow> ejsval \<Rightarrow> ('h, bool) action"
  op_Get :: "ejsval \<Rightarrow> ejsval \<Rightarrow> ejsval \<Rightarrow> ('h, ejsval) action"
  op_Set :: "ejsval \<Rightarrow> ejsval \<Rightarrow> ejsval \<Rightarrow> ejsval \<Rightarrow> ('h, bool) action"
  op_Delete :: "ejsval \<Rightarrow> ejsval \<Rightarrow> bool \<Rightarrow> ('h, bool) action"
  op_OwnPropertyKeys :: "ejsval \<Rightarrow> ('h, ejsval list) action"

text \<open>The classes other than \<open>Object\<close> inherit from it what they do not define.  Of an ordinary object a getter or setter
  runs compiled code, \<open>invoke f this args\<close>.\<close>

definition finish_get :: "(ejsval \<Rightarrow> ejsval \<Rightarrow> ejsval list \<Rightarrow> ('h, ejsval) action) \<Rightarrow> get_result \<Rightarrow> ('h, ejsval) action" where
  "finish_get invoke r = (case r of Value v \<Rightarrow> return_m v | InvokeGetter getter this \<Rightarrow> invoke getter this [])"

definition finish_set ::
  "(ejsval \<Rightarrow> ejsval \<Rightarrow> ejsval list \<Rightarrow> ('h, ejsval) action) \<Rightarrow> set_result \<Rightarrow> ('h, bool) action" where
  "finish_set invoke r =
     (case r of
        SetDone b \<Rightarrow> (\<lambda>h. (b, h))
      | InvokeSetter st this v \<Rightarrow> bind_m (invoke st this [v]) (\<lambda>_. return_m True))"

definition Object_specops ::
  "strings \<Rightarrow> (ejsval \<Rightarrow> int32 option) \<Rightarrow> (ejsval \<Rightarrow> ejsval \<Rightarrow> ejsval list \<Rightarrow> (objects, ejsval) action) \<Rightarrow> objects EJSSpecOps" where
  "Object_specops strs index_key invoke =
     \<lparr>op_GetPrototypeOf = (\<lambda>O' h. (Return (ejs_object_specop_get_prototype_of h O'), h)),
      op_SetPrototypeOf = (\<lambda>O' V h.
        case ejs_object_specop_set_prototype_of strs O' V h of None \<Rightarrow> (Aborts, h) | Some (b, h) \<Rightarrow> (Return b, h)),
      op_IsExtensible = (\<lambda>O' h. (Return (ejs_object_specop_is_extensible h O'), h)),
      op_PreventExtensions = (\<lambda>O' h. let (b, h) = ejs_object_specop_preventextensions O' h in (Return b, h)),
      op_GetOwnProperty = (\<lambda>O' P h. (Return (ejs_object_specop_get_own_property strs h O' P), h)),
      op_DefineOwnProperty = ejs_object_specop_define_own_property strs,
      op_HasProperty = (\<lambda>O' P h. option_m (ejs_object_specop_has_property strs h O' P) h),
      op_Get = (\<lambda>O' P R h. bind_m (option_m (ejs_object_specop_get strs h O' P R)) (finish_get invoke) h),
      op_Set = (\<lambda>O' P V R h.
        case ejs_object_specop_set strs O' P V R h of None \<Rightarrow> (Aborts, h) | Some (r, h) \<Rightarrow> finish_set invoke r h),
      op_Delete = ejs_object_specop_delete strs,
      op_OwnPropertyKeys = (\<lambda>O' h. (Return (ejs_object_specop_own_property_keys index_key h O'), h))\<rparr>"

end
