(* ===== verification/Proxies.thy ===== *)
theory Proxies
  imports SpecOps
begin

text \<open>
  Proxies (\<open>src/runtime/ejs-proxy.c\<close>, \<open>ejs-proxy.h\<close>): the constructor and the internal methods, which call a trap of
  the handler and check its answer against the target.  The methods of the target are those of its own table, an
  argument, so the target may be a proxy again.  Reading a property of the handler, calling a trap and converting
  descriptors run compiled code and are fields of an environment; the flag of the target's header is read through it too.
\<close>

record EJSProxy =
  handler :: ejsval
  target :: ejsval

record 'h proxy_env =
  get_property :: "ejsval \<Rightarrow> string \<Rightarrow> ('h, ejsval) action"
  has_call :: "ejsval \<Rightarrow> 'h \<Rightarrow> bool"
  invoke_closure :: "ejsval \<Rightarrow> ejsval \<Rightarrow> ejsval list \<Rightarrow> ('h, ejsval) action"
  from_descriptor :: "EJSPropertyDesc \<Rightarrow> ('h, ejsval) action"
  to_descriptor :: "ejsval \<Rightarrow> ('h, EJSPropertyDesc) action"
  array_elements :: "ejsval \<Rightarrow> ('h, ejsval list) action"
  extensible_flag :: "ejsval \<Rightarrow> 'h \<Rightarrow> bool"
  word_behind :: ejsval

section \<open>Construction\<close>

definition ejs_Proxy_impl :: "ejsval \<Rightarrow> ejsval list \<Rightarrow> EJSProxy outcome" where
  "ejs_Proxy_impl newTarget args =
     (let target = (if length args > 0 then args ! 0 else ejs_undefined);
          handler = (if length args > 1 then args ! 1 else ejs_undefined) in
      if EJSVAL_IS_UNDEFINED_IMPL newTarget then Throws TypeError
      else if \<not> is_object target then Throws TypeError
      else if \<not> is_object handler then Throws TypeError
      else Return \<lparr>handler = handler, target = target\<rparr>)"

section \<open>Traps\<close>

definition IsCallable :: "'h proxy_env \<Rightarrow> ejsval \<Rightarrow> ('h, bool) action" where
  "IsCallable env v h = (Return (is_object v \<and> has_call env v h), h)"

definition GetV :: "'h proxy_env \<Rightarrow> ejsval \<Rightarrow> string \<Rightarrow> ('h, ejsval) action" where
  "GetV env V P =
     (if EJSVAL_IS_UNDEFINED_IMPL V \<or> EJSVAL_IS_NULL_IMPL V then return_m ejs_undefined else get_property env V P)"

definition GetMethod :: "'h proxy_env \<Rightarrow> ejsval \<Rightarrow> string \<Rightarrow> ('h, ejsval) action" where
  "GetMethod env O' P =
     bind_m (GetV env O' P) (\<lambda>func.
       if EJSVAL_IS_UNDEFINED_IMPL func \<or> EJSVAL_IS_NULL_IMPL func then return_m ejs_undefined
       else bind_m (IsCallable env func) (\<lambda>c. if c then return_m func else throw_m TypeError))"

text \<open>What the methods have in common: a null handler is a TypeError; without a trap the target's own method runs.\<close>

definition with_trap ::
  "'h proxy_env \<Rightarrow> EJSProxy \<Rightarrow> string \<Rightarrow> ('h, 'a) action \<Rightarrow> (ejsval \<Rightarrow> ('h, 'a) action) \<Rightarrow> ('h, 'a) action" where
  "with_trap env proxy trap_name forward continue =
     (if EJSVAL_IS_NULL_IMPL (handler proxy) then throw_m TypeError
      else bind_m (GetMethod env (handler proxy) trap_name) (\<lambda>trap.
        if EJSVAL_IS_UNDEFINED_IMPL trap then forward else continue trap))"

definition call_trap :: "'h proxy_env \<Rightarrow> EJSProxy \<Rightarrow> ejsval \<Rightarrow> ejsval list \<Rightarrow> ('h, ejsval) action" where
  "call_trap env proxy trap args = invoke_closure env trap (handler proxy) args"

definition call_bool_trap :: "strings \<Rightarrow> 'h proxy_env \<Rightarrow> EJSProxy \<Rightarrow> ejsval \<Rightarrow> ejsval list \<Rightarrow> ('h, bool) action" where
  "call_bool_trap strs env proxy trap args =
     bind_m (call_trap env proxy trap args) (\<lambda>trapResult. option_m (ToEJSBool strs trapResult))"

definition IsExtensible :: "'h EJSSpecOps \<Rightarrow> ejsval \<Rightarrow> ('h, bool) action" where
  "IsExtensible ops O' = (if is_object O' then op_IsExtensible ops O' else abort_m)"

definition EJS_OBJECT_IS_EXTENSIBLE :: "'h proxy_env \<Rightarrow> ejsval \<Rightarrow> ('h, bool) action" where
  "EJS_OBJECT_IS_EXTENSIBLE env O' h = (Return (extensible_flag env O' h), h)"

section \<open>Prototypes and extensibility\<close>

text \<open>The test of the type of the prototype is written with \<open>&& EJSVAL_IS_NULL\<close>, so it never fails.\<close>

definition ejs_proxy_specop_get_prototype_of ::
  "strings \<Rightarrow> 'h proxy_env \<Rightarrow> 'h EJSSpecOps \<Rightarrow> EJSProxy \<Rightarrow> ('h, ejsval) action" where
  "ejs_proxy_specop_get_prototype_of strs env ops proxy =
     with_trap env proxy ''getPrototypeOf'' (op_GetPrototypeOf ops (target proxy)) (\<lambda>trap.
       bind_m (call_trap env proxy trap [target proxy]) (\<lambda>handlerProto.
       if \<not> is_object handlerProto \<and> EJSVAL_IS_NULL_IMPL handlerProto then throw_m TypeError
       else
         bind_m (IsExtensible ops (target proxy)) (\<lambda>extensibleTarget.
         if extensibleTarget then return_m handlerProto
         else
           bind_m (op_GetPrototypeOf ops (target proxy)) (\<lambda>targetProto.
           bind_m (option_m (SameValue strs handlerProto targetProto)) (\<lambda>same.
             if \<not> same then throw_m TypeError else return_m handlerProto)))))"

definition ejs_proxy_specop_set_prototype_of ::
  "strings \<Rightarrow> 'h proxy_env \<Rightarrow> 'h EJSSpecOps \<Rightarrow> EJSProxy \<Rightarrow> ejsval \<Rightarrow> ('h, bool) action" where
  "ejs_proxy_specop_set_prototype_of strs env ops proxy V =
     with_trap env proxy ''setPrototypeOf'' (op_SetPrototypeOf ops (target proxy) V) (\<lambda>trap.
       bind_m (call_bool_trap strs env proxy trap [target proxy, V]) (\<lambda>booleanTrapResult.
       bind_m (IsExtensible ops (target proxy)) (\<lambda>extensibleTarget.
       if extensibleTarget then return_m booleanTrapResult
       else
         bind_m (op_GetPrototypeOf ops (target proxy)) (\<lambda>targetProto.
         if \<not> booleanTrapResult then return_m booleanTrapResult
         else
           bind_m (option_m (SameValue strs V targetProto)) (\<lambda>same.
             if same then throw_m TypeError else return_m booleanTrapResult)))))"

definition ejs_proxy_specop_is_extensible ::
  "strings \<Rightarrow> 'h proxy_env \<Rightarrow> 'h EJSSpecOps \<Rightarrow> EJSProxy \<Rightarrow> ('h, bool) action" where
  "ejs_proxy_specop_is_extensible strs env ops proxy =
     (if \<not> EJSVAL_IS_NULL_IMPL (handler proxy) \<and> \<not> is_object (handler proxy) then abort_m
      else with_trap env proxy ''isExtensible'' (op_IsExtensible ops (target proxy)) (\<lambda>trap.
        bind_m (call_bool_trap strs env proxy trap [target proxy]) (\<lambda>booleanTrapResult.
        bind_m (op_IsExtensible ops (target proxy)) (\<lambda>targetResult.
          if booleanTrapResult \<noteq> targetResult then throw_m TypeError else return_m booleanTrapResult))))"

text \<open>The trap is called with a count of two arguments although their array has one element: the second is the word behind
  it.\<close>

definition ejs_proxy_specop_prevent_extensions ::
  "strings \<Rightarrow> 'h proxy_env \<Rightarrow> 'h EJSSpecOps \<Rightarrow> EJSProxy \<Rightarrow> ('h, bool) action" where
  "ejs_proxy_specop_prevent_extensions strs env ops proxy =
     with_trap env proxy ''preventExtensions'' (op_PreventExtensions ops (target proxy)) (\<lambda>trap.
       bind_m (call_bool_trap strs env proxy trap [target proxy, word_behind env]) (\<lambda>booleanTrapResult.
       if booleanTrapResult then
         bind_m (op_IsExtensible ops (target proxy)) (\<lambda>targetIsExtensible.
           if targetIsExtensible then throw_m TypeError else return_m booleanTrapResult)
       else return_m booleanTrapResult))"

section \<open>Properties\<close>

text \<open>The test after the call is entered when the target has \<^emph>\<open>no\<close> such property (\<open>if (!targetDesc)\<close>); the
  classifications of a missing descriptor are false, so nothing is checked.\<close>

definition check_get :: "strings \<Rightarrow> EJSPropertyDesc option \<Rightarrow> ejsval \<Rightarrow> ('h, unit) action" where
  "check_get strs targetDesc trapResult =
     bind_m
       (if IsDataDescriptor targetDesc \<and> \<not> desc_is_configurable (the targetDesc) \<and> \<not> desc_is_writable (the targetDesc) then
          bind_m (option_m (SameValue strs trapResult (desc_get_value (the targetDesc)))) (\<lambda>same.
            if \<not> same then throw_m TypeError else return_m ())
        else return_m ()) (\<lambda>_.
       if IsAccessorDescriptor targetDesc \<and> \<not> desc_is_configurable (the targetDesc) \<and>
          EJSVAL_IS_UNDEFINED_IMPL (desc_get_getter (the targetDesc)) \<and> \<not> EJSVAL_IS_UNDEFINED_IMPL trapResult
       then throw_m TypeError else return_m ())"

definition ejs_proxy_specop_get ::
  "strings \<Rightarrow> 'h proxy_env \<Rightarrow> 'h EJSSpecOps \<Rightarrow> EJSProxy \<Rightarrow> ejsval \<Rightarrow> ejsval \<Rightarrow> ('h, ejsval) action" where
  "ejs_proxy_specop_get strs env ops proxy propertyName receiver =
     with_trap env proxy ''get'' (op_Get ops (target proxy) propertyName receiver) (\<lambda>trap.
       bind_m (call_trap env proxy trap [target proxy, propertyName, receiver]) (\<lambda>trapResult.
       bind_m (op_GetOwnProperty ops (target proxy) propertyName) (\<lambda>targetDesc.
         bind_m (if targetDesc = None then check_get strs targetDesc trapResult else return_m ()) (\<lambda>_.
           return_m trapResult))))"

definition ejs_proxy_specop_get_own_property ::
  "strings \<Rightarrow> 'h proxy_env \<Rightarrow> 'h EJSSpecOps \<Rightarrow> EJSProxy \<Rightarrow> ejsval \<Rightarrow> ('h, EJSPropertyDesc option) action" where
  "ejs_proxy_specop_get_own_property strs env ops proxy P =
     with_trap env proxy ''getOwnPropertyDescriptor'' (op_GetOwnProperty ops (target proxy) P) (\<lambda>trap.
       bind_m (call_trap env proxy trap [target proxy, P]) (\<lambda>trapResultObj.
       if \<not> is_object trapResultObj \<and> \<not> EJSVAL_IS_UNDEFINED_IMPL trapResultObj then throw_m TypeError
       else
         bind_m (op_GetOwnProperty ops (target proxy) P) (\<lambda>targetDesc.
         if EJSVAL_IS_UNDEFINED_IMPL trapResultObj then
           (case targetDesc of
              None \<Rightarrow> return_m None
            | Some d \<Rightarrow>
                if \<not> desc_is_configurable d then throw_m TypeError
                else bind_m (EJS_OBJECT_IS_EXTENSIBLE env (target proxy)) (\<lambda>extensibleTarget.
                  if \<not> extensibleTarget then throw_m TypeError else return_m None))
         else bind_m (to_descriptor env trapResultObj) (\<lambda>resultDesc. abort_m))))"

definition ejs_proxy_specop_set ::
  "strings \<Rightarrow> 'h proxy_env \<Rightarrow> 'h EJSSpecOps \<Rightarrow> EJSProxy \<Rightarrow> ejsval \<Rightarrow> ejsval \<Rightarrow> ejsval \<Rightarrow> ('h, bool) action" where
  "ejs_proxy_specop_set strs env ops proxy propertyName val receiver =
     with_trap env proxy ''set'' (op_Set ops (target proxy) propertyName val receiver) (\<lambda>trap.
       bind_m (call_bool_trap strs env proxy trap [target proxy, propertyName, val, receiver]) (\<lambda>booleanTrapResult.
       if \<not> booleanTrapResult then return_m False
       else
         bind_m (op_GetOwnProperty ops (target proxy) propertyName) (\<lambda>targetDesc.
           case targetDesc of
             None \<Rightarrow> return_m True
           | Some d \<Rightarrow>
               bind_m
                 (if IsDataDescriptor (Some d) \<and> \<not> desc_is_configurable d \<and> desc_is_writable d then
                    bind_m (option_m (SameValue strs val (desc_get_value d))) (\<lambda>same.
                      if \<not> same then throw_m TypeError else return_m ())
                  else return_m ()) (\<lambda>_.
                 if IsAccessorDescriptor (Some d) \<and> \<not> desc_is_configurable d \<and>
                    EJSVAL_IS_UNDEFINED_IMPL (desc_get_setter d) then throw_m TypeError
                 else return_m True))))"

definition ejs_proxy_specop_has_property ::
  "strings \<Rightarrow> 'h proxy_env \<Rightarrow> 'h EJSSpecOps \<Rightarrow> EJSProxy \<Rightarrow> ejsval \<Rightarrow> ('h, bool) action" where
  "ejs_proxy_specop_has_property strs env ops proxy P =
     with_trap env proxy ''has'' (op_HasProperty ops (target proxy) P) (\<lambda>trap.
       bind_m (call_bool_trap strs env proxy trap [target proxy, P]) (\<lambda>booleanTrapResult.
       if booleanTrapResult then return_m booleanTrapResult
       else
         bind_m (op_GetOwnProperty ops (target proxy) P) (\<lambda>targetDesc.
           case targetDesc of
             None \<Rightarrow> return_m booleanTrapResult
           | Some d \<Rightarrow>
               if \<not> desc_is_configurable d then throw_m TypeError
               else bind_m (EJS_OBJECT_IS_EXTENSIBLE env (target proxy)) (\<lambda>extensibleTarget.
                 if \<not> extensibleTarget then throw_m TypeError else return_m booleanTrapResult))))"

text \<open>Step 15 is a comment only: \<open>true\<close> is returned whether the property is configurable or not.\<close>

definition ejs_proxy_specop_delete ::
  "strings \<Rightarrow> 'h proxy_env \<Rightarrow> 'h EJSSpecOps \<Rightarrow> EJSProxy \<Rightarrow> ejsval \<Rightarrow> bool \<Rightarrow> ('h, bool) action" where
  "ejs_proxy_specop_delete strs env ops proxy P unusedflag =
     with_trap env proxy ''deleteProperty'' (op_Delete ops (target proxy) P unusedflag) (\<lambda>trap.
       bind_m (call_bool_trap strs env proxy trap [target proxy, P]) (\<lambda>booleanTrapResult.
       if \<not> booleanTrapResult then return_m False
       else bind_m (op_GetOwnProperty ops (target proxy) P) (\<lambda>targetDesc.
         if targetDesc = None then return_m True else return_m True)))"

definition ejs_proxy_specop_define_own_property ::
  "strings \<Rightarrow> 'h proxy_env \<Rightarrow> 'h EJSSpecOps \<Rightarrow> EJSProxy \<Rightarrow> ejsval \<Rightarrow> EJSPropertyDesc \<Rightarrow> bool \<Rightarrow> ('h, bool) action" where
  "ejs_proxy_specop_define_own_property strs env ops proxy P Desc unusedflag =
     with_trap env proxy ''defineProperty'' (op_DefineOwnProperty ops (target proxy) P Desc unusedflag) (\<lambda>trap.
       bind_m (from_descriptor env Desc) (\<lambda>descObj.
       bind_m (call_bool_trap strs env proxy trap [target proxy, P, descObj]) (\<lambda>booleanTrapResult.
       if \<not> booleanTrapResult then return_m False
       else
         bind_m (op_GetOwnProperty ops (target proxy) P) (\<lambda>targetDesc.
         bind_m (EJS_OBJECT_IS_EXTENSIBLE env (target proxy)) (\<lambda>extensibleTarget.
         let settingConfigFalse = (desc_has_configurable Desc \<and> \<not> desc_is_configurable Desc) in
         case targetDesc of
           None \<Rightarrow>
             if \<not> extensibleTarget then throw_m TypeError
             else if settingConfigFalse then throw_m TypeError
             else return_m True
         | Some d \<Rightarrow> abort_m)))))"

section \<open>Keys\<close>

text \<open>The loop that sorts the target's keys by configurability.  The array that a trap returns is passed on as it is; as a
  list of keys it is read by its caller.\<close>

fun split_keys ::
  "'h EJSSpecOps \<Rightarrow> ejsval \<Rightarrow> ejsval list \<Rightarrow> ejsval list \<Rightarrow> ejsval list \<Rightarrow> ('h, ejsval list \<times> ejsval list) action" where
  "split_keys ops t [] nonconf conf = return_m (nonconf, conf)"
| "split_keys ops t (key # keys) nonconf conf =
     bind_m (op_GetOwnProperty ops t key) (\<lambda>desc.
       case desc of
         Some d \<Rightarrow>
           if \<not> desc_is_configurable d then split_keys ops t keys (nonconf @ [key]) conf
           else split_keys ops t keys nonconf (conf @ [key])
       | None \<Rightarrow> split_keys ops t keys nonconf (conf @ [key]))"

definition ejs_proxy_specop_own_property_keys ::
  "strings \<Rightarrow> 'h proxy_env \<Rightarrow> 'h EJSSpecOps \<Rightarrow> EJSProxy \<Rightarrow> ('h, ejsval list) action" where
  "ejs_proxy_specop_own_property_keys strs env ops proxy =
     (if \<not> EJSVAL_IS_NULL_IMPL (handler proxy) \<and> \<not> is_object (handler proxy) then abort_m
      else with_trap env proxy ''ownKeys'' (op_OwnPropertyKeys ops (target proxy)) (\<lambda>trap.
        bind_m (call_trap env proxy trap [target proxy]) (\<lambda>trapResult.
        bind_m (IsExtensible ops (target proxy)) (\<lambda>extensibleTarget.
        bind_m (op_OwnPropertyKeys ops (target proxy)) (\<lambda>targetKeys.
        bind_m (split_keys ops (target proxy) targetKeys [] []) (\<lambda>(nonconf, conf).
        if extensibleTarget \<and> nonconf = [] then array_elements env trapResult
        else if extensibleTarget then array_elements env trapResult
        else array_elements env trapResult))))))"

definition ejs_proxy_specop_scan :: "EJSProxy \<Rightarrow> EJSObject \<Rightarrow> ejsval list" where
  "ejs_proxy_specop_scan proxy obj = target proxy # handler proxy # ejs_object_specop_scan obj"

definition Proxy_specops :: "strings \<Rightarrow> 'h proxy_env \<Rightarrow> 'h EJSSpecOps \<Rightarrow> EJSProxy \<Rightarrow> 'h EJSSpecOps" where
  "Proxy_specops strs env ops proxy =
     \<lparr>op_GetPrototypeOf = (\<lambda>_. ejs_proxy_specop_get_prototype_of strs env ops proxy),
      op_SetPrototypeOf = (\<lambda>_. ejs_proxy_specop_set_prototype_of strs env ops proxy),
      op_IsExtensible = (\<lambda>_. ejs_proxy_specop_is_extensible strs env ops proxy),
      op_PreventExtensions = (\<lambda>_. ejs_proxy_specop_prevent_extensions strs env ops proxy),
      op_GetOwnProperty = (\<lambda>_. ejs_proxy_specop_get_own_property strs env ops proxy),
      op_DefineOwnProperty = (\<lambda>_. ejs_proxy_specop_define_own_property strs env ops proxy),
      op_HasProperty = (\<lambda>_. ejs_proxy_specop_has_property strs env ops proxy),
      op_Get = (\<lambda>_. ejs_proxy_specop_get strs env ops proxy),
      op_Set = (\<lambda>_. ejs_proxy_specop_set strs env ops proxy),
      op_Delete = (\<lambda>_. ejs_proxy_specop_delete strs env ops proxy),
      op_OwnPropertyKeys = (\<lambda>_. ejs_proxy_specop_own_property_keys strs env ops proxy)\<rparr>"

end
