(* ===== verification/ProxyLaws.thy ===== *)
theory ProxyLaws
  imports Proxies
begin

text \<open>
  What proxies guarantee and what they do not.  Whatever the traps answer, a proxy is honest about the extensibility of
  its target, about the prototype of a target that is not extensible, and about properties that cannot be deleted
  (locale \<open>honest_object\<close>); being honest passes from the target to the proxy, hence to chains of proxies.  The
  remaining answers are passed on unchecked.
\<close>

section \<open>Honest objects\<close>

lemma same_value_ref:
  assumes "object_ref w \<or> EJSVAL_IS_NULL_IMPL w" "SameValue strs v w = Some True"
  shows "v = w"
proof -
  have tag: "drop_bit 47 v = drop_bit 47 w" using assms(2) by (auto simp: SameValue_def to_tag_eq split: if_splits)
  show ?thesis
  proof (cases "object_ref w")
    case True
    then have "object_ref v" using tag by (simp add: object_ref_def)
    then show ?thesis using same_value_refs [of v w strs] True assms(2) by simp
  next
    case False
    then have w: "w = EJSVAL_SHIFTED_TAG_NULL" "EJSVAL_IS_NULL_IMPL w"
      using assms(1) by (auto simp: EJSVAL_IS_NULL_IMPL_def)
    show ?thesis
    proof (cases "EJSVAL_IS_NULL_IMPL v")
      case True
      then show ?thesis using w by (simp add: EJSVAL_IS_NULL_IMPL_def)
    next
      case v: False
      have "drop_bit 47 v = 0x1FFF7" using tag is_null_tag [OF w(2)] by simp
      then have "\<not> EJSVAL_IS_DOUBLE_IMPL v" "\<not> EJSVAL_IS_UNDEFINED_IMPL v" "\<not> EJSVAL_IS_STRING_IMPL v"
        "\<not> EJSVAL_IS_BOOLEAN_IMPL v" "\<not> EJSVAL_IS_SYMBOL_IMPL v"
        using not_double_tag [of v] is_undefined_tag [of v] by (auto simp: tag_facts)
      then show ?thesis using assms(2) v by (auto simp: SameValue_def split: if_splits)
    qed
  qed
qed

text \<open>The observers \<open>xt\<close>, \<open>prot\<close> and \<open>own\<close> read the object at the end of the chain in a state; each law
  speaks of the state after the call.\<close>

lemma with_trap_Return:
  "with_trap env p n forward continue h = (Return x, h') \<Longrightarrow>
     \<exists>g. forward g = (Return x, h') \<or> (\<exists>trap. continue trap g = (Return x, h'))"
  by (auto simp: with_trap_def bind_m_Return split: if_splits)

locale honest_object =
  fixes ops :: "'h EJSSpecOps" and t :: ejsval
    and xt :: "'h \<Rightarrow> bool" and prot :: "'h \<Rightarrow> ejsval" and own :: "'h \<Rightarrow> ejsval \<Rightarrow> EJSPropertyDesc option"
  assumes extensible_law: "op_IsExtensible ops t h = (Return b, h') \<Longrightarrow> b = xt h'"
    and prevent_law: "op_PreventExtensions ops t h = (Return True, h') \<Longrightarrow> \<not> xt h'"
    and prototype_law: "op_GetPrototypeOf ops t h = (Return v, h') \<Longrightarrow> \<not> xt h' \<Longrightarrow>
      object_ref (prot h') \<or> EJSVAL_IS_NULL_IMPL (prot h') \<Longrightarrow> v = prot h'"
    and own_law: "op_GetOwnProperty ops t P h = (Return r, h') \<Longrightarrow>
      r = own h' P \<or> r = None \<and> (\<exists>d. own h' P = Some d \<and> desc_is_configurable d)"
    and has_law: "op_HasProperty ops t P h = (Return False, h') \<Longrightarrow>
      own h' P = None \<or> (\<exists>d. own h' P = Some d \<and> desc_is_configurable d)"
begin

lemma proxy_extensible:
  assumes "target p = t" "ejs_proxy_specop_is_extensible strs env ops p h = (Return b, h')"
  shows "b = xt h'"
  using assms extensible_law
  by (auto simp: ejs_proxy_specop_is_extensible_def with_trap_def bind_m_Return split: if_splits)

lemma proxy_prevent:
  assumes "target p = t" "ejs_proxy_specop_prevent_extensions strs env ops p h = (Return True, h')"
  shows "\<not> xt h'"
  using assms extensible_law prevent_law
  by (auto simp: ejs_proxy_specop_prevent_extensions_def with_trap_def bind_m_Return split: if_splits)

lemma proxy_prototype:
  assumes "target p = t" "ejs_proxy_specop_get_prototype_of strs env ops p h = (Return v, h')" "\<not> xt h'"
    "object_ref (prot h') \<or> EJSVAL_IS_NULL_IMPL (prot h')"
  shows "v = prot h'"
proof -
  have same: "v = prot h'" if "op_GetPrototypeOf ops t g = (Return w, h')" "SameValue strs v w = Some True" for g w
    using prototype_law [OF that(1) assms(3,4)] same_value_ref [OF assms(4)] that(2) by simp
  show ?thesis
    using with_trap_Return [OF assms(2) [unfolded ejs_proxy_specop_get_prototype_of_def]]
  proof (elim exE disjE)
    fix g
    assume "op_GetPrototypeOf ops (target p) g = (Return v, h')"
    then show ?thesis using prototype_law [OF _ assms(3,4)] assms(1) by blast
  qed (use same extensible_law assms(1,3) in \<open>auto simp: bind_m_Return IsExtensible_def split: if_splits\<close>)
qed

lemma proxy_own:
  assumes "target p = t" "ejs_proxy_specop_get_own_property strs env ops p P h = (Return r, h')"
  shows "r = own h' P \<or> r = None \<and> (\<exists>d. own h' P = Some d \<and> desc_is_configurable d)"
  using with_trap_Return [OF assms(2) [unfolded ejs_proxy_specop_get_own_property_def]]
  by (cases "own h' P") (auto simp: bind_m_Return EJS_OBJECT_IS_EXTENSIBLE_def assms(1) split: if_splits option.splits dest!: own_law)

lemma proxy_has:
  assumes "target p = t" "ejs_proxy_specop_has_property strs env ops p P h = (Return False, h')"
  shows "own h' P = None \<or> (\<exists>d. own h' P = Some d \<and> desc_is_configurable d)"
  using with_trap_Return [OF assms(2) [unfolded ejs_proxy_specop_has_property_def]]
  by (cases "own h' P") (auto simp: bind_m_Return EJS_OBJECT_IS_EXTENSIBLE_def assms(1) split: if_splits option.splits dest!: own_law has_law)

lemma proxy_honest:
  assumes "target p = t"
  shows "honest_object (Proxy_specops strs env ops p) O' xt prot own"
  by unfold_locales
    (simp_all add: Proxy_specops_def, (rule proxy_extensible proxy_prevent proxy_prototype proxy_own proxy_has; (rule assms | assumption))+)

end

text \<open>A target whose header has the flag that its \<open>[[IsExtensible]]\<close> reports, and whose own properties are not hidden by
  a trap, is not a proxy.  A proxy of it hides a property only if it could be deleted and the target is extensible.\<close>

locale plain_object = honest_object +
  fixes env :: "'a proxy_env"
  assumes flag_law: "extensible_flag env t h = xt h"
    and own_exact: "op_GetOwnProperty ops t P h = (Return r, h') \<Longrightarrow> r = own h' P"
    and has_exact: "op_HasProperty ops t P h = (Return False, h') \<Longrightarrow> own h' P = None"
begin

lemma proxy_own_plain:
  assumes "target p = t" "ejs_proxy_specop_get_own_property strs env ops p P h = (Return None, h')" "own h' P = Some d"
  shows "desc_is_configurable d \<and> xt h'"
  using with_trap_Return [OF assms(2) [unfolded ejs_proxy_specop_get_own_property_def]] assms(3)
  by (auto simp: bind_m_Return EJS_OBJECT_IS_EXTENSIBLE_def assms(1) flag_law split: if_splits option.splits
      dest!: own_exact)

lemma proxy_has_plain:
  assumes "target p = t" "ejs_proxy_specop_has_property strs env ops p P h = (Return False, h')" "own h' P = Some d"
  shows "desc_is_configurable d \<and> xt h'"
  using with_trap_Return [OF assms(2) [unfolded ejs_proxy_specop_has_property_def]] assms(3)
  by (auto simp: bind_m_Return EJS_OBJECT_IS_EXTENSIBLE_def assms(1) flag_law split: if_splits option.splits
      dest!: own_exact has_exact)

end

section \<open>Ordinary objects and chains of proxies\<close>

lemma object_ops_simps [simp]:
  "op_IsExtensible (Object_specops strs index_key invoke) O' h = (Return (extensible (the_object h O')), h)"
  "op_GetPrototypeOf (Object_specops strs index_key invoke) O' h = (Return (proto (the_object h O')), h)"
  "op_GetOwnProperty (Object_specops strs index_key invoke) O' P h = (Return (ejs_object_specop_get_own_property strs h O' P), h)"
  "op_PreventExtensions (Object_specops strs index_key invoke) O' h =
     (Return True, put_object O' ((the_object h O')\<lparr>extensible := False\<rparr>) h)"
  by (simp_all add: Object_specops_def ejs_object_specop_is_extensible_def ejs_object_specop_get_prototype_of_def
      ejs_object_specop_preventextensions_def)

lemma has_property_own:
  "ejs_object_specop_has_property strs h O' P = Some False \<Longrightarrow> ejs_object_specop_get_own_property strs h O' P = None"
  by (subst (asm) ejs_object_specop_has_property.simps) (auto split: option.splits)

interpretation ord: honest_object "Object_specops strs index_key invoke" t "\<lambda>h. extensible (the_object h t)"
    "\<lambda>h. proto (the_object h t)" "\<lambda>h. ejs_object_specop_get_own_property strs h t"
  by unfold_locales (auto simp: Object_specops_def [where ?strs = strs] ejs_object_specop_is_extensible_def
      ejs_object_specop_get_prototype_of_def ejs_object_specop_preventextensions_def has_property_own)

interpretation pl: plain_object "Object_specops strs index_key invoke" t "\<lambda>h. extensible (the_object h t)"
    "\<lambda>h. proto (the_object h t)" "\<lambda>h. ejs_object_specop_get_own_property strs h t"
    "env\<lparr>extensible_flag := (\<lambda>t h. extensible (the_object h t))\<rparr>"
  by unfold_locales (auto simp: Object_specops_def [where ?strs = strs] has_property_own)

definition header_flag :: "objects proxy_env \<Rightarrow> bool" where
  "header_flag env \<longleftrightarrow> extensible_flag env = (\<lambda>t h. extensible (the_object h t))"

text \<open>A chain of proxies, given from the outermost one on, with the values that refer to them.\<close>

fun chain_specops :: "strings \<Rightarrow> 'h proxy_env \<Rightarrow> 'h EJSSpecOps \<Rightarrow> (ejsval \<times> EJSProxy) list \<Rightarrow> 'h EJSSpecOps" where
  "chain_specops strs env ops [] = ops"
| "chain_specops strs env ops ((O', p) # ps) = Proxy_specops strs env (chain_specops strs env ops ps) p"

fun chain_head :: "ejsval \<Rightarrow> (ejsval \<times> EJSProxy) list \<Rightarrow> ejsval" where
  "chain_head t [] = t"
| "chain_head t ((O', p) # ps) = O'"

fun linked :: "ejsval \<Rightarrow> (ejsval \<times> EJSProxy) list \<Rightarrow> bool" where
  "linked t [] = True"
| "linked t ((O', p) # ps) \<longleftrightarrow> target p = chain_head t ps \<and> linked t ps"

lemma chain_honest:
  "linked t ps \<Longrightarrow> honest_object (chain_specops strs env (Object_specops strs index_key invoke) ps) (chain_head t ps)
     (\<lambda>h. extensible (the_object h t)) (\<lambda>h. proto (the_object h t)) (\<lambda>h. ejs_object_specop_get_own_property strs h t)"
proof (induction t ps rule: linked.induct)
  case (2 t O' p ps)
  then show ?case using honest_object.proxy_honest by fastforce
qed (simp add: ord.honest_object_axioms)

lemma short_chain_hides:
  assumes "linked t ps" "length ps \<le> 1" "header_flag env" "ejs_object_specop_get_own_property strs h' t P = Some d"
    "ops = chain_specops strs env (Object_specops strs index_key invoke) ps" "v = chain_head t ps"
    "op_GetOwnProperty ops v P h = (Return None, h') \<or> op_HasProperty ops v P h = (Return False, h')"
  shows "extensible (the_object h' t)"
proof (cases ps)
  case Nil
  then show ?thesis using assms(4-7) pl.has_exact [where ?strs = strs] by auto
next
  case (Cons q qs)
  then obtain O' p where q: "q = (O', p)" "qs = []" using assms(2) by (cases q) auto
  have env: "env = env\<lparr>extensible_flag := (\<lambda>t h. extensible (the_object h t))\<rparr>"
    using assms(3) by (simp add: header_flag_def)
  have "target p = t" using assms(1) Cons q by simp
  then show ?thesis
    using assms(4-7) Cons q pl.proxy_own_plain [where ?env = env, folded env] pl.proxy_has_plain [where ?env = env, folded env]
    by (auto simp: Proxy_specops_def)
qed



text \<open>A concrete proxy: every trap is the same function, which answers \<open>r\<close> and leaves the state alone.\<close>

definition object_value :: "ejsval \<Rightarrow> ejsval" where "object_value n = 0xFFFC800000000000 + n"

definition constant_env :: "ejsval \<Rightarrow> objects proxy_env" where
  "constant_env r =
     \<lparr>get_property = (\<lambda>_ _. return_m (object_value 24)), has_call = (\<lambda>_ _. True), invoke_closure = (\<lambda>_ _ _. return_m r),
      from_descriptor = (\<lambda>_. return_m (object_value 32)), to_descriptor = (\<lambda>_. return_m ejs_propertydesc_new),
      array_elements = (\<lambda>_. return_m []), extensible_flag = (\<lambda>t h. extensible (the_object h t)), word_behind = 0\<rparr>"

definition sample_proxy :: EJSProxy where "sample_proxy = \<lparr>handler = object_value 16, target = object_value 8\<rparr>"

lemma object_values [simp]:
  "is_object (object_value 8)" "is_object (object_value 16)" "is_object (object_value 24)"
  "\<not> EJSVAL_IS_NULL_IMPL (object_value 16)" "\<not> EJSVAL_IS_NULL_IMPL (object_value 24)"
  "\<not> EJSVAL_IS_UNDEFINED_IMPL (object_value 16)" "\<not> EJSVAL_IS_UNDEFINED_IMPL (object_value 24)"
  "ToEJSBool strs ejs_false = Some False" "ToEJSBool strs ejs_true = Some True"
  by code_simp+

lemma constant_trap: "GetMethod (constant_env r) (object_value 16) n h = (Return (object_value 24), h)"
  by (simp add: GetMethod_def GetV_def constant_env_def IsCallable_def bind_m_def)

lemma constant_call: "call_trap (constant_env r) p trap args h = (Return r, h)"
  by (simp add: call_trap_def constant_env_def)


text \<open>Two proxies deny a configurable property of an object even if it is not extensible: the outer one looks at the flag in
  the header of the inner proxy, which stays set.\<close>

lemma undefined_value [simp]: "EJSVAL_IS_UNDEFINED_IMPL ejs_undefined"
  by code_simp

lemma absent_trap:
  assumes "get_property env (handler p) n = return_m ejs_undefined" "\<not> EJSVAL_IS_NULL_IMPL (handler p)"
  shows "with_trap env p n forward continue = forward"
  using assms by (intro ext) (simp add: with_trap_def GetMethod_def GetV_def bind_m_def)

lemma nested_proxies_hide:
  assumes "ejs_object_specop_get_own_property strs h t P = Some d" "desc_is_configurable d"
    "extensible_flag env v h" "handler p \<noteq> handler q" "target p = v" "target q = t"
    "\<not> EJSVAL_IS_NULL_IMPL (handler p)" "\<not> EJSVAL_IS_NULL_IMPL (handler q)"
    "get_property env (handler q) = (\<lambda>n. return_m ejs_undefined)"
    "GetMethod env (handler p) ''has'' h = (Return trap, h)" "\<not> EJSVAL_IS_UNDEFINED_IMPL trap"
    "invoke_closure env trap (handler p) [v, P] h = (Return ejs_false, h)"
  shows "op_HasProperty (chain_specops strs env (Object_specops strs index_key invoke) [(u, p), (v, q)]) u P h = (Return False, h)"
proof -
  have "op_GetOwnProperty (Proxy_specops strs env (Object_specops strs index_key invoke) q) v P h = (Return (Some d), h)"
    using assms(1,6,8,9) by (simp add: Proxy_specops_def ejs_proxy_specop_get_own_property_def absent_trap)
  then show ?thesis
    using assms(2,3,5,7,10,11,12)
    by (simp add: Proxy_specops_def [of strs env _ p] ejs_proxy_specop_has_property_def with_trap_def call_bool_trap_def
        call_trap_def bind_m_def EJS_OBJECT_IS_EXTENSIBLE_def)
qed

section \<open>Absent traps\<close>

text \<open>A proxy whose handler has no traps is transparent: if the handler is an object (null excluded) whose every trap name
  reads as undefined, without side effects, then each of the eleven internal methods of the proxy is, as a function of
  state and arguments, the method of its target, applied to the target.\<close>

theorem proxy_transparent:
  assumes "\<And>n. get_property env (handler p) n = return_m ejs_undefined" "is_object (handler p)"
    "\<not> EJSVAL_IS_NULL_IMPL (handler p)"
  shows "Proxy_specops strs env ops p =
    \<lparr>op_GetPrototypeOf = (\<lambda>_. op_GetPrototypeOf ops (target p)), op_SetPrototypeOf = (\<lambda>_. op_SetPrototypeOf ops (target p)),
     op_IsExtensible = (\<lambda>_. op_IsExtensible ops (target p)), op_PreventExtensions = (\<lambda>_. op_PreventExtensions ops (target p)),
     op_GetOwnProperty = (\<lambda>_. op_GetOwnProperty ops (target p)), op_DefineOwnProperty = (\<lambda>_. op_DefineOwnProperty ops (target p)),
     op_HasProperty = (\<lambda>_. op_HasProperty ops (target p)), op_Get = (\<lambda>_. op_Get ops (target p)),
     op_Set = (\<lambda>_. op_Set ops (target p)), op_Delete = (\<lambda>_. op_Delete ops (target p)),
     op_OwnPropertyKeys = (\<lambda>_. op_OwnPropertyKeys ops (target p))\<rparr>"
  unfolding Proxy_specops_def ejs_proxy_specop_get_prototype_of_def ejs_proxy_specop_set_prototype_of_def
    ejs_proxy_specop_is_extensible_def ejs_proxy_specop_prevent_extensions_def ejs_proxy_specop_get_own_property_def
    ejs_proxy_specop_define_own_property_def ejs_proxy_specop_has_property_def ejs_proxy_specop_get_def
    ejs_proxy_specop_set_def ejs_proxy_specop_delete_def ejs_proxy_specop_own_property_keys_def absent_trap [OF assms(1,3)]
  using assms(2) by simp

theorem proxy_transparent_witness:
  "let env = (constant_env ejs_true)\<lparr>get_property := (\<lambda>_ _. return_m ejs_undefined)\<rparr>;
       ob = Object_specops (\<lambda>_. None) (\<lambda>_. None) (\<lambda>_ _ _. abort_m)
   in op_Get (Proxy_specops (\<lambda>_. None) env ob sample_proxy) (object_value 40) = op_Get ob (object_value 8)"
  unfolding Let_def
  by (subst proxy_transparent) (simp_all add: sample_proxy_def)

section \<open>Answers that are not checked\<close>

text \<open>The trap \<open>n\<close> of the proxy exists and answers \<open>r\<close>, which leads from the state \<open>h\<close> to \<open>h'\<close>.\<close>

definition answers :: "'h proxy_env \<Rightarrow> EJSProxy \<Rightarrow> string \<Rightarrow> ejsval list \<Rightarrow> 'h \<Rightarrow> ejsval \<Rightarrow> 'h \<Rightarrow> bool" where
  "answers env p n args h r h' \<longleftrightarrow> \<not> EJSVAL_IS_NULL_IMPL (handler p) \<and>
     (\<exists>trap g. GetMethod env (handler p) n h = (Return trap, g) \<and> \<not> EJSVAL_IS_UNDEFINED_IMPL trap \<and>
        invoke_closure env trap (handler p) args g = (Return r, h'))"

lemma answered:
  assumes "answers env p n args h r h'"
  shows "with_trap env p n forward (\<lambda>trap. bind_m (call_trap env p trap args) k) h = k r h'"
  using assms by (auto simp: answers_def with_trap_def call_trap_def bind_m_def)

lemma answered_bool:
  assumes "answers env p n args h r h'" "ToEJSBool strs r = Some b"
  shows "with_trap env p n forward (\<lambda>trap. bind_m (call_bool_trap strs env p trap args) k) h = k b h'"
  using assms by (auto simp: answers_def with_trap_def call_bool_trap_def call_trap_def bind_m_def)

text \<open>Where proxies of ordinary objects do not keep the invariants.  The answer of a get trap is passed on whatever the
  target holds.  A deleteProperty trap may claim to have deleted a property that cannot be deleted.  A set trap may
  claim to have changed a read-only property, and an honest claim to have changed a writable one that cannot be deleted
  is refused with a TypeError unless the values are the same.  On a target that is not extensible a setPrototypeOf
  trap may claim to have set a different prototype, and is refused when it names the present one.\<close>

theorem proxy_unchecked_answers:
  assumes "t = target p" "is_object t" "ToEJSBool strs yes = Some True"
  shows "(answers env p ''get'' [t, P, R] h r h' \<longrightarrow>
      ejs_proxy_specop_get strs env (Object_specops strs index_key invoke) p P R h = (Return r, h')) \<and>
    (answers env p ''deleteProperty'' [t, P] h yes h' \<longrightarrow>
      ejs_proxy_specop_delete strs env (Object_specops strs index_key invoke) p P f h = (Return True, h')) \<and>
    (answers env p ''set'' [t, P, V, R] h yes h' \<and> ejs_object_specop_get_own_property strs h' t P = Some d \<and>
       IsDataDescriptor (Some d) \<and> \<not> IsAccessorDescriptor (Some d) \<and> \<not> desc_is_configurable d \<and>
       SameValue strs V (desc_get_value d) = Some s \<longrightarrow>
      ejs_proxy_specop_set strs env (Object_specops strs index_key invoke) p P V R h =
        ((if desc_is_writable d \<and> \<not> s then Throws TypeError else Return True), h')) \<and>
    (answers env p ''setPrototypeOf'' [t, V] h yes h' \<and> \<not> extensible (the_object h' t) \<and>
       SameValue strs V (proto (the_object h' t)) = Some s \<longrightarrow>
      ejs_proxy_specop_set_prototype_of strs env (Object_specops strs index_key invoke) p V h =
        ((if s then Throws TypeError else Return True), h'))"
proof (intro conjI impI; (elim conjE)?)
  assume a: "answers env p ''get'' [t, P, R] h r h'"
  then show "ejs_proxy_specop_get strs env (Object_specops strs index_key invoke) p P R h = (Return r, h')"
    unfolding ejs_proxy_specop_get_def assms(1)
    by (subst answered [OF a [unfolded assms(1)]]) (auto simp: bind_m_def check_get_def IsDataDescriptor_def IsAccessorDescriptor_def)
next
  assume a: "answers env p ''deleteProperty'' [t, P] h yes h'"
  then show "ejs_proxy_specop_delete strs env (Object_specops strs index_key invoke) p P f h = (Return True, h')"
    unfolding ejs_proxy_specop_delete_def assms(1)
    by (subst answered_bool [OF a [unfolded assms(1)] assms(3)]) (auto simp: bind_m_def)
next
  assume a: "answers env p ''set'' [t, P, V, R] h yes h'" and "ejs_object_specop_get_own_property strs h' t P = Some d"
    "IsDataDescriptor (Some d)" "\<not> IsAccessorDescriptor (Some d)" "\<not> desc_is_configurable d"
    "SameValue strs V (desc_get_value d) = Some s"
  then show "ejs_proxy_specop_set strs env (Object_specops strs index_key invoke) p P V R h =
      ((if desc_is_writable d \<and> \<not> s then Throws TypeError else Return True), h')"
    unfolding ejs_proxy_specop_set_def assms(1)
    by (subst answered_bool [OF a [unfolded assms(1)] assms(3)]) (auto simp: bind_m_def)
next
  assume a: "answers env p ''setPrototypeOf'' [t, V] h yes h'" and "\<not> extensible (the_object h' t)"
    "SameValue strs V (proto (the_object h' t)) = Some s"
  then show "ejs_proxy_specop_set_prototype_of strs env (Object_specops strs index_key invoke) p V h =
      ((if s then Throws TypeError else Return True), h')"
    using assms(2) unfolding ejs_proxy_specop_set_prototype_of_def assms(1)
    by (subst answered_bool [OF a [unfolded assms(1)] assms(3)]) (auto simp: bind_m_def IsExtensible_def)
qed

theorem proxy_unchecked_answers_witness:
  "let env = constant_env ejs_true; h = (\<lambda>_. \<lparr>proto = ejs_null, props = [], extensible = False\<rparr>);
       ob = Object_specops (\<lambda>_. None) (\<lambda>_. None) (\<lambda>_ _ _. abort_m)
   in ejs_proxy_specop_get (\<lambda>_. None) env ob sample_proxy 0 0 h = (Return ejs_true, h)"
proof -
  let ?h = "\<lambda>_. \<lparr>proto = ejs_null, props = [], extensible = False\<rparr>"
  have a: "answers (constant_env ejs_true) sample_proxy ''get'' [object_value 8, 0, 0] ?h ejs_true ?h"
    by (simp add: answers_def sample_proxy_def constant_trap) (simp add: constant_env_def)
  show ?thesis
    unfolding Let_def
    by (rule conjunct1 [OF proxy_unchecked_answers [of "object_value 8", where ?yes = ejs_true], rule_format, OF _ _ _ a])
      (simp_all add: sample_proxy_def)
qed

end
