(* ===== verification/ObjectFunctions.thy ===== *)
theory ObjectFunctions
  imports SpecOps Integrity
begin

text \<open>
  Property descriptors as objects, and the functions of \<open>Object\<close> and \<open>Reflect\<close> (\<open>src/runtime/ejs-object.c\<close>,
  \<open>ejs-reflect.c\<close>, \<open>ejs-ops.c\<close>), over the tables of internal methods.  The environment has what depends on the rest of
  the runtime: the table of an object, the objects that wrap primitive values, the conversion of a value to a string, the
  allocator, the callable objects, the predefined strings (atoms) and objects, and the call of compiled code.
\<close>

record object_env =
  ops_of :: "ejsval \<Rightarrow> objects EJSSpecOps"
  wrap_primitive :: "ejsval \<Rightarrow> (objects, ejsval) action"
  string_key :: "ejsval \<Rightarrow> (objects, ejsval) action"
  allocate :: "objects \<Rightarrow> ptr"
  has_call_op :: "ejsval \<Rightarrow> objects \<Rightarrow> bool"
  has_construct_op :: "ejsval \<Rightarrow> objects \<Rightarrow> bool"
  atom_of :: "string \<Rightarrow> ejsval"
  Object_prototype :: ejsval
  Object_function :: ejsval
  env_strings :: strings
  call_closure :: "ejsval \<Rightarrow> ejsval \<Rightarrow> ejsval list \<Rightarrow> (objects, ejsval) action"
  construct_closure :: "ejsval \<Rightarrow> ejsval \<Rightarrow> ejsval list \<Rightarrow> (objects, ejsval) action"
  dense_elements :: "ejsval \<Rightarrow> objects \<Rightarrow> ejsval list option"

definition bool_value :: "bool \<Rightarrow> ejsval" where "bool_value b = (if b then ejs_true else ejs_false)"

definition ToObject :: "object_env \<Rightarrow> ejsval \<Rightarrow> (objects, ejsval) action" where
  "ToObject env exp =
     (if EJSVAL_IS_BOOLEAN_IMPL exp \<or> EJSVAL_IS_DOUBLE_IMPL exp \<or> EJSVAL_IS_STRING_IMPL exp \<or> EJSVAL_IS_SYMBOL_IMPL exp
      then wrap_primitive env exp
      else if EJSVAL_IS_UNDEFINED_IMPL exp \<or> EJSVAL_IS_NULL_IMPL exp then throw_m TypeError
      else if is_object exp then return_m exp
      else abort_m)"

definition ToPropertyKey :: "object_env \<Rightarrow> ejsval \<Rightarrow> (objects, ejsval) action" where
  "ToPropertyKey env argument = (if EJSVAL_IS_SYMBOL_IMPL argument then return_m argument else string_key env argument)"

definition callable :: "object_env \<Rightarrow> ejsval \<Rightarrow> (objects, bool) action" where
  "callable env v h = (Return (is_object v \<and> has_call_op env v h), h)"

definition IsConstructor :: "object_env \<Rightarrow> ejsval \<Rightarrow> (objects, bool) action" where
  "IsConstructor env v h = (Return (is_object v \<and> has_construct_op env v h), h)"

definition ejs_object_new :: "object_env \<Rightarrow> ejsval \<Rightarrow> (objects, ejsval) action" where
  "ejs_object_new env prot h =
     (let p = allocate env h in
      option_m (OBJECT_TO_EJSVAL_IMPL p) (h(p := \<lparr>proto = prot, props = [], extensible = True\<rparr>)))"

section \<open>Descriptors as objects\<close>

definition when_m :: "bool \<Rightarrow> ('h, unit) action \<Rightarrow> ('h, unit) action" where
  "when_m b m = (if b then m else return_m ())"

definition define_field :: "object_env \<Rightarrow> ejsval \<Rightarrow> string \<Rightarrow> ejsval \<Rightarrow> (objects, unit) action" where
  "define_field env obj field v =
     bind_m (op_DefineOwnProperty (ops_of env obj) obj (atom_of env field)
         \<lparr>flags = EJS_PROP_FLAGS_VALUE_SET OR EJS_PROP_WRITABLE OR EJS_PROP_ENUMERABLE OR EJS_PROP_CONFIGURABLE,
          value_or_getter = v, setter = 0\<rparr> False)
       (\<lambda>_. return_m ())"

text \<open>The field \<open>set\<close> is written under the test for a getter.\<close>

definition FromPropertyDescriptor :: "object_env \<Rightarrow> EJSPropertyDesc option \<Rightarrow> (objects, ejsval) action" where
  "FromPropertyDescriptor env Desc =
     (case Desc of
        None \<Rightarrow> return_m ejs_undefined
      | Some d \<Rightarrow>
          bind_m (ejs_object_new env (Object_prototype env)) (\<lambda>obj.
          bind_m (when_m (desc_has_value d) (define_field env obj ''value'' (value_or_getter d))) (\<lambda>_.
          bind_m (when_m (desc_has_writable d) (define_field env obj ''writable'' (bool_value (desc_is_writable d)))) (\<lambda>_.
          bind_m (when_m (desc_has_getter d) (define_field env obj ''get'' (desc_get_getter d))) (\<lambda>_.
          bind_m (when_m (desc_has_getter d) (define_field env obj ''set'' (desc_get_setter d))) (\<lambda>_.
          bind_m (when_m (desc_has_enumerable d) (define_field env obj ''enumerable'' (bool_value (desc_is_enumerable d)))) (\<lambda>_.
          bind_m (when_m (desc_has_configurable d) (define_field env obj ''configurable'' (bool_value (desc_is_configurable d)))) (\<lambda>_.
            return_m obj))))))))"

definition read_field ::
  "object_env \<Rightarrow> ejsval \<Rightarrow> string \<Rightarrow> (ejsval \<Rightarrow> EJSPropertyDesc \<Rightarrow> (objects, EJSPropertyDesc) action) \<Rightarrow> EJSPropertyDesc \<Rightarrow>
     (objects, EJSPropertyDesc) action" where
  "read_field env Obj field f d =
     bind_m (op_HasProperty (ops_of env Obj) Obj (atom_of env field)) (\<lambda>b.
       if b then bind_m (op_Get (ops_of env Obj) Obj (atom_of env field) Obj) (\<lambda>v. f v d) else return_m d)"

definition bool_field ::
  "object_env \<Rightarrow> (EJSPropertyDesc \<Rightarrow> bool \<Rightarrow> EJSPropertyDesc) \<Rightarrow> ejsval \<Rightarrow> EJSPropertyDesc \<Rightarrow> (objects, EJSPropertyDesc) action" where
  "bool_field env set_field v d = bind_m (option_m (ToEJSBool (env_strings env) v)) (\<lambda>b. return_m (set_field d b))"

definition function_field ::
  "object_env \<Rightarrow> (EJSPropertyDesc \<Rightarrow> ejsval \<Rightarrow> EJSPropertyDesc) \<Rightarrow> ejsval \<Rightarrow> EJSPropertyDesc \<Rightarrow> (objects, EJSPropertyDesc) action" where
  "function_field env set_field v d =
     bind_m (callable env v) (\<lambda>c.
       if \<not> c \<and> \<not> EJSVAL_IS_UNDEFINED_IMPL v then throw_m TypeError else return_m (set_field d v))"

definition ToPropertyDescriptor :: "object_env \<Rightarrow> ejsval \<Rightarrow> (objects, EJSPropertyDesc) action" where
  "ToPropertyDescriptor env Obj =
     (if \<not> is_object Obj then throw_m TypeError
      else
        bind_m (read_field env Obj ''enumerable'' (bool_field env desc_set_enumerable) ejs_propertydesc_new) (\<lambda>d.
        bind_m (read_field env Obj ''configurable'' (bool_field env desc_set_configurable) d) (\<lambda>d.
        bind_m (read_field env Obj ''value'' (\<lambda>v d. return_m (desc_set_value d v)) d) (\<lambda>d.
        bind_m (read_field env Obj ''writable'' (bool_field env desc_set_writable) d) (\<lambda>d.
        bind_m (read_field env Obj ''get'' (function_field env desc_set_getter) d) (\<lambda>d.
        bind_m (read_field env Obj ''set'' (function_field env desc_set_setter) d) (\<lambda>d.
          if (desc_has_getter d \<or> desc_has_setter d) \<and> (desc_has_value d \<or> desc_has_writable d)
          then throw_m TypeError else return_m d)))))))"

section \<open>Functions of Object\<close>

definition GetPrototypeFromConstructor :: "object_env \<Rightarrow> ejsval \<Rightarrow> ejsval \<Rightarrow> (objects, ejsval) action" where
  "GetPrototypeFromConstructor env ctor default_proto =
     bind_m (op_Get (ops_of env ctor) ctor (atom_of env ''prototype'') ctor) (\<lambda>prot.
       return_m (if EJSVAL_IS_UNDEFINED_IMPL prot then default_proto else prot))"

definition OrdinaryCreateFromConstructor :: "object_env \<Rightarrow> ejsval \<Rightarrow> ejsval \<Rightarrow> (objects, ejsval) action" where
  "OrdinaryCreateFromConstructor env ctor default_proto =
     bind_m (GetPrototypeFromConstructor env ctor default_proto) (ejs_object_new env)"

definition ejs_Object_impl :: "object_env \<Rightarrow> ejsval \<Rightarrow> ejsval list \<Rightarrow> (objects, ejsval) action" where
  "ejs_Object_impl env newTarget args =
     (let value = (if length args > 0 then args ! 0 else ejs_undefined) in
      if \<not> EJSVAL_IS_UNDEFINED_IMPL newTarget \<and> newTarget \<noteq> Object_function env
      then OrdinaryCreateFromConstructor env newTarget (Object_prototype env)
      else if EJSVAL_IS_NULL_IMPL value \<or> EJSVAL_IS_UNDEFINED_IMPL value then ejs_object_new env (Object_prototype env)
      else ToObject env value)"

definition ejs_Object_getPrototypeOf :: "object_env \<Rightarrow> ejsval \<Rightarrow> (objects, ejsval) action" where
  "ejs_Object_getPrototypeOf env O' = bind_m (ToObject env O') (\<lambda>obj. op_GetPrototypeOf (ops_of env obj) obj)"

text \<open>The TypeErrors of this function are not implemented.\<close>

definition ejs_Object_setPrototypeOf :: "object_env \<Rightarrow> ejsval \<Rightarrow> ejsval \<Rightarrow> (objects, ejsval) action" where
  "ejs_Object_setPrototypeOf env O' prot =
     (if \<not> is_object O' \<and> \<not> EJSVAL_IS_NULL_IMPL O' then abort_m
      else if \<not> is_object prot \<and> \<not> EJSVAL_IS_NULL_IMPL prot then abort_m
      else if \<not> is_object O' then return_m O'
      else bind_m (op_SetPrototypeOf (ops_of env O') O' prot) (\<lambda>status. if \<not> status then abort_m else return_m O'))"

definition ejs_Object_getOwnPropertyDescriptor :: "object_env \<Rightarrow> ejsval \<Rightarrow> ejsval \<Rightarrow> (objects, ejsval) action" where
  "ejs_Object_getOwnPropertyDescriptor env O' P =
     bind_m (ToObject env O') (\<lambda>obj.
     bind_m (ToPropertyKey env P) (\<lambda>key.
     bind_m (op_GetOwnProperty (ops_of env obj) obj key) (FromPropertyDescriptor env)))"

text \<open>Names and symbols are read from the property map; only the enumerable ones are returned.\<close>

definition ejs_Object_getOwnPropertyNames :: "ejsval \<Rightarrow> (objects, ejsval list) action" where
  "ejs_Object_getOwnPropertyNames O' h =
     (if \<not> is_object O' then (Aborts, h)
      else (Return (map fst (filter (\<lambda>(name, d). desc_is_enumerable d \<and> \<not> EJSVAL_IS_SYMBOL_IMPL name) (props (the_object h O')))), h))"

definition ejs_Object_getOwnPropertySymbols :: "ejsval \<Rightarrow> (objects, ejsval list) action" where
  "ejs_Object_getOwnPropertySymbols O' h =
     (if \<not> is_object O' then (Aborts, h)
      else (Return (map fst (filter (\<lambda>(name, d). desc_is_enumerable d \<and> EJSVAL_IS_SYMBOL_IMPL name) (props (the_object h O')))), h))"

definition ejs_Object_defineProperty :: "object_env \<Rightarrow> ejsval \<Rightarrow> ejsval \<Rightarrow> ejsval \<Rightarrow> (objects, ejsval) action" where
  "ejs_Object_defineProperty env O' P Attributes =
     (if \<not> is_object O' then bind_m (string_key env P) (\<lambda>name. throw_m TypeError)
      else
        bind_m (ToPropertyKey env P) (\<lambda>key.
        bind_m (ToPropertyDescriptor env Attributes) (\<lambda>desc.
        bind_m (op_DefineOwnProperty (ops_of env O') O' key desc False) (\<lambda>success.
          if \<not> success then throw_m TypeError else return_m O'))))"

text \<open>The descriptors are read before the first of them is defined.\<close>

fun read_descriptors ::
  "object_env \<Rightarrow> ejsval \<Rightarrow> ejsval list \<Rightarrow> (objects, (ejsval \<times> EJSPropertyDesc) list) action" where
  "read_descriptors env p [] = return_m []"
| "read_descriptors env p (P # names) =
     bind_m (op_Get (ops_of env p) p P p) (\<lambda>descObj.
     bind_m (ToPropertyDescriptor env descObj) (\<lambda>desc.
     bind_m (read_descriptors env p names) (\<lambda>rest. return_m ((P, desc) # rest))))"

fun define_all :: "object_env \<Rightarrow> ejsval \<Rightarrow> (ejsval \<times> EJSPropertyDesc) list \<Rightarrow> (objects, unit) action" where
  "define_all env O' [] = return_m ()"
| "define_all env O' ((P, d) # rest) =
     bind_m (op_DefineOwnProperty (ops_of env O') O' P d True) (\<lambda>_. define_all env O' rest)"

definition ejs_Object_defineProperties :: "object_env \<Rightarrow> ejsval \<Rightarrow> ejsval \<Rightarrow> (objects, ejsval) action" where
  "ejs_Object_defineProperties env O' Properties =
     (if \<not> is_object O' then abort_m
      else if EJSVAL_IS_UNDEFINED_IMPL Properties \<or> EJSVAL_IS_NULL_IMPL Properties then return_m O'
      else
        bind_m (ToObject env Properties) (\<lambda>p h.
          let names = map fst (filter (\<lambda>(name, d). desc_is_enumerable d) (props (the_object h p))) in
          if names = [] then (Return O', h)
          else bind_m (read_descriptors env p names) (\<lambda>descriptors.
                 bind_m (define_all env O' descriptors) (\<lambda>_. return_m O')) h))"

definition ejs_Object_create :: "object_env \<Rightarrow> ejsval \<Rightarrow> ejsval \<Rightarrow> (objects, ejsval) action" where
  "ejs_Object_create env O' Properties =
     (if EJSVAL_IS_OBJECT_OR_NULL_IMPL O' \<noteq> Some True then abort_m
      else
        bind_m (ejs_object_new env ejs_null) (\<lambda>obj.
        bind_m (\<lambda>h. (Return (), put_object obj ((the_object h obj)\<lparr>proto := O'\<rparr>) h)) (\<lambda>_.
        bind_m (if \<not> EJSVAL_IS_UNDEFINED_IMPL Properties then bind_m (ejs_Object_defineProperties env obj Properties) (\<lambda>_. return_m ())
                else return_m ()) (\<lambda>_. return_m obj))))"

section \<open>Functions of Reflect\<close>

text \<open>\<open>defineProperty\<close>, \<open>deleteProperty\<close> and \<open>enumerate\<close> are not implemented.  \<open>dense_elements\<close> is \<open>None\<close> for what is
  not a dense array.\<close>

definition ejs_Reflect_apply :: "object_env \<Rightarrow> ejsval \<Rightarrow> ejsval \<Rightarrow> ejsval \<Rightarrow> (objects, ejsval) action" where
  "ejs_Reflect_apply env target thisArgument argumentsList =
     bind_m (ToObject env target) (\<lambda>obj.
     bind_m (callable env obj) (\<lambda>c.
     if \<not> c then throw_m TypeError
     else (\<lambda>h. case dense_elements env argumentsList h of
                 None \<Rightarrow> throw_m TypeError h
               | Some args \<Rightarrow> call_closure env obj thisArgument args h)))"

definition Construct :: "object_env \<Rightarrow> ejsval \<Rightarrow> ejsval \<Rightarrow> ejsval list \<Rightarrow> (objects, ejsval) action" where
  "Construct env F newTarget args =
     (let newTarget = (if EJSVAL_IS_UNDEFINED_IMPL newTarget then F else newTarget) in
      bind_m (IsConstructor env F) (\<lambda>a.
      bind_m (IsConstructor env newTarget) (\<lambda>b.
        if a \<and> b then construct_closure env F newTarget args else abort_m)))"

definition ejs_Reflect_construct :: "object_env \<Rightarrow> ejsval list \<Rightarrow> (objects, ejsval) action" where
  "ejs_Reflect_construct env args =
     (let target = (if length args > 0 then args ! 0 else ejs_undefined);
          argumentsList = (if length args > 1 then args ! 1 else ejs_undefined);
          newTarget = (if length args \<le> 2 then target else args ! 2) in
      bind_m (IsConstructor env target) (\<lambda>a.
      if \<not> a then throw_m TypeError
      else
        bind_m (if length args \<le> 2 then return_m True else IsConstructor env newTarget) (\<lambda>b.
        if \<not> b then throw_m TypeError
        else (\<lambda>h. case dense_elements env argumentsList h of
                    None \<Rightarrow> throw_m TypeError h
                  | Some as \<Rightarrow> Construct env target newTarget as h))))"

definition ejs_Reflect_get :: "object_env \<Rightarrow> ejsval list \<Rightarrow> (objects, ejsval) action" where
  "ejs_Reflect_get env args =
     (let target = (if length args > 0 then args ! 0 else ejs_undefined);
          propertyKey = (if length args > 1 then args ! 1 else ejs_undefined);
          receiver = (if length args > 2 then args ! 2 else target) in
      bind_m (ToObject env target) (\<lambda>obj.
      bind_m (ToPropertyKey env propertyKey) (\<lambda>key. op_Get (ops_of env obj) obj key receiver)))"

definition ejs_Reflect_set :: "object_env \<Rightarrow> ejsval list \<Rightarrow> (objects, bool) action" where
  "ejs_Reflect_set env args =
     (let target = (if length args > 0 then args ! 0 else ejs_undefined);
          propertyKey = (if length args > 1 then args ! 1 else ejs_undefined);
          V = (if length args > 2 then args ! 2 else ejs_undefined);
          receiver = (if length args > 3 then args ! 3 else target) in
      bind_m (ToObject env target) (\<lambda>obj.
      bind_m (ToPropertyKey env propertyKey) (\<lambda>key. op_Set (ops_of env obj) obj key V receiver)))"

definition ejs_Reflect_getOwnPropertyDescriptor :: "object_env \<Rightarrow> ejsval \<Rightarrow> ejsval \<Rightarrow> (objects, ejsval) action" where
  "ejs_Reflect_getOwnPropertyDescriptor env target propertyKey =
     bind_m (ToObject env target) (\<lambda>obj.
     bind_m (ToPropertyKey env propertyKey) (\<lambda>key.
     bind_m (op_GetOwnProperty (ops_of env obj) obj key) (FromPropertyDescriptor env)))"

definition ejs_Reflect_getPrototypeOf :: "object_env \<Rightarrow> ejsval \<Rightarrow> (objects, ejsval) action" where
  "ejs_Reflect_getPrototypeOf env target = bind_m (ToObject env target) (\<lambda>obj. op_GetPrototypeOf (ops_of env obj) obj)"

definition ejs_Reflect_has :: "object_env \<Rightarrow> ejsval \<Rightarrow> ejsval \<Rightarrow> (objects, bool) action" where
  "ejs_Reflect_has env target propertyKey =
     bind_m (ToObject env target) (\<lambda>obj.
     bind_m (ToPropertyKey env propertyKey) (\<lambda>key. op_HasProperty (ops_of env obj) obj key))"

text \<open>This one reads the flag of the object instead of calling its method.\<close>

definition ejs_Reflect_isExtensible :: "object_env \<Rightarrow> ejsval \<Rightarrow> (objects, bool) action" where
  "ejs_Reflect_isExtensible env target =
     bind_m (ToObject env target) (\<lambda>obj h. (Return (extensible (the_object h obj)), h))"

definition ejs_Reflect_ownKeys :: "object_env \<Rightarrow> ejsval \<Rightarrow> (objects, ejsval list) action" where
  "ejs_Reflect_ownKeys env target = bind_m (ToObject env target) (\<lambda>obj. op_OwnPropertyKeys (ops_of env obj) obj)"

definition ejs_Reflect_preventExtensions :: "object_env \<Rightarrow> ejsval \<Rightarrow> (objects, bool) action" where
  "ejs_Reflect_preventExtensions env target =
     bind_m (ToObject env target) (\<lambda>obj. op_PreventExtensions (ops_of env obj) obj)"

text \<open>The method is called on the argument, not on the object made of it.\<close>

definition ejs_Reflect_setPrototypeOf :: "object_env \<Rightarrow> ejsval \<Rightarrow> ejsval \<Rightarrow> (objects, bool) action" where
  "ejs_Reflect_setPrototypeOf env target prot =
     bind_m (ToObject env target) (\<lambda>obj.
       if \<not> is_object prot \<and> \<not> EJSVAL_IS_NULL_IMPL prot then throw_m TypeError
       else op_SetPrototypeOf (ops_of env obj) target prot)"

end
