(* ===== verification/ObjectFunctionLaws.thy ===== *)
theory ObjectFunctionLaws
  imports ObjectFunctions
begin

text \<open>
  The round trip of property descriptors through objects, and what defining a property through one leads to.
\<close>

section \<open>Environments\<close>

definition field_names :: "string list" where
  "field_names = [''value'', ''writable'', ''get'', ''set'', ''enumerable'', ''configurable'']"

text \<open>The names of the fields are different keys, none of them \<open>__proto__\<close>, and \<open>Object.prototype\<close>, which has no prototype,
  has no property of these names; the allocator returns an address for an object other than \<open>Object.prototype\<close>.\<close>

definition descriptor_env :: "object_env \<Rightarrow> objects \<Rightarrow> bool" where
  "descriptor_env env h \<longleftrightarrow>
     (\<exists>index_key invoke. ops_of env = (\<lambda>_. Object_specops (env_strings env) index_key invoke)) \<and>
     (\<forall>a\<in>set field_names. \<not> is_proto_name (env_strings env) (atom_of env a) \<and>
        own (env_strings env) h (Object_prototype env) (atom_of env a) = None \<and>
        (\<forall>b\<in>set field_names. key_eq (env_strings env) (atom_of env a) (atom_of env b) \<longleftrightarrow> a = b)) \<and>
     \<not> EJSVAL_IS_NULL_IMPL (Object_prototype env) \<and> EJSVAL_IS_NULL_IMPL (proto (the_object h (Object_prototype env))) \<and>
     allocate env h \<noteq> 0 \<and> drop_bit 47 (allocate env h) = 0 \<and> allocate env h \<noteq> EJSVAL_TO_OBJECT_IMPL (Object_prototype env)"

lemma new_object_value:
  assumes "descriptor_env env h"
  shows "\<exists>v. OBJECT_TO_EJSVAL_IMPL (allocate env h) = Some v \<and> is_object v \<and> EJSVAL_TO_OBJECT_IMPL v = allocate env h"
proof -
  let ?p = "allocate env h"
  have p: "?p \<noteq> 0" "drop_bit 47 ?p = 0" using assms by (simp_all add: descriptor_env_def)
  let ?v = "push_bit 47 0x1FFF9 OR ?p"
  have "take_bit 47 ?v = take_bit 47 ?p" by (simp add: take_bit_or take_bit_push_bit)
  then have "drop_bit 47 ?v = 0x1FFF9" "take_bit 47 ?v = ?p" using p bits_ident [of 47 ?p] by simp_all
  then have "object_ref ?v" "EJSVAL_TO_OBJECT_IMPL ?v = ?p" by (simp_all add: object_ref_def to_object_take_bit)
  then show ?thesis using p pointer_forms(4) by auto
qed

text \<open>The descriptor of a field, and an object with given fields.\<close>

definition field_desc :: "ejsval \<Rightarrow> EJSPropertyDesc" where
  "field_desc v = define_new
     \<lparr>flags = EJS_PROP_FLAGS_VALUE_SET OR EJS_PROP_WRITABLE OR EJS_PROP_ENUMERABLE OR EJS_PROP_CONFIGURABLE,
      value_or_getter = v, setter = 0\<rparr>"

lemma field_desc_facts [simp]: "IsDataDescriptor (Some (field_desc v))" "value_or_getter (field_desc v) = v"
  by (simp_all add: field_desc_def define_new_def desc_kinds desc_bits flag_defs desc_macros Let_def desc_get_value_def)

definition with_fields :: "object_env \<Rightarrow> (string \<times> ejsval) list \<Rightarrow> EJSObject" where
  "with_fields env fs =
     \<lparr>proto = Object_prototype env, props = map (\<lambda>(n, v). (atom_of env n, field_desc v)) fs, extensible = True\<rparr>"

lemma al_lookup_fields:
  assumes "descriptor_env env h" "set (map fst fs) \<subseteq> set field_names" "a \<in> set field_names"
  shows "al_lookup (key_eq (env_strings env)) (map (\<lambda>(n, v). (atom_of env n, field_desc v)) fs) (atom_of env a) =
    map_option field_desc (map_of fs a)"
  using assms(2) by (induction fs) (use assms(1,3) in \<open>auto simp: descriptor_env_def\<close>)

lemma al_insert_new: "al_lookup eq al k = None \<Longrightarrow> al_insert eq al k d = al @ [(k, d)]"
  by (induction al) (auto split: if_splits)

lemma define_field_new:
  assumes "descriptor_env env h" "set (map fst fs) \<subseteq> set field_names" "a \<in> set field_names" "a \<notin> fst ` set fs"
    "length fs < 10" "EJSVAL_TO_OBJECT_IMPL v = p"
  shows "define_field env v a x (g(p := with_fields env fs)) = (Return (), g(p := with_fields env (fs @ [(a, x)])))"
proof -
  obtain ik inv where ops: "ops_of env = (\<lambda>_. Object_specops (env_strings env) ik inv)"
    using assms(1) by (auto simp: descriptor_env_def)
  let ?D = "\<lparr>flags = EJS_PROP_FLAGS_VALUE_SET OR EJS_PROP_WRITABLE OR EJS_PROP_ENUMERABLE OR EJS_PROP_CONFIGURABLE,
      value_or_getter = x, setter = 0\<rparr>"
  have none: "al_lookup (key_eq (env_strings env)) (map (\<lambda>(n, v). (atom_of env n, field_desc v)) fs) (atom_of env a) = None"
    using al_lookup_fields [OF assms(1,2,3)] assms(4) by (simp add: map_of_eq_None_iff)
  then have o: "own (env_strings env) (g(p := with_fields env fs)) v (atom_of env a) = None"
    using assms(6) by (simp add: ejs_object_specop_get_own_property_def with_fields_def)
  have st: "validate_define True None ?D = Store (field_desc x)"
    by (simp add: validate_define_def field_desc_def)
  have "ejs_object_specop_define_own_property (env_strings env) v (atom_of env a) ?D False (g(p := with_fields env fs)) =
      (Return True, g(p := with_fields env (fs @ [(a, x)])))"
    by (subst define_stored [where ?d = "field_desc x"])
      (use o st none assms(5,6) in \<open>simp_all add: with_fields_def al_insert_new MAX_PROPERTIES_def\<close>)
  then show ?thesis by (simp add: define_field_def ops Object_specops_def bind_m_def)
qed

text \<open>The fields that \<open>FromPropertyDescriptor\<close> writes.\<close>

definition fields_of :: "EJSPropertyDesc \<Rightarrow> (string \<times> ejsval) list" where
  "fields_of d =
     (if desc_has_value d then [(''value'', value_or_getter d)] else []) @
     (if desc_has_writable d then [(''writable'', bool_value (desc_is_writable d))] else []) @
     (if desc_has_getter d then [(''get'', desc_get_getter d), (''set'', desc_get_setter d)] else []) @
     (if desc_has_enumerable d then [(''enumerable'', bool_value (desc_is_enumerable d))] else []) @
     (if desc_has_configurable d then [(''configurable'', bool_value (desc_is_configurable d))] else [])"

lemma when_field_new:
  assumes "descriptor_env env h" "set (map fst fs) \<subseteq> set field_names" "a \<in> set field_names" "a \<notin> fst ` set fs"
    "length fs < 10" "EJSVAL_TO_OBJECT_IMPL v = p"
  shows "when_m b (define_field env v a x) (g(p := with_fields env fs)) =
    (Return (), g(p := with_fields env (fs @ (if b then [(a, x)] else []))))"
  using define_field_new [OF assms] by (simp add: when_m_def)

lemma from_descriptor_fields:
  assumes "descriptor_env env h" "OBJECT_TO_EJSVAL_IMPL (allocate env h) = Some v" "EJSVAL_TO_OBJECT_IMPL v = allocate env h"
  shows "FromPropertyDescriptor env (Some d) h = (Return v, h(allocate env h := with_fields env (fields_of d)))"
proof -
  let ?p = "allocate env h"
  have new: "ejs_object_new env (Object_prototype env) h = (Return v, h(?p := with_fields env []))"
    using assms(2) by (simp add: ejs_object_new_def with_fields_def option_m_def)
  have step: "bind_m (when_m b (define_field env v a x)) k (h(?p := with_fields env fs)) =
      k () (h(?p := with_fields env (fs @ (if b then [(a, x)] else []))))"
    if "set (map fst fs) \<subseteq> set field_names" "a \<in> set field_names" "a \<notin> fst ` set fs" "length fs < 10"
    for b a x k fs
    using when_field_new [OF assms(1) that assms(3)] by (simp add: bind_m_def)
  show ?thesis
    by (simp add: FromPropertyDescriptor_def bind_m_known [where ?m = "ejs_object_new env (Object_prototype env)", OF new])
      (simp add: step field_names_def fields_of_def)
qed

lemma field_absent:
  assumes "descriptor_env env h" "EJSVAL_TO_OBJECT_IMPL v = allocate env h" "a \<in> set field_names"
    "set (map fst fs) \<subseteq> set field_names"
  shows "own (env_strings env) (h(allocate env h := with_fields env fs)) v (atom_of env a) = map_option field_desc (map_of fs a)"
    "ejs_object_specop_has_property (env_strings env) (h(allocate env h := with_fields env fs)) v (atom_of env a) =
       Some (map_of fs a \<noteq> None)"
proof -
  let ?g = "h(allocate env h := with_fields env fs)"
  show o: "own (env_strings env) ?g v (atom_of env a) = map_option field_desc (map_of fs a)"
    using al_lookup_fields [OF assms(1,4,3)] assms(2) by (simp add: ejs_object_specop_get_own_property_def with_fields_def)
  have up: "ejs_object_specop_has_property (env_strings env) ?g (Object_prototype env) (atom_of env a) = Some False"
    using assms(1,3) by (subst ejs_object_specop_has_property.simps)
      (auto simp: descriptor_env_def ejs_object_specop_get_prototype_of_def ejs_object_specop_get_own_property_def)
  show "ejs_object_specop_has_property (env_strings env) ?g v (atom_of env a) = Some (map_of fs a \<noteq> None)"
    using o up assms(1,2) by (subst ejs_object_specop_has_property.simps)
      (auto simp: descriptor_env_def ejs_object_specop_get_prototype_of_def with_fields_def split: option.splits)
qed

lemma read_field_of:
  assumes "descriptor_env env h" "EJSVAL_TO_OBJECT_IMPL v = allocate env h" "a \<in> set field_names"
    "set (map fst fs) \<subseteq> set field_names"
  shows "read_field env v a f d (h(allocate env h := with_fields env fs)) =
    (case map_of fs a of None \<Rightarrow> return_m d | Some x \<Rightarrow> f x d) (h(allocate env h := with_fields env fs))"
proof -
  let ?g = "h(allocate env h := with_fields env fs)"
  obtain ik inv where ops: "ops_of env = (\<lambda>_. Object_specops (env_strings env) ik inv)"
    using assms(1) by (auto simp: descriptor_env_def)
  have np: "\<not> is_proto_name (env_strings env) (atom_of env a)" using assms(1,3) by (simp add: descriptor_env_def)
  have "map_of fs a = Some x \<Longrightarrow> ejs_object_specop_get (env_strings env) ?g v (atom_of env a) v = Some (Value x)" for x
    using get_own_data [OF np] field_absent(1) [OF assms] by simp
  then show ?thesis using field_absent(2) [OF assms]
    by (cases "map_of fs a") (simp_all add: read_field_def ops Object_specops_def bind_m_def option_m_def finish_get_def)
qed


section \<open>Round trip\<close>

definition restored :: "EJSPropertyDesc \<Rightarrow> EJSPropertyDesc" where
  "restored d =
     (let e = when_field (desc_has_enumerable d) (\<lambda>e. desc_set_enumerable e (desc_is_enumerable d)) ejs_propertydesc_new;
          e = when_field (desc_has_configurable d) (\<lambda>e. desc_set_configurable e (desc_is_configurable d)) e;
          e = when_field (desc_has_value d) (\<lambda>e. desc_set_value e (value_or_getter d)) e;
          e = when_field (desc_has_writable d) (\<lambda>e. desc_set_writable e (desc_is_writable d)) e;
          e = when_field (desc_has_getter d) (\<lambda>e. desc_set_getter e (desc_get_getter d)) e
      in when_field (desc_has_getter d) (\<lambda>e. desc_set_setter e (desc_get_setter d)) e)"

lemma restored_fields:
  assumes "valid_desc d"
  shows "desc_has_enumerable (restored d) = desc_has_enumerable d" "desc_is_enumerable (restored d) = desc_is_enumerable d"
    "desc_has_configurable (restored d) = desc_has_configurable d" "desc_is_configurable (restored d) = desc_is_configurable d"
    "desc_has_writable (restored d) = desc_has_writable d" "desc_is_writable (restored d) = desc_is_writable d"
    "desc_has_value (restored d) = desc_has_value d" "desc_get_value (restored d) = desc_get_value d"
    "desc_has_getter (restored d) = desc_has_getter d" "desc_get_getter (restored d) = desc_get_getter d"
    "desc_has_setter (restored d) = desc_has_getter d"
    "desc_get_setter (restored d) = (if desc_has_getter d then desc_get_setter d else ejs_undefined)"
proof -
  have v: "desc_has_getter d \<Longrightarrow> \<not> desc_has_value d" using assms by (auto simp: desc_kinds split: if_splits)
  show "desc_has_enumerable (restored d) = desc_has_enumerable d" "desc_is_enumerable (restored d) = desc_is_enumerable d"
    "desc_has_configurable (restored d) = desc_has_configurable d" "desc_is_configurable (restored d) = desc_is_configurable d"
    "desc_has_writable (restored d) = desc_has_writable d" "desc_is_writable (restored d) = desc_is_writable d"
    "desc_has_value (restored d) = desc_has_value d" "desc_has_getter (restored d) = desc_has_getter d"
    "desc_has_setter (restored d) = desc_has_getter d"
    by (auto simp: restored_def Let_def ejs_propertydesc_new_def desc_bits desc_macros)
  note h = this
  have "value_or_getter (restored d) = (if desc_has_getter d then desc_get_getter d else if desc_has_value d then value_or_getter d else 0)"
    "setter (restored d) = (if desc_has_getter d then desc_get_setter d else 0)"
    by (simp_all add: restored_def Let_def ejs_propertydesc_new_def desc_macros)
  then show "desc_get_value (restored d) = desc_get_value d" "desc_get_getter (restored d) = desc_get_getter d"
    "desc_get_setter (restored d) = (if desc_has_getter d then desc_get_setter d else ejs_undefined)"
    using h v by (auto simp: desc_get_value_def desc_get_getter_def desc_get_setter_def)
qed

definition accessors_callable :: "object_env \<Rightarrow> EJSPropertyDesc \<Rightarrow> bool" where
  "accessors_callable env d \<longleftrightarrow> (\<forall>f\<in>{desc_get_getter d, desc_get_setter d}.
     EJSVAL_IS_UNDEFINED_IMPL f \<or> is_object f \<and> (\<forall>g. has_call_op env f g))"

lemma bool_value_back: "ToEJSBool strs (bool_value b) = Some b"
proof -
  have "ToEJSBool strs ejs_true = Some True" "ToEJSBool strs ejs_false = Some False" by code_simp+
  then show ?thesis by (simp add: bool_value_def)
qed

lemma fields_lookup:
  "map_of (fields_of d) ''value'' = (if desc_has_value d then Some (value_or_getter d) else None)"
  "map_of (fields_of d) ''writable'' = (if desc_has_writable d then Some (bool_value (desc_is_writable d)) else None)"
  "map_of (fields_of d) ''get'' = (if desc_has_getter d then Some (desc_get_getter d) else None)"
  "map_of (fields_of d) ''set'' = (if desc_has_getter d then Some (desc_get_setter d) else None)"
  "map_of (fields_of d) ''enumerable'' = (if desc_has_enumerable d then Some (bool_value (desc_is_enumerable d)) else None)"
  "map_of (fields_of d) ''configurable'' = (if desc_has_configurable d then Some (bool_value (desc_is_configurable d)) else None)"
  by (simp_all add: fields_of_def)

lemma to_descriptor_fields:
  assumes "descriptor_env env h" "is_object v" "EJSVAL_TO_OBJECT_IMPL v = allocate env h" "valid_desc d" "accessors_callable env d"
  shows "ToPropertyDescriptor env v (h(allocate env h := with_fields env (fields_of d))) =
    (Return (restored d), h(allocate env h := with_fields env (fields_of d)))"
proof -
  let ?g = "h(allocate env h := with_fields env (fields_of d))"
  have sub: "set (map fst (fields_of d)) \<subseteq> set field_names" by (auto simp: fields_of_def field_names_def)
  have read: "read_field env v a f e ?g = (case map_of (fields_of d) a of None \<Rightarrow> return_m e | Some x \<Rightarrow> f x e) ?g"
    if "a \<in> set field_names" for a f e
    by (rule read_field_of [OF assms(1,3) that sub])
  have b: "bool_field env sf (bool_value b) e ?g = (Return (sf e b), ?g)" for sf b e
    by (simp add: bool_field_def bool_value_back)
  have f: "function_field env sf x e ?g = (Return (sf e x), ?g)" if "x \<in> {desc_get_getter d, desc_get_setter d}" for sf x e
    using assms(5) that by (auto simp: function_field_def callable_def accessors_callable_def bind_m_def)
  have "read_field env v ''enumerable'' (bool_field env desc_set_enumerable) e ?g =
      (Return (when_field (desc_has_enumerable d) (\<lambda>e. desc_set_enumerable e (desc_is_enumerable d)) e), ?g)"
    "read_field env v ''configurable'' (bool_field env desc_set_configurable) e ?g =
      (Return (when_field (desc_has_configurable d) (\<lambda>e. desc_set_configurable e (desc_is_configurable d)) e), ?g)"
    "read_field env v ''value'' (\<lambda>v d. return_m (desc_set_value d v)) e ?g =
      (Return (when_field (desc_has_value d) (\<lambda>e. desc_set_value e (value_or_getter d)) e), ?g)"
    "read_field env v ''writable'' (bool_field env desc_set_writable) e ?g =
      (Return (when_field (desc_has_writable d) (\<lambda>e. desc_set_writable e (desc_is_writable d)) e), ?g)"
    "read_field env v ''get'' (function_field env desc_set_getter) e ?g =
      (Return (when_field (desc_has_getter d) (\<lambda>e. desc_set_getter e (desc_get_getter d)) e), ?g)"
    "read_field env v ''set'' (function_field env desc_set_setter) e ?g =
      (Return (when_field (desc_has_getter d) (\<lambda>e. desc_set_setter e (desc_get_setter d)) e), ?g)" for e
    by (subst read; simp add: field_names_def fields_lookup when_field_def b f)+
  note steps = this
  have "\<not> ((desc_has_getter (restored d) \<or> desc_has_setter (restored d)) \<and> (desc_has_value (restored d) \<or> desc_has_writable (restored d)))"
    using assms(4) restored_fields [OF assms(4)] by (auto simp: desc_kinds split: if_splits)
  then show ?thesis
    using assms(2) by (simp add: ToPropertyDescriptor_def bind_m_def steps restored_def Let_def)
qed

text \<open>C38: descriptors through objects.  For a descriptor that is not both a data and an accessor descriptor and whose getter and
  setter are undefined or callable, \<open>FromPropertyDescriptor\<close> returns a new object, changing no other, from which
  \<open>ToPropertyDescriptor\<close> reads back every field, present or absent, with its value: value, writable, enumerable,
  configurable and getter.  The setter comes back exactly if there is a getter; without one it is lost.  Assumed of the
  runtime (\<open>descriptor_env\<close>): the objects involved are ordinary, the six field names are distinct keys other than
  \<open>__proto__\<close> that the Object prototype does not define itself, the chain ends at that prototype, and the allocator returns
  an address that fits a value and is not the prototype's.\<close>

theorem descriptor_roundtrip:
  assumes "descriptor_env env h" "valid_desc d" "accessors_callable env d"
  shows "\<exists>v g e. FromPropertyDescriptor env (Some d) h = (Return v, g) \<and> ToPropertyDescriptor env v g = (Return e, g) \<and>
    (\<forall>p. p \<noteq> allocate env h \<longrightarrow> g p = h p) \<and>
    desc_has_value e = desc_has_value d \<and> desc_get_value e = desc_get_value d \<and>
    desc_has_writable e = desc_has_writable d \<and> desc_is_writable e = desc_is_writable d \<and>
    desc_has_enumerable e = desc_has_enumerable d \<and> desc_is_enumerable e = desc_is_enumerable d \<and>
    desc_has_configurable e = desc_has_configurable d \<and> desc_is_configurable e = desc_is_configurable d \<and>
    desc_has_getter e = desc_has_getter d \<and> desc_get_getter e = desc_get_getter d \<and>
    desc_has_setter e = desc_has_getter d \<and> desc_get_setter e = (if desc_has_getter d then desc_get_setter d else ejs_undefined)"
proof -
  obtain v where v: "OBJECT_TO_EJSVAL_IMPL (allocate env h) = Some v" "is_object v" "EJSVAL_TO_OBJECT_IMPL v = allocate env h"
    using new_object_value [OF assms(1)] by blast
  show ?thesis
    using from_descriptor_fields [OF assms(1) v(1,3), of d] to_descriptor_fields [OF assms(1) v(2,3) assms(2,3)]
      restored_fields [OF assms(2)]
    by (intro exI [of _ v] exI [of _ "h(allocate env h := with_fields env (fields_of d))"] exI [of _ "restored d"]) simp
qed


definition sample_atom :: "string \<Rightarrow> ejsval" where
  "sample_atom n = 0xFFFC000000000010 +
     (if n = ''value'' then 0 else if n = ''writable'' then 1 else if n = ''get'' then 2 else if n = ''set'' then 3
      else if n = ''enumerable'' then 4 else 5)"

definition sample_env :: object_env where
  "sample_env =
     \<lparr>ops_of = (\<lambda>_. Object_specops (\<lambda>_. None) (\<lambda>_. None) (\<lambda>_ _ _. abort_m)), wrap_primitive = (\<lambda>_. abort_m),
      string_key = (\<lambda>_. abort_m), allocate = (\<lambda>_. 64), has_call_op = (\<lambda>_ _. False), has_construct_op = (\<lambda>_ _. False),
      atom_of = sample_atom, Object_prototype = 0xFFFC800000000020, Object_function = ejs_undefined, env_strings = (\<lambda>_. None),
      call_closure = (\<lambda>_ _ _. abort_m), construct_closure = (\<lambda>_ _ _. abort_m), dense_elements = (\<lambda>_ _. None)\<rparr>"

lemma sample_keys:
  assumes "a \<in> set field_names"
  shows "EJSVAL_IS_SYMBOL_IMPL (sample_atom a)" "\<not> EJSVAL_IS_STRING_IMPL (sample_atom a)"
  using assms by (auto simp: field_names_def sample_atom_def tag_facts)

lemma sample_keys_distinct:
  assumes "a \<in> set field_names" "b \<in> set field_names"
  shows "key_eq strs (sample_atom a) (sample_atom b) \<longleftrightarrow> a = b"
proof -
  have "sample_atom a = sample_atom b \<longleftrightarrow> a = b" using assms by (auto simp: field_names_def sample_atom_def)
  then show ?thesis
    using key_eq_meaning [of strs "sample_atom a" "sample_atom b"] sample_keys [OF assms(1)] sample_keys [OF assms(2)]
    by (simp add: adm_key_def key_meaning_def)
qed

lemma sample_prototype:
  "\<not> EJSVAL_IS_NULL_IMPL 0xFFFC800000000020" "EJSVAL_TO_OBJECT_IMPL 0xFFFC800000000020 = 32"
  by code_simp+

theorem descriptor_roundtrip_witness:
  "\<exists>v g e. FromPropertyDescriptor sample_env (Some undefined_desc) (\<lambda>_. \<lparr>proto = ejs_null, props = [], extensible = True\<rparr>) = (Return v, g) \<and>
     ToPropertyDescriptor sample_env v g = (Return e, g) \<and> desc_has_value e"
proof -
  let ?h = "\<lambda>_. \<lparr>proto = ejs_null, props = [], extensible = True\<rparr>"
  have "descriptor_env sample_env ?h"
    using sample_keys(2) sample_keys_distinct sample_prototype sample_facts(4)
    by (auto simp: descriptor_env_def sample_env_def ejs_object_specop_get_own_property_def is_proto_name_def)
  moreover have d: "valid_desc undefined_desc" "desc_has_value undefined_desc" "desc_get_getter undefined_desc = ejs_undefined"
    "desc_get_setter undefined_desc = ejs_undefined"
    by (simp_all add: undefined_desc_def desc_kinds desc_bits flag_defs desc_get_getter_def desc_get_setter_def)
  moreover have "accessors_callable sample_env undefined_desc"
    using d by (simp add: accessors_callable_def undefined_is_undefined)
  ultimately show ?thesis using descriptor_roundtrip [of sample_env ?h undefined_desc] by blast
qed

end
