(* ===== verification/Arrays.thy ===== *)
theory Arrays
  imports PropertyDesc
begin

text \<open>
  Arrays (\<open>src/runtime/ejs-array.c\<close>, \<open>ejs-array.h\<close>): the storage of dense arrays and the internal methods
  that distinguish arrays from ordinary objects.  A block of memory is a list whose entries are \<open>None\<close> until they
  are written; using such an entry as a value, an access outside the block, a copy of a negative number of
  elements, an overflow of \<open>int\<close>, and the access of a sparse array as if it were dense, are \<open>Aborts\<close>.
  \<open>malloc\<close> is taken to succeed.
\<close>

section \<open>Blocks and machine integers\<close>

definition of_option :: "'a option \<Rightarrow> 'a outcome" where
  "of_option x = (case x of None \<Rightarrow> Aborts | Some y \<Rightarrow> Return y)"

definition INT_MAX :: int where "INT_MAX = 2147483647"

text \<open>Narrowing to a 32-bit \<open>int\<close>.\<close>

definition c_int :: "int \<Rightarrow> int" where "c_int i = signed_take_bit 31 i"

definition c_max :: "int \<Rightarrow> int \<Rightarrow> int" where
  "c_max a b = (if c_int a > c_int b then c_int a else c_int b)"

definition c_min :: "int \<Rightarrow> int \<Rightarrow> int" where
  "c_min a b = (if c_int a > c_int b then c_int b else c_int a)"

definition memmove :: "'a list \<Rightarrow> int \<Rightarrow> 'a list \<Rightarrow> int \<Rightarrow> int \<Rightarrow> 'a list outcome" where
  "memmove dst d src s n =
     (if 0 \<le> n \<and> 0 \<le> d \<and> d + n \<le> int (length dst) \<and> 0 \<le> s \<and> s + n \<le> int (length src)
      then Return (take (nat d) dst @ take (nat n) (drop (nat s) src) @ drop (nat (d + n)) dst)
      else Aborts)"

text \<open>\<open>(int)n\<close> and the test \<open>floor(n) == n\<close> on a double.\<close>

definition double_to_int :: "double \<Rightarrow> int outcome" where
  "double_to_int d =
     (if isnan d \<or> isinf d \<or> dbl_trunc d < - INT_MAX - 1 \<or> dbl_trunc d > INT_MAX then Aborts
      else Return (dbl_trunc d))"

definition is_integral :: "double \<Rightarrow> bool" where
  "is_integral d \<longleftrightarrow> \<not> isnan d \<and>
     (if dbl_exp d = 0 then dbl_mant d = 0
      else dbl_exp d \<ge> 1075 \<or> (2 ^ 52 + dbl_mant d) mod 2 ^ (1075 - dbl_exp d) = 0)"

text \<open>\<open>NUMBER_TO_EJSVAL\<close> of an integer: the value is the double itself.\<close>

definition int_value :: "int \<Rightarrow> ejsval" where "int_value i = dbl_of_int i"

section \<open>Arrays\<close>

record Arraylet =
  start_idx :: int
  arraylet_length :: int
  arraylet_room :: int
  arraylet_elements :: "ejsval option list"

text \<open>The field \<open>element_descs\<close> of the dense data is never used.\<close>

datatype array_data =
    Dense (array_alloc: int) (elements: "ejsval option list")
  | Sparse (arraylet_alloc: int) (arraylet_num: int) (arraylets: "Arraylet list")

record EJSArray =
  array_length_desc :: EJSPropertyDesc
  array_length :: int
  array_data :: array_data

definition hole :: ejsval where "hole = MAGIC_TO_EJSVAL_IMPL EJS_ARRAY_HOLE"

definition SPARSE_ARRAY_CUTOFF :: int where "SPARSE_ARRAY_CUTOFF = 50000"

definition EJSVAL_IS_DENSE_ARRAY :: "EJSArray \<Rightarrow> bool" where
  "EJSVAL_IS_DENSE_ARRAY arr \<longleftrightarrow> (case array_data arr of Dense _ _ \<Rightarrow> True | Sparse _ _ _ \<Rightarrow> False)"

definition dense_block :: "EJSArray \<Rightarrow> ejsval option list outcome" where
  "dense_block arr = (case array_data arr of Dense _ es \<Rightarrow> Return es | Sparse _ _ _ \<Rightarrow> Aborts)"

definition set_block :: "EJSArray \<Rightarrow> ejsval option list \<Rightarrow> EJSArray" where
  "set_block arr es = arr\<lparr>array_data := Dense (array_alloc (array_data arr)) es\<rparr>"

definition element_entry :: "EJSArray \<Rightarrow> int \<Rightarrow> ejsval option outcome" where
  "element_entry arr i = bind_outcome (dense_block arr) (\<lambda>es.
     if 0 \<le> i \<and> i < int (length es) then Return (es ! nat i) else Aborts)"

definition element :: "EJSArray \<Rightarrow> int \<Rightarrow> ejsval outcome" where
  "element arr i = bind_outcome (element_entry arr i) of_option"

definition put_entry :: "EJSArray \<Rightarrow> int \<Rightarrow> ejsval option \<Rightarrow> EJSArray outcome" where
  "put_entry arr i v = bind_outcome (dense_block arr) (\<lambda>es.
     if 0 \<le> i \<and> i < int (length es) then Return (set_block arr (es[nat i := v])) else Aborts)"

definition ejs_array_new :: "int \<Rightarrow> bool \<Rightarrow> EJSArray" where
  "ejs_array_new numElements fill =
     \<lparr>array_length_desc = desc_set_value (desc_set_writable ejs_propertydesc_new True) (int_value numElements),
      array_length = numElements,
      array_data =
        (if numElements > SPARSE_ARRAY_CUTOFF then
           Sparse 5 0 (replicate 5 \<lparr>start_idx = 0, arraylet_length = 0, arraylet_room = 0, arraylet_elements = []\<rparr>)
         else Dense (numElements + 5)
           ((if fill then replicate (nat numElements) (Some hole) else replicate (nat numElements) None) @
            replicate (nat (numElements + 5) - nat numElements) None))\<rparr>"

definition maybe_realloc_dense :: "EJSArray \<Rightarrow> int \<Rightarrow> EJSArray outcome" where
  "maybe_realloc_dense arr high_index =
     (case array_data arr of
        Sparse _ _ _ \<Rightarrow> Aborts
      | Dense alloc es \<Rightarrow>
          if high_index \<ge> alloc then
            let new_alloc = high_index + 32 in
            if new_alloc > INT_MAX then Aborts
            else bind_outcome (memmove (replicate (nat new_alloc) None) 0 es 0 (array_length arr)) (\<lambda>new_elements.
              Return (arr\<lparr>array_data := Dense new_alloc new_elements\<rparr>))
          else Return arr)"

definition ejs_array_push_dense :: "EJSArray \<Rightarrow> ejsval list \<Rightarrow> (uint32 \<times> EJSArray) outcome" where
  "ejs_array_push_dense arr args =
     bind_outcome (maybe_realloc_dense arr (c_int (array_length arr + int (length args)))) (\<lambda>arr.
     bind_outcome (dense_block arr) (\<lambda>es.
     bind_outcome (memmove es (array_length arr) (map Some args) 0 (int (length args))) (\<lambda>es.
       let arr = (set_block arr es)\<lparr>array_length := array_length arr + int (length args)\<rparr> in
       Return (word_of_int (array_length arr), arr))))"

definition ejs_array_new_copy :: "ejsval list \<Rightarrow> EJSArray outcome" where
  "ejs_array_new_copy els =
     bind_outcome (ejs_array_push_dense (ejs_array_new 0 False) els) (\<lambda>(n, arr). Return arr)"

definition ejs_array_pop_dense :: "EJSArray \<Rightarrow> (ejsval \<times> EJSArray) outcome" where
  "ejs_array_pop_dense arr =
     (if array_length arr = 0 then Return (ejs_undefined, arr)
      else let arr = arr\<lparr>array_length := array_length arr - 1\<rparr> in
        bind_outcome (element arr (array_length arr)) (\<lambda>v. Return (v, arr)))"

text \<open>The fast paths of \<open>shift\<close> and \<open>unshift\<close>.\<close>

definition shift_dense :: "EJSArray \<Rightarrow> (ejsval \<times> EJSArray) outcome" where
  "shift_dense arr =
     (let len = c_int (array_length arr) in
      if len = 0 then Return (ejs_undefined, arr)
      else bind_outcome (element arr 0) (\<lambda>first.
        bind_outcome (dense_block arr) (\<lambda>es.
        bind_outcome (memmove es 0 es 1 (len - 1)) (\<lambda>es.
          Return (first, (set_block arr es)\<lparr>array_length := array_length arr - 1\<rparr>)))))"

definition unshift_dense :: "EJSArray \<Rightarrow> ejsval list \<Rightarrow> (ejsval \<times> EJSArray) outcome" where
  "unshift_dense arr args =
     (let argc = int (length args) in
      bind_outcome (maybe_realloc_dense arr (c_int (array_length arr + argc))) (\<lambda>arr.
      let len = c_int (array_length arr) in
      bind_outcome (dense_block arr) (\<lambda>es.
      bind_outcome (memmove es argc es 0 len) (\<lambda>es.
      bind_outcome (memmove es 0 (map Some args) 0 argc) (\<lambda>es.
        Return (int_value (len + argc), (set_block arr es)\<lparr>array_length := array_length arr + argc\<rparr>))))))"

text \<open>\<open>ArraySpeciesCreate\<close> once the species \<open>C\<close> is known; a constructor other than \<open>Array\<close> is compiled code.\<close>

definition ArraySpeciesCreate ::
  "ejsval \<Rightarrow> (ejsval \<Rightarrow> bool) \<Rightarrow> (ejsval \<Rightarrow> int \<Rightarrow> EJSArray outcome) \<Rightarrow> ejsval \<Rightarrow> int \<Rightarrow> EJSArray outcome" where
  "ArraySpeciesCreate ejs_Array is_constructor construct C len =
     (if EJSVAL_IS_UNDEFINED_IMPL C \<or> EJSVAL_IS_NULL_IMPL C \<or> C = ejs_Array then Return (ejs_array_new len False)
      else if \<not> is_constructor C then Throws TypeError
      else construct C len)"

text \<open>\<open>species\<close> is \<open>ArraySpeciesCreate\<close> on the receiver.\<close>

definition ejs_array_slice_dense ::
  "(int \<Rightarrow> EJSArray outcome) \<Rightarrow> EJSArray \<Rightarrow> ejsval list \<Rightarrow> EJSArray outcome" where
  "ejs_array_slice_dense species arr args =
     (let len = c_int (array_length arr) in
      bind_outcome (if length args > 0 then double_to_int (args ! 0) else Return 0) (\<lambda>begin'.
      bind_outcome (if length args > 1 then double_to_int (args ! 1) else Return len) (\<lambda>end'.
      let begin' = min begin' len; end' = min end' len in
      bind_outcome (species (end' - begin')) (\<lambda>rv.
      bind_outcome (dense_block rv) (\<lambda>dst.
      bind_outcome (dense_block arr) (\<lambda>src.
      bind_outcome (memmove dst 0 src begin' (end' - begin')) (\<lambda>dst.
        Return (set_block rv dst))))))))"

text \<open>\<open>_ejs_array_indexof\<close>: the first element that is null, or strictly equal.\<close>

function indexof_loop :: "(ejsval \<Rightarrow> bool option) \<Rightarrow> EJSArray \<Rightarrow> int \<Rightarrow> int outcome" where
  "indexof_loop same haystack i =
     (if i < array_length haystack then
        bind_outcome (element haystack i) (\<lambda>v.
        bind_outcome (of_option (same v)) (\<lambda>b.
          if b then Return i else indexof_loop same haystack (i + 1)))
      else Return (- 1))"
  by pat_completeness auto
termination by (relation "measure (\<lambda>(same, arr, i). nat (array_length arr - i))") auto

declare indexof_loop.simps [simp del]

definition ejs_array_indexof :: "strings \<Rightarrow> EJSArray \<Rightarrow> ejsval \<Rightarrow> int outcome" where
  "ejs_array_indexof strs haystack needle =
     (if EJSVAL_IS_NULL_IMPL needle then indexof_loop (\<lambda>v. Some (EJSVAL_IS_NULL_IMPL v)) haystack 0
      else indexof_loop (ejs_op_strict_eq strs needle) haystack 0)"

section \<open>The constructor\<close>

text \<open>\<open>(uint32_t)ToDouble(v)\<close> for a number.\<close>

definition ToUint32 :: "double \<Rightarrow> uint32 outcome" where
  "ToUint32 d =
     (if isnan d \<or> isinf d \<or> dbl_trunc d < 0 \<or> dbl_trunc d \<ge> 2 ^ 32 then Aborts
      else Return (word_of_int (dbl_trunc d)))"

definition ejs_Array_call :: "ejsval list \<Rightarrow> EJSArray outcome" where
  "ejs_Array_call args =
     (if length args = 0 then Return (ejs_array_new 0 False)
      else if length args = 1 \<and> EJSVAL_IS_DOUBLE_IMPL (args ! 0) then
        bind_outcome (ToUint32 (args ! 0)) (\<lambda>alloc. Return (ejs_array_new (uint alloc) True))
      else ejs_array_new_copy args)"

text \<open>As a constructor: the object is zeroed memory; \<open>calloc\<close> zeroes the elements.\<close>

definition ejs_Array_construct :: "ejsval list \<Rightarrow> EJSArray outcome" where
  "ejs_Array_construct args =
     (if length args = 1 \<and> EJSVAL_IS_DOUBLE_IMPL (args ! 0) then
        bind_outcome (ToUint32 (args ! 0)) (\<lambda>u.
          let alloc = sint u in
          Return \<lparr>array_length_desc = ejs_propertydesc_new, array_length = alloc,
            array_data = (if alloc > SPARSE_ARRAY_CUTOFF
              then Sparse 5 0 (replicate 5 \<lparr>start_idx = 0, arraylet_length = 0, arraylet_room = 0, arraylet_elements = []\<rparr>)
              else Dense alloc (replicate (nat alloc) (Some 0)))\<rparr>)
      else
        bind_outcome (memmove (replicate (length args + 5) None) 0 (map Some args) 0 (int (length args))) (\<lambda>es.
          Return \<lparr>array_length_desc = ejs_propertydesc_new, array_length = int (length args),
            array_data = Dense (int (length args) + 5) es\<rparr>))"

section \<open>Internal methods\<close>

text \<open>What the methods take from elsewhere: \<open>ToNumber\<close> and the strings.\<close>

record array_env =
  to_number :: "ejsval \<Rightarrow> ejsval outcome"
  texts :: strings

text \<open>\<open>Ordinary\<close>: the method ends by calling the one of ordinary objects.\<close>

datatype 'a handled = Handled 'a | Ordinary

text \<open>The common beginning of the methods: the index that the property name converts to.\<close>

definition property_index :: "array_env \<Rightarrow> ejsval \<Rightarrow> int option outcome" where
  "property_index env propertyName =
     (if \<not> EJSVAL_IS_SYMBOL_IMPL propertyName then
        bind_outcome (to_number env propertyName) (\<lambda>n.
          if EJSVAL_IS_DOUBLE_IMPL n \<and> is_integral n then bind_outcome (double_to_int n) (\<lambda>idx. Return (Some idx))
          else Return None)
      else Return None)"

definition length_name :: "jschar list" where
  "length_name = map (\<lambda>c. word_of_nat (of_char c)) ''length'' @ [0]"

definition is_length_name :: "array_env \<Rightarrow> ejsval \<Rightarrow> bool" where
  "is_length_name env P \<longleftrightarrow> EJSVAL_IS_STRING_IMPL P \<and>
     Option.bind (EJSVAL_TO_FLAT_STRING (texts env) P) (strcmp_loop length_name) = Some 0"

definition ejs_array_specop_get :: "array_env \<Rightarrow> EJSArray \<Rightarrow> ejsval \<Rightarrow> ejsval handled outcome" where
  "ejs_array_specop_get env arr propertyName =
     bind_outcome (property_index env propertyName) (\<lambda>is_index.
       case is_index of
         Some idx \<Rightarrow>
           if idx < 0 \<or> idx \<ge> array_length arr then Return (Handled ejs_undefined)
           else bind_outcome (element arr idx) (\<lambda>rv.
             Return (Handled (if EJSVAL_IS_ARRAY_HOLE_MAGIC rv then ejs_undefined else rv)))
       | None \<Rightarrow>
           if is_length_name env propertyName then Return (Handled (int_value (array_length arr)))
           else Return Ordinary)"

definition ejs_array_specop_get_own_property ::
  "array_env \<Rightarrow> EJSArray \<Rightarrow> ejsval \<Rightarrow> (EJSPropertyDesc \<times> EJSArray) handled outcome" where
  "ejs_array_specop_get_own_property env arr propertyName =
     bind_outcome (property_index env propertyName) (\<lambda>is_index.
       case is_index of
         Some idx \<Rightarrow>
           if 0 \<le> idx \<and> idx < array_length arr then
             bind_outcome (element arr idx) (\<lambda>v.
               Return (Handled (desc_set_value (desc_set_writable ejs_propertydesc_new True) v, arr)))
           else if is_length_name env propertyName then
             let arr = arr\<lparr>array_length_desc := desc_set_value (array_length_desc arr) (int_value (array_length arr))\<rparr> in
             Return (Handled (array_length_desc arr, arr))
           else Return Ordinary
       | None \<Rightarrow>
           if is_length_name env propertyName then
             let arr = arr\<lparr>array_length_desc := desc_set_value (array_length_desc arr) (int_value (array_length arr))\<rparr> in
             Return (Handled (array_length_desc arr, arr))
           else Return Ordinary)"

text \<open>The loops that store holes: downwards from \<open>i\<close> to the length \<open>len\<close>, which they do not change, and
  upwards from \<open>i\<close> to \<open>newLen\<close>.\<close>

function holes_down :: "EJSArray \<Rightarrow> int \<Rightarrow> int \<Rightarrow> EJSArray outcome" where
  "holes_down arr len i =
     (if i \<ge> len then bind_outcome (put_entry arr i (Some hole)) (\<lambda>arr. holes_down arr len (i - 1))
      else Return arr)"
  by pat_completeness auto
termination by (relation "measure (\<lambda>(arr, len, i). nat (i - len + 1))") auto

function holes_up :: "EJSArray \<Rightarrow> int \<Rightarrow> int \<Rightarrow> EJSArray outcome" where
  "holes_up arr i newLen =
     (if i < newLen then bind_outcome (put_entry arr i (Some hole)) (\<lambda>arr. holes_up arr (i + 1) newLen)
      else Return arr)"
  by pat_completeness auto
termination by (relation "measure (\<lambda>(arr, i, n). nat (n - i))") auto

declare holes_down.simps [simp del] holes_up.simps [simp del]

text \<open>The case of \<open>"length"\<close>, with the new length already converted.\<close>

definition set_length :: "EJSArray \<Rightarrow> int \<Rightarrow> EJSArray outcome" where
  "set_length arr newLen =
     (let oldLen = c_int (array_length arr) in
      case array_data arr of
        Sparse _ _ _ \<Rightarrow> Aborts
      | Dense alloc _ \<Rightarrow>
          bind_outcome (if newLen > alloc then maybe_realloc_dense arr newLen else Return arr) (\<lambda>arr.
          bind_outcome (if newLen > oldLen then holes_up arr oldLen newLen else Return arr) (\<lambda>arr.
            Return (arr\<lparr>array_length := newLen\<rparr>))))"

definition ejs_array_specop_set ::
  "array_env \<Rightarrow> EJSArray \<Rightarrow> ejsval \<Rightarrow> ejsval \<Rightarrow> (bool \<times> EJSArray) handled outcome" where
  "ejs_array_specop_set env arr propertyName val =
     bind_outcome (property_index env propertyName) (\<lambda>is_index.
       case is_index of
         Some idx \<Rightarrow>
           if EJSVAL_IS_DENSE_ARRAY arr then
             bind_outcome (maybe_realloc_dense arr idx) (\<lambda>arr.
             bind_outcome (if idx > array_length arr then holes_down arr (array_length arr) (idx - 1) else Return arr) (\<lambda>arr.
             bind_outcome (put_entry arr idx (Some val)) (\<lambda>arr.
               Return (Handled (True, arr\<lparr>array_length := max (array_length arr) (idx + 1)\<rparr>)))))
           else Aborts
       | None \<Rightarrow>
           if is_length_name env propertyName then
             bind_outcome (to_number env val) (\<lambda>n.
             bind_outcome (of_option (ToLength n)) (\<lambda>len.
             bind_outcome (set_length arr (c_int len)) (\<lambda>arr. Return (Handled (True, arr)))))
           else Return Ordinary)"

definition ejs_array_specop_has_property :: "array_env \<Rightarrow> EJSArray \<Rightarrow> ejsval \<Rightarrow> bool handled outcome" where
  "ejs_array_specop_has_property env arr propertyName =
     bind_outcome (property_index env propertyName) (\<lambda>is_index.
       case is_index of
         Some idx \<Rightarrow>
           if 0 \<le> idx \<and> idx < array_length arr then
             bind_outcome (element arr idx) (\<lambda>v. Return (Handled (\<not> EJSVAL_IS_ARRAY_HOLE_MAGIC v)))
           else Return Ordinary
       | None \<Rightarrow> Return Ordinary)"

definition ejs_array_specop_delete :: "array_env \<Rightarrow> EJSArray \<Rightarrow> ejsval \<Rightarrow> (bool \<times> EJSArray) handled outcome" where
  "ejs_array_specop_delete env arr propertyName =
     bind_outcome (property_index env propertyName) (\<lambda>is_index.
       let idx = (case is_index of Some i \<Rightarrow> i | None \<Rightarrow> - 1) in
       if idx < 0 then Return Ordinary
       else bind_outcome (if idx < array_length arr then put_entry arr idx (Some hole) else Return arr) (\<lambda>arr.
         Return (Handled (True, arr))))"

definition ejs_array_specop_define_own_property ::
  "array_env \<Rightarrow> EJSArray \<Rightarrow> ejsval \<Rightarrow> EJSPropertyDesc \<Rightarrow> (bool \<times> EJSArray) handled outcome" where
  "ejs_array_specop_define_own_property env arr propertyName d =
     bind_outcome (property_index env propertyName) (\<lambda>i.
       case (case i of Some idx \<Rightarrow> if idx \<ge> 0 then Some idx else None | None \<Rightarrow> None) of
         Some idx \<Rightarrow>
           if EJSVAL_IS_DENSE_ARRAY arr then
             bind_outcome (if idx \<ge> array_alloc (array_data arr) then maybe_realloc_dense arr idx else Return arr) (\<lambda>arr.
             bind_outcome (if idx > array_length arr then holes_down arr (array_length arr) idx else Return arr) (\<lambda>arr.
             bind_outcome (put_entry arr idx (Some (value_or_getter d))) (\<lambda>arr.
               Return (Handled (True, arr\<lparr>array_length := max (array_length arr) (idx + 1)\<rparr>)))))
           else Aborts
       | None \<Rightarrow>
           if is_length_name env propertyName then
             bind_outcome (to_number env (desc_get_value d)) (\<lambda>n.
             bind_outcome (ToUint32 n) (\<lambda>u.
             bind_outcome (set_length arr (sint u)) (\<lambda>arr. Return (Handled (True, arr)))))
           else Return Ordinary)"

text \<open>The values that the scan of an array reports before those of its ordinary properties.\<close>

fun scan_elements :: "(int \<Rightarrow> ejsval outcome) \<Rightarrow> nat \<Rightarrow> nat \<Rightarrow> ejsval list outcome" where
  "scan_elements el i 0 = Return []"
| "scan_elements el i (Suc n) = bind_outcome (el (int i)) (\<lambda>v.
     bind_outcome (scan_elements el (Suc i) n) (\<lambda>vs. Return (v # vs)))"

definition ejs_array_specop_scan :: "EJSArray \<Rightarrow> ejsval list outcome" where
  "ejs_array_specop_scan arr =
     (case array_data arr of
        Dense _ _ \<Rightarrow> scan_elements (element arr) 0 (nat (array_length arr))
      | Sparse _ n als \<Rightarrow>
          fold (\<lambda>al acc. bind_outcome acc (\<lambda>vs.
              bind_outcome (scan_elements (\<lambda>i. if i < int (length (arraylet_elements al))
                  then of_option (arraylet_elements al ! nat i) else Aborts) 0 (nat (arraylet_length al))) (\<lambda>ws.
                Return (vs @ ws)))) (take (nat n) als) (Return []))"

end
