(* ===== verification/ArrayLaws.thy ===== *)
theory ArrayLaws
  imports Arrays
begin

text \<open>
  Dense arrays are sequences: while they stay within the range of \<open>int\<close>, every operation returns, keeps the
  elements initialised and acts on the sequence they hold as its name says.
\<close>

section \<open>Blocks\<close>

lemma c_int_id: "- INT_MAX - 1 \<le> i \<Longrightarrow> i \<le> INT_MAX \<Longrightarrow> c_int i = i"
  by (simp add: c_int_def INT_MAX_def signed_take_bit_int_eq_self)

lemma c_int_nat [simp]: "int n \<le> INT_MAX \<Longrightarrow> c_int (int n) = int n"
  by (rule c_int_id) (simp_all add: INT_MAX_def)

lemma of_option_simps [simp]: "of_option (Some x) = Return x" "of_option None = Aborts"
  by (simp_all add: of_option_def)

lemma memmove_append:
  assumes "length xs \<le> length rest"
  shows "memmove (ys @ rest) (int (length ys)) xs 0 (int (length xs)) = Return (ys @ xs @ drop (length xs) rest)"
  using assms by (simp add: memmove_def nat_add_distrib)

text \<open>\<open>holds arr ys\<close>: a dense array whose elements are \<open>ys\<close>; an entry \<open>None\<close> has not been written.\<close>

definition holds :: "EJSArray \<Rightarrow> ejsval option list \<Rightarrow> bool" where
  "holds arr ys \<longleftrightarrow> array_length arr = int (length ys) \<and>
     (\<exists>rest. array_data arr = Dense (int (length ys + length rest)) (ys @ rest))"

lemma holdsE:
  assumes "holds arr ys"
  obtains rest where "array_length arr = int (length ys)"
    "array_data arr = Dense (int (length ys + length rest)) (ys @ rest)"
  using assms by (auto simp: holds_def)

lemma holds_length: "holds arr ys \<Longrightarrow> array_length arr = int (length ys)"
  by (simp add: holds_def)

lemma holds_dense [simp]: "holds arr ys \<Longrightarrow> EJSVAL_IS_DENSE_ARRAY arr"
  by (auto simp: holds_def EJSVAL_IS_DENSE_ARRAY_def)

lemma set_block_fields [simp]:
  "array_length (set_block arr es) = array_length arr"
  "array_data (set_block arr es) = Dense (array_alloc (array_data arr)) es"
  by (simp_all add: set_block_def)

lemma dense_block_simp [simp]: "array_data arr = Dense a es \<Longrightarrow> dense_block arr = Return es"
  by (simp add: dense_block_def)

lemma element_holds:
  assumes "holds arr ys" "0 \<le> i" "i < int (length ys)"
  shows "element arr i = of_option (ys ! nat i)"
  using assms by (auto elim!: holdsE simp: element_def element_entry_def nth_append)

lemma put_entry_holds:
  assumes "holds arr ys" "0 \<le> i" "i < int (length ys)"
  shows "\<exists>arr'. put_entry arr i v = Return arr' \<and> holds arr' (ys[nat i := v])"
proof -
  obtain rest where d: "array_length arr = int (length ys)"
    "array_data arr = Dense (int (length ys + length rest)) (ys @ rest)" using assms(1) by (rule holdsE)
  then show ?thesis using assms(2,3) by (auto simp: put_entry_def holds_def list_update_append)
qed

lemma realloc_holds:
  assumes "holds arr ys" "high + 32 \<le> INT_MAX"
  shows "\<exists>arr'. maybe_realloc_dense arr high = Return arr' \<and> holds arr' ys \<and> high < array_alloc (array_data arr')"
proof -
  obtain rest where d: "array_length arr = int (length ys)"
    "array_data arr = Dense (int (length ys + length rest)) (ys @ rest)" using assms(1) by (rule holdsE)
  show ?thesis
  proof (cases "high \<ge> int (length ys + length rest)")
    case False
    then show ?thesis using d assms(1) by (auto simp: maybe_realloc_dense_def)
  next
    case True
    let ?new = "ys @ replicate (nat (high + 32) - length ys) None"
    have "memmove (replicate (nat (high + 32)) None) 0 (ys @ rest) 0 (int (length ys)) = Return ?new"
      using True by (simp add: memmove_def)
    moreover have "int (length ys + length (replicate (nat (high + 32) - length ys) (None :: ejsval option))) = high + 32"
      using True by simp
    ultimately show ?thesis using d True assms(2)
      by (auto simp: maybe_realloc_dense_def Let_def holds_def intro!: exI [of _ "replicate (nat (high + 32) - length ys) None"])
  qed
qed

section \<open>Both ends\<close>

lemma push_holds:
  assumes "holds arr ys" "int (length ys + length args) + 32 \<le> INT_MAX"
  shows "\<exists>arr'. ejs_array_push_dense arr args = Return (word_of_int (int (length ys + length args)), arr') \<and>
    holds arr' (ys @ map Some args)"
proof -
  have hi: "c_int (array_length arr + int (length args)) = int (length ys + length args)"
    using assms by (simp add: holds_length c_int_id INT_MAX_def)
  obtain arr1 where r: "maybe_realloc_dense arr (int (length ys + length args)) = Return arr1" "holds arr1 ys"
    "int (length ys + length args) < array_alloc (array_data arr1)" using realloc_holds [OF assms] by blast
  obtain rest where d: "array_length arr1 = int (length ys)"
    "array_data arr1 = Dense (int (length ys + length rest)) (ys @ rest)" using r(2) by (rule holdsE)
  have fit: "length args \<le> length rest" using r(3) d(2) by simp
  have "memmove (ys @ rest) (int (length ys)) (map Some args) 0 (int (length args)) =
      Return (ys @ map Some args @ drop (length args) rest)"
    using memmove_append [of "map Some args" rest ys] fit by simp
  then show ?thesis using d r(1) fit hi
    by (auto simp: ejs_array_push_dense_def Let_def holds_def intro!: exI [of _ "drop (length args) rest"])
qed

lemma pop_holds:
  assumes "holds arr (map Some xs)"
  shows "ejs_array_pop_dense arr = Return (ejs_undefined, arr) \<and> xs = [] \<or>
    (\<exists>arr' ys y. xs = ys @ [y] \<and> ejs_array_pop_dense arr = Return (y, arr') \<and> holds arr' (map Some ys))"
proof (cases xs rule: rev_cases)
  case Nil
  then show ?thesis using assms by (simp add: ejs_array_pop_dense_def holds_length)
next
  case (snoc ys y)
  obtain rest where d: "array_length arr = int (length ys + 1)"
    "array_data arr = Dense (int (length ys + 1 + length rest)) (map Some ys @ Some y # rest)"
    using assms snoc by (auto elim!: holdsE)
  let ?arr = "arr\<lparr>array_length := int (length ys)\<rparr>"
  have "holds ?arr (map Some ys)" using d(2) by (auto simp: holds_def intro!: exI [of _ "Some y # rest"])
  moreover have "element ?arr (int (length ys)) = Return y"
    using d(2) by (simp add: element_def element_entry_def nth_append)
  ultimately show ?thesis using d(1) snoc by (auto simp: ejs_array_pop_dense_def Let_def)
qed

lemma shift_holds:
  assumes "holds arr (map Some xs)" "int (length xs) \<le> INT_MAX"
  shows "shift_dense arr = Return (ejs_undefined, arr) \<and> xs = [] \<or>
    (\<exists>arr' ys y. xs = y # ys \<and> shift_dense arr = Return (y, arr') \<and> holds arr' (map Some ys))"
proof (cases xs)
  case Nil
  then show ?thesis using assms by (simp add: shift_dense_def holds_length c_int_def)
next
  case (Cons y ys)
  obtain rest where d: "array_length arr = int (Suc (length ys))"
    "array_data arr = Dense (int (Suc (length ys) + length rest)) (Some y # map Some ys @ rest)"
    using assms(1) Cons by (auto elim!: holdsE)
  let ?es = "Some y # map Some ys @ rest"
  have len: "c_int (int (Suc (length ys))) = int (Suc (length ys))" using assms(2) Cons by (intro c_int_nat) simp
  define last' where "last' = (Some y # map Some ys) ! length ys"
  have "drop (length ys) (Some y # map Some ys) = [last']" unfolding last'_def by (simp add: Cons_nth_drop_Suc [symmetric])
  then have "drop (length ys) ?es = last' # rest" using drop_append [of "length ys" "Some y # map Some ys" rest] by simp
  then have "memmove ?es 0 ?es 1 (int (length ys)) = Return (map Some ys @ last' # rest)"
    by (simp add: memmove_def)
  then have "shift_dense arr = Return (y, (set_block arr (map Some ys @ last' # rest))\<lparr>array_length := int (length ys)\<rparr>)"
    using d len by (simp add: shift_dense_def Let_def element_def element_entry_def)
  then show ?thesis using Cons d(2) by (auto simp: holds_def intro!: exI [of _ "last' # rest"])
qed

lemma unshift_holds:
  assumes "holds arr ys" "int (length ys + length args) + 32 \<le> INT_MAX"
  shows "\<exists>arr'. unshift_dense arr args = Return (int_value (int (length ys + length args)), arr') \<and>
    holds arr' (map Some args @ ys)"
proof -
  have hi: "c_int (array_length arr + int (length args)) = int (length ys + length args)" "c_int (int (length ys)) = int (length ys)"
    using assms by (simp_all add: holds_length c_int_id INT_MAX_def)
  obtain arr1 where r: "maybe_realloc_dense arr (int (length ys + length args)) = Return arr1" "holds arr1 ys"
    "int (length ys + length args) < array_alloc (array_data arr1)" using realloc_holds [OF assms] by blast
  obtain rest where d: "array_length arr1 = int (length ys)"
    "array_data arr1 = Dense (int (length ys + length rest)) (ys @ rest)" using r(2) by (rule holdsE)
  have fit: "length args \<le> length rest" using r(3) d(2) by simp
  define pre where "pre = take (length args) (ys @ rest)"
  define rest' where "rest' = drop (length args) rest"
  have pre: "length pre = length args" using fit by (simp add: pre_def)
  have m1: "memmove (ys @ rest) (int (length args)) (ys @ rest) 0 (int (length ys)) = Return (pre @ ys @ rest')"
    using fit by (simp add: memmove_def pre_def rest'_def nat_add_distrib)
  have m2: "memmove (pre @ ys @ rest') 0 (map Some args) 0 (int (length args)) = Return (map Some args @ ys @ rest')"
    using pre by (simp add: memmove_def)
  have "int (length args + length ys + length rest') = int (length ys + length rest)" using fit by (simp add: rest'_def)
  then show ?thesis using d r(1) hi m1 m2
    by (auto simp: unshift_dense_def Let_def holds_def add.commute intro!: exI [of _ rest'])
qed

section \<open>Indices and the length\<close>

lemma holes_down_holds:
  assumes "array_data arr = Dense (int (length ys + length rest)) (ys @ rest)" "int k \<le> int (length rest)"
  shows "\<exists>arr'. holes_down arr (int (length ys)) (int (length ys + k) - 1) = Return arr' \<and>
    array_length arr' = array_length arr \<and>
    array_data arr' = Dense (int (length ys + length rest)) (ys @ replicate k (Some hole) @ drop k rest)"
  using assms
proof (induction k arbitrary: arr rest)
  case 0
  then show ?case by (simp add: holes_down.simps)
next
  case (Suc k)
  let ?rest = "rest[k := Some hole]"
  let ?arr = "set_block arr (ys @ ?rest)"
  have "put_entry arr (int (length ys + k)) (Some hole) = Return ?arr"
    using Suc.prems by (simp add: put_entry_def list_update_append nat_add_distrib)
  then have step: "holes_down arr (int (length ys)) (int (length ys + Suc k) - 1) =
      holes_down ?arr (int (length ys)) (int (length ys + k) - 1)"
    by (subst holes_down.simps) simp
  have "drop k ?rest = Some hole # drop (Suc k) rest"
    using Suc.prems(2) by (simp add: drop_update_swap Cons_nth_drop_Suc [symmetric])
  then have "replicate k (Some hole) @ drop k ?rest = replicate (Suc k) (Some hole) @ drop (Suc k) rest"
    by (simp add: replicate_app_Cons_same)
  then show ?case using Suc.IH [of ?arr ?rest] Suc.prems step by auto
qed

lemma holes_up_holds:
  assumes "array_data arr = Dense (int (length ys + length rest)) (ys @ rest)" "k \<le> length rest"
  shows "\<exists>arr'. holes_up arr (int (length ys)) (int (length ys + k)) = Return arr' \<and>
    array_data arr' = Dense (int (length ys + length rest)) (ys @ replicate k (Some hole) @ drop k rest)"
  using assms
proof (induction k arbitrary: arr ys rest)
  case 0
  then show ?case by (simp add: holes_up.simps)
next
  case (Suc k)
  then obtain r rest' where r: "rest = r # rest'" by (cases rest) auto
  let ?arr = "set_block arr ((ys @ [Some hole]) @ rest')"
  have "put_entry arr (int (length ys)) (Some hole) = Return ?arr" using Suc.prems r by (simp add: put_entry_def)
  then have step: "holes_up arr (int (length ys)) (int (length ys + Suc k)) =
      holes_up ?arr (int (length (ys @ [Some hole]))) (int (length (ys @ [Some hole]) + k))"
    by (subst holes_up.simps) (simp add: add.commute)
  have "array_data ?arr = Dense (int (length (ys @ [Some hole]) + length rest')) ((ys @ [Some hole]) @ rest')"
    using Suc.prems r by simp
  then show ?case using Suc.IH [of ?arr "ys @ [Some hole]" rest'] Suc.prems(2) r unfolding step by auto
qed

text \<open>Storing at an index: the sequence is extended with holes up to it.\<close>

definition store_at :: "nat \<Rightarrow> 'v \<Rightarrow> 'v \<Rightarrow> 'v list \<Rightarrow> 'v list" where
  "store_at k h v xs = (if k < length xs then xs[k := v] else xs @ replicate (k - length xs) h @ [v])"

lemma length_store_at [simp]: "length (store_at k h v xs) = max (length xs) (Suc k)"
  by (auto simp: store_at_def)

lemma nth_store_at: "i < length (store_at k h v xs) \<Longrightarrow>
    store_at k h v xs ! i = (if i = k then v else if i < length xs then xs ! i else h)"
  by (auto simp: store_at_def nth_append nth_Cons')

lemma store_at_map: "store_at k (Some h) (Some v) (map Some xs) = map Some (store_at k h v xs)"
  by (auto simp: store_at_def map_update)

text \<open>A store at the index \<open>k\<close>, once the block is large enough and the entries below \<open>k\<close> are written.\<close>

lemma store_in_block:
  assumes "array_data arr = Dense (int (length ys + m + Suc n)) (ys @ replicate m h @ r # rest)" "length rest = n"
  shows "\<exists>arr'. put_entry arr (int (length ys + m)) v = Return arr' \<and>
    holds (arr'\<lparr>array_length := int (length ys + m + 1)\<rparr>) (ys @ replicate m h @ [v])"
  using assms by (auto simp: put_entry_def list_update_append holds_def intro!: exI [of _ rest])

lemma store_grown:
  assumes "holds arr ys" "int k < array_alloc (array_data arr)" "length ys \<le> k"
    "start = int k - 1 \<or> start = int k"
  shows "\<exists>arr1 arr2. (if int k > array_length arr then holes_down arr (array_length arr) start else Return arr) = Return arr1 \<and>
    array_length arr1 = int (length ys) \<and> put_entry arr1 (int k) v = Return arr2 \<and>
    holds (arr2\<lparr>array_length := max (array_length arr2) (int k + 1)\<rparr>) (store_at k (Some hole) v ys)"
proof -
  obtain rest where d: "array_length arr = int (length ys)"
    "array_data arr = Dense (int (length ys + length rest)) (ys @ rest)" using assms(1) by (rule holdsE)
  define m where "m = k - length ys"
  have m: "k = length ys + m" "m < length rest" using assms(2,3) d(2) by (simp_all add: m_def)
  define c where "c = (if m = 0 then 0 else if start = int k then Suc m else m)"
  have c: "m \<le> c" "c \<le> length rest" using m(2) by (auto simp: c_def)
  obtain arr1 where h: "(if int k > array_length arr then holes_down arr (array_length arr) start else Return arr) = Return arr1"
    "array_length arr1 = int (length ys)"
    "array_data arr1 = Dense (int (length ys + length rest)) (ys @ replicate c (Some hole) @ drop c rest)"
  proof (cases "m = 0")
    case True
    then show ?thesis using that [of arr] d m(1) by (simp add: c_def)
  next
    case False
    then have "start = int (length ys + c) - 1" using assms(4) m(1) by (auto simp: c_def)
    then show ?thesis using holes_down_holds [OF d(2), of c] that d(1) m(1) False c(2) by auto
  qed
  obtain r rest' where r: "replicate c (Some hole) @ drop c rest = replicate m (Some hole) @ r # rest'"
  proof (cases "c = m")
    case True
    then show ?thesis using that m(2) by (cases "drop m rest") auto
  next
    case False
    then have "replicate c (Some hole :: ejsval option) = replicate m (Some hole) @ [Some hole]"
      by (simp add: c_def replicate_append_same split: if_splits)
    then show ?thesis using that by simp
  qed
  have n: "length rest = m + Suc (length rest')" using arg_cong [OF r, of length] c by simp
  have "array_data arr1 = Dense (int (length ys + m + Suc (length rest'))) (ys @ replicate m (Some hole) @ r # rest')"
    using h(3) r n by (simp add: add.assoc)
  from store_in_block [OF this refl, of v] obtain arr2 where p: "put_entry arr1 (int k) v = Return arr2"
    "holds (arr2\<lparr>array_length := int k + 1\<rparr>) (store_at k (Some hole) v ys)"
    using m(1) by (auto simp: store_at_def add.commute)
  have "array_length arr2 = array_length arr1" using p(1) h(3)
    by (auto simp: put_entry_def split: if_splits)
  then have "max (array_length arr2) (int k + 1) = int k + 1" using h(2) assms(3) by simp
  then show ?thesis using h p by auto
qed

lemma store_below:
  assumes "holds arr ys" "k < length ys"
  shows "\<exists>arr'. put_entry arr (int k) v = Return arr' \<and>
    holds (arr'\<lparr>array_length := max (array_length arr') (int k + 1)\<rparr>) (store_at k (Some hole) v ys)"
proof -
  obtain arr' where p: "put_entry arr (int k) v = Return arr'" "holds arr' (ys[k := v])"
    using put_entry_holds [OF assms(1), of "int k" v] assms(2) by auto
  moreover have "max (array_length arr') (int k + 1) = int (length ys)" using holds_length [OF p(2)] assms(2) by simp
  ultimately show ?thesis using assms(2) by (auto simp: store_at_def holds_def)
qed

lemma set_index_holds:
  assumes "holds arr ys" "int k + 32 \<le> INT_MAX" "property_index env P = Return (Some (int k))"
  shows "\<exists>arr'. ejs_array_specop_set env arr P v = Return (Handled (True, arr')) \<and>
    holds arr' (store_at k (Some hole) (Some v) ys)"
proof -
  obtain arr1 where r: "maybe_realloc_dense arr (int k) = Return arr1" "holds arr1 ys"
    "int k < array_alloc (array_data arr1)" using realloc_holds [OF assms(1,2)] by blast
  show ?thesis
  proof (cases "k < length ys")
    case True
    then show ?thesis using store_below [OF r(2) True, of "Some v"] r assms(1,3) holds_length [OF r(2)]
      by (auto simp: ejs_array_specop_set_def split del: if_split)
  next
    case False
    then show ?thesis using store_grown [OF r(2,3), of "int k - 1" "Some v"] r(1) assms(1,3)
      by (auto simp: ejs_array_specop_set_def split del: if_split)
  qed
qed

lemma define_index_holds:
  assumes "holds arr ys" "int k + 32 \<le> INT_MAX" "property_index env P = Return (Some (int k))"
  shows "\<exists>arr'. ejs_array_specop_define_own_property env arr P d = Return (Handled (True, arr')) \<and>
    holds arr' (store_at k (Some hole) (Some (value_or_getter d)) ys)"
proof -
  obtain arr1 where r: "(if int k \<ge> array_alloc (array_data arr) then maybe_realloc_dense arr (int k) else Return arr) = Return arr1"
    "holds arr1 ys" "int k < array_alloc (array_data arr1)"
    using realloc_holds [OF assms(1,2)] assms(1) by (cases "int k \<ge> array_alloc (array_data arr)") auto
  show ?thesis
  proof (cases "k < length ys")
    case True
    then show ?thesis using store_below [OF r(2) True, of "Some (value_or_getter d)"] r assms(1,3) holds_length [OF r(2)]
      by (auto simp: ejs_array_specop_define_own_property_def split del: if_split)
  next
    case False
    then show ?thesis using store_grown [OF r(2,3), of "int k" "Some (value_or_getter d)"] r(1) assms(1,3)
      by (auto simp: ejs_array_specop_define_own_property_def split del: if_split)
  qed
qed

lemma get_index_holds:
  assumes "holds arr (map Some xs)" "property_index env P = Return (Some i)"
  shows "ejs_array_specop_get env arr P = Return (Handled
    (if 0 \<le> i \<and> i < int (length xs) \<and> \<not> EJSVAL_IS_ARRAY_HOLE_MAGIC (xs ! nat i) then xs ! nat i else ejs_undefined))"
  using assms element_holds [OF assms(1), of i]
  by (auto simp: ejs_array_specop_get_def holds_length)

lemma has_index_holds:
  assumes "holds arr (map Some xs)" "property_index env P = Return (Some i)" "0 \<le> i" "i < int (length xs)"
  shows "ejs_array_specop_has_property env arr P = Return (Handled (\<not> EJSVAL_IS_ARRAY_HOLE_MAGIC (xs ! nat i)))"
  using assms element_holds [OF assms(1), of i]
  by (auto simp: ejs_array_specop_has_property_def holds_length)

lemma delete_index_holds:
  assumes "holds arr ys" "property_index env P = Return (Some (int k))"
  shows "\<exists>arr'. ejs_array_specop_delete env arr P = Return (Handled (True, arr')) \<and> holds arr' (ys[k := Some hole])"
  using assms put_entry_holds [OF assms(1), of "int k" "Some hole"]
  by (cases "k < length ys") (auto simp: ejs_array_specop_delete_def holds_length list_update_beyond)

text \<open>Setting the length cuts the sequence or extends it with holes.\<close>

definition resize :: "nat \<Rightarrow> 'v \<Rightarrow> 'v list \<Rightarrow> 'v list" where
  "resize n h xs = take n xs @ replicate (n - length xs) h"

lemma length_resize [simp]: "length (resize n h xs) = n"
  by (simp add: resize_def)

lemma resize_map: "resize n (Some h) (map Some xs) = map Some (resize n h xs)"
  by (simp add: resize_def take_map)

lemma set_length_holds:
  assumes "holds arr ys" "int n + 32 \<le> INT_MAX" "int (length ys) \<le> INT_MAX"
  shows "\<exists>arr'. set_length arr (int n) = Return arr' \<and> holds arr' (resize n (Some hole) ys)"
proof -
  have old: "c_int (array_length arr) = int (length ys)" using assms by (simp add: holds_length)
  obtain a es where dense: "array_data arr = Dense a es" using assms(1) by (auto simp: holds_def)
  obtain arr1 where r: "(if int n > a then maybe_realloc_dense arr (int n) else Return arr) = Return arr1"
    "holds arr1 ys" "int n \<le> array_alloc (array_data arr1)"
    using realloc_holds [OF assms(1,2)] assms(1) dense by (cases "int n > a") auto
  obtain rest where d: "array_length arr1 = int (length ys)"
    "array_data arr1 = Dense (int (length ys + length rest)) (ys @ rest)" using r(2) by (rule holdsE)
  show ?thesis
  proof (cases "n > length ys")
    case False
    then have "set_length arr (int n) = Return (arr1\<lparr>array_length := int n\<rparr>)"
      using r(1) old dense by (simp add: set_length_def split del: if_split)
    then show ?thesis using d(2) False
      by (auto simp: holds_def resize_def intro!: exI [of _ "drop n ys @ rest"])
  next
    case True
    define m where "m = n - length ys"
    have m: "n = length ys + m" "m \<le> length rest" using True r(3) d(2) by (simp_all add: m_def)
    obtain arr2 where h: "holes_up arr1 (int (length ys)) (int n) = Return arr2"
      "array_data arr2 = Dense (int (length ys + length rest)) (ys @ replicate m (Some hole) @ drop m rest)"
      using holes_up_holds [OF d(2) m(2)] m(1) by auto
    have "set_length arr (int n) = Return (arr2\<lparr>array_length := int n\<rparr>)"
      using r(1) old dense h(1) True by (simp add: set_length_def split del: if_split)
    then show ?thesis using h(2) m by (auto simp: holds_def resize_def intro!: exI [of _ "drop m rest"])
  qed
qed

lemma scan_elements_holds:
  assumes "\<And>i. i < length xs \<Longrightarrow> el (int (k + i)) = Return (xs ! i)"
  shows "scan_elements el k (length xs) = Return xs"
  using assms
proof (induction xs arbitrary: k)
  case (Cons x xs)
  have "el (int (Suc k + i)) = Return (xs ! i)" if "i < length xs" for i using Cons.prems [of "Suc i"] that by simp
  then show ?case using Cons.IH [of "Suc k"] Cons.prems [of 0] by simp
qed simp

lemma scan_holds:
  assumes "holds arr (map Some xs)"
  shows "ejs_array_specop_scan arr = Return xs"
proof -
  have "scan_elements (element arr) 0 (length xs) = Return xs"
    by (rule scan_elements_holds) (use element_holds [OF assms] in simp)
  then show ?thesis using assms by (auto elim!: holdsE simp: ejs_array_specop_scan_def)
qed

section \<open>Integers as property names\<close>

lemma finite_is_double:
  assumes "dbl_exp d \<noteq> 2047"
  shows "EJSVAL_IS_DOUBLE_IMPL d"
proof -
  have u: "dbl_exp d = (unat d div 2 ^ 52) mod 2 ^ 11"
    unfolding dbl_exp_def take_bit_eq_mask [symmetric] unsigned_take_bit_eq unat_drop_bit_eq
    unfolding drop_bit_eq_div take_bit_eq_mod ..
  have "unat d div 2 ^ 52 < 4096" using unsigned_less [of d, where 'a = nat] by (simp add: less_mult_imp_div_less)
  moreover have "unat d div 2 ^ 52 \<noteq> 4095"
  proof
    assume "unat d div 2 ^ 52 = 4095"
    then show False using assms unfolding u by simp
  qed
  ultimately have "unat d div 2 ^ 52 < 4095" by linarith
  then have "unat d < 4095 * 2 ^ 52" by (simp add: div_less_iff_less_mult)
  then show ?thesis unfolding EJSVAL_IS_DOUBLE_IMPL_def word_le_nat_alt by (simp add: tag_defs)
qed

text \<open>A relative position in a sequence of \<open>n\<close> elements.\<close>

definition position :: "nat \<Rightarrow> int \<Rightarrow> nat" where
  "position n r = nat (if r < 0 then max (int n + r) 0 else min r (int n))"

lemma position_le: "position n r \<le> n"
  by (auto simp: position_def)

lemma int_value_facts:
  assumes "\<bar>i\<bar> < 2 ^ 53"
  shows "EJSVAL_IS_DOUBLE_IMPL (int_value i)" "is_integral (int_value i)"
    "ToLength (int_value i) = Some (max 0 i)"
proof -
  consider "i = 0" | k m where "k < 53" "dbl_exp (dbl_of_int i) = k + 1023" "dbl_mant (dbl_of_int i) = m"
    "2 ^ 52 + m = nat \<bar>i\<bar> * 2 ^ (52 - k)" using of_int_fields [OF _ assms] by blast
  then have "EJSVAL_IS_DOUBLE_IMPL (int_value i) \<and> is_integral (int_value i)"
  proof cases
    case 1
    then show ?thesis
      by (simp_all add: int_value_def dbl_of_int_def EJSVAL_IS_DOUBLE_IMPL_def is_integral_def dbl_exp_def dbl_mant_def)
  next
    case 2
    then show ?thesis
      using finite_is_double [of "dbl_of_int i"] of_int_finite [OF assms]
      by (auto simp: int_value_def is_integral_def)
  qed
  then show "EJSVAL_IS_DOUBLE_IMPL (int_value i)" "is_integral (int_value i)" by simp_all
  show "ToLength (int_value i) = Some (max 0 i)"
    using of_int_finite [OF assms] trunc_of_int [OF assms] assms
    by (auto simp: ToLength_def ToInteger_def EJS_MAX_SAFE_INTEGER_def double_to_int64_def int_value_def)
qed

lemma int_value_index:
  assumes "to_number env (int_value i) = Return (int_value i)" "\<bar>i\<bar> \<le> INT_MAX"
  shows "property_index env (int_value i) = Return (Some i)"
proof -
  have i: "\<bar>i\<bar> < 2 ^ 53" using assms(2) by (simp add: INT_MAX_def)
  then have "\<not> EJSVAL_IS_SYMBOL_IMPL (int_value i)"
    using int_value_facts(1) [OF i] not_double_tag [of "int_value i"] by (auto simp: tag_facts)
  moreover have "double_to_int (int_value i) = Return i"
    using of_int_finite [OF i] trunc_of_int [OF i] assms(2) by (auto simp: double_to_int_def int_value_def)
  ultimately show ?thesis using assms(1) int_value_facts(1,2) [OF i] by (simp add: property_index_def)
qed

section \<open>Arrays as queues and stacks\<close>

text \<open>Taking values one after the other.\<close>

fun drain :: "('a \<Rightarrow> ('v \<times> 'a) outcome) \<Rightarrow> nat \<Rightarrow> 'a \<Rightarrow> ('v list \<times> 'a) outcome" where
  "drain take' 0 a = Return ([], a)"
| "drain take' (Suc n) a = bind_outcome (take' a) (\<lambda>(x, a).
     bind_outcome (drain take' n a) (\<lambda>(xs, a). Return (x # xs, a)))"

text \<open>What a client of both ends of a sequence relies on.  \<open>room n\<close>: a sequence of \<open>n\<close> values can be stored.\<close>

locale deque =
  fixes seq :: "'a \<Rightarrow> 'v list \<Rightarrow> bool" and room :: "nat \<Rightarrow> bool"
    and push :: "'a \<Rightarrow> 'v list \<Rightarrow> ('r \<times> 'a) outcome" and unshift :: "'a \<Rightarrow> 'v list \<Rightarrow> ('s \<times> 'a) outcome"
    and pop :: "'a \<Rightarrow> ('v \<times> 'a) outcome" and shift :: "'a \<Rightarrow> ('v \<times> 'a) outcome"
  assumes push_seq: "seq a xs \<Longrightarrow> room (length xs + length vs) \<Longrightarrow> \<exists>n a'. push a vs = Return (n, a') \<and> seq a' (xs @ vs)"
    and unshift_seq: "seq a xs \<Longrightarrow> room (length xs + length vs) \<Longrightarrow> \<exists>n a'. unshift a vs = Return (n, a') \<and> seq a' (vs @ xs)"
    and pop_seq: "seq a (xs @ [x]) \<Longrightarrow> \<exists>a'. pop a = Return (x, a') \<and> seq a' xs"
    and shift_seq: "seq a (x # xs) \<Longrightarrow> \<exists>a'. shift a = Return (x, a') \<and> seq a' xs"
begin

lemma drain_shift: "seq a (xs @ ys) \<Longrightarrow> \<exists>a'. drain shift (length xs) a = Return (xs, a') \<and> seq a' ys"
proof (induction xs arbitrary: a)
  case (Cons x xs)
  then obtain a1 where "shift a = Return (x, a1)" "seq a1 (xs @ ys)" using shift_seq [of a x "xs @ ys"] by auto
  then show ?case using Cons.IH [of a1] by auto
qed simp

lemma drain_pop: "seq a (ys @ rev xs) \<Longrightarrow> \<exists>a'. drain pop (length xs) a = Return (xs, a') \<and> seq a' ys"
proof (induction xs arbitrary: a)
  case (Cons x xs)
  then obtain a1 where "pop a = Return (x, a1)" "seq a1 (ys @ rev xs)" using pop_seq [of a "ys @ rev xs" x] by auto
  then show ?case using Cons.IH [of a1] by auto
qed simp

text \<open>What was pushed comes back in reverse order from the same end, in order from the other end; what was
  inserted in front comes back in order.\<close>

lemma push_then_take:
  assumes "seq a xs" "room (length xs + length vs)"
  shows "\<exists>n a1. push a vs = Return (n, a1) \<and>
    (\<exists>a2. drain pop (length vs) a1 = Return (rev vs, a2) \<and> seq a2 xs) \<and>
    (\<exists>a3. drain shift (length xs + length vs) a1 = Return (xs @ vs, a3) \<and> seq a3 [])"
proof -
  obtain n a1 where p: "push a vs = Return (n, a1)" "seq a1 (xs @ vs)" using push_seq [OF assms] by blast
  then show ?thesis using drain_pop [of a1 xs "rev vs"] drain_shift [of a1 "xs @ vs" "[]"] by auto
qed

lemma unshift_then_take:
  assumes "seq a xs" "room (length xs + length vs)"
  shows "\<exists>n a1. unshift a vs = Return (n, a1) \<and>
    (\<exists>a2. drain shift (length vs) a1 = Return (vs, a2) \<and> seq a2 xs) \<and>
    (\<exists>a3. drain pop (length xs + length vs) a1 = Return (rev (vs @ xs), a3) \<and> seq a3 [])"
proof -
  obtain n a1 where p: "unshift a vs = Return (n, a1)" "seq a1 (vs @ xs)" using unshift_seq [OF assms] by blast
  then show ?thesis using drain_shift [of a1 vs xs] drain_pop [of a1 "[]" "rev (vs @ xs)"] by (auto simp: add.commute)
qed

end

definition room :: "nat \<Rightarrow> bool" where "room n \<longleftrightarrow> int n + 32 \<le> INT_MAX"

text \<open>The array holds the values \<open>xs\<close>, all of them initialised.\<close>

definition array_seq :: "EJSArray \<Rightarrow> ejsval list \<Rightarrow> bool" where
  "array_seq arr xs \<longleftrightarrow> holds arr (map Some xs) \<and> room (length xs)"

interpretation dense: deque array_seq room ejs_array_push_dense unshift_dense ejs_array_pop_dense shift_dense
proof
  fix arr and xs vs :: "ejsval list" and x
  assume "array_seq arr xs" "room (length xs + length vs)"
  then show "\<exists>n arr'. ejs_array_push_dense arr vs = Return (n, arr') \<and> array_seq arr' (xs @ vs)"
    "\<exists>n arr'. unshift_dense arr vs = Return (n, arr') \<and> array_seq arr' (vs @ xs)"
    using push_holds [of arr "map Some xs" vs] unshift_holds [of arr "map Some xs" vs]
    by (auto simp: array_seq_def room_def add.commute)
next
  fix arr and xs :: "ejsval list" and x
  assume "array_seq arr (xs @ [x])"
  then show "\<exists>arr'. ejs_array_pop_dense arr = Return (x, arr') \<and> array_seq arr' xs"
    using pop_holds [of arr "xs @ [x]"] by (auto simp: array_seq_def room_def)
next
  fix arr and xs :: "ejsval list" and x
  assume "array_seq arr (x # xs)"
  then show "\<exists>arr'. shift_dense arr = Return (x, arr') \<and> array_seq arr' xs"
    using shift_holds [of arr "x # xs"] by (auto simp: array_seq_def room_def)
qed

text \<open>C24: the fast paths of push, pop, shift and unshift make a dense array a double-ended queue.  From an
  array that holds \<open>xs\<close>, as long as the result stays below the limit of \<open>int\<close>, values that are pushed come
  back from pop in reverse order and from shift in order after \<open>xs\<close>; values that are put in front come back
  from shift in order and from pop in reverse order; nothing else changes, across every reallocation.\<close>

theorem array_deque:
  assumes "array_seq arr xs" "room (length xs + length vs)"
  shows "\<exists>n arr1 m arr2. ejs_array_push_dense arr vs = Return (n, arr1) \<and> unshift_dense arr vs = Return (m, arr2) \<and>
    (\<exists>arr'. drain ejs_array_pop_dense (length vs) arr1 = Return (rev vs, arr') \<and> array_seq arr' xs) \<and>
    (\<exists>arr'. drain shift_dense (length xs + length vs) arr1 = Return (xs @ vs, arr') \<and> array_seq arr' []) \<and>
    (\<exists>arr'. drain shift_dense (length vs) arr2 = Return (vs, arr') \<and> array_seq arr' xs) \<and>
    (\<exists>arr'. drain ejs_array_pop_dense (length xs + length vs) arr2 = Return (rev (vs @ xs), arr') \<and> array_seq arr' [])"
  using dense.push_then_take [OF assms] dense.unshift_then_take [OF assms] by blast

lemma new_seq: "0 \<le> n \<Longrightarrow> n \<le> SPARSE_ARRAY_CUTOFF \<Longrightarrow> array_seq (ejs_array_new n True) (replicate (nat n) hole)"
  by (auto simp: array_seq_def holds_def ejs_array_new_def room_def SPARSE_ARRAY_CUTOFF_def INT_MAX_def)

theorem array_deque_witness:
  "\<exists>n arr. ejs_array_push_dense (ejs_array_new 2 True) [ejs_zero, ejs_one] = Return (n, arr) \<and>
    (\<exists>arr'. drain shift_dense 4 arr = Return ([hole, hole, ejs_zero, ejs_one], arr'))"
  using array_deque [OF new_seq [of 2], of "[ejs_zero, ejs_one]"]
  by (auto simp: SPARSE_ARRAY_CUTOFF_def room_def INT_MAX_def numeral_2_eq_2 numeral_eq_Suc)

section \<open>Indexed access\<close>

text \<open>How an element is read: a hole reads as \<open>undefined\<close>.\<close>

definition shown :: "ejsval \<Rightarrow> ejsval" where
  "shown v = (if EJSVAL_IS_ARRAY_HOLE_MAGIC v then ejs_undefined else v)"

lemma shown_hole [simp]: "shown hole = ejs_undefined"
  by (simp add: shown_def EJSVAL_IS_ARRAY_HOLE_MAGIC_def hole_def MAGIC_TO_EJSVAL_IMPL_def tag_facts tag_defs
      EJSVAL_TO_INT32_IMPL_def)

lemma get_shown:
  assumes "array_seq arr xs" "property_index env Q = Return (Some j)"
  shows "ejs_array_specop_get env arr Q =
    Return (Handled (if 0 \<le> j \<and> j < int (length xs) then shown (xs ! nat j) else ejs_undefined))"
  using get_index_holds [of arr xs env Q j] assms by (simp add: array_seq_def shown_def)

lemma get_store:
  assumes "array_seq arr xs" "array_seq arr' (store_at k hole v xs)" "property_index env Q = Return (Some j)"
  shows "ejs_array_specop_get env arr' Q = (if j = int k then Return (Handled (shown v)) else ejs_array_specop_get env arr Q)"
  unfolding get_shown [OF assms(2,3)] get_shown [OF assms(1,3)]
  by (auto simp: nth_store_at nat_less_iff split: if_splits)

lemma get_delete:
  assumes "array_seq arr xs" "array_seq arr' (xs[k := hole])" "property_index env Q = Return (Some j)"
  shows "ejs_array_specop_get env arr' Q = (if j = int k then Return (Handled ejs_undefined) else ejs_array_specop_get env arr Q)"
  unfolding get_shown [OF assms(2,3)] get_shown [OF assms(1,3)]
  by (auto simp: nth_list_update nat_less_iff)

lemma set_seq:
  assumes "array_seq arr xs" "room (Suc k)" "property_index env P = Return (Some (int k))"
  shows "\<exists>arr'. ejs_array_specop_set env arr P v = Return (Handled (True, arr')) \<and> array_seq arr' (store_at k hole v xs)"
  using set_index_holds [of arr "map Some xs" k env P v] assms
  by (auto simp: array_seq_def room_def store_at_map max_def)

lemma define_seq:
  assumes "array_seq arr xs" "room (Suc k)" "property_index env P = Return (Some (int k))"
  shows "\<exists>arr'. ejs_array_specop_define_own_property env arr P d = Return (Handled (True, arr')) \<and>
    array_seq arr' (store_at k hole (value_or_getter d) xs)"
  using define_index_holds [of arr "map Some xs" k env P d] assms
  by (auto simp: array_seq_def room_def store_at_map max_def)

lemma delete_seq:
  assumes "array_seq arr xs" "property_index env P = Return (Some (int k))"
  shows "\<exists>arr'. ejs_array_specop_delete env arr P = Return (Handled (True, arr')) \<and> array_seq arr' (xs[k := hole])"
  using delete_index_holds [of arr "map Some xs" env P k] assms by (auto simp: array_seq_def map_update)

lemma set_length_seq:
  assumes "array_seq arr xs" "room n" "is_length_name env P" "property_index env P = Return None"
    "to_number env v = Return d" "ToLength d = Some (int n)"
  shows "\<exists>arr'. ejs_array_specop_set env arr P v = Return (Handled (True, arr')) \<and> array_seq arr' (resize n hole xs)"
proof -
  have "c_int (int n) = int n" using assms(2) by (intro c_int_nat) (simp add: room_def)
  moreover have "\<exists>arr'. set_length arr (int n) = Return arr' \<and> holds arr' (resize n (Some hole) (map Some xs))"
    using assms(1,2) by (intro set_length_holds) (simp_all add: array_seq_def room_def)
  ultimately show ?thesis using assms by (auto simp: ejs_array_specop_set_def array_seq_def resize_map)
qed

text \<open>Indexed access to a dense array.  Storing a value at an index, by assignment or by definition,
  fills the gap up to it with holes and makes that value what is read there; deleting makes it undefined;
  what is read at every other index, inside or outside the array, is unchanged.\<close>

theorem array_index_laws:
  assumes "array_seq arr xs" "room (Suc k)"
    "property_index env P = Return (Some (int k))" "property_index env Q = Return (Some j)"
  shows "(\<exists>arr'. ejs_array_specop_set env arr P v = Return (Handled (True, arr')) \<and>
      array_seq arr' (store_at k hole v xs) \<and>
      ejs_array_specop_get env arr' Q = (if j = int k then Return (Handled (shown v)) else ejs_array_specop_get env arr Q)) \<and>
    (\<exists>arr'. ejs_array_specop_define_own_property env arr P d = Return (Handled (True, arr')) \<and>
      array_seq arr' (store_at k hole (value_or_getter d) xs) \<and>
      ejs_array_specop_get env arr' Q =
        (if j = int k then Return (Handled (shown (value_or_getter d))) else ejs_array_specop_get env arr Q)) \<and>
    (\<exists>arr'. ejs_array_specop_delete env arr P = Return (Handled (True, arr')) \<and> array_seq arr' (xs[k := hole]) \<and>
      ejs_array_specop_get env arr' Q = (if j = int k then Return (Handled ejs_undefined) else ejs_array_specop_get env arr Q))"
  using set_seq [OF assms(1-3), of v] define_seq [OF assms(1-3), of d] delete_seq [OF assms(1,3)]
    get_store [OF assms(1) _ assms(4)] get_delete [OF assms(1) _ assms(4)] by blast

text \<open>An environment in which numbers are their own numeric value.\<close>

definition number_env :: array_env where "number_env = \<lparr>to_number = Return, texts = (\<lambda>_. None)\<rparr>"

lemma number_env_index: "\<bar>i\<bar> \<le> INT_MAX \<Longrightarrow> property_index number_env (int_value i) = Return (Some i)"
  by (rule int_value_index) (simp_all add: number_env_def)

theorem array_index_laws_witness:
  "\<exists>arr. ejs_array_specop_set number_env (ejs_array_new 1 True) (int_value 3) ejs_one = Return (Handled (True, arr)) \<and>
     array_seq arr [hole, hole, hole, ejs_one]"
  using array_index_laws [OF new_seq [of 1], of 3 number_env "int_value 3" "int_value 3" 3 ejs_one ejs_propertydesc_new]
    number_env_index [of 3]
  by (auto simp: SPARSE_ARRAY_CUTOFF_def room_def INT_MAX_def store_at_def numeral_eq_Suc)

section \<open>Sequences of operations\<close>

text \<open>One operation on an array that stays below the limit.\<close>

inductive array_step :: "array_env \<Rightarrow> EJSArray \<Rightarrow> EJSArray \<Rightarrow> bool" for env where
  push: "room (nat (array_length arr) + length args) \<Longrightarrow> ejs_array_push_dense arr args = Return (n, arr') \<Longrightarrow>
    array_step env arr arr'"
| unshift: "room (nat (array_length arr) + length args) \<Longrightarrow> unshift_dense arr args = Return (v, arr') \<Longrightarrow>
    array_step env arr arr'"
| pop: "ejs_array_pop_dense arr = Return (v, arr') \<Longrightarrow> array_step env arr arr'"
| shift: "shift_dense arr = Return (v, arr') \<Longrightarrow> array_step env arr arr'"
| set: "property_index env P = Return (Some (int k)) \<Longrightarrow> room (Suc k) \<Longrightarrow>
    ejs_array_specop_set env arr P v = Return (Handled (b, arr')) \<Longrightarrow> array_step env arr arr'"
| def_own: "property_index env P = Return (Some (int k)) \<Longrightarrow> room (Suc k) \<Longrightarrow>
    ejs_array_specop_define_own_property env arr P d = Return (Handled (b, arr')) \<Longrightarrow> array_step env arr arr'"
| delete: "property_index env P = Return (Some (int k)) \<Longrightarrow>
    ejs_array_specop_delete env arr P = Return (Handled (b, arr')) \<Longrightarrow> array_step env arr arr'"
| set_len: "property_index env P = Return None \<Longrightarrow> is_length_name env P \<Longrightarrow> to_number env v = Return d \<Longrightarrow>
    ToLength d = Some (int l) \<Longrightarrow> room l \<Longrightarrow>
    ejs_array_specop_set env arr P v = Return (Handled (b, arr')) \<Longrightarrow> array_step env arr arr'"

definition array_ok :: "EJSArray \<Rightarrow> bool" where "array_ok arr \<longleftrightarrow> (\<exists>xs. array_seq arr xs)"

lemma seq_length: "array_seq arr xs \<Longrightarrow> nat (array_length arr) = length xs"
  by (auto simp: array_seq_def dest: holds_length)

lemma pop_shift_ok:
  assumes "array_seq arr xs"
  shows "\<exists>v arr'. ejs_array_pop_dense arr = Return (v, arr') \<and> array_ok arr'"
    "\<exists>v arr'. shift_dense arr = Return (v, arr') \<and> array_ok arr'"
proof -
  have h: "holds arr (map Some xs)" "int (length xs) \<le> INT_MAX" using assms by (simp_all add: array_seq_def room_def)
  show "\<exists>v arr'. ejs_array_pop_dense arr = Return (v, arr') \<and> array_ok arr'"
  proof (cases xs rule: rev_cases)
    case Nil
    then show ?thesis using pop_holds [OF h(1)] assms unfolding array_ok_def by blast
  next
    case (snoc ys y)
    then show ?thesis using dense.pop_seq [of arr ys y] assms unfolding array_ok_def by blast
  qed
  show "\<exists>v arr'. shift_dense arr = Return (v, arr') \<and> array_ok arr'"
  proof (cases xs)
    case Nil
    then show ?thesis using shift_holds [OF h] assms unfolding array_ok_def by blast
  next
    case (Cons y ys)
    then show ?thesis using dense.shift_seq [of arr y ys] assms unfolding array_ok_def by blast
  qed
qed

lemma array_step_ok:
  assumes "array_step env arr arr'" "array_ok arr"
  shows "array_ok arr'"
proof -
  obtain xs where xs: "array_seq arr xs" using assms(2) by (auto simp: array_ok_def)
  from assms(1) show ?thesis
  proof cases
    case (push args n)
    then show ?thesis using dense.push_seq [OF xs, of args] xs by (auto simp: seq_length array_ok_def)
  next
    case (unshift args n)
    then show ?thesis using dense.unshift_seq [OF xs, of args] xs by (auto simp: seq_length array_ok_def)
  next
    case (set P k v b)
    then show ?thesis using set_seq [OF xs, of k env P v] by (auto simp: array_ok_def)
  next
    case (def_own P k d b)
    then show ?thesis using define_seq [OF xs, of k env P d] by (auto simp: array_ok_def)
  next
    case (delete P k b)
    then show ?thesis using delete_seq [OF xs, of env P k] by (auto simp: array_ok_def)
  next
    case (set_len P v d l b)
    then show ?thesis using set_length_seq [OF xs, of l env P v d] by (auto simp: array_ok_def)
  qed (use pop_shift_ok [OF xs] in auto)
qed

text \<open>C8: a dense array stays sound.  The operations are push, unshift, pop, shift, assignment and definition at an index
  that is not negative, deletion at such an index, and setting the length, as long as the length stays below the limit
  of \<open>int\<close> (with a margin for growing the block).  From a new array that is filled with holes and has at most 50000
  elements, after any sequence of them, the array holds initialised values that the collector's scan reports exactly,
  and every further one of them returns: none aborts or touches memory outside the block.  Assignment to a negative
  index and arrays created without filling them are left out, because there the code does leave the block.\<close>

theorem array_steps_sound:
  assumes "(array_step env)\<^sup>*\<^sup>* (ejs_array_new n True) arr" "0 \<le> n" "n \<le> SPARSE_ARRAY_CUTOFF"
  shows "\<exists>xs. array_seq arr xs \<and> ejs_array_specop_scan arr = Return xs \<and>
    (\<forall>args. room (length xs + length args) \<longrightarrow> (\<exists>r arr'. ejs_array_push_dense arr args = Return (r, arr')) \<and>
      (\<exists>r arr'. unshift_dense arr args = Return (r, arr'))) \<and>
    (\<exists>v arr'. ejs_array_pop_dense arr = Return (v, arr')) \<and> (\<exists>v arr'. shift_dense arr = Return (v, arr')) \<and>
    (\<forall>P k v d. property_index env P = Return (Some (int k)) \<and> room (Suc k) \<longrightarrow>
      (\<exists>arr'. ejs_array_specop_set env arr P v = Return (Handled (True, arr'))) \<and>
      (\<exists>arr'. ejs_array_specop_define_own_property env arr P d = Return (Handled (True, arr')))) \<and>
    (\<forall>P k. property_index env P = Return (Some (int k)) \<longrightarrow>
      (\<exists>arr'. ejs_array_specop_delete env arr P = Return (Handled (True, arr')))) \<and>
    (\<forall>P v d l. property_index env P = Return None \<and> is_length_name env P \<and> to_number env v = Return d \<and>
        ToLength d = Some (int l) \<and> room l \<longrightarrow>
      (\<exists>arr'. ejs_array_specop_set env arr P v = Return (Handled (True, arr')) \<and>
        array_seq arr' (resize l hole xs)))"
proof -
  have "array_ok arr" using assms(1)
    by (induction rule: rtranclp_induct) (use new_seq assms(2,3) in \<open>auto simp: array_ok_def intro: array_step_ok [unfolded array_ok_def]\<close>)
  then obtain xs where xs: "array_seq arr xs" by (auto simp: array_ok_def)
  have scan: "ejs_array_specop_scan arr = Return xs" using xs scan_holds by (auto simp: array_seq_def)
  have push: "\<exists>r arr'. ejs_array_push_dense arr args = Return (r, arr')" "\<exists>r arr'. unshift_dense arr args = Return (r, arr')"
    if "room (length xs + length args)" for args
    using dense.push_seq [OF xs that] dense.unshift_seq [OF xs that] by blast+
  have set: "\<exists>arr'. ejs_array_specop_set env arr P v = Return (Handled (True, arr'))"
    "\<exists>arr'. ejs_array_specop_define_own_property env arr P d = Return (Handled (True, arr'))"
    if "property_index env P = Return (Some (int k)) \<and> room (Suc k)" for P k v d
    using set_seq [OF xs, of k env P v] define_seq [OF xs, of k env P d] that by blast+
  have delete: "\<exists>arr'. ejs_array_specop_delete env arr P = Return (Handled (True, arr'))"
    if "property_index env P = Return (Some (int k))" for P k
    using delete_seq [OF xs, of env P k] that by blast
  have len: "\<exists>arr'. ejs_array_specop_set env arr P v = Return (Handled (True, arr')) \<and> array_seq arr' (resize l hole xs)"
    if "property_index env P = Return None \<and> is_length_name env P \<and> to_number env v = Return d \<and>
      ToLength d = Some (int l) \<and> room l" for P v d l
    using set_length_seq [OF xs, of l env P v d] that by blast
  show ?thesis
    by (intro exI [of _ xs] conjI allI impI) (fact xs scan push set delete len pop_shift_ok [OF xs] | use pop_shift_ok [OF xs] in blast)+
qed

theorem array_steps_sound_witness:
  "\<exists>arr xs. (array_step number_env)\<^sup>*\<^sup>* (ejs_array_new 1 True) arr \<and> array_length arr = 2 \<and>
     ejs_array_specop_scan arr = Return xs"
proof -
  obtain arr where arr: "ejs_array_push_dense (ejs_array_new 1 True) [ejs_one] = Return (2, arr)" "holds arr [Some hole, Some ejs_one]"
    using push_holds [of "ejs_array_new 1 True" "[Some hole]" "[ejs_one]"] new_seq [of 1]
    by (auto simp: SPARSE_ARRAY_CUTOFF_def array_seq_def INT_MAX_def)
  have "array_step number_env (ejs_array_new 1 True) arr"
    by (rule array_step.push [OF _ arr(1)]) (simp add: ejs_array_new_def room_def INT_MAX_def)
  then have "(array_step number_env)\<^sup>*\<^sup>* (ejs_array_new 1 True) arr" by simp
  from array_steps_sound [OF this] this show ?thesis using holds_length [OF arr(2)]
    by (auto simp: SPARSE_ARRAY_CUTOFF_def)
qed

section \<open>Where the storage is not safe\<close>

text \<open>Three ways out of the block.  Assigning to a negative index writes before the elements, where
  reading, defining and deleting treat it as an ordinary name; slice with a negative start copies from before
  the elements; and an array made for its length alone, as the results of map and splice are, has elements that
  the collector reads before they are written.\<close>

theorem array_unsafe_accesses:
  assumes "array_seq arr xs" "property_index env P = Return (Some i)" "i < 0" "0 < n" "n \<le> SPARSE_ARRAY_CUTOFF"
  shows "ejs_array_specop_set env arr P v = Aborts \<and>
    ejs_array_specop_get env arr P = Return (Handled ejs_undefined) \<and>
    ejs_array_specop_delete env arr P = Return Ordinary \<and>
    ejs_array_slice_dense (\<lambda>len. Return (ejs_array_new len False)) arr [int_value (- 1)] = Aborts \<and>
    ejs_array_specop_scan (ejs_array_new n False) = Aborts \<and>
    ejs_array_specop_scan (ejs_array_new n True) = Return (replicate (nat n) hole)"
proof (intro conjI)
  have h: "holds arr (map Some xs)" "int (length xs) + 32 \<le> INT_MAX" using assms(1) by (simp_all add: array_seq_def room_def)
  obtain rest where d: "array_length arr = int (length xs)"
    "array_data arr = Dense (int (length xs + length rest)) (map Some xs @ rest)" using h(1) by (auto elim!: holdsE)
  have "maybe_realloc_dense arr i = Return arr" using d assms(3) by (simp add: maybe_realloc_dense_def)
  then show "ejs_array_specop_set env arr P v = Aborts"
    using assms(2,3) d by (simp add: ejs_array_specop_set_def EJSVAL_IS_DENSE_ARRAY_def put_entry_def)
  show "ejs_array_specop_get env arr P = Return (Handled ejs_undefined)" "ejs_array_specop_delete env arr P = Return Ordinary"
    using assms(2,3) by (simp_all add: ejs_array_specop_get_def ejs_array_specop_delete_def)
  have "double_to_int (int_value (- 1)) = Return (- 1)"
    using of_int_finite [of "- 1"] trunc_of_int [of "- 1"] by (simp add: double_to_int_def int_value_def INT_MAX_def)
  moreover have "c_int (int (length xs)) = int (length xs)" using h(2) by simp
  ultimately show "ejs_array_slice_dense (\<lambda>len. Return (ejs_array_new len False)) arr [int_value (- 1)] = Aborts"
    using d by (simp add: ejs_array_slice_dense_def memmove_def dense_block_def split: array_data.split)
  obtain m where "nat n = Suc m" using assms(4) by (cases "nat n") auto
  then show "ejs_array_specop_scan (ejs_array_new n False) = Aborts"
    using assms(4,5) by (simp add: ejs_array_specop_scan_def ejs_array_new_def element_def element_entry_def dense_block_def)
  show "ejs_array_specop_scan (ejs_array_new n True) = Return (replicate (nat n) hole)"
    using new_seq [of n] assms(4,5) scan_holds by (auto simp: array_seq_def)
qed

theorem array_unsafe_accesses_witness:
  "ejs_array_specop_set number_env (ejs_array_new 1 True) (int_value (- 1)) ejs_one = Aborts \<and>
   ejs_array_specop_scan (ejs_array_new 1 False) = Aborts"
  using array_unsafe_accesses [OF new_seq [of 1] number_env_index [of "- 1"], of 1]
  by (simp add: INT_MAX_def SPARSE_ARRAY_CUTOFF_def)

text \<open>Exactly when the fast path of slice is right.  With a start that is not negative, an end not before it,
  and at most 50000 elements between them, it returns a new array of those elements; in every other case it
  leaves the block: a negative start is not counted from the end, an end before the start makes a copy of
  negative size, and above the cutoff the new array is sparse although the copy takes it for dense.\<close>

theorem array_slice_exact:
  fixes b e :: int
  assumes "array_seq arr xs" "double_to_int B = Return b" "double_to_int E = Return e"
  defines "b' \<equiv> min b (int (length xs))" and "e' \<equiv> min e (int (length xs))"
  shows "if 0 \<le> b \<and> b' \<le> e' \<and> e' - b' \<le> SPARSE_ARRAY_CUTOFF
    then \<exists>rv. ejs_array_slice_dense (\<lambda>len. Return (ejs_array_new len False)) arr [B, E] = Return rv \<and>
      array_seq rv (take (nat (e' - b')) (drop (nat b') xs))
    else ejs_array_slice_dense (\<lambda>len. Return (ejs_array_new len False)) arr [B, E] = Aborts"
proof -
  have h: "holds arr (map Some xs)" "int (length xs) + 32 \<le> INT_MAX" using assms(1) by (simp_all add: array_seq_def room_def)
  obtain rest where d: "array_length arr = int (length xs)"
    "array_data arr = Dense (int (length xs + length rest)) (map Some xs @ rest)" using h(1) by (auto elim!: holdsE)
  have len: "c_int (array_length arr) = int (length xs)" using d(1) h(2) by simp
  have slice: "ejs_array_slice_dense (\<lambda>len. Return (ejs_array_new len False)) arr [B, E] =
      bind_outcome (dense_block (ejs_array_new (e' - b') False)) (\<lambda>dst.
      bind_outcome (memmove dst 0 (map Some xs @ rest) b' (e' - b')) (\<lambda>dst.
        Return (set_block (ejs_array_new (e' - b') False) dst)))"
    using assms(2,3) d(2) len by (simp add: ejs_array_slice_dense_def Let_def b'_def e'_def)
  show ?thesis
  proof (cases "0 \<le> b \<and> b' \<le> e' \<and> e' - b' \<le> SPARSE_ARRAY_CUTOFF")
    case False
    have "b' < 0 \<longleftrightarrow> b < 0" by (auto simp: b'_def)
    then have "b' < 0 \<or> e' - b' < 0" if "\<not> e' - b' > SPARSE_ARRAY_CUTOFF" using False that by linarith
    then show ?thesis using False unfolding slice
      by (cases "e' - b' > SPARSE_ARRAY_CUTOFF") (auto simp: ejs_array_new_def dense_block_def memmove_def)
  next
    case True
    define ys where "ys = take (nat (e' - b')) (drop (nat b') xs)"
    have n: "0 \<le> b'" "0 \<le> e' - b'" "e' \<le> int (length xs)" using True by (auto simp: b'_def e'_def)
    then have l: "int (length ys) = e' - b'" by (simp add: ys_def)
    have "take (nat (e' - b')) (drop (nat b') (map Some xs @ rest)) = map Some ys"
      using n by (simp add: ys_def take_map drop_map nat_diff_distrib)
    then have m: "memmove (replicate (nat (e' - b') + 5) None) 0 (map Some xs @ rest) b' (e' - b') = Return (map Some ys @ replicate 5 None)"
      using n by (simp add: memmove_def)
    have "array_data (ejs_array_new (e' - b') False) = Dense (e' - b' + 5) (replicate (nat (e' - b') + 5) None)"
      using True n by (simp add: ejs_array_new_def nat_add_distrib replicate_add)
    then have "ejs_array_slice_dense (\<lambda>len. Return (ejs_array_new len False)) arr [B, E] =
        Return (set_block (ejs_array_new (e' - b') False) (map Some ys @ replicate 5 None))"
      unfolding slice using m by simp
    moreover have "array_seq (set_block (ejs_array_new (e' - b') False) (map Some ys @ replicate 5 None)) ys"
      using l h(2) n(1,3) True by (auto simp: array_seq_def holds_def room_def ejs_array_new_def intro!: exI [of _ "replicate 5 None"])
    ultimately show ?thesis using True by (auto simp: ys_def)
  qed
qed

theorem array_slice_exact_witness:
  "\<exists>rv. ejs_array_slice_dense (\<lambda>len. Return (ejs_array_new len False)) (ejs_array_new 3 True) [int_value 1, int_value 9] = Return rv \<and>
     array_seq rv [hole, hole]"
proof -
  have "double_to_int (int_value 1) = Return 1" "double_to_int (int_value 9) = Return 9"
    using of_int_finite [of 1] trunc_of_int [of 1] of_int_finite [of 9] trunc_of_int [of 9]
    by (simp_all add: double_to_int_def int_value_def INT_MAX_def)
  from array_slice_exact [OF new_seq [of 3] this] show ?thesis by (simp add: SPARSE_ARRAY_CUTOFF_def numeral_eq_Suc)
qed

end
