(* ===== verification/ArraySort.thy ===== *)
theory ArraySort
  imports ArrayLaws "HOL-Library.Multiset"
begin

text \<open>
  \<open>Array.prototype.sort\<close> (\<open>src/runtime/ejs-array.c\<close>): the comparison of two elements, and the quicksort of the
  elements of a dense array, in place.  The call of a comparison function is an argument and does not change the
  array.
\<close>

section \<open>The code\<close>

text \<open>The C operator \<open><\<close> on doubles: the order of sign and magnitude.\<close>

definition dbl_rank :: "double \<Rightarrow> int" where
  "dbl_rank d = (if dbl_neg d then - int (unat (d AND mask 63)) else int (unat (d AND mask 63)))"

definition dbl_lt :: "double \<Rightarrow> double \<Rightarrow> bool" where
  "dbl_lt d e \<longleftrightarrow> \<not> isnan d \<and> \<not> isnan e \<and> dbl_rank d < dbl_rank e"

text \<open>\<open>call\<close> is \<open>ToNumber\<close> of the result of the comparison function, if there is one.\<close>

definition SortCompare ::
  "strings \<Rightarrow> (ejsval \<Rightarrow> ejsval outcome) \<Rightarrow> (ejsval \<Rightarrow> ejsval \<Rightarrow> ejsval outcome) option \<Rightarrow>
   ejsval \<Rightarrow> ejsval \<Rightarrow> ejsval outcome" where
  "SortCompare strs to_string call x y =
     (if EJSVAL_IS_UNDEFINED_IMPL x \<and> EJSVAL_IS_UNDEFINED_IMPL y then Return (int_value 0)
      else if EJSVAL_IS_UNDEFINED_IMPL x then Return (int_value 1)
      else if EJSVAL_IS_UNDEFINED_IMPL y then Return (int_value (- 1))
      else case call of
        Some f \<Rightarrow> bind_outcome (f x y) (\<lambda>v. if isnan v then Return (int_value 0) else Return v)
      | None \<Rightarrow>
          bind_outcome (to_string x) (\<lambda>xString.
          bind_outcome (to_string y) (\<lambda>yString.
          bind_outcome (of_option (compare_texts strs xString yString)) (\<lambda>c.
            if c < 0 then Return (int_value (- 1))
            else if c > 0 then Return (int_value 1)
            else Return (int_value 0)))))"

definition swap_dense :: "EJSArray \<Rightarrow> int \<Rightarrow> int \<Rightarrow> EJSArray outcome" where
  "swap_dense arr xPos yPos =
     bind_outcome (element_entry arr xPos) (\<lambda>tmp.
     bind_outcome (element_entry arr yPos) (\<lambda>v.
     bind_outcome (put_entry arr xPos v) (\<lambda>arr. put_entry arr yPos tmp)))"

function partition_loop ::
  "(ejsval \<Rightarrow> ejsval \<Rightarrow> ejsval outcome) \<Rightarrow> ejsval \<Rightarrow> int \<Rightarrow> int \<Rightarrow> int \<Rightarrow> EJSArray \<Rightarrow> (int \<times> EJSArray) outcome" where
  "partition_loop compare pivotValue high i storeIndex arr =
     (if i < high then
        bind_outcome (element arr i) (\<lambda>kValue.
        bind_outcome (compare kValue pivotValue) (\<lambda>cmp.
          if dbl_lt cmp ejs_one then
            bind_outcome (swap_dense arr i storeIndex) (\<lambda>arr.
              partition_loop compare pivotValue high (i + 1) (storeIndex + 1) arr)
          else partition_loop compare pivotValue high (i + 1) storeIndex arr))
      else Return (storeIndex, arr))"
  by pat_completeness auto
termination by (relation "measure (\<lambda>(c, p, high, i, s, arr). nat (high - i))") auto

declare partition_loop.simps [simp del]

definition partition_dense ::
  "(ejsval \<Rightarrow> ejsval \<Rightarrow> ejsval outcome) \<Rightarrow> int \<Rightarrow> int \<Rightarrow> EJSArray \<Rightarrow> (int \<times> EJSArray) outcome" where
  "partition_dense compare low high arr =
     (let pivotIndex = low + (high - low) div 2 in
      bind_outcome (element arr pivotIndex) (\<lambda>pivotValue.
      bind_outcome (swap_dense arr pivotIndex high) (\<lambda>arr.
      bind_outcome (partition_loop compare pivotValue high low low arr) (\<lambda>(storeIndex, arr).
      bind_outcome (swap_dense arr storeIndex high) (\<lambda>arr. Return (storeIndex, arr))))))"

text \<open>The pivot ends inside the range, so the recursion of quicksort ends.\<close>

lemma partition_loop_range:
  "partition_loop c p high i s arr = Return (s', arr') \<Longrightarrow> s \<le> i \<Longrightarrow> i \<le> high \<Longrightarrow> s \<le> s' \<and> s' \<le> high"
proof (induction c p high i s arr rule: partition_loop.induct)
  case (1 c p high i s arr)
  show ?case
  proof (cases "i < high")
    case True
    with 1 show ?thesis
      by (subst (asm) partition_loop.simps) (fastforce simp: bind_outcome_Return split: if_splits)
  next
    case False
    then show ?thesis using 1 by (simp add: partition_loop.simps)
  qed
qed

lemma partition_range:
  "partition_dense c low high arr = Return (p, arr') \<Longrightarrow> low \<le> high \<Longrightarrow> low \<le> p \<and> p \<le> high"
  by (auto simp: partition_dense_def Let_def bind_outcome_Return dest: partition_loop_range)

function ejs_array_quicksort_dense ::
  "(ejsval \<Rightarrow> ejsval \<Rightarrow> ejsval outcome) \<Rightarrow> int \<Rightarrow> int \<Rightarrow> EJSArray \<Rightarrow> EJSArray outcome" where
  "ejs_array_quicksort_dense compare low high arr =
     (if low \<ge> high then Return arr
      else bind_outcome (partition_dense compare low high arr) (\<lambda>(p, arr).
        bind_outcome (ejs_array_quicksort_dense compare low (p - 1) arr) (\<lambda>arr.
          ejs_array_quicksort_dense compare (p + 1) high arr)))"
  by pat_completeness auto
termination
  by (relation "measure (\<lambda>(c, low, high, arr). nat (high - low))") (auto dest!: partition_range)

declare ejs_array_quicksort_dense.simps [simp del]

text \<open>The method.  An array that is not dense is refused, with a TypeError when it is not extensible.\<close>

definition ejs_Array_prototype_sort ::
  "strings \<Rightarrow> (ejsval \<Rightarrow> ejsval outcome) \<Rightarrow> (ejsval \<Rightarrow> bool) \<Rightarrow> (ejsval \<Rightarrow> ejsval \<Rightarrow> ejsval \<Rightarrow> ejsval outcome) \<Rightarrow>
   bool \<Rightarrow> ejsval \<Rightarrow> EJSArray \<Rightarrow> EJSArray outcome" where
  "ejs_Array_prototype_sort strs to_string is_callable call extensible comparefn arr =
     bind_outcome (of_option (ToLength (int_value (array_length arr)))) (\<lambda>l.
     let len = c_int l in
     if \<not> EJSVAL_IS_UNDEFINED_IMPL comparefn \<and> \<not> is_callable comparefn then Throws TypeError
     else if EJSVAL_IS_DENSE_ARRAY arr then
       ejs_array_quicksort_dense
         (SortCompare strs to_string (if EJSVAL_IS_UNDEFINED_IMPL comparefn then None else Some (call comparefn)))
         0 (len - 1) arr
     else if \<not> extensible then Throws TypeError
     else Aborts)"

section \<open>Rearranging a range\<close>

text \<open>\<open>ys\<close> is \<open>xs\<close> with the elements of the range from \<open>low\<close> to \<open>high\<close> in another order.\<close>

definition rearranged :: "int \<Rightarrow> int \<Rightarrow> 'v list \<Rightarrow> 'v list \<Rightarrow> bool" where
  "rearranged low high xs ys \<longleftrightarrow> mset ys = mset xs \<and>
     (\<forall>j<length xs. int j < low \<or> high < int j \<longrightarrow> ys ! j = xs ! j) \<and>
     (\<forall>j<length xs. low \<le> int j \<and> int j \<le> high \<longrightarrow>
        (\<exists>k<length xs. low \<le> int k \<and> int k \<le> high \<and> ys ! j = xs ! k))"

lemma rearranged_length: "rearranged low high xs ys \<Longrightarrow> length ys = length xs"
  by (auto simp: rearranged_def dest: mset_eq_length)

lemma rearranged_refl [simp]: "rearranged low high xs xs"
  by (auto simp: rearranged_def)

lemma rearranged_trans:
  assumes "rearranged low high xs ys" "rearranged low high ys zs"
  shows "rearranged low high xs zs"
  using assms rearranged_length [OF assms(1)] unfolding rearranged_def by (metis (no_types, lifting))

lemma rearranged_mono:
  assumes "rearranged low high xs ys" "low' \<le> low" "high \<le> high'"
  shows "rearranged low' high' xs ys"
  unfolding rearranged_def
proof (intro conjI allI impI)
  fix j assume j: "j < length xs" "low' \<le> int j \<and> int j \<le> high'"
  show "\<exists>k<length xs. low' \<le> int k \<and> int k \<le> high' \<and> ys ! j = xs ! k"
  proof (cases "low \<le> int j \<and> int j \<le> high")
    case True
    then show ?thesis using assms j unfolding rearranged_def by (meson order_trans)
  next
    case False
    then show ?thesis using assms(1) j unfolding rearranged_def by (metis not_le)
  qed
qed (use assms in \<open>auto simp: rearranged_def\<close>)

text \<open>What holds of all elements of the range before holds of them after.\<close>

lemma rearranged_all:
  assumes "rearranged low high xs ys" "\<And>j. j < length xs \<Longrightarrow> low \<le> int j \<Longrightarrow> int j \<le> high \<Longrightarrow> Q (xs ! j)"
    "j < length xs" "low \<le> int j" "int j \<le> high"
  shows "Q (ys ! j)"
  using assms unfolding rearranged_def by metis

lemma rearranged_swap:
  assumes "i < length xs" "j < length xs" "low \<le> int i" "int i \<le> high" "low \<le> int j" "int j \<le> high"
  shows "rearranged low high xs (xs[i := xs ! j, j := xs ! i])"
proof -
  have "\<exists>k<length xs. low \<le> int k \<and> int k \<le> high \<and> xs[i := xs ! j, j := xs ! i] ! n = xs ! k"
    if "n < length xs" "low \<le> int n \<and> int n \<le> high" for n
    by (rule exI [of _ "if n = j then i else if n = i then j else n"]) (use assms that in \<open>auto simp: nth_list_update\<close>)
  then show ?thesis using assms by (auto simp: rearranged_def mset_swap nth_list_update)
qed

lemma swap_seq:
  assumes "array_seq arr xs" "i < length xs" "j < length xs"
  shows "\<exists>arr'. swap_dense arr (int i) (int j) = Return arr' \<and> array_seq arr' (xs[i := xs ! j, j := xs ! i])"
proof -
  have h: "holds arr (map Some xs)" "room (length xs)" using assms(1) by (simp_all add: array_seq_def)
  have e: "element_entry arr (int k) = Return (Some (xs ! k))" if "k < length xs" for k
    using h(1) that by (auto elim!: holdsE simp: element_entry_def nth_append)
  obtain arr1 where p1: "put_entry arr (int i) (Some (xs ! j)) = Return arr1" "holds arr1 (map Some (xs[i := xs ! j]))"
    using put_entry_holds [OF h(1), of "int i" "Some (xs ! j)"] assms(2) by (auto simp: map_update)
  obtain arr2 where p2: "put_entry arr1 (int j) (Some (xs ! i)) = Return arr2" "holds arr2 (map Some (xs[i := xs ! j, j := xs ! i]))"
    using put_entry_holds [OF p1(2), of "int j" "Some (xs ! i)"] assms(3) by (auto simp: map_update)
  show ?thesis using e [OF assms(2)] e [OF assms(3)] p1 p2 h(2) by (auto simp: swap_dense_def array_seq_def)
qed

lemma element_seq: "array_seq arr xs \<Longrightarrow> k < length xs \<Longrightarrow> element arr (int k) = Return (xs ! k)"
  using element_holds [of arr "map Some xs" "int k"] by (simp add: array_seq_def)

section \<open>The sort\<close>

text \<open>The order that the code takes from a comparison: \<open>x\<close> does not come after \<open>y\<close>.\<close>

definition not_after :: "(ejsval \<Rightarrow> ejsval \<Rightarrow> ejsval outcome) \<Rightarrow> ejsval \<Rightarrow> ejsval \<Rightarrow> bool" where
  "not_after compare x y \<longleftrightarrow> (\<exists>c. compare x y = Return c \<and> dbl_lt c ejs_one)"

lemma partition_loop_seq:
  assumes "array_seq arr xs" "\<forall>x\<in>set xs. \<exists>c. compare x p = Return c"
    "s \<le> i" "i \<le> high" "high < length xs" "low \<le> s"
    "\<forall>j. low \<le> j \<and> j < s \<longrightarrow> not_after compare (xs ! j) p" "\<forall>j. s \<le> j \<and> j < i \<longrightarrow> \<not> not_after compare (xs ! j) p"
  shows "\<exists>arr' ys s'. partition_loop compare p (int high) (int i) (int s) arr = Return (int s', arr') \<and> array_seq arr' ys \<and>
    rearranged (int low) (int high - 1) xs ys \<and> s \<le> s' \<and> s' \<le> high \<and>
    (\<forall>j. low \<le> j \<and> j < s' \<longrightarrow> not_after compare (ys ! j) p) \<and> (\<forall>j. s' \<le> j \<and> j < high \<longrightarrow> \<not> not_after compare (ys ! j) p)"
  using assms
proof (induction "high - i" arbitrary: i s arr xs)
  case 0
  then show ?case by (auto simp: partition_loop.simps)
next
  case (Suc n)
  then have i: "i < high" "i < length xs" "s < length xs" by simp_all
  then obtain c where c: "compare (xs ! i) p = Return c" using Suc.prems(2) by (meson nth_mem)
  have n: "n = high - Suc i" using Suc.hyps(2) by simp
  show ?case
  proof (cases "dbl_lt c ejs_one")
    case False
    then have step: "partition_loop compare p (int high) (int i) (int s) arr = partition_loop compare p (int high) (int (Suc i)) (int s) arr"
      using i c element_seq [OF Suc.prems(1) i(2)] by (subst partition_loop.simps) (simp add: add.commute)
    have "\<not> not_after compare (xs ! i) p" using False c by (simp add: not_after_def)
    then show ?thesis unfolding step using Suc.prems i by (intro Suc.hyps(1) [OF n]) (auto simp: less_Suc_eq)
  next
    case True
    let ?zs = "xs[i := xs ! s, s := xs ! i]"
    obtain arr1 where sw: "swap_dense arr (int i) (int s) = Return arr1" "array_seq arr1 ?zs"
      using swap_seq [OF Suc.prems(1) i(2,3)] by blast
    have step: "partition_loop compare p (int high) (int i) (int s) arr =
        partition_loop compare p (int high) (int (Suc i)) (int (Suc s)) arr1"
      using True i c element_seq [OF Suc.prems(1) i(2)] sw(1) by (subst partition_loop.simps) (simp add: add.commute)
    have na: "not_after compare (xs ! i) p" using True c by (simp add: not_after_def)
    have re: "rearranged (int low) (int high - 1) xs ?zs" using i Suc.prems by (intro rearranged_swap) auto
    have "set ?zs = set xs" using mset_swap [OF i(3,2)] i by (metis mset_swap set_mset_mset)
    then have "\<exists>arr' ys s'. partition_loop compare p (int high) (int (Suc i)) (int (Suc s)) arr1 = Return (int s', arr') \<and> array_seq arr' ys \<and>
      rearranged (int low) (int high - 1) ?zs ys \<and> Suc s \<le> s' \<and> s' \<le> high \<and>
      (\<forall>j. low \<le> j \<and> j < s' \<longrightarrow> not_after compare (ys ! j) p) \<and> (\<forall>j. s' \<le> j \<and> j < high \<longrightarrow> \<not> not_after compare (ys ! j) p)"
      using Suc.prems i na sw(2)
      by (intro Suc.hyps(1) [OF n]) (auto simp: less_Suc_eq nth_list_update)
    then show ?thesis unfolding step using rearranged_trans [OF re] Suc_leD by blast
  qed
qed

text \<open>A comparison that orders the elements of \<open>xs\<close>: it returns, and the order it gives is total and transitive.\<close>

definition orders :: "(ejsval \<Rightarrow> ejsval \<Rightarrow> ejsval outcome) \<Rightarrow> ejsval set \<Rightarrow> bool" where
  "orders compare A \<longleftrightarrow> (\<forall>x\<in>A. \<forall>y\<in>A. (\<exists>c. compare x y = Return c) \<and> (not_after compare x y \<or> not_after compare y x)) \<and>
     (\<forall>x\<in>A. \<forall>y\<in>A. \<forall>z\<in>A. not_after compare x y \<longrightarrow> not_after compare y z \<longrightarrow> not_after compare x z)"

lemma partition_seq:
  assumes "array_seq arr xs" "orders compare (set xs)" "low < high" "high < length xs"
  shows "\<exists>arr' ys p. partition_dense compare (int low) (int high) arr = Return (int p, arr') \<and> array_seq arr' ys \<and>
    rearranged (int low) (int high) xs ys \<and> low \<le> p \<and> p \<le> high \<and>
    (\<forall>j. low \<le> j \<and> j < p \<longrightarrow> not_after compare (ys ! j) (ys ! p)) \<and>
    (\<forall>j. p < j \<and> j \<le> high \<longrightarrow> not_after compare (ys ! p) (ys ! j))"
proof -
  define m where "m = low + (high - low) div 2"
  have m: "int low + (int high - int low) div 2 = int m" "low \<le> m" "m < high" using assms(3)
    by (simp_all add: m_def of_nat_diff zdiv_int)
  let ?v = "xs ! m"
  let ?xs1 = "xs[m := xs ! high, high := xs ! m]"
  obtain arr1 where s1: "swap_dense arr (int m) (int high) = Return arr1" "array_seq arr1 ?xs1"
    using swap_seq [OF assms(1), of m high] m assms(4) by auto
  have re1: "rearranged (int low) (int high) xs ?xs1" using m assms(3,4) by (intro rearranged_swap) auto
  then have set1: "set ?xs1 = set xs" unfolding rearranged_def by (metis set_mset_mset)
  have ret: "\<forall>x\<in>set ?xs1. \<exists>c. compare x ?v = Return c" using assms(2) m(3) assms(4) unfolding set1 orders_def by auto
  have hi: "high < length ?xs1" using assms(4) by simp
  have e: "\<forall>j. low \<le> j \<and> j < low \<longrightarrow> Q j" for Q :: "nat \<Rightarrow> bool" by auto
  obtain arr2 ys s where l: "partition_loop compare ?v (int high) (int low) (int low) arr1 = Return (int s, arr2)" "array_seq arr2 ys"
    "rearranged (int low) (int high - 1) ?xs1 ys" "low \<le> s" "s \<le> high"
    "\<forall>j. low \<le> j \<and> j < s \<longrightarrow> not_after compare (ys ! j) ?v" "\<forall>j. s \<le> j \<and> j < high \<longrightarrow> \<not> not_after compare (ys ! j) ?v"
    using partition_loop_seq [where compare = compare and p = ?v and s = low and i = low and low = low,
        OF s1(2) ret le_refl less_imp_le [OF assms(3)] hi le_refl e e] by blast
  have len: "length ys = length xs" using rearranged_length [OF l(3)] by simp
  have pivot: "ys ! high = ?v" using l(3) assms(4) by (simp add: rearranged_def)
  let ?zs = "ys[s := ys ! high, high := ys ! s]"
  obtain arr3 where s2: "swap_dense arr2 (int s) (int high) = Return arr3" "array_seq arr3 ?zs"
    using swap_seq [OF l(2), of s high] l(5) assms(4) len by auto
  have re2: "rearranged (int low) (int high) xs ys"
    using rearranged_trans [OF re1 rearranged_mono [OF l(3)]] by simp
  have re: "rearranged (int low) (int high) xs ?zs"
    by (rule rearranged_trans [OF re2 rearranged_swap]) (use l(4,5) assms(3,4) len in auto)
  have "not_after compare ?v (ys ! j)" if "s \<le> j" "j < high" for j
  proof -
    have "ys ! j \<in> set xs" "?v \<in> set xs" using re2 that(2) assms(4) len m(3) unfolding rearranged_def by (metis nth_mem set_mset_mset order_less_trans)+
    then show ?thesis using l(7) that assms(2) unfolding orders_def by blast
  qed
  then have "\<forall>j. low \<le> j \<and> j < s \<longrightarrow> not_after compare (?zs ! j) (?zs ! s)"
    "\<forall>j. s < j \<and> j \<le> high \<longrightarrow> not_after compare (?zs ! s) (?zs ! j)"
    using l(4-6) pivot len assms(4) by (auto simp: nth_list_update)
  then show ?thesis using m(1,3) assms(4) element_seq [OF assms(1), of m] s1(1) l s2 re
    by (auto simp: partition_dense_def)
qed

definition sorted_range :: "(ejsval \<Rightarrow> ejsval \<Rightarrow> ejsval outcome) \<Rightarrow> int \<Rightarrow> int \<Rightarrow> ejsval list \<Rightarrow> bool" where
  "sorted_range compare low high xs \<longleftrightarrow>
     (\<forall>i j. low \<le> int i \<and> i < j \<and> int j \<le> high \<longrightarrow> not_after compare (xs ! i) (xs ! j))"

text \<open>Joining two sorted ranges around a pivot.\<close>

lemma sorted_range_join:
  assumes "sorted_range compare low (p - 1) xs" "sorted_range compare (p + 1) high xs"
    "orders compare (set xs)" "0 \<le> low" "low \<le> p" "p \<le> high" "high < int (length xs)"
    "\<And>j. low \<le> int j \<Longrightarrow> int j < p \<Longrightarrow> not_after compare (xs ! j) (xs ! nat p)"
    "\<And>j. p < int j \<Longrightarrow> int j \<le> high \<Longrightarrow> not_after compare (xs ! nat p) (xs ! j)"
  shows "sorted_range compare low high xs"
  unfolding sorted_range_def
proof (intro allI impI)
  fix i j assume ij: "low \<le> int i \<and> i < j \<and> int j \<le> high"
  then have m: "xs ! i \<in> set xs" "xs ! j \<in> set xs" "xs ! nat p \<in> set xs" using assms(4-7) by simp_all
  consider "int j < p" | "int j = p" | "int i = p" | "int i < p" "p < int j" | "p < int i" using ij by linarith
  then show "not_after compare (xs ! i) (xs ! j)"
  proof cases
    case 4
    then show ?thesis using assms(3) assms(8) [of i] assms(9) [of j] ij m unfolding orders_def by blast
  next
    case 1
    then show ?thesis using assms(1) ij by (simp add: sorted_range_def)
  next
    case 2
    then have "j = nat p" by simp
    then show ?thesis using assms(8) [of i] ij 2 by simp
  next
    case 3
    then have "i = nat p" by simp
    then show ?thesis using assms(9) [of j] ij 3 by simp
  next
    case 5
    then show ?thesis using assms(2) ij by (simp add: sorted_range_def)
  qed
qed

lemma quicksort_seq:
  assumes "array_seq arr xs" "orders compare (set xs)" "0 \<le> low" "high < int (length xs)"
  shows "\<exists>arr' ys. ejs_array_quicksort_dense compare low high arr = Return arr' \<and> array_seq arr' ys \<and>
    rearranged low high xs ys \<and> sorted_range compare low high ys"
  using assms
proof (induction "nat (high - low)" arbitrary: low high arr xs rule: less_induct)
  case less
  show ?case
  proof (cases "low \<ge> high")
    case True
    then show ?thesis using less.prems by (auto simp: ejs_array_quicksort_dense.simps sorted_range_def)
  next
    case False
    obtain lo hi where lh: "low = int lo" "high = int hi" using less.prems(3) False by (metis nonneg_int_cases not_le order_trans less_imp_le)
    obtain arr1 ys p where part: "partition_dense compare low high arr = Return (int p, arr1)" "array_seq arr1 ys"
      "rearranged low high xs ys" "lo \<le> p" "p \<le> hi"
      "\<forall>j. lo \<le> j \<and> j < p \<longrightarrow> not_after compare (ys ! j) (ys ! p)"
      "\<forall>j. p < j \<and> j \<le> hi \<longrightarrow> not_after compare (ys ! p) (ys ! j)"
      using partition_seq [OF less.prems(1,2), of lo hi] False less.prems(4) lh by auto
    have len: "length ys = length xs" using rearranged_length [OF part(3)] .
    have sety: "set ys = set xs" using part(3) unfolding rearranged_def by (metis set_mset_mset)
    obtain arr2 zs where left: "ejs_array_quicksort_dense compare low (int p - 1) arr1 = Return arr2" "array_seq arr2 zs"
      "rearranged low (int p - 1) ys zs" "sorted_range compare low (int p - 1) zs"
      using less.hyps [of "int p - 1" low arr1 ys] part lh less.prems False sety len by fastforce
    have setz: "set zs = set xs" "length zs = length xs"
      using left(3) sety len rearranged_length [OF left(3)] unfolding rearranged_def by (metis set_mset_mset, simp)
    obtain arr3 ws where right: "ejs_array_quicksort_dense compare (int p + 1) high arr2 = Return arr3" "array_seq arr3 ws"
      "rearranged (int p + 1) high zs ws" "sorted_range compare (int p + 1) high ws"
      using less.hyps [of high "int p + 1" arr2 zs] left part lh less.prems False setz by fastforce
    have setw: "set ws = set xs" "length ws = length xs"
      using right(3) setz rearranged_length [OF right(3)] unfolding rearranged_def by (metis set_mset_mset, simp)
    have re: "rearranged low high xs ws"
      using rearranged_trans [OF part(3) rearranged_trans [OF rearranged_mono [OF left(3)] rearranged_mono [OF right(3)]]]
        part(4,5) lh by simp
    have zs: "zs ! j = ys ! j" if "p \<le> j" "j < length xs" for j using left(3) that len unfolding rearranged_def by auto
    have ws: "ws ! j = zs ! j" if "j \<le> p" for j using right(3) that part(5) setz(2) less.prems(4) lh unfolding rearranged_def by auto
    have piv: "ws ! p = ys ! p" using ws [of p] zs [of p] part(5) less.prems(4) lh by simp
    have lower: "not_after compare (ws ! j) (ws ! p)" if "low \<le> int j" "int j < int p" for j
      using rearranged_all [OF left(3), of "\<lambda>x. not_after compare x (ys ! p)" j] part(5,6) that less.prems(4) lh len ws [of j]
      unfolding piv by simp
    have upper: "not_after compare (ws ! p) (ws ! j)" if "int p < int j" "int j \<le> high" for j
      using rearranged_all [OF right(3), of "\<lambda>x. not_after compare (ys ! p) x" j] part(7) that less.prems(4) lh setz(2) zs
      unfolding piv by simp
    have sl: "sorted_range compare low (int p - 1) ws" using left(4) ws unfolding sorted_range_def by simp
    have so: "orders compare (set ws)" "high < int (length ws)" using less.prems(2,4) setw by simp_all
    have pr: "low \<le> int p" "int p \<le> high" using part(4,5) lh by simp_all
    have "sorted_range compare low high ws"
      using sorted_range_join [OF sl right(4) so(1) less.prems(3) pr so(2)] lower upper by simp
    moreover have "ejs_array_quicksort_dense compare low high arr = Return arr3"
      using False part(1) left(1) right(1) by (subst ejs_array_quicksort_dense.simps) simp
    ultimately show ?thesis using re right(2) by blast
  qed
qed

text \<open>The comparison that the method uses.\<close>

definition sort_order ::
  "strings \<Rightarrow> (ejsval \<Rightarrow> ejsval outcome) \<Rightarrow> (ejsval \<Rightarrow> ejsval \<Rightarrow> ejsval \<Rightarrow> ejsval outcome) \<Rightarrow> ejsval \<Rightarrow>
   ejsval \<Rightarrow> ejsval \<Rightarrow> ejsval outcome" where
  "sort_order strs to_string call comparefn =
     SortCompare strs to_string (if EJSVAL_IS_UNDEFINED_IMPL comparefn then None else Some (call comparefn))"

lemma sort_dense:
  assumes "array_seq arr xs" "EJSVAL_IS_UNDEFINED_IMPL comparefn \<or> is_callable comparefn"
  shows "ejs_Array_prototype_sort strs to_string is_callable call extensible comparefn arr =
    ejs_array_quicksort_dense (sort_order strs to_string call comparefn) 0 (int (length xs) - 1) arr"
proof -
  have l: "array_length arr = int (length xs)" "int (length xs) \<le> INT_MAX" "EJSVAL_IS_DENSE_ARRAY arr"
    using assms(1) holds_length [of arr "map Some xs"] by (auto simp: array_seq_def room_def)
  then have "ToLength (int_value (array_length arr)) = Some (int (length xs))"
    using int_value_facts(3) [of "int (length xs)"] by (simp add: INT_MAX_def)
  then show ?thesis using l assms(2) by (auto simp: ejs_Array_prototype_sort_def sort_order_def)
qed

text \<open>C9: sort sorts.  On a dense array, with a comparison that returns and orders the elements totally and
  transitively (where not greater means a result below 1), sort returns, and the array holds the same elements
  in an order in which none comes after a later one.\<close>

theorem sort_sorts:
  assumes "array_seq arr xs" "EJSVAL_IS_UNDEFINED_IMPL comparefn \<or> is_callable comparefn"
    "orders (sort_order strs to_string call comparefn) (set xs)"
  shows "\<exists>arr' ys. ejs_Array_prototype_sort strs to_string is_callable call extensible comparefn arr = Return arr' \<and>
    array_seq arr' ys \<and> mset ys = mset xs \<and> sorted_wrt (not_after (sort_order strs to_string call comparefn)) ys"
proof -
  obtain arr' ys where q: "ejs_array_quicksort_dense (sort_order strs to_string call comparefn) 0 (int (length xs) - 1) arr = Return arr'"
    "array_seq arr' ys" "rearranged 0 (int (length xs) - 1) xs ys"
    "sorted_range (sort_order strs to_string call comparefn) 0 (int (length xs) - 1) ys"
    using quicksort_seq [OF assms(1,3), of 0 "int (length xs) - 1"] by auto
  then have "sorted_wrt (not_after (sort_order strs to_string call comparefn)) ys"
    using rearranged_length [OF q(3)] by (auto simp: sorted_wrt_iff_nth_less sorted_range_def)
  then show ?thesis using q sort_dense [OF assms(1), of comparefn is_callable] assms(2) by (auto simp: rearranged_def)
qed

text \<open>Numbers compared by their rank, as a sample of an order.\<close>

definition compare_ranks :: "ejsval \<Rightarrow> ejsval \<Rightarrow> ejsval \<Rightarrow> ejsval outcome" where
  "compare_ranks fn x y = Return (int_value (if dbl_rank x < dbl_rank y then - 1 else if dbl_rank x = dbl_rank y then 0 else 1))"

lemma small_values:
  "int_value 0 = 0" "int_value 1 = 0x3FF0000000000000" "int_value (- 1) = 0xBFF0000000000000"
  by (simp_all add: int_value_def dbl_of_int_def ilog2.simps [of "Suc 0"])

lemma small_ranks:
  "dbl_rank 0 = 0" "dbl_rank 0x3FF0000000000000 = 0x3FF0000000000000" "dbl_rank 0xBFF0000000000000 = - 0x3FF0000000000000"
  by (simp_all add: dbl_rank_def dbl_neg_def mask_eq_exp_minus_1)

lemma small_not_nan: "\<not> isnan 0x3FF0000000000000" "\<not> isnan 0xBFF0000000000000"
  by (simp_all add: isnan_def dbl_exp_def mask_eq_exp_minus_1)

lemma sample_not_undefined:
  "\<not> EJSVAL_IS_UNDEFINED_IMPL ejs_null" "\<not> EJSVAL_IS_UNDEFINED_IMPL 0" "\<not> EJSVAL_IS_UNDEFINED_IMPL 0x3FF0000000000000"
  by (simp_all add: ejs_null_def EJSVAL_IS_UNDEFINED_IMPL_def BUILD_EJSVAL_def tag_defs)

lemma rank_order:
  assumes "x = 0 \<or> x = 0x3FF0000000000000" "y = 0 \<or> y = 0x3FF0000000000000"
  shows "\<exists>c. sort_order strs to_string compare_ranks ejs_null x y = Return c"
    "not_after (sort_order strs to_string compare_ranks ejs_null) x y \<longleftrightarrow> x = 0 \<or> y = 0x3FF0000000000000"
proof -
  have c: "sort_order strs to_string compare_ranks ejs_null x y = Return (int_value (if x = y then 0 else if x = 0 then - 1 else 1))"
    using assms
    by (auto simp: sort_order_def SortCompare_def compare_ranks_def sample_not_undefined small_ranks small_values small_not_nan)
  then show "\<exists>c. sort_order strs to_string compare_ranks ejs_null x y = Return c" by simp
  show "not_after (sort_order strs to_string compare_ranks ejs_null) x y \<longleftrightarrow> x = 0 \<or> y = 0x3FF0000000000000"
    using assms by (auto simp: not_after_def c dbl_lt_def small_values small_ranks small_not_nan ejs_one_def)
qed

theorem sort_sorts_witness:
  "\<exists>arr arr' ys. array_seq arr [ejs_one, ejs_zero] \<and>
    ejs_Array_prototype_sort (\<lambda>_. None) Return (\<lambda>_. True) compare_ranks True ejs_null arr = Return arr' \<and>
    array_seq arr' ys \<and> mset ys = mset [ejs_one, ejs_zero] \<and>
    sorted_wrt (not_after (sort_order (\<lambda>_. None) Return compare_ranks ejs_null)) ys"
proof -
  obtain n arr where "array_seq arr [ejs_one, ejs_zero]"
    using dense.push_seq [OF new_seq [of 0], of "[ejs_one, ejs_zero]"] by (auto simp: SPARSE_ARRAY_CUTOFF_def room_def INT_MAX_def)
  moreover have "orders (sort_order (\<lambda>_. None) Return compare_ranks ejs_null) (set [ejs_one, ejs_zero])"
    using rank_order by (auto simp: orders_def ejs_zero_def ejs_one_def)
  ultimately show ?thesis using sort_sorts [of arr "[ejs_one, ejs_zero]" ejs_null "\<lambda>_. True" "\<lambda>_. None" Return compare_ranks True] by blast
qed

text \<open>A comparison function that returns a fraction between 0 and 1 for an element that comes after another,
  as a difference of fractions does, is taken to put it before: two elements in the right order are exchanged.\<close>

theorem sort_fraction_misorders:
  assumes "array_seq arr [x, y]" "is_callable comparefn" "\<not> EJSVAL_IS_UNDEFINED_IMPL comparefn"
    "\<not> EJSVAL_IS_UNDEFINED_IMPL x" "\<not> EJSVAL_IS_UNDEFINED_IMPL y"
    "call comparefn y x = Return c" "dbl_lt 0 c" "dbl_lt c ejs_one"
  shows "\<exists>arr'. ejs_Array_prototype_sort strs to_string is_callable call extensible comparefn arr = Return arr' \<and>
    array_seq arr' [y, x]"
proof -
  let ?cmp = "sort_order strs to_string call comparefn"
  have c: "?cmp y x = Return c" using assms(3-8) by (simp add: sort_order_def SortCompare_def dbl_lt_def)
  obtain arr1 where s1: "swap_dense arr 0 1 = Return arr1" "array_seq arr1 [y, x]"
    using swap_seq [OF assms(1), of 0 1] by auto
  obtain arr2 where s2: "swap_dense arr1 0 0 = Return arr2" "array_seq arr2 [y, x]" using swap_seq [OF s1(2), of 0 0] by auto
  obtain arr3 where s3: "swap_dense arr2 1 1 = Return arr3" "array_seq arr3 [y, x]" using swap_seq [OF s2(2), of 1 1] by auto
  have "partition_loop ?cmp x 1 0 0 arr1 = Return (1, arr2)"
    using element_seq [OF s1(2), of 0] c assms(8) s2(1)
    by (subst partition_loop.simps) (simp add: partition_loop.simps [of _ _ 1 1])
  then have "partition_dense ?cmp 0 1 arr = Return (1, arr3)"
    using element_seq [OF assms(1), of 0] s1(1) s3(1) by (simp add: partition_dense_def)
  then have "ejs_array_quicksort_dense ?cmp 0 1 arr = Return arr3"
    by (subst ejs_array_quicksort_dense.simps) (simp add: ejs_array_quicksort_dense.simps [of _ 0 0] ejs_array_quicksort_dense.simps [of _ 2 1])
  then show ?thesis using sort_dense [OF assms(1), of comparefn is_callable strs to_string call extensible] assms(2) s3(2) by simp
qed

theorem sort_fraction_misorders_witness:
  "\<exists>arr arr'. array_seq arr [ejs_zero, ejs_one] \<and>
    ejs_Array_prototype_sort (\<lambda>_. None) Return (\<lambda>_. True) (\<lambda>_ _ _. Return 0x3FE0000000000000) True ejs_null arr = Return arr' \<and>
    array_seq arr' [ejs_one, ejs_zero]"
proof -
  obtain n arr where a: "array_seq arr [ejs_zero, ejs_one]"
    using dense.push_seq [OF new_seq [of 0], of "[ejs_zero, ejs_one]"] by (auto simp: SPARSE_ARRAY_CUTOFF_def room_def INT_MAX_def)
  have "dbl_lt 0 0x3FE0000000000000" "dbl_lt 0x3FE0000000000000 ejs_one"
    by (simp_all add: dbl_lt_def small_ranks small_not_nan ejs_one_def)
      (simp_all add: dbl_rank_def dbl_neg_def isnan_def dbl_exp_def mask_eq_exp_minus_1)
  from sort_fraction_misorders [OF a _ _ _ _ _ this, of "\<lambda>_. True" ejs_null "\<lambda>_ _ _. Return 0x3FE0000000000000" "\<lambda>_. None" Return True]
  show ?thesis using a
    by (auto simp: sample_not_undefined ejs_zero_def ejs_one_def)
qed

end
