(* ===== verification/Operators.thy ===== *)
theory Operators
  imports SpecOps ArraySort
begin

text \<open>
  Conversions of objects to primitive values, and the operators that use them (\<open>src/runtime/ejs-ops.c\<close>): equality,
  the order of values, \<open>in\<close>, \<open>instanceof\<close>, and the protocol of iterators.  They are methods over any type of states:
  reading a property and calling a function run compiled code and are fields of the environment, as are the result of
  \<open>strtod\<close> on the text of a string and the test for strings and string objects.
\<close>

datatype ToPrimitiveHint = TO_PRIM_HINT_DEFAULT | TO_PRIM_HINT_STRING | TO_PRIM_HINT_NUMBER

record 'h op_env =
  get_prop :: "ejsval \<Rightarrow> string \<Rightarrow> ('h, ejsval) action"
  callable_op :: "ejsval \<Rightarrow> 'h \<Rightarrow> bool"
  invoke_op :: "ejsval \<Rightarrow> ejsval \<Rightarrow> ejsval list \<Rightarrow> ('h, ejsval) action"
  op_strings :: strings
  text_number :: "ejsval \<Rightarrow> double option"
  op_atom :: "string \<Rightarrow> ejsval"
  is_string_type :: "ejsval \<Rightarrow> bool"
  bound_function :: "ejsval \<Rightarrow> bool"
  table_of :: "ejsval \<Rightarrow> 'h EJSSpecOps"
  key_string_of :: "ejsval \<Rightarrow> ('h, ejsval) action"
  throw_value :: "ejsval \<Rightarrow> js_error"

definition IsCallable_m :: "'h op_env \<Rightarrow> ejsval \<Rightarrow> ('h, bool) action" where
  "IsCallable_m env v h = (Return (is_object v \<and> callable_op env v h), h)"

definition GetMethod_m :: "'h op_env \<Rightarrow> ejsval \<Rightarrow> string \<Rightarrow> ('h, ejsval) action" where
  "GetMethod_m env O' P =
     bind_m (if EJSVAL_IS_UNDEFINED_IMPL O' \<or> EJSVAL_IS_NULL_IMPL O' then return_m ejs_undefined else get_prop env O' P) (\<lambda>func.
       if EJSVAL_IS_UNDEFINED_IMPL func \<or> EJSVAL_IS_NULL_IMPL func then return_m ejs_undefined
       else bind_m (IsCallable_m env func) (\<lambda>c. if c then return_m func else throw_m TypeError))"

section \<open>Objects to primitive values\<close>

text \<open>The loop over the two method names.\<close>

fun try_methods :: "'h op_env \<Rightarrow> ejsval \<Rightarrow> string list \<Rightarrow> ('h, ejsval) action" where
  "try_methods env O' [] = throw_m TypeError"
| "try_methods env O' (m # ms) =
     bind_m (get_prop env O' m) (\<lambda>meth.
     bind_m (IsCallable_m env meth) (\<lambda>c.
       if c then bind_m (invoke_op env meth O' []) (\<lambda>result.
         if \<not> is_object result then return_m result else try_methods env O' ms)
       else try_methods env O' ms))"

definition OrdinaryToPrimitive :: "'h op_env \<Rightarrow> ejsval \<Rightarrow> ToPrimitiveHint \<Rightarrow> ('h, ejsval) action" where
  "OrdinaryToPrimitive env O' hint =
     try_methods env O' (if hint = TO_PRIM_HINT_STRING then [''toString'', ''valueOf''] else [''valueOf'', ''toString''])"

definition ToPrimitive :: "'h op_env \<Rightarrow> ejsval \<Rightarrow> ToPrimitiveHint \<Rightarrow> ('h, ejsval) action" where
  "ToPrimitive env input PreferredType =
     (if \<not> is_object input then return_m input
      else
        let hint = (case PreferredType of TO_PRIM_HINT_DEFAULT \<Rightarrow> ''default'' | TO_PRIM_HINT_STRING \<Rightarrow> ''string''
                    | TO_PRIM_HINT_NUMBER \<Rightarrow> ''number'') in
        bind_m (GetMethod_m env input ''@@toPrimitive'') (\<lambda>exoticToPrim.
          if \<not> EJSVAL_IS_UNDEFINED_IMPL exoticToPrim then
            bind_m (invoke_op env exoticToPrim input [op_atom env hint]) (\<lambda>result.
              if \<not> is_object result then return_m result else throw_m TypeError)
          else OrdinaryToPrimitive env input
            (if PreferredType = TO_PRIM_HINT_DEFAULT then TO_PRIM_HINT_NUMBER else PreferredType)))"

lemma try_methods_primitive: "try_methods env v ms h = (Return p, h') \<Longrightarrow> \<not> is_object p"
  by (induction ms arbitrary: h) (auto simp: bind_m_Return split: if_splits)

lemma ToPrimitive_primitive: "ToPrimitive env v hint h = (Return p, h') \<Longrightarrow> \<not> is_object p"
  by (auto simp: ToPrimitive_def OrdinaryToPrimitive_def Let_def bind_m_Return split: if_splits dest: try_methods_primitive)

text \<open>\<open>ToNumber\<close> with its recursion on objects, which ends after one step.\<close>

definition primitive_number :: "'h op_env \<Rightarrow> ejsval \<Rightarrow> ejsval outcome" where
  "primitive_number env = ToNumber (text_number env) (\<lambda>_. Aborts)"

definition outcome_m :: "'a outcome \<Rightarrow> ('h, 'a) action" where "outcome_m r h = (r, h)"

definition ToNumber_m :: "'h op_env \<Rightarrow> ejsval \<Rightarrow> ('h, ejsval) action" where
  "ToNumber_m env exp =
     (if is_object exp then bind_m (ToPrimitive env exp TO_PRIM_HINT_NUMBER) (\<lambda>p. outcome_m (primitive_number env p))
      else outcome_m (primitive_number env exp))"

lemma number_of_boolean:
  assumes "EJSVAL_IS_BOOLEAN_IMPL v"
  shows "\<exists>n. primitive_number env v = Return n \<and> n \<in> {ejs_zero, ejs_one}"
  using assms not_double_tag [of v] by (auto simp: primitive_number_def ToNumber_def tag_facts)

section \<open>Equality\<close>

text \<open>Each recursion turns an operand into a simpler one.\<close>

definition operand_rank :: "ejsval \<Rightarrow> nat" where
  "operand_rank v = (if is_object v then 3 else if EJSVAL_IS_BOOLEAN_IMPL v then 2 else if EJSVAL_IS_STRING_IMPL v then 1 else 0)"

lemma bind_m_cong [fundef_cong]:
  "m h = m' h' \<Longrightarrow> (\<And>x g. m' h' = (Return x, g) \<Longrightarrow> f x g = f' x g) \<Longrightarrow> bind_m m f h = bind_m m' f' h'"
  by (auto simp: bind_m_def split: prod.splits outcome.splits)

lemma primitive_number_double:
  assumes "primitive_number env v = Return n"
  shows "EJSVAL_IS_DOUBLE_IMPL n"
proof -
  have "EJSVAL_IS_DOUBLE_IMPL ejs_one" "EJSVAL_IS_DOUBLE_IMPL ejs_zero" "EJSVAL_IS_DOUBLE_IMPL ejs_nan" by code_simp+
  moreover have "DOUBLE_TO_EJSVAL_IMPL d = Some n \<Longrightarrow> EJSVAL_IS_DOUBLE_IMPL n" for d
    by (auto simp: DOUBLE_TO_EJSVAL_IMPL_def EJSVAL_IS_DOUBLE_IMPL_def)
  ultimately show ?thesis
    using assms by (auto simp: primitive_number_def ToNumber_def split: if_splits option.splits)
qed

lemma rank_number: "EJSVAL_IS_DOUBLE_IMPL n \<Longrightarrow> operand_rank n = 0"
  using double_tag_lt [of n] by (auto simp: operand_rank_def tag_facts word_le_nat_alt word_less_nat_alt)

lemma rank_primitive: "ToPrimitive env v hint h = (Return p, h') \<Longrightarrow> is_object v \<Longrightarrow> operand_rank p < operand_rank v"
  using ToPrimitive_primitive [of env v hint h p h'] by (auto simp: operand_rank_def)

lemma rank_converted:
  assumes "ToNumber_m env v h = (Return n, h')" "EJSVAL_IS_BOOLEAN_IMPL v \<or> EJSVAL_IS_STRING_IMPL v"
  shows "operand_rank n < operand_rank v"
proof -
  have "operand_rank n = 0"
    using assms(1) primitive_number_double rank_number
    by (fastforce simp: ToNumber_m_def outcome_m_def bind_m_Return split: if_splits)
  then show ?thesis using assms(2) by (auto simp: operand_rank_def)
qed

function ejs_op_eq :: "'h op_env \<Rightarrow> ejsval \<Rightarrow> ejsval \<Rightarrow> ('h, bool) action" where
  "ejs_op_eq env x y h =
     (if EJSVAL_TO_TAG x = EJSVAL_TO_TAG y then option_m (ejs_op_strict_eq (op_strings env) x y) h
      else if EJSVAL_IS_NULL_IMPL x \<and> EJSVAL_IS_UNDEFINED_IMPL y then (Return True, h)
      else if EJSVAL_IS_UNDEFINED_IMPL x \<and> EJSVAL_IS_NULL_IMPL y then (Return True, h)
      else if EJSVAL_IS_DOUBLE_IMPL x \<and> EJSVAL_IS_STRING_IMPL y then bind_m (ToNumber_m env y) (\<lambda>n. ejs_op_eq env x n) h
      else if EJSVAL_IS_STRING_IMPL x \<and> EJSVAL_IS_DOUBLE_IMPL y then bind_m (ToNumber_m env x) (\<lambda>n. ejs_op_eq env n y) h
      else if EJSVAL_IS_BOOLEAN_IMPL x then bind_m (ToNumber_m env x) (\<lambda>n. ejs_op_eq env n y) h
      else if EJSVAL_IS_BOOLEAN_IMPL y then bind_m (ToNumber_m env y) (\<lambda>n. ejs_op_eq env x n) h
      else if (EJSVAL_IS_STRING_IMPL x \<or> EJSVAL_IS_DOUBLE_IMPL x \<or> EJSVAL_IS_SYMBOL_IMPL x) \<and> is_object y
        then bind_m (ToPrimitive env y TO_PRIM_HINT_DEFAULT) (\<lambda>p. ejs_op_eq env x p) h
      else if is_object x \<and> (EJSVAL_IS_STRING_IMPL y \<or> EJSVAL_IS_DOUBLE_IMPL y \<or> EJSVAL_IS_SYMBOL_IMPL y)
        then bind_m (ToPrimitive env x TO_PRIM_HINT_DEFAULT) (\<lambda>p. ejs_op_eq env p y) h
      else (Return False, h))"
  by pat_completeness auto

termination
  by (relation "measure (\<lambda>(env, x, y, h). operand_rank x + operand_rank y)")
    (auto intro: rank_converted rank_primitive)

declare ejs_op_eq.simps [simp del]

definition ejs_op_neq :: "'h op_env \<Rightarrow> ejsval \<Rightarrow> ejsval \<Rightarrow> ('h, bool) action" where
  "ejs_op_neq env lhs rhs = bind_m (ejs_op_eq env lhs rhs) (\<lambda>b. return_m (\<not> b))"

section \<open>Order\<close>

definition dbl_le :: "double \<Rightarrow> double \<Rightarrow> bool" where
  "dbl_le d e \<longleftrightarrow> \<not> isnan d \<and> \<not> isnan e \<and> dbl_rank d \<le> dbl_rank e"

text \<open>The four operators differ in the two comparisons only; a text is compared as the result of \<open>ucs2_strcmp\<close> with 0.\<close>

definition relational ::
  "(int \<Rightarrow> bool) \<Rightarrow> (double \<Rightarrow> double \<Rightarrow> bool) \<Rightarrow> 'h op_env \<Rightarrow> ejsval \<Rightarrow> ejsval \<Rightarrow> ('h, bool) action" where
  "relational text_test number_test env lhs rhs =
     bind_m (ToPrimitive env lhs TO_PRIM_HINT_NUMBER) (\<lambda>lprim.
     bind_m (ToPrimitive env rhs TO_PRIM_HINT_NUMBER) (\<lambda>rprim.
     if is_string_type env lprim \<and> is_string_type env rprim then
       option_m (map_option text_test (compare_texts (op_strings env) lprim rprim))
     else
       bind_m (ToNumber_m env lprim) (\<lambda>l.
       bind_m (ToNumber_m env rprim) (\<lambda>r. return_m (number_test l r)))))"

definition ejs_op_lt :: "'h op_env \<Rightarrow> ejsval \<Rightarrow> ejsval \<Rightarrow> ('h, bool) action" where
  "ejs_op_lt = relational (\<lambda>c. c < 0) dbl_lt"

definition ejs_op_le :: "'h op_env \<Rightarrow> ejsval \<Rightarrow> ejsval \<Rightarrow> ('h, bool) action" where
  "ejs_op_le = relational (\<lambda>c. c \<le> 0) dbl_le"

definition ejs_op_gt :: "'h op_env \<Rightarrow> ejsval \<Rightarrow> ejsval \<Rightarrow> ('h, bool) action" where
  "ejs_op_gt = relational (\<lambda>c. c > 0) (\<lambda>l r. dbl_lt r l)"

definition ejs_op_ge :: "'h op_env \<Rightarrow> ejsval \<Rightarrow> ejsval \<Rightarrow> ('h, bool) action" where
  "ejs_op_ge = relational (\<lambda>c. c \<ge> 0) (\<lambda>l r. dbl_le r l)"

section \<open>Shifts\<close>

text \<open>A conversion of a double to an integer type that cannot hold it is undefined, \<open>None\<close>; the shift itself works on the
  word.\<close>

definition c_int_of :: "double \<Rightarrow> int32 option" where
  "c_int_of d =
     (if isnan d \<or> isinf d \<or> dbl_trunc d < - (2 ^ 31) \<or> dbl_trunc d \<ge> 2 ^ 31 then None else Some (word_of_int (dbl_trunc d)))"

definition c_uint_of :: "double \<Rightarrow> uint32 option" where
  "c_uint_of d =
     (if isnan d \<or> isinf d \<or> dbl_trunc d < 0 \<or> dbl_trunc d \<ge> 2 ^ 32 then None else Some (word_of_int (dbl_trunc d)))"

definition shift_operands :: "(double \<Rightarrow> uint32 option) \<Rightarrow> ejsval \<Rightarrow> ejsval \<Rightarrow> (uint32 \<times> nat) option" where
  "shift_operands convert lhs rhs =
     (if EJSVAL_IS_DOUBLE_IMPL lhs \<and> EJSVAL_IS_DOUBLE_IMPL rhs then
        Option.bind (convert lhs) (\<lambda>a. Option.bind (c_uint_of rhs) (\<lambda>k. Some (a, unat (k AND 0x1f))))
      else None)"

definition ejs_op_rsh :: "ejsval \<Rightarrow> ejsval \<Rightarrow> ejsval option" where
  "ejs_op_rsh lhs rhs =
     Option.bind (shift_operands c_int_of lhs rhs) (\<lambda>(a, k). DOUBLE_TO_EJSVAL_IMPL (dbl_of_int (sint (signed_drop_bit k a))))"

definition ejs_op_ursh :: "ejsval \<Rightarrow> ejsval \<Rightarrow> ejsval option" where
  "ejs_op_ursh lhs rhs =
     Option.bind (shift_operands c_uint_of lhs rhs) (\<lambda>(a, k). DOUBLE_TO_EJSVAL_IMPL (dbl_of_int (uint (drop_bit k a))))"

definition ejs_op_lsh :: "ejsval \<Rightarrow> ejsval \<Rightarrow> ejsval option" where
  "ejs_op_lsh lhs rhs =
     Option.bind (shift_operands c_int_of lhs rhs) (\<lambda>(a, k). DOUBLE_TO_EJSVAL_IMPL (dbl_of_int (sint (push_bit k a))))"

definition ejs_op_ulsh :: "ejsval \<Rightarrow> ejsval \<Rightarrow> ejsval option" where
  "ejs_op_ulsh lhs rhs =
     Option.bind (shift_operands c_uint_of lhs rhs) (\<lambda>(a, k). DOUBLE_TO_EJSVAL_IMPL (dbl_of_int (uint (push_bit k a))))"

section \<open>Objects\<close>

definition ejs_truthy :: "'h op_env \<Rightarrow> ejsval \<Rightarrow> ('h, bool) action" where
  "ejs_truthy env v = option_m (map_option (\<lambda>b. ejs_true = b) (ToBoolean (op_strings env) v))"

definition ejs_op_not :: "'h op_env \<Rightarrow> ejsval \<Rightarrow> ('h, bool) action" where
  "ejs_op_not env v = bind_m (ejs_truthy env v) (\<lambda>b. return_m (\<not> b))"

definition ejs_op_delete :: "'h op_env \<Rightarrow> ejsval \<Rightarrow> ejsval \<Rightarrow> ('h, bool) action" where
  "ejs_op_delete env obj prop = op_Delete (table_of env obj) obj prop False"

definition ejs_op_in :: "'h op_env \<Rightarrow> ejsval \<Rightarrow> ejsval \<Rightarrow> ('h, bool) action" where
  "ejs_op_in env lhs rhs =
     (if \<not> is_object rhs then throw_m TypeError
      else bind_m (key_string_of env lhs) (\<lambda>key. op_HasProperty (table_of env rhs) rhs key))"

text \<open>The loop along the prototype chain of \<open>O\<close>; \<open>None\<close> when it does not end.\<close>

partial_function (option) has_instance_loop :: "'h op_env \<Rightarrow> ejsval \<Rightarrow> ejsval \<Rightarrow> 'h \<Rightarrow> (bool outcome \<times> 'h) option" where
  "has_instance_loop env P O' h =
     (case op_GetPrototypeOf (table_of env O') O' h of
        (Return O', h) \<Rightarrow>
          if EJSVAL_IS_NULL_IMPL O' then Some (Return False, h)
          else (case SameValue (op_strings env) P O' of
                  None \<Rightarrow> Some (Aborts, h)
                | Some same \<Rightarrow> if same then Some (Return True, h) else has_instance_loop env P O' h)
      | (Throws e, h) \<Rightarrow> Some (Throws e, h)
      | (Aborts, h) \<Rightarrow> Some (Aborts, h))"

definition OrdinaryHasInstance :: "'h op_env \<Rightarrow> ejsval \<Rightarrow> ejsval \<Rightarrow> 'h \<Rightarrow> (bool outcome \<times> 'h) option" where
  "OrdinaryHasInstance env C O' h =
     (if \<not> (is_object C \<and> callable_op env C h) then Some (Return False, h)
      else if bound_function env C then Some (Aborts, h)
      else if \<not> is_object O' then Some (Return False, h)
      else case get_prop env C ''prototype'' h of
        (Return P, h) \<Rightarrow> if \<not> is_object P then Some (Throws TypeError, h) else has_instance_loop env P O' h
      | (Throws e, h) \<Rightarrow> Some (Throws e, h)
      | (Aborts, h) \<Rightarrow> Some (Aborts, h))"

definition ejs_op_instanceof :: "'h op_env \<Rightarrow> ejsval \<Rightarrow> ejsval \<Rightarrow> 'h \<Rightarrow> (bool outcome \<times> 'h) option" where
  "ejs_op_instanceof env O' C h =
     (if \<not> is_object C then Some (Throws TypeError, h)
      else case GetMethod_m env C ''@@hasInstance'' h of
        (Return instOfHandler, h) \<Rightarrow>
          if \<not> EJSVAL_IS_UNDEFINED_IMPL instOfHandler then
            Some (bind_m (invoke_op env instOfHandler C [O']) (\<lambda>result. option_m (ToEJSBool (op_strings env) result)) h)
          else if \<not> (is_object C \<and> callable_op env C h) then Some (Throws TypeError, h)
          else OrdinaryHasInstance env C O' h
      | (Throws e, h) \<Rightarrow> Some (Throws e, h)
      | (Aborts, h) \<Rightarrow> Some (Aborts, h))"

section \<open>Iterators\<close>

definition CheckIterable :: "'h op_env \<Rightarrow> ejsval \<Rightarrow> ('h, ejsval) action" where
  "CheckIterable env obj = (if \<not> is_object obj then return_m ejs_undefined else get_prop env obj ''@@iterator'')"

definition GetIterator :: "'h op_env \<Rightarrow> ejsval \<Rightarrow> ejsval \<Rightarrow> ('h, ejsval) action" where
  "GetIterator env obj meth =
     bind_m (if EJSVAL_IS_UNDEFINED_IMPL meth then CheckIterable env obj else return_m meth) (\<lambda>meth.
     bind_m (IsCallable_m env meth) (\<lambda>c.
     if \<not> c then throw_m TypeError
     else bind_m (invoke_op env meth obj []) (\<lambda>iterator.
       if \<not> is_object iterator then throw_m TypeError else return_m iterator)))"

definition IteratorNext :: "'h op_env \<Rightarrow> ejsval \<Rightarrow> ejsval \<Rightarrow> ('h, ejsval) action" where
  "IteratorNext env iterator value =
     bind_m (get_prop env iterator ''next'') (\<lambda>next_method.
     bind_m (invoke_op env next_method iterator (if EJSVAL_IS_UNDEFINED_IMPL value then [] else [value])) (\<lambda>result.
       if \<not> is_object result then throw_m TypeError else return_m result))"

definition IteratorComplete :: "'h op_env \<Rightarrow> ejsval \<Rightarrow> ('h, bool) action" where
  "IteratorComplete env iterResult =
     (if \<not> is_object iterResult then throw_m TypeError
      else bind_m (get_prop env iterResult ''done'') (\<lambda>done'. option_m (ToEJSBool (op_strings env) done')))"

definition IteratorValue :: "'h op_env \<Rightarrow> ejsval \<Rightarrow> ('h, ejsval) action" where
  "IteratorValue env iterResult =
     (if \<not> is_object iterResult then throw_m TypeError else get_prop env iterResult ''value'')"

definition IteratorStep :: "'h op_env \<Rightarrow> ejsval \<Rightarrow> ('h, ejsval) action" where
  "IteratorStep env iterator =
     bind_m (IteratorNext env iterator ejs_undefined) (\<lambda>result.
     bind_m (IteratorComplete env result) (\<lambda>done'. return_m (if done' then ejs_false else result)))"

definition IteratorClose :: "'h op_env \<Rightarrow> ejsval \<Rightarrow> ejsval \<Rightarrow> bool \<Rightarrow> ('h, ejsval) action" where
  "IteratorClose env iterator completion completionIsThrow =
     bind_m (GetMethod_m env iterator ''return'') (\<lambda>ret.
     if EJSVAL_IS_UNDEFINED_IMPL ret then
       (if completionIsThrow then throw_m (throw_value env completion) else return_m completion)
     else
       bind_m (invoke_op env ret iterator []) (\<lambda>innerResult.
       if completionIsThrow then throw_m (throw_value env completion)
       else if \<not> is_object innerResult then throw_m TypeError
       else return_m completion))"

end
