(* ===== verification/OperatorLaws.thy ===== *)
theory OperatorLaws
  imports Operators ArrayLaws
begin

text \<open>
  What the operators of \<open>Operators\<close> guarantee: loose equality with null and undefined, the answer of \<open>instanceof\<close> on
  ordinary objects, and the shifts as arithmetic on 32-bit integers.
\<close>

section \<open>Equality with null and undefined\<close>

definition nullish :: "ejsval \<Rightarrow> bool" where
  "nullish v \<longleftrightarrow> EJSVAL_IS_NULL_IMPL v \<or> EJSVAL_IS_UNDEFINED_IMPL v"

definition nullish_tag :: "ejsval \<Rightarrow> bool" where
  "nullish_tag v \<longleftrightarrow> drop_bit 47 v = 0x1FFF2 \<or> drop_bit 47 v = 0x1FFF7"

lemma nullish_has_tag: "nullish v \<Longrightarrow> nullish_tag v"
  using is_undefined_tag is_null_tag unfolding nullish_def nullish_tag_def by blast

lemma nullish_kinds:
  assumes "nullish v"
  shows "\<not> is_object v" "\<not> EJSVAL_IS_DOUBLE_IMPL v" "\<not> EJSVAL_IS_STRING_IMPL v" "\<not> EJSVAL_IS_BOOLEAN_IMPL v"
    "\<not> EJSVAL_IS_SYMBOL_IMPL v"
  using nullish_has_tag [OF assms] not_double_tag [of v] by (auto simp: nullish_tag_def tag_facts)

lemma eq_nullish_pair:
  assumes "nullish x" "nullish y"
  shows "ejs_op_eq env x y h = (Return True, h)"
proof (cases "EJSVAL_TO_TAG x = EJSVAL_TO_TAG y")
  case True
  then have "ejs_op_strict_eq (op_strings env) x y = Some True"
    using assms(1) by (auto simp: ejs_op_strict_eq_def nullish_def)
  then show ?thesis using True by (simp add: ejs_op_eq.simps)
next
  case False
  then have "\<not> (EJSVAL_IS_NULL_IMPL x \<and> EJSVAL_IS_NULL_IMPL y)" "\<not> (EJSVAL_IS_UNDEFINED_IMPL x \<and> EJSVAL_IS_UNDEFINED_IMPL y)"
    by (auto simp: EJSVAL_IS_NULL_IMPL_def EJSVAL_IS_UNDEFINED_IMPL_def)
  then show ?thesis using assms False by (subst ejs_op_eq.simps) (auto simp: nullish_def)
qed

lemma eq_nullish_differs:
  assumes "\<not> nullish_tag x" "nullish n" "\<not> EJSVAL_IS_BOOLEAN_IMPL x"
  shows "ejs_op_eq env x n h = (Return False, h)" "ejs_op_eq env n x h = (Return False, h)"
proof -
  have t: "EJSVAL_TO_TAG x \<noteq> EJSVAL_TO_TAG n"
    using assms(1) nullish_has_tag [OF assms(2)] by (auto simp: to_tag_eq nullish_tag_def)
  have x: "\<not> EJSVAL_IS_NULL_IMPL x" "\<not> EJSVAL_IS_UNDEFINED_IMPL x"
    using assms(1) nullish_has_tag [of x] by (auto simp: nullish_def)
  show "ejs_op_eq env x n h = (Return False, h)"
    using t x nullish_kinds [OF assms(2)] assms(3) by (subst ejs_op_eq.simps) simp
  show "ejs_op_eq env n x h = (Return False, h)"
    using t [symmetric] x nullish_kinds [OF assms(2)] assms(3) by (subst ejs_op_eq.simps) simp
qed

lemma number_not_nullish: "n \<in> {ejs_zero, ejs_one} \<Longrightarrow> \<not> nullish_tag n \<and> \<not> EJSVAL_IS_BOOLEAN_IMPL n"
  by (auto simp: ejs_zero_def ejs_one_def nullish_tag_def tag_facts)

lemma eq_nullish_boolean:
  assumes "EJSVAL_IS_BOOLEAN_IMPL x" "nullish n"
  shows "ejs_op_eq env x n h = (Return False, h)" "ejs_op_eq env n x h = (Return False, h)"
proof -
  obtain b where b: "primitive_number env x = Return b" "b \<in> {ejs_zero, ejs_one}"
    using number_of_boolean [OF assms(1)] by blast
  have xt: "drop_bit 47 x = 0x1FFF3" using assms(1) by (simp add: tag_facts)
  then have o: "\<not> is_object x" "\<not> EJSVAL_IS_NULL_IMPL x" "\<not> EJSVAL_IS_UNDEFINED_IMPL x" "\<not> EJSVAL_IS_STRING_IMPL x"
    "\<not> EJSVAL_IS_DOUBLE_IMPL x"
    using not_double_tag [of x] is_undefined_tag [of x] is_null_tag [of x] by (auto simp: tag_facts)
  then have c: "ToNumber_m env x h = (Return b, h)" using b by (simp add: ToNumber_m_def outcome_m_def)
  have t: "EJSVAL_TO_TAG x \<noteq> EJSVAL_TO_TAG n"
    using xt nullish_has_tag [OF assms(2)] by (auto simp: to_tag_eq nullish_tag_def)
  note r = eq_nullish_differs [OF _ assms(2), of b env h] number_not_nullish [OF b(2)]
  show "ejs_op_eq env x n h = (Return False, h)"
    using t o nullish_kinds [OF assms(2)] assms(1) r by (subst ejs_op_eq.simps) (simp add: bind_m_def c)
  show "ejs_op_eq env n x h = (Return False, h)"
    using t [symmetric] o nullish_kinds [OF assms(2)] assms(1) r by (subst ejs_op_eq.simps) (simp add: bind_m_def c)
qed

lemma encoded_nullish:
  assumes "encode v = Some x"
  shows "nullish x \<longleftrightarrow> v = Null \<or> v = Undefined" "nullish_tag x \<longleftrightarrow> v = Null \<or> v = Undefined"
proof -
  show "nullish x \<longleftrightarrow> v = Null \<or> v = Undefined"
    using encode_undefined_null [OF assms] by (auto simp: nullish_def)
  show "nullish_tag x \<longleftrightarrow> v = Null \<or> v = Undefined"
    using encode_tag_iff [OF assms] by (cases v) (auto simp: nullish_tag_def word_le_iff_unat)
qed

text \<open>\<open>==\<close> with null or undefined on either side holds for null and undefined and for no other value; it calls no
  function and leaves the state alone, whatever the methods of the other operand.\<close>

theorem loose_equality_nullish:
  assumes "encode v = Some x" "encode w = Some n" "w = Null \<or> w = Undefined"
  shows "ejs_op_eq env x n h = (Return (v = Null \<or> v = Undefined), h) \<and>
    ejs_op_eq env n x h = (Return (v = Null \<or> v = Undefined), h)"
proof -
  have n: "nullish n" using encoded_nullish(1) [OF assms(2)] assms(3) by simp
  show ?thesis
  proof (cases "v = Null \<or> v = Undefined")
    case True
    then have "nullish x" using encoded_nullish(1) [OF assms(1)] by simp
    then show ?thesis using n True by (simp add: eq_nullish_pair)
  next
    case False
    then have "\<not> nullish_tag x" using encoded_nullish(2) [OF assms(1)] by simp
    then show ?thesis using False
      by (cases "EJSVAL_IS_BOOLEAN_IMPL x") (simp_all add: eq_nullish_differs [OF _ n] eq_nullish_boolean [OF _ n])
  qed
qed

theorem loose_equality_nullish_witness:
  "fst (ejs_op_eq (undefined :: unit op_env) ejs_null ejs_undefined ()) = Return True \<and>
   fst (ejs_op_eq (undefined :: unit op_env) 0xFFFC800000001000 ejs_null ()) = Return False"
proof -
  have e: "encode Null = Some ejs_null" "encode Undefined = Some ejs_undefined" "encode (Object 0x1000) = Some 0xFFFC800000001000"
    by (simp_all add: ejs_null_def ejs_undefined_def OBJECT_TO_EJSVAL_IMPL_def BUILD_EJSVAL_def tag_defs)
  show ?thesis
    using loose_equality_nullish [OF e(1,2), of "undefined :: unit op_env" "()"]
      loose_equality_nullish [OF e(3,1), of "undefined :: unit op_env" "()"] by simp
qed

section \<open>\<open>instanceof\<close>\<close>

lemma has_instance_decides:
  assumes "\<forall>v. table_of env v = Object_specops (op_strings env) index_key invoke" "object_ref P"
    and "chain_ends h v" "object_ref v"
  shows "has_instance_loop env P v h = Some (Return (on_chain h (proto (the_object h v)) P), h)"
  using assms(3,4)
proof induction
  case (step v)
  let ?p = "proto (the_object h v)"
  have r: "op_GetPrototypeOf (table_of env v) v h = (Return ?p, h)"
    using assms(1) step.hyps(1) by (simp add: Object_specops_def ejs_object_specop_get_prototype_of_def)
  show ?case
  proof (cases "EJSVAL_IS_NULL_IMPL ?p")
    case True
    then show ?thesis using r null_chain [OF True] by (subst has_instance_loop.simps) simp
  next
    case False
    then have p: "object_ref ?p" using chain_ends_ref [OF step.hyps(2)] by blast
    have "SameValue (op_strings env) P ?p = Some (P = ?p)" using p assms(2) by (simp add: same_value_refs)
    then show ?thesis using r False p step.IH [OF p] on_chain_simps [of h ?p P]
      by (subst has_instance_loop.simps) auto
  qed
qed simp

text \<open>C39: \<open>O instanceof C\<close> for an object \<open>O\<close> and a function \<open>C\<close> that is not a bound function, whose \<open>Symbol.hasInstance\<close>
  reads as undefined and whose \<open>prototype\<close> reads as an object, without side effects, where objects have the internal
  methods of ordinary ones and no prototype chain is cyclic: the operator returns, changes nothing, and answers whether
  \<open>C.prototype\<close> is on the chain of \<open>O\<close>, \<open>O\<close> itself excluded.\<close>

theorem instanceof_decides:
  assumes "\<forall>v. table_of env v = Object_specops (op_strings env) index_key invoke" "acyclic_protos h"
    and "object_ref C" "callable_op env C h" "\<not> bound_function env C"
    and "get_prop env C ''@@hasInstance'' h = (Return ejs_undefined, h)" "get_prop env C ''prototype'' h = (Return P, h)"
    and "object_ref P" "object_ref v"
  shows "ejs_op_instanceof env v C h = Some (Return (on_chain h (proto (the_object h v)) P), h)"
proof -
  have u: "EJSVAL_IS_UNDEFINED_IMPL ejs_undefined" by (simp add: ejs_undefined_def EJSVAL_IS_UNDEFINED_IMPL_def undefined_null_forms)
  have "\<not> EJSVAL_IS_UNDEFINED_IMPL C" using assms(3) is_undefined_tag [of C] by (auto simp: object_ref_def)
  then have m: "GetMethod_m env C ''@@hasInstance'' h = (Return ejs_undefined, h)"
    using assms(3,6) u by (simp add: GetMethod_m_def bind_m_def)
  have "has_instance_loop env P v h = Some (Return (on_chain h (proto (the_object h v)) P), h)"
    using has_instance_decides [OF assms(1,8)] assms(2,9) unfolding acyclic_protos_def by blast
  then show ?thesis using m u assms by (simp add: ejs_op_instanceof_def OrdinaryHasInstance_def)
qed

definition instance_env :: "objects op_env" where
  "instance_env =
     \<lparr>get_prop = (\<lambda>v P. return_m (if P = ''prototype'' then 0xFFFC800000002000 else ejs_undefined)),
      callable_op = (\<lambda>_ _. True), invoke_op = (\<lambda>_ _ _. abort_m), op_strings = (\<lambda>_. None), text_number = (\<lambda>_. None),
      op_atom = (\<lambda>_. ejs_undefined), is_string_type = (\<lambda>_. False), bound_function = (\<lambda>_. False),
      table_of = (\<lambda>_. Object_specops (\<lambda>_. None) (\<lambda>_. None) (\<lambda>_ _ _. abort_m)), key_string_of = return_m,
      throw_value = (\<lambda>_. TypeError)\<rparr>"

definition instance_heap :: objects where
  "instance_heap p =
     \<lparr>proto = (if p = 0x1000 then 0xFFFC800000002000 else ejs_null), props = [], extensible = True\<rparr>"

theorem instanceof_decides_witness:
  "ejs_op_instanceof instance_env 0xFFFC800000001000 0xFFFC800000003000 instance_heap = Some (Return True, instance_heap) \<and>
   ejs_op_instanceof instance_env 0xFFFC800000002000 0xFFFC800000003000 instance_heap = Some (Return False, instance_heap)"
proof -
  let ?h = instance_heap
  have r: "object_ref 0xFFFC800000001000" "object_ref 0xFFFC800000002000" "object_ref 0xFFFC800000003000"
    by (simp_all add: object_ref_def)
  have n: "EJSVAL_IS_NULL_IMPL ejs_null" by (simp add: ejs_null_def EJSVAL_IS_NULL_IMPL_def undefined_null_forms)
  have p: "proto (the_object ?h v) = (if EJSVAL_TO_OBJECT_IMPL v = 0x1000 then 0xFFFC800000002000 else ejs_null)" for v
    by (simp add: instance_heap_def)
  have t: "EJSVAL_TO_OBJECT_IMPL 0xFFFC800000001000 = 0x1000" "EJSVAL_TO_OBJECT_IMPL 0xFFFC800000002000 = 0x2000"
    by code_simp+
  have "proto (the_object ?h 0xFFFC800000002000) = ejs_null" by (simp add: instance_heap_def t(2))
  then have "chain_ends ?h 0xFFFC800000002000" using chain_ends.step [OF r(2), of ?h] chain_ends.null [OF n] by simp
  moreover have "chain_ends ?h ejs_null" by (rule chain_ends.null [OF n])
  ultimately have "chain_ends ?h (proto (the_object ?h v))" for v unfolding p by simp
  then have acy: "acyclic_protos ?h" using chain_ends.step unfolding acyclic_protos_def by blast
  have c: "on_chain ?h (proto (the_object ?h 0xFFFC800000001000)) 0xFFFC800000002000"
    "\<not> on_chain ?h (proto (the_object ?h 0xFFFC800000002000)) 0xFFFC800000002000"
    using r(2) on_chain.here null_chain [OF n] by (simp_all add: instance_heap_def t)
  have env: "\<forall>v. table_of instance_env v = Object_specops (op_strings instance_env) (\<lambda>_. None) (\<lambda>_ _ _. abort_m)"
    "callable_op instance_env 0xFFFC800000003000 ?h" "\<not> bound_function instance_env 0xFFFC800000003000"
    "get_prop instance_env 0xFFFC800000003000 ''@@hasInstance'' ?h = (Return ejs_undefined, ?h)"
    "get_prop instance_env 0xFFFC800000003000 ''prototype'' ?h = (Return 0xFFFC800000002000, ?h)"
    by (simp_all add: instance_env_def)
  show ?thesis
    using instanceof_decides [OF env(1) acy r(3) env(2-5) r(2) r(1)] instanceof_decides [OF env(1) acy r(3) env(2-5) r(2) r(2)] c
    by simp
qed

section \<open>Shifts\<close>

lemma shift_count:
  assumes "0 \<le> k" "k < 2 ^ 32"
  shows "unat ((word_of_int k :: uint32) AND 0x1f) = nat (k mod 32)"
proof -
  have "(word_of_int k :: uint32) AND 0x1f = take_bit 5 (word_of_int k)" by (simp add: take_bit_eq_mask mask_eq_exp_minus_1)
  moreover have "uint (take_bit 5 (word_of_int k :: uint32)) = k mod 32"
    using assms by (simp only: unsigned_take_bit_eq uint_word_of_int) (simp add: take_bit_eq_mod)
  ultimately show ?thesis by (simp add: unat_eq_nat_uint)
qed

lemma shift_number: "\<bar>i\<bar> < 2 ^ 53 \<Longrightarrow> DOUBLE_TO_EJSVAL_IMPL (dbl_of_int i) = Some (int_value i)"
  using int_value_facts(1) [of i] by (simp add: DOUBLE_TO_EJSVAL_IMPL_def EJSVAL_IS_DOUBLE_IMPL_def int_value_def)

lemma c_int_of_value:
  "- (2 ^ 31) \<le> a \<Longrightarrow> a < 2 ^ 31 \<Longrightarrow> c_int_of (int_value a) = Some (word_of_int a)"
  "0 \<le> k \<Longrightarrow> k < 2 ^ 32 \<Longrightarrow> c_uint_of (int_value k) = Some (word_of_int k)"
  "- (2 ^ 31) \<le> a \<Longrightarrow> a < 0 \<Longrightarrow> c_uint_of (int_value a) = None"
  using of_int_finite [of a] trunc_of_int [of a] of_int_finite [of k] trunc_of_int [of k]
  by (auto simp: c_int_of_def c_uint_of_def int_value_def)

lemma shift_operands_int:
  assumes "\<bar>a\<bar> < 2 ^ 53" "0 \<le> k" "k < 2 ^ 32"
  shows "shift_operands conv (int_value a) (int_value k) = map_option (\<lambda>w. (w, nat (k mod 32))) (conv (int_value a))"
  using int_value_facts(1) [of a] int_value_facts(1) [of k] assms c_int_of_value(2) [OF assms(2,3)] shift_count [OF assms(2,3)]
  by (cases "conv (int_value a)") (simp_all add: shift_operands_def)

text \<open>The shifts of a 32-bit integer: the count is taken modulo 32, \<open>>>\<close> divides and rounds down, \<open><<\<close> multiplies and
  wraps to the signed range; \<open>>>>\<close> divides for an integer that is not negative, and has no defined result for a negative
  one, where the C conversion to an unsigned type is out of range.\<close>

theorem shifts_of_integers:
  assumes "- (2 ^ 31) \<le> a" "a < 2 ^ 31" "0 \<le> k" "k < 2 ^ 32"
  shows "ejs_op_rsh (int_value a) (int_value k) = Some (int_value (a div 2 ^ nat (k mod 32))) \<and>
    ejs_op_lsh (int_value a) (int_value k) = Some (int_value (signed_take_bit 31 (a * 2 ^ nat (k mod 32)))) \<and>
    ejs_op_ursh (int_value a) (int_value k) = (if a < 0 then None else Some (int_value (a div 2 ^ nat (k mod 32))))"
proof -
  let ?n = "nat (k mod 32)" and ?w = "word_of_int a :: int32"
  have a: "\<bar>a\<bar> < 2 ^ 53" using assms(1,2) by auto
  note ops = shift_operands_int [OF a assms(3,4)] c_int_of_value(1) [OF assms(1,2)]
  have s: "sint ?w = a" using assms(1,2) by (simp add: sint_sbintrunc' signed_take_bit_int_eq_self)
  have small: "\<bar>sint (w :: int32)\<bar> < 2 ^ 53" "\<bar>uint (w :: int32)\<bar> < 2 ^ 53" for w
    using sint_greater_eq [of w] sint_less [of w] uint_bounded [of w] by auto
  have "sint (signed_drop_bit ?n ?w) = a div 2 ^ ?n" using s by (simp add: sint_signed_drop_bit_eq drop_bit_eq_div)
  then have r: "ejs_op_rsh (int_value a) (int_value k) = Some (int_value (a div 2 ^ ?n))"
    using ops shift_number [OF small(1), of "signed_drop_bit ?n ?w"] by (simp add: ejs_op_rsh_def)
  have "push_bit ?n ?w = word_of_int (a * 2 ^ ?n)" by (simp add: push_bit_eq_mult)
  then have "sint (push_bit ?n ?w) = signed_take_bit 31 (a * 2 ^ ?n)"
    by (simp only: sint_sbintrunc') simp
  then have l: "ejs_op_lsh (int_value a) (int_value k) = Some (int_value (signed_take_bit 31 (a * 2 ^ ?n)))"
    using ops shift_number [OF small(1), of "push_bit ?n ?w"] by (simp add: ejs_op_lsh_def)
  have "uint (drop_bit ?n (word_of_int a :: uint32)) = a div 2 ^ ?n" if "0 \<le> a"
    using that assms(2) unfolding unsigned_drop_bit_eq uint_word_of_int by (simp add: drop_bit_eq_div take_bit_int_eq_self)
  then have "ejs_op_ursh (int_value a) (int_value k) = (if a < 0 then None else Some (int_value (a div 2 ^ ?n)))"
    using ops c_int_of_value(2) [of a] c_int_of_value(3) [OF assms(1)] assms(2)
      shift_number [OF small(2), of "drop_bit ?n (word_of_int a)"]
    by (cases "a < 0") (simp_all add: ejs_op_ursh_def)
  with r l show ?thesis by blast
qed

theorem shifts_of_integers_witness:
  "ejs_op_rsh (int_value (- 5)) (int_value 33) = Some (int_value (- 3)) \<and>
   ejs_op_lsh (int_value 1073741825) (int_value 1) = Some (int_value (- 2147483646)) \<and>
   ejs_op_ursh (int_value (- 1)) (int_value 0) = None"
  using shifts_of_integers [of "- 5" 33] shifts_of_integers [of 1073741825 1] shifts_of_integers [of "- 1" 0]
  by (simp add: signed_take_bit_eq_if_negative bit_simps)

end
