(* ===== verification/Collections.thy ===== *)
theory Collections
  imports Ops
begin

text \<open>
  Map and Set (\<open>src/runtime/ejs-map.c\<close>, \<open>ejs-set.c\<close>): singly linked lists of entries in insertion order,
  searched with \<open>SameValueZero\<close>.  A removed entry stays in the list with the magic value
  \<open>EJS_NO_ITER_VALUE\<close> as its key.  Entries live in a heap of addresses; the item of an entry is the pair of key
  and value in a Map and the value in a Set.  A loop that does not end, and a comparison that aborts, is
  \<open>None\<close>.
\<close>

section \<open>The structures\<close>

record 'a coll_entry =
  link :: "addr option"
  item :: 'a

text \<open>The heap of entries and the address the next \<open>calloc\<close> returns.\<close>

record 'a coll_heap =
  cell :: "addr \<Rightarrow> 'a coll_entry"
  fresh :: addr

record collection =
  coll_head :: "addr option"
  coll_tail :: "addr option"

type_synonym EJSMap = collection
type_synonym EJSSet = collection
type_synonym map_heap = "(ejsval \<times> ejsval) coll_heap"
type_synonym set_heap = "ejsval coll_heap"

definition ejs_coll_new :: collection where
  "ejs_coll_new = \<lparr>coll_head = None, coll_tail = None\<rparr>"

abbreviation set_item :: "addr \<Rightarrow> 'a \<Rightarrow> 'a coll_heap \<Rightarrow> 'a coll_heap" where
  "set_item a x h \<equiv> h\<lparr>cell := (cell h)(a := (cell h a)\<lparr>item := x\<rparr>)\<rparr>"

definition empty_magic :: ejsval where
  "empty_magic = MAGIC_TO_EJSVAL_IMPL EJS_NO_ITER_VALUE"

section \<open>Loops over the entries\<close>

text \<open>The search loop: the first entry whose test holds.\<close>

partial_function (option) find_entry ::
  "('a \<Rightarrow> bool option) \<Rightarrow> (addr \<Rightarrow> 'a coll_entry) \<Rightarrow> addr option \<Rightarrow> addr option option" where
  "find_entry test c p =
     (case p of
        None \<Rightarrow> Some None
      | Some a \<Rightarrow>
          (case test (item (c a)) of
             None \<Rightarrow> None
           | Some b \<Rightarrow> if b then Some (Some a) else find_entry test c (link (c a))))"

partial_function (option) clear_loop :: "'a \<Rightarrow> addr option \<Rightarrow> 'a coll_heap \<Rightarrow> 'a coll_heap option" where
  "clear_loop x p h =
     (case p of
        None \<Rightarrow> Some h
      | Some a \<Rightarrow> clear_loop x (link (cell h a)) (set_item a x h))"

partial_function (option) size_loop ::
  "('a \<Rightarrow> ejsval) \<Rightarrow> (addr \<Rightarrow> 'a coll_entry) \<Rightarrow> addr option \<Rightarrow> uint32 \<Rightarrow> uint32 option" where
  "size_loop key c p n =
     (case p of
        None \<Rightarrow> Some n
      | Some a \<Rightarrow>
          size_loop key c (link (c a)) (if \<not> EJSVAL_IS_NO_ITER_VALUE_MAGIC (key (item (c a))) then n + 1 else n))"

text \<open>The loop of \<open>forEach\<close>.  The callback is a method over any states that contain the entries: it may change the
  collection while the loop runs, and the loop reads the next link afterwards.\<close>

partial_function (option) each_loop ::
  "('a \<Rightarrow> ejsval) \<Rightarrow> ('s \<Rightarrow> addr \<Rightarrow> 'a coll_entry) \<Rightarrow> ('a \<Rightarrow> 's \<Rightarrow> unit outcome \<times> 's) \<Rightarrow> addr option \<Rightarrow> 's \<Rightarrow>
     (unit outcome \<times> 's) option" where
  "each_loop key c callback p st =
     (case p of
        None \<Rightarrow> Some (Return (), st)
      | Some a \<Rightarrow>
          if EJSVAL_IS_NO_ITER_VALUE_MAGIC (key (item (c st a))) then each_loop key c callback (link (c st a)) st
          else (case callback (item (c st a)) st of
                  (Return _, st) \<Rightarrow> each_loop key c callback (link (c st a)) st
                | (r, st) \<Rightarrow> Some (r, st)))"

text \<open>The loop of an iterator's \<open>next\<close>: skips the entries before the index.\<close>

partial_function (option) next_loop ::
  "('a \<Rightarrow> ejsval) \<Rightarrow> (addr \<Rightarrow> 'a coll_entry) \<Rightarrow> uint32 \<Rightarrow> uint32 \<Rightarrow> addr option \<Rightarrow> 'a option option" where
  "next_loop key c index i p =
     (case p of
        None \<Rightarrow> Some None
      | Some a \<Rightarrow>
          if EJSVAL_IS_NO_ITER_VALUE_MAGIC (key (item (c a))) then next_loop key c index i (link (c a))
          else if index > i then next_loop key c index (i + 1) (link (c a))
          else Some (Some (item (c a))))"

partial_function (option) scan_loop :: "(addr \<Rightarrow> 'a coll_entry) \<Rightarrow> addr option \<Rightarrow> 'a list \<Rightarrow> 'a list option" where
  "scan_loop c p acc =
     (case p of None \<Rightarrow> Some acc | Some a \<Rightarrow> scan_loop c (link (c a)) (acc @ [item (c a)]))"

text \<open>Appending: steps 7 and 8 of \<open>_ejs_map_set\<close> and step 8 of \<open>_ejs_set_add\<close>.\<close>

definition append_entry :: "'a \<Rightarrow> 'a coll_heap \<Rightarrow> collection \<Rightarrow> 'a coll_heap \<times> collection" where
  "append_entry x h m =
     (let p = fresh h;
          h = h\<lparr>cell := (cell h)(p := \<lparr>link = None, item = x\<rparr>), fresh := Suc p\<rparr>;
          m = (if coll_head m = None then m\<lparr>coll_head := Some p\<rparr> else m)
      in case coll_tail m of
           Some t \<Rightarrow> (h\<lparr>cell := (cell h)(t := (cell h t)\<lparr>link := Some p\<rparr>)\<rparr>, m\<lparr>coll_tail := Some p\<rparr>)
         | None \<Rightarrow> (h, m\<lparr>coll_tail := Some p\<rparr>))"

text \<open>Step 6: a negative zero becomes a positive one.\<close>

definition normal_key :: "ejsval \<Rightarrow> ejsval" where
  "normal_key key = (if EJSVAL_IS_NUMBER_IMPL key \<and> EJSDOUBLE_IS_NEGZERO key then 0 else key)"

section \<open>Map\<close>

definition map_test :: "strings \<Rightarrow> ejsval \<Rightarrow> ejsval \<times> ejsval \<Rightarrow> bool option" where
  "map_test strs key kv =
     (if EJSVAL_IS_NO_ITER_VALUE_MAGIC (fst kv) then Some False else SameValueZero strs (fst kv) key)"

definition ejs_map_get :: "strings \<Rightarrow> map_heap \<Rightarrow> EJSMap \<Rightarrow> ejsval \<Rightarrow> ejsval option" where
  "ejs_map_get strs h m key =
     map_option (\<lambda>r. case r of None \<Rightarrow> ejs_undefined | Some a \<Rightarrow> snd (item (cell h a)))
       (find_entry (map_test strs key) (cell h) (coll_head m))"

definition ejs_map_has :: "strings \<Rightarrow> map_heap \<Rightarrow> EJSMap \<Rightarrow> ejsval \<Rightarrow> bool option" where
  "ejs_map_has strs h m key =
     map_option (\<lambda>r. r \<noteq> None) (find_entry (map_test strs key) (cell h) (coll_head m))"

definition ejs_map_set :: "strings \<Rightarrow> map_heap \<Rightarrow> EJSMap \<Rightarrow> ejsval \<Rightarrow> ejsval \<Rightarrow> (map_heap \<times> EJSMap) option" where
  "ejs_map_set strs h m key value =
     (case find_entry (map_test strs key) (cell h) (coll_head m) of
        None \<Rightarrow> None
      | Some (Some p) \<Rightarrow> Some (set_item p (fst (item (cell h p)), value) h, m)
      | Some None \<Rightarrow> Some (append_entry (normal_key key, value) h m))"

definition ejs_map_delete :: "map_heap \<Rightarrow> EJSMap \<Rightarrow> ejsval \<Rightarrow> bool \<times> map_heap" where
  "ejs_map_delete h m key = (False, h)"

definition ejs_Map_prototype_clear :: "map_heap \<Rightarrow> EJSMap \<Rightarrow> map_heap option" where
  "ejs_Map_prototype_clear h m = clear_loop (empty_magic, empty_magic) (coll_head m) h"

definition ejs_Map_prototype_get_size :: "map_heap \<Rightarrow> EJSMap \<Rightarrow> uint32 option" where
  "ejs_Map_prototype_get_size h m = size_loop fst (cell h) (coll_head m) 0"

definition ejs_Map_prototype_forEach ::
  "('s \<Rightarrow> map_heap) \<Rightarrow> EJSMap \<Rightarrow> (ejsval \<Rightarrow> ejsval \<Rightarrow> 's \<Rightarrow> unit outcome \<times> 's) \<Rightarrow> 's \<Rightarrow> (unit outcome \<times> 's) option" where
  "ejs_Map_prototype_forEach heap m callback st =
     each_loop fst (\<lambda>st. cell (heap st)) (\<lambda>(k, v). callback v k) (coll_head m) st"

definition ejs_map_specop_scan :: "map_heap \<Rightarrow> EJSMap \<Rightarrow> ejsval list option" where
  "ejs_map_specop_scan h m = map_option (\<lambda>xs. concat (map (\<lambda>(k, v). [k, v]) xs)) (scan_loop (cell h) (coll_head m) [])"

section \<open>Set\<close>

definition ejs_set_has :: "strings \<Rightarrow> set_heap \<Rightarrow> EJSSet \<Rightarrow> ejsval \<Rightarrow> bool option" where
  "ejs_set_has strs h s value =
     map_option (\<lambda>r. r \<noteq> None) (find_entry (\<lambda>e. SameValueZero strs e value) (cell h) (coll_head s))"

definition ejs_set_add :: "strings \<Rightarrow> set_heap \<Rightarrow> EJSSet \<Rightarrow> ejsval \<Rightarrow> (set_heap \<times> EJSSet) option" where
  "ejs_set_add strs h s value =
     (case find_entry (\<lambda>e. SameValueZero strs e value) (cell h) (coll_head s) of
        None \<Rightarrow> None
      | Some (Some p) \<Rightarrow> Some (h, s)
      | Some None \<Rightarrow> Some (append_entry (normal_key value) h s))"

definition ejs_set_delete :: "strings \<Rightarrow> set_heap \<Rightarrow> EJSSet \<Rightarrow> ejsval \<Rightarrow> (bool \<times> set_heap) option" where
  "ejs_set_delete strs h s value =
     (case find_entry (\<lambda>e. SameValueZero strs e value) (cell h) (coll_head s) of
        None \<Rightarrow> None
      | Some (Some p) \<Rightarrow> Some (True, set_item p empty_magic h)
      | Some None \<Rightarrow> Some (False, h))"

definition ejs_Set_prototype_clear :: "set_heap \<Rightarrow> EJSSet \<Rightarrow> set_heap option" where
  "ejs_Set_prototype_clear h s = clear_loop empty_magic (coll_head s) h"

definition ejs_Set_prototype_get_size :: "set_heap \<Rightarrow> EJSSet \<Rightarrow> uint32 option" where
  "ejs_Set_prototype_get_size h s = size_loop id (cell h) (coll_head s) 0"

definition ejs_Set_prototype_forEach ::
  "('s \<Rightarrow> set_heap) \<Rightarrow> EJSSet \<Rightarrow> (ejsval \<Rightarrow> ejsval \<Rightarrow> 's \<Rightarrow> unit outcome \<times> 's) \<Rightarrow> 's \<Rightarrow> (unit outcome \<times> 's) option" where
  "ejs_Set_prototype_forEach heap s callback st =
     each_loop id (\<lambda>st. cell (heap st)) (\<lambda>v. callback v v) (coll_head s) st"

definition ejs_set_specop_scan :: "set_heap \<Rightarrow> EJSSet \<Rightarrow> ejsval list option" where
  "ejs_set_specop_scan h s = scan_loop (cell h) (coll_head s) []"

section \<open>Iterators\<close>

datatype EJSIteratorKind = KIND_KEY | KIND_VALUE | KIND_KEYVALUE

datatype iter_item = One ejsval | Pair ejsval ejsval

text \<open>\<open>iterated\<close> is \<open>None\<close> once it is set to undefined.\<close>

record EJSCollIterator =
  iterated :: "collection option"
  kind :: EJSIteratorKind
  next_index :: uint32

definition ejs_map_iterator_new :: "EJSMap \<Rightarrow> EJSIteratorKind \<Rightarrow> EJSCollIterator" where
  "ejs_map_iterator_new m k = \<lparr>iterated = Some m, kind = k, next_index = 0\<rparr>"

definition ejs_set_iterator_new :: "EJSSet \<Rightarrow> EJSIteratorKind \<Rightarrow> EJSCollIterator" where
  "ejs_set_iterator_new s k = \<lparr>iterated = Some s, kind = k, next_index = 0\<rparr>"

definition ejs_MapIterator_prototype_next ::
  "map_heap \<Rightarrow> EJSCollIterator \<Rightarrow> (iter_item option \<times> EJSCollIterator) option" where
  "ejs_MapIterator_prototype_next h it =
     (case iterated it of
        None \<Rightarrow> Some (None, it)
      | Some m \<Rightarrow>
          (case next_loop fst (cell h) (next_index it) 0 (coll_head m) of
             None \<Rightarrow> None
           | Some (Some (k, v)) \<Rightarrow>
               Some (Some (case kind it of KIND_KEY \<Rightarrow> One k | KIND_VALUE \<Rightarrow> One v | KIND_KEYVALUE \<Rightarrow> Pair k v),
                 it\<lparr>next_index := next_index it + 1\<rparr>)
           | Some None \<Rightarrow> Some (None, it\<lparr>iterated := None\<rparr>)))"

definition ejs_SetIterator_prototype_next ::
  "set_heap \<Rightarrow> EJSCollIterator \<Rightarrow> (iter_item option \<times> EJSCollIterator) option" where
  "ejs_SetIterator_prototype_next h it =
     (case iterated it of
        None \<Rightarrow> Some (None, it)
      | Some s \<Rightarrow>
          (case next_loop id (cell h) (next_index it) 0 (coll_head s) of
             None \<Rightarrow> None
           | Some (Some e) \<Rightarrow>
               Some (Some (case kind it of KIND_KEYVALUE \<Rightarrow> Pair e e | _ \<Rightarrow> One e), it\<lparr>next_index := next_index it + 1\<rparr>)
           | Some None \<Rightarrow> Some (None, it\<lparr>iterated := None\<rparr>)))"

section \<open>The representation\<close>

definition coll_repr :: "'a coll_heap \<Rightarrow> collection \<Rightarrow> addr list \<Rightarrow> bool" where
  "coll_repr h m xs \<longleftrightarrow> path (\<lambda>a. link (cell h a)) (coll_head m) xs \<and>
     coll_tail m = (if xs = [] then None else Some (last xs)) \<and> (\<forall>a\<in>set xs. a < fresh h)"

abbreviation items :: "'a coll_heap \<Rightarrow> addr list \<Rightarrow> 'a list" where
  "items h xs \<equiv> map (\<lambda>a. item (cell h a)) xs"

abbreviation live :: "('a \<Rightarrow> ejsval) \<Rightarrow> 'a list \<Rightarrow> 'a list" where
  "live key xs \<equiv> filter (\<lambda>x. \<not> EJSVAL_IS_NO_ITER_VALUE_MAGIC (key x)) xs"

lemma find_entry_path:
  assumes "path (\<lambda>a. link (c a)) p xs" "\<And>a. a \<in> set xs \<Longrightarrow> test (item (c a)) = Some (P (item (c a)))"
  shows "find_entry test c p = Some (List.find (\<lambda>a. P (item (c a))) xs)"
  using assms by (induction xs arbitrary: p; subst find_entry.simps) auto

text \<open>A callback called on a list of values, until it throws.\<close>

fun call_each :: "('a \<Rightarrow> 's \<Rightarrow> unit outcome \<times> 's) \<Rightarrow> 'a list \<Rightarrow> 's \<Rightarrow> unit outcome \<times> 's" where
  "call_each callback [] st = (Return (), st)"
| "call_each callback (x # xs) st =
     (case callback x st of (Return _, st) \<Rightarrow> call_each callback xs st | (r, st) \<Rightarrow> (r, st))"

lemma each_loop_path:
  assumes "\<And>x st. c (snd (callback x st)) = c st"
  shows "path (\<lambda>a. link (c st a)) p xs \<Longrightarrow> each_loop key c callback p st =
    Some (call_each callback (live key (map (\<lambda>a. item (c st a)) xs)) st)"
proof (induction xs arbitrary: p st)
  case (Cons a xs)
  have "c st' = c st" if "callback x st = (r, st')" for x r st'
    using assms [of x st] that by simp
  then show ?case using Cons.prems Cons.IH
    by (subst each_loop.simps) (auto split: prod.splits outcome.splits)
qed (simp add: each_loop.simps)

lemma scan_loop_path:
  "path (\<lambda>a. link (c a)) p xs \<Longrightarrow> scan_loop c p acc = Some (acc @ map (\<lambda>a. item (c a)) xs)"
  by (induction xs arbitrary: p acc; subst scan_loop.simps) auto

lemma size_loop_path:
  "path (\<lambda>a. link (c a)) p xs \<Longrightarrow> size_loop key c p n =
     Some (n + word_of_nat (length (live key (map (\<lambda>a. item (c a)) xs))))"
  by (induction xs arbitrary: p n; subst size_loop.simps) (auto simp: algebra_simps)

lemma clear_loop_path:
  "path (\<lambda>a. link (cell h a)) p xs \<Longrightarrow> clear_loop x p h =
     Some (h\<lparr>cell := \<lambda>a. if a \<in> set xs then (cell h a)\<lparr>item := x\<rparr> else cell h a\<rparr>)"
proof (induction xs arbitrary: p h)
  case (Cons a xs)
  let ?h = "set_item a x h"
  have "(\<lambda>b. link (cell ?h b)) = (\<lambda>b. link (cell h b))" by auto
  then have "path (\<lambda>b. link (cell ?h b)) (link (cell h a)) xs" using Cons.prems by (simp only: path.simps)
  from Cons.IH [OF this] show ?case using Cons.prems
    by (subst clear_loop.simps) (auto simp: fun_eq_iff)
qed (simp add: clear_loop.simps)

lemma next_loop_path:
  assumes "path (\<lambda>a. link (c a)) p xs" "i \<le> n" "unat i + length xs < 2 ^ 32"
  shows "next_loop key c n i p =
    Some (let l = live key (map (\<lambda>a. item (c a)) xs); k = unat n - unat i in
          if k < length l then Some (l ! k) else None)"
  using assms
proof (induction xs arbitrary: p i)
  case (Cons a xs)
  show ?case
  proof (cases "EJSVAL_IS_NO_ITER_VALUE_MAGIC (key (item (c a)))")
    case True
    then show ?thesis using Cons by (subst next_loop.simps) auto
  next
    case False
    show ?thesis
    proof (cases "i < n")
      case True
      then have le: "i + 1 \<le> n" by (simp add: inc_le)
      have u: "unat (i + 1) = Suc (unat i)"
        using Cons.prems(3) unat_word_ariths(1) [of i 1] by simp
      have "unat n - unat i = Suc (unat n - unat (i + 1))" using u True by (simp add: word_less_nat_alt)
      then show ?thesis using False True Cons.IH [OF _ le] Cons.prems u
        by (subst next_loop.simps) (simp add: Let_def)
    next
      case f: False
      then have "i = n" using Cons.prems(2) by simp
      then show ?thesis using False Cons.prems by (subst next_loop.simps) auto
    qed
  qed
qed (simp add: next_loop.simps)

end
