(* ===== verification/CollectionLaws.thy ===== *)
theory CollectionLaws
  imports Collections
begin

text \<open>
  What Map and Set promise: an insertion-ordered dictionary and an insertion-ordered set, up to
  \<open>SameValueZero\<close>, and what their iterators return.
\<close>

section \<open>Entries\<close>

lemma coll_repr_distinct: "coll_repr h m xs \<Longrightarrow> distinct xs"
  unfolding coll_repr_def using path_distinct by blast

lemma append_entry_repr:
  assumes "coll_repr h m xs" "append_entry x h m = (h', m')"
  shows "coll_repr h' m' (xs @ [fresh h])" "items h' (xs @ [fresh h]) = items h xs @ [x]"
proof -
  let ?a = "fresh h"
  have new: "?a \<notin> set xs" and path: "path (\<lambda>a. link (cell h a)) (coll_head m) xs"
    using assms(1) by (auto simp: coll_repr_def)
  show "items h' (xs @ [?a]) = items h xs @ [x]" "coll_repr h' m' (xs @ [?a])"
  proof (atomize (full), cases "xs = []")
    case True
    then show "items h' (xs @ [?a]) = items h xs @ [x] \<and> coll_repr h' m' (xs @ [?a])"
      using assms by (auto simp: append_entry_def coll_repr_def Let_def)
  next
    case False
    let ?l = "last xs"
    have l: "?l \<noteq> ?a" using new last_in_set [OF False] by metis
    have mt: "coll_tail m = Some ?l" "coll_head m \<noteq> None"
      using assms(1) False path_hd [OF path] by (simp_all add: coll_repr_def)
    have h': "h' = h\<lparr>cell := (cell h)(?a := \<lparr>link = None, item = x\<rparr>, ?l := (cell h ?l)\<lparr>link := Some ?a\<rparr>),
        fresh := Suc ?a\<rparr>" "m' = m\<lparr>coll_tail := Some ?a\<rparr>"
      using assms(2) l mt by (auto simp: append_entry_def Let_def split: if_splits)
    have "(\<lambda>a. link (cell h' a)) = (\<lambda>a. link (cell h a))(?a := None, ?l := Some ?a)"
      by (auto simp: h' fun_eq_iff)
    then have "path (\<lambda>a. link (cell h' a)) (coll_head m') (xs @ [?a])"
      using path_snoc_old [OF path False new] h'(2) by simp
    moreover have "items h' xs = items h xs" using new by (auto simp: h')
    ultimately show "items h' (xs @ [?a]) = items h xs @ [x] \<and> coll_repr h' m' (xs @ [?a])"
      using assms(1) l by (auto simp: coll_repr_def h' less_Suc_eq)
  qed
qed

lemma set_item_repr: "coll_repr h m xs \<Longrightarrow> coll_repr (set_item a x h) m xs"
proof -
  have "(\<lambda>b. link (cell (set_item a x h) b)) = (\<lambda>b. link (cell h b))" by auto
  then show "coll_repr h m xs \<Longrightarrow> ?thesis" by (simp add: coll_repr_def)
qed

lemma find_split:
  assumes "List.find P xs = Some a" "distinct xs"
  shows "\<exists>ys zs. xs = ys @ a # zs \<and> P a \<and> (\<forall>b\<in>set ys. \<not> P b) \<and> a \<notin> set ys \<and> a \<notin> set zs"
proof -
  obtain i where i: "i < length xs" "P (xs ! i)" "a = xs ! i" "\<forall>j<i. \<not> P (xs ! j)"
    using assms(1) by (auto simp: find_Some_iff)
  have xs: "xs = take i xs @ a # drop (Suc i) xs" using i by (simp add: id_take_nth_drop)
  moreover have "\<forall>b\<in>set (take i xs). \<not> P b" using i by (auto simp: in_set_conv_nth)
  moreover have "a \<notin> set (take i xs)" "a \<notin> set (drop (Suc i) xs)"
    using assms(2) xs by (metis distinct_append distinct.simps(2) disjoint_insert(2) list.simps(15))+
  ultimately show ?thesis using i(2,3) by blast
qed

lemma items_update:
  assumes "xs = ys @ a # zs" "a \<notin> set ys" "a \<notin> set zs"
  shows "items (set_item a x h) xs = items h ys @ x # items h zs"
  using assms by auto

lemma cleared_repr:
  assumes "coll_repr h m xs" and h'_def: "h' = h\<lparr>cell := \<lambda>a. if a \<in> set xs then (cell h a)\<lparr>item := x\<rparr> else cell h a\<rparr>"
  shows "coll_repr h' m xs" "items h' xs = map (\<lambda>_. x) xs"
proof -
  have "(\<lambda>a. link (cell h' a)) = (\<lambda>a. link (cell h a))" by (auto simp: h'_def)
  then show "coll_repr h' m xs" using assms(1) by (simp add: coll_repr_def) (simp add: h'_def)
  show "items h' xs = map (\<lambda>_. x) xs" by (simp add: h'_def)
qed

section \<open>Keys\<close>

text \<open>What a collection asks of its keys: a comparison that decides a classification.\<close>

locale collection_keys =
  fixes ok :: "ejsval \<Rightarrow> bool" and same :: "ejsval \<Rightarrow> ejsval \<Rightarrow> bool option" and cls :: "ejsval \<Rightarrow> 'c"
  assumes same_cls: "ok k \<Longrightarrow> ok l \<Longrightarrow> same k l = Some (cls k = cls l)"
    and ok_live: "ok k \<Longrightarrow> \<not> EJSVAL_IS_NO_ITER_VALUE_MAGIC k"
    and same_empty: "EJSVAL_IS_NO_ITER_VALUE_MAGIC e \<Longrightarrow> ok k \<Longrightarrow> same e k = Some False"
    and normal: "ok k \<Longrightarrow> ok (normal_key k) \<and> cls (normal_key k) = cls k"
begin

text \<open>The search, with and without the test for removed entries.\<close>

lemma find_key:
  assumes "coll_repr h m xs" "\<forall>x\<in>set (live key (items h xs)). ok (key x)" "ok k"
    and "\<And>x. x \<in> set (items h xs) \<Longrightarrow> test x = same (key x) k \<or>
           test x = (if EJSVAL_IS_NO_ITER_VALUE_MAGIC (key x) then Some False else same (key x) k)"
  shows "find_entry test (cell h) (coll_head m) =
    Some (List.find (\<lambda>a. \<not> EJSVAL_IS_NO_ITER_VALUE_MAGIC (key (item (cell h a))) \<and> cls (key (item (cell h a))) = cls k) xs)"
proof (rule find_entry_path)
  show "path (\<lambda>a. link (cell h a)) (coll_head m) xs" using assms(1) by (simp add: coll_repr_def)
  show "test (item (cell h a)) = Some (\<not> EJSVAL_IS_NO_ITER_VALUE_MAGIC (key (item (cell h a))) \<and>
      cls (key (item (cell h a))) = cls k)" if "a \<in> set xs" for a
  proof (cases "EJSVAL_IS_NO_ITER_VALUE_MAGIC (key (item (cell h a)))")
    case True
    then show ?thesis using same_empty [OF True assms(3)] assms(4) [of "item (cell h a)"] that by auto
  next
    case False
    then have "ok (key (item (cell h a)))" using assms(2) that by auto
    then show ?thesis using False same_cls [OF _ assms(3)] assms(4) [of "item (cell h a)"] that by auto
  qed
qed

text \<open>The live items with a key of a class.\<close>

lemma find_live:
  assumes "distinct (map (\<lambda>x. cls (key x)) (live key (items h xs)))" "distinct xs"
  shows "case List.find (\<lambda>a. \<not> EJSVAL_IS_NO_ITER_VALUE_MAGIC (key (item (cell h a))) \<and> cls (key (item (cell h a))) = c) xs of
      None \<Rightarrow> c \<notin> (\<lambda>x. cls (key x)) ` set (live key (items h xs))
    | Some a \<Rightarrow> \<exists>ys zs. xs = ys @ a # zs \<and> a \<notin> set ys \<and> a \<notin> set zs \<and>
        \<not> EJSVAL_IS_NO_ITER_VALUE_MAGIC (key (item (cell h a))) \<and> cls (key (item (cell h a))) = c \<and>
        c \<notin> (\<lambda>x. cls (key x)) ` set (live key (items h ys) @ live key (items h zs))"
proof (cases "List.find (\<lambda>a. \<not> EJSVAL_IS_NO_ITER_VALUE_MAGIC (key (item (cell h a))) \<and> cls (key (item (cell h a))) = c) xs")
  case None
  then have "\<forall>a\<in>set xs. EJSVAL_IS_NO_ITER_VALUE_MAGIC (key (item (cell h a))) \<or> cls (key (item (cell h a))) \<noteq> c"
    by (auto simp: find_None_iff)
  then have "c \<notin> (\<lambda>x. cls (key x)) ` set (live key (items h xs))" by auto
  then show ?thesis using None by simp
next
  case (Some a)
  then obtain ys zs where s: "xs = ys @ a # zs" "a \<notin> set ys" "a \<notin> set zs"
    "\<not> EJSVAL_IS_NO_ITER_VALUE_MAGIC (key (item (cell h a)))" "cls (key (item (cell h a))) = c"
    using find_split [OF Some assms(2)] by blast
  have "c \<notin> (\<lambda>x. cls (key x)) ` set (live key (items h ys) @ live key (items h zs))"
    using assms(1) s(1,4,5) by auto
  with s show ?thesis unfolding Some option.case by blast
qed

end

text \<open>The classes of \<open>SameValueZero\<close>: all NaN are one key, the zeros are one key, strings are compared by their
  characters, objects by identity.\<close>

datatype key_kind = NumberKey "double option" | TextKey "jschar list" | RefKey ejsval

definition key_class :: "strings \<Rightarrow> ejsval \<Rightarrow> key_kind" where
  "key_class strs k =
     (if EJSVAL_IS_DOUBLE_IMPL k then NumberKey (if isnan k then None else Some (if iszero k then 0 else k))
      else if EJSVAL_IS_STRING_IMPL k then TextKey (content (the (strs (EJSVAL_TO_STRING_IMPL k))))
      else RefKey k)"

text \<open>Keys that \<open>SameValueZero\<close> compares properly among each other: numbers, and either strings or objects
  (a string key is compared with any other pointer as if that were a string).\<close>

definition collection_key :: "strings \<Rightarrow> bool \<Rightarrow> ejsval \<Rightarrow> bool" where
  "collection_key strs textual k \<longleftrightarrow> EJSVAL_IS_DOUBLE_IMPL k \<or>
     (if textual then EJSVAL_IS_STRING_IMPL k \<and>
        (case strs (EJSVAL_TO_STRING_IMPL k) of
           Some s \<Rightarrow> wf_str s \<and> flattenable s \<and> 0 \<notin> set (content s) | None \<Rightarrow> False)
      else drop_bit 47 k = 0x1FFF9)"

lemma double_class:
  assumes "EJSVAL_IS_DOUBLE_IMPL k" "EJSVAL_IS_DOUBLE_IMPL l"
  shows "SameValueZero strs k l = Some (key_class strs k = key_class strs l)"
  using assms double_not_tagged [OF assms(1)] iszero_not_nan [of k] iszero_not_nan [of l]
  by (auto simp: SameValueZero_def key_class_def dbl_eq_def iszero_def)

lemma collection_key_tags:
  assumes "collection_key strs textual k" "\<not> EJSVAL_IS_DOUBLE_IMPL k"
  shows "drop_bit 47 k = (if textual then 0x1FFF5 else 0x1FFF9)"
    "EJSVAL_IS_STRING_IMPL k = textual" "\<not> EJSVAL_IS_UNDEFINED_IMPL k" "\<not> EJSVAL_IS_NULL_IMPL k"
    "\<not> EJSVAL_IS_BOOLEAN_IMPL k" "\<not> EJSVAL_IS_SYMBOL_IMPL k" "\<not> EJSVAL_IS_MAGIC_IMPL k"
  using assms is_undefined_tag [of k] is_null_tag [of k] by (auto simp: collection_key_def tag_facts split: if_splits)

lemma empty_not_key:
  assumes "EJSVAL_IS_NO_ITER_VALUE_MAGIC e" "collection_key strs textual k"
  shows "SameValueZero strs e k = Some False"
proof -
  have t: "drop_bit 47 e = 0x1FFF4" using assms(1) by (simp add: EJSVAL_IS_NO_ITER_VALUE_MAGIC_def tag_facts)
  then have e: "\<not> EJSVAL_IS_DOUBLE_IMPL e" "\<not> EJSVAL_IS_UNDEFINED_IMPL e" "\<not> EJSVAL_IS_NULL_IMPL e"
    "\<not> EJSVAL_IS_STRING_IMPL e" "\<not> EJSVAL_IS_BOOLEAN_IMPL e" "\<not> EJSVAL_IS_SYMBOL_IMPL e"
    using not_double_tag [of e] is_undefined_tag [of e] is_null_tag [of e] by (auto simp: tag_facts)
  show ?thesis
  proof (cases "EJSVAL_IS_DOUBLE_IMPL k")
    case True
    then have "drop_bit 47 k \<noteq> 0x1FFF4" using not_double_tag [of k] by auto
    then show ?thesis using True e t by (simp add: SameValueZero_def to_tag_eq)
  next
    case False
    then have "e \<noteq> k" using collection_key_tags(1) [OF assms(2) False] t by (auto split: if_splits)
    then show ?thesis using False e by (simp add: SameValueZero_def)
  qed
qed

lemma mixed_class:
  assumes "EJSVAL_IS_DOUBLE_IMPL k" "\<not> EJSVAL_IS_DOUBLE_IMPL l" "collection_key strs textual l"
  shows "SameValueZero strs k l = Some (key_class strs k = key_class strs l)"
    "SameValueZero strs l k = Some (key_class strs l = key_class strs k)"
proof -
  have "EJSVAL_TO_TAG k \<noteq> EJSVAL_TO_TAG l"
    using collection_key_tags(1) [OF assms(3,2)] not_double_tag [of k] assms(1) by (auto simp: to_tag_eq split: if_splits)
  then show "SameValueZero strs k l = Some (key_class strs k = key_class strs l)"
    "SameValueZero strs l k = Some (key_class strs l = key_class strs k)"
    using assms by (auto simp: SameValueZero_def key_class_def)
qed

lemma same_value_zero_class:
  assumes "collection_key strs textual k" "collection_key strs textual l"
  shows "SameValueZero strs k l = Some (key_class strs k = key_class strs l)"
proof (cases "EJSVAL_IS_DOUBLE_IMPL k \<or> EJSVAL_IS_DOUBLE_IMPL l")
  case True
  then show ?thesis using double_class mixed_class assms by blast
next
  case False
  then have n: "\<not> EJSVAL_IS_DOUBLE_IMPL k" "\<not> EJSVAL_IS_DOUBLE_IMPL l" by auto
  note k = collection_key_tags [OF assms(1) n(1)] and l = collection_key_tags [OF assms(2) n(2)]
  show ?thesis
  proof (cases textual)
    case True
    obtain s t where s: "strs (EJSVAL_TO_STRING_IMPL k) = Some s" "wf_str s" "flattenable s" "0 \<notin> set (content s)"
      and t: "strs (EJSVAL_TO_STRING_IMPL l) = Some t" "wf_str t" "flattenable t" "0 \<notin> set (content t)"
      using assms n True by (auto simp: collection_key_def split: option.splits)
    have c: "0 \<notin> set cs \<Longrightarrow> chars cs = cs" for cs :: "jschar list" by (induction cs) auto
    have "same_text strs k l = Some (content s = content t)"
      using same_text_spec [OF s(1-3) t(1-3)] c [OF s(4)] c [OF t(4)] wf_length [OF s(2)] wf_length [OF t(2)] by auto
    then show ?thesis using k l n True s(1) t(1) by (simp add: SameValueZero_def key_class_def)
  next
    case False
    then show ?thesis using k l n by (simp add: SameValueZero_def key_class_def)
  qed
qed

lemma normal_key_class:
  assumes "collection_key strs textual k"
  shows "collection_key strs textual (normal_key k)" "key_class strs (normal_key k) = key_class strs k"
proof -
  have z: "EJSVAL_IS_DOUBLE_IMPL 0" "\<not> isnan 0" "iszero 0" by (simp_all add: EJSVAL_IS_DOUBLE_IMPL_def iszero_def iszero_not_nan)
  have "EJSVAL_IS_DOUBLE_IMPL k \<and> iszero k" if "EJSVAL_IS_NUMBER_IMPL k" "EJSDOUBLE_IS_NEGZERO k"
  proof -
    have "k = 0x8000000000000000" using that(2) by (simp add: negzero_iff)
    then show ?thesis by (simp add: EJSVAL_IS_DOUBLE_IMPL_def iszero_def tag_defs)
  qed
  then show "collection_key strs textual (normal_key k)" "key_class strs (normal_key k) = key_class strs k"
    using assms z iszero_not_nan [of k] by (auto simp: normal_key_def key_class_def collection_key_def)
qed

interpretation zero_keys: collection_keys "collection_key strs textual" "SameValueZero strs" "key_class strs" for strs textual
proof unfold_locales
  fix k l
  assume k: "collection_key strs textual k"
  show "\<not> EJSVAL_IS_NO_ITER_VALUE_MAGIC k"
    using collection_key_tags(7) [OF k] not_double_tag [of k]
    by (auto simp: EJSVAL_IS_NO_ITER_VALUE_MAGIC_def tag_facts)
  show "collection_key strs textual (normal_key k) \<and> key_class strs (normal_key k) = key_class strs k"
    using normal_key_class [OF k] by blast
qed (auto intro: same_value_zero_class empty_not_key)

section \<open>Map is an insertion-ordered dictionary\<close>

text \<open>The map holds the live pairs \<open>L\<close>, in insertion order.\<close>

definition map_state :: "strings \<Rightarrow> bool \<Rightarrow> map_heap \<Rightarrow> EJSMap \<Rightarrow> (ejsval \<times> ejsval) list \<Rightarrow> bool" where
  "map_state strs textual h m L \<longleftrightarrow>
     (\<exists>xs. coll_repr h m xs \<and> live fst (items h xs) = L) \<and> (\<forall>(k, v)\<in>set L. collection_key strs textual k) \<and>
     distinct (map (\<lambda>(k, v). key_class strs k) L)"

definition dict_lookup :: "strings \<Rightarrow> (ejsval \<times> ejsval) list \<Rightarrow> ejsval \<Rightarrow> ejsval option" where
  "dict_lookup strs L k = map_of (map (\<lambda>(k, v). (key_class strs k, v)) L) (key_class strs k)"

definition dict_set :: "strings \<Rightarrow> (ejsval \<times> ejsval) list \<Rightarrow> ejsval \<Rightarrow> ejsval \<Rightarrow> (ejsval \<times> ejsval) list" where
  "dict_set strs L k v =
     (if key_class strs k \<in> key_class strs ` fst ` set L
      then map (\<lambda>(k', v'). (k', if key_class strs k' = key_class strs k then v else v')) L
      else L @ [(normal_key k, v)])"

lemma map_state_new: "map_state strs textual h ejs_coll_new []"
  by (auto simp: map_state_def coll_repr_def ejs_coll_new_def intro!: exI [of _ "[]"])

lemma map_find:
  assumes "map_state strs textual h m L" "collection_key strs textual k"
  shows "(find_entry (map_test strs k) (cell h) (coll_head m) = Some None \<and> key_class strs k \<notin> key_class strs ` fst ` set L) \<or>
    (\<exists>a A B k' v' xs. find_entry (map_test strs k) (cell h) (coll_head m) = Some (Some a) \<and> item (cell h a) = (k', v') \<and>
       L = A @ (k', v') # B \<and> key_class strs k' = key_class strs k \<and> collection_key strs textual k' \<and>
       key_class strs k \<notin> key_class strs ` fst ` set (A @ B) \<and>
       coll_repr h m xs \<and> (\<forall>v. live fst (items (set_item a (k', v) h) xs) = A @ (k', v) # B))"
proof -
  obtain xs where xs: "coll_repr h m xs" "live fst (items h xs) = L" using assms(1) by (auto simp: map_state_def)
  have d: "distinct (map (\<lambda>x. key_class strs (fst x)) (live fst (items h xs)))" "\<forall>x\<in>set (live fst (items h xs)). collection_key strs textual (fst x)"
    using assms(1) xs(2) by (auto simp: map_state_def case_prod_unfold)
  let ?f = "List.find (\<lambda>a. \<not> EJSVAL_IS_NO_ITER_VALUE_MAGIC (fst (item (cell h a))) \<and>
    key_class strs (fst (item (cell h a))) = key_class strs k) xs"
  have f: "find_entry (map_test strs k) (cell h) (coll_head m) = Some ?f"
    by (rule zero_keys.find_key [OF xs(1) d(2) assms(2)]) (simp add: map_test_def)
  note l = zero_keys.find_live [OF d(1) coll_repr_distinct [OF xs(1)], of "key_class strs k"]
  show ?thesis
  proof (cases ?f)
    case None
    then show ?thesis using f l xs(2) by (auto simp: image_image)
  next
    case (Some a)
    obtain k' v' where kv: "item (cell h a) = (k', v')" by fastforce
    obtain ys zs where s: "xs = ys @ a # zs" "a \<notin> set ys" "a \<notin> set zs" "\<not> EJSVAL_IS_NO_ITER_VALUE_MAGIC k'"
      "key_class strs k' = key_class strs k"
      "key_class strs k \<notin> (\<lambda>x. key_class strs (fst x)) ` set (live fst (items h ys) @ live fst (items h zs))"
      using l unfolding Some option.case kv fst_conv by blast
    have L: "L = live fst (items h ys) @ (k', v') # live fst (items h zs)" using xs(2) s(1,4) kv by simp
    have "live fst (items (set_item a (k', v) h) xs) = live fst (items h ys) @ (k', v) # live fst (items h zs)" for v
      unfolding items_update [OF s(1-3)] using s(4) by simp
    moreover have "collection_key strs textual k'" using d(2) xs(2) L by auto
    moreover have "key_class strs k \<notin> key_class strs ` fst ` set (live fst (items h ys) @ live fst (items h zs))"
      using s(6) by (simp only: image_image not_False_eq_True)
    ultimately have "find_entry (map_test strs k) (cell h) (coll_head m) = Some (Some a) \<and> item (cell h a) = (k', v') \<and>
       L = live fst (items h ys) @ (k', v') # live fst (items h zs) \<and> key_class strs k' = key_class strs k \<and>
       collection_key strs textual k' \<and>
       key_class strs k \<notin> key_class strs ` fst ` set (live fst (items h ys) @ live fst (items h zs)) \<and>
       coll_repr h m xs \<and> (\<forall>v. live fst (items (set_item a (k', v) h) xs) = live fst (items h ys) @ (k', v) # live fst (items h zs))"
      using f Some kv L s(5) xs(1) by simp
    then show ?thesis by blast
  qed
qed

lemma dict_present:
  assumes "L = A @ (k', v') # B" "key_class strs k' = key_class strs k" "key_class strs k \<notin> key_class strs ` fst ` set (A @ B)"
  shows "dict_lookup strs L k = Some v'" "dict_set strs L k v = A @ (k', v) # B"
proof -
  have *: "map (\<lambda>(k', v'). (k', if key_class strs k' = key_class strs k then v else v')) C = C"
    if "key_class strs k \<notin> key_class strs ` fst ` set C" for C :: "(ejsval \<times> ejsval) list"
    using that by (induction C) auto
  have "map_of (map (\<lambda>(k, v). (key_class strs k, v)) A) (key_class strs k) = None"
    using assms(3) by (force simp: map_of_eq_None_iff)
  then show "dict_lookup strs L k = Some v'" using assms(1,2) by (simp add: dict_lookup_def map_add_def)
  show "dict_set strs L k v = A @ (k', v) # B"
    using assms * [of A] * [of B] by (auto simp: dict_set_def)
qed

lemma dict_absent:
  assumes "key_class strs k \<notin> key_class strs ` fst ` set L"
  shows "dict_lookup strs L k = None" "dict_set strs L k v = L @ [(normal_key k, v)]"
  using assms by (force simp: dict_lookup_def dict_set_def map_of_eq_None_iff)+

lemma map_set_state:
  assumes "map_state strs textual h m L" "collection_key strs textual k"
  shows "\<exists>h' m'. ejs_map_set strs h m k v = Some (h', m') \<and> map_state strs textual h' m' (dict_set strs L k v)"
  using map_find [OF assms]
proof (elim disjE exE conjE)
  assume f: "find_entry (map_test strs k) (cell h) (coll_head m) = Some None" and n: "key_class strs k \<notin> key_class strs ` fst ` set L"
  obtain xs where xs: "coll_repr h m xs" "live fst (items h xs) = L" using assms(1) by (auto simp: map_state_def)
  obtain h' m' where app: "append_entry (normal_key k, v) h m = (h', m')" by fastforce
  note r = append_entry_repr [OF xs(1) app] and nk = zero_keys.normal [OF assms(2)]
  have "live fst (items h' (xs @ [fresh h])) = L @ [(normal_key k, v)]"
    unfolding r(2) using xs(2) zero_keys.ok_live [OF conjunct1 [OF nk]] by simp
  then have "map_state strs textual h' m' (L @ [(normal_key k, v)])"
    using assms(1) r(1) nk n unfolding map_state_def by (auto simp: image_image case_prod_unfold)
  then show ?thesis using f app dict_absent [OF n] by (simp add: ejs_map_set_def)
next
  fix a A B k' v' xs
  assume f: "find_entry (map_test strs k) (cell h) (coll_head m) = Some (Some a)" "item (cell h a) = (k', v')"
    and L: "L = A @ (k', v') # B" "key_class strs k' = key_class strs k" "key_class strs k \<notin> key_class strs ` fst ` set (A @ B)"
    and k': "collection_key strs textual k'" and xs: "coll_repr h m xs"
    and items: "\<forall>v. live fst (items (set_item a (k', v) h) xs) = A @ (k', v) # B"
  have "\<exists>xs. coll_repr (set_item a (k', v) h) m xs \<and> live fst (items (set_item a (k', v) h) xs) = A @ (k', v) # B"
    using set_item_repr [OF xs, of a "(k', v)"] items by blast
  then have "map_state strs textual (set_item a (k', v) h) m (A @ (k', v) # B)"
    using assms(1) L(1) unfolding map_state_def by simp
  moreover have "ejs_map_set strs h m k v = Some (set_item a (k', v) h, m)"
    using f by (simp add: ejs_map_set_def)
  ultimately show ?thesis using dict_present(2) [OF L, of v] by (auto simp del: fun_upd_apply)
qed

lemma live_empty [simp]: "live key (map (\<lambda>_. x) xs) = (if EJSVAL_IS_NO_ITER_VALUE_MAGIC (key x) then [] else map (\<lambda>_. x) xs)"
  by (induction xs) auto

lemma empty_magic_empty [simp]: "EJSVAL_IS_NO_ITER_VALUE_MAGIC empty_magic"
  by (simp add: empty_magic_def EJSVAL_IS_NO_ITER_VALUE_MAGIC_def MAGIC_TO_EJSVAL_IMPL_def EJSVAL_IS_MAGIC_IMPL_def
      EJSVAL_TO_INT32_IMPL_def tag_defs)

lemma cleared_live:
  assumes "coll_repr h m xs" "EJSVAL_IS_NO_ITER_VALUE_MAGIC (key x)"
  shows "\<exists>h'. clear_loop x (coll_head m) h = Some h' \<and> coll_repr h' m xs \<and> live key (items h' xs) = []"
proof -
  define h' where h': "h' = h\<lparr>cell := \<lambda>a. if a \<in> set xs then (cell h a)\<lparr>item := x\<rparr> else cell h a\<rparr>"
  have "path (\<lambda>a. link (cell h a)) (coll_head m) xs" using assms(1) by (simp add: coll_repr_def)
  from clear_loop_path [OF this, of x] have "clear_loop x (coll_head m) h = Some h'" by (simp only: h')
  moreover have "live key (items h' xs) = []"
    unfolding cleared_repr(2) [OF assms(1) h'] using assms(2) by simp
  ultimately show ?thesis using cleared_repr(1) [OF assms(1) h'] by blast
qed

lemma map_clear_state:
  assumes "map_state strs textual h m L"
  shows "\<exists>h'. ejs_Map_prototype_clear h m = Some h' \<and> map_state strs textual h' m []"
  using assms cleared_live [of h m _ fst "(empty_magic, empty_magic)"]
  unfolding ejs_Map_prototype_clear_def map_state_def by fastforce

text \<open>C26: Map is an insertion-ordered dictionary for keys that \<open>SameValueZero\<close> compares properly: from a
  map that holds a list of pairs, \<open>get\<close>, \<open>has\<close> and \<open>size\<close> read that list, \<open>forEach\<close> with a callback that
  leaves the entries alone calls it on each value and key in order, up to the first call that throws, \<open>set\<close>
  replaces the value of a present key in place and appends a new one (with a negative zero as zero), \<open>clear\<close>
  empties it; and the collector is told about every key and value.\<close>

theorem map_dictionary:
  assumes "map_state strs textual h m L" "collection_key strs textual k"
  shows "ejs_map_get strs h m k = Some (case dict_lookup strs L k of None \<Rightarrow> ejs_undefined | Some v \<Rightarrow> v) \<and>
    ejs_map_has strs h m k = Some (dict_lookup strs L k \<noteq> None) \<and>
    ejs_Map_prototype_get_size h m = Some (word_of_nat (length L)) \<and>
    ((\<forall>v k st. heap (snd (callback v k st)) = heap st) \<and> heap st = h \<longrightarrow>
       ejs_Map_prototype_forEach heap m callback st = Some (call_each (\<lambda>(k, v). callback v k) L st)) \<and>
    (\<exists>h' m'. ejs_map_set strs h m k v = Some (h', m') \<and> map_state strs textual h' m' (dict_set strs L k v)) \<and>
    (\<exists>h'. ejs_Map_prototype_clear h m = Some h' \<and> map_state strs textual h' m []) \<and>
    (\<exists>vs. ejs_map_specop_scan h m = Some vs \<and> fst ` set L \<union> snd ` set L \<subseteq> set vs)"
proof (intro conjI)
  obtain xs where xs: "coll_repr h m xs" "live fst (items h xs) = L" using assms(1) by (auto simp: map_state_def)
  then have path: "path (\<lambda>a. link (cell h a)) (coll_head m) xs" by (simp add: coll_repr_def)
  show "ejs_Map_prototype_get_size h m = Some (word_of_nat (length L))"
    using size_loop_path [OF path, of fst 0] xs(2) by (simp add: ejs_Map_prototype_get_size_def)
  show "(\<forall>v k st. heap (snd (callback v k st)) = heap st) \<and> heap st = h \<longrightarrow>
      ejs_Map_prototype_forEach heap m callback st = Some (call_each (\<lambda>(k, v). callback v k) L st)"
  proof (intro impI, elim conjE)
    assume cb: "\<forall>v k st. heap (snd (callback v k st)) = heap st" and h: "heap st = h"
    have "cell (heap (snd ((\<lambda>(k, v). callback v k) x t))) = cell (heap t)" for x t using cb by (cases x) simp
    then show "ejs_Map_prototype_forEach heap m callback st = Some (call_each (\<lambda>(k, v). callback v k) L st)"
      using each_loop_path [of "\<lambda>st. cell (heap st)" "\<lambda>(k, v). callback v k" st "coll_head m" xs fst] path xs(2)
      unfolding ejs_Map_prototype_forEach_def h by simp
  qed
  have "set L \<subseteq> set (items h xs)" using xs(2) by auto
  then show "\<exists>vs. ejs_map_specop_scan h m = Some vs \<and> fst ` set L \<union> snd ` set L \<subseteq> set vs"
    using scan_loop_path [OF path, of "[]"] by (force simp: ejs_map_specop_scan_def)
  show "ejs_map_get strs h m k = Some (case dict_lookup strs L k of None \<Rightarrow> ejs_undefined | Some v \<Rightarrow> v)"
    "ejs_map_has strs h m k = Some (dict_lookup strs L k \<noteq> None)"
    using map_find [OF assms] dict_present(1) [of L _ k _ _ strs k] dict_absent(1) [of strs k L]
    by (auto simp: ejs_map_get_def ejs_map_has_def dict_present(1))
qed (rule map_set_state [OF assms], rule map_clear_state [OF assms(1)])

definition sample_coll_heap :: "'a \<Rightarrow> 'a coll_heap" where
  "sample_coll_heap x = \<lparr>cell = (\<lambda>_. \<lparr>link = None, item = x\<rparr>), fresh = 0\<rparr>"

lemma sample_key: "collection_key strs textual 0x8000000000000000" "normal_key 0x8000000000000000 = 0"
  by (simp_all add: collection_key_def normal_key_def EJSVAL_IS_DOUBLE_IMPL_def EJSVAL_IS_NUMBER_IMPL_def tag_defs)

theorem map_dictionary_witness:
  "\<exists>h' m'. ejs_map_set (\<lambda>_. None) (sample_coll_heap (0, 0)) ejs_coll_new 0x8000000000000000 ejs_one = Some (h', m') \<and>
     map_state (\<lambda>_. None) False h' m' [(0, ejs_one)]"
  using map_dictionary [where strs = "\<lambda>_. None" and textual = False and h = "sample_coll_heap (0, 0)" and v = ejs_one
      and heap = id and callback = "\<lambda>_ _ st. (Return (), st)" and st = "sample_coll_heap (0, 0)",
      OF map_state_new sample_key(1)]
  by (simp add: dict_set_def sample_key(2))

section \<open>Set is an insertion-ordered set\<close>

definition set_state :: "strings \<Rightarrow> bool \<Rightarrow> set_heap \<Rightarrow> EJSSet \<Rightarrow> ejsval list \<Rightarrow> bool" where
  "set_state strs textual h s L \<longleftrightarrow>
     (\<exists>xs. coll_repr h s xs \<and> live id (items h xs) = L) \<and> (\<forall>v\<in>set L. collection_key strs textual v) \<and>
     distinct (map (key_class strs) L)"

lemma set_state_new: "set_state strs textual h ejs_coll_new []"
  by (auto simp: set_state_def coll_repr_def ejs_coll_new_def intro!: exI [of _ "[]"])

abbreviation has_class :: "strings \<Rightarrow> ejsval list \<Rightarrow> ejsval \<Rightarrow> bool" where
  "has_class strs L v \<equiv> key_class strs v \<in> key_class strs ` set L"

lemma set_find:
  assumes "set_state strs textual h s L" "collection_key strs textual v"
  shows "(find_entry (\<lambda>e. SameValueZero strs e v) (cell h) (coll_head s) = Some None \<and> \<not> has_class strs L v) \<or>
    (\<exists>a A B v' xs. find_entry (\<lambda>e. SameValueZero strs e v) (cell h) (coll_head s) = Some (Some a) \<and>
       L = A @ v' # B \<and> key_class strs v' = key_class strs v \<and> \<not> has_class strs (A @ B) v \<and>
       coll_repr h s xs \<and> live id (items (set_item a empty_magic h) xs) = A @ B)"
proof -
  obtain xs where xs: "coll_repr h s xs" "live id (items h xs) = L" using assms(1) by (auto simp: set_state_def)
  have d: "distinct (map (\<lambda>x. key_class strs (id x)) (live id (items h xs)))"
    "\<forall>x\<in>set (live id (items h xs)). collection_key strs textual (id x)"
    using assms(1) xs(2) by (auto simp: set_state_def)
  let ?f = "List.find (\<lambda>a. \<not> EJSVAL_IS_NO_ITER_VALUE_MAGIC (id (item (cell h a))) \<and>
    key_class strs (id (item (cell h a))) = key_class strs v) xs"
  have f: "find_entry (\<lambda>e. SameValueZero strs e v) (cell h) (coll_head s) = Some ?f"
    by (rule zero_keys.find_key [OF xs(1) d(2) assms(2)]) simp
  note l = zero_keys.find_live [OF d(1) coll_repr_distinct [OF xs(1)], of "key_class strs v"]
  show ?thesis
  proof (cases ?f)
    case None
    then show ?thesis using f l xs(2) by auto
  next
    case (Some a)
    obtain ys zs where s: "xs = ys @ a # zs" "a \<notin> set ys" "a \<notin> set zs" "\<not> EJSVAL_IS_NO_ITER_VALUE_MAGIC (id (item (cell h a)))"
      "key_class strs (id (item (cell h a))) = key_class strs v"
      "key_class strs v \<notin> (\<lambda>x. key_class strs (id x)) ` set (live id (items h ys) @ live id (items h zs))"
      using l unfolding Some option.case by blast
    have L: "L = live id (items h ys) @ item (cell h a) # live id (items h zs)" using xs(2) s(1,4) by simp
    have u: "live id (items (set_item a empty_magic h) xs) = live id (items h ys) @ live id (items h zs)"
      unfolding items_update [OF s(1-3)] by simp
    have n: "\<not> has_class strs (live id (items h ys) @ live id (items h zs)) v" using s(6) by (simp only: id_apply not_False_eq_True)
    have "key_class strs (item (cell h a)) = key_class strs v" using s(5) by simp
    moreover have "find_entry (\<lambda>e. SameValueZero strs e v) (cell h) (coll_head s) = Some (Some a)"
      using f Some by (simp only:)
    ultimately show ?thesis using L u n xs(1) by blast
  qed
qed

lemma filter_class: "\<not> has_class strs C v \<Longrightarrow> filter (\<lambda>w. key_class strs w \<noteq> key_class strs v) C = C"
  by (intro filter_True) (metis imageI)

lemma set_delete_state:
  assumes "set_state strs textual h s L" "collection_key strs textual v"
  shows "\<exists>h'. ejs_set_delete strs h s v = Some (has_class strs L v, h') \<and>
       set_state strs textual h' s (filter (\<lambda>w. key_class strs w \<noteq> key_class strs v) L)"
  using set_find [OF assms]
proof (elim disjE exE conjE)
  assume "find_entry (\<lambda>e. SameValueZero strs e v) (cell h) (coll_head s) = Some None" "\<not> has_class strs L v"
  moreover then have "filter (\<lambda>w. key_class strs w \<noteq> key_class strs v) L = L" by (intro filter_class)
  ultimately show ?thesis using assms(1) by (simp add: ejs_set_delete_def)
next
  fix a A B v' xs
  assume f: "find_entry (\<lambda>e. SameValueZero strs e v) (cell h) (coll_head s) = Some (Some a)"
    and L: "L = A @ v' # B" "key_class strs v' = key_class strs v" "\<not> has_class strs (A @ B) v"
    and xs: "coll_repr h s xs" "live id (items (set_item a empty_magic h) xs) = A @ B"
  have "filter (\<lambda>w. key_class strs w \<noteq> key_class strs v) (A @ B) = A @ B" using L(3) by (rule filter_class)
  then have "filter (\<lambda>w. key_class strs w \<noteq> key_class strs v) L = A @ B" using L(1,2) by simp
  moreover have "set_state strs textual (set_item a empty_magic h) s (A @ B)"
    unfolding set_state_def using assms(1) L(1) set_item_repr [OF xs(1)] xs(2) by (fastforce simp: set_state_def)
  moreover have "has_class strs L v" using L(1,2) by force
  ultimately show ?thesis using f by (simp add: ejs_set_delete_def)
qed

lemma set_add_state:
  assumes "set_state strs textual h s L" "collection_key strs textual v"
  shows "\<exists>h' s'. ejs_set_add strs h s v = Some (h', s') \<and>
       set_state strs textual h' s' (if has_class strs L v then L else L @ [normal_key v])"
  using set_find [OF assms]
proof (elim disjE exE conjE)
  assume f: "find_entry (\<lambda>e. SameValueZero strs e v) (cell h) (coll_head s) = Some None" and n: "\<not> has_class strs L v"
  obtain xs where xs: "coll_repr h s xs" "live id (items h xs) = L" using assms(1) by (auto simp: set_state_def)
  obtain h' s' where app: "append_entry (normal_key v) h s = (h', s')" by fastforce
  note r = append_entry_repr [OF xs(1) app] and nk = zero_keys.normal [OF assms(2)]
  have "live id (items h' (xs @ [fresh h])) = L @ [normal_key v]"
    unfolding r(2) using xs(2) zero_keys.ok_live [OF conjunct1 [OF nk]] by simp
  then have "set_state strs textual h' s' (L @ [normal_key v])"
    using assms(1) r(1) nk n unfolding set_state_def by auto
  then show ?thesis using f app n by (simp add: ejs_set_add_def)
next
  fix a A B v' xs
  assume f: "find_entry (\<lambda>e. SameValueZero strs e v) (cell h) (coll_head s) = Some (Some a)"
    and L: "L = A @ v' # B" "key_class strs v' = key_class strs v"
  then have "has_class strs L v" by force
  then show ?thesis using f assms(1) by (simp add: ejs_set_add_def)
qed

text \<open>C28: Set is an insertion-ordered set for values that \<open>SameValueZero\<close> compares properly: from a set that
  holds a list of values, \<open>has\<close> and \<open>size\<close> read that list, \<open>forEach\<close> with a callback that leaves the entries
  alone calls it on each value in order, up to the first call that throws, \<open>add\<close> appends a value that is not
  there (a negative zero as zero), \<open>delete\<close> removes the value and reports whether it was there, and
  \<open>clear\<close> empties the set.\<close>

theorem set_collection:
  assumes "set_state strs textual h s L" "collection_key strs textual v"
  shows "ejs_set_has strs h s v = Some (has_class strs L v) \<and>
    ejs_Set_prototype_get_size h s = Some (word_of_nat (length L)) \<and>
    ((\<forall>v k st. heap (snd (callback v k st)) = heap st) \<and> heap st = h \<longrightarrow>
       ejs_Set_prototype_forEach heap s callback st = Some (call_each (\<lambda>v. callback v v) L st)) \<and>
    (\<exists>h' s'. ejs_set_add strs h s v = Some (h', s') \<and>
       set_state strs textual h' s' (if has_class strs L v then L else L @ [normal_key v])) \<and>
    (\<exists>h'. ejs_set_delete strs h s v = Some (has_class strs L v, h') \<and>
       set_state strs textual h' s (filter (\<lambda>w. key_class strs w \<noteq> key_class strs v) L)) \<and>
    (\<exists>h'. ejs_Set_prototype_clear h s = Some h' \<and> set_state strs textual h' s []) \<and>
    (\<exists>vs. ejs_set_specop_scan h s = Some vs \<and> set L \<subseteq> set vs)"
proof (intro conjI)
  obtain xs where xs: "coll_repr h s xs" "live id (items h xs) = L" using assms(1) by (auto simp: set_state_def)
  then have path: "path (\<lambda>a. link (cell h a)) (coll_head s) xs" by (simp add: coll_repr_def)
  show "ejs_Set_prototype_get_size h s = Some (word_of_nat (length L))"
    using size_loop_path [OF path, of id 0] unfolding xs(2) by (simp add: ejs_Set_prototype_get_size_def)
  show "(\<forall>v k st. heap (snd (callback v k st)) = heap st) \<and> heap st = h \<longrightarrow>
      ejs_Set_prototype_forEach heap s callback st = Some (call_each (\<lambda>v. callback v v) L st)"
    using each_loop_path [of "\<lambda>st. cell (heap st)" "\<lambda>v. callback v v" st "coll_head s" xs id] path
    unfolding ejs_Set_prototype_forEach_def xs(2) [symmetric] by auto
  show "\<exists>vs. ejs_set_specop_scan h s = Some vs \<and> set L \<subseteq> set vs"
    using scan_loop_path [OF path, of "[]"] xs(2) by (auto simp: ejs_set_specop_scan_def)
  show "\<exists>h'. ejs_Set_prototype_clear h s = Some h' \<and> set_state strs textual h' s []"
    using cleared_live [OF xs(1), of id empty_magic] by (auto simp: ejs_Set_prototype_clear_def set_state_def)
  show "ejs_set_has strs h s v = Some (has_class strs L v)"
    using set_find [OF assms] by (auto simp: ejs_set_has_def)
  show "\<exists>h'. ejs_set_delete strs h s v = Some (has_class strs L v, h') \<and>
       set_state strs textual h' s (filter (\<lambda>w. key_class strs w \<noteq> key_class strs v) L)"
    by (rule set_delete_state [OF assms])
  show "\<exists>h' s'. ejs_set_add strs h s v = Some (h', s') \<and>
       set_state strs textual h' s' (if has_class strs L v then L else L @ [normal_key v])"
    by (rule set_add_state [OF assms])
qed

theorem set_collection_witness:
  "\<exists>h' s'. ejs_set_add (\<lambda>_. None) (sample_coll_heap 0) ejs_coll_new 0x8000000000000000 = Some (h', s') \<and>
     set_state (\<lambda>_. None) False h' s' [0]"
  using set_collection [where strs = "\<lambda>_. None" and textual = False and h = "sample_coll_heap 0"
      and heap = id and callback = "\<lambda>_ _ st. (Return (), st)" and st = "sample_coll_heap 0",
      OF set_state_new sample_key(1)]
  by (simp add: sample_key(2))

section \<open>Iterators\<close>

text \<open>The results of a number of calls of \<open>next\<close>.\<close>

primrec iter_run :: "('i \<Rightarrow> ('r option \<times> 'i) option) \<Rightarrow> nat \<Rightarrow> 'i \<Rightarrow> 'r option list option" where
  "iter_run nxt 0 it = Some []"
| "iter_run nxt (Suc n) it =
     (case nxt it of None \<Rightarrow> None | Some (r, it) \<Rightarrow> map_option ((#) r) (iter_run nxt n it))"

lemma iter_run_done: "nxt it = Some (None, it) \<Longrightarrow> iter_run nxt n it = Some (replicate n None)"
  by (induction n) auto

text \<open>An iterator that steps through a list, one element for each index, runs through all of it.\<close>

lemma iter_run_list:
  assumes "\<And>i. i < length rs \<Longrightarrow> nxt (at i) = Some (Some (rs ! i), at (Suc i))"
    and "nxt (at (length rs)) = Some (None, ended)" "nxt ended = Some (None, ended)" "i \<le> length rs"
  shows "iter_run nxt (length rs - i + n) (at i) = Some (map Some (drop i rs) @ replicate n None)"
  using assms(4)
proof (induction "length rs - i" arbitrary: i)
  case 0
  then show ?case using assms(2) iter_run_done [of nxt ended, OF assms(3)] by (cases n) auto
next
  case (Suc d)
  then have i: "i < length rs" "d = length rs - Suc i" "Suc i \<le> length rs" by auto
  have "iter_run nxt (length rs - i + n) (at i) = iter_run nxt (Suc (length rs - Suc i + n)) (at i)"
    using i by (simp add: Suc_diff_Suc)
  also have "\<dots> = Some (map Some (drop i rs) @ replicate n None)"
    using assms(1) [OF i(1)] Suc(1) [OF i(2,3)] Cons_nth_drop_Suc [OF i(1)] by simp (metis append_Cons list.simps(9))
  finally show ?case .
qed

definition map_result :: "EJSIteratorKind \<Rightarrow> ejsval \<times> ejsval \<Rightarrow> iter_item" where
  "map_result kd kv = (case kd of KIND_KEY \<Rightarrow> One (fst kv) | KIND_VALUE \<Rightarrow> One (snd kv) | KIND_KEYVALUE \<Rightarrow> Pair (fst kv) (snd kv))"

definition set_result_item :: "EJSIteratorKind \<Rightarrow> ejsval \<Rightarrow> iter_item" where
  "set_result_item kd v = (case kd of KIND_KEYVALUE \<Rightarrow> Pair v v | _ \<Rightarrow> One v)"

lemma next_loop_at:
  assumes "coll_repr h m xs" "length xs < 2 ^ 32" "i < 2 ^ 32" and L_def: "L = live key (items h xs)"
  shows "next_loop key (cell h) (word_of_nat i) 0 (coll_head m) = Some (if i < length L then Some (L ! i) else None)"
proof -
  have u: "unat (word_of_nat i :: uint32) = i" using assms(3) by (simp add: unat_of_nat)
  have "path (\<lambda>a. link (cell h a)) (coll_head m) xs" using assms(1) by (simp add: coll_repr_def)
  from next_loop_path [OF this, of 0 "word_of_nat i" key] show ?thesis using assms(2) u
    by (simp add: L_def Let_def)
qed

lemma live_length: "length (live key (items h xs)) \<le> length xs"
  using length_filter_le [of _ "items h xs"] by simp

abbreviation iter_at :: "collection option \<Rightarrow> EJSIteratorKind \<Rightarrow> nat \<Rightarrow> EJSCollIterator" where
  "iter_at c kd i \<equiv> \<lparr>iterated = c, kind = kd, next_index = word_of_nat i\<rparr>"

lemma map_next_at:
  assumes "coll_repr h m xs" "length xs < 2 ^ 32" "L = live fst (items h xs)" "i \<le> length L"
  shows "ejs_MapIterator_prototype_next h (iter_at (Some m) kd i) =
    Some (if i < length L then (Some (map_result kd (L ! i)), iter_at (Some m) kd (Suc i)) else (None, iter_at None kd i))"
proof -
  have "length L \<le> length xs" unfolding assms(3) by (rule live_length)
  then have i: "i < 2 ^ 32" using assms(2,4) by simp
  show ?thesis using next_loop_at [OF assms(1,2) i assms(3)]
    by (auto simp: ejs_MapIterator_prototype_next_def map_result_def add.commute split: EJSIteratorKind.split prod.split)
qed

lemma set_next_at:
  assumes "coll_repr h s xs" "length xs < 2 ^ 32" "L = live id (items h xs)" "i \<le> length L"
  shows "ejs_SetIterator_prototype_next h (iter_at (Some s) kd i) =
    Some (if i < length L then (Some (set_result_item kd (L ! i)), iter_at (Some s) kd (Suc i)) else (None, iter_at None kd i))"
proof -
  have "length L \<le> length xs" unfolding assms(3) by (rule live_length)
  then have i: "i < 2 ^ 32" using assms(2,4) by simp
  show ?thesis unfolding ejs_SetIterator_prototype_next_def
    by (auto simp: next_loop_at [OF assms(1,2) i assms(3)] set_result_item_def add.commute split: EJSIteratorKind.split)
qed

lemma map_iterator_run:
  assumes "coll_repr h m xs" "length xs < 2 ^ 32" "L = live fst (items h xs)"
  shows "iter_run (ejs_MapIterator_prototype_next h) (length L + n) (ejs_map_iterator_new m kd) =
      Some (map Some (map (map_result kd) L) @ replicate n None)"
  using iter_run_list [of "map (map_result kd) L" "ejs_MapIterator_prototype_next h" "iter_at (Some m) kd"
      "iter_at None kd (length L)" 0 n] map_next_at [OF assms]
  by (simp add: ejs_map_iterator_new_def ejs_MapIterator_prototype_next_def [of _ "iter_at None kd _"])

lemma set_iterator_run:
  assumes "coll_repr h s xs" "length xs < 2 ^ 32" "L = live id (items h xs)"
  shows "iter_run (ejs_SetIterator_prototype_next h) (length L + n) (ejs_set_iterator_new s kd) =
      Some (map Some (map (set_result_item kd) L) @ replicate n None)"
  using iter_run_list [of "map (set_result_item kd) L" "ejs_SetIterator_prototype_next h" "iter_at (Some s) kd"
      "iter_at None kd (length L)" 0 n] set_next_at [OF assms]
  by (simp add: ejs_set_iterator_new_def ejs_SetIterator_prototype_next_def [of _ "iter_at None kd _"])

text \<open>An iterator of a Map or Set that is not changed meanwhile returns every live entry once, in
  insertion order, in the form its kind asks for, and then reports that it is done, on every further call.\<close>

theorem iterators_in_order:
  assumes "coll_repr h m xs" "length xs < 2 ^ 32" "coll_repr g s ys" "length ys < 2 ^ 32"
  shows "iter_run (ejs_MapIterator_prototype_next h) (length (live fst (items h xs)) + n) (ejs_map_iterator_new m kd) =
      Some (map Some (map (map_result kd) (live fst (items h xs))) @ replicate n None) \<and>
    iter_run (ejs_SetIterator_prototype_next g) (length (live id (items g ys)) + n) (ejs_set_iterator_new s kd) =
      Some (map Some (map (set_result_item kd) (live id (items g ys))) @ replicate n None)"
  using map_iterator_run [OF assms(1,2) refl] set_iterator_run [OF assms(3,4) refl] by blast

theorem iterators_in_order_witness:
  "\<exists>h m. iter_run (ejs_MapIterator_prototype_next h) 2 (ejs_map_iterator_new m KIND_VALUE) = Some [Some (One ejs_one), None]"
proof -
  obtain h m where a: "append_entry (0 :: ejsval, ejs_one) (sample_coll_heap (0, 0)) ejs_coll_new = (h, m)" by fastforce
  have r: "coll_repr h m [0]" "items h [0] = [(0, ejs_one)]"
    using append_entry_repr [OF _ a, of "[]"] by (simp_all add: coll_repr_def ejs_coll_new_def sample_coll_heap_def)
  have z: "coll_repr (sample_coll_heap 0) ejs_coll_new []" by (simp add: coll_repr_def ejs_coll_new_def)
  have "\<not> EJSVAL_IS_NO_ITER_VALUE_MAGIC 0"
    by (simp add: EJSVAL_IS_NO_ITER_VALUE_MAGIC_def EJSVAL_IS_MAGIC_IMPL_def tag_defs)
  then have l: "live fst (items h [0]) = [(0, ejs_one)]" unfolding r(2) by simp
  have "iter_run (ejs_MapIterator_prototype_next h) (length (live fst (items h [0])) + 1) (ejs_map_iterator_new m KIND_VALUE) =
      Some (map Some (map (map_result KIND_VALUE) (live fst (items h [0]))) @ replicate 1 None)"
    by (rule conjunct1 [OF iterators_in_order [OF r(1) _ z]]) simp_all
  then show ?thesis unfolding l by (auto simp: map_result_def numeral_2_eq_2)
qed

text \<open>Deleting an element that an iterator has already passed makes it skip one: the index counts the live
  entries only, so when it stands before position \<open>i\<close> and an earlier element is deleted, the next call returns
  the element at position \<open>i + 1\<close>, and the one at \<open>i\<close> is never returned.\<close>

theorem set_iterator_skips:
  assumes "set_state strs textual h s (A @ v # B)" "i = Suc (length A)" "Suc i < length (A @ v # B)"
    and "\<And>xs. coll_repr h s xs \<Longrightarrow> length xs < 2 ^ 32"
  shows "ejs_SetIterator_prototype_next h (iter_at (Some s) KIND_VALUE i) =
      Some (Some (One ((A @ v # B) ! i)), iter_at (Some s) KIND_VALUE (Suc i)) \<and>
    (\<exists>h'. ejs_set_delete strs h s v = Some (True, h') \<and>
       ejs_SetIterator_prototype_next h' (iter_at (Some s) KIND_VALUE i) =
         Some (Some (One ((A @ v # B) ! Suc i)), iter_at (Some s) KIND_VALUE (Suc i)))"
proof
  obtain xs where xs: "coll_repr h s xs" "A @ v # B = live id (items h xs)"
    using assms(1) by (auto simp: set_state_def)
  note n = assms(4) [OF xs(1)]
  show "ejs_SetIterator_prototype_next h (iter_at (Some s) KIND_VALUE i) =
      Some (Some (One ((A @ v # B) ! i)), iter_at (Some s) KIND_VALUE (Suc i))"
    using set_next_at [OF xs(1) n xs(2), of i KIND_VALUE] assms(3) by (simp add: set_result_item_def)
  have v: "collection_key strs textual v" and d: "distinct (map (key_class strs) (A @ v # B))"
    using assms(1) by (auto simp: set_state_def)
  have f: "filter (\<lambda>w. key_class strs w \<noteq> key_class strs v) (A @ v # B) = A @ B"
    using d filter_class [of strs v A] filter_class [of strs v B] by simp
  have "has_class strs (A @ v # B) v" by simp
  then obtain a A' B' v' zs where a: "find_entry (\<lambda>e. SameValueZero strs e v) (cell h) (coll_head s) = Some (Some a)"
    "A @ v # B = A' @ v' # B'" "key_class strs v' = key_class strs v" "\<not> has_class strs (A' @ B') v"
    "coll_repr h s zs" "live id (items (set_item a empty_magic h) zs) = A' @ B'"
    using set_find [OF assms(1) v] by blast
  let ?h = "set_item a empty_magic h"
  have "filter (\<lambda>w. key_class strs w \<noteq> key_class strs v) (A' @ v' # B') = A' @ B'"
    using a(3) filter_class [OF a(4)] by simp
  then have l: "A @ B = live id (items ?h zs)" using f a(2,6) by simp
  have "ejs_set_delete strs h s v = Some (True, ?h)" using a(1) by (simp add: ejs_set_delete_def)
  moreover have "ejs_SetIterator_prototype_next ?h (iter_at (Some s) KIND_VALUE i) =
      Some (Some (One ((A @ B) ! i)), iter_at (Some s) KIND_VALUE (Suc i))"
    using set_next_at [OF set_item_repr [OF a(5)] assms(4) [OF a(5)] l, of i KIND_VALUE] assms(3)
    by (simp add: set_result_item_def)
  moreover have "(A @ B) ! i = (A @ v # B) ! Suc i" using assms(2) by (simp add: nth_append)
  ultimately show "\<exists>h'. ejs_set_delete strs h s v = Some (True, h') \<and>
       ejs_SetIterator_prototype_next h' (iter_at (Some s) KIND_VALUE i) =
         Some (Some (One ((A @ v # B) ! Suc i)), iter_at (Some s) KIND_VALUE (Suc i))"
    by (auto simp del: fun_upd_apply)
qed

text \<open>The set of the numbers 0, 1 and 2.\<close>

definition three_heap :: set_heap where
  "three_heap = \<lparr>cell = (\<lambda>a. \<lparr>link = if a < 2 then Some (Suc a) else None,
     item = [0, 0x3FF0000000000000, 0x4000000000000000] ! a\<rparr>), fresh = 3\<rparr>"

definition three_set :: EJSSet where "three_set = \<lparr>coll_head = Some 0, coll_tail = Some 2\<rparr>"

lemma three_repr: "coll_repr three_heap three_set xs \<longleftrightarrow> xs = [0, 1, 2]"
proof
  have p: "path (\<lambda>a. link (cell three_heap a)) (coll_head three_set) [0, 1, 2]"
    by (simp add: three_heap_def three_set_def)
  then show "coll_repr three_heap three_set xs" if "xs = [0, 1, 2]"
    using that by (auto simp: coll_repr_def three_set_def) (auto simp: three_heap_def)
  show "xs = [0, 1, 2]" if "coll_repr three_heap three_set xs"
    using that path_unique [OF p] by (auto simp: coll_repr_def)
qed

lemma three_state:
  "set_state (\<lambda>_. None) False three_heap three_set ([] @ 0 # [0x3FF0000000000000, 0x4000000000000000])"
proof -
  have i: "items three_heap [0, 1, 2] = [0, 0x3FF0000000000000, 0x4000000000000000]"
    by (simp add: three_heap_def)
  have d: "EJSVAL_IS_DOUBLE_IMPL 0" "EJSVAL_IS_DOUBLE_IMPL 0x3FF0000000000000" "EJSVAL_IS_DOUBLE_IMPL 0x4000000000000000"
    by (simp_all add: EJSVAL_IS_DOUBLE_IMPL_def tag_defs)
  have n: "\<not> EJSVAL_IS_NO_ITER_VALUE_MAGIC 0" "\<not> EJSVAL_IS_NO_ITER_VALUE_MAGIC 0x3FF0000000000000"
    "\<not> EJSVAL_IS_NO_ITER_VALUE_MAGIC 0x4000000000000000"
    by (simp_all add: EJSVAL_IS_NO_ITER_VALUE_MAGIC_def EJSVAL_IS_MAGIC_IMPL_def tag_defs)
  have f: "\<not> isnan 0x3FF0000000000000" "\<not> isnan 0x4000000000000000" "\<not> iszero 0x3FF0000000000000" "\<not> iszero 0x4000000000000000"
    by (simp_all add: isnan_def iszero_def dbl_mant_def mask_eq_exp_minus_1)
  have "live id (items three_heap [0, 1, 2]) = [] @ 0 # [0x3FF0000000000000, 0x4000000000000000]"
    unfolding i using n by simp
  then show ?thesis unfolding set_state_def using three_repr d f
    by (auto simp: collection_key_def key_class_def iszero_def)
qed

theorem set_iterator_skips_witness:
  "\<exists>h'. ejs_set_delete (\<lambda>_. None) three_heap three_set 0 = Some (True, h') \<and>
     ejs_SetIterator_prototype_next h' (iter_at (Some three_set) KIND_VALUE 1) =
       Some (Some (One 0x4000000000000000), iter_at (Some three_set) KIND_VALUE 2)"
proof -
  have l: "length xs < 2 ^ 32" if "coll_repr three_heap three_set xs" for xs using that three_repr by simp
  show ?thesis using set_iterator_skips [OF three_state _ _ l, of 1] by (simp add: numeral_2_eq_2)
qed

end
