(* ===== verification/Promises.thy ===== *)
theory Promises
  imports ObjectLaws
begin

text \<open>
  Promises (\<open>src/runtime/ejs-promise.c\<close>): the states of a promise, its lists of reactions, the resolving
  functions and the tasks they enqueue on the run loop.  The environments of the resolving functions are kept
  in a list; a pair of resolving functions is its index there.  Calls of compiled code are arguments:
  \<open>get_then\<close> is \<open>Get(resolution, "then")\<close>, which may run a getter and hence change the state of the promises, and
  \<open>is_callable\<close> is \<open>IsCallable\<close>.
\<close>

section \<open>The structures\<close>

datatype PromiseState = PROMISE_STATE_UNINITIALIZED | PROMISE_STATE_PENDING | PROMISE_STATE_FULFILLED | PROMISE_STATE_REJECTED

record EJSPromiseReaction =
  capabilities :: ejsval
  handler :: ejsval

record EJSPromise =
  state :: PromiseState
  result :: ejsval
  fulfillReactions :: "EJSPromiseReaction list"
  rejectReactions :: "EJSPromiseReaction list"

datatype promise_task = ReactionTask EJSPromiseReaction ejsval | ResolveThenableTask ejsval ejsval ejsval

record promise_world =
  promises :: "ptr \<Rightarrow> EJSPromise"
  resolving :: "(bool \<times> ejsval) list"
  tasks :: "promise_task list"

abbreviation the_promise :: "promise_world \<Rightarrow> ejsval \<Rightarrow> EJSPromise" where
  "the_promise w p \<equiv> promises w (EJSVAL_TO_OBJECT_IMPL p)"

abbreviation put_promise :: "ejsval \<Rightarrow> EJSPromise \<Rightarrow> promise_world \<Rightarrow> promise_world" where
  "put_promise p pr w \<equiv> w\<lparr>promises := (promises w)(EJSVAL_TO_OBJECT_IMPL p := pr)\<rparr>"

section \<open>The operations\<close>

definition EnqueuePromiseReactionTask :: "EJSPromiseReaction \<Rightarrow> ejsval \<Rightarrow> promise_world \<Rightarrow> promise_world" where
  "EnqueuePromiseReactionTask r v w = w\<lparr>tasks := tasks w @ [ReactionTask r v]\<rparr>"

definition EnqueuePromiseResolveThenableTask :: "ejsval \<Rightarrow> ejsval \<Rightarrow> ejsval \<Rightarrow> promise_world \<Rightarrow> promise_world" where
  "EnqueuePromiseResolveThenableTask p thenable thn w = w\<lparr>tasks := tasks w @ [ResolveThenableTask p thenable thn]\<rparr>"

definition RejectPromise :: "ejsval \<Rightarrow> ejsval \<Rightarrow> promise_world \<Rightarrow> promise_world" where
  "RejectPromise promise reason w =
     (let pr = the_promise w promise; reactions = rejectReactions pr in
      fold (\<lambda>r. EnqueuePromiseReactionTask r reason) reactions
        (put_promise promise (pr\<lparr>result := reason, fulfillReactions := [], state := PROMISE_STATE_REJECTED\<rparr>) w))"

definition FulfillPromise :: "ejsval \<Rightarrow> ejsval \<Rightarrow> promise_world \<Rightarrow> promise_world" where
  "FulfillPromise promise resolutionValue w =
     (let pr = the_promise w promise; reactions = fulfillReactions pr in
      fold (\<lambda>r. EnqueuePromiseReactionTask r resolutionValue) reactions
        (put_promise promise (pr\<lparr>result := resolutionValue, fulfillReactions := [], state := PROMISE_STATE_FULFILLED\<rparr>) w))"

definition CreateResolvingFunctions :: "ejsval \<Rightarrow> promise_world \<Rightarrow> nat \<times> promise_world" where
  "CreateResolvingFunctions promise w = (length (resolving w), w\<lparr>resolving := resolving w @ [(False, promise)]\<rparr>)"

definition reject_fn :: "nat \<Rightarrow> ejsval \<Rightarrow> promise_world \<Rightarrow> promise_world" where
  "reject_fn env reason w =
     (let (alreadyResolved, promise) = resolving w ! env in
      if alreadyResolved then w
      else RejectPromise promise reason (w\<lparr>resolving := (resolving w)[env := (True, promise)]\<rparr>))"

text \<open>The result is \<open>Throws\<close> when \<open>Get(resolution, "then")\<close> throws: the exception leaves the function.  The call
  goes on from the state in which that \<open>Get\<close> left the promises.\<close>

definition resolve_fn ::
  "strings \<Rightarrow> (ejsval \<Rightarrow> promise_world \<Rightarrow> ejsval outcome \<times> promise_world) \<Rightarrow> (ejsval \<Rightarrow> bool) \<Rightarrow> ejsval \<Rightarrow> nat \<Rightarrow>
     ejsval \<Rightarrow> promise_world \<Rightarrow> (unit outcome \<times> promise_world)" where
  "resolve_fn strs get_then is_callable selfResolutionError env resolution w =
     (let (alreadyResolved, promise) = resolving w ! env in
      if alreadyResolved then (Return (), w)
      else
        let w = w\<lparr>resolving := (resolving w)[env := (True, promise)]\<rparr> in
        case SameValue strs resolution promise of
          None \<Rightarrow> (Aborts, w)
        | Some True \<Rightarrow> (Return (), RejectPromise promise selfResolutionError w)
        | Some False \<Rightarrow>
            if \<not> is_object resolution then (Return (), FulfillPromise promise resolution w)
            else case get_then resolution w of
              (Throws e, w) \<Rightarrow> (Throws e, w)
            | (Aborts, w) \<Rightarrow> (Aborts, w)
            | (Return thn, w) \<Rightarrow>
                if \<not> is_callable thn then (Return (), FulfillPromise promise resolution w)
                else (Return (), EnqueuePromiseResolveThenableTask promise resolution thn w))"

text \<open>The part of \<open>new Promise\<close> before the executor is called.\<close>

definition ejs_Promise_impl :: "ejsval \<Rightarrow> promise_world \<Rightarrow> nat \<times> promise_world" where
  "ejs_Promise_impl promise w =
     CreateResolvingFunctions promise
       (put_promise promise ((the_promise w promise)\<lparr>state := PROMISE_STATE_PENDING, fulfillReactions := [],
          rejectReactions := []\<rparr>) w)"

text \<open>\<open>then\<close> on the store that \<open>NewPromiseCapability\<close> leaves, with the capability it returned.\<close>

definition ejs_Promise_prototype_then ::
  "(ejsval \<Rightarrow> bool) \<Rightarrow> (ejsval \<Rightarrow> bool) \<Rightarrow> ejsval \<Rightarrow> ejsval \<Rightarrow>
   ejsval \<Rightarrow> ejsval \<Rightarrow> ejsval \<Rightarrow> ejsval \<Rightarrow> promise_world \<Rightarrow> unit outcome \<times> promise_world" where
  "ejs_Promise_prototype_then is_promise is_callable identity_function thrower_function
       promise promiseCapability onFulfilled onRejected w =
     (if \<not> is_promise promise then (Throws TypeError, w)
      else
        let pr = the_promise w promise;
            onFulfilled = (if \<not> is_callable onFulfilled then identity_function else onFulfilled);
            onRejected = (if \<not> is_callable onRejected then thrower_function else onRejected);
            fulfillReaction = \<lparr>capabilities = promiseCapability, handler = onFulfilled\<rparr>;
            rejectReaction = \<lparr>capabilities = promiseCapability, handler = onRejected\<rparr>
        in if \<not> is_callable onFulfilled \<or> \<not> is_callable onRejected then (Throws TypeError, w)
           else case state pr of
             PROMISE_STATE_PENDING \<Rightarrow>
               (Return (), put_promise promise (pr\<lparr>fulfillReactions := fulfillReactions pr @ [fulfillReaction],
                  rejectReactions := rejectReactions pr @ [rejectReaction]\<rparr>) w)
           | PROMISE_STATE_FULFILLED \<Rightarrow> (Return (), EnqueuePromiseReactionTask fulfillReaction (result pr) w)
           | PROMISE_STATE_REJECTED \<Rightarrow> (Return (), EnqueuePromiseReactionTask rejectReaction (result pr) w)
           | PROMISE_STATE_UNINITIALIZED \<Rightarrow> (Throws TypeError, w))"

text \<open>\<open>PromiseReactionTask\<close>: which of the capability's functions is called, and with what.  \<open>call\<close> is
  \<open>_ejs_invoke_closure_catch\<close> on the handler: whether it returned normally, and the value or exception.\<close>

datatype capability_call = CallResolve ejsval ejsval | CallReject ejsval ejsval

definition PromiseReactionTask ::
  "(ejsval \<Rightarrow> bool) \<Rightarrow> (ejsval \<Rightarrow> ejsval \<Rightarrow> bool \<times> ejsval) \<Rightarrow> EJSPromiseReaction \<Rightarrow> ejsval \<Rightarrow> capability_call" where
  "PromiseReactionTask is_thrower call reaction argument =
     (let (success, handlerResult) =
            (if is_thrower (handler reaction) then (False, argument) else call (handler reaction) argument)
      in if \<not> success then CallReject (capabilities reaction) handlerResult
         else CallResolve (capabilities reaction) handlerResult)"

text \<open>The first step of \<open>PromiseResolveThenableTask\<close>; it then calls \<open>then\<close> with the new functions.\<close>

definition PromiseResolveThenableTask :: "ejsval \<Rightarrow> promise_world \<Rightarrow> nat \<times> promise_world" where
  "PromiseResolveThenableTask promiseToResolve w = CreateResolvingFunctions promiseToResolve w"

section \<open>The state machine\<close>

text \<open>Everything the program and the run loop can do to promises, in any order: create one, call a resolving
  function again and again, register reactions, run a task.  While a resolve function is in its
  \<open>Get(resolution, "then")\<close>, a getter can do any of this as well, to any depth: the \<open>Get\<close> of a step is any function
  whose effect on the promises is a sequence of steps, and its answer may be another one each time.\<close>

inductive promise_step :: "strings \<Rightarrow> (ejsval \<Rightarrow> bool) \<Rightarrow> promise_world \<Rightarrow> promise_world \<Rightarrow> bool"
  for strs is_callable where
  create: "object_ref p \<Longrightarrow> state (the_promise w p) = PROMISE_STATE_UNINITIALIZED \<Longrightarrow>
    promise_step strs is_callable w (snd (ejs_Promise_impl p w))"
| resolve: "env < length (resolving w) \<Longrightarrow>
    (\<And>u x. (promise_step strs is_callable)\<^sup>*\<^sup>* x (snd (get_then u x))) \<Longrightarrow>
    promise_step strs is_callable w (snd (resolve_fn strs get_then is_callable err env v w))"
| reject: "env < length (resolving w) \<Longrightarrow> promise_step strs is_callable w (reject_fn env v w)"
| thens: "object_ref p \<Longrightarrow>
    promise_step strs is_callable w (snd (ejs_Promise_prototype_then isp is_callable idf thf p cap f r w))"
| run_reaction: "tasks w = ts @ ReactionTask r v # us \<Longrightarrow>
    promise_step strs is_callable w (w\<lparr>tasks := ts @ us\<rparr>)"
| run_thenable: "tasks w = ts @ ResolveThenableTask p v f # us \<Longrightarrow>
    promise_step strs is_callable w (snd (PromiseResolveThenableTask p (w\<lparr>tasks := ts @ us\<rparr>)))"

text \<open>A \<open>Get\<close> that finds a value without running a getter.\<close>

definition plain_get :: "(ejsval \<Rightarrow> ejsval outcome) \<Rightarrow> ejsval \<Rightarrow> promise_world \<Rightarrow> ejsval outcome \<times> promise_world" where
  "plain_get g v w = (g v, w)"

end
