(* ===== verification/PromiseLaws.thy ===== *)
theory PromiseLaws
  imports Promises
begin

text \<open>
  What the promise state machine guarantees: a promise is settled at most once, and its reactions are then
  enqueued once, in the order in which they were registered.
\<close>

section \<open>The right to settle\<close>

text \<open>The ways in which a promise can still be settled: resolving functions that were not called, and tasks
  that will create some.\<close>

fun thenable_for :: "ejsval \<Rightarrow> promise_task \<Rightarrow> bool" where
  "thenable_for p (ResolveThenableTask q v f) \<longleftrightarrow> q = p"
| "thenable_for p (ReactionTask r v) \<longleftrightarrow> False"

definition tickets :: "promise_world \<Rightarrow> ejsval \<Rightarrow> nat" where
  "tickets w p = length (filter (\<lambda>e. e = (False, p)) (resolving w)) + length (filter (thenable_for p) (tasks w))"

definition refs_ok :: "promise_world \<Rightarrow> bool" where
  "refs_ok w \<longleftrightarrow> (\<forall>(b, p)\<in>set (resolving w). object_ref p) \<and>
     (\<forall>t\<in>set (tasks w). \<forall>p. thenable_for p t \<longrightarrow> object_ref p)"

definition promise_inv :: "promise_world \<Rightarrow> bool" where
  "promise_inv w \<longleftrightarrow> refs_ok w \<and>
     (\<forall>p. object_ref p \<longrightarrow> tickets w p \<le> (if state (the_promise w p) = PROMISE_STATE_PENDING then 1 else 0))"

lemma count_update:
  "i < length xs \<Longrightarrow> length (filter P (xs[i := y])) + (if P (xs ! i) then 1 else 0) =
     length (filter P xs) + (if P y then 1 else 0)"
proof (induction xs arbitrary: i)
  case (Cons x xs)
  show ?case
  proof (cases i)
    case (Suc j)
    then show ?thesis using Cons.IH [of j] Cons.prems by simp
  qed simp
qed simp

lemma enqueue_reactions:
  "fold (\<lambda>r. EnqueuePromiseReactionTask r v) rs w = w\<lparr>tasks := tasks w @ map (\<lambda>r. ReactionTask r v) rs\<rparr>"
  by (induction rs arbitrary: w) (simp_all add: EnqueuePromiseReactionTask_def)

lemma reaction_tasks [simp]:
  "filter (thenable_for p) (map (\<lambda>r. ReactionTask r v) rs) = []"
  by (induction rs) auto

text \<open>A settled promise: the state, the result and the tasks.\<close>

lemma settle_forms:
  "RejectPromise p v w = put_promise p ((the_promise w p)\<lparr>result := v, fulfillReactions := [], state := PROMISE_STATE_REJECTED\<rparr>)
     (w\<lparr>tasks := tasks w @ map (\<lambda>r. ReactionTask r v) (rejectReactions (the_promise w p))\<rparr>)"
  "FulfillPromise p v w = put_promise p ((the_promise w p)\<lparr>result := v, fulfillReactions := [], state := PROMISE_STATE_FULFILLED\<rparr>)
     (w\<lparr>tasks := tasks w @ map (\<lambda>r. ReactionTask r v) (fulfillReactions (the_promise w p))\<rparr>)"
  by (simp_all add: RejectPromise_def FulfillPromise_def enqueue_reactions Let_def)

lemma other_promise:
  "object_ref p \<Longrightarrow> object_ref q \<Longrightarrow> p \<noteq> q \<Longrightarrow> the_promise (put_promise q pr w) p = the_promise w p"
  using object_ref_inject [of p q] by simp

text \<open>Taking the ticket of a resolving function.\<close>

lemma take_ticket:
  assumes "promise_inv w" "env < length (resolving w)" "resolving w ! env = (False, p)"
  defines "w' \<equiv> w\<lparr>resolving := (resolving w)[env := (True, p)]\<rparr>"
  shows "object_ref p" "state (the_promise w p) = PROMISE_STATE_PENDING" "tickets w' p = 0"
    "q \<noteq> p \<Longrightarrow> tickets w' q = tickets w q" "refs_ok w'"
proof -
  have mem: "(False, p) \<in> set (resolving w)" using assms(2,3) nth_mem by metis
  then show ref: "object_ref p" using assms(1) by (auto simp: promise_inv_def refs_ok_def)
  have c: "tickets w' q + (if p = q then 1 else 0) = tickets w q" for q
    using count_update [OF assms(2), of "\<lambda>e. e = (False, q)" "(True, p)"] assms(3)
    by (simp add: tickets_def w'_def split: if_splits)
  have le: "tickets w p \<le> (if state (the_promise w p) = PROMISE_STATE_PENDING then 1 else 0)"
    using assms(1) ref by (simp add: promise_inv_def)
  show "state (the_promise w p) = PROMISE_STATE_PENDING" using c [of p] le by (simp split: if_splits)
  show "tickets w' p = 0" using c [of p] le by (simp split: if_splits)
  show "q \<noteq> p \<Longrightarrow> tickets w' q = tickets w q" using c [of q] by simp
  show "refs_ok w'" using assms(1) ref set_update_subset_insert [of "resolving w" env "(True, p)"]
    unfolding promise_inv_def refs_ok_def w'_def by auto
qed

text \<open>Every kind of step keeps the invariant, and leaves settled promises alone.\<close>

definition settled :: "promise_world \<Rightarrow> ejsval \<Rightarrow> bool" where
  "settled w p \<longleftrightarrow> state (the_promise w p) \<in> {PROMISE_STATE_FULFILLED, PROMISE_STATE_REJECTED}"

definition keeps_settled :: "promise_world \<Rightarrow> promise_world \<Rightarrow> bool" where
  "keeps_settled w w' \<longleftrightarrow> (\<forall>p. object_ref p \<longrightarrow> settled w p \<longrightarrow>
     state (the_promise w' p) = state (the_promise w p) \<and> result (the_promise w' p) = result (the_promise w p))"

lemma keeps_settled_put:
  assumes "object_ref q" "\<not> settled w q" "\<And>p. the_promise w0 p = the_promise w p"
  shows "keeps_settled w (put_promise q pr w0)"
  unfolding keeps_settled_def
proof (intro allI impI)
  fix p
  assume p: "object_ref p" "settled w p"
  then have "p \<noteq> q" using assms(2) by blast
  then show "state (the_promise (put_promise q pr w0) p) = state (the_promise w p) \<and>
    result (the_promise (put_promise q pr w0) p) = result (the_promise w p)"
    using other_promise [OF p(1) assms(1)] assms(3) by simp
qed

lemma keeps_settled_same: "(\<And>p. the_promise w' p = the_promise w p) \<Longrightarrow> keeps_settled w w'"
  by (simp add: keeps_settled_def)

lemma inv_same:
  assumes "promise_inv w" "refs_ok w'" "\<And>p. the_promise w' p = the_promise w p" "\<And>p. tickets w' p \<le> tickets w p"
  shows "promise_inv w'"
  using assms unfolding promise_inv_def by (metis order_trans)

lemma same_value_object:
  assumes "object_ref p"
  shows "SameValue strs v p = Some (v = p)"
proof (cases "EJSVAL_TO_TAG v = EJSVAL_TO_TAG p")
  case True
  then have "object_ref v" using assms by (simp add: to_tag_eq object_ref_def)
  then show ?thesis using same_value_refs assms by blast
next
  case False
  then show ?thesis by (auto simp: SameValue_def)
qed

text \<open>A promise whose ticket was taken and that is not settled yet, as while its resolve function runs a getter: it is
  pending and nothing else can settle it.\<close>

definition lost :: "ejsval \<Rightarrow> promise_world \<Rightarrow> bool" where
  "lost p w \<longleftrightarrow> tickets w p = 0 \<and> state (the_promise w p) = PROMISE_STATE_PENDING"

text \<open>What every step does: it keeps the invariant, the settled promises, and the promises that are lost.\<close>

definition sound_move :: "promise_world \<Rightarrow> promise_world \<Rightarrow> bool" where
  "sound_move w w' \<longleftrightarrow> (promise_inv w \<longrightarrow> promise_inv w' \<and> keeps_settled w w' \<and>
     (\<forall>p. object_ref p \<and> lost p w \<longrightarrow> lost p w'))"

lemma sound_move_refl: "sound_move w w"
  by (simp add: sound_move_def keeps_settled_def)

lemma sound_move_trans:
  assumes "sound_move w w1" "sound_move w1 w2"
  shows "sound_move w w2"
proof -
  have "keeps_settled w w1 \<Longrightarrow> keeps_settled w1 w2 \<Longrightarrow> keeps_settled w w2"
    unfolding keeps_settled_def settled_def by metis
  then show ?thesis using assms unfolding sound_move_def by blast
qed

lemma sound_moves: "sound_move\<^sup>*\<^sup>* w w' \<Longrightarrow> sound_move w w'"
  by (induction rule: rtranclp_induct) (blast intro: sound_move_refl sound_move_trans)+

lemma taken_inv:
  assumes "promise_inv w" "env < length (resolving w)" "resolving w ! env = (False, p)"
  defines "w1 \<equiv> w\<lparr>resolving := (resolving w)[env := (True, p)]\<rparr>"
  shows "object_ref p" "promise_inv w1" "lost p w1" "sound_move w w1" "lost q w \<Longrightarrow> q \<noteq> p"
proof -
  note t = take_ticket [OF assms(1-3), folded w1_def]
  have z: "tickets w1 q \<le> tickets w q" for q using t(3,4) by (cases "q = p") simp_all
  have pr: "promises w1 = promises w" by (simp add: w1_def)
  show "object_ref p" by (rule t(1))
  show inv: "promise_inv w1" by (rule inv_same [OF assms(1) t(5)]) (simp_all add: w1_def z [unfolded w1_def])
  show "lost p w1" using t(2,3) by (simp add: lost_def pr)
  have mem: "(False, p) \<in> set (resolving w)" using assms(2,3) nth_mem by metis
  show "q \<noteq> p" if "lost q w"
  proof
    assume "q = p"
    then show False using that mem by (auto simp: lost_def tickets_def filter_empty_conv)
  qed
  have "lost q w1" if "lost q w" for q using that z [of q] by (simp add: lost_def pr)
  moreover have "keeps_settled w w1" using pr by (intro keeps_settled_same) simp
  ultimately show "sound_move w w1" using inv unfolding sound_move_def by blast
qed

text \<open>What the last part of a resolving function does to its own promise, which is lost, and to the others.\<close>

definition finishes :: "ejsval \<Rightarrow> promise_world \<Rightarrow> promise_world \<Rightarrow> bool" where
  "finishes p w w' \<longleftrightarrow> promise_inv w' \<and> keeps_settled w w' \<and> (\<forall>q. object_ref q \<and> lost q w \<and> q \<noteq> p \<longrightarrow> lost q w')"

lemma settle_lost:
  assumes "promise_inv w" "object_ref p" "lost p w" "st \<noteq> PROMISE_STATE_PENDING"
  shows "finishes p w (put_promise p (pr\<lparr>state := st\<rparr>) (w\<lparr>tasks := tasks w @ map (\<lambda>r. ReactionTask r v) rs\<rparr>))"
proof -
  let ?w = "put_promise p (pr\<lparr>state := st\<rparr>) (w\<lparr>tasks := tasks w @ map (\<lambda>r. ReactionTask r v) rs\<rparr>)"
  have tk: "tickets ?w q = tickets w q" for q by (simp add: tickets_def)
  have other: "the_promise ?w q = the_promise w q" if "object_ref q" "q \<noteq> p" for q
    using other_promise [OF that(1) assms(2) that(2)] by simp
  have "tickets ?w q \<le> (if state (the_promise ?w q) = PROMISE_STATE_PENDING then 1 else 0)" if "object_ref q" for q
    using tk assms(1,3) other [OF that] that by (cases "q = p") (simp_all add: lost_def promise_inv_def)
  moreover have "refs_ok ?w" using assms(1) by (auto simp: refs_ok_def promise_inv_def)
  ultimately have "promise_inv ?w" by (simp add: promise_inv_def)
  moreover have "keeps_settled w ?w"
    using assms(2,3) by (intro keeps_settled_put) (simp_all add: settled_def lost_def)
  moreover have "lost q ?w" if "object_ref q" "lost q w" "q \<noteq> p" for q using that tk other by (simp add: lost_def)
  ultimately show ?thesis unfolding finishes_def by blast
qed

lemma settle_finishes:
  assumes "promise_inv w" "object_ref p" "lost p w"
  shows "finishes p w (RejectPromise p v w)" "finishes p w (FulfillPromise p v w)"
  using settle_lost [OF assms, where st = PROMISE_STATE_REJECTED and pr = "(the_promise w p)\<lparr>result := v, fulfillReactions := []\<rparr>"]
    settle_lost [OF assms, where st = PROMISE_STATE_FULFILLED and pr = "(the_promise w p)\<lparr>result := v, fulfillReactions := []\<rparr>"]
  by (simp_all add: settle_forms del: fun_upd_apply)

lemma enqueue_finishes:
  assumes "promise_inv w" "object_ref p" "lost p w"
  shows "finishes p w (EnqueuePromiseResolveThenableTask p v f w)"
proof -
  let ?w = "EnqueuePromiseResolveThenableTask p v f w"
  have tk: "tickets ?w q = tickets w q + (if q = p then 1 else 0)" for q
    by (simp add: tickets_def EnqueuePromiseResolveThenableTask_def)
  have pr: "promises ?w = promises w" by (simp add: EnqueuePromiseResolveThenableTask_def)
  have "tickets ?w q \<le> (if state (the_promise ?w q) = PROMISE_STATE_PENDING then 1 else 0)" if "object_ref q" for q
    using tk [of q] assms(1,3) that unfolding pr by (cases "q = p") (auto simp: promise_inv_def lost_def)
  moreover have "refs_ok ?w" using assms(1,2)
    by (auto simp: refs_ok_def promise_inv_def EnqueuePromiseResolveThenableTask_def)
  ultimately have "promise_inv ?w" by (simp add: promise_inv_def)
  moreover have "keeps_settled w ?w" using pr by (intro keeps_settled_same) simp
  moreover have "lost q ?w" if "lost q w" "q \<noteq> p" for q using that tk pr by (simp add: lost_def)
  ultimately show ?thesis unfolding finishes_def by blast
qed

text \<open>A call of a resolving function: the mark, what a getter does, and the last part.\<close>

lemma call_move:
  assumes "promise_inv w" "env < length (resolving w)" "resolving w ! env = (False, p)"
    and "sound_move (w\<lparr>resolving := (resolving w)[env := (True, p)]\<rparr>) w2" "w' = w2 \<or> finishes p w2 w'"
  shows "sound_move w w'"
proof -
  note t = taken_inv [OF assms(1-3)]
  have m: "sound_move w w2" by (rule sound_move_trans [OF t(4) assms(4)])
  from assms(5) show ?thesis
  proof
    assume f: "finishes p w2 w'"
    have "keeps_settled w w2 \<Longrightarrow> keeps_settled w2 w' \<Longrightarrow> keeps_settled w w'"
      unfolding keeps_settled_def settled_def by metis
    then show ?thesis using m f t(5) unfolding sound_move_def finishes_def by blast
  qed (use m in simp)
qed

lemma call_lost:
  assumes "promise_inv w" "env < length (resolving w)" "resolving w ! env = (False, p)"
    and "sound_move (w\<lparr>resolving := (resolving w)[env := (True, p)]\<rparr>) w2"
  shows "promise_inv w2" "object_ref p" "lost p w2"
  using taken_inv [OF assms(1-3)] assms(4) by (auto simp: sound_move_def)

lemma reject_step:
  assumes "env < length (resolving w)"
  shows "sound_move w (reject_fn env v w)"
proof -
  obtain b p where e: "resolving w ! env = (b, p)" by fastforce
  let ?w1 = "w\<lparr>resolving := (resolving w)[env := (True, p)]\<rparr>"
  have "sound_move w (reject_fn env v w)" if inv: "promise_inv w" "\<not> b"
  proof -
    have e: "resolving w ! env = (False, p)" using e that(2) by simp
    then have "reject_fn env v w = RejectPromise p v ?w1" by (simp add: reject_fn_def)
    then show ?thesis using call_move [OF inv(1) assms e sound_move_refl]
        settle_finishes(1) [OF call_lost [OF inv(1) assms e sound_move_refl]] by simp
  qed
  moreover have "b \<Longrightarrow> reject_fn env v w = w" using e by (simp add: reject_fn_def)
  ultimately show ?thesis using sound_move_refl unfolding sound_move_def by (cases b) auto
qed

text \<open>From the state in which \<open>Get(resolution, "then")\<close> left a lost promise, the rest of the resolve function.\<close>

lemma resolve_outcome:
  assumes "resolving w ! env = (False, p)" "object_ref p"
  defines "w1 \<equiv> w\<lparr>resolving := (resolving w)[env := (True, p)]\<rparr>"
  shows "\<exists>w2\<in>{w1, snd (get_then v w1)}. snd (resolve_fn strs get_then is_callable err env v w) \<in>
     {w2, RejectPromise p err w2, FulfillPromise p v w2} \<union> {EnqueuePromiseResolveThenableTask p v f w2 |f. True}"
proof (cases "v = p")
  case True
  then show ?thesis using same_value_object [OF assms(2), of strs v] assms(1) by (simp add: resolve_fn_def w1_def)
next
  case False
  then show ?thesis using same_value_object [OF assms(2), of strs v] assms(1)
    by (cases "get_then v w1") (auto simp: resolve_fn_def Let_def w1_def split: outcome.split)
qed

lemma resolve_step:
  assumes "env < length (resolving w)" "\<And>u x. sound_move x (snd (get_then u x))"
  shows "sound_move w (snd (resolve_fn strs get_then is_callable err env v w))"
proof -
  let ?w' = "snd (resolve_fn strs get_then is_callable err env v w)"
  obtain b p where e: "resolving w ! env = (b, p)" by fastforce
  let ?w1 = "w\<lparr>resolving := (resolving w)[env := (True, p)]\<rparr>"
  have "sound_move w ?w'" if inv: "promise_inv w" "\<not> b"
  proof -
    have e: "resolving w ! env = (False, p)" using e that(2) by simp
    obtain w2 where w2: "w2 \<in> {?w1, snd (get_then v ?w1)}" and r: "?w' \<in>
        {w2, RejectPromise p err w2, FulfillPromise p v w2} \<union> {EnqueuePromiseResolveThenableTask p v f w2 |f. True}"
      by (rule bexE [OF resolve_outcome [OF e taken_inv(1) [OF inv(1) assms(1) e],
            where v = v and get_then = get_then and strs = strs and is_callable = is_callable and err = err]])
    have m: "sound_move ?w1 w2" using w2 assms(2) sound_move_refl by blast
    have "?w' = w2 \<or> finishes p w2 ?w'"
      using r by (auto simp: settle_finishes enqueue_finishes call_lost [OF inv(1) assms(1) e m])
    then show ?thesis by (rule call_move [OF inv(1) assms(1) e m])
  qed
  moreover have "b \<Longrightarrow> ?w' = w" using e by (simp add: resolve_fn_def)
  ultimately show ?thesis using sound_move_refl unfolding sound_move_def by (cases b) auto
qed

lemma create_step:
  assumes "promise_inv w" "object_ref p" "state (the_promise w p) = PROMISE_STATE_UNINITIALIZED"
  shows "promise_inv (snd (ejs_Promise_impl p w)) \<and> keeps_settled w (snd (ejs_Promise_impl p w))"
proof
  let ?w = "snd (ejs_Promise_impl p w)"
  have w: "?w = put_promise p ((the_promise w p)\<lparr>state := PROMISE_STATE_PENDING, fulfillReactions := [], rejectReactions := []\<rparr>)
      (w\<lparr>resolving := resolving w @ [(False, p)]\<rparr>)"
    by (simp add: ejs_Promise_impl_def CreateResolvingFunctions_def)
  have tk: "tickets ?w q = tickets w q + (if q = p then 1 else 0)" for q by (simp add: tickets_def w)
  have zero: "tickets w p = 0" using assms unfolding promise_inv_def by fastforce
  have "tickets ?w q \<le> (if state (the_promise ?w q) = PROMISE_STATE_PENDING then 1 else 0)" if "object_ref q" for q
  proof (cases "q = p")
    case True
    then show ?thesis using tk zero by (simp add: w)
  next
    case False
    have "the_promise ?w q = the_promise w q" unfolding w using object_ref_inject [OF that assms(2)] False by simp
    then show ?thesis using tk False assms(1) that by (simp add: promise_inv_def)
  qed
  moreover have "refs_ok ?w" using assms(1,2) by (auto simp: w refs_ok_def promise_inv_def)
  ultimately show "promise_inv ?w" by (simp add: promise_inv_def)
  show "keeps_settled w ?w" unfolding w using assms(2,3) by (intro keeps_settled_put) (simp_all add: settled_def)
qed

lemma then_outcome:
  "snd (ejs_Promise_prototype_then isp is_callable idf thf p cap f r w) = w \<or>
   (\<exists>r' v. snd (ejs_Promise_prototype_then isp is_callable idf thf p cap f r w) = w\<lparr>tasks := tasks w @ [ReactionTask r' v]\<rparr>) \<or>
   state (the_promise w p) = PROMISE_STATE_PENDING \<and>
     (\<exists>pr. state pr = PROMISE_STATE_PENDING \<and> snd (ejs_Promise_prototype_then isp is_callable idf thf p cap f r w) = put_promise p pr w)"
proof (cases "isp p \<and> (is_callable f \<or> is_callable idf) \<and> (is_callable r \<or> is_callable thf) \<and> state (the_promise w p) = PROMISE_STATE_PENDING")
  case True
  define f' r' where "f' = (if is_callable f then f else idf)" and "r' = (if is_callable r then r else thf)"
  let ?pr = "(the_promise w p)\<lparr>fulfillReactions := fulfillReactions (the_promise w p) @ [\<lparr>capabilities = cap, handler = f'\<rparr>],
    rejectReactions := rejectReactions (the_promise w p) @ [\<lparr>capabilities = cap, handler = r'\<rparr>]\<rparr>"
  have "snd (ejs_Promise_prototype_then isp is_callable idf thf p cap f r w) = put_promise p ?pr w"
    using True by (auto simp: ejs_Promise_prototype_then_def Let_def f'_def r'_def)
  moreover have "state ?pr = PROMISE_STATE_PENDING" using True by simp
  ultimately show ?thesis using True by blast
next
  case False
  then show ?thesis by (cases "state (the_promise w p)")
    (auto simp: ejs_Promise_prototype_then_def EnqueuePromiseReactionTask_def Let_def)
qed

lemma then_step:
  assumes "promise_inv w" "object_ref p"
  shows "promise_inv (snd (ejs_Promise_prototype_then isp is_callable idf thf p cap f r w)) \<and>
    keeps_settled w (snd (ejs_Promise_prototype_then isp is_callable idf thf p cap f r w))"
  using then_outcome [of isp is_callable idf thf p cap f r w]
proof (elim disjE exE conjE)
  fix pr
  let ?w = "put_promise p pr w"
  assume w: "snd (ejs_Promise_prototype_then isp is_callable idf thf p cap f r w) = ?w"
    and st: "state (the_promise w p) = PROMISE_STATE_PENDING" "state pr = PROMISE_STATE_PENDING"
  have "state (the_promise ?w q) = state (the_promise w q)" for q using st by auto
  moreover have "tickets ?w q = tickets w q" "refs_ok ?w = refs_ok w" for q by (simp_all add: tickets_def refs_ok_def)
  ultimately have "promise_inv ?w" using assms(1) by (simp add: promise_inv_def)
  moreover have "keeps_settled w ?w" using assms(2) st(1) by (intro keeps_settled_put) (simp_all add: settled_def)
  ultimately show ?thesis unfolding w by blast
next
  fix r' v
  let ?w = "w\<lparr>tasks := tasks w @ [ReactionTask r' v]\<rparr>"
  assume w: "snd (ejs_Promise_prototype_then isp is_callable idf thf p cap f r w) = ?w"
  have "promises ?w = promises w" "tickets ?w q = tickets w q" "refs_ok ?w = refs_ok w" for q
    by (auto simp: tickets_def refs_ok_def)
  then show ?thesis unfolding w using inv_same [OF assms(1), of ?w] keeps_settled_same [of ?w w] assms(1)
    by (simp add: promise_inv_def)
qed (use assms(1) in \<open>simp add: keeps_settled_def\<close>)

lemma run_step:
  assumes "promise_inv w"
  shows "tasks w = ts @ ReactionTask r v # us \<Longrightarrow> promise_inv (w\<lparr>tasks := ts @ us\<rparr>)"
    and "tasks w = ts @ ResolveThenableTask p x f # us \<Longrightarrow>
      promise_inv (snd (PromiseResolveThenableTask p (w\<lparr>tasks := ts @ us\<rparr>)))"
proof -
  assume t: "tasks w = ts @ ReactionTask r v # us"
  have "refs_ok (w\<lparr>tasks := ts @ us\<rparr>)" using assms t by (auto simp: promise_inv_def refs_ok_def)
  then show "promise_inv (w\<lparr>tasks := ts @ us\<rparr>)" by (rule inv_same [OF assms]) (simp_all add: tickets_def t)
next
  assume t: "tasks w = ts @ ResolveThenableTask p x f # us"
  let ?w = "snd (PromiseResolveThenableTask p (w\<lparr>tasks := ts @ us\<rparr>))"
  have w: "?w = w\<lparr>tasks := ts @ us, resolving := resolving w @ [(False, p)]\<rparr>"
    by (simp add: PromiseResolveThenableTask_def CreateResolvingFunctions_def)
  have "refs_ok ?w" using assms t unfolding w by (fastforce simp: promise_inv_def refs_ok_def)
  then show "promise_inv ?w" by (rule inv_same [OF assms]) (auto simp: tickets_def t w)
qed

lemma create_move:
  assumes "object_ref p" "state (the_promise w p) = PROMISE_STATE_UNINITIALIZED"
  shows "sound_move w (snd (ejs_Promise_impl p w))"
proof -
  have "lost q (snd (ejs_Promise_impl p w))" if "object_ref q" "lost q w" for q
  proof -
    have "q \<noteq> p" using that assms(2) by (auto simp: lost_def)
    then show ?thesis using that object_ref_inject [OF that(1) assms(1)]
      by (auto simp: lost_def tickets_def ejs_Promise_impl_def CreateResolvingFunctions_def)
  qed
  then show ?thesis using create_step assms by (simp add: sound_move_def)
qed

lemma then_move:
  assumes "object_ref p"
  shows "sound_move w (snd (ejs_Promise_prototype_then isp is_callable idf thf p cap f r w))"
proof -
  have "lost q (snd (ejs_Promise_prototype_then isp is_callable idf thf p cap f r w))" if "lost q w" for q
    using then_outcome [of isp is_callable idf thf p cap f r w] that
    by (elim disjE exE conjE) (auto simp: lost_def tickets_def)
  then show ?thesis using then_step assms by (simp add: sound_move_def)
qed

lemma promise_step_move: "promise_step strs is_callable w w' \<Longrightarrow> sound_move w w'"
proof (induction rule: promise_step.induct)
  case (resolve env w get_then err v)
  have "sound_move x (snd (get_then u x))" for u x
    by (rule sound_moves, rule rtranclp_mono [THEN predicate2D, OF _ resolve.IH]) blast
  then show ?case by (rule resolve_step [OF resolve.hyps(1)])
next
  case (run_reaction w ts r v us)
  then show ?case using run_step(1)
    by (auto intro: keeps_settled_same simp: sound_move_def lost_def tickets_def)
next
  case (run_thenable w ts p v f us)
  then show ?case using run_step(2)
    by (auto intro: keeps_settled_same
        simp: sound_move_def lost_def tickets_def PromiseResolveThenableTask_def CreateResolvingFunctions_def)
qed (simp_all add: create_move reject_step then_move)

lemma steps_move:
  assumes "(promise_step strs is_callable)\<^sup>*\<^sup>* w w'"
  shows "sound_move w w'"
  using rtranclp_mono [THEN predicate2D, OF _ assms, of sound_move] promise_step_move sound_moves by blast

section \<open>Settling\<close>

text \<open>The store before any promise is created.\<close>

definition no_promises :: "promise_world \<Rightarrow> bool" where
  "no_promises w \<longleftrightarrow> (\<forall>p. state (promises w p) = PROMISE_STATE_UNINITIALIZED) \<and> resolving w = [] \<and> tasks w = []"

lemma no_promises_inv: "no_promises w \<Longrightarrow> promise_inv w"
  by (simp add: no_promises_def promise_inv_def refs_ok_def tickets_def)

lemma reachable_inv:
  assumes "(promise_step strs is_callable)\<^sup>*\<^sup>* w w'" "promise_inv w"
  shows "promise_inv w' \<and> keeps_settled w w'"
  using steps_move [OF assms(1)] assms(2) by (simp add: sound_move_def)

text \<open>C27: a promise is settled at most once.  From a start without promises, however the resolving functions of all promises
  are called, also from a getter that runs while a resolve function reads the property then of its argument, and whatever
  the tasks do, a promise that is fulfilled or rejected keeps its state and its result; and a resolving function that has not been called, and a queued task that will create new ones, belong to a promise that is
  still pending, at most one of them for each promise.\<close>

theorem promise_settles_once:
  assumes "no_promises w0" "(promise_step strs is_callable)\<^sup>*\<^sup>* w0 w"
    and "(promise_step strs is_callable)\<^sup>*\<^sup>* w w'" "object_ref p"
  shows "(settled w p \<longrightarrow> state (the_promise w' p) = state (the_promise w p) \<and> result (the_promise w' p) = result (the_promise w p)) \<and>
    (tickets w p > 0 \<longrightarrow> state (the_promise w p) = PROMISE_STATE_PENDING) \<and> tickets w p \<le> 1"
proof -
  have inv: "promise_inv w" using reachable_inv [OF assms(2) no_promises_inv [OF assms(1)]] by blast
  then have "tickets w p \<le> (if state (the_promise w p) = PROMISE_STATE_PENDING then 1 else 0)"
    using assms(4) by (simp add: promise_inv_def)
  moreover have "keeps_settled w w'" using reachable_inv [OF assms(3) inv] by blast
  ultimately show ?thesis using assms(4) by (auto simp: keeps_settled_def split: if_splits)
qed

definition empty_world :: promise_world where
  "empty_world = \<lparr>promises = (\<lambda>_. \<lparr>state = PROMISE_STATE_UNINITIALIZED, result = ejs_undefined,
     fulfillReactions = [], rejectReactions = []\<rparr>), resolving = [], tasks = []\<rparr>"

text \<open>C29: settling.  The first call of the reject function of a pending promise, or of its resolve function with
  a value that is not an object, sets the state and the result and appends one task for each registered
  reaction of the right kind, in the order of registration; further calls of either function change nothing.\<close>

theorem settle_triggers:
  assumes "env < length (resolving w)" "resolving w ! env = (False, p)" "object_ref p" "\<not> is_object x"
  shows "(let w' = reject_fn env v w in
      state (the_promise w' p) = PROMISE_STATE_REJECTED \<and> result (the_promise w' p) = v \<and>
      tasks w' = tasks w @ map (\<lambda>r. ReactionTask r v) (rejectReactions (the_promise w p)) \<and>
      reject_fn env u w' = w' \<and> resolve_fn strs get_then is_callable err env u w' = (Return (), w')) \<and>
    (let (r, w') = resolve_fn strs get_then is_callable err env x w in
      r = Return () \<and> state (the_promise w' p) = PROMISE_STATE_FULFILLED \<and> result (the_promise w' p) = x \<and>
      tasks w' = tasks w @ map (\<lambda>r. ReactionTask r x) (fulfillReactions (the_promise w p)) \<and>
      reject_fn env u w' = w' \<and> resolve_fn strs get_then is_callable err env u w' = (Return (), w'))"
proof -
  have "x \<noteq> p" using assms(3,4) by auto
  then have "SameValue strs x p = Some False" using same_value_object [OF assms(3)] by simp
  then show ?thesis using assms by (simp add: reject_fn_def resolve_fn_def settle_forms Let_def)
qed

text \<open>Two steps from the empty store: a new promise, rejected.\<close>

lemma sample_promise:
  "no_promises empty_world" "object_ref 0xFFFC800000001000"
  "(promise_step strs is_callable)\<^sup>*\<^sup>* empty_world (reject_fn 0 ejs_one (snd (ejs_Promise_impl 0xFFFC800000001000 empty_world)))"
  "settled (reject_fn 0 ejs_one (snd (ejs_Promise_impl 0xFFFC800000001000 empty_world))) 0xFFFC800000001000"
  "result (the_promise (reject_fn 0 ejs_one (snd (ejs_Promise_impl 0xFFFC800000001000 empty_world))) 0xFFFC800000001000) = ejs_one"
proof -
  let ?p = "0xFFFC800000001000 :: ejsval" and ?w1 = "snd (ejs_Promise_impl 0xFFFC800000001000 empty_world)"
  show e: "no_promises empty_world" and r: "object_ref ?p" by (simp_all add: no_promises_def empty_world_def object_ref_def)
  have "promise_step strs is_callable empty_world ?w1"
    using r by (intro promise_step.create) (simp_all add: empty_world_def)
  moreover have "promise_step strs is_callable ?w1 (reject_fn 0 ejs_one ?w1)"
    by (intro promise_step.reject) (simp add: ejs_Promise_impl_def CreateResolvingFunctions_def)
  ultimately show "(promise_step strs is_callable)\<^sup>*\<^sup>* empty_world (reject_fn 0 ejs_one ?w1)"
    by (meson converse_rtranclp_into_rtranclp rtranclp.rtrancl_refl)
  show "settled (reject_fn 0 ejs_one ?w1) ?p" "result (the_promise (reject_fn 0 ejs_one ?w1) ?p) = ejs_one"
    by (simp_all add: settled_def reject_fn_def ejs_Promise_impl_def CreateResolvingFunctions_def settle_forms empty_world_def)
qed

theorem promise_settles_once_witness:
  "\<exists>w. settled w 0xFFFC800000001000 \<and>
     (\<forall>w'. (promise_step (\<lambda>_. None) (\<lambda>_. False))\<^sup>*\<^sup>* w w' \<longrightarrow> result (the_promise w' 0xFFFC800000001000) = ejs_one)"
proof (intro exI conjI allI impI)
  show "settled (reject_fn 0 ejs_one (snd (ejs_Promise_impl 0xFFFC800000001000 empty_world))) 0xFFFC800000001000"
    by (rule sample_promise(4))
  show "result (the_promise w' 0xFFFC800000001000) = ejs_one"
    if "(promise_step (\<lambda>_. None) (\<lambda>_. False))\<^sup>*\<^sup>*
      (reject_fn 0 ejs_one (snd (ejs_Promise_impl 0xFFFC800000001000 empty_world))) w'" for w'
    using promise_settles_once [OF sample_promise(1,3) that sample_promise(2)] sample_promise(4,5) by simp
qed

theorem settle_triggers_witness:
  "\<exists>w. tasks w = [] \<and> tasks (reject_fn 0 ejs_one w) = [ReactionTask \<lparr>capabilities = 0, handler = 0\<rparr> ejs_one]"
proof -
  let ?p = "0xFFFC800000001000 :: ejsval" and ?r = "\<lparr>capabilities = 0, handler = 0\<rparr>"
  let ?w = "snd (ejs_Promise_prototype_then (\<lambda>_. True) (\<lambda>_. True) 0 0 ?p 0 0 0 (snd (ejs_Promise_impl ?p empty_world)))"
  have w: "resolving ?w = [(False, ?p)]" "tasks ?w = []" "rejectReactions (the_promise ?w ?p) = [?r]"
    by (simp_all add: ejs_Promise_prototype_then_def ejs_Promise_impl_def CreateResolvingFunctions_def empty_world_def Let_def)
  have x: "\<not> is_object 0" by (simp add: tag_facts)
  have "tasks (reject_fn 0 ejs_one ?w) = tasks ?w @ map (\<lambda>r. ReactionTask r ejs_one) (rejectReactions (the_promise ?w ?p))"
    using settle_triggers [of 0 ?w ?p 0 ejs_one, OF _ _ sample_promise(2) x] w(1) by (simp add: Let_def)
  then show ?thesis using w by auto
qed

section \<open>Exceptions while resolving\<close>

text \<open>C31: a resolve function that is called for the first time, in any state reached from one without promises, with an
  object other than its promise.  When \<open>Get(resolution, "then")\<close> throws, after any steps that its getter makes, the
  exception leaves the resolve function after it has marked itself as called, instead of rejecting the promise.  The promise then stays pending for ever: no sequence of
  steps settles it any more.\<close>

theorem throwing_then_loses_promise:
  assumes "no_promises w0" "(promise_step strs is_callable)\<^sup>*\<^sup>* w0 w"
    and "env < length (resolving w)" "resolving w ! env = (False, p)"
    and "is_object v" "v \<noteq> p" "get_then v (w\<lparr>resolving := (resolving w)[env := (True, p)]\<rparr>) = (Throws e, w2)"
    and "(promise_step strs is_callable)\<^sup>*\<^sup>* (w\<lparr>resolving := (resolving w)[env := (True, p)]\<rparr>) w2"
  shows "resolve_fn strs get_then is_callable err env v w = (Throws e, w2) \<and>
    (\<forall>w'. (promise_step strs is_callable)\<^sup>*\<^sup>* w2 w' \<longrightarrow> state (the_promise w' p) = PROMISE_STATE_PENDING)"
proof -
  have inv: "promise_inv w" using reachable_inv [OF assms(2) no_promises_inv [OF assms(1)]] by blast
  note t = taken_inv [OF inv assms(3,4)]
  have "resolve_fn strs get_then is_callable err env v w = (Throws e, w2)"
    using same_value_object [OF t(1), of strs v] assms(4-7) by (simp add: resolve_fn_def Let_def)
  moreover have "lost p w'" if "(promise_step strs is_callable)\<^sup>*\<^sup>* w2 w'" for w'
    using steps_move [OF rtranclp_trans [OF assms(8) that]] t(1-3) by (simp add: sound_move_def)
  ultimately show ?thesis by (auto simp: lost_def)
qed

theorem throwing_then_loses_promise_witness:
  "\<exists>w w2. resolving w = [(False, 0xFFFC800000001000)] \<and>
     resolve_fn (\<lambda>_. None) (plain_get (\<lambda>_. Throws TypeError)) (\<lambda>_. False) 0 0 0xFFFC800000002000 w = (Throws TypeError, w2) \<and>
     (\<forall>w'. (promise_step (\<lambda>_. None) (\<lambda>_. False))\<^sup>*\<^sup>* w2 w' \<longrightarrow>
       state (the_promise w' 0xFFFC800000001000) = PROMISE_STATE_PENDING)"
proof -
  let ?p = "0xFFFC800000001000 :: ejsval" and ?w = "snd (ejs_Promise_impl 0xFFFC800000001000 empty_world)"
  let ?get = "plain_get (\<lambda>_. Throws TypeError)"
  have w: "resolving ?w = [(False, ?p)]" by (simp add: ejs_Promise_impl_def CreateResolvingFunctions_def empty_world_def)
  have st: "(promise_step (\<lambda>_. None) (\<lambda>_. False))\<^sup>*\<^sup>* empty_world ?w"
    by (intro r_into_rtranclp promise_step.create) (simp_all add: sample_promise(2) empty_world_def)
  have o: "is_object 0xFFFC800000002000" by (simp add: tag_facts)
  have "0 < length (resolving ?w)" "resolving ?w ! 0 = (False, ?p)" using w by simp_all
  from throwing_then_loses_promise [OF sample_promise(1) st this o _ _ rtranclp.rtrancl_refl, of ?get TypeError 0]
  show ?thesis using w by (auto simp: plain_get_def)
qed

end
