(* ===== verification/ArrayMethods.thy ===== *)
theory ArrayMethods
  imports ArrayLaws
begin

text \<open>
  Methods of \<open>Array.prototype\<close> on dense arrays (\<open>src/runtime/ejs-array.c\<close>).  They work through \<open>Get\<close>,
  \<open>Put\<close>, \<open>HasProperty\<close> and \<open>DeletePropertyOrThrow\<close>, which lead to the internal methods of \<open>Arrays\<close>.  A
  callback is a function from its arguments and the array to a value and the array, which it may change.
\<close>

section \<open>Access by index\<close>

text \<open>What the methods take from elsewhere: the conversion of names, the name of an index (\<open>ToString\<close> of the
  number), the atom \<open>"length"\<close>, and \<open>[[HasProperty]]\<close> of ordinary objects.\<close>

record method_env =
  names :: array_env
  key_of :: "int \<Rightarrow> ejsval"
  atom_length :: ejsval
  ordinary_has :: "ejsval \<Rightarrow> bool outcome"

text \<open>An index is handled by the array's own method, except by \<open>[[HasProperty]]\<close> outside the array.\<close>

definition get_index :: "method_env \<Rightarrow> EJSArray \<Rightarrow> int \<Rightarrow> ejsval outcome" where
  "get_index env arr k = bind_outcome (ejs_array_specop_get (names env) arr (key_of env k)) (\<lambda>r.
     case r of Handled v \<Rightarrow> Return v | Ordinary \<Rightarrow> Aborts)"

definition has_index :: "method_env \<Rightarrow> EJSArray \<Rightarrow> int \<Rightarrow> bool outcome" where
  "has_index env arr k = bind_outcome (ejs_array_specop_has_property (names env) arr (key_of env k)) (\<lambda>r.
     case r of Handled b \<Rightarrow> Return b | Ordinary \<Rightarrow> ordinary_has env (key_of env k))"

definition or_throw :: "(bool \<times> EJSArray) handled \<Rightarrow> EJSArray outcome" where
  "or_throw r = (case r of Handled (b, arr) \<Rightarrow> if b then Return arr else Throws TypeError | Ordinary \<Rightarrow> Aborts)"

definition put_index :: "method_env \<Rightarrow> EJSArray \<Rightarrow> int \<Rightarrow> ejsval \<Rightarrow> EJSArray outcome" where
  "put_index env arr k v = bind_outcome (ejs_array_specop_set (names env) arr (key_of env k) v) or_throw"

text \<open>\<open>_ejs_object_setprop\<close> does not look at the result of \<open>[[Set]]\<close>.\<close>

definition ejs_array_setprop :: "method_env \<Rightarrow> EJSArray \<Rightarrow> ejsval \<Rightarrow> ejsval \<Rightarrow> EJSArray outcome" where
  "ejs_array_setprop env arr P v = bind_outcome (ejs_array_specop_set (names env) arr P v) (\<lambda>r.
     case r of Handled (b, arr) \<Rightarrow> Return arr | Ordinary \<Rightarrow> Aborts)"

definition delete_index :: "method_env \<Rightarrow> EJSArray \<Rightarrow> int \<Rightarrow> EJSArray outcome" where
  "delete_index env arr k = bind_outcome (ejs_array_specop_delete (names env) arr (key_of env k)) or_throw"

definition define_index :: "method_env \<Rightarrow> EJSArray \<Rightarrow> int \<Rightarrow> ejsval \<Rightarrow> EJSArray outcome" where
  "define_index env arr k v =
     bind_outcome (ejs_array_specop_define_own_property (names env) arr (key_of env k)
       \<lparr>flags = EJS_PROP_FLAGS_ENUMERABLE OR EJS_PROP_FLAGS_CONFIGURABLE OR EJS_PROP_FLAGS_WRITABLE OR EJS_PROP_FLAGS_VALUE_SET,
        value_or_getter = v, setter = 0\<rparr>) or_throw"

definition get_length :: "method_env \<Rightarrow> EJSArray \<Rightarrow> int outcome" where
  "get_length env arr = bind_outcome (ejs_array_specop_get (names env) arr (atom_length env)) (\<lambda>r.
     case r of Handled v \<Rightarrow> bind_outcome (to_number (names env) v) (\<lambda>d. of_option (ToLength d)) | Ordinary \<Rightarrow> Aborts)"

definition put_length :: "method_env \<Rightarrow> EJSArray \<Rightarrow> int \<Rightarrow> EJSArray outcome" where
  "put_length env arr n = bind_outcome (ejs_array_specop_set (names env) arr (atom_length env) (int_value n)) or_throw"

definition to_integer :: "method_env \<Rightarrow> ejsval \<Rightarrow> int outcome" where
  "to_integer env v = bind_outcome (to_number (names env) v) (\<lambda>d. of_option (ToInteger d))"

text \<open>The argument at a position, undefined when it was not passed.\<close>

definition arg :: "ejsval list \<Rightarrow> nat \<Rightarrow> ejsval" where
  "arg args i = (if i < length args then args ! i else ejs_undefined)"

text \<open>A relative position, and a relative end, clamped to the array with the 32-bit \<open>min\<close> and \<open>max\<close> of the file.\<close>

definition clamp :: "int \<Rightarrow> int \<Rightarrow> int" where
  "clamp len relative = (if relative < 0 then c_max (len + relative) 0 else c_min relative len)"

definition relative_end :: "method_env \<Rightarrow> int \<Rightarrow> ejsval \<Rightarrow> int outcome" where
  "relative_end env len e = (if EJSVAL_IS_UNDEFINED_IMPL e then Return len else to_integer env e)"

text \<open>Copying an element or its absence.\<close>

definition move_index :: "method_env \<Rightarrow> EJSArray \<Rightarrow> int \<Rightarrow> int \<Rightarrow> EJSArray outcome" where
  "move_index env arr from' to =
     bind_outcome (has_index env arr from') (\<lambda>fromPresent.
       if fromPresent then bind_outcome (get_index env arr from') (\<lambda>fromVal. put_index env arr to fromVal)
       else delete_index env arr to)"

section \<open>Methods that change the array\<close>

text \<open>The loop of \<open>reverse\<close> runs while \<open>lower\<close> differs from \<open>middle\<close>, which it never passes.\<close>

function reverse_loop :: "method_env \<Rightarrow> int \<Rightarrow> int \<Rightarrow> int \<Rightarrow> EJSArray \<Rightarrow> EJSArray outcome" where
  "reverse_loop env len middle lower arr =
     (if lower < middle then
        let upper = (len - lower - 1) mod 2 ^ 32 in
        bind_outcome (has_index env arr lower) (\<lambda>lowerExists.
        bind_outcome (if lowerExists then get_index env arr lower else Return 0) (\<lambda>lowerValue.
        bind_outcome (has_index env arr upper) (\<lambda>upperExists.
        bind_outcome (if upperExists then get_index env arr upper else Return 0) (\<lambda>upperValue.
        bind_outcome
          (if lowerExists \<and> upperExists then
             bind_outcome (put_index env arr lower upperValue) (\<lambda>arr. put_index env arr upper lowerValue)
           else if \<not> lowerExists \<and> upperExists then
             bind_outcome (put_index env arr lower upperValue) (\<lambda>arr. delete_index env arr upper)
           else if lowerExists \<and> \<not> upperExists then
             bind_outcome (delete_index env arr lower) (\<lambda>arr. put_index env arr upper lowerValue)
           else Return arr) (\<lambda>arr.
        reverse_loop env len middle (lower + 1) arr)))))
      else Return arr)"
  by pat_completeness auto
termination by (relation "measure (\<lambda>(env, len, middle, lower, arr). nat (middle - lower))") auto

definition ejs_Array_prototype_reverse :: "method_env \<Rightarrow> EJSArray \<Rightarrow> EJSArray outcome" where
  "ejs_Array_prototype_reverse env arr =
     bind_outcome (get_length env arr) (\<lambda>len. reverse_loop env len (len div 2) 0 arr)"

function fill_loop :: "method_env \<Rightarrow> ejsval \<Rightarrow> int \<Rightarrow> int \<Rightarrow> EJSArray \<Rightarrow> EJSArray outcome" where
  "fill_loop env v final k arr =
     (if k < final then bind_outcome (put_index env arr k v) (\<lambda>arr. fill_loop env v final (k + 1) arr)
      else Return arr)"
  by pat_completeness auto
termination by (relation "measure (\<lambda>(env, v, final, k, arr). nat (final - k))") auto

definition ejs_Array_prototype_fill :: "method_env \<Rightarrow> ejsval list \<Rightarrow> EJSArray \<Rightarrow> EJSArray outcome" where
  "ejs_Array_prototype_fill env args arr =
     bind_outcome (get_length env arr) (\<lambda>len.
     bind_outcome (to_integer env (arg args 1)) (\<lambda>relativeStart.
     bind_outcome (relative_end env len (arg args 2)) (\<lambda>relativeEnd.
       fill_loop env (arg args 0) (clamp len relativeEnd) (clamp len relativeStart) arr)))"

text \<open>The step of \<open>to\<close> is the one of the source, \<open>to += to + direction\<close>.\<close>

fun copyWithin_loop :: "method_env \<Rightarrow> int \<Rightarrow> int \<Rightarrow> int \<Rightarrow> nat \<Rightarrow> EJSArray \<Rightarrow> EJSArray outcome" where
  "copyWithin_loop env direction from' to 0 arr = Return arr"
| "copyWithin_loop env direction from' to (Suc count) arr =
     bind_outcome (move_index env arr from' to) (\<lambda>arr.
       copyWithin_loop env direction (from' + direction) (to + (to + direction)) count arr)"

definition ejs_Array_prototype_copyWithin :: "method_env \<Rightarrow> ejsval list \<Rightarrow> EJSArray \<Rightarrow> EJSArray outcome" where
  "ejs_Array_prototype_copyWithin env args arr =
     bind_outcome (get_length env arr) (\<lambda>len.
     bind_outcome (to_integer env (arg args 0)) (\<lambda>relativeTarget.
     bind_outcome (to_integer env (arg args 1)) (\<lambda>relativeStart.
     bind_outcome (relative_end env len (arg args 2)) (\<lambda>relativeEnd.
       let to = clamp len relativeTarget; from' = clamp len relativeStart; final = clamp len relativeEnd;
           count = (c_min (final - from') (len - to)) mod 2 ^ 32
       in if from' < to \<and> to < from' + count
          then copyWithin_loop env (- 1) (from' + count - 1) (to + count - 1) (nat count) arr
          else copyWithin_loop env 1 from' to (nat count) arr))))"

text \<open>The loops of \<open>splice\<close>: collecting the deleted elements, closing or opening the gap, storing the items.\<close>

function splice_collect :: "method_env \<Rightarrow> EJSArray \<Rightarrow> int \<Rightarrow> int \<Rightarrow> int \<Rightarrow> EJSArray \<Rightarrow> EJSArray outcome" where
  "splice_collect env arr actualStart actualDeleteCount k A =
     (if k < actualDeleteCount then
        bind_outcome (has_index env arr (actualStart + k)) (\<lambda>fromPresent.
        bind_outcome
          (if fromPresent then
             bind_outcome (get_index env arr (actualStart + k)) (\<lambda>fromValue.
               ejs_array_setprop env A (key_of env k) fromValue)
           else Return A) (\<lambda>A.
        splice_collect env arr actualStart actualDeleteCount (k + 1) A))
      else Return A)"
  by pat_completeness auto
termination by (relation "measure (\<lambda>(env, arr, s, n, k, A). nat (n - k))") auto

function splice_close :: "method_env \<Rightarrow> int \<Rightarrow> int \<Rightarrow> int \<Rightarrow> int \<Rightarrow> EJSArray \<Rightarrow> EJSArray outcome" where
  "splice_close env len actualDeleteCount itemCount k arr =
     (if k < len - actualDeleteCount then
        bind_outcome (move_index env arr (k + actualDeleteCount) (k + itemCount)) (\<lambda>arr.
          splice_close env len actualDeleteCount itemCount (k + 1) arr)
      else Return arr)"
  by pat_completeness auto
termination by (relation "measure (\<lambda>(env, len, d, i, k, arr). nat (len - d - k))") auto

function splice_trim :: "method_env \<Rightarrow> int \<Rightarrow> int \<Rightarrow> EJSArray \<Rightarrow> EJSArray outcome" where
  "splice_trim env bound k arr =
     (if k > bound then bind_outcome (delete_index env arr (k - 1)) (\<lambda>arr. splice_trim env bound (k - 1) arr)
      else Return arr)"
  by pat_completeness auto
termination by (relation "measure (\<lambda>(env, bound, k, arr). nat (k - bound))") auto

function splice_open :: "method_env \<Rightarrow> int \<Rightarrow> int \<Rightarrow> int \<Rightarrow> int \<Rightarrow> EJSArray \<Rightarrow> EJSArray outcome" where
  "splice_open env actualStart actualDeleteCount itemCount k arr =
     (if k > actualStart then
        bind_outcome (move_index env arr (k + actualDeleteCount - 1) (k + itemCount - 1)) (\<lambda>arr.
          splice_open env actualStart actualDeleteCount itemCount (k - 1) arr)
      else Return arr)"
  by pat_completeness auto
termination by (relation "measure (\<lambda>(env, s, d, i, k, arr). nat (k - s))") auto

fun put_items :: "method_env \<Rightarrow> int \<Rightarrow> ejsval list \<Rightarrow> EJSArray \<Rightarrow> EJSArray outcome" where
  "put_items env k [] arr = Return arr"
| "put_items env k (E # items) arr = bind_outcome (put_index env arr k E) (\<lambda>arr. put_items env (k + 1) items arr)"

declare reverse_loop.simps [simp del] fill_loop.simps [simp del] splice_collect.simps [simp del]
  splice_close.simps [simp del] splice_trim.simps [simp del] splice_open.simps [simp del]

definition ejs_Array_prototype_splice ::
  "method_env \<Rightarrow> (int \<Rightarrow> EJSArray outcome) \<Rightarrow> ejsval list \<Rightarrow> EJSArray \<Rightarrow> (EJSArray \<times> EJSArray) outcome" where
  "ejs_Array_prototype_splice env species args arr =
     bind_outcome (get_length env arr) (\<lambda>len.
     bind_outcome (to_integer env (arg args 0)) (\<lambda>relativeStart.
     let actualStart = clamp len relativeStart; argc = length args in
     bind_outcome
       (if argc = 0 then Return (0, 0)
        else if argc = 1 then Return (0, len - actualStart)
        else bind_outcome (to_integer env (arg args 1)) (\<lambda>dc.
          Return (int argc - 2, c_min (c_max dc 0) (len - actualStart)))) (\<lambda>(insertCount, actualDeleteCount).
     if len + insertCount - actualDeleteCount > EJS_MAX_SAFE_INTEGER then Throws TypeError
     else
       bind_outcome (species actualDeleteCount) (\<lambda>A.
       bind_outcome (splice_collect env arr actualStart actualDeleteCount 0 A) (\<lambda>A.
       bind_outcome (put_length env A actualDeleteCount) (\<lambda>A.
       let items = drop 2 args; itemCount = int (length items) in
       bind_outcome
         (if itemCount < actualDeleteCount then
            bind_outcome (splice_close env len actualDeleteCount itemCount actualStart arr) (\<lambda>arr.
              splice_trim env (len - actualDeleteCount + itemCount) len arr)
          else splice_open env actualStart actualDeleteCount itemCount (len - actualDeleteCount) arr) (\<lambda>arr.
       bind_outcome (put_items env actualStart items arr) (\<lambda>arr.
       bind_outcome (put_length env arr (len - actualDeleteCount + itemCount)) (\<lambda>arr.
         Return (A, arr))))))))))"

section \<open>Searches\<close>

function indexOf_loop :: "method_env \<Rightarrow> EJSArray \<Rightarrow> ejsval \<Rightarrow> int \<Rightarrow> int \<Rightarrow> int outcome" where
  "indexOf_loop env arr searchElement len k =
     (if k < len then
        bind_outcome (has_index env arr k) (\<lambda>kPresent.
          if kPresent then
            bind_outcome (get_index env arr k) (\<lambda>elementK.
            bind_outcome (of_option (ejs_op_strict_eq (texts (names env)) searchElement elementK)) (\<lambda>same.
              if same then Return k else indexOf_loop env arr searchElement len (k + 1)))
          else indexOf_loop env arr searchElement len (k + 1))
      else Return (- 1))"
  by pat_completeness auto
termination by (relation "measure (\<lambda>(env, arr, s, len, k). nat (len - k))") auto

definition ejs_Array_prototype_indexOf :: "method_env \<Rightarrow> ejsval list \<Rightarrow> EJSArray \<Rightarrow> ejsval outcome" where
  "ejs_Array_prototype_indexOf env args arr =
     bind_outcome (get_length env arr) (\<lambda>len.
     if len = 0 then Return (int_value (- 1))
     else bind_outcome (if length args > 1 then to_integer env (arg args 1) else Return 0) (\<lambda>n.
       if n \<ge> len then Return (int_value (- 1))
       else let k = (if n \<ge> 0 then n else len - \<bar>n\<bar>); k = (if k < 0 then 0 else k) in
         bind_outcome (indexOf_loop env arr (arg args 0) len k) (\<lambda>r. Return (int_value r))))"

function lastIndexOf_loop :: "method_env \<Rightarrow> EJSArray \<Rightarrow> ejsval \<Rightarrow> int \<Rightarrow> int outcome" where
  "lastIndexOf_loop env arr searchElement k =
     (if k \<ge> 0 then
        bind_outcome (has_index env arr k) (\<lambda>kPresent.
          if kPresent then
            bind_outcome (get_index env arr k) (\<lambda>elementK.
            bind_outcome (of_option (ejs_op_strict_eq (texts (names env)) searchElement elementK)) (\<lambda>same.
              if same then Return k else lastIndexOf_loop env arr searchElement (k - 1)))
          else lastIndexOf_loop env arr searchElement (k - 1))
      else Return (- 1))"
  by pat_completeness auto
termination by (relation "measure (\<lambda>(env, arr, s, k). nat (k + 1))") auto

declare indexOf_loop.simps [simp del] lastIndexOf_loop.simps [simp del]

definition ejs_Array_prototype_lastIndexOf :: "method_env \<Rightarrow> ejsval list \<Rightarrow> EJSArray \<Rightarrow> ejsval outcome" where
  "ejs_Array_prototype_lastIndexOf env args arr =
     bind_outcome (get_length env arr) (\<lambda>len.
     if len = 0 then Return (int_value (- 1))
     else bind_outcome (if length args > 1 then to_integer env (args ! 1) else Return (len - 1)) (\<lambda>n.
       bind_outcome (lastIndexOf_loop env arr (arg args 0) (if n \<ge> 0 then c_min n (len - 1) else len - \<bar>n\<bar>)) (\<lambda>r.
         Return (int_value r))))"

end
