(* ===== verification/ArrayMethodLaws.thy ===== *)
theory ArrayMethodLaws
  imports ArrayMethods
begin

text \<open>
  What the methods of arrays compute, on dense arrays with holes: each loop is followed on the sequence of
  elements, seen as a function from indices to values that is a hole outside the array.
\<close>

section \<open>Access by index\<close>

text \<open>The documented behaviour of the conversions: the text of an index converts back to it, \<open>"length"\<close> is not a
  number, and a number converts to itself.\<close>

definition env_ok :: "method_env \<Rightarrow> bool" where
  "env_ok env \<longleftrightarrow>
     (\<forall>k. 0 \<le> k \<and> k \<le> INT_MAX \<longrightarrow> property_index (names env) (key_of env k) = Return (Some k)) \<and>
     property_index (names env) (atom_length env) = Return None \<and> is_length_name (names env) (atom_length env) \<and>
     (\<forall>i. \<bar>i\<bar> < 2 ^ 53 \<longrightarrow> to_number (names env) (int_value i) = Return (int_value i))"

lemma env_index: "env_ok env \<Longrightarrow> room k \<Longrightarrow> property_index (names env) (key_of env (int k)) = Return (Some (int k))"
  by (simp add: env_ok_def room_def)

definition view :: "ejsval list \<Rightarrow> nat \<Rightarrow> ejsval" where
  "view xs j = (if j < length xs then xs ! j else hole)"

definition clean :: "ejsval list \<Rightarrow> bool" where
  "clean xs \<longleftrightarrow> (\<forall>x\<in>set xs. EJSVAL_IS_ARRAY_HOLE_MAGIC x \<longrightarrow> x = hole)"

lemma is_hole [simp]: "EJSVAL_IS_ARRAY_HOLE_MAGIC hole"
  by (simp add: EJSVAL_IS_ARRAY_HOLE_MAGIC_def hole_def MAGIC_TO_EJSVAL_IMPL_def tag_facts tag_defs EJSVAL_TO_INT32_IMPL_def)

lemma clean_nth: "clean xs \<Longrightarrow> k < length xs \<Longrightarrow> EJSVAL_IS_ARRAY_HOLE_MAGIC (xs ! k) \<longleftrightarrow> xs ! k = hole"
  by (auto simp: clean_def)

lemma clean_store: "clean xs \<Longrightarrow> EJSVAL_IS_ARRAY_HOLE_MAGIC v \<longrightarrow> v = hole \<Longrightarrow> clean (store_at k hole v xs)"
  using set_update_subset_insert [of xs k v] by (auto simp: clean_def store_at_def split: if_splits)

lemma clean_delete: "clean xs \<Longrightarrow> clean (xs[k := hole])"
  using set_update_subset_insert [of xs k hole] by (auto simp: clean_def)

lemma view_store [simp]: "view (store_at k hole v xs) = (view xs)(k := v)"
  by (rule ext) (auto simp: view_def nth_store_at)

lemma view_delete [simp]: "view (xs[k := hole]) = (view xs)(k := hole)"
  by (rule ext) (auto simp: view_def nth_list_update)

lemma view_eqI: "length xs = length ys \<Longrightarrow> (\<And>j. j < length xs \<Longrightarrow> view xs j = view ys j) \<Longrightarrow> xs = ys"
  by (rule nth_equalityI) (auto simp: view_def)

lemma seq_room: "array_seq arr xs \<Longrightarrow> room (length xs)"
  by (simp add: array_seq_def)

lemma room_mono: "room n \<Longrightarrow> m \<le> n \<Longrightarrow> room m"
  by (simp add: room_def)

lemma length_seq:
  assumes env: "env_ok env" and a: "array_seq arr xs"
  shows "get_length env arr = Return (int (length xs))"
proof -
  have l: "array_length arr = int (length xs)" "int (length xs) \<le> INT_MAX" using a by (auto simp: array_seq_def room_def dest: holds_length)
  then have "\<bar>int (length xs)\<bar> < 2 ^ 53" by (simp add: INT_MAX_def)
  then show ?thesis using env l int_value_facts(3) [of "int (length xs)"]
    by (simp add: get_length_def env_ok_def ejs_array_specop_get_def)
qed

lemma has_seq:
  assumes env: "env_ok env" and a: "array_seq arr xs" "k < length xs"
  shows "has_index env arr (int k) = Return (\<not> EJSVAL_IS_ARRAY_HOLE_MAGIC (xs ! k))"
  using has_index_holds [of arr xs "names env" "key_of env (int k)" "int k"] a
    env_index [OF env, of k] room_mono [OF seq_room [OF a(1)], of k] by (simp add: has_index_def array_seq_def)

lemma get_seq:
  assumes env: "env_ok env" and a: "array_seq arr xs" "k < length xs"
  shows "get_index env arr (int k) = Return (shown (xs ! k))"
  using get_shown [OF a(1), of "names env" "key_of env (int k)" "int k"] a(2)
    env_index [OF env, of k] room_mono [OF seq_room [OF a(1)], of k] by (simp add: get_index_def)

lemma put_seq:
  assumes env: "env_ok env" and a: "array_seq arr xs" "room (Suc k)"
  shows "\<exists>arr'. put_index env arr (int k) v = Return arr' \<and> array_seq arr' (store_at k hole v xs)"
    "\<exists>arr'. ejs_array_setprop env arr (key_of env (int k)) v = Return arr' \<and> array_seq arr' (store_at k hole v xs)"
    "\<exists>arr'. define_index env arr (int k) v = Return arr' \<and> array_seq arr' (store_at k hole v xs)"
  using set_seq [OF a, of "names env" "key_of env (int k)" v]
    define_seq [OF a, of "names env" "key_of env (int k)" "\<lparr>flags = EJS_PROP_FLAGS_ENUMERABLE OR EJS_PROP_FLAGS_CONFIGURABLE OR
      EJS_PROP_FLAGS_WRITABLE OR EJS_PROP_FLAGS_VALUE_SET, value_or_getter = v, setter = 0\<rparr>"]
    env_index [OF env room_mono [OF a(2)], of k]
  by (auto simp: put_index_def ejs_array_setprop_def define_index_def or_throw_def)

lemma remove_seq:
  assumes env: "env_ok env" and a: "array_seq arr xs" "room k"
  shows "\<exists>arr'. delete_index env arr (int k) = Return arr' \<and> array_seq arr' (xs[k := hole])"
  using delete_seq [OF a(1), of "names env" "key_of env (int k)" k] env_index [OF env a(2)]
  by (auto simp: delete_index_def or_throw_def)

lemma put_length_seq:
  assumes env: "env_ok env" and a: "array_seq arr xs" "room n"
  shows "\<exists>arr'. put_length env arr (int n) = Return arr' \<and> array_seq arr' (resize n hole xs)"
proof -
  have n: "\<bar>int n\<bar> < 2 ^ 53" using a(2) by (simp add: room_def INT_MAX_def)
  then have "ToLength (int_value (int n)) = Some (int n)" using int_value_facts(3) [of "int n"] by simp
  then show ?thesis using set_length_seq [OF a, of "names env" "atom_length env" "int_value (int n)" "int_value (int n)"] env n
    by (auto simp: put_length_def env_ok_def or_throw_def)
qed

lemma move_seq:
  assumes env: "env_ok env" and a: "array_seq arr xs" "clean xs" "i < length xs" "room (Suc k)"
  shows "\<exists>arr' ys. move_index env arr (int i) (int k) = Return arr' \<and> array_seq arr' ys \<and> clean ys \<and>
    length xs \<le> length ys \<and> length ys \<le> max (length xs) (Suc k) \<and> view ys = (view xs)(k := xs ! i)"
proof (cases "EJSVAL_IS_ARRAY_HOLE_MAGIC (xs ! i)")
  case True
  then have "xs ! i = hole" using clean_nth [OF a(2,3)] by simp
  then show ?thesis using True remove_seq [OF env a(1), of k] has_seq [OF env a(1,3)] room_mono [OF a(4)] clean_delete [OF a(2)]
    by (fastforce simp: move_index_def)
next
  case False
  then have "shown (xs ! i) = xs ! i" by (simp add: shown_def)
  then show ?thesis using False put_seq(1) [OF env a(1,4), of "xs ! i"] has_seq [OF env a(1,3)] get_seq [OF env a(1,3)]
      clean_store [OF a(2), of "xs ! i" k] by (fastforce simp: move_index_def)
qed

section \<open>reverse and fill\<close>

text \<open>One round of \<open>reverse\<close> exchanges two elements, either of which may be a hole.\<close>

lemma reverse_round:
  assumes env: "env_ok env" and a: "array_seq arr xs" "clean xs" "i < j" "j < length xs"
  shows "\<exists>arr'. bind_outcome (has_index env arr (int i)) (\<lambda>lowerExists.
      bind_outcome (if lowerExists then get_index env arr (int i) else Return 0) (\<lambda>lowerValue.
      bind_outcome (has_index env arr (int j)) (\<lambda>upperExists.
      bind_outcome (if upperExists then get_index env arr (int j) else Return 0) (\<lambda>upperValue.
      bind_outcome
        (if lowerExists \<and> upperExists then
           bind_outcome (put_index env arr (int i) upperValue) (\<lambda>arr. put_index env arr (int j) lowerValue)
         else if \<not> lowerExists \<and> upperExists then
           bind_outcome (put_index env arr (int i) upperValue) (\<lambda>arr. delete_index env arr (int j))
         else if lowerExists \<and> \<not> upperExists then
           bind_outcome (delete_index env arr (int i)) (\<lambda>arr. put_index env arr (int j) lowerValue)
         else Return arr) K)))) = K arr' \<and> array_seq arr' (xs[i := xs ! j, j := xs ! i])"
proof -
  have r: "room (Suc i)" "room (Suc j)" "room i" "room j" using room_mono [OF seq_room [OF a(1)]] a(3,4) by simp_all
  have put: "\<exists>arr'. put_index env arr (int k) v = Return arr' \<and> array_seq arr' (ys[k := v])"
    if "array_seq arr ys" "length ys = length xs" "k = i \<or> k = j" for arr ys k v
    using put_seq(1) [OF env that(1), of k v] that(2,3) r(1,2) a(3,4) by (auto simp: store_at_def)
  have del: "\<exists>arr'. delete_index env arr (int k) = Return arr' \<and> array_seq arr' (ys[k := hole])"
    if "array_seq arr ys" "k = i \<or> k = j" for arr ys k using remove_seq [OF env that(1), of k] that(2) r(3,4) by auto
  have ij: "i < length xs" "j < length xs" using a(3,4) by simp_all
  note acc = has_seq [OF env a(1) ij(1)] has_seq [OF env a(1) ij(2)] get_seq [OF env a(1) ij(1)] get_seq [OF env a(1) ij(2)]
    clean_nth [OF a(2) ij(1)] clean_nth [OF a(2) ij(2)]
  let ?lo = "xs ! i" and ?hi = "xs ! j"
  consider "?lo = hole" "?hi = hole" | "?lo = hole" "?hi \<noteq> hole" | "?lo \<noteq> hole" "?hi = hole" | "?lo \<noteq> hole" "?hi \<noteq> hole" by blast
  then show ?thesis
  proof cases
    case 1
    then have "xs[i := ?hi, j := ?lo] = xs" by (metis list_update_id)
    then show ?thesis using 1 acc a(1) by auto
  next
    case 2
    obtain arr1 where p: "put_index env arr (int i) ?hi = Return arr1" "array_seq arr1 (xs[i := ?hi])" using put [OF a(1)] by auto
    obtain arr2 where "delete_index env arr1 (int j) = Return arr2" "array_seq arr2 (xs[i := ?hi, j := hole])" using del [OF p(2), of j] by auto
    then show ?thesis using 2 acc p(1) by (auto simp: shown_def)
  next
    case 3
    obtain arr1 where p: "delete_index env arr (int i) = Return arr1" "array_seq arr1 (xs[i := hole])" using del [OF a(1), of i] by auto
    obtain arr2 where "put_index env arr1 (int j) ?lo = Return arr2" "array_seq arr2 (xs[i := hole, j := ?lo])" using put [OF p(2), of j ?lo] by auto
    then show ?thesis using 3 acc p(1) by (auto simp: shown_def)
  next
    case 4
    obtain arr1 where p: "put_index env arr (int i) ?hi = Return arr1" "array_seq arr1 (xs[i := ?hi])" using put [OF a(1)] by auto
    obtain arr2 where "put_index env arr1 (int j) ?lo = Return arr2" "array_seq arr2 (xs[i := ?hi, j := ?lo])" using put [OF p(2), of j ?lo] by auto
    then show ?thesis using 4 acc p(1) by (auto simp: shown_def)
  qed
qed

lemma reverse_loop_seq:
  assumes env: "env_ok env" and a: "array_seq arr ys" "clean ys" "length ys = length xs" "l \<le> length xs div 2"
    "\<And>j. j < length xs \<Longrightarrow> ys ! j = (if j < l \<or> length xs - 1 - l < j then xs ! (length xs - 1 - j) else xs ! j)"
  shows "\<exists>arr'. reverse_loop env (int (length xs)) (int (length xs div 2)) (int l) arr = Return arr' \<and> array_seq arr' (rev xs)"
  using a
proof (induction "length xs div 2 - l" arbitrary: l arr ys)
  case 0
  then have l: "l = length xs div 2" by simp
  have "ys = rev xs"
  proof (rule nth_equalityI)
    fix j assume j: "j < length ys"
    then have "xs ! j = xs ! (length xs - 1 - j)" if "\<not> (j < l \<or> length xs - 1 - l < j)"
    proof -
      have "j = length xs - 1 - j" using that l j "0.prems"(3) by linarith
      then show ?thesis by simp
    qed
    then show "ys ! j = rev xs ! j" using "0.prems"(3,5) j by (auto simp: rev_nth)
  qed (simp add: "0.prems"(3))
  then show ?case using 0 l by (auto simp: reverse_loop.simps)
next
  case (Suc n)
  let ?u = "length xs - 1 - l"
  have l: "l < length xs div 2" "l < ?u" "?u < length ys" "int ?u = int (length xs) - int l - 1" using Suc.hyps(2) Suc.prems(3) by linarith+
  have "int (length xs) < 2 ^ 32" using seq_room [OF Suc.prems(1)] Suc.prems(3) by (simp add: room_def INT_MAX_def)
  then have upper: "(int (length xs) - int l - 1) mod 2 ^ 32 = int ?u" using l(4) by (simp add: l(4) [symmetric])
  let ?zs = "ys[l := ys ! ?u, ?u := ys ! l]"
  obtain arr' where r: "reverse_loop env (int (length xs)) (int (length xs div 2)) (int l) arr =
      reverse_loop env (int (length xs)) (int (length xs div 2)) (int l + 1) arr'" "array_seq arr' ?zs"
    using reverse_round [OF env Suc.prems(1,2) l(2,3), of "reverse_loop env (int (length xs)) (int (length xs div 2)) (int l + 1)"]
      reverse_loop.simps [of env "int (length xs)" "int (length xs div 2)" "int l" arr] l(1)
    by (auto simp only: upper Let_def of_nat_less_iff if_True)
  have "set ?zs \<subseteq> set ys" using l(2,3) by (auto simp: in_set_conv_nth nth_list_update split: if_splits)
  then have "clean ?zs" using Suc.prems(2) by (auto simp: clean_def)
  moreover have "?zs ! j = (if j < Suc l \<or> length xs - 1 - Suc l < j then xs ! (length xs - 1 - j) else xs ! j)" if "j < length xs" for j
    using that l(1-3) Suc.prems(3) Suc.prems(5) [of j] Suc.prems(5) [of l] Suc.prems(5) [of ?u]
    by (cases "j = l"; cases "j = ?u") (auto simp: nth_list_update)
  ultimately show ?case using Suc.hyps(1) [of "Suc l" arr' ?zs] Suc.hyps(2) r Suc.prems(3) l(1) by (simp add: add.commute)
qed

text \<open>Reverse reverses a dense array in place, holes included.\<close>

theorem reverse_reverses:
  assumes "env_ok env" "array_seq arr xs" "clean xs"
  shows "\<exists>arr'. ejs_Array_prototype_reverse env arr = Return arr' \<and> array_seq arr' (rev xs)"
proof -
  have "xs ! j = (if j < 0 \<or> length xs - 1 - 0 < j then xs ! (length xs - 1 - j) else xs ! j)" if "j < length xs" for j
    using that by auto
  then show ?thesis using reverse_loop_seq [OF assms refl, of 0] length_seq [OF assms(1,2)]
    by (simp add: ejs_Array_prototype_reverse_def zdiv_int)
qed

section \<open>splice\<close>

lemma view_resize: "view (resize n hole xs) j = (if j < n then view xs j else hole)"
  by (auto simp: view_def resize_def nth_append min_def)

text \<open>Closing the gap: the elements from \<open>k + d\<close> on move down to \<open>k + m\<close>.\<close>

lemma splice_close_seq:
  assumes env: "env_ok env" and a: "array_seq arr ys" "clean ys" "length ys = length xs" "d \<le> length xs" "m < d"
    "s \<le> k" "k \<le> length xs - d" "\<And>j. view ys j = (if s + m \<le> j \<and> j < k + m then view xs (j - m + d) else view xs j)"
  shows "\<exists>arr' zs. splice_close env (int (length xs)) (int d) (int m) (int k) arr = Return arr' \<and> array_seq arr' zs \<and> clean zs \<and>
    length zs = length xs \<and> (\<forall>j. view zs j = (if s + m \<le> j \<and> j < length xs - d + m then view xs (j - m + d) else view xs j))"
  using a
proof (induction "length xs - d - k" arbitrary: k arr ys)
  case 0
  then have "k = length xs - d" by simp
  then show ?case using 0 by (auto simp: splice_close.simps of_nat_diff)
next
  case (Suc n)
  have k: "k + d < length ys" "int k < int (length xs) - int d" using Suc.hyps(2) Suc.prems(3) by linarith+
  have "room (Suc (k + m))" using room_mono [OF seq_room [OF Suc.prems(1)], of "Suc (k + m)"] k(1) Suc.prems(5) by simp
  then obtain arr' zs where mv: "move_index env arr (int (k + d)) (int (k + m)) = Return arr'" "array_seq arr' zs" "clean zs"
    "length ys \<le> length zs" "length zs \<le> max (length ys) (Suc (k + m))" "view zs = (view ys)(k + m := ys ! (k + d))"
    using move_seq [OF env Suc.prems(1,2) k(1)] by blast
  have step: "splice_close env (int (length xs)) (int d) (int m) (int k) arr =
      splice_close env (int (length xs)) (int d) (int m) (int (Suc k)) arr'"
    using mv(1) k(2) by (subst splice_close.simps) (simp add: add.commute)
  have "ys ! (k + d) = view xs (k + d)" using Suc.prems(8) [of "k + d"] k(1) Suc.prems(5) by (simp add: view_def split: if_splits)
  then have v: "view zs j = (if s + m \<le> j \<and> j < Suc k + m then view xs (j - m + d) else view xs j)" for j
    using Suc.prems(6) Suc.prems(8) [of j] by (auto simp: mv(6))
  show ?case unfolding step using Suc.hyps(2) Suc.prems(3-7) k mv(4,5) by (intro Suc.hyps(1) [OF _ mv(2,3) _ _ _ _ _ v]) auto
qed

lemma splice_trim_seq:
  assumes env: "env_ok env" and a: "array_seq arr ys" "b \<le> k" "k \<le> length ys"
  shows "\<exists>arr' zs. splice_trim env (int b) (int k) arr = Return arr' \<and> array_seq arr' zs \<and> length zs = length ys \<and>
    (\<forall>j<b. view zs j = view ys j)"
  using a
proof (induction "k - b" arbitrary: k arr ys)
  case 0
  then show ?case by (auto simp: splice_trim.simps)
next
  case (Suc n)
  then obtain k' where k': "k = Suc k'" by (cases k) auto
  have "room k'" using room_mono [OF seq_room [OF Suc.prems(1)]] Suc.prems(3) k' by simp
  then obtain arr' where d: "delete_index env arr (int k') = Return arr'" "array_seq arr' (ys[k' := hole])"
    using remove_seq [OF env Suc.prems(1)] by blast
  have step: "splice_trim env (int b) (int k) arr = splice_trim env (int b) (int k') arr'"
    using d(1) Suc.hyps(2) k' by (subst splice_trim.simps) auto
  have "b \<le> k'" using Suc.hyps(2) k' by simp
  then show ?case unfolding step using Suc.hyps(1) [of k' arr' "ys[k' := hole]"] Suc.hyps(2) Suc.prems(3) k' d(2) by fastforce
qed

text \<open>Opening the gap: the elements from the end down to \<open>s + d\<close> move up.\<close>

lemma splice_open_seq:
  assumes env: "env_ok env" and a: "array_seq arr ys" "clean ys" "length xs \<le> length ys" "length ys \<le> length xs - d + m"
    "d \<le> m" "s \<le> k" "k \<le> length xs - d" "d \<le> length xs" "room (length xs - d + m)"
    "\<And>j. view ys j = (if k + m \<le> j \<and> j < length xs - d + m then view xs (j - m + d) else view xs j)"
  shows "\<exists>arr' zs. splice_open env (int s) (int d) (int m) (int k) arr = Return arr' \<and> array_seq arr' zs \<and>
    length zs \<le> length xs - d + m \<and>
    (\<forall>j. view zs j = (if s + m \<le> j \<and> j < length xs - d + m then view xs (j - m + d) else view xs j))"
  using a
proof (induction "k - s" arbitrary: k arr ys)
  case 0
  then show ?case by (auto simp: splice_open.simps)
next
  case (Suc n)
  then obtain k' where k': "k = Suc k'" by (cases k) auto
  have k: "k' + d < length ys" "s \<le> k'" using Suc.hyps(2) Suc.prems(3,7,8) k' by linarith+
  have "room (Suc (k' + m))" using room_mono [OF Suc.prems(9), of "Suc (k' + m)"] Suc.prems(7) k' by simp
  then obtain arr' zs where mv: "move_index env arr (int (k' + d)) (int (k' + m)) = Return arr'" "array_seq arr' zs" "clean zs"
    "length ys \<le> length zs" "length zs \<le> max (length ys) (Suc (k' + m))" "view zs = (view ys)(k' + m := ys ! (k' + d))"
    using move_seq [OF env Suc.prems(1,2) k(1)] by blast
  have step: "splice_open env (int s) (int d) (int m) (int k) arr = splice_open env (int s) (int d) (int m) (int k') arr'"
    using mv(1) Suc.hyps(2) k' by (subst splice_open.simps) auto
  have "ys ! (k' + d) = view xs (k' + d)" using Suc.prems(10) [of "k' + d"] k(1) Suc.prems(5) k' by (simp add: view_def split: if_splits)
  then have v: "view zs j = (if k' + m \<le> j \<and> j < length xs - d + m then view xs (j - m + d) else view xs j)" for j
    using Suc.prems(7) Suc.prems(10) [of j] k' by (auto simp: mv(6))
  show ?case unfolding step using Suc.hyps(2) Suc.prems(3-9) k k' mv by (intro Suc.hyps(1) [OF _ mv(2,3) _ _ _ _ _ _ _ v]) auto
qed

lemma put_items_seq:
  assumes env: "env_ok env" and a: "array_seq arr ys" "room (s + length items)"
  shows "\<exists>arr' zs. put_items env (int s) items arr = Return arr' \<and> array_seq arr' zs \<and>
    length zs \<le> max (length ys) (s + length items) \<and>
    (\<forall>j. view zs j = (if s \<le> j \<and> j < s + length items then items ! (j - s) else view ys j))"
  using a
proof (induction items arbitrary: s arr ys)
  case (Cons E items)
  obtain arr' where p: "put_index env arr (int s) E = Return arr'" "array_seq arr' (store_at s hole E ys)"
    using put_seq(1) [OF env Cons.prems(1), of s E] room_mono [OF Cons.prems(2)] by auto
  obtain arr2 zs where r: "put_items env (int (Suc s)) items arr' = Return arr2" "array_seq arr2 zs"
    "length zs \<le> max (length (store_at s hole E ys)) (Suc s + length items)"
    "\<forall>j. view zs j = (if Suc s \<le> j \<and> j < Suc s + length items then items ! (j - Suc s) else view (store_at s hole E ys) j)"
    using Cons.IH [OF p(2), of "Suc s"] Cons.prems(2) by auto
  have "view zs j = (if s \<le> j \<and> j < s + length (E # items) then (E # items) ! (j - s) else view ys j)" for j
    using r(4) by (auto simp: nth_Cons')
  then show ?case using p(1) r(1-3) by (auto simp: add.commute intro!: exI [of _ zs])
qed (auto simp: view_def)

text \<open>The deleted elements, none of them a hole, are stored one after the other in the new array.\<close>

lemma splice_collect_seq:
  assumes env: "env_ok env" and a: "array_seq arr xs" "s + d \<le> length xs" "\<forall>x\<in>set (take d (drop s xs)). \<not> EJSVAL_IS_ARRAY_HOLE_MAGIC x"
    "k \<le> d" "holds A (map Some (take k (drop s xs)) @ replicate (d - k) None)"
  shows "\<exists>A'. splice_collect env arr (int s) (int d) (int k) A = Return A' \<and> holds A' (map Some (take d (drop s xs)))"
  using a(4,5)
proof (induction "d - k" arbitrary: k A)
  case 0
  then show ?case by (auto simp: splice_collect.simps)
next
  case (Suc n)
  have k: "k < d" "s + k < length xs" using Suc.hyps(2) a(2) by simp_all
  then have "xs ! (s + k) \<in> set (take d (drop s xs))" using a(2) by (auto simp: in_set_conv_nth intro!: exI [of _ k])
  then have nh: "\<not> EJSVAL_IS_ARRAY_HOLE_MAGIC (xs ! (s + k))" using a(3) by blast
  have rm: "room k" "room (Suc k)" using room_mono [OF seq_room [OF a(1)]] k(2) by simp_all
  let ?ys = "map Some (take k (drop s xs)) @ replicate (d - k) None"
  obtain A' where A': "ejs_array_specop_set (names env) A (key_of env (int k)) (xs ! (s + k)) = Return (Handled (True, A'))"
    "holds A' (store_at k (Some hole) (Some (xs ! (s + k))) ?ys)"
    using set_index_holds [OF Suc.prems(2) _ env_index [OF env rm(1)], of "xs ! (s + k)"] rm(2) by (auto simp: room_def)
  have "take (Suc k) (drop s xs) = take k (drop s xs) @ [xs ! (s + k)]" using k(2) by (simp add: take_Suc_conv_app_nth)
  moreover have "replicate (d - k) None = None # replicate (d - Suc k) (None :: ejsval option)" using k(1) by (cases "d - k") auto
  ultimately have "store_at k (Some hole) (Some (xs ! (s + k))) ?ys = map Some (take (Suc k) (drop s xs)) @ replicate (d - Suc k) None"
    using k by (simp add: store_at_def list_update_append)
  moreover have "splice_collect env arr (int s) (int d) (int k) A = splice_collect env arr (int s) (int d) (int (Suc k)) A'"
    using has_seq [OF env a(1) k(2)] get_seq [OF env a(1) k(2)] nh A'(1) k(1)
    by (subst splice_collect.simps) (simp add: ejs_array_setprop_def shown_def add.commute)
  moreover have "n = d - Suc k" using Suc.hyps(2) by simp
  ultimately show ?case using Suc.hyps(1) [of "Suc k" A'] A'(2) k(1) by auto
qed

lemma clamp_spec:
  assumes "int n \<le> INT_MAX" "\<bar>r\<bar> \<le> INT_MAX"
  shows "clamp (int n) r = (if r < 0 then max (int n + r) 0 else min r (int n))"
proof -
  have "c_int (int n) = int n" "c_int 0 = 0" using assms(1) by (simp_all add: c_int_id INT_MAX_def)
  moreover have "c_int (int n + r) = int n + r" if "r < 0" using that assms by (intro c_int_id) (simp_all add: INT_MAX_def)
  moreover have "c_int r = r" using assms(2) by (intro c_int_id) (auto simp: INT_MAX_def)
  ultimately show ?thesis by (simp add: clamp_def c_max_def c_min_def)
qed

text \<open>The state before the items are stored: everything is in its final place.\<close>

lemma splice_gap_seq:
  assumes env: "env_ok env" and a: "array_seq arr xs" "clean xs" "s + d \<le> length xs" "room (length xs - d + m)"
  shows "\<exists>arr' zs. (if int m < int d then
        bind_outcome (splice_close env (int (length xs)) (int d) (int m) (int s) arr) (\<lambda>arr.
          splice_trim env (int (length xs) - int d + int m) (int (length xs)) arr)
      else splice_open env (int s) (int d) (int m) (int (length xs) - int d) arr) = Return arr' \<and> array_seq arr' zs \<and>
    length zs \<le> max (length xs) (length xs - d + m) \<and>
    (\<forall>j<length xs - d + m. view zs j = (if s + m \<le> j then view xs (j - m + d) else view xs j))"
proof (cases "m < d")
  case True
  let ?b = "length xs - d + m"
  obtain arr1 ys where c: "splice_close env (int (length xs)) (int d) (int m) (int s) arr = Return arr1" "array_seq arr1 ys"
    "length ys = length xs" "\<forall>j. view ys j = (if s + m \<le> j \<and> j < ?b then view xs (j - m + d) else view xs j)"
  proof -
    have v: "view xs j = (if s + m \<le> j \<and> j < s + m then view xs (j - m + d) else view xs j)" for j by auto
    have "d \<le> length xs" "s \<le> length xs - d" using a(3) by simp_all
    from splice_close_seq [OF env a(1,2) refl this(1) True order_refl this(2) v] show ?thesis using that by blast
  qed
  have b: "int (length xs) - int d + int m = int ?b" "?b \<le> length xs" "length xs \<le> length ys"
    using a(3) True c(3) by (simp_all add: of_nat_diff)
  obtain arr2 zs where t: "splice_trim env (int ?b) (int (length xs)) arr1 = Return arr2" "array_seq arr2 zs"
    "length zs = length ys" "\<forall>j<?b. view zs j = view ys j" using splice_trim_seq [OF env c(2) b(2,3)] by blast
  then have "\<forall>j<?b. view zs j = (if s + m \<le> j then view xs (j - m + d) else view xs j)" using c(4) by simp
  then show ?thesis using t(1-3) c(1,3) True by (intro exI [of _ arr2] exI [of _ zs]) (simp add: b(1))
next
  case False
  have n: "int (length xs) - int d = int (length xs - d)" using a(3) by (simp add: of_nat_diff)
  have v: "view xs j = (if length xs - d + m \<le> j \<and> j < length xs - d + m then view xs (j - m + d) else view xs j)" for j by auto
  have le: "length xs \<le> length xs - d + m" "d \<le> m" "s \<le> length xs - d" "d \<le> length xs" using a(3) False by simp_all
  obtain arr' zs where o: "splice_open env (int s) (int d) (int m) (int (length xs - d)) arr = Return arr'" "array_seq arr' zs"
    "length zs \<le> length xs - d + m"
    "\<forall>j. view zs j = (if s + m \<le> j \<and> j < length xs - d + m then view xs (j - m + d) else view xs j)"
    using splice_open_seq [OF env a(1,2) order_refl le(1-3) order_refl le(4) a(4) v] by blast
  then show ?thesis using False by (intro exI [of _ arr'] exI [of _ zs]) (simp add: n)
qed

lemma spliced_nth:
  assumes "s + d \<le> length xs" "j < length xs - d + length items"
  shows "(take s xs @ items @ drop (s + d) xs) ! j =
    (if j < s then xs ! j else if j < s + length items then items ! (j - s) else xs ! (j - length items + d))"
  using assms by (auto simp: nth_append intro!: arg_cong [of _ _ "(!) xs"])

text \<open>C10: splice on a dense array, called with a start and a delete count and any number of items, for
  arguments in the range of int, when at most 50000 elements are deleted (above that the array of the deleted
  elements is sparse, which the code does not implement), none of them is a hole, and the old length plus the number
  of items leaves a margin of 32 below the limit of int: the start counts from the end if it is negative, both it
  and the number of deleted elements are limited to the array, the deleted elements are returned in a new array, and
  in the old one the items stand in their place with the rest, holes included, in order around them.\<close>

theorem splice_splices:
  assumes "env_ok env" "array_seq arr xs" "clean xs" "to_integer env start = Return a" "to_integer env deleteCount = Return b"
    "\<bar>a\<bar> \<le> INT_MAX" "\<bar>b\<bar> \<le> INT_MAX" "room (length xs + length items)"
    "s = nat (if a < 0 then max (int (length xs) + a) 0 else min a (int (length xs)))"
    "d = nat (min (max b 0) (int (length xs) - int s))" "int d \<le> SPARSE_ARRAY_CUTOFF"
    "\<forall>x\<in>set (take d (drop s xs)). \<not> EJSVAL_IS_ARRAY_HOLE_MAGIC x"
  shows "\<exists>A arr'. ejs_Array_prototype_splice env (\<lambda>len. Return (ejs_array_new len False)) (start # deleteCount # items) arr =
      Return (A, arr') \<and> array_seq A (take d (drop s xs)) \<and> array_seq arr' (take s xs @ items @ drop (s + d) xs)"
proof -
  let ?n = "length xs" and ?m = "length items"
  have n: "int ?n \<le> INT_MAX" using seq_room [OF assms(2)] by (simp add: room_def)
  have s: "clamp (int ?n) a = int s" "s \<le> ?n" using clamp_spec [OF n assms(6)] assms(9) by auto
  have "c_int (max b 0) = max b 0" "c_int (int ?n - int s) = int ?n - int s" "c_int b = b" "c_int 0 = 0"
    using assms(7) n s(2) by (auto intro!: c_int_id simp: INT_MAX_def)
  then have d: "c_min (c_max b 0) (int ?n - int s) = int d" "s + d \<le> ?n" using assms(10) s(2) by (auto simp: c_min_def c_max_def)
  have rd: "room d" "room (?n - d + ?m)" using room_mono [OF assms(8)] d(2) by simp_all
  have small: "\<not> int ?n + int ?m - int d > EJS_MAX_SAFE_INTEGER" using rd(2) d(2) assms(8) by (simp add: room_def INT_MAX_def EJS_MAX_SAFE_INTEGER_def)
  have "holds (ejs_array_new (int d) False) (replicate d None)" using assms(11) by (auto simp: holds_def ejs_array_new_def nat_add_distrib)
  then obtain A1 where A1: "splice_collect env arr (int s) (int d) 0 (ejs_array_new (int d) False) = Return A1"
    "holds A1 (map Some (take d (drop s xs)))"
    using splice_collect_seq [OF assms(1,2) d(2) assms(12), of 0 "ejs_array_new (int d) False"] by auto
  have "array_seq A1 (take d (drop s xs))" using A1(2) rd(1) d(2) by (simp add: array_seq_def)
  then obtain A where A: "put_length env A1 (int d) = Return A" "array_seq A (take d (drop s xs))"
    using put_length_seq [OF assms(1) _ rd(1), of A1 "take d (drop s xs)"] d(2) by (auto simp: resize_def)
  obtain arr1 ys where gap: "(if int ?m < int d then
        bind_outcome (splice_close env (int ?n) (int d) (int ?m) (int s) arr) (\<lambda>arr. splice_trim env (int ?n - int d + int ?m) (int ?n) arr)
      else splice_open env (int s) (int d) (int ?m) (int ?n - int d) arr) = Return arr1" "array_seq arr1 ys"
    "\<forall>j<?n - d + ?m. view ys j = (if s + ?m \<le> j then view xs (j - ?m + d) else view xs j)"
    using splice_gap_seq [OF assms(1-3) d(2) rd(2)] by blast
  have "room (s + ?m)" using room_mono [OF rd(2)] d(2) by simp
  then obtain arr2 zs where it: "put_items env (int s) items arr1 = Return arr2" "array_seq arr2 zs"
    "\<forall>j. view zs j = (if s \<le> j \<and> j < s + ?m then items ! (j - s) else view ys j)" using put_items_seq [OF assms(1) gap(2)] by blast
  obtain arr3 where l: "put_length env arr2 (int (?n - d + ?m)) = Return arr3" "array_seq arr3 (resize (?n - d + ?m) hole zs)"
    using put_length_seq [OF assms(1) it(2) rd(2)] by blast
  have fin: "resize (?n - d + ?m) hole zs = take s xs @ items @ drop (s + d) xs"
  proof (rule view_eqI)
    fix j assume j: "j < length (resize (?n - d + ?m) hole zs)"
    then have "view (resize (?n - d + ?m) hole zs) j = (if j < s then xs ! j else if j < s + ?m then items ! (j - s) else xs ! (j - ?m + d))"
      using gap(3) it(3) d(2) by (auto simp: view_resize view_def [of xs])
    then show "view (resize (?n - d + ?m) hole zs) j = view (take s xs @ items @ drop (s + d) xs) j"
      using spliced_nth [OF d(2), of j items] j d(2) by (simp only: view_def [of "take s xs @ items @ drop (s + d) xs"] length_append length_take length_drop length_resize) auto
  qed (use d(2) in simp)
  have "int (?n - d + ?m) = int ?n - int d + int ?m" using d(2) by (simp add: of_nat_diff)
  moreover have "int (length (start # deleteCount # items)) - 2 = int ?m" by simp
  ultimately have "ejs_Array_prototype_splice env (\<lambda>len. Return (ejs_array_new len False)) (start # deleteCount # items) arr = Return (A, arr3)"
    using length_seq [OF assms(1,2)] assms(4,5) s(1) d(1) small A1(1) A(1) gap(1) it(1) l(1)
    by (simp add: ejs_Array_prototype_splice_def arg_def Let_def add_diff_eq diff_add_eq cong: if_cong split del: if_split)
  then show ?thesis using A(2) l(2) fin by auto
qed

section \<open>A sample environment\<close>

text \<open>Numbers name their index, and the string at address 8 is \<open>"length"\<close>.\<close>

definition sample_env :: method_env where
  "sample_env =
     \<lparr>names = \<lparr>to_number = (\<lambda>v. if EJSVAL_IS_DOUBLE_IMPL v then Return v else Return ejs_nan),
        texts = (\<lambda>_. None)(8 := Some (EJS_STRING_FLAT 6 None False length_name))\<rparr>,
      key_of = int_value, atom_length = 0xFFFA800000000008, ordinary_has = (\<lambda>_. Return False)\<rparr>"

lemma length_name_chars: "length_name = [108, 101, 110, 103, 116, 104, 0]"
  by (simp add: length_name_def)

lemma sample_env_ok: "env_ok sample_env"
proof -
  have num: "to_number (names sample_env) (int_value i) = Return (int_value i)" if "\<bar>i\<bar> < 2 ^ 53" for i
    using int_value_facts(1) [OF that] by (simp add: sample_env_def)
  have "property_index (names sample_env) (int_value k) = Return (Some k)" if "0 \<le> k" "k \<le> INT_MAX" for k
    using that by (intro int_value_index num) (simp_all add: INT_MAX_def)
  moreover have "EJSVAL_IS_STRING_IMPL 0xFFFA800000000008" "\<not> EJSVAL_IS_DOUBLE_IMPL 0xFFFA800000000008"
    "EJSVAL_TO_STRING_IMPL 0xFFFA800000000008 = 8" "\<not> EJSVAL_IS_SYMBOL_IMPL 0xFFFA800000000008" "EJSVAL_IS_DOUBLE_IMPL ejs_nan"
    "\<not> is_integral ejs_nan"
    by (simp_all add: EJSVAL_IS_STRING_IMPL_def EJSVAL_IS_DOUBLE_IMPL_def EJSVAL_TO_STRING_IMPL_def EJSVAL_IS_SYMBOL_IMPL_def
        EJSVAL_TO_TAG_def is_integral_def isnan_def dbl_exp_def dbl_mant_def ejs_nan_def tag_defs mask_eq_exp_minus_1)
  ultimately show ?thesis using num
    by (simp add: env_ok_def sample_env_def property_index_def is_length_name_def EJSVAL_TO_FLAT_STRING_def
        ejs_primstring_flatten_def length_name_chars)
qed

lemma sample_array:
  assumes "length xs \<le> 50"
  obtains arr where "array_seq arr xs"
  using dense.push_seq [OF new_seq [of 0], of xs] assms by (auto simp: SPARSE_ARRAY_CUTOFF_def room_def INT_MAX_def)

lemma sample_values: "\<not> EJSVAL_IS_ARRAY_HOLE_MAGIC ejs_zero" "\<not> EJSVAL_IS_ARRAY_HOLE_MAGIC ejs_one"
  by (simp_all add: EJSVAL_IS_ARRAY_HOLE_MAGIC_def ejs_zero_def ejs_one_def EJSVAL_IS_MAGIC_IMPL_def EJSVAL_TO_TAG_def tag_defs)

theorem reverse_reverses_witness:
  "\<exists>arr arr'. array_seq arr [ejs_zero, hole, ejs_one] \<and> ejs_Array_prototype_reverse sample_env arr = Return arr' \<and>
    array_seq arr' [ejs_one, hole, ejs_zero]"
proof -
  obtain arr where "array_seq arr [ejs_zero, hole, ejs_one]" using sample_array [of "[ejs_zero, hole, ejs_one]"] by auto
  moreover have "clean [ejs_zero, hole, ejs_one]" using sample_values by (simp add: clean_def)
  ultimately show ?thesis using reverse_reverses [OF sample_env_ok] by fastforce
qed

theorem splice_splices_witness:
  "\<exists>arr A arr'. array_seq arr [ejs_zero, ejs_one, hole] \<and>
    ejs_Array_prototype_splice sample_env (\<lambda>len. Return (ejs_array_new len False)) [int_value (- 2), int_value 1, ejs_zero, ejs_zero] arr =
      Return (A, arr') \<and> array_seq A [ejs_one] \<and> array_seq arr' [ejs_zero, ejs_zero, ejs_zero, hole]"
proof -
  obtain arr where a: "array_seq arr [ejs_zero, ejs_one, hole]" using sample_array [of "[ejs_zero, ejs_one, hole]"] by auto
  have c: "clean [ejs_zero, ejs_one, hole]" using sample_values by (simp add: clean_def)
  have i: "to_integer sample_env (int_value i) = Return i" if "\<bar>i\<bar> < 2 ^ 53" for i
    using int_value_facts(1) [OF that] of_int_finite [OF that] trunc_of_int [OF that] that
    by (auto simp: to_integer_def sample_env_def ToInteger_def double_to_int64_def int_value_def)
  show ?thesis
    using splice_splices [OF sample_env_ok a c i [of "- 2"] i [of 1], of "[ejs_zero, ejs_zero]" 1 1] a sample_values
    by (auto simp: INT_MAX_def room_def SPARSE_ARRAY_CUTOFF_def)
qed

end
