(* ===== verification/ArrayIteration.thy ===== *)
theory ArrayIteration
  imports ArrayMethods
begin

text \<open>
  The methods of \<open>Array.prototype\<close> that call a function for each element (\<open>src/runtime/ejs-array.c\<close>), and the
  array iterators.  \<open>call\<close> is \<open>_ejs_invoke_closure\<close> of the callback on a list of arguments; it gets the array and
  returns it with its result, so it may change it.  \<open>self\<close> is the array as a value.
\<close>

type_synonym callback = "ejsval list \<Rightarrow> EJSArray \<Rightarrow> (ejsval \<times> EJSArray) outcome"

definition to_bool :: "method_env \<Rightarrow> ejsval \<Rightarrow> bool outcome" where
  "to_bool env v = of_option (ToEJSBool (texts (names env)) v)"

section \<open>Tests and searches\<close>

function every_loop :: "method_env \<Rightarrow> callback \<Rightarrow> ejsval \<Rightarrow> int \<Rightarrow> int \<Rightarrow> EJSArray \<Rightarrow> (bool \<times> EJSArray) outcome" where
  "every_loop env call self len k arr =
     (if k < len then
        bind_outcome (has_index env arr k) (\<lambda>kPresent.
          if kPresent then
            bind_outcome (get_index env arr k) (\<lambda>kValue.
            bind_outcome (call [kValue, int_value k, self] arr) (\<lambda>(testResult, arr).
              if EJSVAL_IS_BOOLEAN_IMPL testResult \<and> EJSVAL_TO_BOOLEAN_IMPL testResult = 0 then Return (False, arr)
              else every_loop env call self len (k + 1) arr))
          else every_loop env call self len (k + 1) arr)
      else Return (True, arr))"
  by pat_completeness auto
termination by (relation "measure (\<lambda>(env, call, self, len, k, arr). nat (len - k))") auto

definition ejs_Array_prototype_every ::
  "method_env \<Rightarrow> bool \<Rightarrow> callback \<Rightarrow> ejsval \<Rightarrow> EJSArray \<Rightarrow> (bool \<times> EJSArray) outcome" where
  "ejs_Array_prototype_every env callable call self arr =
     bind_outcome (get_length env arr) (\<lambda>len.
       if \<not> callable then Throws TypeError else every_loop env call self len 0 arr)"

function some_loop :: "method_env \<Rightarrow> callback \<Rightarrow> ejsval \<Rightarrow> int \<Rightarrow> int \<Rightarrow> EJSArray \<Rightarrow> (bool \<times> EJSArray) outcome" where
  "some_loop env call self len k arr =
     (if k < len then
        bind_outcome (has_index env arr k) (\<lambda>kPresent.
          if kPresent then
            bind_outcome (get_index env arr k) (\<lambda>kValue.
            bind_outcome (call [kValue, int_value k, self] arr) (\<lambda>(testResult, arr).
            bind_outcome (to_bool env testResult) (\<lambda>b.
              if b then Return (True, arr) else some_loop env call self len (k + 1) arr)))
          else some_loop env call self len (k + 1) arr)
      else Return (False, arr))"
  by pat_completeness auto
termination by (relation "measure (\<lambda>(env, call, self, len, k, arr). nat (len - k))") auto

definition ejs_Array_prototype_some ::
  "method_env \<Rightarrow> bool \<Rightarrow> callback \<Rightarrow> ejsval \<Rightarrow> EJSArray \<Rightarrow> (bool \<times> EJSArray) outcome" where
  "ejs_Array_prototype_some env callable call self arr =
     bind_outcome (get_length env arr) (\<lambda>len.
       if \<not> callable then Throws TypeError else some_loop env call self len 0 arr)"

text \<open>\<open>find\<close> and \<open>findIndex\<close> share their loop: the first index, with its value, that the predicate accepts.\<close>

function find_loop ::
  "method_env \<Rightarrow> callback \<Rightarrow> ejsval \<Rightarrow> int \<Rightarrow> int \<Rightarrow> EJSArray \<Rightarrow> ((int \<times> ejsval) option \<times> EJSArray) outcome" where
  "find_loop env call self len k arr =
     (if k < len then
        bind_outcome (get_index env arr k) (\<lambda>kValue.
        bind_outcome (call [kValue, int_value k, self] arr) (\<lambda>(r, arr).
        bind_outcome (to_bool env r) (\<lambda>testResult.
          if testResult then Return (Some (k, kValue), arr) else find_loop env call self len (k + 1) arr)))
      else Return (None, arr))"
  by pat_completeness auto
termination by (relation "measure (\<lambda>(env, call, self, len, k, arr). nat (len - k))") auto

definition ejs_Array_prototype_find ::
  "method_env \<Rightarrow> bool \<Rightarrow> callback \<Rightarrow> ejsval \<Rightarrow> EJSArray \<Rightarrow> (ejsval \<times> EJSArray) outcome" where
  "ejs_Array_prototype_find env callable call self arr =
     bind_outcome (get_length env arr) (\<lambda>len.
       if \<not> callable then Throws TypeError
       else bind_outcome (find_loop env call self len 0 arr) (\<lambda>(r, arr).
         Return (case r of Some (k, v) \<Rightarrow> v | None \<Rightarrow> ejs_undefined, arr)))"

definition ejs_Array_prototype_findIndex ::
  "method_env \<Rightarrow> bool \<Rightarrow> callback \<Rightarrow> ejsval \<Rightarrow> EJSArray \<Rightarrow> (ejsval \<times> EJSArray) outcome" where
  "ejs_Array_prototype_findIndex env callable call self arr =
     bind_outcome (get_length env arr) (\<lambda>len.
       if \<not> callable then Throws TypeError
       else bind_outcome (find_loop env call self len 0 arr) (\<lambda>(r, arr).
         Return (case r of Some (k, v) \<Rightarrow> int_value k | None \<Rightarrow> int_value (- 1), arr)))"

section \<open>Results collected in an array or a value\<close>

text \<open>The fast path of \<open>forEach\<close> reads the length again for every element, so a callback can shorten the loop; one
  that makes the array longer can keep it from ending, and \<open>bound\<close> is the number of elements it gets to see.\<close>

fun forEach_dense :: "callback \<Rightarrow> ejsval \<Rightarrow> nat \<Rightarrow> int \<Rightarrow> EJSArray \<Rightarrow> EJSArray option outcome" where
  "forEach_dense call self 0 i arr = (if i < array_length arr then Return None else Return (Some arr))"
| "forEach_dense call self (Suc bound) i arr =
     (if i < array_length arr then
        bind_outcome (element arr i) (\<lambda>v.
          if EJSVAL_IS_ARRAY_HOLE_MAGIC v then forEach_dense call self bound (i + 1) arr
          else bind_outcome (call [v, int_value i, self] arr) (\<lambda>(r, arr). forEach_dense call self bound (i + 1) arr))
      else Return (Some arr))"

function filter_loop ::
  "method_env \<Rightarrow> callback \<Rightarrow> ejsval \<Rightarrow> int \<Rightarrow> int \<Rightarrow> int \<Rightarrow> EJSArray \<Rightarrow> EJSArray \<Rightarrow> (EJSArray \<times> EJSArray) outcome" where
  "filter_loop env call self len k to A arr =
     (if k < len then
        bind_outcome (has_index env arr k) (\<lambda>kPresent.
          if kPresent then
            bind_outcome (get_index env arr k) (\<lambda>kValue.
            bind_outcome (call [kValue, int_value k, self] arr) (\<lambda>(selected, arr).
            bind_outcome (to_bool env selected) (\<lambda>b.
              if b then bind_outcome (define_index env A to kValue) (\<lambda>A. filter_loop env call self len (k + 1) (to + 1) A arr)
              else filter_loop env call self len (k + 1) to A arr)))
          else filter_loop env call self len (k + 1) to A arr)
      else Return (A, arr))"
  by pat_completeness auto
termination by (relation "measure (\<lambda>(env, call, self, len, k, to, A, arr). nat (len - k))") auto

definition ejs_Array_prototype_filter ::
  "method_env \<Rightarrow> (int \<Rightarrow> EJSArray outcome) \<Rightarrow> bool \<Rightarrow> callback \<Rightarrow> ejsval \<Rightarrow> EJSArray \<Rightarrow> (EJSArray \<times> EJSArray) outcome" where
  "ejs_Array_prototype_filter env species callable call self arr =
     bind_outcome (get_length env arr) (\<lambda>len.
       if \<not> callable then Throws TypeError
       else bind_outcome (species 0) (\<lambda>A. filter_loop env call self len 0 0 A arr))"

text \<open>\<open>map\<close> passes two arguments.\<close>

function map_loop ::
  "method_env \<Rightarrow> callback \<Rightarrow> int \<Rightarrow> int \<Rightarrow> EJSArray \<Rightarrow> EJSArray \<Rightarrow> (EJSArray \<times> EJSArray) outcome" where
  "map_loop env call len k A arr =
     (if k < len then
        bind_outcome (has_index env arr k) (\<lambda>kPresent.
          if kPresent then
            bind_outcome (get_index env arr k) (\<lambda>kValue.
            bind_outcome (call [kValue, int_value k] arr) (\<lambda>(mappedValue, arr).
            bind_outcome (ejs_array_setprop env A (key_of env k) mappedValue) (\<lambda>A.
              map_loop env call len (k + 1) A arr)))
          else map_loop env call len (k + 1) A arr)
      else Return (A, arr))"
  by pat_completeness auto
termination by (relation "measure (\<lambda>(env, call, len, k, A, arr). nat (len - k))") auto

definition ejs_Array_prototype_map ::
  "method_env \<Rightarrow> (int \<Rightarrow> EJSArray outcome) \<Rightarrow> bool \<Rightarrow> callback \<Rightarrow> EJSArray \<Rightarrow> (EJSArray \<times> EJSArray) outcome" where
  "ejs_Array_prototype_map env species callable call arr =
     bind_outcome (get_length env arr) (\<lambda>len.
       if \<not> callable then Throws TypeError
       else bind_outcome (species len) (\<lambda>A. map_loop env call len 0 A arr))"

text \<open>The first element of a reduction without initial value, with the index after it.\<close>

function reduce_first :: "method_env \<Rightarrow> int \<Rightarrow> int \<Rightarrow> EJSArray \<Rightarrow> (ejsval \<times> int) option outcome" where
  "reduce_first env len k arr =
     (if k < len then
        bind_outcome (has_index env arr k) (\<lambda>kPresent.
          if kPresent then bind_outcome (get_index env arr k) (\<lambda>v. Return (Some (v, k + 1)))
          else reduce_first env len (k + 1) arr)
      else Return None)"
  by pat_completeness auto
termination by (relation "measure (\<lambda>(env, len, k, arr). nat (len - k))") auto

function reduce_loop ::
  "method_env \<Rightarrow> callback \<Rightarrow> ejsval \<Rightarrow> int \<Rightarrow> int \<Rightarrow> ejsval \<Rightarrow> EJSArray \<Rightarrow> (ejsval \<times> EJSArray) outcome" where
  "reduce_loop env call self len k accumulator arr =
     (if k < len then
        bind_outcome (has_index env arr k) (\<lambda>kPresent.
          if kPresent then
            bind_outcome (get_index env arr k) (\<lambda>kValue.
            bind_outcome (call [accumulator, kValue, int_value k, self] arr) (\<lambda>(accumulator, arr).
              reduce_loop env call self len (k + 1) accumulator arr))
          else reduce_loop env call self len (k + 1) accumulator arr)
      else Return (accumulator, arr))"
  by pat_completeness auto
termination by (relation "measure (\<lambda>(env, call, self, len, k, acc, arr). nat (len - k))") auto

definition ejs_Array_prototype_reduce ::
  "method_env \<Rightarrow> bool \<Rightarrow> callback \<Rightarrow> ejsval \<Rightarrow> ejsval option \<Rightarrow> EJSArray \<Rightarrow> (ejsval \<times> EJSArray) outcome" where
  "ejs_Array_prototype_reduce env callable call self initialValue arr =
     bind_outcome (get_length env arr) (\<lambda>len.
       if \<not> callable then Throws TypeError
       else if len = 0 \<and> initialValue = None then Throws TypeError
       else case initialValue of
         Some accumulator \<Rightarrow> reduce_loop env call self len 0 accumulator arr
       | None \<Rightarrow> bind_outcome (reduce_first env len 0 arr) (\<lambda>r.
           case r of
             None \<Rightarrow> Throws TypeError
           | Some (accumulator, k) \<Rightarrow> reduce_loop env call self len k accumulator arr))"

text \<open>\<open>reduceRight\<close>: without initial value the search for the last element is followed by an unconditional throw.\<close>

function reduceRight_first :: "method_env \<Rightarrow> int \<Rightarrow> EJSArray \<Rightarrow> (ejsval \<times> int) option outcome" where
  "reduceRight_first env k arr =
     (if k \<ge> 0 then
        bind_outcome (has_index env arr k) (\<lambda>kPresent.
          if kPresent then bind_outcome (get_index env arr k) (\<lambda>v. Return (Some (v, k - 1)))
          else reduceRight_first env (k - 1) arr)
      else Return None)"
  by pat_completeness auto
termination by (relation "measure (\<lambda>(env, k, arr). nat (k + 1))") auto

function reduceRight_loop ::
  "method_env \<Rightarrow> callback \<Rightarrow> ejsval \<Rightarrow> int \<Rightarrow> ejsval \<Rightarrow> EJSArray \<Rightarrow> (ejsval \<times> EJSArray) outcome" where
  "reduceRight_loop env call self k accumulator arr =
     (if k \<ge> 0 then
        bind_outcome (has_index env arr k) (\<lambda>kPresent.
          if kPresent then
            bind_outcome (get_index env arr k) (\<lambda>kValue.
            bind_outcome (call [accumulator, kValue, int_value k, self] arr) (\<lambda>(accumulator, arr).
              reduceRight_loop env call self (k - 1) accumulator arr))
          else reduceRight_loop env call self (k - 1) accumulator arr)
      else Return (accumulator, arr))"
  by pat_completeness auto
termination by (relation "measure (\<lambda>(env, call, self, k, acc, arr). nat (k + 1))") auto

definition ejs_Array_prototype_reduceRight ::
  "method_env \<Rightarrow> bool \<Rightarrow> callback \<Rightarrow> ejsval \<Rightarrow> ejsval option \<Rightarrow> EJSArray \<Rightarrow> (ejsval \<times> EJSArray) outcome" where
  "ejs_Array_prototype_reduceRight env callable call self initialValue arr =
     bind_outcome (get_length env arr) (\<lambda>len.
       if \<not> callable then Throws TypeError
       else if len = 0 \<and> initialValue = None then Throws TypeError
       else case initialValue of
         Some accumulator \<Rightarrow> reduceRight_loop env call self (len - 1) accumulator arr
       | None \<Rightarrow> bind_outcome (reduceRight_first env (len - 1) arr) (\<lambda>r. Throws TypeError))"

declare every_loop.simps [simp del] some_loop.simps [simp del] find_loop.simps [simp del] filter_loop.simps [simp del]
  map_loop.simps [simp del] reduce_first.simps [simp del] reduce_loop.simps [simp del]
  reduceRight_first.simps [simp del] reduceRight_loop.simps [simp del]

section \<open>Array iterators\<close>

datatype EJSArrayIteratorKind = EJS_ARRAYITER_KIND_KEY | EJS_ARRAYITER_KIND_VALUE | EJS_ARRAYITER_KIND_KEYVALUE

text \<open>\<open>iterated\<close>: the iterated array has not been replaced by undefined yet.\<close>

record EJSArrayIterator =
  iterated :: bool
  kind :: EJSArrayIteratorKind
  next_index :: int

definition ejs_array_iterator_new :: "EJSArrayIteratorKind \<Rightarrow> EJSArrayIterator" where
  "ejs_array_iterator_new kn = \<lparr>iterated = True, kind = kn, next_index = 0\<rparr>"

datatype iter_value = Key ejsval | Element ejsval | Pair EJSArray

text \<open>The value of the result object and its \<open>done\<close>.  The index is truncated to 32 bits, the length to \<open>int\<close>; their
  comparison is unsigned.\<close>

definition ejs_ArrayIterator_prototype_next ::
  "method_env \<Rightarrow> EJSArray \<Rightarrow> EJSArrayIterator \<Rightarrow> (iter_value option \<times> EJSArrayIterator) outcome" where
  "ejs_ArrayIterator_prototype_next env a O' =
     (if \<not> iterated O' then Return (None, O')
      else
        let index = next_index O' mod 2 ^ 32 in
        bind_outcome (get_length env a) (\<lambda>l.
        let len = c_int l in
        if index \<ge> len mod 2 ^ 32 then Return (None, O'\<lparr>iterated := False\<rparr>)
        else
          let O' = O'\<lparr>next_index := (index + 1) mod 2 ^ 32\<rparr> in
          case kind O' of
            EJS_ARRAYITER_KIND_KEY \<Rightarrow> Return (Some (Key (int_value index)), O')
          | EJS_ARRAYITER_KIND_VALUE \<Rightarrow> bind_outcome (get_index env a index) (\<lambda>v. Return (Some (Element v), O'))
          | EJS_ARRAYITER_KIND_KEYVALUE \<Rightarrow>
              bind_outcome (get_index env a index) (\<lambda>elementValue.
              bind_outcome (ejs_array_setprop env (ejs_array_new 2 False) (int_value 0) (int_value index)) (\<lambda>result.
              bind_outcome (ejs_array_setprop env result (int_value 1) elementValue) (\<lambda>result.
                Return (Some (Pair result), O'))))))"

end
