(* ===== verification/ArrayIterationLaws.thy ===== *)
theory ArrayIterationLaws
  imports ArrayIteration ArrayMethodLaws
begin

text \<open>
  What the methods with callbacks compute from the elements that are not holes, for callbacks that return and leave
  the array as it is, and where they differ from the standard.
\<close>

section \<open>The elements that are visited\<close>

text \<open>The elements from an index on that are not holes, with their indices.\<close>

definition present :: "nat \<Rightarrow> ejsval list \<Rightarrow> (nat \<times> ejsval) list" where
  "present k xs = filter (\<lambda>(j, x). \<not> EJSVAL_IS_ARRAY_HOLE_MAGIC x) (enumerate k (drop k xs))"

lemma present_end [simp]: "length xs \<le> k \<Longrightarrow> present k xs = []"
  by (simp add: present_def)

lemma present_step: "k < length xs \<Longrightarrow>
    present k xs = (if EJSVAL_IS_ARRAY_HOLE_MAGIC (xs ! k) then present (Suc k) xs else (k, xs ! k) # present (Suc k) xs)"
  by (simp add: present_def Cons_nth_drop_Suc [symmetric])

text \<open>The callback returns \<open>f\<close> of its arguments and does not change the array.\<close>

definition pure_call :: "callback \<Rightarrow> (ejsval list \<Rightarrow> ejsval) \<Rightarrow> EJSArray \<Rightarrow> bool" where
  "pure_call call f arr \<longleftrightarrow> (\<forall>args. call args arr = Return (f args, arr))"

text \<open>The arguments of most callbacks.\<close>

definition call_args :: "ejsval \<Rightarrow> nat \<times> ejsval \<Rightarrow> ejsval list" where
  "call_args self p = [snd p, int_value (int (fst p)), self]"

definition truthy :: "method_env \<Rightarrow> ejsval \<Rightarrow> bool" where
  "truthy env v \<longleftrightarrow> ToEJSBool (texts (names env)) v = Some True"

definition boolean_false :: "ejsval \<Rightarrow> bool" where
  "boolean_false v \<longleftrightarrow> EJSVAL_IS_BOOLEAN_IMPL v \<and> EJSVAL_TO_BOOLEAN_IMPL v = 0"

lemma to_bool_truthy: "ToEJSBool (texts (names env)) v \<noteq> None \<Longrightarrow> to_bool env v = Return (truthy env v)"
  by (auto simp: to_bool_def truthy_def)

lemma element_access:
  assumes "env_ok env" "array_seq arr xs" "k < length xs"
  shows "has_index env arr (int k) = Return (\<not> EJSVAL_IS_ARRAY_HOLE_MAGIC (xs ! k))"
    "\<not> EJSVAL_IS_ARRAY_HOLE_MAGIC (xs ! k) \<Longrightarrow> get_index env arr (int k) = Return (xs ! k)"
  using has_seq [OF assms] get_seq [OF assms] by (simp_all add: shown_def)

section \<open>Tests\<close>

lemma every_loop_seq:
  assumes "env_ok env" "array_seq arr xs" "pure_call call f arr"
  shows "every_loop env call self (int (length xs)) (int k) arr =
    Return (\<forall>p\<in>set (present k xs). \<not> boolean_false (f (call_args self p)), arr)"
proof (induction "length xs - k" arbitrary: k)
  case 0
  then show ?case by (simp add: every_loop.simps)
next
  case (Suc n)
  then have k: "k < length xs" "n = length xs - Suc k" by simp_all
  have "every_loop env call self (int (length xs)) (int k) arr =
      (if EJSVAL_IS_ARRAY_HOLE_MAGIC (xs ! k) then every_loop env call self (int (length xs)) (int (Suc k)) arr
       else if boolean_false (f (call_args self (k, xs ! k))) then Return (False, arr)
       else every_loop env call self (int (length xs)) (int (Suc k)) arr)"
    using k(1) element_access [OF assms(1,2) k(1)] assms(3)
    by (subst every_loop.simps) (auto simp: pure_call_def call_args_def boolean_false_def add.commute)
  then show ?case using Suc.hyps(1) [OF k(2)] present_step [OF k(1)] by auto
qed

lemma some_loop_seq:
  assumes "env_ok env" "array_seq arr xs" "pure_call call f arr"
    "\<And>p. p \<in> set (present k xs) \<Longrightarrow> ToEJSBool (texts (names env)) (f (call_args self p)) \<noteq> None"
  shows "some_loop env call self (int (length xs)) (int k) arr =
    Return (\<exists>p\<in>set (present k xs). truthy env (f (call_args self p)), arr)"
  using assms(4)
proof (induction "length xs - k" arbitrary: k)
  case 0
  then show ?case by (simp add: some_loop.simps)
next
  case (Suc n)
  then have k: "k < length xs" "n = length xs - Suc k" by simp_all
  have b: "to_bool env (f (call_args self (k, xs ! k))) = Return (truthy env (f (call_args self (k, xs ! k))))"
    if "\<not> EJSVAL_IS_ARRAY_HOLE_MAGIC (xs ! k)" using Suc.prems [of "(k, xs ! k)"] that present_step [OF k(1)] by (intro to_bool_truthy) simp
  have "some_loop env call self (int (length xs)) (int k) arr =
      (if EJSVAL_IS_ARRAY_HOLE_MAGIC (xs ! k) then some_loop env call self (int (length xs)) (int (Suc k)) arr
       else if truthy env (f (call_args self (k, xs ! k))) then Return (True, arr)
       else some_loop env call self (int (length xs)) (int (Suc k)) arr)"
    using k(1) element_access [OF assms(1,2) k(1)] assms(3) b
    by (subst some_loop.simps) (auto simp: pure_call_def call_args_def add.commute)
  moreover have "ToEJSBool (texts (names env)) (f (call_args self p)) \<noteq> None" if "p \<in> set (present (Suc k) xs)" for p
    using Suc.prems [of p] that present_step [OF k(1)] by (auto split: if_splits)
  ultimately show ?case using Suc.hyps(1) [OF k(2)] present_step [OF k(1)] by auto
qed

text \<open>Every and some.  On a dense array, with a callback that leaves it alone, some holds when the callback
  returns something truthy for an element, as the standard asks; but every fails only when the callback returns
  the boolean false, not for other falsy results such as 0 or undefined; holes are skipped by both.\<close>

theorem every_some_results:
  assumes "env_ok env" "array_seq arr xs" "pure_call call f arr"
    "\<forall>p\<in>set (present 0 xs). ToEJSBool (texts (names env)) (f (call_args self p)) \<noteq> None"
  shows "ejs_Array_prototype_every env True call self arr =
      Return (\<forall>p\<in>set (present 0 xs). \<not> boolean_false (f (call_args self p)), arr) \<and>
    ejs_Array_prototype_some env True call self arr =
      Return (\<exists>p\<in>set (present 0 xs). truthy env (f (call_args self p)), arr)"
  using every_loop_seq [OF assms(1-3), of self 0] some_loop_seq [OF assms(1-3), of 0 self] assms(4) length_seq [OF assms(1,2)]
  by (simp add: ejs_Array_prototype_every_def ejs_Array_prototype_some_def)

theorem every_some_results_witness:
  "\<exists>arr. array_seq arr [ejs_one, hole] \<and>
    ejs_Array_prototype_every sample_env True (\<lambda>args arr. Return (ejs_zero, arr)) ejs_null arr = Return (True, arr) \<and>
    ejs_Array_prototype_some sample_env True (\<lambda>args arr. Return (ejs_zero, arr)) ejs_null arr = Return (False, arr)"
proof -
  obtain arr where a: "array_seq arr [ejs_one, hole]" using sample_array [of "[ejs_one, hole]"] by auto
  have z: "ToEJSBool (texts (names sample_env)) ejs_zero = Some False" "\<not> boolean_false ejs_zero"
    by (simp_all add: ToEJSBool_def boolean_false_def ejs_zero_def EJSVAL_IS_NULL_IMPL_def EJSVAL_IS_UNDEFINED_IMPL_def
        EJSVAL_IS_BOOLEAN_IMPL_def EJSVAL_TO_TAG_def EJSVAL_IS_DOUBLE_IMPL_def iszero_def tag_defs)
  show ?thesis using every_some_results [OF sample_env_ok a, of "\<lambda>args arr. Return (ejs_zero, arr)" "\<lambda>_. ejs_zero" ejs_null] a z
    by (auto simp: pure_call_def truthy_def)
qed

section \<open>Results\<close>

lemma filter_loop_seq:
  assumes "env_ok env" "array_seq arr xs" "pure_call call f arr" "array_seq A ys" "length ys + (length xs - k) \<le> length xs"
    "\<And>p. p \<in> set (present k xs) \<Longrightarrow> ToEJSBool (texts (names env)) (f (call_args self p)) \<noteq> None"
  shows "\<exists>A'. filter_loop env call self (int (length xs)) (int k) (int (length ys)) A arr = Return (A', arr) \<and>
    array_seq A' (ys @ map snd (filter (\<lambda>p. truthy env (f (call_args self p))) (present k xs)))"
  using assms(4-6)
proof (induction "length xs - k" arbitrary: k A ys)
  case 0
  then show ?case by (auto simp: filter_loop.simps)
next
  case (Suc n)
  then have k: "k < length xs" "n = length xs - Suc k" by simp_all
  note acc = element_access [OF assms(1,2) k(1)]
  have rest: "ToEJSBool (texts (names env)) (f (call_args self p)) \<noteq> None" if "p \<in> set (present (Suc k) xs)" for p
    using Suc.prems(3) [of p] that present_step [OF k(1)] by (auto split: if_splits)
  let ?x = "xs ! k"
  have skip: ?case if "filter_loop env call self (int (length xs)) (int k) (int (length ys)) A arr =
      filter_loop env call self (int (length xs)) (int (Suc k)) (int (length ys)) A arr"
    "EJSVAL_IS_ARRAY_HOLE_MAGIC ?x \<or> \<not> truthy env (f (call_args self (k, ?x)))"
    using Suc.hyps(1) [OF k(2) Suc.prems(1) _ rest] Suc.prems(2) that present_step [OF k(1)] by auto
  show ?case
  proof (cases "EJSVAL_IS_ARRAY_HOLE_MAGIC ?x")
    case True
    then show ?thesis using acc k(1) by (intro skip) (subst filter_loop.simps, auto simp: add.commute)
  next
    case False
    then have b: "to_bool env (f (call_args self (k, ?x))) = Return (truthy env (f (call_args self (k, ?x))))"
      using Suc.prems(3) [of "(k, ?x)"] present_step [OF k(1)] by (intro to_bool_truthy) simp
    show ?thesis
    proof (cases "truthy env (f (call_args self (k, ?x)))")
      case no: False
      then show ?thesis using acc k(1) False b assms(3)
        by (intro skip) (subst filter_loop.simps, auto simp: add.commute pure_call_def call_args_def)
    next
      case yes: True
      have "room (Suc (length ys))" using room_mono [OF seq_room [OF assms(2)]] Suc.prems(2) k(1) by simp
      then obtain A1 where d: "define_index env A (int (length ys)) ?x = Return A1" "array_seq A1 (ys @ [?x])"
        using put_seq(3) [OF assms(1) Suc.prems(1), of "length ys" ?x] by (auto simp: store_at_def)
      have step: "filter_loop env call self (int (length xs)) (int k) (int (length ys)) A arr =
          filter_loop env call self (int (length xs)) (int (Suc k)) (int (length (ys @ [?x]))) A1 arr"
        using acc k(1) False b yes assms(3) d(1)
        by (subst filter_loop.simps) (simp add: add.commute pure_call_def call_args_def)
      show ?thesis unfolding step using Suc.hyps(1) [OF k(2) d(2) _ rest] Suc.prems(2) k(1) False yes present_step [OF k(1)] by auto
    qed
  qed
qed

lemma reduce_loop_seq:
  assumes "env_ok env" "array_seq arr xs" "pure_call call f arr"
  shows "reduce_loop env call self (int (length xs)) (int k) acc arr =
    Return (foldl (\<lambda>acc (j, x). f [acc, x, int_value (int j), self]) acc (present k xs), arr)"
proof (induction "length xs - k" arbitrary: k acc)
  case 0
  then show ?case by (simp add: reduce_loop.simps)
next
  case (Suc n)
  then have k: "k < length xs" "n = length xs - Suc k" by simp_all
  have "reduce_loop env call self (int (length xs)) (int k) acc arr =
      reduce_loop env call self (int (length xs)) (int (Suc k))
        (if EJSVAL_IS_ARRAY_HOLE_MAGIC (xs ! k) then acc else f [acc, xs ! k, int_value (int k), self]) arr"
    using k(1) element_access [OF assms(1,2) k(1)] assms(3)
    by (subst reduce_loop.simps) (auto simp: pure_call_def add.commute)
  then show ?case using Suc.hyps(1) [OF k(2)] present_step [OF k(1)] by auto
qed

lemma reduce_first_seq:
  assumes "env_ok env" "array_seq arr xs"
  shows "reduce_first env (int (length xs)) (int k) arr =
    Return (case present k xs of [] \<Rightarrow> None | (j, x) # _ \<Rightarrow> Some (x, int j + 1)) \<and>
    (\<forall>j x ps. present k xs = (j, x) # ps \<longrightarrow> ps = present (Suc j) xs)"
proof (induction "length xs - k" arbitrary: k)
  case 0
  then show ?case by (simp add: reduce_first.simps)
next
  case (Suc n)
  then have k: "k < length xs" "n = length xs - Suc k" by simp_all
  have "reduce_first env (int (length xs)) (int k) arr =
      (if EJSVAL_IS_ARRAY_HOLE_MAGIC (xs ! k) then reduce_first env (int (length xs)) (int (Suc k)) arr
       else Return (Some (xs ! k, int k + 1)))"
    using k(1) element_access [OF assms(1,2) k(1)] by (subst reduce_first.simps) (auto simp: add.commute)
  then show ?case using Suc.hyps(1) [OF k(2)] present_step [OF k(1)] by auto
qed

lemma reduceRight_first_returns:
  assumes "env_ok env" "array_seq arr xs" "k \<le> length xs"
  shows "\<exists>r. reduceRight_first env (int k - 1) arr = Return r"
  using assms(3)
proof (induction k)
  case 0
  then show ?case by (simp add: reduceRight_first.simps)
next
  case (Suc k)
  then have "k < length xs" by simp
  then show ?case using Suc element_access [OF assms(1,2)] by (subst reduceRight_first.simps) auto
qed

text \<open>C30: filter and reduce on a dense array, with a callback that leaves it alone.  filter returns a new array of
  the elements, holes left out, for which the callback returns something truthy, in order; reduce combines the
  elements that are not holes from the left, starting with the initial value or else with the first of them, and
  throws a TypeError when there is neither.  reduceRight without an initial value always throws: the throw that
  follows its search for the last element lacks the test whether there is one.\<close>

theorem filter_reduce_results:
  assumes "env_ok env" "array_seq arr xs" "pure_call call f arr"
    "\<forall>p\<in>set (present 0 xs). ToEJSBool (texts (names env)) (f (call_args self p)) \<noteq> None"
  shows "(\<exists>A. ejs_Array_prototype_filter env (\<lambda>len. Return (ejs_array_new len False)) True call self arr = Return (A, arr) \<and>
      array_seq A (map snd (filter (\<lambda>p. truthy env (f (call_args self p))) (present 0 xs)))) \<and>
    (let step = (\<lambda>acc (j, x). f [acc, x, int_value (int j), self]) in
     ejs_Array_prototype_reduce env True call self (Some init) arr = Return (foldl step init (present 0 xs), arr) \<and>
     ejs_Array_prototype_reduce env True call self None arr =
       (case present 0 xs of [] \<Rightarrow> Throws TypeError | (j, x) # ps \<Rightarrow> Return (foldl step x ps, arr))) \<and>
    ejs_Array_prototype_reduceRight env True call self None arr = Throws TypeError"
proof (intro conjI)
  have len: "get_length env arr = Return (int (length xs))" by (rule length_seq [OF assms(1,2)])
  have "array_seq (ejs_array_new 0 False) []"
    by (simp add: array_seq_def holds_def ejs_array_new_def SPARSE_ARRAY_CUTOFF_def room_def INT_MAX_def)
  then show "\<exists>A. ejs_Array_prototype_filter env (\<lambda>len. Return (ejs_array_new len False)) True call self arr = Return (A, arr) \<and>
      array_seq A (map snd (filter (\<lambda>p. truthy env (f (call_args self p))) (present 0 xs)))"
    using filter_loop_seq [OF assms(1-3), of "ejs_array_new 0 False" "[]" 0 self] assms(4) len
    by (simp add: ejs_Array_prototype_filter_def)
  have "present 0 xs = []" if "xs = []" using that by simp
  then show "let step = (\<lambda>acc (j, x). f [acc, x, int_value (int j), self]) in
     ejs_Array_prototype_reduce env True call self (Some init) arr = Return (foldl step init (present 0 xs), arr) \<and>
     ejs_Array_prototype_reduce env True call self None arr =
       (case present 0 xs of [] \<Rightarrow> Throws TypeError | (j, x) # ps \<Rightarrow> Return (foldl step x ps, arr))"
    using reduce_loop_seq [OF assms(1-3), of self 0 init] reduce_first_seq [OF assms(1,2), of 0] len
      reduce_loop_seq [OF assms(1-3), of self "Suc (fst (hd (present 0 xs)))"]
    by (cases "present 0 xs") (auto simp: ejs_Array_prototype_reduce_def Let_def add.commute)
  show "ejs_Array_prototype_reduceRight env True call self None arr = Throws TypeError"
    using reduceRight_first_returns [OF assms(1,2), of "length xs"] len by (auto simp: ejs_Array_prototype_reduceRight_def)
qed

theorem filter_reduce_results_witness:
  "\<exists>arr A. array_seq arr [ejs_zero, hole, ejs_one] \<and>
    ejs_Array_prototype_filter sample_env (\<lambda>len. Return (ejs_array_new len False)) True (\<lambda>args arr. Return (hd args, arr)) ejs_null arr =
      Return (A, arr) \<and> array_seq A [ejs_one] \<and>
    ejs_Array_prototype_reduceRight sample_env True (\<lambda>args arr. Return (hd args, arr)) ejs_null None arr = Throws TypeError"
proof -
  obtain arr where a: "array_seq arr [ejs_zero, hole, ejs_one]" using sample_array [of "[ejs_zero, hole, ejs_one]"] by auto
  have z: "ToEJSBool (texts (names sample_env)) ejs_zero = Some False" "ToEJSBool (texts (names sample_env)) ejs_one = Some True"
    by (simp_all add: ToEJSBool_def ejs_zero_def ejs_one_def EJSVAL_IS_NULL_IMPL_def EJSVAL_IS_UNDEFINED_IMPL_def
        EJSVAL_IS_BOOLEAN_IMPL_def EJSVAL_TO_TAG_def EJSVAL_IS_DOUBLE_IMPL_def iszero_def tag_defs)
  have p: "present 0 [ejs_zero, hole, ejs_one] = [(0, ejs_zero), (2, ejs_one)]"
    using sample_values by (simp add: present_def numeral_2_eq_2)
  show ?thesis
    using filter_reduce_results [OF sample_env_ok a, of "\<lambda>args arr. Return (hd args, arr)" hd ejs_null ejs_zero] a z p
    by (auto simp: pure_call_def truthy_def call_args_def)
qed

end
