(* ===== verification/Floats.thy ===== *)
theory Floats
  imports Doubles
begin

text \<open>
  Numbers as bytes in memory: IEEE-754 binary32 on bit patterns with the conversions to and from binary64 that a C
  cast performs (rounding to nearest, ties to even), and the little-endian bytes of an integer.
\<close>

section \<open>binary32\<close>

definition flt_exp :: "uint32 \<Rightarrow> nat" where "flt_exp f = unat (drop_bit 23 f AND mask 8)"
definition flt_mant :: "uint32 \<Rightarrow> nat" where "flt_mant f = unat (f AND mask 23)"
definition flt_neg :: "uint32 \<Rightarrow> bool" where "flt_neg f \<longleftrightarrow> bit f 31"

definition flt_isnan :: "uint32 \<Rightarrow> bool" where "flt_isnan f \<longleftrightarrow> flt_exp f = 255 \<and> flt_mant f \<noteq> 0"

text \<open>\<open>(double)f\<close>; the conversion makes a NaN quiet.\<close>

definition dbl_of_float :: "uint32 \<Rightarrow> double" where
  "dbl_of_float f =
     (let e = flt_exp f; m = flt_mant f; k = ilog2 m;
          b = (if e = 255 then word_of_nat (2047 * 2 ^ 52 + (if m = 0 then 0 else (m OR 2 ^ 22) * 2 ^ 29))
               else if e = 0 then (if m = 0 then 0 else word_of_nat ((k + 874) * 2 ^ 52 + (m * 2 ^ (52 - k) - 2 ^ 52)))
               else word_of_nat ((e + 896) * 2 ^ 52 + m * 2 ^ 29))
      in if flt_neg f then b OR 0x8000000000000000 else b)"

text \<open>\<open>(float)d\<close>: the significand is rounded to a multiple of the distance between floats of its size.\<close>

definition round_even :: "nat \<Rightarrow> nat \<Rightarrow> nat" where
  "round_even n s =
     (let h = n div 2 ^ s; r = n mod 2 ^ s in
      if 2 * r > 2 ^ s \<or> 2 * r = 2 ^ s \<and> odd h then h + 1 else h)"

definition float_of_dbl :: "double \<Rightarrow> uint32" where
  "float_of_dbl d =
     (let e = dbl_exp d; m = dbl_mant d;
          b = (if e = 2047 then 255 * 2 ^ 23 + (if m = 0 then 0 else (m div 2 ^ 29) OR 2 ^ 22)
               else let sig = (if e = 0 then m else 2 ^ 52 + m); x = max e 1; q = max (ilog2 sig + x) 949
                    in min ((q - 949) * 2 ^ 23 + round_even sig (q - x - 23)) (255 * 2 ^ 23))
      in if dbl_neg d then word_of_nat b OR 0x80000000 else word_of_nat b)"

section \<open>Bytes\<close>

fun le_bytes :: "nat \<Rightarrow> int \<Rightarrow> uint8 list" where
  "le_bytes 0 i = []"
| "le_bytes (Suc n) i = word_of_int i # le_bytes n (i div 256)"

fun of_le_bytes :: "uint8 list \<Rightarrow> int" where
  "of_le_bytes [] = 0"
| "of_le_bytes (b # bs) = uint b + 256 * of_le_bytes bs"

section \<open>Facts\<close>

lemma length_le_bytes [simp]: "length (le_bytes n i) = n"
  by (induction n arbitrary: i) auto

lemma of_le_bytes_bounds: "0 \<le> of_le_bytes bs \<and> of_le_bytes bs < 256 ^ length bs"
proof (induction bs)
  case (Cons b bs)
  have "uint b < 256" using unsigned_less [of b, where 'a = int] by simp
  moreover have "0 \<le> uint b" by simp
  ultimately show ?case using Cons by simp
qed simp

lemma of_le_bytes_le_bytes: "of_le_bytes (le_bytes n i) = i mod 256 ^ n"
proof (induction n arbitrary: i)
  case (Suc n)
  have "i mod 256 ^ Suc n = i mod 256 + 256 * (i div 256 mod 256 ^ n)"
    using zmod_zmult2_eq [of "256 ^ n" i 256] by simp
  then show ?case using Suc by (simp add: unsigned_of_int take_bit_eq_mod)
qed simp

lemma le_bytes_of_le_bytes: "le_bytes (length bs) (of_le_bytes bs) = bs"
proof (induction bs)
  case (Cons b bs)
  have lt: "uint b < 256" using unsigned_less [of b, where 'a = int] by simp
  have "(uint b + 256 * of_le_bytes bs) div 256 = of_le_bytes bs" using lt by simp
  moreover have "(word_of_int (uint b + 256 * of_le_bytes bs) :: uint8) = b"
  proof -
    have z: "(256 :: uint8) = 0" by simp
    have "(word_of_int (uint b + 256 * of_le_bytes bs) :: uint8) = b + 256 * word_of_int (of_le_bytes bs)"
      by simp
    then show ?thesis unfolding z by simp
  qed
  ultimately show ?case using Cons by simp
qed simp

text \<open>The fields of a float made from its exponent and significand.\<close>

lemma flt_fields:
  "unat f = (if flt_neg f then 2 ^ 31 else 0) + flt_exp f * 2 ^ 23 + flt_mant f"
  "flt_exp f < 256" "flt_mant f < 2 ^ 23"
proof -
  have n: "unat f < 2 ^ 32" using unsigned_less [of f, where 'a = nat] by simp
  have e: "flt_exp f = unat f div 2 ^ 23 mod 256"
    unfolding flt_exp_def take_bit_eq_mask [symmetric] unsigned_take_bit_eq unat_drop_bit_eq
    by (simp add: take_bit_eq_mod drop_bit_eq_div)
  have m: "flt_mant f = unat f mod 2 ^ 23"
    unfolding flt_mant_def take_bit_eq_mask [symmetric] unsigned_take_bit_eq
    by (simp add: take_bit_eq_mod)
  have "bit (unat f) 31 \<longleftrightarrow> flt_neg f" by (simp add: flt_neg_def bit_unsigned_iff)
  then have s: "flt_neg f \<longleftrightarrow> odd (unat f div 2 ^ 31)" by (simp add: bit_iff_odd)
  show "flt_exp f < 256" "flt_mant f < 2 ^ 23" by (simp_all add: e m)
  have "unat f = unat f div 2 ^ 23 * 2 ^ 23 + unat f mod 2 ^ 23" by simp
  moreover have "unat f div 2 ^ 23 = (if flt_neg f then 256 else 0) + unat f div 2 ^ 23 mod 256"
  proof -
    define h where "h = unat f div 2 ^ 23"
    have "h < 512" using n by (simp add: h_def less_mult_imp_div_less)
    moreover have "unat f div 2 ^ 31 = h div 256" by (simp add: h_def flip: div_mult2_eq)
    ultimately show ?thesis unfolding s h_def [symmetric]
      by (cases "h < 256") (auto simp: div_eq_0_iff mod_if le_div_geq)
  qed
  ultimately have "unat f = ((if flt_neg f then 256 else 0) + flt_exp f) * 2 ^ 23 + flt_mant f"
    unfolding e m by metis
  then show "unat f = (if flt_neg f then 2 ^ 31 else 0) + flt_exp f * 2 ^ 23 + flt_mant f"
    by (simp add: algebra_simps)
qed

lemma flt_of_fields:
  fixes f :: uint32
  defines "b \<equiv> word_of_nat (flt_exp f * 2 ^ 23 + flt_mant f)"
  shows "f = (if flt_neg f then b OR 0x80000000 else b)"
proof -
  have "unat (take_bit 31 f) = flt_exp f * 2 ^ 23 + flt_mant f"
    unfolding unsigned_take_bit_eq unfolding take_bit_eq_mod using flt_fields [of f] by (auto simp: mod_if)
  then have "b = word_of_nat (unat (take_bit 31 f))" by (simp only: b_def)
  then have b: "b = take_bit 31 f" by simp
  have "bit f n = bit (if flt_neg f then take_bit 31 f OR push_bit 31 1 else take_bit 31 f) n" if "n < 32" for n
    using that by (cases "n = 31") (auto simp: bit_simps flt_neg_def simp del: push_bit_of_1)
  then have "f = (if flt_neg f then take_bit 31 f OR push_bit 31 1 else take_bit 31 f)"
    by (intro bit_word_eqI) simp
  moreover have "push_bit 31 1 = (0x80000000 :: uint32)" by simp
  ultimately show ?thesis unfolding b by metis
qed

lemma round_even_exact: "round_even (n * 2 ^ s) s = n"
  by (simp add: round_even_def)

lemma signed_dbl_fields:
  assumes "e < 2048" "m < 2 ^ 52"
    "d = (if neg then word_of_nat (e * 2 ^ 52 + m) OR 0x8000000000000000 else word_of_nat (e * 2 ^ 52 + m))"
  shows "dbl_exp d = e \<and> dbl_mant d = m \<and> (dbl_neg d \<longleftrightarrow> neg)"
  using dbl_fields [OF assms(1,2)] sign_fields [of "word_of_nat (e * 2 ^ 52 + m)"] assms(3) by simp

lemma ilog2_eq:
  assumes "2 ^ k \<le> n" "n < 2 ^ Suc k"
  shows "ilog2 n = k"
proof -
  have "0 < n" using assms(1) by (metis gr0I le_zero_eq power_eq_0_iff zero_neq_numeral)
  then have n: "2 ^ ilog2 n \<le> n" "n < 2 ^ Suc (ilog2 n)" using ilog2_bounds by auto
  have "(2::nat) ^ ilog2 n < 2 ^ Suc k" "(2::nat) ^ k < 2 ^ Suc (ilog2 n)" using assms n by linarith+
  then show ?thesis by (simp add: power_strict_increasing_iff less_Suc_eq_le del: power_Suc)
qed

text \<open>Widening a float and rounding it back is the identity.\<close>

lemma float_of_dbl_of_float:
  assumes "\<not> flt_isnan f"
  shows "float_of_dbl (dbl_of_float f) = f"
proof -
  define e m neg k where "e = flt_exp f" and "m = flt_mant f" and "neg = flt_neg f" and "k = ilog2 m"
  define d where "d = dbl_of_float f"
  have lim: "e < 256" "m < 2 ^ 23" using flt_fields [of f] by (simp_all add: e_def m_def)
  define b where "b = (if dbl_exp d = 2047 then 255 * 2 ^ 23 + (if dbl_mant d = 0 then 0 else (dbl_mant d div 2 ^ 29) OR 2 ^ 22)
    else let sig = (if dbl_exp d = 0 then dbl_mant d else 2 ^ 52 + dbl_mant d); x = max (dbl_exp d) 1;
             q = max (ilog2 sig + x) 949
         in min ((q - 949) * 2 ^ 23 + round_even sig (q - x - 23)) (255 * 2 ^ 23))"
  have "b = e * 2 ^ 23 + m \<and> (dbl_neg d \<longleftrightarrow> neg)"
  proof -
    consider "e = 255" "m = 0" | "e = 0" "m = 0" | "e = 0" "0 < m" | "0 < e" "e < 255"
      using assms lim by (force simp: flt_isnan_def e_def m_def)
    then show ?thesis
    proof cases
      case 1
      then have "dbl_exp d = 2047 \<and> dbl_mant d = 0 \<and> (dbl_neg d \<longleftrightarrow> neg)"
        by (intro signed_dbl_fields) (simp_all add: d_def dbl_of_float_def e_def m_def neg_def Let_def)
      then show ?thesis using 1 by (simp add: b_def)
    next
      case 2
      then have "dbl_exp d = 0 \<and> dbl_mant d = 0 \<and> (dbl_neg d \<longleftrightarrow> neg)"
        by (intro signed_dbl_fields) (simp_all add: d_def dbl_of_float_def e_def m_def neg_def Let_def)
      moreover have "ilog2 0 = 0" by (simp add: ilog2.simps)
      ultimately show ?thesis using 2 by (simp add: b_def Let_def round_even_def)
    next
      case 3
      have k: "2 ^ k \<le> m" "m < 2 ^ Suc k" using ilog2_bounds [OF 3(2)] by (simp_all add: k_def)
      then have "(2::nat) ^ k < 2 ^ 23" using lim by linarith
      then have k23: "k < 23" by (rule power_less_imp_less_exp [rotated]) simp
      then have two: "(2::nat) ^ 52 = 2 ^ k * 2 ^ (52 - k)" by (simp flip: power_add)
      define s where "s = m * 2 ^ (52 - k) - 2 ^ 52"
      have "2 ^ 52 \<le> m * 2 ^ (52 - k)" unfolding two using k(1) by (intro mult_le_mono1)
      then have sig: "2 ^ 52 + s = m * 2 ^ (52 - k)" by (simp add: s_def)
      have "m * 2 ^ (52 - k) < 2 ^ Suc k * 2 ^ (52 - k)" using k(2) by (intro mult_less_mono1) auto
      also have "\<dots> = 2 * 2 ^ 52" using two by simp
      finally have s: "s < 2 ^ 52" using sig by linarith
      have f: "dbl_exp d = k + 874 \<and> dbl_mant d = s \<and> (dbl_neg d \<longleftrightarrow> neg)"
        using 3 k23 s
        by (intro signed_dbl_fields) (simp_all add: d_def dbl_of_float_def e_def m_def neg_def Let_def s_def k_def)
      have l: "ilog2 (2 ^ 52 + s) = 52" using s by (intro ilog2_eq) simp_all
      have "b = min (round_even (m * 2 ^ (52 - k)) (52 - k)) (255 * 2 ^ 23)"
        using f l k23 by (simp add: b_def Let_def sig [simplified] max_def)
      then show ?thesis using f 3 lim by (simp add: round_even_exact)
    next
      case 4
      have f: "dbl_exp d = e + 896 \<and> dbl_mant d = m * 2 ^ 29 \<and> (dbl_neg d \<longleftrightarrow> neg)"
        using 4 lim
        by (intro signed_dbl_fields) (simp_all add: d_def dbl_of_float_def e_def m_def neg_def Let_def)
      have l: "ilog2 (2 ^ 52 + m * 2 ^ 29) = 52" using lim by (intro ilog2_eq) simp_all
      have sig: "2 ^ 52 + m * 2 ^ 29 = (2 ^ 23 + m) * 2 ^ 29" by simp
      have "b = min ((e - 1) * 2 ^ 23 + round_even ((2 ^ 23 + m) * 2 ^ 29) 29) (255 * 2 ^ 23)"
        using f l 4 unfolding b_def sig [symmetric] by (cases "e = 1") (simp_all add: Let_def max_def)
      then have "b = min ((e - 1) * 2 ^ 23 + (2 ^ 23 + m)) (255 * 2 ^ 23)"
        unfolding round_even_exact .
      moreover have "(e - 1) * 2 ^ 23 + (2 ^ 23 + m) = e * 2 ^ 23 + m" using 4 by (cases e) auto
      moreover have "e * 2 ^ 23 + m < 255 * 2 ^ 23" using 4 lim by simp
      ultimately show ?thesis using f by simp
    qed
  qed
  moreover have "float_of_dbl d = (if dbl_neg d then word_of_nat b OR 0x80000000 else word_of_nat b)"
    by (simp add: float_of_dbl_def b_def Let_def)
  ultimately have "float_of_dbl d = (if neg then word_of_nat (e * 2 ^ 23 + m) OR 0x80000000 else word_of_nat (e * 2 ^ 23 + m))"
    by metis
  also have "\<dots> = f" unfolding e_def m_def neg_def by (rule flt_of_fields [symmetric])
  finally show ?thesis by (simp only: d_def)
qed

end
