(* ===== verification/TypedArrays.thy ===== *)
theory TypedArrays
  imports ArrayMethods Floats
begin

text \<open>
  Array buffers, typed arrays and data views (\<open>src/runtime/ejs-typedarrays.c\<close>, \<open>ejs-typedarrays.h\<close>).  The buffers
  are a list, and a reference to a buffer is its position there; a buffer owns a block of bytes or depends on a part
  of another buffer.  A pointer into memory is the buffer that owns the block and an offset; an access outside the
  block, and a conversion of a number that the element type cannot hold, which C leaves undefined, are \<open>Aborts\<close>.
  The macro that defines the operations for each element type is modelled once, with the type as an argument; the
  host is little-endian, as in every configuration of the build.  \<open>calloc\<close> is taken to succeed for sizes that are
  not negative.
\<close>

section \<open>Element types\<close>

datatype EJSTypedArrayType =
    EJS_TYPEDARRAY_INT8 | EJS_TYPEDARRAY_UINT8 | EJS_TYPEDARRAY_UINT8CLAMPED | EJS_TYPEDARRAY_INT16
  | EJS_TYPEDARRAY_UINT16 | EJS_TYPEDARRAY_INT32 | EJS_TYPEDARRAY_UINT32 | EJS_TYPEDARRAY_FLOAT32
  | EJS_TYPEDARRAY_FLOAT64

fun elsize :: "EJSTypedArrayType \<Rightarrow> nat" where
  "elsize EJS_TYPEDARRAY_INT8 = 1"
| "elsize EJS_TYPEDARRAY_UINT8 = 1"
| "elsize EJS_TYPEDARRAY_UINT8CLAMPED = 1"
| "elsize EJS_TYPEDARRAY_INT16 = 2"
| "elsize EJS_TYPEDARRAY_UINT16 = 2"
| "elsize EJS_TYPEDARRAY_INT32 = 4"
| "elsize EJS_TYPEDARRAY_UINT32 = 4"
| "elsize EJS_TYPEDARRAY_FLOAT32 = 4"
| "elsize EJS_TYPEDARRAY_FLOAT64 = 8"

text \<open>The cast of a double to an integer type with the given least and greatest value.\<close>

definition c_convert :: "int \<Rightarrow> int \<Rightarrow> double \<Rightarrow> int outcome" where
  "c_convert lo hi d =
     (if isnan d \<or> isinf d \<or> dbl_trunc d < lo \<or> dbl_trunc d > hi then Aborts else Return (dbl_trunc d))"

text \<open>\<open>(elementtype)EJSVAL_TO_NUMBER(v)\<close> as the bytes of the element, and an element as a double.\<close>

fun encode_element :: "EJSTypedArrayType \<Rightarrow> double \<Rightarrow> uint8 list outcome" where
  "encode_element EJS_TYPEDARRAY_INT8 d = bind_outcome (c_convert (- (2 ^ 7)) (2 ^ 7 - 1) d) (\<lambda>i. Return (le_bytes 1 i))"
| "encode_element EJS_TYPEDARRAY_UINT8 d = bind_outcome (c_convert 0 (2 ^ 8 - 1) d) (\<lambda>i. Return (le_bytes 1 i))"
| "encode_element EJS_TYPEDARRAY_UINT8CLAMPED d = bind_outcome (c_convert 0 (2 ^ 8 - 1) d) (\<lambda>i. Return (le_bytes 1 i))"
| "encode_element EJS_TYPEDARRAY_INT16 d = bind_outcome (c_convert (- (2 ^ 15)) (2 ^ 15 - 1) d) (\<lambda>i. Return (le_bytes 2 i))"
| "encode_element EJS_TYPEDARRAY_UINT16 d = bind_outcome (c_convert 0 (2 ^ 16 - 1) d) (\<lambda>i. Return (le_bytes 2 i))"
| "encode_element EJS_TYPEDARRAY_INT32 d = bind_outcome (c_convert (- (2 ^ 31)) (2 ^ 31 - 1) d) (\<lambda>i. Return (le_bytes 4 i))"
| "encode_element EJS_TYPEDARRAY_UINT32 d = bind_outcome (c_convert 0 (2 ^ 32 - 1) d) (\<lambda>i. Return (le_bytes 4 i))"
| "encode_element EJS_TYPEDARRAY_FLOAT32 d = Return (le_bytes 4 (uint (float_of_dbl d)))"
| "encode_element EJS_TYPEDARRAY_FLOAT64 d = Return (le_bytes 8 (uint d))"

definition decode_element :: "EJSTypedArrayType \<Rightarrow> uint8 list \<Rightarrow> double" where
  "decode_element t bs =
     (let i = of_le_bytes bs in
      case t of
        EJS_TYPEDARRAY_INT8 \<Rightarrow> dbl_of_int (signed_take_bit 7 i)
      | EJS_TYPEDARRAY_INT16 \<Rightarrow> dbl_of_int (signed_take_bit 15 i)
      | EJS_TYPEDARRAY_INT32 \<Rightarrow> dbl_of_int (signed_take_bit 31 i)
      | EJS_TYPEDARRAY_FLOAT32 \<Rightarrow> dbl_of_float (word_of_int i)
      | EJS_TYPEDARRAY_FLOAT64 \<Rightarrow> word_of_int i
      | _ \<Rightarrow> dbl_of_int i)"

section \<open>Buffers\<close>

datatype buffer_data = Alloced (alloced_buf: "uint8 list") | Dependent (dependent_buf: addr) (dependent_offset: int)

record EJSArrayBuffer =
  buffer_size :: int
  buffer_data :: buffer_data

type_synonym buffers = "EJSArrayBuffer list"

definition IsDetachedBuffer :: "buffers \<Rightarrow> addr \<Rightarrow> bool outcome" where
  "IsDetachedBuffer bs b =
     (if b < length bs then
        Return (case buffer_data (bs ! b) of Dependent _ _ \<Rightarrow> True | Alloced _ \<Rightarrow> False)
      else Throws TypeError)"

definition ejs_arraybuffer_new :: "int \<Rightarrow> buffers \<Rightarrow> addr \<times> buffers" where
  "ejs_arraybuffer_new sz bs =
     (length bs, bs @ [\<lparr>buffer_size = sz, buffer_data = Alloced (replicate (nat sz) 0)\<rparr>])"

definition ejs_arraybuffer_new_slice :: "addr \<Rightarrow> int \<Rightarrow> int \<Rightarrow> buffers \<Rightarrow> (addr \<times> buffers) outcome" where
  "ejs_arraybuffer_new_slice b offset sz bs =
     (if b < length bs then
        let bsize = buffer_size (bs ! b); off = min bsize offset in
        if sz + off > INT_MAX \<or> sz + off < - INT_MAX - 1 then Aborts
        else
          let sz = (if sz + off > bsize then bsize - offset else sz) in
          Return (length bs, bs @ [\<lparr>buffer_size = sz, buffer_data = Dependent b off\<rparr>])
      else Aborts)"

definition ejs_ArrayBuffer_impl :: "array_env \<Rightarrow> ejsval \<Rightarrow> ejsval list \<Rightarrow> buffers \<Rightarrow> (addr \<times> buffers) outcome" where
  "ejs_ArrayBuffer_impl env newTarget args bs =
     (if EJSVAL_IS_UNDEFINED_IMPL newTarget then Throws TypeError
      else bind_outcome (to_number env (arg args 0)) (\<lambda>numberLength.
        bind_outcome (of_option (ToLength numberLength)) (\<lambda>len.
          Return (length bs, bs @ [\<lparr>buffer_size = c_int len, buffer_data = Alloced (replicate (nat len) 0)\<rparr>]))))"

definition to_uint32 :: "array_env \<Rightarrow> ejsval \<Rightarrow> uint32 outcome" where
  "to_uint32 env v = bind_outcome (to_number env v) ToUint32"

definition ejs_ArrayBuffer_prototype_slice :: "array_env \<Rightarrow> addr \<Rightarrow> ejsval list \<Rightarrow> buffers \<Rightarrow> (addr \<times> buffers) outcome" where
  "ejs_ArrayBuffer_prototype_slice env b args bs =
     (if b < length bs then
        bind_outcome (if length args = 0 then Return (word_of_int (buffer_size (bs ! b))) else to_uint32 env (args ! 0)) (\<lambda>len.
        bind_outcome (if length args < 2 then Return 0 else to_uint32 env (args ! 1)) (\<lambda>offset.
          ejs_arraybuffer_new_slice b (sint offset) (sint len) bs))
      else Aborts)"

text \<open>\<open>_ejs_arraybuffer_get_data\<close>: the buffer that owns the block, and the offset in it.\<close>

partial_function (option) ejs_arraybuffer_get_data :: "buffers \<Rightarrow> addr \<Rightarrow> (addr \<times> int) option" where
  "ejs_arraybuffer_get_data bs b =
     (if b < length bs then
        case buffer_data (bs ! b) of
          Alloced _ \<Rightarrow> Some (b, 0)
        | Dependent b' off \<Rightarrow>
            Option.bind (ejs_arraybuffer_get_data bs b') (\<lambda>(r, o'). Some (r, o' + off))
      else None)"

declare ejs_arraybuffer_get_data.simps [code]

definition read_mem :: "buffers \<Rightarrow> addr \<Rightarrow> int \<Rightarrow> nat \<Rightarrow> uint8 list outcome" where
  "read_mem bs r off n =
     (case buffer_data (bs ! r) of
        Alloced block \<Rightarrow>
          if r < length bs \<and> 0 \<le> off \<and> off + int n \<le> int (length block)
          then Return (take n (drop (nat off) block)) else Aborts
      | Dependent _ _ \<Rightarrow> Aborts)"

definition write_mem :: "buffers \<Rightarrow> addr \<Rightarrow> int \<Rightarrow> uint8 list \<Rightarrow> buffers outcome" where
  "write_mem bs r off ws =
     (case buffer_data (bs ! r) of
        Alloced block \<Rightarrow>
          if r < length bs \<and> 0 \<le> off \<and> off + int (length ws) \<le> int (length block)
          then Return (bs[r := (bs ! r)\<lparr>buffer_data :=
            Alloced (take (nat off) block @ ws @ drop (nat off + length ws) block)\<rparr>]) else Aborts
      | Dependent _ _ \<Rightarrow> Aborts)"

text \<open>The internal methods of a buffer treat it as an array when the name is a number, and use fields that it does not
  have.\<close>

definition ejs_arraybuffer_specop_get :: "array_env \<Rightarrow> buffers \<Rightarrow> addr \<Rightarrow> (ejsval \<Rightarrow> bool) \<Rightarrow> ejsval \<Rightarrow> ejsval handled outcome" where
  "ejs_arraybuffer_specop_get env bs b is_byteLength_name propertyName =
     (if EJSVAL_IS_DOUBLE_IMPL propertyName \<and> is_integral propertyName then Aborts
      else if EJSVAL_IS_STRING_IMPL propertyName \<and> is_byteLength_name propertyName then
        Return (Handled (int_value (buffer_size (bs ! b))))
      else Return Ordinary)"

text \<open>The buffer that a dependent buffer keeps alive.\<close>

definition ejs_arraybuffer_specop_scan :: "buffers \<Rightarrow> addr \<Rightarrow> addr list" where
  "ejs_arraybuffer_specop_scan bs b =
     (case buffer_data (bs ! b) of Dependent b' _ \<Rightarrow> [b'] | Alloced _ \<Rightarrow> [])"

section \<open>Typed arrays\<close>

record EJSTypedArray =
  typed_buffer :: addr
  byteOffset :: uint32
  byteLength :: uint32
  typed_length :: uint32
  element_type :: EJSTypedArrayType

definition ejs_typedarray_get_data :: "buffers \<Rightarrow> EJSTypedArray \<Rightarrow> (addr \<times> int) outcome" where
  "ejs_typedarray_get_data bs arr =
     bind_outcome (of_option (ejs_arraybuffer_get_data bs (typed_buffer arr))) (\<lambda>(r, off).
       Return (r, off + uint (byteOffset arr)))"

text \<open>\<open>((elementtype*)data)[i]\<close>, read and written.\<close>

definition read_element :: "buffers \<Rightarrow> EJSTypedArray \<Rightarrow> int \<Rightarrow> double outcome" where
  "read_element bs arr i =
     bind_outcome (ejs_typedarray_get_data bs arr) (\<lambda>(r, off).
     let n = elsize (element_type arr) in
     bind_outcome (read_mem bs r (off + i * int n) n) (\<lambda>ws. Return (decode_element (element_type arr) ws)))"

definition write_bytes :: "buffers \<Rightarrow> EJSTypedArray \<Rightarrow> int \<Rightarrow> uint8 list \<Rightarrow> buffers outcome" where
  "write_bytes bs arr i ws =
     bind_outcome (ejs_typedarray_get_data bs arr) (\<lambda>(r, off).
       write_mem bs r (off + i * int (elsize (element_type arr))) ws)"

definition write_element :: "buffers \<Rightarrow> EJSTypedArray \<Rightarrow> int \<Rightarrow> double \<Rightarrow> buffers outcome" where
  "write_element bs arr i d =
     bind_outcome (encode_element (element_type arr) d) (\<lambda>ws. write_bytes bs arr i ws)"

definition ejs_typedarray_new :: "EJSTypedArrayType \<Rightarrow> uint32 \<Rightarrow> buffers \<Rightarrow> EJSTypedArray \<times> buffers" where
  "ejs_typedarray_new t len bs =
     (let sz = len * word_of_nat (elsize t); (b, bs) = ejs_arraybuffer_new (sint sz) bs in
      (\<lparr>typed_buffer = b, byteOffset = 0, byteLength = sz, typed_length = len, element_type = t\<rparr>, bs))"

definition ejs_typedarray_get_at :: "buffers \<Rightarrow> EJSTypedArray \<Rightarrow> int \<Rightarrow> ejsval outcome" where
  "ejs_typedarray_get_at bs arr index =
     (if element_type arr = EJS_TYPEDARRAY_UINT8CLAMPED then Aborts else read_element bs arr index)"

definition ejs_typedarray_set_at :: "buffers \<Rightarrow> EJSTypedArray \<Rightarrow> int \<Rightarrow> ejsval \<Rightarrow> buffers outcome" where
  "ejs_typedarray_set_at bs arr index v =
     (if element_type arr = EJS_TYPEDARRAY_UINT8CLAMPED then Aborts else write_element bs arr index v)"

text \<open>Storing a sequence of elements from an index on; \<open>el\<close> gives the values.\<close>

fun store_elements :: "(int \<Rightarrow> ejsval outcome) \<Rightarrow> EJSTypedArray \<Rightarrow> int \<Rightarrow> nat \<Rightarrow> buffers \<Rightarrow> buffers outcome" where
  "store_elements el arr i 0 bs = Return bs"
| "store_elements el arr i (Suc n) bs =
     bind_outcome (el i) (\<lambda>v. bind_outcome (write_element bs arr i v) (\<lambda>bs. store_elements el arr (i + 1) n bs))"

definition ejs_typedarray_new_from_array ::
  "array_env \<Rightarrow> EJSTypedArrayType \<Rightarrow> EJSArray \<Rightarrow> buffers \<Rightarrow> (EJSTypedArray \<times> buffers) outcome" where
  "ejs_typedarray_new_from_array env t a bs =
     (let arrlen = c_int (array_length a); (arr, bs) = ejs_typedarray_new t (word_of_int arrlen) bs in
      if t = EJS_TYPEDARRAY_UINT8CLAMPED \<and> 0 < arrlen then Aborts
      else bind_outcome (store_elements
          (\<lambda>i. bind_outcome (ejs_array_specop_get env a (int_value i)) (\<lambda>r. case r of Handled v \<Rightarrow> Return v | Ordinary \<Rightarrow> Aborts))
          arr 0 (nat arrlen) bs) (\<lambda>bs. Return (arr, bs)))"

text \<open>The first argument of the constructor, by the tests that the constructor makes.\<close>

datatype typed_arg =
    No_argument
  | Typed_array EJSTypedArray
  | Array EJSArray
  | Array_buffer addr "ejsval list"
  | Other_object
  | Number ejsval
  | Other_value

definition construct_from_array_len ::
  "EJSTypedArrayType \<Rightarrow> uint32 \<Rightarrow> buffers \<Rightarrow> EJSTypedArray \<times> buffers" where
  "construct_from_array_len t array_len bs =
     (let bytes = array_len * word_of_nat (elsize t); (b, bs) = ejs_arraybuffer_new (sint bytes) bs in
      (\<lparr>typed_buffer = b, byteOffset = 0, byteLength = bytes, typed_length = array_len, element_type = t\<rparr>, bs))"

text \<open>The view on a part of a buffer: the arithmetic is that of \<open>uint32_t\<close>.\<close>

definition construct_from_buffer ::
  "EJSTypedArrayType \<Rightarrow> addr \<Rightarrow> int \<Rightarrow> uint32 option \<Rightarrow> uint32 option \<Rightarrow> EJSTypedArray outcome" where
  "construct_from_buffer t b sz offset len =
     (let elsz = word_of_nat (elsize t);
          bsize = word_of_int sz;
          off = (case offset of Some o' \<Rightarrow> o' | None \<Rightarrow> 0);
          bytes = (case len of Some l \<Rightarrow> l * elsz | None \<Rightarrow> bsize);
          off = (if off > bsize then bsize else off) in
      if off + bytes > bsize \<and> len \<noteq> None then Throws RangeError
      else
        let bytes = (if off + bytes > bsize then bsize - off else bytes) in
        if off mod elsz \<noteq> 0 then Throws RangeError
        else if bytes mod elsz \<noteq> 0 then Throws RangeError
        else
          let l = bytes div elsz in
          Return \<lparr>typed_buffer = b, byteOffset = off, byteLength = l * elsz, typed_length = l, element_type = t\<rparr>)"

definition ejs_TypedArray_impl ::
  "array_env \<Rightarrow> EJSTypedArrayType \<Rightarrow> ejsval \<Rightarrow> typed_arg \<Rightarrow> buffers \<Rightarrow> (EJSTypedArray \<times> buffers) outcome" where
  "ejs_TypedArray_impl env t newTarget arg0 bs =
     (if EJSVAL_IS_UNDEFINED_IMPL newTarget then Throws TypeError
      else case arg0 of
        No_argument \<Rightarrow> Return (construct_from_array_len t 0 bs)
      | Typed_array _ \<Rightarrow> Aborts
      | Array a \<Rightarrow>
          let (arr, bs) = construct_from_array_len t (word_of_int (array_length a)) bs in
          if EJSVAL_IS_DENSE_ARRAY a then
            bind_outcome (store_elements (element a) arr 0 (nat (array_length a)) bs) (\<lambda>bs. Return (arr, bs))
          else Aborts
      | Array_buffer b args \<Rightarrow>
          if b < length bs then
            bind_outcome (if length args > 0 then bind_outcome (to_uint32 env (args ! 0)) (\<lambda>x. Return (Some x)) else Return None) (\<lambda>offset.
            bind_outcome (if length args > 1 then bind_outcome (to_uint32 env (args ! 1)) (\<lambda>x. Return (Some x)) else Return None) (\<lambda>len.
            bind_outcome (construct_from_buffer t b (buffer_size (bs ! b)) offset len) (\<lambda>arr. Return (arr, bs))))
          else Aborts
      | Other_object \<Rightarrow> Return (construct_from_array_len t 0 bs)
      | Number n \<Rightarrow> bind_outcome (to_uint32 env n) (\<lambda>array_len. Return (construct_from_array_len t array_len bs))
      | Other_value \<Rightarrow> Aborts)"

subsection \<open>Internal methods\<close>

definition ejs_typedarray_specop_get :: "array_env \<Rightarrow> buffers \<Rightarrow> EJSTypedArray \<Rightarrow> ejsval \<Rightarrow> ejsval handled outcome" where
  "ejs_typedarray_specop_get env bs arr propertyName =
     bind_outcome (property_index env propertyName) (\<lambda>is_index.
       case is_index of
         Some idx \<Rightarrow>
           if idx < 0 \<or> idx > uint (typed_length arr) then Return (Handled ejs_undefined)
           else bind_outcome (read_element bs arr idx) (\<lambda>v. Return (Handled v))
       | None \<Rightarrow>
           if is_length_name env propertyName then Return (Handled (int_value (uint (typed_length arr))))
           else Return Ordinary)"

definition ejs_typedarray_specop_get_own_property ::
  "EJSTypedArray \<Rightarrow> ejsval \<Rightarrow> EJSPropertyDesc option handled outcome" where
  "ejs_typedarray_specop_get_own_property arr propertyName =
     (if EJSVAL_IS_DOUBLE_IMPL propertyName then
        bind_outcome (of_option (EJSDOUBLE_IS_INT32 propertyName)) (\<lambda>(ok, needle_int).
          if ok \<and> sint needle_int \<ge> 0 \<and> sint needle_int < uint (typed_length arr) then Return (Handled None)
          else Return Ordinary)
      else Return Ordinary)"

text \<open>\<open>[[HasProperty]]\<close> is not implemented.\<close>

definition ejs_typedarray_specop_has_property :: "EJSTypedArray \<Rightarrow> ejsval \<Rightarrow> bool handled outcome" where
  "ejs_typedarray_specop_has_property arr propertyName = Aborts"

definition ejs_typedarray_specop_set ::
  "array_env \<Rightarrow> EJSTypedArray \<Rightarrow> ejsval \<Rightarrow> ejsval \<Rightarrow> buffers \<Rightarrow> (bool \<times> buffers) outcome" where
  "ejs_typedarray_specop_set env arr propertyName val bs =
     bind_outcome (property_index env propertyName) (\<lambda>is_index.
       case is_index of
         Some idx \<Rightarrow>
           if idx < 0 \<or> idx \<ge> uint (typed_length arr) then Return (False, bs)
           else bind_outcome (write_element bs arr idx val) (\<lambda>bs. Return (True, bs))
       | None \<Rightarrow> Return (True, bs))"

definition ejs_Uint8Clampedarray_specop_set ::
  "array_env \<Rightarrow> EJSTypedArray \<Rightarrow> ejsval \<Rightarrow> ejsval \<Rightarrow> buffers \<Rightarrow> (bool \<times> buffers) outcome" where
  "ejs_Uint8Clampedarray_specop_set env arr propertyName val bs =
     bind_outcome (property_index env propertyName) (\<lambda>is_index.
       case is_index of
         Some idx \<Rightarrow>
           if idx < 0 \<or> idx \<ge> uint (typed_length arr) then Return (False, bs)
           else
             bind_outcome (of_option (double_to_int64 val)) (\<lambda>v.
             bind_outcome (write_bytes bs arr idx (le_bytes 1 (if v > 255 then 255 else v))) (\<lambda>bs.
               Return (True, bs)))
       | None \<Rightarrow> Return (True, bs))"

definition typed_specop_set ::
  "array_env \<Rightarrow> EJSTypedArray \<Rightarrow> ejsval \<Rightarrow> ejsval \<Rightarrow> buffers \<Rightarrow> (bool \<times> buffers) outcome" where
  "typed_specop_set env arr =
     (if element_type arr = EJS_TYPEDARRAY_UINT8CLAMPED then ejs_Uint8Clampedarray_specop_set env arr
      else ejs_typedarray_specop_set env arr)"

definition ejs_typedarray_specop_scan :: "EJSTypedArray \<Rightarrow> addr list" where
  "ejs_typedarray_specop_scan arr = [typed_buffer arr]"

section \<open>Data views\<close>

record EJSDataView =
  view_buffer :: addr
  view_offset :: uint32
  view_length :: uint32

definition ejs_dataview_get_data :: "buffers \<Rightarrow> EJSDataView \<Rightarrow> (addr \<times> int) outcome" where
  "ejs_dataview_get_data bs view =
     bind_outcome (of_option (ejs_arraybuffer_get_data bs (view_buffer view))) (\<lambda>(r, off).
       Return (r, off + uint (view_offset view)))"

text \<open>\<open>uint32_t x = EJSVAL_TO_NUMBER(v)\<close>.\<close>

definition number_uint32 :: "ejsval \<Rightarrow> uint32 outcome" where
  "number_uint32 v = bind_outcome (c_convert 0 (2 ^ 32 - 1) v) (\<lambda>i. Return (word_of_int i))"

text \<open>The arguments are the buffer and the rest of the argument list.\<close>

definition ejs_DataView_impl :: "ejsval \<Rightarrow> addr option \<Rightarrow> ejsval list \<Rightarrow> buffers \<Rightarrow> EJSDataView outcome" where
  "ejs_DataView_impl newTarget buf args bs =
     (if EJSVAL_IS_UNDEFINED_IMPL newTarget then Throws TypeError
      else case buf of
        None \<Rightarrow> Aborts
      | Some b \<Rightarrow>
          if b < length bs then
            let sz = word_of_int (buffer_size (bs ! b)) in
            bind_outcome (if length args = 0 then Return 0 else number_uint32 (args ! 0)) (\<lambda>offset.
            bind_outcome (if length args = 0 then Return sz else if length args = 1 then Return (sz - offset)
                else number_uint32 (args ! 1)) (\<lambda>len.
              Return \<lparr>view_buffer = b, view_offset = offset, view_length = len\<rparr>))
          else Aborts)"

definition needToSwap :: "bool \<Rightarrow> bool" where "needToSwap littleEndian \<longleftrightarrow> \<not> littleEndian"

definition EJS_SWAP_2BYTES :: "16 word \<Rightarrow> 16 word" where
  "EJS_SWAP_2BYTES x = (drop_bit 8 x AND 0x00FF) OR (push_bit 8 x AND 0xFF00)"

definition EJS_SWAP_4BYTES :: "32 word \<Rightarrow> 32 word" where
  "EJS_SWAP_4BYTES x =
     (drop_bit 24 x AND 0x000000FF) OR (drop_bit 8 x AND 0x0000FF00) OR
     (push_bit 8 x AND 0x00FF0000) OR (push_bit 24 x AND 0xFF000000)"

definition EJS_SWAP_8BYTES :: "64 word \<Rightarrow> 64 word" where
  "EJS_SWAP_8BYTES x =
     (drop_bit 56 x AND 0x00000000000000FF) OR (drop_bit 40 x AND 0x000000000000FF00) OR
     (drop_bit 24 x AND 0x0000000000FF0000) OR (drop_bit 8 x AND 0x00000000FF000000) OR
     (push_bit 8 x AND 0x000000FF00000000) OR (push_bit 24 x AND 0x0000FF0000000000) OR
     (push_bit 40 x AND 0x00FF000000000000) OR (push_bit 56 x AND 0xFF00000000000000)"

definition swapBytes :: "uint8 list \<Rightarrow> nat \<Rightarrow> uint8 list" where
  "swapBytes ws n =
     (if n = 2 then le_bytes 2 (uint (EJS_SWAP_2BYTES (word_of_int (of_le_bytes ws))))
      else if n = 4 then le_bytes 4 (uint (EJS_SWAP_4BYTES (word_of_int (of_le_bytes ws))))
      else if n = 8 then le_bytes 8 (uint (EJS_SWAP_8BYTES (word_of_int (of_le_bytes ws))))
      else ws)"

definition little_endian_arg :: "ejsval list \<Rightarrow> nat \<Rightarrow> bool" where
  "little_endian_arg args i \<longleftrightarrow> i < length args \<and> EJSVAL_TO_BOOLEAN_IMPL (args ! i) \<noteq> 0"

text \<open>The methods that the macro defines for the element types except the clamped one.\<close>

definition ejs_DataView_prototype_get :: "EJSTypedArrayType \<Rightarrow> EJSDataView \<Rightarrow> ejsval list \<Rightarrow> buffers \<Rightarrow> ejsval outcome" where
  "ejs_DataView_prototype_get t view args bs =
     (if length args < 1 then Aborts
      else bind_outcome (number_uint32 (args ! 0)) (\<lambda>idx.
        bind_outcome (ejs_dataview_get_data bs view) (\<lambda>(r, off).
        bind_outcome (read_mem bs r (off + uint idx) (elsize t)) (\<lambda>val.
          Return (decode_element t (if needToSwap (little_endian_arg args 1) then swapBytes val (elsize t) else val))))))"

definition ejs_DataView_prototype_set :: "EJSTypedArrayType \<Rightarrow> EJSDataView \<Rightarrow> ejsval list \<Rightarrow> buffers \<Rightarrow> buffers outcome" where
  "ejs_DataView_prototype_set t view args bs =
     (if length args < 2 then Aborts
      else bind_outcome (number_uint32 (args ! 0)) (\<lambda>idx.
        bind_outcome (encode_element t (args ! 1)) (\<lambda>val.
        let val = (if needToSwap (little_endian_arg args 2) then swapBytes val (elsize t) else val) in
        bind_outcome (ejs_dataview_get_data bs view) (\<lambda>(r, off).
          write_mem bs r (off + uint idx) val))))"

definition ejs_dataview_specop_get :: "buffers \<Rightarrow> EJSDataView \<Rightarrow> ejsval \<Rightarrow> ejsval handled outcome" where
  "ejs_dataview_specop_get bs view propertyName =
     (if EJSVAL_IS_DOUBLE_IMPL propertyName \<and> is_integral propertyName then
        bind_outcome (double_to_int propertyName) (\<lambda>idx.
          if idx < 0 \<or> idx > uint (view_length view) then Return (Handled ejs_undefined)
          else bind_outcome (ejs_dataview_get_data bs view) (\<lambda>(r, off).
            bind_outcome (read_mem bs r (off + idx) 1) (\<lambda>ws.
              Return (Handled (dbl_of_int (of_le_bytes ws))))))
      else Return Ordinary)"

definition ejs_dataview_specop_set ::
  "array_env \<Rightarrow> EJSDataView \<Rightarrow> ejsval \<Rightarrow> ejsval \<Rightarrow> buffers \<Rightarrow> (bool \<times> buffers) handled outcome" where
  "ejs_dataview_specop_set env view propertyName val bs =
     bind_outcome (property_index env propertyName) (\<lambda>is_index.
       case is_index of
         Some idx \<Rightarrow>
           if idx < 0 \<or> idx \<ge> uint (view_length view) then Return (Handled (False, bs))
           else bind_outcome (ejs_dataview_get_data bs view) (\<lambda>(r, off).
             bind_outcome (c_convert 0 255 val) (\<lambda>i.
             bind_outcome (write_mem bs r (off + idx) (le_bytes 1 i)) (\<lambda>bs. Return (Handled (True, bs)))))
       | None \<Rightarrow> Return Ordinary)"

definition ejs_dataview_specop_get_own_property :: "EJSDataView \<Rightarrow> ejsval \<Rightarrow> EJSPropertyDesc option handled outcome" where
  "ejs_dataview_specop_get_own_property view propertyName =
     (if EJSVAL_IS_DOUBLE_IMPL propertyName then
        bind_outcome (of_option (EJSDOUBLE_IS_INT32 propertyName)) (\<lambda>(ok, needle_int).
          if ok \<and> sint needle_int \<ge> 0 \<and> sint needle_int < uint (view_length view) then Return (Handled None)
          else Return Ordinary)
      else Return Ordinary)"

definition ejs_dataview_specop_has_property :: "EJSDataView \<Rightarrow> ejsval \<Rightarrow> bool handled outcome" where
  "ejs_dataview_specop_has_property view propertyName =
     (if EJSVAL_IS_DOUBLE_IMPL propertyName \<and> is_integral propertyName then
        bind_outcome (double_to_int propertyName) (\<lambda>idx. Return (Handled (idx > 0 \<and> idx < uint (view_length view))))
      else Return Ordinary)"

definition ejs_dataview_specop_delete :: "EJSDataView \<Rightarrow> ejsval \<Rightarrow> bool handled outcome" where
  "ejs_dataview_specop_delete view propertyName =
     (if EJSVAL_IS_DOUBLE_IMPL propertyName \<and> is_integral propertyName then
        bind_outcome (double_to_int propertyName) (\<lambda>idx. if idx = - 1 then Return Ordinary else Return (Handled False))
      else Return Ordinary)"

definition ejs_dataview_specop_scan :: "EJSDataView \<Rightarrow> addr list" where
  "ejs_dataview_specop_scan view = [view_buffer view]"

end
