(* ===== verification/TypedArrayMethods.thy ===== *)
theory TypedArrayMethods
  imports TypedArrays
begin

text \<open>
  The methods of typed arrays (\<open>src/runtime/ejs-typedarrays.c\<close>) on receivers that are typed arrays; any other
  receiver is a TypeError.  \<open>Get\<close> and \<open>Put\<close> lead to the internal methods of \<open>TypedArrays\<close>.  A callback takes its
  arguments and the buffers, which it may change; the typed array itself never changes.
\<close>

section \<open>Access by index\<close>

definition typed_get :: "method_env \<Rightarrow> EJSTypedArray \<Rightarrow> int \<Rightarrow> buffers \<Rightarrow> ejsval outcome" where
  "typed_get env arr k bs =
     bind_outcome (ejs_typedarray_specop_get (names env) bs arr (key_of env k)) (\<lambda>r.
       case r of Handled v \<Rightarrow> Return v | Ordinary \<Rightarrow> Aborts)"

definition typed_put :: "method_env \<Rightarrow> EJSTypedArray \<Rightarrow> int \<Rightarrow> ejsval \<Rightarrow> buffers \<Rightarrow> buffers outcome" where
  "typed_put env arr k v bs =
     bind_outcome (typed_specop_set (names env) arr (key_of env k) v bs) (\<lambda>(ok, bs).
       if ok then Return bs else Throws TypeError)"

text \<open>The result of \<open>int\<close> arithmetic, undefined when it overflows.\<close>

definition int_range :: "int \<Rightarrow> int outcome" where
  "int_range i = (if - INT_MAX - 1 \<le> i \<and> i \<le> INT_MAX then Return i else Aborts)"

text \<open>\<open>int32_t x = ToInteger(v)\<close>.\<close>

definition to_int32 :: "method_env \<Rightarrow> ejsval \<Rightarrow> int outcome" where
  "to_int32 env v = bind_outcome (to_integer env v) (\<lambda>i. Return (c_int i))"

definition relative_end32 :: "method_env \<Rightarrow> int \<Rightarrow> ejsval \<Rightarrow> int outcome" where
  "relative_end32 env len v = (if EJSVAL_IS_UNDEFINED_IMPL v then Return (c_int len) else to_int32 env v)"

definition ValidateTypedArray :: "buffers \<Rightarrow> EJSTypedArray \<Rightarrow> addr outcome" where
  "ValidateTypedArray bs arr =
     bind_outcome (IsDetachedBuffer bs (typed_buffer arr)) (\<lambda>detached.
       if detached then Throws TypeError else Return (typed_buffer arr))"

section \<open>copyWithin\<close>

fun copyWithin_elements :: "addr \<Rightarrow> int \<Rightarrow> nat \<Rightarrow> int \<Rightarrow> int \<Rightarrow> int \<Rightarrow> nat \<Rightarrow> buffers \<Rightarrow> buffers outcome" where
  "copyWithin_elements r off n from' to direction 0 bs = Return bs"
| "copyWithin_elements r off n from' to direction (Suc count) bs =
     bind_outcome (read_mem bs r (off + from' * int n) n) (\<lambda>fromVal.
     bind_outcome (write_mem bs r (off + to * int n) fromVal) (\<lambda>bs.
       copyWithin_elements r off n (from' + direction) (to + direction) direction count bs))"

definition ejs_TypedArray_prototype_copyWithin ::
  "method_env \<Rightarrow> EJSTypedArray \<Rightarrow> ejsval list \<Rightarrow> buffers \<Rightarrow> buffers outcome" where
  "ejs_TypedArray_prototype_copyWithin env arr args bs =
     bind_outcome (ValidateTypedArray bs arr) (\<lambda>_.
     let len = uint (typed_length arr) in
     bind_outcome (to_int32 env (arg args 0)) (\<lambda>relativeTarget.
     let to = clamp len relativeTarget in
     bind_outcome (to_int32 env (arg args 1)) (\<lambda>relativeStart.
     let from' = clamp len relativeStart in
     bind_outcome (relative_end32 env len (arg args 2)) (\<lambda>relativeEnd.
     let final = clamp len relativeEnd in
     bind_outcome (int_range (final - from')) (\<lambda>d.
     let count = c_min d (len - to) in
     bind_outcome (if from' < to then bind_outcome (int_range (from' + count)) (\<lambda>e. Return (to < e)) else Return False) (\<lambda>overlap.
     bind_outcome (ejs_typedarray_get_data bs arr) (\<lambda>(r, off).
     let n = elsize (element_type arr) in
     if overlap then copyWithin_elements r off n (from' + count - 1) (to + count - 1) (- 1) (nat count) bs
     else copyWithin_elements r off n from' to 1 (nat count) bs)))))))"

section \<open>set\<close>

text \<open>The object that an array-like argument converts to; reading it may run code that changes the buffers.\<close>

record typed_source =
  src_length :: "buffers \<Rightarrow> (ejsval \<times> buffers) outcome"
  src_get :: "int \<Rightarrow> buffers \<Rightarrow> (ejsval \<times> buffers) outcome"

fun set_array_loop :: "method_env \<Rightarrow> typed_source \<Rightarrow> EJSTypedArray \<Rightarrow> int \<Rightarrow> int \<Rightarrow> nat \<Rightarrow> buffers \<Rightarrow> buffers outcome" where
  "set_array_loop env src target targetIndex k 0 bs = Return bs"
| "set_array_loop env src target targetIndex k (Suc n) bs =
     bind_outcome (src_get src k bs) (\<lambda>(v, bs).
     bind_outcome (to_number (names env) v) (\<lambda>kNumber.
     bind_outcome (ValidateTypedArray bs target) (\<lambda>_.
     bind_outcome (write_element bs target targetIndex kNumber) (\<lambda>bs.
       set_array_loop env src target (targetIndex + 1) (k + 1) n bs))))"

definition ejs_TypedArray_prototype_set_array ::
  "method_env \<Rightarrow> typed_source outcome \<Rightarrow> ejsval \<Rightarrow> EJSTypedArray \<Rightarrow> buffers \<Rightarrow> buffers outcome" where
  "ejs_TypedArray_prototype_set_array env to_object offset target bs =
     bind_outcome (to_int32 env offset) (\<lambda>targetOffset.
     if targetOffset < 0 then Throws RangeError
     else
       bind_outcome (ValidateTypedArray bs target) (\<lambda>_.
       let targetLength = c_int (uint (typed_length target)) in
       bind_outcome to_object (\<lambda>src.
       bind_outcome (src_length src bs) (\<lambda>(v, bs).
       bind_outcome (to_number (names env) v) (\<lambda>d.
       bind_outcome (of_option (ToLength d)) (\<lambda>l.
       let srcLength = c_int l in
       bind_outcome (int_range (srcLength + targetOffset)) (\<lambda>limit.
       if limit > targetLength then Throws RangeError
       else set_array_loop env src target targetOffset 0 (nat (limit - targetOffset)) bs)))))))"

fun set_typedarray_loop :: "EJSTypedArray \<Rightarrow> EJSTypedArray \<Rightarrow> int \<Rightarrow> int \<Rightarrow> nat \<Rightarrow> buffers \<Rightarrow> buffers outcome" where
  "set_typedarray_loop src target srcIndex targetIndex 0 bs = Return bs"
| "set_typedarray_loop src target srcIndex targetIndex (Suc n) bs =
     bind_outcome (ejs_typedarray_get_at bs src srcIndex) (\<lambda>v.
     bind_outcome (write_element bs target targetIndex v) (\<lambda>bs.
       set_typedarray_loop src target (srcIndex + 1) (targetIndex + 1) n bs))"

definition ejs_TypedArray_prototype_set_typedarray ::
  "method_env \<Rightarrow> EJSTypedArray \<Rightarrow> ejsval \<Rightarrow> EJSTypedArray \<Rightarrow> buffers \<Rightarrow> buffers outcome" where
  "ejs_TypedArray_prototype_set_typedarray env src offset target bs =
     bind_outcome (to_int32 env offset) (\<lambda>targetOffset.
     if targetOffset < 0 then Throws RangeError
     else
       bind_outcome (ValidateTypedArray bs target) (\<lambda>_.
       let targetLength = c_int (uint (typed_length target)) in
       bind_outcome (ValidateTypedArray bs src) (\<lambda>_.
       let srcLength = c_int (uint (typed_length src)) in
       bind_outcome (int_range (srcLength + targetOffset)) (\<lambda>limit.
       if limit > targetLength then Throws RangeError
       else if typed_buffer src = typed_buffer target then Aborts
       else if element_type src \<noteq> element_type target then Aborts
       else set_typedarray_loop src target 0 targetOffset (nat (limit - targetOffset)) bs))))"

section \<open>subarray\<close>

text \<open>\<open>construct\<close> is the constructor that the species of the array gives, applied to the buffer, the offset in bytes
  and the length.\<close>

definition ejs_TypedArray_prototype_subarray ::
  "method_env \<Rightarrow> (addr \<Rightarrow> uint32 \<Rightarrow> uint32 \<Rightarrow> 'a outcome) \<Rightarrow> EJSTypedArray \<Rightarrow> ejsval list \<Rightarrow> 'a outcome" where
  "ejs_TypedArray_prototype_subarray env construct arr args =
     (let srcLength = uint (typed_length arr) in
      bind_outcome (to_int32 env (arg args 0)) (\<lambda>beginInt.
      let beginInt = (if beginInt < 0 then c_int (srcLength + beginInt) else beginInt);
          beginIndex = word_of_int (c_min srcLength (c_max 0 beginInt)) in
      bind_outcome (to_int32 env (if EJSVAL_IS_UNDEFINED_IMPL (arg args 1) then int_value srcLength else arg args 1)) (\<lambda>endInt.
      let endInt = (if endInt < 0 then c_int (srcLength + endInt) else endInt);
          endIndex = word_of_int (c_max 0 (c_min srcLength endInt));
          endIndex = (if endIndex < beginIndex then beginIndex else endIndex);
          newLength = endIndex - beginIndex in
      construct (typed_buffer arr) (byteOffset arr + beginIndex * word_of_nat (elsize (element_type arr))) newLength)))"

text \<open>The default constructor.\<close>

definition construct_subarray ::
  "array_env \<Rightarrow> EJSTypedArrayType \<Rightarrow> buffers \<Rightarrow> addr \<Rightarrow> uint32 \<Rightarrow> uint32 \<Rightarrow> (EJSTypedArray \<times> buffers) outcome" where
  "construct_subarray env t bs b offset len =
     ejs_TypedArray_impl env t ejs_true (Array_buffer b [int_value (uint offset), int_value (uint len)]) bs"

section \<open>fill, reverse, of\<close>

fun fill_typed :: "method_env \<Rightarrow> EJSTypedArray \<Rightarrow> ejsval \<Rightarrow> int \<Rightarrow> nat \<Rightarrow> buffers \<Rightarrow> buffers outcome" where
  "fill_typed env arr v k 0 bs = Return bs"
| "fill_typed env arr v k (Suc n) bs = bind_outcome (typed_put env arr k v bs) (\<lambda>bs. fill_typed env arr v (k + 1) n bs)"

definition ejs_TypedArray_prototype_fill :: "method_env \<Rightarrow> EJSTypedArray \<Rightarrow> ejsval list \<Rightarrow> buffers \<Rightarrow> buffers outcome" where
  "ejs_TypedArray_prototype_fill env arr args bs =
     (let len = uint (typed_length arr) in
      bind_outcome (to_int32 env (arg args 1)) (\<lambda>relativeStart.
      bind_outcome (relative_end32 env len (arg args 2)) (\<lambda>relativeEnd.
      let k = clamp len relativeStart; final = clamp len relativeEnd in
      fill_typed env arr (arg args 0) k (nat (final - k)) bs)))"

fun reverse_typed :: "method_env \<Rightarrow> EJSTypedArray \<Rightarrow> int \<Rightarrow> nat \<Rightarrow> buffers \<Rightarrow> buffers outcome" where
  "reverse_typed env arr lower 0 bs = Return bs"
| "reverse_typed env arr lower (Suc n) bs =
     (let upper = c_int (uint (typed_length arr) - lower - 1) in
      bind_outcome (typed_get env arr lower bs) (\<lambda>lowerValue.
      bind_outcome (typed_get env arr upper bs) (\<lambda>upperValue.
      bind_outcome (typed_put env arr lower upperValue bs) (\<lambda>bs.
      bind_outcome (typed_put env arr upper lowerValue bs) (\<lambda>bs.
        reverse_typed env arr (lower + 1) n bs)))))"

definition ejs_TypedArray_prototype_reverse :: "method_env \<Rightarrow> EJSTypedArray \<Rightarrow> buffers \<Rightarrow> buffers outcome" where
  "ejs_TypedArray_prototype_reverse env arr bs =
     bind_outcome (ValidateTypedArray bs arr) (\<lambda>_.
       reverse_typed env arr 0 (unat (typed_length arr) div 2) bs)"

fun put_typed_items :: "method_env \<Rightarrow> EJSTypedArray \<Rightarrow> int \<Rightarrow> ejsval list \<Rightarrow> buffers \<Rightarrow> buffers outcome" where
  "put_typed_items env arr k [] bs = Return bs"
| "put_typed_items env arr k (v # vs) bs = bind_outcome (typed_put env arr k v bs) (\<lambda>bs. put_typed_items env arr (k + 1) vs bs)"

definition ejs_TypedArray_of ::
  "method_env \<Rightarrow> EJSTypedArrayType \<Rightarrow> bool \<Rightarrow> ejsval list \<Rightarrow> buffers \<Rightarrow> (EJSTypedArray \<times> buffers) outcome" where
  "ejs_TypedArray_of env t is_constructor args bs =
     (if is_constructor then
        let (arr, bs) = ejs_typedarray_new t (word_of_nat (length args)) bs in
        bind_outcome (put_typed_items env arr 0 args bs) (\<lambda>bs. Return (arr, bs))
      else Throws TypeError)"

section \<open>Searching\<close>

fun typed_indexOf_loop :: "method_env \<Rightarrow> EJSTypedArray \<Rightarrow> ejsval \<Rightarrow> int \<Rightarrow> int \<Rightarrow> nat \<Rightarrow> buffers \<Rightarrow> int outcome" where
  "typed_indexOf_loop env arr x step k 0 bs = Return (- 1)"
| "typed_indexOf_loop env arr x step k (Suc n) bs =
     bind_outcome (typed_get env arr k bs) (\<lambda>elementK.
     bind_outcome (of_option (ejs_op_strict_eq (texts (names env)) x elementK)) (\<lambda>same.
       if same then Return k else typed_indexOf_loop env arr x step (k + step) n bs))"

definition c_abs :: "int \<Rightarrow> int outcome" where "c_abs n = int_range \<bar>n\<bar>"

definition ejs_TypedArray_prototype_indexOf :: "method_env \<Rightarrow> EJSTypedArray \<Rightarrow> ejsval list \<Rightarrow> buffers \<Rightarrow> ejsval outcome" where
  "ejs_TypedArray_prototype_indexOf env arr args bs =
     (let len = c_int (uint (typed_length arr)) in
      if len = 0 then Return (int_value (- 1))
      else bind_outcome (if EJSVAL_IS_UNDEFINED_IMPL (arg args 1) then Return 0 else to_int32 env (arg args 1)) (\<lambda>n.
        if n \<ge> len then Return (int_value (- 1))
        else bind_outcome (if n \<ge> 0 then Return n else bind_outcome (c_abs n) (\<lambda>a. bind_outcome (int_range (len - a)) (\<lambda>k. Return (max k 0)))) (\<lambda>k.
          bind_outcome (typed_indexOf_loop env arr (arg args 0) 1 k (nat (len - k)) bs) (\<lambda>i. Return (int_value i)))))"

definition ejs_TypedArray_prototype_lastIndexOf :: "method_env \<Rightarrow> EJSTypedArray \<Rightarrow> ejsval list \<Rightarrow> buffers \<Rightarrow> ejsval outcome" where
  "ejs_TypedArray_prototype_lastIndexOf env arr args bs =
     (let len = c_int (uint (typed_length arr)) in
      if len = 0 then Return (int_value (- 1))
      else bind_outcome (if EJSVAL_IS_UNDEFINED_IMPL (arg args 1) then int_range (len - 1) else to_int32 env (arg args 1)) (\<lambda>n.
        bind_outcome (if n \<ge> 0 then bind_outcome (int_range (len - 1)) (\<lambda>l. Return (c_min n l))
            else bind_outcome (c_abs n) (\<lambda>a. int_range (len - a))) (\<lambda>k.
          bind_outcome (typed_indexOf_loop env arr (arg args 0) (- 1) k (nat (k + 1)) bs) (\<lambda>i. Return (int_value i)))))"

section \<open>Callbacks\<close>

type_synonym typed_callback = "ejsval list \<Rightarrow> buffers \<Rightarrow> (ejsval \<times> buffers) outcome"

text \<open>The result of a callback is used as a boolean without a conversion: its lower 32 bits are tested.\<close>

definition raw_truth :: "ejsval \<Rightarrow> bool" where "raw_truth v \<longleftrightarrow> EJSVAL_TO_BOOLEAN_IMPL v \<noteq> 0"

text \<open>The loop of every, some, find and findIndex: it stops with the value and index of the first element for which
  the result of the callback, as a boolean, is \<open>stop\<close>.\<close>

fun search_typed ::
  "method_env \<Rightarrow> bool \<Rightarrow> typed_callback \<Rightarrow> ejsval \<Rightarrow> EJSTypedArray \<Rightarrow> int \<Rightarrow> nat \<Rightarrow> buffers \<Rightarrow> ((ejsval \<times> int) option \<times> buffers) outcome" where
  "search_typed env stop call self arr k 0 bs = Return (None, bs)"
| "search_typed env stop call self arr k (Suc n) bs =
     bind_outcome (typed_get env arr k bs) (\<lambda>kValue.
     bind_outcome (call [kValue, int_value k, self] bs) (\<lambda>(testResult, bs).
       if raw_truth testResult = stop then Return (Some (kValue, k), bs)
       else search_typed env stop call self arr (k + 1) n bs))"

definition ejs_TypedArray_prototype_every ::
  "method_env \<Rightarrow> bool \<Rightarrow> typed_callback \<Rightarrow> ejsval \<Rightarrow> EJSTypedArray \<Rightarrow> buffers \<Rightarrow> (bool \<times> buffers) outcome" where
  "ejs_TypedArray_prototype_every env callable call self arr bs =
     (if \<not> callable then Throws TypeError
      else bind_outcome (search_typed env False call self arr 0 (unat (typed_length arr)) bs) (\<lambda>(r, bs). Return (r = None, bs)))"

definition ejs_TypedArray_prototype_some ::
  "method_env \<Rightarrow> bool \<Rightarrow> typed_callback \<Rightarrow> ejsval \<Rightarrow> EJSTypedArray \<Rightarrow> buffers \<Rightarrow> (bool \<times> buffers) outcome" where
  "ejs_TypedArray_prototype_some env callable call self arr bs =
     (if \<not> callable then Throws TypeError
      else bind_outcome (search_typed env True call self arr 0 (unat (typed_length arr)) bs) (\<lambda>(r, bs). Return (r \<noteq> None, bs)))"

definition ejs_TypedArray_prototype_find ::
  "method_env \<Rightarrow> bool \<Rightarrow> typed_callback \<Rightarrow> ejsval \<Rightarrow> EJSTypedArray \<Rightarrow> buffers \<Rightarrow> (ejsval \<times> buffers) outcome" where
  "ejs_TypedArray_prototype_find env callable call self arr bs =
     (if \<not> callable then Throws TypeError
      else bind_outcome (search_typed env True call self arr 0 (unat (typed_length arr)) bs) (\<lambda>(r, bs).
        Return (case r of None \<Rightarrow> ejs_undefined | Some (v, k) \<Rightarrow> v, bs)))"

definition ejs_TypedArray_prototype_findIndex ::
  "method_env \<Rightarrow> bool \<Rightarrow> typed_callback \<Rightarrow> ejsval \<Rightarrow> EJSTypedArray \<Rightarrow> buffers \<Rightarrow> (ejsval \<times> buffers) outcome" where
  "ejs_TypedArray_prototype_findIndex env callable call self arr bs =
     (if \<not> callable then Throws TypeError
      else bind_outcome (search_typed env True call self arr 0 (unat (typed_length arr)) bs) (\<lambda>(r, bs).
        Return (int_value (case r of None \<Rightarrow> - 1 | Some (v, k) \<Rightarrow> k), bs)))"

fun forEach_typed :: "method_env \<Rightarrow> typed_callback \<Rightarrow> ejsval \<Rightarrow> EJSTypedArray \<Rightarrow> int \<Rightarrow> nat \<Rightarrow> buffers \<Rightarrow> buffers outcome" where
  "forEach_typed env call self arr k 0 bs = Return bs"
| "forEach_typed env call self arr k (Suc n) bs =
     bind_outcome (typed_get env arr k bs) (\<lambda>kValue.
     bind_outcome (call [kValue, int_value k, self] bs) (\<lambda>(_, bs).
       forEach_typed env call self arr (k + 1) n bs))"

definition ejs_TypedArray_prototype_forEach ::
  "method_env \<Rightarrow> bool \<Rightarrow> typed_callback \<Rightarrow> ejsval \<Rightarrow> EJSTypedArray \<Rightarrow> buffers \<Rightarrow> buffers outcome" where
  "ejs_TypedArray_prototype_forEach env callable call self arr bs =
     (if \<not> callable then Throws TypeError else forEach_typed env call self arr 0 (unat (typed_length arr)) bs)"

fun map_typed ::
  "method_env \<Rightarrow> typed_callback \<Rightarrow> ejsval \<Rightarrow> EJSTypedArray \<Rightarrow> EJSTypedArray \<Rightarrow> int \<Rightarrow> nat \<Rightarrow> buffers \<Rightarrow> buffers outcome" where
  "map_typed env call self arr A k 0 bs = Return bs"
| "map_typed env call self arr A k (Suc n) bs =
     bind_outcome (typed_get env arr k bs) (\<lambda>kValue.
     bind_outcome (call [kValue, int_value k, self] bs) (\<lambda>(mappedValue, bs).
     bind_outcome (typed_put env A k mappedValue bs) (\<lambda>bs.
       map_typed env call self arr A (k + 1) n bs)))"

definition ejs_TypedArray_prototype_map ::
  "method_env \<Rightarrow> bool \<Rightarrow> typed_callback \<Rightarrow> ejsval \<Rightarrow> EJSTypedArray \<Rightarrow> buffers \<Rightarrow> (EJSTypedArray \<times> buffers) outcome" where
  "ejs_TypedArray_prototype_map env callable call self arr bs =
     bind_outcome (ValidateTypedArray bs arr) (\<lambda>_.
     if \<not> callable then Throws TypeError
     else
       let (A, bs) = ejs_typedarray_new (element_type arr) (typed_length arr) bs in
       bind_outcome (map_typed env call self arr A 0 (unat (typed_length arr)) bs) (\<lambda>bs. Return (A, bs)))"

text \<open>The index of reduce and reduceRight is an \<open>int\<close>.\<close>

fun reduce_typed ::
  "method_env \<Rightarrow> typed_callback \<Rightarrow> ejsval \<Rightarrow> EJSTypedArray \<Rightarrow> int \<Rightarrow> int \<Rightarrow> nat \<Rightarrow> ejsval \<Rightarrow> buffers \<Rightarrow> (ejsval \<times> buffers) outcome" where
  "reduce_typed env call self arr step k 0 accumulator bs = Return (accumulator, bs)"
| "reduce_typed env call self arr step k (Suc n) accumulator bs =
     bind_outcome (typed_get env arr k bs) (\<lambda>kValue.
     bind_outcome (call [accumulator, kValue, int_value k, self] bs) (\<lambda>(accumulator, bs).
     bind_outcome (int_range (k + step)) (\<lambda>k.
       reduce_typed env call self arr step k n accumulator bs)))"

definition ejs_TypedArray_prototype_reduce ::
  "method_env \<Rightarrow> bool \<Rightarrow> typed_callback \<Rightarrow> ejsval \<Rightarrow> ejsval \<Rightarrow> EJSTypedArray \<Rightarrow> buffers \<Rightarrow> (ejsval \<times> buffers) outcome" where
  "ejs_TypedArray_prototype_reduce env callable call self initialValue arr bs =
     (let len = unat (typed_length arr) in
      if \<not> callable then Throws TypeError
      else if len = 0 \<and> EJSVAL_IS_UNDEFINED_IMPL initialValue then Throws TypeError
      else if \<not> EJSVAL_IS_UNDEFINED_IMPL initialValue then reduce_typed env call self arr 1 0 len initialValue bs
      else bind_outcome (typed_get env arr 0 bs) (\<lambda>accumulator.
        reduce_typed env call self arr 1 1 (len - 1) accumulator bs))"

definition ejs_TypedArray_prototype_reduceRight ::
  "method_env \<Rightarrow> bool \<Rightarrow> typed_callback \<Rightarrow> ejsval \<Rightarrow> ejsval \<Rightarrow> EJSTypedArray \<Rightarrow> buffers \<Rightarrow> (ejsval \<times> buffers) outcome" where
  "ejs_TypedArray_prototype_reduceRight env callable call self initialValue arr bs =
     (let len = unat (typed_length arr); k = c_int (int len - 1) in
      if \<not> callable then Throws TypeError
      else if len = 0 \<and> EJSVAL_IS_UNDEFINED_IMPL initialValue then Throws TypeError
      else if \<not> EJSVAL_IS_UNDEFINED_IMPL initialValue then reduce_typed env call self arr (- 1) k (nat (k + 1)) initialValue bs
      else bind_outcome (typed_get env arr k bs) (\<lambda>accumulator.
        bind_outcome (int_range (k - 1)) (\<lambda>k.
          reduce_typed env call self arr (- 1) k (nat (k + 1)) accumulator bs)))"

end
