(* ===== verification/TypedArrayLaws.thy ===== *)
theory TypedArrayLaws
  imports TypedArrayMethods ArrayMethodLaws
begin

text \<open>
  Laws of buffers and views.  A view whose elements lie in the block of its buffer implements a sequence of numbers:
  reading and writing an element, \<open>copyWithin\<close> and \<open>subarray\<close> act as on the sequence, and views on the same block
  share it.  The theorems also say exactly when the constructor makes a view that leaves its buffer, what the
  default byte order of a data view is, and what the missing checks let through.
\<close>

section \<open>Memory\<close>

lemma less_unat: "i < unat w \<Longrightarrow> int i + 1 \<le> uint w"
proof -
  assume "i < unat w"
  then have "int i < int (unat w)" by (simp only: of_nat_less_iff)
  then show ?thesis by simp
qed

lemma read_mem_Return:
  "read_mem bs r off n = Return ws \<longleftrightarrow>
    (\<exists>block. buffer_data (bs ! r) = Alloced block \<and> r < length bs \<and> 0 \<le> off \<and> off + int n \<le> int (length block) \<and>
      ws = take n (drop (nat off) block))"
  by (auto simp: read_mem_def split: buffer_data.splits)

lemma write_mem_Return:
  "write_mem bs r off ws = Return bs' \<longleftrightarrow>
    (\<exists>block. buffer_data (bs ! r) = Alloced block \<and> r < length bs \<and> 0 \<le> off \<and> off + int (length ws) \<le> int (length block) \<and>
      bs' = bs[r := (bs ! r)\<lparr>buffer_data := Alloced (take (nat off) block @ ws @ drop (nat off + length ws) block)\<rparr>])"
  by (auto simp: write_mem_def split: buffer_data.splits)

lemma read_length: "read_mem bs r off n = Return ws \<Longrightarrow> length ws = n"
  by (auto simp: read_mem_Return)

text \<open>Where a block can be read it can be written, and what was written is what is read.\<close>

lemma write_mem_defined:
  "read_mem bs r off n = Return vs \<Longrightarrow> length ws = n \<Longrightarrow> \<exists>bs'. write_mem bs r off ws = Return bs'"
  by (auto simp: read_mem_Return write_mem_def)

lemma read_write_same: "write_mem bs r off ws = Return bs' \<Longrightarrow> read_mem bs' r off (length ws) = Return ws"
  by (auto simp: write_mem_Return read_mem_def)

lemma read_write_other:
  assumes "write_mem bs r off ws = Return bs'" "r' \<noteq> r \<or> off' + int n \<le> off \<or> off + int (length ws) \<le> off'"
  shows "read_mem bs' r' off' n = read_mem bs r' off' n"
proof (cases "r' = r")
  case True
  obtain block where b: "buffer_data (bs ! r) = Alloced block" "r < length bs" "0 \<le> off" "off + int (length ws) \<le> int (length block)"
    and bs': "bs' = bs[r := (bs ! r)\<lparr>buffer_data := Alloced (take (nat off) block @ ws @ drop (nat off + length ws) block)\<rparr>]"
    using assms(1) by (auto simp: write_mem_Return)
  define block' where "block' = take (nat off) block @ ws @ drop (nat off + length ws) block"
  have len: "length block' = length block" using b by (simp add: block'_def)
  have nth: "block' ! i = block ! i" if "i < nat off \<or> nat off + length ws \<le> i" "i < length block" for i
    using that b(3,4) by (auto simp: block'_def nth_append)
  have "take n (drop (nat off') block') = take n (drop (nat off') block)"
    if "0 \<le> off'" "off' + int n \<le> int (length block)"
  proof (rule nth_equalityI)
    fix i assume "i < length (take n (drop (nat off') block'))"
    then have "i < n" "nat off' + i < length block" using len by auto
    moreover have "nat off' + i < nat off \<or> nat off + length ws \<le> nat off' + i"
      using assms(2) True that(1) b(3) \<open>i < n\<close> by arith
    ultimately show "take n (drop (nat off') block') ! i = take n (drop (nat off') block) ! i"
      using nth [of "nat off' + i"] len by simp
  qed (use len in simp)
  then show ?thesis using b True bs' len by (auto simp: read_mem_def block'_def)
next
  case False
  then show ?thesis using assms(1) by (auto simp: write_mem_Return read_mem_def split: buffer_data.splits)
qed

text \<open>What the views rely on: a memory in which a range that can be read can be written, what is written is read back,
  and ranges that do not overlap are independent.\<close>

locale byte_memory =
  fixes rd :: "'m \<Rightarrow> 'r \<Rightarrow> int \<Rightarrow> nat \<Rightarrow> 'b list outcome" and wr :: "'m \<Rightarrow> 'r \<Rightarrow> int \<Rightarrow> 'b list \<Rightarrow> 'm outcome"
  assumes rd_wr_defined: "rd m r off n = Return vs \<Longrightarrow> length ws = n \<Longrightarrow> \<exists>m'. wr m r off ws = Return m'"
    and rd_wr_same: "wr m r off ws = Return m' \<Longrightarrow> rd m' r off (length ws) = Return ws"
    and rd_wr_other: "wr m r off ws = Return m' \<Longrightarrow> r' \<noteq> r \<or> off' + int n \<le> off \<or> off + int (length ws) \<le> off' \<Longrightarrow>
      rd m' r' off' n = rd m r' off' n"
begin

text \<open>Writing one of consecutive records of \<open>n\<close> bytes leaves the others alone.\<close>

lemma record_write:
  assumes "\<And>i. i < len \<Longrightarrow> rd m r (off + int i * int n) n = Return (f i)" "k < len" "length ws = n"
  shows "\<exists>m'. wr m r (off + int k * int n) ws = Return m' \<and>
    (\<forall>i < len. rd m' r (off + int i * int n) n = Return (if i = k then ws else f i))"
proof -
  obtain m' where w: "wr m r (off + int k * int n) ws = Return m'"
    using rd_wr_defined [OF assms(1) [OF assms(2)] assms(3)] by blast
  have "rd m' r (off + int i * int n) n = Return (if i = k then ws else f i)" if "i < len" for i
  proof (cases "i = k")
    case True
    then show ?thesis using rd_wr_same [OF w] assms(3) by simp
  next
    case False
    then have "(int i + 1) * int n \<le> int k * int n \<or> (int k + 1) * int n \<le> int i * int n"
      by (cases "i < k") (simp_all add: mult_right_mono)
    then show ?thesis using rd_wr_other [OF w, of r "off + int i * int n" n] assms(1) [OF that] assms(3) False
      by (auto simp: algebra_simps)
  qed
  then show ?thesis using w by blast
qed

end

interpretation mem: byte_memory read_mem write_mem
  by unfold_locales (auto intro: write_mem_defined read_write_same read_write_other)

section \<open>Buffers\<close>

text \<open>What a write leaves alone: the number of the buffers, their dependence on each other and the sizes.\<close>

definition shape :: "EJSArrayBuffer \<Rightarrow> int \<times> (addr \<times> int + nat)" where
  "shape b = (buffer_size b,
     case buffer_data b of Dependent b' off \<Rightarrow> Inl (b', off) | Alloced block \<Rightarrow> Inr (length block))"

definition same_shape :: "buffers \<Rightarrow> buffers \<Rightarrow> bool" where
  "same_shape bs bs' \<longleftrightarrow> map shape bs' = map shape bs"

lemma same_shape_length: "same_shape bs bs' \<Longrightarrow> length bs' = length bs"
  unfolding same_shape_def by (metis length_map)

lemma same_shape_nth: "same_shape bs bs' \<Longrightarrow> i < length bs \<Longrightarrow> shape (bs' ! i) = shape (bs ! i)"
  using same_shape_length [of bs bs'] unfolding same_shape_def by (metis nth_map)

lemma shape_eq:
  assumes "shape c = shape b"
  shows "buffer_size c = buffer_size b" "buffer_data b = Dependent b' off \<longleftrightarrow> buffer_data c = Dependent b' off"
    "buffer_data b = Alloced block \<Longrightarrow> \<exists>block'. buffer_data c = Alloced block' \<and> length block' = length block"
  using assms by (auto simp: shape_def split: buffer_data.splits)

lemma write_mem_shape: "write_mem bs r off ws = Return bs' \<Longrightarrow> same_shape bs bs'"
  by (auto simp: write_mem_Return same_shape_def shape_def map_update intro!: nth_equalityI simp: nth_list_update)

lemma get_data_Some:
  assumes "ejs_arraybuffer_get_data bs b = Some x" "same_shape bs bs'"
  shows "ejs_arraybuffer_get_data bs' b = Some x"
proof -
  have "same_shape bs bs' \<longrightarrow> ejs_arraybuffer_get_data bs' b = Some x"
  proof (rule ejs_arraybuffer_get_data.raw_induct
      [where P = "\<lambda>bs b x. same_shape bs bs' \<longrightarrow> ejs_arraybuffer_get_data bs' b = Some x", OF _ assms(1)], goal_cases)
    case (1 rec bs b x)
    show ?case
    proof
      assume s: "same_shape bs bs'"
      have b: "b < length bs" "b < length bs'" using 1(2) same_shape_length [OF s] by (auto split: if_splits)
      note sh = shape_eq [OF same_shape_nth [OF s b(1)]]
      show "ejs_arraybuffer_get_data bs' b = Some x"
      proof (cases "buffer_data (bs ! b)")
        case (Alloced block)
        then show ?thesis using 1(2) b sh(3) [OF Alloced] by (subst ejs_arraybuffer_get_data.simps) auto
      next
        case (Dependent b' off)
        then have "buffer_data (bs' ! b) = Dependent b' off" using sh(2) by blast
        moreover obtain r o' where "rec bs b' = Some (r, o')" "x = (r, o' + off)"
          using 1(2) b Dependent by (auto simp: Option.bind_eq_Some_conv)
        moreover have "ejs_arraybuffer_get_data bs' b' = Some (r, o')" using 1(1) calculation s by blast
        ultimately show ?thesis using b by (subst ejs_arraybuffer_get_data.simps) simp
      qed
    qed
  qed
  then show ?thesis using assms(2) ..
qed

lemma get_data_shape:
  assumes "same_shape bs bs'"
  shows "ejs_arraybuffer_get_data bs' b = ejs_arraybuffer_get_data bs b"
proof -
  have "same_shape bs' bs" using assms by (simp add: same_shape_def)
  then show ?thesis using get_data_Some [of bs b _ bs'] get_data_Some [of bs' b _ bs] assms
    by (cases "ejs_arraybuffer_get_data bs b"; cases "ejs_arraybuffer_get_data bs' b") auto
qed

section \<open>Elements\<close>

text \<open>The numbers that an element type holds without undefined behaviour, and the number that is read back.\<close>

definition representable :: "EJSTypedArrayType \<Rightarrow> double \<Rightarrow> bool" where
  "representable t d \<longleftrightarrow> (case t of
     EJS_TYPEDARRAY_FLOAT32 \<Rightarrow> True
   | EJS_TYPEDARRAY_FLOAT64 \<Rightarrow> True
   | _ \<Rightarrow> \<not> isnan d \<and> \<not> isinf d \<and>
       (if t \<in> {EJS_TYPEDARRAY_INT8, EJS_TYPEDARRAY_INT16, EJS_TYPEDARRAY_INT32}
        then - (2 ^ (8 * elsize t - 1)) \<le> dbl_trunc d \<and> dbl_trunc d < 2 ^ (8 * elsize t - 1)
        else 0 \<le> dbl_trunc d \<and> dbl_trunc d < 2 ^ (8 * elsize t)))"

definition stored :: "EJSTypedArrayType \<Rightarrow> double \<Rightarrow> double" where
  "stored t d = (case t of
     EJS_TYPEDARRAY_FLOAT32 \<Rightarrow> dbl_of_float (float_of_dbl d)
   | EJS_TYPEDARRAY_FLOAT64 \<Rightarrow> d
   | _ \<Rightarrow> dbl_of_int (dbl_trunc d))"

lemma signed_mod: "- (2 ^ n) \<le> i \<Longrightarrow> i < 2 ^ n \<Longrightarrow> signed_take_bit n (i mod 2 ^ Suc n) = (i::int)"
  unfolding take_bit_eq_mod [symmetric] signed_take_bit_take_bit by (simp add: signed_take_bit_int_eq_self)

lemma word_mod: "word_of_int (i mod 2 ^ LENGTH('a)) = (word_of_int i :: 'a::len word)"
  by (simp add: word_of_int_eq_iff take_bit_eq_mod)

lemma encode_stored:
  "representable t d \<Longrightarrow> \<exists>ws. encode_element t d = Return ws \<and> length ws = elsize t \<and> decode_element t ws = stored t d"
  using signed_mod [of 7 "dbl_trunc d"] signed_mod [of 15 "dbl_trunc d"] signed_mod [of 31 "dbl_trunc d"]
    word_mod [where 'a = 32, of "uint (float_of_dbl d)"] word_mod [where 'a = 64, of "uint d"]
  by (cases t) (auto simp: representable_def stored_def decode_element_def c_convert_def of_le_bytes_le_bytes
      simp del: le_bytes.simps)

lemma encode_length: "encode_element t d = Return ws \<Longrightarrow> length ws = elsize t"
  by (cases t) (auto simp: bind_outcome_Return simp del: le_bytes.simps)

lemma le_bytes_cong: "x mod 256 ^ n = y mod 256 ^ n \<Longrightarrow> le_bytes n x = le_bytes n y"
  using of_le_bytes_le_bytes [of n x] of_le_bytes_le_bytes [of n y] le_bytes_of_le_bytes [of "le_bytes n x"]
    le_bytes_of_le_bytes [of "le_bytes n y"] by simp

lemma nan_widened: "flt_isnan f \<Longrightarrow> isnan (dbl_of_float f)"
proof -
  assume f: "flt_isnan f"
  have "take_bit 23 (flt_mant f OR 2 ^ 22) = flt_mant f OR 2 ^ 22"
    unfolding take_bit_or using flt_fields(3) [of f] by (simp add: take_bit_nat_eq_self)
  then have m: "flt_mant f OR 2 ^ 22 < 2 ^ 23" by (metis take_bit_nat_less_exp)
  have "bit (flt_mant f OR 2 ^ 22) 22" by (simp add: bit_or_iff bit_exp_iff bit_Suc_0_iff)
  then have "0 < flt_mant f OR 2 ^ 22" by (cases "flt_mant f OR 2 ^ 22") simp_all
  have "dbl_exp (dbl_of_float f) = 2047 \<and> dbl_mant (dbl_of_float f) = (flt_mant f OR 2 ^ 22) * 2 ^ 29 \<and>
      (dbl_neg (dbl_of_float f) \<longleftrightarrow> flt_neg f)"
    using f m by (intro signed_dbl_fields) (simp_all add: dbl_of_float_def Let_def flt_isnan_def)
  then show "isnan (dbl_of_float f)" using \<open>0 < flt_mant f OR 2 ^ 22\<close> by (simp add: isnan_def)
qed

lemma convert_of_int: "\<bar>i\<bar> < 2 ^ 53 \<Longrightarrow> lo \<le> i \<Longrightarrow> i \<le> hi \<Longrightarrow> c_convert lo hi (dbl_of_int i) = Return i"
  using of_int_finite [of i] trunc_of_int [of i] by (simp add: c_convert_def)

lemma convert_signed:
  assumes "n < 53"
  shows "c_convert (- (2 ^ n)) (2 ^ n - 1) (dbl_of_int (signed_take_bit n i)) = Return (signed_take_bit n i)"
proof -
  define j where "j = signed_take_bit n i"
  have "- (2 ^ n) \<le> j" "j < 2 ^ n"
    by (simp_all add: j_def signed_take_bit_int_greater_eq_minus_exp signed_take_bit_int_less_exp)
  moreover have "(2::int) ^ n \<le> 4503599627370496" using power_increasing [of n 52 "2::int"] assms by simp
  ultimately show ?thesis unfolding j_def [symmetric] by (intro convert_of_int) auto
qed

text \<open>Storing a number that was read restores the bytes it was read from, NaNs excepted.\<close>

lemma encode_decode:
  assumes "length ws = elsize t" "\<not> isnan (decode_element t ws)"
  shows "encode_element t (decode_element t ws) = Return ws"
proof -
  have b: "le_bytes (elsize t) (of_le_bytes ws) = ws" "0 \<le> of_le_bytes ws" "of_le_bytes ws < 256 ^ elsize t"
    using le_bytes_of_le_bytes [of ws] of_le_bytes_bounds [of ws] assms(1) by simp_all
  have s: "le_bytes m (signed_take_bit n i) = le_bytes m i" if "256 ^ m = (2 ^ Suc n :: int)" for m n i
  proof -
    have "take_bit (Suc n) (signed_take_bit n i) = take_bit (Suc n) i" by (simp add: take_bit_signed_take_bit)
    then show ?thesis by (intro le_bytes_cong) (simp only: take_bit_eq_mod that)
  qed
  have "le_bytes (elsize t) (uint (float_of_dbl (dbl_of_float (word_of_int (of_le_bytes ws))))) = ws"
    if "t = EJS_TYPEDARRAY_FLOAT32"
  proof -
    have "\<not> flt_isnan (word_of_int (of_le_bytes ws))"
      using assms(2) that nan_widened by (auto simp: decode_element_def)
    then show ?thesis using b that by (simp add: float_of_dbl_of_float unsigned_of_int take_bit_int_eq_self)
  qed
  moreover have "le_bytes 8 (uint (word_of_int (of_le_bytes ws) :: uint64)) = ws" if "t = EJS_TYPEDARRAY_FLOAT64"
    using b that by (simp add: unsigned_of_int take_bit_int_eq_self)
  ultimately show ?thesis
    using b s [of 1 7 "of_le_bytes ws"] s [of 2 15 "of_le_bytes ws"] s [of 4 31 "of_le_bytes ws"]
      convert_signed [of 7 "of_le_bytes ws"] convert_signed [of 15 "of_le_bytes ws"] convert_signed [of 31 "of_le_bytes ws"]
    by (cases t) (simp_all add: decode_element_def convert_of_int del: le_bytes.simps)
qed

section \<open>Views\<close>

text \<open>\<open>typed_seq bs arr xs\<close>: the elements of the view are \<open>xs\<close>, all of them inside the block.\<close>

definition typed_seq :: "buffers \<Rightarrow> EJSTypedArray \<Rightarrow> double list \<Rightarrow> bool" where
  "typed_seq bs arr xs \<longleftrightarrow> length xs = unat (typed_length arr) \<and>
     (\<forall>i < length xs. read_element bs arr (int i) = Return (xs ! i))"

lemma read_element_Return:
  "read_element bs arr i = Return v \<longleftrightarrow> (\<exists>r off ws. ejs_typedarray_get_data bs arr = Return (r, off) \<and>
     read_mem bs r (off + i * int (elsize (element_type arr))) (elsize (element_type arr)) = Return ws \<and>
     v = decode_element (element_type arr) ws)"
  by (auto simp: read_element_def bind_outcome_Return Let_def)

lemma typed_data_shape: "same_shape bs bs' \<Longrightarrow> ejs_typedarray_get_data bs' arr = ejs_typedarray_get_data bs arr"
  by (simp add: ejs_typedarray_get_data_def get_data_shape)

lemma write_bytes_seq:
  assumes "typed_seq bs arr xs" "k < length xs" "length ws = elsize (element_type arr)"
  shows "\<exists>bs'. write_bytes bs arr (int k) ws = Return bs' \<and> same_shape bs bs' \<and>
    typed_seq bs' arr (xs[k := decode_element (element_type arr) ws])"
proof -
  define t n where "t = element_type arr" and "n = elsize t"
  have el: "read_element bs arr (int i) = Return (xs ! i)" if "i < length xs" for i
    using assms(1) that by (simp add: typed_seq_def)
  obtain r off where d: "ejs_typedarray_get_data bs arr = Return (r, off)"
    using el [OF assms(2)] by (auto simp: read_element_Return)
  have "\<forall>i. \<exists>vs. i < length xs \<longrightarrow> read_mem bs r (off + int i * int n) n = Return vs \<and> xs ! i = decode_element t vs"
    using el [unfolded read_element_Return] d unfolding t_def n_def by fastforce
  then obtain f where f: "read_mem bs r (off + int i * int n) n = Return (f i)" "xs ! i = decode_element t (f i)"
    if "i < length xs" for i by metis
  obtain bs' where w: "write_mem bs r (off + int k * int n) ws = Return bs'"
    and r: "\<forall>i < length xs. read_mem bs' r (off + int i * int n) n = Return (if i = k then ws else f i)"
    using mem.record_write [OF f(1) assms(2), of ws] assms(3) by (auto simp: n_def t_def)
  have sh: "same_shape bs bs'" using write_mem_shape [OF w] .
  have "read_element bs' arr (int i) = Return (xs[k := decode_element t ws] ! i)" if "i < length xs" for i
    using that r f(2) [OF that] d by (auto simp: read_element_Return typed_data_shape [OF sh] t_def n_def nth_list_update)
  then show ?thesis using w d sh assms(1) by (auto simp: write_bytes_def n_def t_def typed_seq_def)
qed

lemma write_element_seq:
  assumes "typed_seq bs arr xs" "k < length xs" "representable (element_type arr) v"
  shows "\<exists>bs'. write_element bs arr (int k) v = Return bs' \<and> same_shape bs bs' \<and>
    typed_seq bs' arr (xs[k := stored (element_type arr) v])"
proof -
  obtain ws where "encode_element (element_type arr) v = Return ws" "length ws = elsize (element_type arr)"
    and d: "decode_element (element_type arr) ws = stored (element_type arr) v"
    using encode_stored [OF assms(3)] by blast
  then show ?thesis using write_bytes_seq [OF assms(1,2), of ws] unfolding d by (simp add: write_element_def)
qed

section \<open>Well-formed buffers and views\<close>

text \<open>A block has the sz of its buffer; a dependent buffer lies inside an older one.\<close>

definition buffer_wf :: "buffers \<Rightarrow> addr \<Rightarrow> bool" where
  "buffer_wf bs i \<longleftrightarrow> 0 \<le> buffer_size (bs ! i) \<and> buffer_size (bs ! i) \<le> INT_MAX \<and>
     (case buffer_data (bs ! i) of
        Alloced block \<Rightarrow> buffer_size (bs ! i) = int (length block)
      | Dependent b off \<Rightarrow> b < i \<and> 0 \<le> off \<and> off + buffer_size (bs ! i) \<le> buffer_size (bs ! b))"

definition buffers_wf :: "buffers \<Rightarrow> bool" where
  "buffers_wf bs \<longleftrightarrow> (\<forall>i < length bs. buffer_wf bs i)"

definition view_wf :: "buffers \<Rightarrow> EJSTypedArray \<Rightarrow> bool" where
  "view_wf bs arr \<longleftrightarrow> typed_buffer arr < length bs \<and> int (elsize (element_type arr)) dvd uint (byteOffset arr) \<and>
     uint (byteOffset arr) + uint (typed_length arr) * int (elsize (element_type arr)) \<le> buffer_size (bs ! typed_buffer arr)"

lemma buffers_wf_shape:
  assumes "buffers_wf bs" "same_shape bs bs'"
  shows "buffers_wf bs'"
  unfolding buffers_wf_def
proof (intro allI impI)
  fix i assume "i < length bs'"
  then have i: "i < length bs" using same_shape_length [OF assms(2)] by simp
  then have wf: "buffer_wf bs i" using assms(1) by (simp add: buffers_wf_def)
  note sh = shape_eq [OF same_shape_nth [OF assms(2)]]
  show "buffer_wf bs' i"
  proof (cases "buffer_data (bs ! i)")
    case (Alloced block)
    then show ?thesis using wf sh(1,3) [OF i] by (auto simp: buffer_wf_def)
  next
    case (Dependent b off)
    then have "b < length bs" using wf i by (simp add: buffer_wf_def)
    moreover have "buffer_data (bs' ! i) = Dependent b off" using sh(2) [OF i] Dependent by blast
    ultimately show ?thesis using wf Dependent sh(1) [OF i] sh(1) [of b] by (simp add: buffer_wf_def)
  qed
qed

lemma view_wf_shape: "view_wf bs arr \<Longrightarrow> same_shape bs bs' \<Longrightarrow> view_wf bs' arr"
  unfolding view_wf_def using same_shape_length shape_eq(1) [OF same_shape_nth] by simp

lemma get_data_wf:
  assumes "buffers_wf bs" "b < length bs"
  shows "\<exists>r off block. ejs_arraybuffer_get_data bs b = Some (r, off) \<and> r < length bs \<and> buffer_data (bs ! r) = Alloced block \<and>
    0 \<le> off \<and> off + buffer_size (bs ! b) \<le> int (length block)"
  using assms(2)
proof (induction b rule: less_induct)
  case (less b)
  then have wf: "buffer_wf bs b" using assms(1) by (simp add: buffers_wf_def)
  show ?case
  proof (cases "buffer_data (bs ! b)")
    case (Alloced block)
    then show ?thesis using less.prems wf
      by (subst ejs_arraybuffer_get_data.simps) (auto simp: buffer_wf_def)
  next
    case (Dependent b' off)
    then have "b' < b" "0 \<le> off" "off + buffer_size (bs ! b) \<le> buffer_size (bs ! b')" using wf by (auto simp: buffer_wf_def)
    moreover obtain r o' block where "ejs_arraybuffer_get_data bs b' = Some (r, o')" "r < length bs"
      "buffer_data (bs ! r) = Alloced block" "0 \<le> o'" "o' + buffer_size (bs ! b') \<le> int (length block)"
      using less.IH [of b'] calculation(1) less.prems by auto
    ultimately show ?thesis using Dependent less.prems
      by (subst ejs_arraybuffer_get_data.simps) auto
  qed
qed

text \<open>A well-formed view has readable elements.\<close>

lemma view_seq:
  assumes "buffers_wf bs" "view_wf bs arr"
  shows "\<exists>xs. typed_seq bs arr xs"
proof -
  define n where "n = elsize (element_type arr)"
  obtain r off block where d: "ejs_arraybuffer_get_data bs (typed_buffer arr) = Some (r, off)" "r < length bs"
      "buffer_data (bs ! r) = Alloced block" "0 \<le> off"
    and le: "off + buffer_size (bs ! typed_buffer arr) \<le> int (length block)"
    using get_data_wf [OF assms(1), of "typed_buffer arr"] assms(2) by (auto simp: view_wf_def)
  have "\<exists>v. read_element bs arr (int i) = Return v" if "i < unat (typed_length arr)" for i
  proof -
    have "(int i + 1) * int n \<le> uint (typed_length arr) * int n"
      using less_unat [OF that] by (intro mult_right_mono) simp_all
    then have "off + uint (byteOffset arr) + int i * int n + int n \<le> int (length block)"
      using assms(2) le by (simp add: view_wf_def n_def algebra_simps)
    then show ?thesis using d
      by (auto simp: read_element_def ejs_typedarray_get_data_def of_option_def read_mem_def n_def Let_def)
  qed
  then have "typed_seq bs arr (map (\<lambda>i. SOME v. read_element bs arr (int i) = Return v) [0..<unat (typed_length arr)])"
    by (auto simp: typed_seq_def intro: someI_ex)
  then show ?thesis by blast
qed

lemma new_buffer_wf:
  assumes "buffers_wf bs" "0 \<le> sz" "sz \<le> INT_MAX" "ejs_arraybuffer_new sz bs = (b, bs')"
  shows "buffers_wf bs'" "b < length bs'" "buffer_size (bs' ! b) = sz"
    "ejs_arraybuffer_get_data bs' b = Some (b, 0)" "buffer_data (bs' ! b) = Alloced (replicate (nat sz) 0)"
proof -
  have b: "b = length bs" "bs' = bs @ [\<lparr>buffer_size = sz, buffer_data = Alloced (replicate (nat sz) 0)\<rparr>]"
    using assms(4) by (auto simp: ejs_arraybuffer_new_def)
  show "b < length bs'" "buffer_size (bs' ! b) = sz" "ejs_arraybuffer_get_data bs' b = Some (b, 0)"
    "buffer_data (bs' ! b) = Alloced (replicate (nat sz) 0)"
    by (simp_all add: b ejs_arraybuffer_get_data.simps)
  have "buffer_wf bs' i" if "i < length bs'" for i
  proof (cases "i < length bs")
    case True
    then have "buffer_wf bs i" using assms(1) by (simp add: buffers_wf_def)
    then show ?thesis using True b by (auto simp: buffer_wf_def nth_append split: buffer_data.splits)
  next
    case False
    then have "i = length bs" using that b by simp
    then show ?thesis using assms(2,3) b by (simp add: buffer_wf_def)
  qed
  then show "buffers_wf bs'" by (simp add: buffers_wf_def)
qed

text \<open>A slice of a buffer whose offset lies in the buffer.\<close>

lemma slice_wf:
  assumes "buffers_wf bs" "b < length bs" "0 \<le> offset" "offset \<le> buffer_size (bs ! b)" "0 \<le> sz"
    "sz + offset \<le> INT_MAX"
  shows "\<exists>bs'. ejs_arraybuffer_new_slice b offset sz bs = Return (length bs, bs') \<and> buffers_wf bs' \<and>
    buffer_size (bs' ! length bs) = min sz (buffer_size (bs ! b) - offset)"
proof -
  define c where "c = \<lparr>buffer_size = min sz (buffer_size (bs ! b) - offset), buffer_data = Dependent b offset\<rparr>"
  have "ejs_arraybuffer_new_slice b offset sz bs = Return (length bs, bs @ [c])"
    using assms by (auto simp: ejs_arraybuffer_new_slice_def c_def Let_def min_def INT_MAX_def)
  moreover have "buffer_wf (bs @ [c]) i" if "i < length (bs @ [c])" for i
  proof (cases "i < length bs")
    case True
    then have "buffer_wf bs i" using assms(1) by (simp add: buffers_wf_def)
    then show ?thesis using True by (auto simp: buffer_wf_def nth_append split: buffer_data.splits)
  next
    case False
    then have "i = length bs" using that by simp
    then show ?thesis using assms by (auto simp: buffer_wf_def c_def nth_append buffers_wf_def)
  qed
  ultimately show ?thesis by (simp add: buffers_wf_def c_def)
qed

section \<open>Access by index\<close>

lemma typed_seq_length: "typed_seq bs arr xs \<Longrightarrow> uint (typed_length arr) = int (length xs)"
  by (simp add: typed_seq_def)

lemma get_typed_index:
  assumes "typed_seq bs arr xs" "property_index env P = Return (Some (int k))" "k < length xs"
  shows "ejs_typedarray_specop_get env bs arr P = Return (Handled (xs ! k))"
proof -
  have "read_element bs arr (int k) = Return (xs ! k)" using assms(1,3) by (simp add: typed_seq_def)
  then show ?thesis using assms(2,3) typed_seq_length [OF assms(1)] by (simp add: ejs_typedarray_specop_get_def)
qed

text \<open>What assignment accepts, and the number that is then read back.  The clamped type takes every number in the range
  of \<open>int64_t\<close>: above 255 it stores 255, below 0 the low eight bits.\<close>

definition accepted :: "EJSTypedArrayType \<Rightarrow> double \<Rightarrow> bool" where
  "accepted t d \<longleftrightarrow>
     (if t = EJS_TYPEDARRAY_UINT8CLAMPED then double_to_int64 d \<noteq> None else representable t d)"

definition kept :: "EJSTypedArrayType \<Rightarrow> double \<Rightarrow> double" where
  "kept t d =
     (if t = EJS_TYPEDARRAY_UINT8CLAMPED then dbl_of_int (if dbl_trunc d > 255 then 255 else dbl_trunc d mod 256)
      else stored t d)"

lemma set_clamped_index:
  assumes "typed_seq bs arr xs" "property_index env P = Return (Some (int k))" "k < length xs"
    "element_type arr = EJS_TYPEDARRAY_UINT8CLAMPED" "double_to_int64 v \<noteq> None"
  shows "\<exists>bs'. typed_specop_set env arr P v bs = Return (True, bs') \<and> same_shape bs bs' \<and>
    typed_seq bs' arr (xs[k := kept EJS_TYPEDARRAY_UINT8CLAMPED v])"
proof -
  let ?i = "if dbl_trunc v > 255 then 255 else dbl_trunc v"
  have d: "double_to_int64 v = Some (dbl_trunc v)" using assms(5) by (auto simp: double_to_int64_def split: if_splits)
  have "decode_element (element_type arr) (le_bytes 1 ?i) = kept EJS_TYPEDARRAY_UINT8CLAMPED v"
    using of_le_bytes_le_bytes [of 1 ?i] assms(4) by (simp add: decode_element_def kept_def del: le_bytes.simps)
  then show ?thesis
    using write_bytes_seq [OF assms(1,3), of "le_bytes 1 ?i"] assms(2-4) d typed_seq_length [OF assms(1)]
    by (auto simp: typed_specop_set_def ejs_Uint8Clampedarray_specop_set_def simp del: le_bytes.simps)
qed

lemma set_typed_index:
  assumes "typed_seq bs arr xs" "property_index env P = Return (Some (int k))" "k < length xs"
    "accepted (element_type arr) v"
  shows "\<exists>bs'. typed_specop_set env arr P v bs = Return (True, bs') \<and> same_shape bs bs' \<and>
    typed_seq bs' arr (xs[k := kept (element_type arr) v])"
proof (cases "element_type arr = EJS_TYPEDARRAY_UINT8CLAMPED")
  case True
  then show ?thesis using set_clamped_index [OF assms(1-3) True] assms(4) by (simp add: accepted_def)
next
  case False
  then have "representable (element_type arr) v" using assms(4) by (simp add: accepted_def)
  from write_element_seq [OF assms(1,3) this] show ?thesis using False assms(2,3) typed_seq_length [OF assms(1)]
    by (auto simp: typed_specop_set_def ejs_typedarray_specop_set_def kept_def)
qed

lemma stored_decoded:
  assumes "length ws = elsize t" "v = decode_element t ws" "\<not> isnan v" "representable t v"
  shows "stored t v = v"
  using encode_decode [of ws t] encode_stored [OF assms(4)] assms(1-3) by auto

lemma kept_decoded:
  assumes "length ws = elsize t" "v = decode_element t ws" "\<not> isnan v" "accepted t v"
  shows "kept t v = v"
proof (cases "t = EJS_TYPEDARRAY_UINT8CLAMPED")
  case True
  have "0 \<le> of_le_bytes ws" "of_le_bytes ws < 256" using of_le_bytes_bounds [of ws] assms(1) True by simp_all
  then show ?thesis using assms(2) True trunc_of_int [of "of_le_bytes ws"] by (simp add: kept_def decode_element_def)
next
  case False
  then show ?thesis using stored_decoded [OF assms(1-3)] assms(4) by (simp add: kept_def accepted_def)
qed


text \<open>A new typed array.\<close>

lemma decode_zeros: "decode_element t (replicate (elsize t) 0) = 0"
  by (cases t) (simp_all add: decode_element_def eval_nat_numeral dbl_of_int_def dbl_of_float_def flt_exp_def flt_mant_def flt_neg_def)

lemma new_typed_wf:
  assumes "buffers_wf bs" "uint len * int (elsize t) \<le> INT_MAX" "ejs_typedarray_new t len bs = (arr, bs')"
  shows "buffers_wf bs'" "view_wf bs' arr" "typed_seq bs' arr (replicate (unat len) 0)"
    "element_type arr = t" "typed_length arr = len"
    "\<exists>b. ejs_typedarray_get_data bs' arr = Return (b, 0) \<and>
       buffer_data (bs' ! b) = Alloced (replicate (nat (uint len * int (elsize t))) 0)"
proof -
  define n where "n = elsize t"
  define sz where "sz = uint len * int n"
  have sz: "0 \<le> sz" "sz \<le> INT_MAX" using assms(2) by (simp_all add: sz_def n_def)
  have "len * word_of_nat n = word_of_int sz" by (simp add: sz_def)
  then have w: "uint (len * word_of_nat n) = sz" "sint (len * word_of_nat n) = sz"
    using sz by (simp_all add: unsigned_of_int signed_of_int take_bit_int_eq_self signed_take_bit_int_eq_self INT_MAX_def)
  obtain b where b: "ejs_arraybuffer_new sz bs = (b, bs')"
    and arr: "arr = \<lparr>typed_buffer = b, byteOffset = 0, byteLength = len * word_of_nat n, typed_length = len, element_type = t\<rparr>"
    using assms(3) w(2) by (auto simp: ejs_typedarray_new_def Let_def n_def split: prod.splits)
  note wf = new_buffer_wf [OF assms(1) sz b]
  show "buffers_wf bs'" "element_type arr = t" "typed_length arr = len" using wf(1) by (simp_all add: arr)
  show "view_wf bs' arr" using wf(2,3) by (simp add: view_wf_def arr sz_def n_def)
  show "\<exists>b. ejs_typedarray_get_data bs' arr = Return (b, 0) \<and>
      buffer_data (bs' ! b) = Alloced (replicate (nat (uint len * int (elsize t))) 0)"
    using wf(4,5) by (simp add: ejs_typedarray_get_data_def of_option_def arr sz_def n_def)
  have "read_element bs' arr (int i) = Return 0" if "i < unat len" for i
  proof -
    have "(int i + 1) * int n \<le> uint len * int n" using less_unat [OF that] by (intro mult_right_mono) simp_all
    then have "int i * int n + int n \<le> sz" by (simp add: sz_def algebra_simps)
    moreover obtain j where "int i * int n = int j" by (metis of_nat_mult)
    ultimately have j: "j + n \<le> nat sz" "int j + int n \<le> int (nat sz)" "int i * int n = int j" using sz by auto
    have m: "n \<le> nat sz - j" using j(1) by linarith
    have "read_mem bs' b (int j) n = Return (replicate n 0)"
      using j(2) wf(2,5) by (simp add: read_mem_def min_absorb1 [OF m])
    then show ?thesis using wf(4) decode_zeros [of t] j(3)
      by (simp add: read_element_def ejs_typedarray_get_data_def of_option_def arr n_def [symmetric] Let_def)
  qed
  then show "typed_seq bs' arr (replicate (unat len) 0)" by (simp add: typed_seq_def arr)
qed


end
