(* ===== verification/DataViewLaws.thy ===== *)
theory DataViewLaws
  imports TypedArrayLaws
begin

text \<open>
  Data views: swapping the bytes of an element reverses them, so the default byte order of a data view is big-endian
  whatever the host; what is written is read back, and the other order reads the reversed bytes.
\<close>

section \<open>Byte order\<close>

text \<open>Bit \<open>i\<close> of a number is bit \<open>i mod 8\<close> of its byte \<open>i div 8\<close>.\<close>

lemma bit_of_le_bytes:
  "bit (of_le_bytes ws) i \<longleftrightarrow> i div 8 < length ws \<and> bit (ws ! (i div 8)) (i mod 8)"
proof (induction ws arbitrary: i)
  case (Cons w ws)
  have split: "of_le_bytes (w # ws) = uint w OR push_bit 8 (of_le_bytes ws)"
  proof -
    have "uint w + 256 * of_le_bytes ws = push_bit 8 (of_le_bytes ws) + uint w" by (simp add: push_bit_eq_mult)
    also have "\<dots> = push_bit 8 (of_le_bytes ws) OR uint w"
      by (rule disjunctive_add) (auto simp: bit_simps dest: bit_imp_le_length)
    finally show ?thesis by (simp add: or.commute)
  qed
  show ?case
  proof (cases "i < 8")
    case True
    then show ?thesis unfolding split by (simp add: bit_simps)
  next
    case False
    then have "i div 8 = Suc ((i - 8) div 8)" "(i - 8) mod 8 = i mod 8" by (simp_all add: le_div_geq le_mod_geq)
    moreover have "\<not> bit (uint w) i" using False by (simp add: bit_uint_iff)
    ultimately show ?thesis unfolding split using False by (simp add: bit_simps Cons.IH)
  qed
qed simp

text \<open>The bytes of the constants in the macros.\<close>

definition byte_mask :: "nat \<Rightarrow> 'a::len word" where "byte_mask k = push_bit (8 * k) (mask 8)"

lemma bit_byte_mask: "bit (byte_mask k :: 'a::len word) i \<longleftrightarrow> i < LENGTH('a) \<and> i div 8 = k"
  by (auto simp: byte_mask_def bit_simps)

lemma swap_byte:
  "bit (drop_bit (8 * d) x AND byte_mask k :: 'a::len word) i \<longleftrightarrow> i div 8 = k \<and> i < LENGTH('a) \<and> bit x (8 * (k + d) + i mod 8)"
  "d \<le> k \<Longrightarrow> bit (push_bit (8 * d) x AND byte_mask k :: 'a::len word) i \<longleftrightarrow>
     i div 8 = k \<and> i < LENGTH('a) \<and> bit x (8 * (k - d) + i mod 8)"
proof -
  have i: "i = 8 * k + i mod 8" if "i div 8 = k" using that div_mult_mod_eq [of i 8] by simp
  show "bit (drop_bit (8 * d) x AND byte_mask k :: 'a word) i \<longleftrightarrow> i div 8 = k \<and> i < LENGTH('a) \<and> bit x (8 * (k + d) + i mod 8)"
    using i by (auto simp: bit_and_iff bit_drop_bit_eq bit_byte_mask algebra_simps)
  show "bit (push_bit (8 * d) x AND byte_mask k :: 'a word) i \<longleftrightarrow>
      i div 8 = k \<and> i < LENGTH('a) \<and> bit x (8 * (k - d) + i mod 8)" if "d \<le> k"
  proof -
    have "8 * d \<le> i \<and> i - 8 * d = 8 * (k - d) + i mod 8" if "i div 8 = k" using i [OF that] \<open>d \<le> k\<close> by auto
    then show ?thesis by (auto simp: bit_and_iff bit_push_bit_iff bit_byte_mask dest: bit_imp_le_length)
  qed
qed

lemma swap_2: "bit (EJS_SWAP_2BYTES x) i \<longleftrightarrow> i < 16 \<and> bit x (8 * (1 - i div 8) + i mod 8)"
proof -
  have "EJS_SWAP_2BYTES x = (drop_bit (8 * 1) x AND byte_mask 0) OR (push_bit (8 * 1) x AND byte_mask 1)"
    by (simp add: EJS_SWAP_2BYTES_def byte_mask_def mask_eq_exp_minus_1)
  moreover have "i < 16 \<longleftrightarrow> i div 8 = 0 \<or> i div 8 = 1" by linarith
  ultimately show ?thesis by (auto simp only: bit_or_iff swap_byte) auto
qed

lemma swap_4: "bit (EJS_SWAP_4BYTES x) i \<longleftrightarrow> i < 32 \<and> bit x (8 * (3 - i div 8) + i mod 8)"
proof -
  have eq: "EJS_SWAP_4BYTES x = (drop_bit (8 * 3) x AND byte_mask 0) OR (drop_bit (8 * 1) x AND byte_mask 1) OR
      (push_bit (8 * 1) x AND byte_mask 2) OR (push_bit (8 * 3) x AND byte_mask 3)"
    by (simp add: EJS_SWAP_4BYTES_def byte_mask_def mask_eq_exp_minus_1)
  have push: "1 \<le> (2::nat)" "3 \<le> (3::nat)" by simp_all
  have "i < 32 \<longleftrightarrow> i div 8 = 0 \<or> i div 8 = 1 \<or> i div 8 = 2 \<or> i div 8 = 3" by auto
  then show ?thesis unfolding eq bit_or_iff swap_byte(1) swap_byte(2) [OF push(1)] swap_byte(2) [OF push(2)]
    by auto
qed

lemma swap_8: "bit (EJS_SWAP_8BYTES x) i \<longleftrightarrow> i < 64 \<and> bit x (8 * (7 - i div 8) + i mod 8)"
proof -
  have eq: "EJS_SWAP_8BYTES x =
      (drop_bit (8 * 7) x AND byte_mask 0) OR (drop_bit (8 * 5) x AND byte_mask 1) OR
      (drop_bit (8 * 3) x AND byte_mask 2) OR (drop_bit (8 * 1) x AND byte_mask 3) OR
      (push_bit (8 * 1) x AND byte_mask 4) OR (push_bit (8 * 3) x AND byte_mask 5) OR
      (push_bit (8 * 5) x AND byte_mask 6) OR (push_bit (8 * 7) x AND byte_mask 7)"
    by (simp add: EJS_SWAP_8BYTES_def byte_mask_def mask_eq_exp_minus_1)
  have push: "1 \<le> (4::nat)" "3 \<le> (5::nat)" "5 \<le> (6::nat)" "7 \<le> (7::nat)" by simp_all
  consider "64 \<le> i" | "i < 64" "i div 8 = 0" | "i < 64" "i div 8 = 1" | "i < 64" "i div 8 = 2" | "i < 64" "i div 8 = 3"
    | "i < 64" "i div 8 = 4" | "i < 64" "i div 8 = 5" | "i < 64" "i div 8 = 6" | "i < 64" "i div 8 = 7" by linarith
  then show ?thesis unfolding eq bit_or_iff swap_byte(1) swap_byte(2) [OF push(1)] swap_byte(2) [OF push(2)]
      swap_byte(2) [OF push(3)] swap_byte(2) [OF push(4)]
    by cases simp_all
qed

text \<open>Swapping reverses the bytes.\<close>

lemma swapped_word:
  assumes "length ws = n" "LENGTH('a) = 8 * n"
    "\<And>i. bit (swap (word_of_int (of_le_bytes ws))) i \<longleftrightarrow>
      i < 8 * n \<and> bit (word_of_int (of_le_bytes ws) :: 'a::len word) (8 * (n - 1 - i div 8) + i mod 8)"
  shows "le_bytes n (uint (swap (word_of_int (of_le_bytes ws)) :: 'a word)) = rev ws"
proof -
  have "swap (word_of_int (of_le_bytes ws)) = (word_of_int (of_le_bytes (rev ws)) :: 'a word)"
  proof (rule bit_word_eqI)
    fix i assume "i < LENGTH('a)"
    then have "i div 8 < n" "i < 8 * n" using assms(2) by auto
    then have "8 * (n - 1 - i div 8) + i mod 8 < 8 * n" by (simp add: less_mult_imp_div_less)
    moreover have "rev ws ! (i div 8) = ws ! (n - 1 - i div 8)" using \<open>i div 8 < n\<close> assms(1) by (simp add: rev_nth)
    ultimately show "bit (swap (word_of_int (of_le_bytes ws)) :: 'a word) i = bit (word_of_int (of_le_bytes (rev ws)) :: 'a word) i"
      using assms \<open>i div 8 < n\<close> \<open>i < 8 * n\<close> by (simp add: bit_simps bit_of_le_bytes)
  qed
  moreover have "uint (word_of_int (of_le_bytes (rev ws)) :: 'a word) = of_le_bytes (rev ws)"
    using of_le_bytes_bounds [of "rev ws"] assms(1,2)
    by (simp add: unsigned_of_int take_bit_int_eq_self power_mult)
  ultimately show ?thesis using le_bytes_of_le_bytes [of "rev ws"] assms(1) by simp
qed

lemma swapBytes_rev: "length ws = elsize t \<Longrightarrow> swapBytes ws (elsize t) = rev ws"
  using swapped_word [of ws 2 EJS_SWAP_2BYTES] swapped_word [of ws 4 EJS_SWAP_4BYTES]
    swapped_word [of ws 8 EJS_SWAP_8BYTES] swap_2 swap_4 swap_8
  by (cases t) (auto simp: swapBytes_def length_Suc_conv)

section \<open>Reading and writing\<close>

lemma true_is_true: "EJSVAL_TO_BOOLEAN_IMPL ejs_true = 1"
  by code_simp

lemma dataview_data_shape: "same_shape bs bs' \<Longrightarrow> ejs_dataview_get_data bs' dv = ejs_dataview_get_data bs dv"
  by (simp add: ejs_dataview_get_data_def get_data_shape)

lemma encode_undefined: "\<not> representable t d \<Longrightarrow> encode_element t d = Aborts"
  by (cases t) (auto simp: representable_def c_convert_def)



lemma read_mem_append:
  assumes "read_mem bs r off m = Return xs" "read_mem bs r (off + int m) n = Return ys"
  shows "read_mem bs r off (m + n) = Return (xs @ ys)"
proof -
  obtain block where b: "buffer_data (bs ! r) = Alloced block" "r < length bs" "0 \<le> off"
    "off + int m + int n \<le> int (length block)" "xs = take m (drop (nat off) block)" "ys = take n (drop (nat (off + int m)) block)"
    using assms by (auto simp: read_mem_Return)
  have "drop (nat (off + int m)) block = drop m (drop (nat off) block)" using b(3) by (simp add: nat_add_distrib add.commute)
  then show ?thesis using b by (simp add: read_mem_def take_add)
qed

lemma of_le_bytes_append: "of_le_bytes (xs @ ys) = of_le_bytes xs + 256 ^ length xs * of_le_bytes ys"
  by (induction xs) (simp_all add: algebra_simps)

section \<open>What the checks let through\<close>

text \<open>Numbers are not made canonical when they are read from a buffer.  For every 64-bit word, the encodings of
  objects and strings included, a program can write its halves with a Uint32Array and read the word itself as a
  value through a Float64Array on the same buffer.\<close>

theorem float64_forges_values:
  assumes "buffers_wf bs" "ejs_arraybuffer_new 8 bs = (b, bs1)"
  shows "\<exists>u f bs2 bs3.
    ejs_TypedArray_impl number_env EJS_TYPEDARRAY_UINT32 ejs_true (Array_buffer b []) bs1 = Return (u, bs1) \<and>
    ejs_TypedArray_impl number_env EJS_TYPEDARRAY_FLOAT64 ejs_true (Array_buffer b []) bs1 = Return (f, bs1) \<and>
    typed_specop_set number_env u (int_value 0) (int_value (uint w mod 2 ^ 32)) bs1 = Return (True, bs2) \<and>
    typed_specop_set number_env u (int_value 1) (int_value (uint w div 2 ^ 32)) bs2 = Return (True, bs3) \<and>
    ejs_typedarray_specop_get number_env bs3 f (int_value 0) = Return (Handled w)"
proof -
  define u where "u = \<lparr>typed_buffer = b, byteOffset = 0, byteLength = 8, typed_length = 2, element_type = EJS_TYPEDARRAY_UINT32\<rparr>"
  define f where "f = \<lparr>typed_buffer = b, byteOffset = 0, byteLength = 8, typed_length = 1, element_type = EJS_TYPEDARRAY_FLOAT64\<rparr>"
  note wf = new_buffer_wf [OF assms(1) _ _ assms(2), simplified INT_MAX_def, simplified]
  have "\<not> EJSVAL_IS_UNDEFINED_IMPL ejs_true" by code_simp
  then have c: "ejs_TypedArray_impl number_env EJS_TYPEDARRAY_UINT32 ejs_true (Array_buffer b []) bs1 = Return (u, bs1)"
    "ejs_TypedArray_impl number_env EJS_TYPEDARRAY_FLOAT64 ejs_true (Array_buffer b []) bs1 = Return (f, bs1)"
    using wf(2,3) by (simp_all add: ejs_TypedArray_impl_def construct_from_buffer_def u_def f_def Let_def)
  define lo hi where "lo = uint w mod 2 ^ 32" and "hi = uint w div 2 ^ 32"
  have lo: "0 \<le> lo" "lo < 2 ^ 32" and hi: "0 \<le> hi" "hi < 2 ^ 32"
    using uint_lt2p [of w] by (simp_all add: lo_def hi_def div_less_iff_less_mult pos_imp_zdiv_nonneg_iff)
  have enc: "encode_element EJS_TYPEDARRAY_UINT32 (int_value k) = Return (le_bytes 4 k)" if "0 \<le> k" "k < 2 ^ 32" for k
    using that convert_of_int [of k 0 "2 ^ 32 - 1"] by (simp add: int_value_def del: le_bytes.simps)
  have idx: "property_index number_env (int_value 0) = Return (Some 0)" "property_index number_env (int_value 1) = Return (Some 1)"
    using number_env_index [of 0] number_env_index [of 1] by (simp_all add: INT_MAX_def)
  have data: "ejs_typedarray_get_data bs1 u = Return (b, 0)" "ejs_typedarray_get_data bs1 f = Return (b, 0)"
    using wf(4) by (simp_all add: ejs_typedarray_get_data_def of_option_def u_def f_def)
  have z: "read_mem bs1 b 0 4 = Return (replicate 4 0)" "read_mem bs1 b 4 4 = Return (replicate 4 0)"
    using wf(2,5) by (simp_all add: read_mem_def)
  obtain bs2 where w2: "write_mem bs1 b 0 (le_bytes 4 lo) = Return bs2"
    using write_mem_defined [OF z(1), of "le_bytes 4 lo"] by auto
  have r2: "read_mem bs2 b 0 4 = Return (le_bytes 4 lo)" "read_mem bs2 b 4 4 = Return (replicate 4 0)"
    using read_write_same [OF w2] read_write_other [OF w2, of b 4 4] z by simp_all
  obtain bs3 where w3: "write_mem bs2 b 4 (le_bytes 4 hi) = Return bs3"
    using write_mem_defined [OF r2(2), of "le_bytes 4 hi"] by auto
  have "read_mem bs3 b 0 4 = Return (le_bytes 4 lo)" "read_mem bs3 b (0 + int 4) 4 = Return (le_bytes 4 hi)"
    using read_write_same [OF w3] read_write_other [OF w3, of b 0 4] r2 by simp_all
  from read_mem_append [OF this] have r3: "read_mem bs3 b 0 8 = Return (le_bytes 4 lo @ le_bytes 4 hi)" by simp
  have "of_le_bytes (le_bytes 4 lo @ le_bytes 4 hi) = uint w"
    unfolding of_le_bytes_append of_le_bytes_le_bytes using lo hi by (simp add: lo_def hi_def)
  then have "decode_element EJS_TYPEDARRAY_FLOAT64 (le_bytes 4 lo @ le_bytes 4 hi) = w"
    by (simp add: decode_element_def)
  moreover have "ejs_typedarray_get_data bs2 u = Return (b, 0)" "ejs_typedarray_get_data bs3 f = Return (b, 0)"
    using typed_data_shape [OF write_mem_shape [OF w2]] typed_data_shape [OF write_mem_shape [OF w3]] data by simp_all
  ultimately have "typed_specop_set number_env u (int_value 0) (int_value lo) bs1 = Return (True, bs2)"
    "typed_specop_set number_env u (int_value 1) (int_value hi) bs2 = Return (True, bs3)"
    "ejs_typedarray_specop_get number_env bs3 f (int_value 0) = Return (Handled w)"
    using idx data w2 w3 r3 enc [OF lo] enc [OF hi]
    by (simp_all add: typed_specop_set_def ejs_typedarray_specop_set_def write_element_def write_bytes_def
        ejs_typedarray_specop_get_def read_element_def Let_def u_def f_def del: le_bytes.simps encode_element.simps)
  then show ?thesis using c unfolding lo_def hi_def by blast
qed

theorem float64_forges_values_witness:
  "\<exists>u f bs2 bs3.
    typed_specop_set number_env u (int_value 0) (int_value (uint (0xFFFF800000001000::ejsval) mod 2 ^ 32))
      (snd (ejs_arraybuffer_new 8 [])) = Return (True, bs2) \<and>
    typed_specop_set number_env u (int_value 1) (int_value (uint (0xFFFF800000001000::ejsval) div 2 ^ 32)) bs2 = Return (True, bs3) \<and>
    ejs_typedarray_specop_get number_env bs3 f (int_value 0) = Return (Handled 0xFFFF800000001000) \<and>
    EJSVAL_IS_OBJECT_IMPL 0xFFFF800000001000 = Some True"
proof -
  have "EJSVAL_IS_OBJECT_IMPL 0xFFFF800000001000 = Some True" by code_simp
  moreover have "buffers_wf []" by (simp add: buffers_wf_def)
  ultimately show ?thesis
    using float64_forges_values [of "[]" 0 "snd (ejs_arraybuffer_new 8 [])" "0xFFFF800000001000"]
    by (fastforce simp: ejs_arraybuffer_new_def)
qed

text \<open>The bound of \<open>[[Get]]\<close> is off by one.  On a new typed array, reading the element after the last one leaves
  the block, where assignment refuses that index and reading any later one is undefined.\<close>

theorem typed_get_off_by_one:
  assumes "buffers_wf bs" "uint len * int (elsize t) \<le> INT_MAX" "ejs_typedarray_new t len bs = (arr, bs')"
    "property_index env P = Return (Some (uint len))" "property_index env Q = Return (Some j)" "uint len < j"
  shows "ejs_typedarray_specop_get env bs' arr P = Aborts \<and>
    ejs_typedarray_specop_get env bs' arr Q = Return (Handled ejs_undefined) \<and>
    typed_specop_set env arr P v bs' = Return (False, bs')"
proof -
  note new = new_typed_wf [OF assms(1-3)]
  obtain b where "ejs_typedarray_get_data bs' arr = Return (b, 0)"
    "buffer_data (bs' ! b) = Alloced (replicate (nat (uint len * int (elsize t))) 0)" using new(6) by blast
  moreover have "0 < elsize t" by (cases t) simp_all
  ultimately have "read_element bs' arr (uint len) = Aborts"
    using new(4) by (simp add: read_element_def read_mem_def Let_def)
  then show ?thesis using assms(4-6) new(4,5)
    by (simp add: ejs_typedarray_specop_get_def typed_specop_set_def ejs_typedarray_specop_set_def
        ejs_Uint8Clampedarray_specop_set_def order_less_le_trans [of _ "uint len"])
qed

theorem typed_get_off_by_one_witness:
  "\<exists>arr bs. ejs_typedarray_new EJS_TYPEDARRAY_FLOAT64 1 [] = (arr, bs) \<and>
     ejs_typedarray_specop_get number_env bs arr (int_value 1) = Aborts"
proof -
  obtain arr bs where new: "ejs_typedarray_new EJS_TYPEDARRAY_FLOAT64 1 [] = (arr, bs)" by (rule prod.exhaust)
  show ?thesis
    using typed_get_off_by_one [OF _ _ new, of number_env "int_value 1" "int_value 2" 2]
      number_env_index [of 1] number_env_index [of 2] new by (simp add: buffers_wf_def INT_MAX_def)
qed

end
