(* ===== verification/TypedViewLaws.thy ===== *)
theory TypedViewLaws
  imports TypedArrayLaws
begin

text \<open>
  Views on buffers: exactly which arguments the constructor accepts and when the view it makes stays inside its
  buffer, \<open>copyWithin\<close> as a move within the sequence, \<open>subarray\<close> as a window on it, and the soundness of every
  sequence of operations on well-formed buffers.
\<close>

section \<open>The constructor\<close>

lemma elsize_cases: "elsize t = 1 \<or> elsize t = 2 \<or> elsize t = 4 \<or> elsize t = 8"
  by (cases t) simp_all

lemma elsize_word: "uint (word_of_nat (elsize t) :: uint32) = int (elsize t)" "0 < elsize t"
  "int (elsize t) dvd 2 ^ 32"
  by (cases t; simp)+

lemma construct_view:
  fixes s :: int
  assumes "b < length bs" "buffer_size (bs ! b) = s" "0 \<le> s" "s \<le> INT_MAX" "\<not> EJSVAL_IS_UNDEFINED_IMPL newTarget"
    "to_uint32 env O' = Return ofs" "to_uint32 env L = Return l"
    "n = int (elsize t)" "off = min (uint ofs) s" "bytes = uint l * n mod 2 ^ 32"
    "arr = \<lparr>typed_buffer = b, byteOffset = word_of_int off, byteLength = word_of_int bytes,
      typed_length = word_of_int (bytes div n), element_type = t\<rparr>"
  shows "ejs_TypedArray_impl env t newTarget (Array_buffer b [O', L]) bs =
      (if (off + bytes) mod 2 ^ 32 > s \<or> off mod n \<noteq> 0 then Throws RangeError else Return (arr, bs)) \<and>
    ((off + bytes) mod 2 ^ 32 \<le> s \<and> off mod n = 0 \<longrightarrow>
      (view_wf bs arr \<longleftrightarrow> off + bytes < 2 ^ 32) \<and> (typed_length arr = l \<longleftrightarrow> uint l * n < 2 ^ 32))"
proof -
  define w where "w = (if ofs > word_of_int s then word_of_int s else ofs :: uint32)"
  define e where "e = (word_of_nat (elsize t) :: uint32)"
  have e: "uint e = n" "0 < n" "n dvd 2 ^ 32" using elsize_word [of t] assms(8) by (simp_all add: e_def)
  have us: "uint (word_of_int s :: uint32) = s" using assms(3,4) by (simp add: unsigned_of_int take_bit_int_eq_self INT_MAX_def)
  have uw: "uint w = off" using us assms(9) by (auto simp: w_def word_less_def)
  have ub: "uint (l * e) = bytes" using e(1) assms(10) by (simp add: uint_word_ariths)
  have sum: "uint (w + l * e) = (off + bytes) mod 2 ^ 32" using uw ub by (simp add: uint_word_ariths)
  have bounds: "0 \<le> off" "off \<le> s" "0 \<le> bytes" "bytes < 2 ^ 32" using assms(3,9,10) by simp_all
  have dvd: "n dvd bytes" using e(3) assms(10) by (simp add: dvd_mod)
  have m: "w mod e = 0 \<longleftrightarrow> off mod n = 0" "l * e mod e = 0"
    using uw e(1) ub dvd by (simp_all add: word_uint_eq_iff uint_mod dvd_eq_mod_eq_0)
  have dm: "bytes div n * n = bytes" using dvd by simp
  have "bytes div n \<le> bytes div 1" using bounds(3) e(2) by (intro zdiv_mono2) simp_all
  then have ud: "uint (word_of_int (bytes div n) :: uint32) = bytes div n"
    using bounds e(2) by (simp add: unsigned_of_int take_bit_int_eq_self pos_imp_zdiv_nonneg_iff)
  have len: "l * e div e = word_of_int (bytes div n)"
    by (rule word_uint_eqI) (simp add: uint_div ub e(1) ud)
  have uby: "uint (word_of_int bytes :: uint32) = bytes"
    using bounds by (simp add: unsigned_of_int take_bit_int_eq_self)
  have len': "l * e div e * e = word_of_int bytes"
    by (rule word_uint_eqI) (use bounds in \<open>simp add: len uint_word_ariths ud e(1) dm uby\<close>)
  have "construct_from_buffer t b s (Some ofs) (Some l) =
      (if (off + bytes) mod 2 ^ 32 > s \<or> off mod n \<noteq> 0 then Throws RangeError else Return arr)"
  proof -
    have gt: "w + l * e > word_of_int s \<longleftrightarrow> (off + bytes) mod 2 ^ 32 > s" by (simp only: word_less_def sum us)
    have wo: "w = word_of_int off" by (metis uw word_of_int_uint)
    show ?thesis
      unfolding construct_from_buffer_def Let_def option.case e_def [symmetric] w_def [symmetric] gt m(1)
      by (simp add: m(2) len' wo assms(11)) (simp add: len)
  qed
  moreover have "view_wf bs arr \<longleftrightarrow> off + bytes < 2 ^ 32" if "(off + bytes) mod 2 ^ 32 \<le> s" "off mod n = 0"
  proof -
    have "uint (word_of_int off :: uint32) = off" using bounds assms(4)
      by (simp add: unsigned_of_int take_bit_int_eq_self INT_MAX_def)
    then have "view_wf bs arr \<longleftrightarrow> off + bytes \<le> s"
      using assms(1,2,8) that(2) dm ud by (simp add: view_wf_def assms(11) dvd_eq_mod_eq_0)
    then show ?thesis using that(1) bounds assms(4) by (auto simp: INT_MAX_def)
  qed
  moreover have "typed_length arr = l \<longleftrightarrow> uint l * n < 2 ^ 32"
  proof -
    have "typed_length arr = l \<longleftrightarrow> bytes div n = uint l" by (simp add: assms(11) word_uint_eq_iff ud)
    also have "\<dots> \<longleftrightarrow> uint l * n < 2 ^ 32"
      using dm bounds e(2) assms(10) by (metis mod_pos_pos_trivial mult_nonneg_nonneg nonzero_mult_div_cancel_right
          order_less_imp_le order_less_irrefl unsigned_greater_eq)
    finally show ?thesis .
  qed
  ultimately show ?thesis using assms(1,2,5-7) by (auto simp: ejs_TypedArray_impl_def)
qed

text \<open>C13: a typed array on a part of a buffer.  The constructor clamps the offset to the buffer, computes the length in
  bytes modulo \<open>2 ^ 32\<close>, and throws a RangeError when the end, again modulo \<open>2 ^ 32\<close>, lies behind the buffer or the
  offset is not aligned.  A view that it accepts lies inside the buffer exactly when the end did not wrap around,
  and has the requested length exactly when the multiplication did not.\<close>

theorem view_constructor_exact:
  fixes s :: int
  assumes "b < length bs" "buffer_size (bs ! b) = s" "0 \<le> s" "s \<le> INT_MAX" "\<not> EJSVAL_IS_UNDEFINED_IMPL newTarget"
    "to_uint32 env O' = Return ofs" "to_uint32 env L = Return l"
    "n = int (elsize t)" "off = min (uint ofs) s" "bytes = uint l * n mod 2 ^ 32"
    "arr = \<lparr>typed_buffer = b, byteOffset = word_of_int off, byteLength = word_of_int bytes,
      typed_length = word_of_int (bytes div n), element_type = t\<rparr>"
  shows "ejs_TypedArray_impl env t newTarget (Array_buffer b [O', L]) bs =
      (if (off + bytes) mod 2 ^ 32 > s \<or> off mod n \<noteq> 0 then Throws RangeError else Return (arr, bs)) \<and>
    ((off + bytes) mod 2 ^ 32 \<le> s \<and> off mod n = 0 \<longrightarrow>
      (view_wf bs arr \<longleftrightarrow> off + bytes < 2 ^ 32) \<and> (typed_length arr = l \<longleftrightarrow> uint l * n < 2 ^ 32))"
  using assms by (rule construct_view)

lemma to_uint32_int:
  assumes "0 \<le> i" "i < 2 ^ 32" "to_number env (int_value i) = Return (int_value i)"
  shows "to_uint32 env (int_value i) = Return (word_of_int i)"
  using assms of_int_finite [of i] trunc_of_int [of i] by (simp add: to_uint32_def ToUint32_def int_value_def)

theorem view_constructor_exact_witness:
  "\<exists>arr. ejs_TypedArray_impl number_env EJS_TYPEDARRAY_UINT8 ejs_true (Array_buffer 0 [int_value 8, int_value 4294967295])
       (snd (ejs_arraybuffer_new 16 [])) = Return (arr, snd (ejs_arraybuffer_new 16 [])) \<and>
     typed_length arr = 4294967295 \<and> \<not> view_wf (snd (ejs_arraybuffer_new 16 [])) arr"
proof -
  have "\<not> EJSVAL_IS_UNDEFINED_IMPL ejs_true" by code_simp
  moreover have "to_uint32 number_env (int_value 8) = Return 8" "to_uint32 number_env (int_value 4294967295) = Return 4294967295"
    using to_uint32_int [of 8 number_env] to_uint32_int [of 4294967295 number_env] by (simp_all add: number_env_def)
  ultimately show ?thesis
    using view_constructor_exact [OF _ _ _ _ _ _ _ refl refl refl refl,
        of 0 "snd (ejs_arraybuffer_new 16 [])" 16 ejs_true number_env "int_value 8" 8 "int_value 4294967295" 4294967295
          EJS_TYPEDARRAY_UINT8]
    by (simp add: ejs_arraybuffer_new_def INT_MAX_def)
qed

section \<open>copyWithin\<close>

text \<open>The elements from \<open>f\<close> on, \<open>c\<close> of them, moved to \<open>t\<close>.\<close>

definition moved :: "nat \<Rightarrow> nat \<Rightarrow> nat \<Rightarrow> 'v list \<Rightarrow> 'v list" where
  "moved f t c xs = take t xs @ take c (drop f xs) @ drop (t + c) xs"

lemma length_moved: "f + c \<le> length xs \<Longrightarrow> t + c \<le> length xs \<Longrightarrow> length (moved f t c xs) = length xs"
  by (simp add: moved_def)

lemma nth_moved:
  assumes "f + c \<le> length xs" "t + c \<le> length xs" "j < length xs"
  shows "moved f t c xs ! j = (if t \<le> j \<and> j < t + c then xs ! (f + (j - t)) else xs ! j)"
proof -
  have "length (take t xs) = t" "length (take c (drop f xs)) = c" using assms by simp_all
  then show ?thesis using assms unfolding moved_def nth_append by (auto simp del: length_take)
qed

lemma moved_forward:
  assumes "f + Suc c \<le> length xs" "t + Suc c \<le> length xs" "t \<le> f \<or> f + Suc c \<le> t"
  shows "moved (Suc f) (Suc t) c (xs[t := xs ! f]) = moved f t (Suc c) xs"
  using assms by (intro nth_equalityI) (auto simp: length_moved nth_moved nth_list_update Suc_diff_Suc)

lemma moved_backward:
  assumes "f + Suc c \<le> length xs" "t + Suc c \<le> length xs" "f < t"
  shows "moved f t c (xs[t + c := xs ! (f + c)]) = moved f t (Suc c) xs"
  using assms by (intro nth_equalityI) (auto simp: length_moved nth_moved nth_list_update less_Suc_eq)

lemma move_element:
  assumes "typed_seq bs arr xs" "f < length xs" "t < length xs" "ejs_typedarray_get_data bs arr = Return (r, off)"
    "n = elsize (element_type arr)"
  shows "\<exists>ws bs'. read_mem bs r (off + int f * int n) n = Return ws \<and> write_mem bs r (off + int t * int n) ws = Return bs' \<and>
    same_shape bs bs' \<and> typed_seq bs' arr (xs[t := xs ! f])"
proof -
  have "read_element bs arr (int f) = Return (xs ! f)" using assms(1,2) by (simp add: typed_seq_def)
  then obtain ws where ws: "read_mem bs r (off + int f * int n) n = Return ws" "xs ! f = decode_element (element_type arr) ws"
    using assms(4,5) by (auto simp: read_element_Return)
  then show ?thesis using write_bytes_seq [OF assms(1,3), of ws] read_length [OF ws(1)] assms(4,5)
    by (auto simp: write_bytes_def)
qed

lemma copy_forward:
  assumes "typed_seq bs arr xs" "f + c \<le> length xs" "t + c \<le> length xs" "t \<le> f \<or> f + c \<le> t"
    "ejs_typedarray_get_data bs arr = Return (r, off)" "n = elsize (element_type arr)"
  shows "\<exists>bs'. copyWithin_elements r off n (int f) (int t) 1 c bs = Return bs' \<and> typed_seq bs' arr (moved f t c xs)"
  using assms
proof (induction c arbitrary: f t bs xs)
  case 0
  then show ?case by (simp add: moved_def)
next
  case (Suc c)
  obtain ws bs' where m: "read_mem bs r (off + int f * int n) n = Return ws" "write_mem bs r (off + int t * int n) ws = Return bs'"
    "same_shape bs bs'" "typed_seq bs' arr (xs[t := xs ! f])"
    using move_element [OF Suc.prems(1) _ _ Suc.prems(5,6), of f t] Suc.prems by auto
  have "ejs_typedarray_get_data bs' arr = Return (r, off)" using typed_data_shape [OF m(3)] Suc.prems(5) by simp
  then have "\<exists>bs''. copyWithin_elements r off n (int (Suc f)) (int (Suc t)) 1 c bs' = Return bs'' \<and>
      typed_seq bs'' arr (moved (Suc f) (Suc t) c (xs[t := xs ! f]))"
    using Suc.prems m(4) by (intro Suc.IH) auto
  then show ?case using m moved_forward [of f c xs t] Suc.prems by (simp add: add.commute)
qed

lemma copy_backward:
  assumes "typed_seq bs arr xs" "f + c \<le> length xs" "t + c \<le> length xs" "f < t"
    "ejs_typedarray_get_data bs arr = Return (r, off)" "n = elsize (element_type arr)"
  shows "\<exists>bs'. copyWithin_elements r off n (int f + int c - 1) (int t + int c - 1) (- 1) c bs = Return bs' \<and>
    typed_seq bs' arr (moved f t c xs)"
  using assms
proof (induction c arbitrary: bs xs)
  case 0
  then show ?case by (simp add: moved_def)
next
  case (Suc c)
  obtain ws bs' where m: "read_mem bs r (off + int (f + c) * int n) n = Return ws"
    "write_mem bs r (off + int (t + c) * int n) ws = Return bs'"
    "same_shape bs bs'" "typed_seq bs' arr (xs[t + c := xs ! (f + c)])"
    using move_element [OF Suc.prems(1) _ _ Suc.prems(5,6), of "f + c" "t + c"] Suc.prems by auto
  have "ejs_typedarray_get_data bs' arr = Return (r, off)" using typed_data_shape [OF m(3)] Suc.prems(5) by simp
  then have "\<exists>bs''. copyWithin_elements r off n (int f + int c - 1) (int t + int c - 1) (- 1) c bs' = Return bs'' \<and>
      typed_seq bs'' arr (moved f t c (xs[t + c := xs ! (f + c)]))"
    using Suc.prems m(4) by (intro Suc.IH) auto
  then show ?case using m moved_backward [of f c xs t] Suc.prems by (simp add: algebra_simps)
qed

lemma clamp_position: "int n \<le> INT_MAX \<Longrightarrow> \<bar>r\<bar> \<le> INT_MAX \<Longrightarrow> clamp (int n) r = int (position n r)"
  by (simp add: clamp_spec position_def)

lemma to_int32_small: "to_integer env v = Return i \<Longrightarrow> \<bar>i\<bar> \<le> INT_MAX \<Longrightarrow> to_int32 env v = Return i"
  by (simp add: to_int32_def c_int_id INT_MAX_def abs_le_iff)

lemma valid_data:
  assumes "IsDetachedBuffer bs (typed_buffer arr) = Return False"
  shows "ValidateTypedArray bs arr = Return (typed_buffer arr)"
    "ejs_typedarray_get_data bs arr = Return (typed_buffer arr, uint (byteOffset arr))"
proof -
  obtain block where "typed_buffer arr < length bs" "buffer_data (bs ! typed_buffer arr) = Alloced block"
    using assms by (auto simp: IsDetachedBuffer_def split: if_splits buffer_data.splits)
  then have "ejs_arraybuffer_get_data bs (typed_buffer arr) = Some (typed_buffer arr, 0)"
    by (subst ejs_arraybuffer_get_data.simps) simp
  then show "ejs_typedarray_get_data bs arr = Return (typed_buffer arr, uint (byteOffset arr))"
    by (simp add: ejs_typedarray_get_data_def of_option_def)
  show "ValidateTypedArray bs arr = Return (typed_buffer arr)" using assms by (simp add: ValidateTypedArray_def)
qed

lemma copyWithin_attached:
  assumes "typed_seq bs arr xs" "int (length xs) \<le> INT_MAX" "IsDetachedBuffer bs (typed_buffer arr) = Return False"
    "to_integer env (arg args 0) = Return a" "to_integer env (arg args 1) = Return b"
    "if EJSVAL_IS_UNDEFINED_IMPL (arg args 2) then e = int (length xs) else to_integer env (arg args 2) = Return e"
    "\<bar>a\<bar> \<le> INT_MAX" "\<bar>b\<bar> \<le> INT_MAX" "\<bar>e\<bar> \<le> INT_MAX"
    "t = position (length xs) a" "f = position (length xs) b"
    "c = min (position (length xs) e - f) (length xs - t)"
  shows "\<exists>bs'. ejs_TypedArray_prototype_copyWithin env arr args bs = Return bs' \<and>
    typed_seq bs' arr (take t xs @ take c (drop f xs) @ drop (t + c) xs)"
proof -
  define g where "g = position (length xs) e"
  define n where "n = elsize (element_type arr)"
  define r off where "r = typed_buffer arr" and "off = uint (byteOffset arr)"
  note valid = valid_data [OF assms(3), folded r_def off_def]
  have le: "t \<le> length xs" "f \<le> length xs" "g \<le> length xs" by (simp_all add: assms(10,11) g_def position_le)
  have cl: "clamp (uint (typed_length arr)) a = int t" "clamp (uint (typed_length arr)) b = int f" "clamp (uint (typed_length arr)) e = int g"
    using clamp_position [OF assms(2)] assms(7-11) typed_seq_length [OF assms(1)] by (simp_all add: g_def)
  have "c_int (int (length xs)) = int (length xs)" using assms(2) by (intro c_int_id) (simp_all add: INT_MAX_def)
  then have ints: "to_int32 env (arg args 0) = Return a" "to_int32 env (arg args 1) = Return b"
    "relative_end32 env (uint (typed_length arr)) (arg args 2) = Return e"
    using assms(4-9) typed_seq_length [OF assms(1)] by (simp_all add: to_int32_small relative_end32_def split: if_splits)
  define count where "count = c_min (int g - int f) (uint (typed_length arr) - int t)"
  have "c_int (int g - int f) = int g - int f" "c_int (int (length xs) - int t) = int (length xs) - int t"
    using le assms(2) by (auto intro!: c_int_id simp: INT_MAX_def)
  then have count: "count = min (int g - int f) (int (length xs) - int t)"
    using typed_seq_length [OF assms(1)] by (simp add: count_def c_min_def min_def)
  then have cn: "nat count = c" using le by (auto simp: assms(12) g_def min_def)
  have range: "int_range (int g - int f) = Return (int g - int f)" "int_range (int f + count) = Return (int f + count)"
    using le assms(2) count by (auto simp: int_range_def INT_MAX_def)
  have fits: "f + c \<le> length xs" "t + c \<le> length xs" using le by (auto simp: assms(12) g_def [symmetric])
  have "ejs_TypedArray_prototype_copyWithin env arr args bs =
      (if f < t \<and> int t < int f + count
       then copyWithin_elements r off n (int f + count - 1) (int t + count - 1) (- 1) c bs
       else copyWithin_elements r off n (int f) (int t) 1 c bs)"
    using valid ints range
    by (simp add: ejs_TypedArray_prototype_copyWithin_def Let_def cl count_def [symmetric] cn n_def)
  moreover have "\<exists>bs'. copyWithin_elements r off n (int f + count - 1) (int t + count - 1) (- 1) c bs = Return bs' \<and>
      typed_seq bs' arr (moved f t c xs)" if "f < t" "int t < int f + count"
  proof -
    have "int c = count" using that cn by simp
    then show ?thesis using copy_backward [OF assms(1) fits that(1) valid(2) n_def] by simp
  qed
  moreover have "\<exists>bs'. copyWithin_elements r off n (int f) (int t) 1 c bs = Return bs' \<and>
      typed_seq bs' arr (moved f t c xs)" if "\<not> (f < t \<and> int t < int f + count)"
  proof -
    have "t \<le> f \<or> f + c \<le> t" using that cn by auto
    then show ?thesis using copy_forward [OF assms(1) fits _ valid(2) n_def] by blast
  qed
  ultimately show ?thesis by (auto simp: moved_def)
qed

lemma detached_shape: "same_shape bs bs' \<Longrightarrow> IsDetachedBuffer bs' b = IsDetachedBuffer bs b"
  using shape_eq [OF same_shape_nth, of bs bs' b] same_shape_length [of bs bs']
  by (cases "buffer_data (bs ! b)"; cases "buffer_data (bs' ! b)") (auto simp: IsDetachedBuffer_def)

lemma to_integer_int: "env_ok env \<Longrightarrow> \<bar>i\<bar> < 2 ^ 53 \<Longrightarrow> to_integer env (int_value i) = Return i"
  using of_int_finite [of i] trunc_of_int [of i]
  by (auto simp: env_ok_def to_integer_def ToInteger_def double_to_int64_def int_value_def of_option_def)

text \<open>C14: copyWithin on a typed array.  An array whose buffer is a slice of another one is refused with a TypeError,
  because IsDetachedBuffer takes every slice for detached.  On every other array of fewer than 2^31 elements it moves
  elements correctly, also when source and target overlap: for positions in the range of int, negative ones counted from
  the end, the elements from the start to the end (the end of the array when it is undefined or left out) are copied to
  the target as far as there is room, and no other element changes.\<close>

theorem copyWithin_moves:
  assumes "typed_seq bs arr xs" "int (length xs) \<le> INT_MAX" "IsDetachedBuffer bs (typed_buffer arr) = Return detached"
    "to_integer env (arg args 0) = Return a" "to_integer env (arg args 1) = Return b"
    "if EJSVAL_IS_UNDEFINED_IMPL (arg args 2) then e = int (length xs) else to_integer env (arg args 2) = Return e"
    "\<bar>a\<bar> \<le> INT_MAX" "\<bar>b\<bar> \<le> INT_MAX" "\<bar>e\<bar> \<le> INT_MAX"
    "t = position (length xs) a" "f = position (length xs) b"
    "c = min (position (length xs) e - f) (length xs - t)"
  shows "if detached then ejs_TypedArray_prototype_copyWithin env arr args bs = Throws TypeError
    else \<exists>bs'. ejs_TypedArray_prototype_copyWithin env arr args bs = Return bs' \<and>
      typed_seq bs' arr (take t xs @ take c (drop f xs) @ drop (t + c) xs)"
proof (cases detached)
  case True
  then show ?thesis using assms(3) by (simp add: ejs_TypedArray_prototype_copyWithin_def ValidateTypedArray_def)
next
  case False
  then show ?thesis using copyWithin_attached [OF assms(1,2) _ assms(4-12)] assms(3) by simp
qed

theorem copyWithin_moves_witness:
  "\<exists>arr bs bs'. typed_seq bs arr [ejs_one, 0, 0] \<and> element_type arr = EJS_TYPEDARRAY_INT8 \<and>
     ejs_TypedArray_prototype_copyWithin sample_env arr [int_value 1, int_value 0, int_value 2] bs = Return bs' \<and>
     typed_seq bs' arr [ejs_one, ejs_one, 0]"
proof -
  obtain arr bs0 where new: "ejs_typedarray_new EJS_TYPEDARRAY_INT8 3 [] = (arr, bs0)" by (rule prod.exhaust)
  have one: "int_value 1 = ejs_one" by (simp add: int_value_def dbl_of_int_def ejs_one_def ilog2.simps)
  note wf = new_typed_wf [OF _ _ new, unfolded INT_MAX_def buffers_wf_def, simplified]
  have seq: "typed_seq bs0 arr [0, 0, 0]" using wf(3) by (simp add: numeral_eq_Suc)
  have "representable EJS_TYPEDARRAY_INT8 (int_value 1)" "stored EJS_TYPEDARRAY_INT8 (int_value 1) = int_value 1"
    using of_int_finite [of 1] trunc_of_int [of 1] by (simp_all add: representable_def stored_def int_value_def)
  then obtain bs where bs: "same_shape bs0 bs" "typed_seq bs arr [ejs_one, 0, 0]"
    using write_element_seq [OF seq, of 0 "int_value 1"] wf(4) one by auto
  have "IsDetachedBuffer bs0 (typed_buffer arr) = Return False"
    using new by (auto simp: ejs_typedarray_new_def ejs_arraybuffer_new_def IsDetachedBuffer_def Let_def)
  then have "IsDetachedBuffer bs (typed_buffer arr) = Return False" using detached_shape [OF bs(1)] by simp
  moreover have "\<not> EJSVAL_IS_UNDEFINED_IMPL (int_value 2)"
    using double_not_tagged [OF int_value_facts(1) [of 2]] by simp
  ultimately show ?thesis
    using copyWithin_moves [OF bs(2), of False sample_env "[int_value 1, int_value 0, int_value 2]" 1 0 2]
      sample_env_ok bs(2) wf(4) by (fastforce simp: INT_MAX_def position_def arg_def to_integer_int)
qed

section \<open>subarray\<close>

lemma begin_position:
  assumes "int n \<le> INT_MAX" "\<bar>a\<bar> \<le> INT_MAX"
  shows "c_min (int n) (c_max 0 (if a < 0 then c_int (int n + a) else a)) = int (position n a)"
    "c_max 0 (c_min (int n) (if a < 0 then c_int (int n + a) else a)) = int (position n a)"
proof -
  have "c_int (int n) = int n" "c_int 0 = 0" "c_int a = a" "a < 0 \<Longrightarrow> c_int (int n + a) = int n + a"
    using assms by (auto intro!: c_int_id simp: INT_MAX_def)
  then show "c_min (int n) (c_max 0 (if a < 0 then c_int (int n + a) else a)) = int (position n a)"
    "c_max 0 (c_min (int n) (if a < 0 then c_int (int n + a) else a)) = int (position n a)"
    by (auto simp: c_min_def c_max_def position_def)
qed

text \<open>A window on a view.\<close>

lemma window_access:
  assumes "typed_buffer arr' = typed_buffer arr" "element_type arr' = element_type arr"
    "uint (byteOffset arr') = uint (byteOffset arr) + int s * int (elsize (element_type arr))"
  shows "read_element bs arr' j = read_element bs arr (int s + j)" "write_element bs arr' j v = write_element bs arr (int s + j) v"
proof -
  define n where "n = elsize (element_type arr)"
  have eq: "off + uint (byteOffset arr') + j * int n = off + uint (byteOffset arr) + (int s + j) * int n" for off
    using assms(3) by (simp add: n_def algebra_simps)
  have "ejs_typedarray_get_data bs arr' = Aborts \<and> ejs_typedarray_get_data bs arr = Aborts \<or>
    (\<exists>r off. ejs_typedarray_get_data bs arr' = Return (r, off + uint (byteOffset arr')) \<and>
      ejs_typedarray_get_data bs arr = Return (r, off + uint (byteOffset arr)))"
    using assms(1) by (cases "ejs_arraybuffer_get_data bs (typed_buffer arr)") (auto simp: ejs_typedarray_get_data_def of_option_def)
  then show "read_element bs arr' j = read_element bs arr (int s + j)" "write_element bs arr' j v = write_element bs arr (int s + j) v"
    using assms(2) unfolding read_element_def write_element_def write_bytes_def Let_def n_def [symmetric]
    by (auto simp only: bind_outcome.simps prod.case n_def [symmetric] eq)
qed

text \<open>Subarray makes a window on the same memory.  For a well-formed view and positions in the range of \<open>int\<close>, it
  returns a well-formed view of the elements between them (none when they are in the wrong order), and in every
  later state of the buffers reading and writing its element \<open>j\<close> is reading and writing the element of the original
  array \<open>j\<close> places after the beginning.\<close>

theorem subarray_shares:
  assumes "env_ok env" "buffers_wf bs" "view_wf bs arr" "to_integer env A = Return a" "to_integer env E = Return e"
    "\<not> EJSVAL_IS_UNDEFINED_IMPL E" "\<bar>a\<bar> \<le> INT_MAX" "\<bar>e\<bar> \<le> INT_MAX" "len = unat (typed_length arr)"
    "s = position len a" "c = position len e - s"
  shows "\<exists>arr'. ejs_TypedArray_prototype_subarray env (construct_subarray (names env) (element_type arr) bs) arr [A, E] = Return (arr', bs) \<and>
    view_wf bs arr' \<and> unat (typed_length arr') = c \<and>
    (\<forall>bs' j. read_element bs' arr' j = read_element bs' arr (int s + j)) \<and>
    (\<forall>bs' j v. write_element bs' arr' j v = write_element bs' arr (int s + j) v)"
proof -
  define t n b sz where "t = element_type arr" and "n = int (elsize t)" and "b = typed_buffer arr" and "sz = buffer_size (bs ! b)"
  have n: "0 < n" "n dvd 2 ^ 32" "uint (word_of_nat (elsize t) :: uint32) = n"
    using elsize_word [of t] by (simp_all add: n_def)
  have ulen: "uint (typed_length arr) = int len" by (simp add: assms(9))
  have wf: "b < length bs" "n dvd uint (byteOffset arr)" "uint (byteOffset arr) + int len * n \<le> sz"
    using assms(3) ulen by (simp_all add: view_wf_def b_def n_def t_def sz_def)
  have sz: "0 \<le> sz" "sz \<le> INT_MAX" using assms(2) wf(1) by (simp_all add: buffers_wf_def buffer_wf_def sz_def)
  have len: "int len \<le> INT_MAX"
  proof -
    have "int len * 1 \<le> int len * n" using n(1) by (intro mult_left_mono) simp_all
    then show ?thesis using wf(3) sz(2) uint_nonnegative [of "byteOffset arr"] by linarith
  qed
  have le: "s \<le> len" "s + c \<le> len" using position_le [of len a] position_le [of len e] by (auto simp: assms(10,11))
  have "int s * n + int c * n \<le> int len * n" using le(2) n(1) by (simp flip: distrib_right)
  then have end': "uint (byteOffset arr) + int s * n + int c * n \<le> sz" using wf(3) by simp
  define ofs where "ofs = byteOffset arr + word_of_int (int s) * word_of_nat (elsize t)"
  define l where "l = (if word_of_int (int (position len e)) < (word_of_int (int s) :: uint32) then word_of_int (int s)
      else word_of_int (int (position len e))) - (word_of_int (int s) :: uint32)"
  have pos: "0 \<le> int c * n" "0 \<le> int s * n" "0 \<le> uint (byteOffset arr)" using n(1) by simp_all
  have fit: "uint (word_of_int i :: uint32) = i" if "0 \<le> i" "i \<le> INT_MAX" for i
    using that by (simp add: unsigned_of_int take_bit_int_eq_self INT_MAX_def)
  have "ofs = word_of_int (uint (byteOffset arr) + int s * n)" by (simp add: ofs_def n_def)
  moreover have "0 \<le> uint (byteOffset arr) + int s * n" "uint (byteOffset arr) + int s * n \<le> INT_MAX"
    using end' pos sz(2) by linarith+
  ultimately have uofs: "uint ofs = uint (byteOffset arr) + int s * n" using fit by metis
  have ul: "uint l = int c"
  proof -
    have u: "uint (word_of_int (int k) :: uint32) = int k" if "k \<le> len" for k using fit [of "int k"] that len by simp
    have "l = word_of_int (int c)"
      using u [OF le(1)] u [OF position_le [of len e]] by (auto simp: l_def word_less_def assms(11) of_nat_diff)
    then show ?thesis using u le(2) by simp
  qed
  have "sz \<le> 2147483647" using sz(2) by (simp add: INT_MAX_def)
  then have lim: "int c * n < 4294967296" "uint ofs + int c * n < 4294967296" "uint ofs \<le> sz" "uint ofs + int c * n \<le> sz"
    using pos end' unfolding uofs by linarith+
  then have small: "int c * n mod 2 ^ 32 = int c * n" "uint ofs + int c * n < 2 ^ 32" "(uint ofs + int c * n) mod 2 ^ 32 \<le> sz"
    using pos(1) by simp_all
  have num: "to_uint32 (names env) (int_value (uint w)) = Return w" for w :: uint32
    using to_uint32_int [of "uint w" "names env"] uint_lt2p [of w] assms(1) by (simp add: env_ok_def)
  define arr' where "arr' = \<lparr>typed_buffer = b, byteOffset = word_of_int (uint ofs), byteLength = word_of_int (int c * n),
      typed_length = word_of_int (int c * n div n), element_type = t\<rparr>"
  have "\<not> EJSVAL_IS_UNDEFINED_IMPL ejs_true" by code_simp
  then have "construct_subarray (names env) t bs b ofs l = Return (arr', bs) \<and> view_wf bs arr'"
    using construct_view [OF wf(1) sz_def [symmetric] sz _ num num n_def refl refl refl, of ejs_true ofs l] small lim(3) ul n wf(2) uofs
    by (simp add: construct_subarray_def arr'_def min_absorb1 mod_eq_0_iff_dvd)
  moreover have "ejs_TypedArray_prototype_subarray env (construct_subarray (names env) t bs) arr [A, E] = construct_subarray (names env) t bs b ofs l"
    using to_int32_small [OF assms(4,7)] to_int32_small [OF assms(5,8)] begin_position [OF len assms(7)] begin_position [OF len assms(8)] assms(6)
    by (simp add: ejs_TypedArray_prototype_subarray_def Let_def arg_def ulen assms(10) [symmetric] ofs_def l_def t_def b_def)
  moreover have "byteOffset arr' = ofs" by (simp add: arr'_def)
  moreover have "unat (typed_length arr') = c"
    using fit [of "int c"] le(2) len n(1) by (simp add: arr'_def unat_eq_nat_uint)
  ultimately show ?thesis
    using window_access [of arr' arr s] uofs by (simp add: t_def arr'_def b_def n_def)
qed

theorem subarray_shares_witness:
  "\<exists>arr bs arr'. ejs_typedarray_new EJS_TYPEDARRAY_INT16 4 [] = (arr, bs) \<and>
     ejs_TypedArray_prototype_subarray sample_env (construct_subarray (names sample_env) EJS_TYPEDARRAY_INT16 bs) arr
       [int_value 1, int_value (- 1)] = Return (arr', bs) \<and>
     unat (typed_length arr') = 2 \<and> (\<forall>bs'. read_element bs' arr' 0 = read_element bs' arr 1)"
proof -
  obtain arr bs where new: "ejs_typedarray_new EJS_TYPEDARRAY_INT16 4 [] = (arr, bs)" by (rule prod.exhaust)
  note wf = new_typed_wf [OF _ _ new, unfolded INT_MAX_def, simplified]
  have bs: "buffers_wf []" by (simp add: buffers_wf_def)
  have u: "\<not> EJSVAL_IS_UNDEFINED_IMPL (int_value (- 1))"
    using double_not_tagged [OF int_value_facts(1) [of "- 1"]] by simp
  have i: "to_integer sample_env (int_value 1) = Return 1" "to_integer sample_env (int_value (- 1)) = Return (- 1)"
    using to_integer_int [OF sample_env_ok] by simp_all
  have lim: "\<bar>1\<bar> \<le> INT_MAX" "\<bar>- 1\<bar> \<le> INT_MAX" by (simp_all add: INT_MAX_def)
  have p: "4 = unat (typed_length arr)" "1 = position 4 1" "2 = position 4 (- 1) - 1"
    using wf(5) [OF bs] by (simp_all add: position_def)
  obtain arr' where a: "ejs_TypedArray_prototype_subarray sample_env (construct_subarray (names sample_env) EJS_TYPEDARRAY_INT16 bs) arr
       [int_value 1, int_value (- 1)] = Return (arr', bs)" "unat (typed_length arr') = 2"
      and sh: "\<forall>bs' j. read_element bs' arr' j = read_element bs' arr (int 1 + j)"
    using subarray_shares [OF sample_env_ok wf(1) [OF bs] wf(2) [OF bs] i u lim p] unfolding wf(4) [OF bs] by blast
  then have "\<forall>bs'. read_element bs' arr' 0 = read_element bs' arr 1" by simp
  then show ?thesis using new a by blast
qed

section \<open>Sequences of operations\<close>

lemma writes_shape:
  "write_bytes bs arr i ws = Return bs' \<Longrightarrow> same_shape bs bs'"
  "write_element bs arr i v = Return bs' \<Longrightarrow> same_shape bs bs'"
  by (auto simp: write_element_def write_bytes_def bind_outcome_Return dest: write_mem_shape)

lemma set_shape: "typed_specop_set env arr P v bs = Return (ok, bs') \<Longrightarrow> same_shape bs bs'"
  by (auto simp: typed_specop_set_def ejs_typedarray_specop_set_def ejs_Uint8Clampedarray_specop_set_def bind_outcome_Return
      same_shape_def split: if_splits option.splits dest!: writes_shape)

lemma copy_shape: "copyWithin_elements r off n f t d c bs = Return bs' \<Longrightarrow> same_shape bs bs'"
proof (induction c arbitrary: f t bs)
  case (Suc c)
  then obtain ws bs1 where "write_mem bs r (off + t * int n) ws = Return bs1" "same_shape bs1 bs'"
    by (auto simp: bind_outcome_Return)
  then show ?case using write_mem_shape [of bs] by (auto simp: same_shape_def)
qed (simp add: same_shape_def)

lemma copyWithin_shape: "ejs_TypedArray_prototype_copyWithin env arr args bs = Return bs' \<Longrightarrow> same_shape bs bs'"
  by (auto simp: ejs_TypedArray_prototype_copyWithin_def bind_outcome_Return Let_def split: if_splits dest!: copy_shape)

lemma dataview_set_shape: "ejs_DataView_prototype_set t dv args bs = Return bs' \<Longrightarrow> same_shape bs bs'"
  by (auto simp: ejs_DataView_prototype_set_def bind_outcome_Return Let_def split: if_splits dest!: write_mem_shape)

text \<open>One operation on the buffers and the typed arrays in use.  Sizes are below the limit of \<open>int\<close>; a view is made
  with arguments whose sum does not wrap around; a slice begins inside its buffer.\<close>

inductive typed_step :: "array_env \<Rightarrow> buffers \<times> EJSTypedArray list \<Rightarrow> buffers \<times> EJSTypedArray list \<Rightarrow> bool" for env where
  new_buffer: "0 \<le> sz \<Longrightarrow> sz \<le> INT_MAX \<Longrightarrow> ejs_arraybuffer_new sz bs = (b, bs') \<Longrightarrow> typed_step env (bs, vs) (bs', vs)"
| slice: "b < length bs \<Longrightarrow> 0 \<le> offset \<Longrightarrow> offset \<le> buffer_size (bs ! b) \<Longrightarrow> 0 \<le> sz \<Longrightarrow> sz + offset \<le> INT_MAX \<Longrightarrow>
    ejs_arraybuffer_new_slice b offset sz bs = Return (b', bs') \<Longrightarrow> typed_step env (bs, vs) (bs', vs)"
| new_array: "uint len * int (elsize t) \<le> INT_MAX \<Longrightarrow> ejs_typedarray_new t len bs = (arr, bs') \<Longrightarrow>
    typed_step env (bs, vs) (bs', arr # vs)"
| new_length: "to_uint32 env N = Return len \<Longrightarrow> uint len * int (elsize t) \<le> INT_MAX \<Longrightarrow>
    ejs_TypedArray_impl env t newTarget (Number N) bs = Return (arr, bs') \<Longrightarrow> typed_step env (bs, vs) (bs', arr # vs)"
| new_view: "to_uint32 env O' = Return ofs \<Longrightarrow> to_uint32 env L = Return l \<Longrightarrow> uint ofs + uint l * int (elsize t) < 2 ^ 32 \<Longrightarrow>
    ejs_TypedArray_impl env t newTarget (Array_buffer b [O', L]) bs = Return (arr, bs') \<Longrightarrow> typed_step env (bs, vs) (bs', arr # vs)"
| set_element: "arr \<in> set vs \<Longrightarrow> typed_specop_set env arr P v bs = Return (ok, bs') \<Longrightarrow> typed_step env (bs, vs) (bs', vs)"
| copy: "arr \<in> set vs \<Longrightarrow> ejs_TypedArray_prototype_copyWithin menv arr args bs = Return bs' \<Longrightarrow> typed_step env (bs, vs) (bs', vs)"
| set_bytes: "ejs_DataView_prototype_set t dv args bs = Return bs' \<Longrightarrow> typed_step env (bs, vs) (bs', vs)"

definition typed_ok :: "buffers \<times> EJSTypedArray list \<Rightarrow> bool" where
  "typed_ok st \<longleftrightarrow> buffers_wf (fst st) \<and> (\<forall>arr\<in>set (snd st). view_wf (fst st) arr)"

lemma typed_ok_shape: "typed_ok (bs, vs) \<Longrightarrow> same_shape bs bs' \<Longrightarrow> typed_ok (bs', vs)"
  using buffers_wf_shape view_wf_shape by (auto simp: typed_ok_def)

lemma view_wf_append: "view_wf bs arr \<Longrightarrow> view_wf (bs @ cs) arr"
  by (simp add: view_wf_def nth_append)

lemma typed_ok_append: "typed_ok (bs, vs) \<Longrightarrow> buffers_wf (bs @ cs) \<Longrightarrow> typed_ok (bs @ cs, vs)"
  by (auto simp: typed_ok_def view_wf_append)

lemma new_array_append: "ejs_typedarray_new t len bs = (arr, bs') \<Longrightarrow> \<exists>cs. bs' = bs @ cs"
  by (auto simp: ejs_typedarray_new_def ejs_arraybuffer_new_def Let_def)

lemma construct_len_new: "construct_from_array_len t len bs = ejs_typedarray_new t len bs"
  by (simp add: construct_from_array_len_def ejs_typedarray_new_def)

lemma typed_ok_new:
  "typed_ok (bs, vs) \<Longrightarrow> uint len * int (elsize t) \<le> INT_MAX \<Longrightarrow> ejs_typedarray_new t len bs = (arr, bs') \<Longrightarrow>
    typed_ok (bs', arr # vs)"
  using new_typed_wf(1,2) [of bs len t arr bs'] new_array_append [of t len bs arr bs'] typed_ok_append [of bs vs]
  by (auto simp: typed_ok_def)

lemma new_view_wf:
  assumes "buffers_wf bs" "to_uint32 env O' = Return ofs" "to_uint32 env L = Return l" "uint ofs + uint l * int (elsize t) < 2 ^ 32"
    "ejs_TypedArray_impl env t newTarget (Array_buffer b [O', L]) bs = Return (arr, bs')"
  shows "bs' = bs \<and> view_wf bs arr"
proof -
  have b: "b < length bs" and u: "\<not> EJSVAL_IS_UNDEFINED_IMPL newTarget"
    using assms(5) by (auto simp: ejs_TypedArray_impl_def split: if_splits)
  then have s: "0 \<le> buffer_size (bs ! b)" "buffer_size (bs ! b) \<le> INT_MAX"
    using assms(1) by (simp_all add: buffers_wf_def buffer_wf_def)
  have "0 \<le> uint l * int (elsize t)" by simp
  then have "uint l * int (elsize t) mod 2 ^ 32 \<le> uint l * int (elsize t)" by (intro zmod_le_nonneg_dividend)
  then have "min (uint ofs) (buffer_size (bs ! b)) + uint l * int (elsize t) mod 2 ^ 32 < 2 ^ 32" using assms(4) by linarith
  then show ?thesis using construct_view [OF b refl s u assms(2,3) refl refl refl refl, of t] assms(5)
    by (auto split: if_splits)
qed

lemma typed_step_ok:
  assumes "typed_step env st st'" "typed_ok st"
  shows "typed_ok st'"
  using assms
proof induction
  case (new_buffer sz bs b bs' vs)
  then show ?case using new_buffer_wf(1) [of bs sz b bs'] typed_ok_append [of bs vs]
    by (auto simp: typed_ok_def ejs_arraybuffer_new_def)
next
  case (slice b bs offset sz b' bs' vs)
  then have "buffers_wf bs'" using slice_wf [of bs b offset sz] by (auto simp: typed_ok_def)
  moreover have "\<exists>c. bs' = bs @ [c]" using slice.hyps(6) by (auto simp: ejs_arraybuffer_new_slice_def Let_def split: if_splits)
  ultimately show ?case using slice.prems typed_ok_append by blast
next
  case (new_array len t bs arr bs' vs)
  then show ?case using typed_ok_new by blast
next
  case (new_length N len t newTarget bs arr bs' vs)
  then have "ejs_typedarray_new t len bs = (arr, bs')"
    by (simp add: ejs_TypedArray_impl_def construct_len_new split: if_splits)
  then show ?case using new_length typed_ok_new by blast
next
  case (new_view O' ofs L l t newTarget b bs arr bs' vs)
  then show ?case using new_view_wf [of bs env O' ofs L l t newTarget b arr bs'] by (auto simp: typed_ok_def)
next
  case (set_element arr vs P v bs ok bs')
  then show ?case using typed_ok_shape set_shape by blast
next
  case (copy arr vs menv args bs bs')
  then show ?case using typed_ok_shape copyWithin_shape by blast
next
  case (set_bytes t dv args bs bs' vs)
  then show ?case using typed_ok_shape dataview_set_shape by blast
qed



end
