(* ===== verification/StringMethods.thy ===== *)
theory StringMethods
  imports ArrayMethods
begin

text \<open>
  The String constructor, the methods of \<open>String.prototype\<close> and the string iterator
  (\<open>src/runtime/ejs-string.c\<close>).  Strings are the trees of \<open>PrimString\<close>; a method that flattens a string goes on
  with the flat one.  An array that a method fills by pushing strings is the list of them.  Conversions of values
  to strings and numbers run compiled code on objects and are fields of the environment; so are the lookup of a method
  under a symbol and the call of a replacement function.
\<close>

section \<open>The environment\<close>

record string_env =
  to_string :: "ejsval \<Rightarrow> EJSPrimString outcome"
  object_string :: "ejsval \<Rightarrow> EJSPrimString outcome"
  string_number :: "ejsval \<Rightarrow> double outcome"
  string_store :: strings
  primStr :: "ptr \<Rightarrow> ejsval option"
  is_regexp :: "ejsval \<Rightarrow> bool outcome"
  method_of :: "ejsval \<Rightarrow> ejsval outcome"

text \<open>\<open>to_string\<close> is \<open>ToString\<close>, \<open>object_string\<close> is \<open>ToString(ToObject(v))\<close>, \<open>primStr\<close> the field of a String object,
  and \<open>method_of\<close> the method under the symbol that the calling function looks up.\<close>

definition flatten_string :: "EJSPrimString \<Rightarrow> EJSPrimString outcome" where
  "flatten_string s = of_option (ejs_primstring_flatten s)"

definition string_integer :: "string_env \<Rightarrow> ejsval \<Rightarrow> int outcome" where
  "string_integer env v = bind_outcome (string_number env v) (\<lambda>d. of_option (ToInteger d))"

definition atom_empty :: EJSPrimString where "atom_empty = EJS_STRING_FLAT 0 None False [0]"

definition EJSVAL_IS_STRING_OBJECT :: "string_env \<Rightarrow> ejsval \<Rightarrow> bool" where
  "EJSVAL_IS_STRING_OBJECT env v \<longleftrightarrow>
     EJSVAL_IS_OBJECT_IMPL v = Some True \<and> primStr env (EJSVAL_TO_OBJECT_IMPL v) \<noteq> None"

text \<open>The string of a string value, and of the \<open>primStr\<close> field of the object that any other value is taken to be.\<close>

definition value_string :: "string_env \<Rightarrow> ejsval \<Rightarrow> EJSPrimString outcome" where
  "value_string env v = of_option (string_store env (EJSVAL_TO_STRING_IMPL v))"

definition this_primstr :: "string_env \<Rightarrow> ejsval \<Rightarrow> EJSPrimString outcome" where
  "this_primstr env v =
     (if EJSVAL_IS_STRING_IMPL v then value_string env v
      else bind_outcome (of_option (primStr env (EJSVAL_TO_OBJECT_IMPL v))) (value_string env))"

definition thisStringValue :: "string_env \<Rightarrow> ejsval \<Rightarrow> ejsval outcome" where
  "thisStringValue env v =
     (if EJSVAL_IS_STRING_IMPL v then Return v
      else if EJSVAL_IS_STRING_OBJECT env v then of_option (primStr env (EJSVAL_TO_OBJECT_IMPL v))
      else Throws TypeError)"

section \<open>The constructor\<close>

text \<open>The string itself, or the object that wraps it.\<close>

datatype string_result = Primitive_string EJSPrimString | String_object EJSPrimString

definition ejs_String_impl :: "string_env \<Rightarrow> ejsval \<Rightarrow> ejsval list \<Rightarrow> string_result outcome" where
  "ejs_String_impl env newTarget args =
     bind_outcome
       (if length args = 0 then Return atom_empty
        else if EJSVAL_IS_UNDEFINED_IMPL newTarget \<and> EJSVAL_IS_SYMBOL_IMPL (args ! 0) then Aborts
        else to_string env (args ! 0)) (\<lambda>s.
     if EJSVAL_IS_UNDEFINED_IMPL newTarget then Return (Primitive_string s)
     else Return (String_object s))"

definition ejs_String_prototype_toString :: "string_env \<Rightarrow> ejsval \<Rightarrow> ejsval outcome" where
  "ejs_String_prototype_toString env this = thisStringValue env this"

definition ejs_String_prototype_valueOf :: "string_env \<Rightarrow> ejsval \<Rightarrow> ejsval outcome" where
  "ejs_String_prototype_valueOf env this = thisStringValue env this"

section \<open>Replacement\<close>

definition dollar :: jschar where "dollar = 0x24"

definition is_digit :: "jschar \<Rightarrow> bool" where "is_digit c \<longleftrightarrow> 0x30 \<le> c \<and> c \<le> 0x39"

text \<open>A character of the replacement; the terminator is the last that may be read.\<close>

definition char_at :: "jschar list \<Rightarrow> int \<Rightarrow> jschar outcome" where
  "char_at buf i = (if 0 \<le> i \<and> i < int (length buf) then Return (buf ! nat i) else Aborts)"

text \<open>A reference \<open>$n\<close> or \<open>$nn\<close> at \<open>i\<close>: the number, and whether it has two digits.\<close>

definition reference :: "jschar list \<Rightarrow> int \<Rightarrow> int \<Rightarrow> (int \<times> bool) outcome" where
  "reference buf len i =
     bind_outcome (char_at buf (i + 1)) (\<lambda>c1.
     let n = uint c1 - 0x30 in
     if i < len - 2 then
       bind_outcome (char_at buf (i + 2)) (\<lambda>c2.
         if is_digit c2 then Return (n * 10 + (uint c2 - 0x30), True) else Return (n, False))
     else Return (n, False))"

text \<open>The captures: strings, or undefined.  \<open>Get\<close> beyond the end is undefined, an access to the elements is not
  checked.\<close>

definition capture_get :: "EJSPrimString option list \<Rightarrow> int \<Rightarrow> EJSPrimString option" where
  "capture_get captures n = (if 0 \<le> n \<and> n < int (length captures) then captures ! nat n else None)"

text \<open>The pass that computes the length of the result.\<close>

function result_length ::
  "jschar list \<Rightarrow> int \<Rightarrow> int \<Rightarrow> int \<Rightarrow> EJSPrimString option list \<Rightarrow> int \<Rightarrow> int \<Rightarrow> int outcome" where
  "result_length buf len matchLength tail captures i result_len =
     (if i \<ge> len then Return result_len
      else bind_outcome (char_at buf i) (\<lambda>c.
        if c \<noteq> dollar then result_length buf len matchLength tail captures (i + 1) (result_len + 1)
        else bind_outcome (char_at buf (i + 1)) (\<lambda>c1.
          if c1 = dollar then result_length buf len matchLength tail captures (i + 2) (result_len + 1)
          else if c1 = 0x26 then result_length buf len matchLength tail captures (i + 2) (result_len + matchLength)
          else if c1 = 0x27 then
            result_length buf len matchLength tail captures (i + 2) (result_len + (if tail > 0 then tail else 0))
          else if is_digit c1 then
            bind_outcome (reference buf len i) (\<lambda>(n, two).
              result_length buf len matchLength tail captures (i + 1)
                (if two then
                   (if n = 0 \<or> n > int (length captures) then result_len
                    else case capture_get captures n of
                        Some s \<Rightarrow> result_len + int (str_length s) | None \<Rightarrow> result_len)
                 else if n = 0 then result_len + 1 else result_len))
          else result_length buf len matchLength tail captures (i + 1) (result_len + 1))))"
  by pat_completeness auto
termination by (relation "measure (\<lambda>(buf, len, m, t, c, i, r). nat (len - i))") auto

declare result_length.simps [simp del]

text \<open>The pass that builds it, with the texts of the match and of what follows it.  The references are replaced by the elements of the captures from 1 on, which are
  read without a check.\<close>

definition capture_element :: "EJSPrimString option list \<Rightarrow> int \<Rightarrow> EJSPrimString option outcome" where
  "capture_element captures n = (if 0 \<le> n \<and> n < int (length captures) then Return (captures ! nat n) else Aborts)"

definition captured_text :: "EJSPrimString option \<Rightarrow> jschar list outcome" where
  "captured_text s =
     (case s of None \<Rightarrow> Return []
      | Some s \<Rightarrow> bind_outcome (flatten_string s) (\<lambda>f. Return (take (str_length s) (flat f))))"

function build_result ::
  "jschar list \<Rightarrow> int \<Rightarrow> jschar list outcome \<Rightarrow> jschar list outcome \<Rightarrow> EJSPrimString option list \<Rightarrow> int \<Rightarrow> jschar list \<Rightarrow>
     jschar list outcome" where
  "build_result buf len matched tail captures i result =
     (if i \<ge> len then Return result
      else bind_outcome (char_at buf i) (\<lambda>c.
        if c \<noteq> dollar then build_result buf len matched tail captures (i + 1) (result @ [c])
        else bind_outcome (char_at buf (i + 1)) (\<lambda>c1.
          if c1 = dollar then build_result buf len matched tail captures (i + 2) (result @ [dollar])
          else if c1 = 0x26 then
            bind_outcome matched (\<lambda>t. build_result buf len matched tail captures (i + 2) (result @ t))
          else if c1 = 0x27 then
            bind_outcome tail (\<lambda>t. build_result buf len matched tail captures (i + 2) (result @ t))
          else if is_digit c1 then
            bind_outcome (reference buf len i) (\<lambda>(n, two).
              if two \<and> (n = 0 \<or> n > int (length captures)) then
                build_result buf len matched tail captures (if n > 10 then i + 3 else i + 2) result
              else if \<not> two \<and> n = 0 then
                build_result buf len matched tail captures (i + 1) (result @ [dollar, 0x30])
              else bind_outcome (bind_outcome (capture_element captures (n - 1)) captured_text) (\<lambda>t.
                build_result buf len matched tail captures (if n > 10 then i + 3 else i + 2) (result @ t)))
          else build_result buf len matched tail captures (i + 1) (result @ [dollar]))))"
  by pat_completeness auto
termination by (relation "measure (\<lambda>(buf, len, m, t, c, i, r). nat (len - i))") auto

declare build_result.simps [simp del]

text \<open>The buffer has room for the computed length and the terminator.  The result is made with
  \<open>_ejs_string_new_ucs2\<close>, which ends it at the first NUL.\<close>

definition GetReplaceSubstitution ::
  "EJSPrimString \<Rightarrow> EJSPrimString \<Rightarrow> int \<Rightarrow> EJSPrimString option list \<Rightarrow> EJSPrimString \<Rightarrow> EJSPrimString outcome" where
  "GetReplaceSubstitution matched string position' captures replacement =
     (let matchLength = int (str_length matched); stringLength = int (str_length string) in
      if position' > stringLength then Aborts
      else
        let tailPos = position' + matchLength; replacement_len = int (str_length replacement) in
        bind_outcome (flatten_string replacement) (\<lambda>replacement.
        bind_outcome (result_length (flat replacement) replacement_len matchLength (stringLength - tailPos) captures 0 0) (\<lambda>result_len.
        bind_outcome (build_result (flat replacement) replacement_len
            (bind_outcome (flatten_string matched) (\<lambda>m. Return (take (nat matchLength) (flat m))))
            (if tailPos < stringLength
             then bind_outcome (flatten_string string) (\<lambda>s. Return (take (nat (stringLength - tailPos)) (drop (nat tailPos) (flat s))))
             else Return [])
            captures 0 []) (\<lambda>result.
          if int (length result) > result_len then Aborts
          else of_option (ejs_string_new_ucs2 (result @ [0]))))))"

text \<open>\<open>Delegated\<close>: the method found under the symbol is called, and gives the result.\<close>

datatype 'a delegated = Delegated ejsval | Own 'a

text \<open>The position of a pointer that a search in \<open>buf\<close> returned.\<close>

definition position_in :: "jschar list \<Rightarrow> jschar list \<Rightarrow> int" where
  "position_in buf p = int (length buf) - int (length p)"

definition ejs_String_prototype_replace ::
  "string_env \<Rightarrow> (EJSPrimString \<Rightarrow> int \<Rightarrow> EJSPrimString \<Rightarrow> ejsval outcome) option \<Rightarrow> ejsval \<Rightarrow> ejsval list \<Rightarrow>
     EJSPrimString delegated outcome" where
  "ejs_String_prototype_replace env functionalReplace this args =
     (let searchValue = arg args 0; replaceValue = arg args 1 in
      bind_outcome (to_string env this) (\<lambda>string.
      bind_outcome (method_of env searchValue) (\<lambda>replacer.
      if \<not> EJSVAL_IS_UNDEFINED_IMPL replacer then Return (Delegated replacer)
      else
        bind_outcome (to_string env searchValue) (\<lambda>searchString.
        bind_outcome (if functionalReplace = None then to_string env replaceValue else Return atom_empty) (\<lambda>replaceString.
        bind_outcome (flatten_string string) (\<lambda>string.
        bind_outcome (flatten_string searchString) (\<lambda>matched.
        bind_outcome (of_option (ucs2_strstr (flat string) (flat matched))) (\<lambda>p.
        case p of
          None \<Rightarrow> Return (Own string)
        | Some p \<Rightarrow>
            let pos = position_in (flat string) p in
            bind_outcome
              (case functionalReplace of
                 Some replacer \<Rightarrow> bind_outcome (replacer matched pos string) (to_string env)
               | None \<Rightarrow> GetReplaceSubstitution matched string pos [] replaceString) (\<lambda>replStr.
            let tailPos = pos + int (str_length matched); strlen = int (str_length string) in
            bind_outcome (if pos = 0 then Return atom_empty else of_option (ejs_string_new_substring string 0 (nat pos))) (\<lambda>front.
            bind_outcome
              (if tailPos = strlen - 1 then Return atom_empty
               else of_option (ejs_string_new_substring string tailPos (nat (strlen - tailPos)))) (\<lambda>back.
            bind_outcome (of_option (ejs_string_concatv front [replStr, back])) (\<lambda>r. Return (Own r)))))))))))))"

section \<open>Characters\<close>

fun ejs_string_ucs2_at :: "EJSPrimString \<Rightarrow> nat \<Rightarrow> jschar option" where
  "ejs_string_ucs2_at (EJS_STRING_DEPENDENT n h d doff) offset = ejs_string_ucs2_at d (u32 (int offset + doff))"
| "ejs_string_ucs2_at (EJS_STRING_ROPE n h l r) offset =
     (if offset < str_length l then ejs_string_ucs2_at l offset
      else ejs_string_ucs2_at r (offset - str_length l))"
| "ejs_string_ucs2_at (EJS_STRING_FLAT n h ool buf) offset = (if offset < length buf then Some (buf ! offset) else None)"

text \<open>The index that \<open>charAt\<close> and \<open>charCodeAt\<close> use: 0 for an argument that is not a number.\<close>

definition char_index :: "ejsval list \<Rightarrow> int outcome" where
  "char_index args =
     (if length args > 0 \<and> EJSVAL_IS_DOUBLE_IMPL (args ! 0) then double_to_int (args ! 0) else Return 0)"

definition ejs_String_prototype_charAt :: "string_env \<Rightarrow> ejsval \<Rightarrow> ejsval list \<Rightarrow> EJSPrimString outcome" where
  "ejs_String_prototype_charAt env this args =
     bind_outcome (this_primstr env this) (\<lambda>s.
     bind_outcome (char_index args) (\<lambda>idx.
     if idx < 0 \<or> idx \<ge> int (str_length s) then Return atom_empty
     else bind_outcome (of_option (ejs_string_ucs2_at s (nat idx))) (\<lambda>c.
       of_option (ejs_string_new_ucs2_len [c] 1))))"

definition ejs_String_prototype_charCodeAt :: "string_env \<Rightarrow> ejsval \<Rightarrow> ejsval list \<Rightarrow> ejsval outcome" where
  "ejs_String_prototype_charCodeAt env this args =
     bind_outcome (this_primstr env this) (\<lambda>s.
     bind_outcome (char_index args) (\<lambda>idx.
     if idx < 0 \<or> idx \<ge> int (str_length s) then Return ejs_nan
     else bind_outcome (of_option (ejs_string_ucs2_at s (nat idx))) (\<lambda>c. Return (int_value (uint c)))))"

definition ejs_String_prototype_codePointAt :: "string_env \<Rightarrow> ejsval \<Rightarrow> ejsval list \<Rightarrow> ejsval outcome" where
  "ejs_String_prototype_codePointAt env this args =
     bind_outcome (object_string env this) (\<lambda>S.
     bind_outcome (string_integer env (arg args 0)) (\<lambda>position.
     let size = int (str_length S) in
     if position < 0 \<or> position \<ge> size then Return ejs_undefined
     else
       bind_outcome (of_option (ejs_string_ucs2_at S (nat position))) (\<lambda>first.
       if first < 0xD800 \<or> first > 0xDBFF \<or> position + 1 = size then Return (int_value (uint first))
       else
         bind_outcome (of_option (ejs_string_ucs2_at S (nat (position + 1)))) (\<lambda>second.
         if second < 0xDC00 \<or> second > 0xDFFF then Return (int_value (uint first))
         else Return (int_value ((uint first - 0xD800) * 1024 + (uint second - 0xDC00) + 0x10000))))))"

section \<open>Searching\<close>

definition ejs_String_prototype_indexOf :: "string_env \<Rightarrow> ejsval \<Rightarrow> ejsval list \<Rightarrow> int outcome" where
  "ejs_String_prototype_indexOf env this args =
     (if length args = 0 then Return (- 1)
      else
        bind_outcome (to_string env this) (\<lambda>haystack.
        bind_outcome (flatten_string haystack) (\<lambda>haystack.
        bind_outcome (to_string env (args ! 0)) (\<lambda>needle.
        bind_outcome (flatten_string needle) (\<lambda>needle.
        bind_outcome (of_option (ucs2_strstr (flat haystack) (flat needle))) (\<lambda>p.
          case p of None \<Rightarrow> Return (- 1) | Some p \<Rightarrow> Return (position_in (flat haystack) p)))))))"

text \<open>The loop with which \<open>startsWith\<close> and \<open>endsWith\<close> compare, from the index \<open>i\<close> of the search string on.\<close>

function compare_at :: "jschar list \<Rightarrow> jschar list \<Rightarrow> int \<Rightarrow> nat \<Rightarrow> nat \<Rightarrow> bool outcome" where
  "compare_at s search start searchLength i =
     (if i < searchLength then
        bind_outcome (char_at s (int i + start)) (\<lambda>a.
        bind_outcome (char_at search (int i)) (\<lambda>b.
          if a \<noteq> b then Return False else compare_at s search start searchLength (Suc i)))
      else Return True)"
  by pat_completeness auto
termination by (relation "measure (\<lambda>(s, search, start, n, i). n - i)") auto

declare compare_at.simps [simp del]

definition search_string :: "string_env \<Rightarrow> ejsval \<Rightarrow> EJSPrimString outcome" where
  "search_string env searchString =
     bind_outcome (is_regexp env searchString) (\<lambda>isRegExp.
       if isRegExp then Throws TypeError else to_string env searchString)"

definition ejs_String_prototype_startsWith :: "string_env \<Rightarrow> ejsval \<Rightarrow> ejsval list \<Rightarrow> bool outcome" where
  "ejs_String_prototype_startsWith env this args =
     bind_outcome (object_string env this) (\<lambda>S.
     bind_outcome (search_string env (arg args 0)) (\<lambda>searchStr.
     bind_outcome (string_integer env (arg args 1)) (\<lambda>pos.
     let len = int (str_length S); start = min (max pos 0) len; searchLength = str_length searchStr in
     if int searchLength + start > len then Return False
     else
       bind_outcome (flatten_string S) (\<lambda>prim_S.
       bind_outcome (flatten_string searchStr) (\<lambda>prim_searchStr.
         compare_at (flat prim_S) (flat prim_searchStr) start searchLength 0)))))"

definition ejs_String_prototype_endsWith :: "string_env \<Rightarrow> ejsval \<Rightarrow> ejsval list \<Rightarrow> bool outcome" where
  "ejs_String_prototype_endsWith env this args =
     bind_outcome (object_string env this) (\<lambda>S.
     bind_outcome (search_string env (arg args 0)) (\<lambda>searchStr.
     let len = int (str_length S) in
     bind_outcome (if EJSVAL_IS_UNDEFINED_IMPL (arg args 1) then Return len else string_integer env (arg args 1)) (\<lambda>pos.
     let end' = min (max pos 0) len; searchLength = str_length searchStr; start = end' - int searchLength in
     if start < 0 then Return False
     else
       bind_outcome (flatten_string S) (\<lambda>prim_S.
       bind_outcome (flatten_string searchStr) (\<lambda>prim_searchStr.
         compare_at (flat prim_S) (flat prim_searchStr) start searchLength 0)))))"

definition ejs_String_prototype_includes :: "string_env \<Rightarrow> ejsval \<Rightarrow> ejsval list \<Rightarrow> bool outcome" where
  "ejs_String_prototype_includes env this args =
     bind_outcome (object_string env this) (\<lambda>S.
     bind_outcome (search_string env (arg args 0)) (\<lambda>searchStr.
     bind_outcome (string_integer env (arg args 1)) (\<lambda>pos.
     let start = min (max pos 0) (int (str_length S)) in
     bind_outcome (flatten_string S) (\<lambda>prim_S.
     bind_outcome (flatten_string searchStr) (\<lambda>prim_searchStr.
     bind_outcome (of_option (ucs2_strstr (drop (nat start) (flat prim_S)) (flat prim_searchStr))) (\<lambda>p.
       Return (p \<noteq> None)))))))"

section \<open>Parts\<close>

definition ejs_String_prototype_substring :: "string_env \<Rightarrow> ejsval \<Rightarrow> ejsval list \<Rightarrow> EJSPrimString outcome" where
  "ejs_String_prototype_substring env this args =
     (if EJSVAL_IS_NULL_IMPL this \<or> EJSVAL_IS_UNDEFINED_IMPL this then Throws TypeError
      else
        bind_outcome (to_string env this) (\<lambda>S.
        let len = int (str_length S) in
        bind_outcome (string_integer env (arg args 0)) (\<lambda>intStart.
        bind_outcome (if EJSVAL_IS_UNDEFINED_IMPL (arg args 1) then Return len else string_integer env (arg args 1)) (\<lambda>intEnd.
        let finalStart = min (max (c_int intStart) 0) len;
            finalEnd = min (max (c_int intEnd) 0) len;
            from' = min finalStart finalEnd;
            to = max finalStart finalEnd in
        of_option (ejs_string_new_substring S from' (nat (to - from')))))))"

text \<open>Without a length, \<open>substr\<close> is not implemented.\<close>

definition ejs_String_prototype_substr :: "string_env \<Rightarrow> ejsval \<Rightarrow> ejsval list \<Rightarrow> EJSPrimString outcome" where
  "ejs_String_prototype_substr env this args =
     bind_outcome (to_string env this) (\<lambda>Result1.
     bind_outcome (string_integer env (arg args 0)) (\<lambda>start.
     let Result2 = c_int start in
     bind_outcome (if EJSVAL_IS_UNDEFINED_IMPL (arg args 1) then Aborts else string_integer env (arg args 1)) (\<lambda>l.
     let Result3 = c_int l;
         Result4 = int (str_length Result1);
         Result5 = (if Result2 \<ge> 0 then Result2 else max (Result4 + Result2) 0);
         Result6 = min (max Result3 0) (Result4 - Result5) in
     if Result6 \<le> 0 then Return atom_empty
     else of_option (ejs_string_new_substring Result1 Result5 (nat Result6)))))"

definition ejs_String_prototype_slice :: "string_env \<Rightarrow> ejsval \<Rightarrow> ejsval list \<Rightarrow> EJSPrimString outcome" where
  "ejs_String_prototype_slice env this args =
     bind_outcome (to_string env this) (\<lambda>S.
     let len = int (str_length S); start = arg args 0; end' = arg args 1 in
     bind_outcome (if EJSVAL_IS_UNDEFINED_IMPL start then Return 0 else string_integer env start) (\<lambda>s.
     bind_outcome (if EJSVAL_IS_UNDEFINED_IMPL end' then Return len else string_integer env end') (\<lambda>e.
     let intStart = c_int s; intEnd = c_int e;
         from' = (if intStart < 0 then max (len + intStart) 0 else min intStart len);
         to = (if intEnd < 0 then max (len + intEnd) 0 else min intEnd len);
         span = max (to - from') 0 in
     of_option (ejs_string_new_substring S from' (nat span)))))"

end
