(* ===== verification/StringBuilders.thy ===== *)
theory StringBuilders
  imports StringMethods
begin

text \<open>
  The methods of strings that build new texts or lists of them (\<open>src/runtime/ejs-string.c\<close>): case mapping, trimming,
  splitting, repetition, the functions of the String constructor, the string iterator and the internal methods of
  String objects.
\<close>

section \<open>Case\<close>

text \<open>\<open>tolower\<close> and \<open>toupper\<close> of the C locale.\<close>

definition c_tolower :: "uint8 \<Rightarrow> uint8" where
  "c_tolower b = (if 0x41 \<le> b \<and> b \<le> 0x5A then b + 0x20 else b)"

definition c_toupper :: "uint8 \<Rightarrow> uint8" where
  "c_toupper b = (if 0x61 \<le> b \<and> b \<le> 0x7A then b - 0x20 else b)"

text \<open>The loop over the bytes up to the terminator.\<close>

fun map_bytes :: "(uint8 \<Rightarrow> uint8) \<Rightarrow> uint8 list \<Rightarrow> uint8 list outcome" where
  "map_bytes f [] = Aborts"
| "map_bytes f (b # p) = (if b = 0 then Return (b # p) else bind_outcome (map_bytes f p) (\<lambda>q. Return (f b # q)))"

definition ejs_String_prototype_toLowerCase :: "string_env \<Rightarrow> ejsval \<Rightarrow> EJSPrimString outcome" where
  "ejs_String_prototype_toLowerCase env this =
     bind_outcome (to_string env this) (\<lambda>S.
     bind_outcome (flatten_string S) (\<lambda>S.
     bind_outcome (of_option (ucs2_to_utf8 (flat S))) (\<lambda>sstr.
     bind_outcome (map_bytes c_tolower sstr) (\<lambda>sstr. of_option (ejs_string_new_utf8 sstr)))))"

definition ejs_String_prototype_toUpperCase :: "string_env \<Rightarrow> ejsval \<Rightarrow> EJSPrimString outcome" where
  "ejs_String_prototype_toUpperCase env this =
     bind_outcome (to_string env this) (\<lambda>S.
     bind_outcome (flatten_string S) (\<lambda>S.
     bind_outcome (of_option (ucs2_to_utf8 (flat S))) (\<lambda>sstr.
     bind_outcome (map_bytes c_toupper sstr) (\<lambda>sstr. of_option (ejs_string_new_utf8 sstr)))))"

section \<open>Trimming\<close>

definition IsWhitespace :: "jschar \<Rightarrow> bool" where
  "IsWhitespace c \<longleftrightarrow> c \<in> {0x000A, 0x000D, 0x2028, 0x2029, 0x0009, 0x000B, 0x000C, 0x0020, 0x00A0, 0xFEFF,
     0x1680, 0x2000, 0x2001, 0x2002, 0x2003, 0x2004, 0x2005, 0x2006, 0x2007, 0x2008, 0x2009, 0x200A,
     0x202F, 0x205F, 0x3000}"

function leading_loop :: "jschar list \<Rightarrow> nat \<Rightarrow> nat \<Rightarrow> nat outcome" where
  "leading_loop buf len leading =
     (if leading < len then
        bind_outcome (char_at buf (int leading)) (\<lambda>c.
          if IsWhitespace c then leading_loop buf len (Suc leading) else Return leading)
      else Return leading)"
  by pat_completeness auto
termination by (relation "measure (\<lambda>(buf, len, l). len - l)") auto

declare leading_loop.simps [simp del]

text \<open>This loop is not bounded by the length; before the buffer it leaves the memory of the string.\<close>

function trailing_loop :: "jschar list \<Rightarrow> nat \<Rightarrow> nat \<Rightarrow> nat outcome" where
  "trailing_loop buf len trailing =
     (if trailing < len then
        bind_outcome (char_at buf (int len - 1 - int trailing)) (\<lambda>c.
          if IsWhitespace c then trailing_loop buf len (Suc trailing) else Return trailing)
      else Aborts)"
  by pat_completeness auto
termination by (relation "measure (\<lambda>(buf, len, t). len - t)") auto

declare trailing_loop.simps [simp del]

definition ejs_String_prototype_trim :: "string_env \<Rightarrow> ejsval \<Rightarrow> EJSPrimString outcome" where
  "ejs_String_prototype_trim env this =
     bind_outcome (to_string env this) (\<lambda>S.
     bind_outcome (flatten_string S) (\<lambda>S.
     let len = str_length S in
     bind_outcome (leading_loop (flat S) len 0) (\<lambda>leading.
     if leading = len then Return atom_empty
     else
       bind_outcome (trailing_loop (flat S) len 0) (\<lambda>trailing.
       if leading = 0 \<and> trailing = 0 then Return S
       else of_option (ejs_string_new_substring S (int leading) (len - leading - trailing))))))"

section \<open>Splitting\<close>

datatype MatchResultState = MATCH_RESULT_FAILURE | MATCH_RESULT_SUCCESS (endIndex: nat)

text \<open>With the result come the two strings, which are flat once their characters were compared.\<close>

definition SplitMatch ::
  "EJSPrimString \<Rightarrow> nat \<Rightarrow> EJSPrimString \<Rightarrow> (MatchResultState \<times> EJSPrimString \<times> EJSPrimString) outcome" where
  "SplitMatch S q R =
     (let r = str_length R; s = str_length S in
      if q + r > s then Return (MATCH_RESULT_FAILURE, S, R)
      else
        bind_outcome (flatten_string S) (\<lambda>S.
        bind_outcome (flatten_string R) (\<lambda>R.
        bind_outcome (compare_at (flat S) (flat R) (int q) r 0) (\<lambda>same.
          Return (if same then MATCH_RESULT_SUCCESS (q + r) else MATCH_RESULT_FAILURE, S, R)))))"

lemma flatten_length: "flatten_string s = Return f \<Longrightarrow> str_length f = str_length s"
  by (cases s) (auto simp: flatten_string_def of_option_def ejs_primstring_flatten_def Let_def split: option.splits if_splits)

lemma SplitMatch_end:
  "SplitMatch S q R = Return (e, S', R') \<Longrightarrow> str_length S' = str_length S \<and> str_length R' = str_length R \<and>
     (e = MATCH_RESULT_FAILURE \<or> e = MATCH_RESULT_SUCCESS (q + str_length R) \<and> q + str_length R \<le> str_length S)"
  by (auto simp: SplitMatch_def Let_def bind_outcome_Return flatten_length split: if_splits)

text \<open>The loop of \<open>split\<close>: \<open>p\<close> is the end of the last separator, \<open>q\<close> the position that is tried and never passes the
  length, \<open>A\<close> the parts so far.  \<open>Inl\<close>: the limit is reached.  Otherwise the end of the last separator and the string
  come with the parts.\<close>

function split_loop ::
  "EJSPrimString \<Rightarrow> EJSPrimString \<Rightarrow> int \<Rightarrow> nat \<Rightarrow> nat \<Rightarrow> EJSPrimString list \<Rightarrow>
     (EJSPrimString list + nat \<times> EJSPrimString \<times> EJSPrimString list) outcome" where
  "split_loop S R lim p q A =
     (if q < str_length S then
        bind_outcome (SplitMatch S q R) (\<lambda>(e, S, R).
          case e of
            MATCH_RESULT_FAILURE \<Rightarrow> split_loop S R lim p (q + 1) A
          | MATCH_RESULT_SUCCESS end' \<Rightarrow>
              if end' = p then split_loop S R lim p (q + 1) A
              else bind_outcome (of_option (ejs_string_new_substring S (int p) (q - p))) (\<lambda>T.
                if int (length A) + 1 = lim then Return (Inl (A @ [T]))
                else split_loop S R lim end' end' (A @ [T])))
      else Return (Inr (p, S, A)))"
  by pat_completeness auto
termination
  by (relation "measures [\<lambda>(S, R, lim, p, q, A). str_length S - q, \<lambda>(S, R, lim, p, q, A). if p = q then 0 else 1]")
    (auto dest!: SplitMatch_end)

declare split_loop.simps [simp del]

text \<open>The separator \<open>undefined\<close> gives the whole string; the receiver is the value itself for a method under the symbol.\<close>

definition ejs_String_prototype_split ::
  "string_env \<Rightarrow> ejsval \<Rightarrow> ejsval list \<Rightarrow> EJSPrimString list delegated outcome" where
  "ejs_String_prototype_split env this args =
     (let separator = arg args 0; limit = arg args 1 in
      bind_outcome
        (if EJSVAL_IS_NULL_IMPL separator \<or> EJSVAL_IS_UNDEFINED_IMPL separator then Return ejs_undefined
         else method_of env separator) (\<lambda>splitter.
      if \<not> EJSVAL_IS_UNDEFINED_IMPL splitter then Return (Delegated splitter)
      else
        bind_outcome (to_string env this) (\<lambda>S.
        bind_outcome
          (if EJSVAL_IS_UNDEFINED_IMPL limit then Return EJS_MAX_SAFE_INTEGER
           else bind_outcome (string_number env limit) (\<lambda>d. of_option (ToLength d))) (\<lambda>lim.
        bind_outcome (to_string env separator) (\<lambda>R.
        if lim = 0 then Return (Own [])
        else if EJSVAL_IS_UNDEFINED_IMPL separator then Return (Own [S])
        else if str_length S = 0 then
          bind_outcome (SplitMatch S 0 R) (\<lambda>(z, S, R). Return (Own (if z = MATCH_RESULT_FAILURE then [S] else [])))
        else
          bind_outcome (split_loop S R lim 0 0 []) (\<lambda>r.
            case r of
              Inl A \<Rightarrow> Return (Own A)
            | Inr (p, S, A) \<Rightarrow>
                bind_outcome (of_option (ejs_string_new_substring S (int p) (str_length S - p))) (\<lambda>T.
                  Return (Own (A @ [T])))))))))"

section \<open>Functions of the constructor\<close>

definition ToUint16 :: "double \<Rightarrow> jschar outcome" where
  "ToUint16 d =
     (if isnan d \<or> isinf d \<or> dbl_trunc d < 0 \<or> dbl_trunc d \<ge> 2 ^ 16 then Aborts
      else Return (word_of_int (dbl_trunc d)))"

fun char_codes :: "string_env \<Rightarrow> ejsval list \<Rightarrow> jschar list outcome" where
  "char_codes env [] = Return []"
| "char_codes env (v # vs) =
     bind_outcome (bind_outcome (string_number env v) ToUint16) (\<lambda>c.
     bind_outcome (char_codes env vs) (\<lambda>cs. Return (c # cs)))"

definition ejs_String_fromCharCode :: "string_env \<Rightarrow> ejsval list \<Rightarrow> EJSPrimString outcome" where
  "ejs_String_fromCharCode env args =
     bind_outcome (char_codes env args) (\<lambda>buf. of_option (ejs_string_new_ucs2 (buf @ [0])))"

definition codepoint_to_codeunits :: "int \<Rightarrow> jschar list outcome" where
  "codepoint_to_codeunits codepoint =
     (if codepoint < 0 \<or> codepoint > 0x10FFFF then Aborts
      else if codepoint \<le> 65535 then Return [word_of_int codepoint]
      else Return [word_of_int ((codepoint - 0x10000) div 1024 + 0xD800),
                   word_of_int ((codepoint - 0x10000) mod 1024) + 0xDC00])"

text \<open>\<open>ToDouble(nextCP) != ToInteger(nextCP)\<close> holds exactly of the numbers that are not integers.\<close>

fun code_points :: "string_env \<Rightarrow> ejsval list \<Rightarrow> jschar list outcome" where
  "code_points env [] = Return []"
| "code_points env (v # vs) =
     bind_outcome (string_number env v) (\<lambda>nextCP.
     bind_outcome (of_option (ToInteger nextCP)) (\<lambda>cp.
     if \<not> is_integral nextCP then Throws RangeError
     else if cp < 0 \<or> cp > 0x10FFFF then Throws RangeError
     else
       bind_outcome (codepoint_to_codeunits cp) (\<lambda>units.
       bind_outcome (code_points env vs) (\<lambda>cs. Return (units @ cs)))))"

definition ejs_String_fromCodePoint :: "string_env \<Rightarrow> ejsval list \<Rightarrow> EJSPrimString outcome" where
  "ejs_String_fromCodePoint env args =
     (if length args = 0 then Return atom_empty
      else bind_outcome (code_points env args) (\<lambda>elements.
        of_option (ejs_string_new_ucs2_len elements (length elements))))"

text \<open>\<open>String.raw\<close>: the segments that the loop collects, which are then joined with the empty string; \<open>segment\<close> is
  \<open>ToString(Get(raw, ToString(i)))\<close>, \<open>n\<close> the number of segments that are left.\<close>

fun raw_loop ::
  "string_env \<Rightarrow> (int \<Rightarrow> EJSPrimString outcome) \<Rightarrow> ejsval list \<Rightarrow> int \<Rightarrow> nat \<Rightarrow> EJSPrimString list outcome" where
  "raw_loop env segment substitutions nextIndex 0 = Aborts"
| "raw_loop env segment substitutions nextIndex (Suc n) =
     bind_outcome (segment nextIndex) (\<lambda>nextSeg.
     if n = 0 then Return [nextSeg]
     else
       bind_outcome
         (if nextIndex < int (length substitutions) then to_string env (substitutions ! nat nextIndex)
          else Return atom_empty) (\<lambda>nextSub.
       bind_outcome (raw_loop env segment substitutions (nextIndex + 1) n) (\<lambda>rest. Return (nextSeg # nextSub # rest))))"

definition ejs_String_raw ::
  "string_env \<Rightarrow> (ejsval \<Rightarrow> (ejsval \<times> (int \<Rightarrow> EJSPrimString outcome)) outcome) \<Rightarrow> (EJSPrimString list \<Rightarrow> EJSPrimString outcome) \<Rightarrow>
     ejsval list \<Rightarrow> EJSPrimString outcome" where
  "ejs_String_raw env raw_object join args =
     bind_outcome (raw_object (arg args 0)) (\<lambda>(len, segment).
     bind_outcome (string_integer env len) (\<lambda>literalSegments.
     if literalSegments \<le> 0 then Return atom_empty
     else bind_outcome (raw_loop env segment (tl args) 0 (nat literalSegments)) join))"

section \<open>Repetition\<close>

fun repeat_loop :: "EJSPrimString \<Rightarrow> EJSPrimString \<Rightarrow> nat \<Rightarrow> EJSPrimString outcome" where
  "repeat_loop T S 0 = Return T"
| "repeat_loop T S (Suc n) = bind_outcome (of_option (ejs_string_concat T S)) (\<lambda>T. repeat_loop T S n)"

definition ejs_String_prototype_repeat :: "string_env \<Rightarrow> ejsval \<Rightarrow> ejsval list \<Rightarrow> EJSPrimString outcome" where
  "ejs_String_prototype_repeat env this args =
     bind_outcome (object_string env this) (\<lambda>S.
     bind_outcome (string_number env (arg args 0)) (\<lambda>d.
     if isinf d then Throws RangeError
     else
       bind_outcome (of_option (double_to_int64 d)) (\<lambda>n.
       if n < 0 then Throws RangeError
       else if n = 0 then Return atom_empty
       else repeat_loop S S (nat (n - 1)))))"

section \<open>The iterator\<close>

text \<open>\<open>iterated\<close> is \<open>None\<close> once the end was reached.  \<open>next_index\<close> is the 32-bit index.\<close>

record EJSStringIterator =
  iterated :: "EJSPrimString option"
  next_index :: nat

definition ejs_string_iterator_new :: "EJSPrimString \<Rightarrow> EJSStringIterator" where
  "ejs_string_iterator_new s = \<lparr>iterated = Some s, next_index = 0\<rparr>"

definition ejs_String_prototype_iterator :: "string_env \<Rightarrow> ejsval \<Rightarrow> EJSStringIterator outcome" where
  "ejs_String_prototype_iterator env this =
     (if \<not> EJSVAL_IS_STRING_IMPL this \<and> EJSVAL_IS_OBJECT_IMPL this \<noteq> Some True \<and> \<not> EJSVAL_IS_NULL_IMPL this then Throws TypeError
      else bind_outcome (to_string env this) (\<lambda>S. Return (ejs_string_iterator_new S)))"

text \<open>The result is the next string, or \<open>None\<close> when the iteration is done.\<close>

definition ejs_StringIterator_prototype_next ::
  "EJSStringIterator \<Rightarrow> (EJSPrimString option \<times> EJSStringIterator) outcome" where
  "ejs_StringIterator_prototype_next O' =
     (case iterated O' of
        None \<Rightarrow> Return (None, O')
      | Some s \<Rightarrow>
          let position' = next_index O'; len = str_length s in
          if position' \<ge> len then Return (None, O'\<lparr>iterated := None\<rparr>)
          else
            bind_outcome (of_option (ejs_string_ucs2_at s position')) (\<lambda>first.
            bind_outcome
              (if first < 0xD800 \<or> first > 0xDBFF \<or> position' + 1 = len then Return [first]
               else bind_outcome (of_option (ejs_string_ucs2_at s (position' + 1))) (\<lambda>second.
                 Return (if second < 0xDC00 \<or> second > 0xDFFF then [first] else [first, second]))) (\<lambda>chars.
            bind_outcome (of_option (ejs_string_new_ucs2_len chars (length chars))) (\<lambda>resultString.
              Return (Some resultString, O'\<lparr>next_index := position' + length chars\<rparr>)))))"

section \<open>String objects\<close>

definition ejs_string_specop_get ::
  "strings \<Rightarrow> EJSPrimString \<Rightarrow> ejsval \<Rightarrow> (EJSPrimString + ejsval) handled outcome" where
  "ejs_string_specop_get strs prim propertyName =
     (if EJSVAL_IS_DOUBLE_IMPL propertyName \<and> is_integral propertyName then
        bind_outcome (double_to_int propertyName) (\<lambda>idx.
        if idx < 0 \<or> idx \<ge> int (str_length prim) then Return (Handled (Inr ejs_undefined))
        else
          bind_outcome (of_option (ejs_string_ucs2_at prim (nat idx))) (\<lambda>c.
          bind_outcome (of_option (ejs_string_new_ucs2_len [c] 1)) (\<lambda>s. Return (Handled (Inl s)))))
      else if EJSVAL_IS_STRING_IMPL propertyName \<and>
          Option.bind (EJSVAL_TO_FLAT_STRING strs propertyName) (strcmp_loop length_name) = Some 0 then
        Return (Handled (Inr (int_value (int (str_length prim)))))
      else Return Ordinary)"

definition ejs_string_specop_scan :: "ejsval \<Rightarrow> ejsval list \<Rightarrow> ejsval list" where
  "ejs_string_specop_scan prim object_values = prim # object_values"

definition ejs_string_iterator_specop_scan :: "ejsval \<Rightarrow> ejsval list \<Rightarrow> ejsval list" where
  "ejs_string_iterator_specop_scan s object_values = s # object_values"

end
