(* ===== verification/StringLaws.thy ===== *)
theory StringLaws
  imports StringBuilders ArrayLaws
begin

text \<open>
  What the string methods compute, in terms of the characters of a string (\<open>content\<close>): characters and code points,
  searching, parts, trimming, splitting and replacing.
\<close>

section \<open>Characters and flat strings\<close>

lemma ucs2_at_content: "wf_str s \<Longrightarrow> i < str_length s \<Longrightarrow> ejs_string_ucs2_at s i = Some (content s ! i)"
proof (induction s arbitrary: i)
  case (EJS_STRING_ROPE n h l r)
  then show ?case using wf_length [of l] wf_length [of r] by (auto simp: nth_append)
next
  case (EJS_STRING_DEPENDENT n h d doff)
  then have "u32 (int i + doff) = nat doff + i" "nat doff + i < str_length d"
    using wf_length [of d] by (auto simp: u32_small nat_add_distrib)
  then show ?case using EJS_STRING_DEPENDENT wf_length [of d] by (auto simp: add.commute)
qed auto

definition flat_of :: "EJSPrimString \<Rightarrow> EJSPrimString \<Rightarrow> bool" where
  "flat_of f s \<longleftrightarrow> wf_str f \<and> dep_base f \<and> flattenable f \<and> ejs_primstring_flatten f = Some f \<and>
     content f = content s \<and> str_length f = str_length s \<and> (\<exists>rest. flat f = content s @ 0 # rest)"

lemma flatten_flat_of:
  assumes "wf_str s" "flattenable s"
  shows "\<exists>f. flatten_string s = Return f \<and> flat_of f s"
proof -
  obtain f where f: "ejs_primstring_flatten s = Some f" "content f = content s" "wf_str f" "str_length f = str_length s"
    "flat f ! str_length s = 0"
    using flatten_correct [OF assms] by blast
  obtain n h ool buf where ff: "f = EJS_STRING_FLAT n h ool buf"
    using f(1) by (cases s) (auto simp: ejs_primstring_flatten_def Let_def split: option.splits if_splits prod.splits)
  then have "flat f = content s @ 0 # drop (Suc n) buf"
    using f id_take_nth_drop [of n buf] by auto
  then show ?thesis using f ff
    by (auto simp: flat_of_def flatten_string_def of_option_def ejs_primstring_flatten_def)
qed

lemma flat_of_flatten: "flat_of f s \<Longrightarrow> flatten_string f = Return f"
  by (simp add: flat_of_def flatten_string_def of_option_def)

lemma flat_of_refl: "flat_of f s \<Longrightarrow> flat_of f f"
  by (auto simp: flat_of_def)

lemma char_at_content: "flat_of f s \<Longrightarrow> 0 \<le> i \<Longrightarrow> i < int (length (content s)) \<Longrightarrow> char_at (flat f) i = Return (content s ! nat i)"
  by (auto simp: flat_of_def char_at_def nth_append)

lemma flat_of_length: "flat_of f s \<Longrightarrow> length (content s) = str_length s"
  using wf_length [of f] by (auto simp: flat_of_def)

lemma substring_flat:
  assumes "flat_of f s" "off + len \<le> str_length s"
  shows "\<exists>t. ejs_string_new_substring f (int off) len = Some t \<and> wf_str t \<and> flattenable t \<and> dep_base t \<and>
    content t = take len (drop off (content s))"
  using string_substring_content [of f "int off" len] assms by (auto simp: flat_of_def)

text \<open>Comparing a search string with the characters from a position on.\<close>

lemma compare_at_content:
  assumes "flat_of f s" "flat_of g t" "start + length (content t) \<le> length (content s)" "n = length (content t)"
  shows "i \<le> n \<Longrightarrow> compare_at (flat f) (flat g) (int start) n i = Return (drop i (content t) = take (n - i) (drop (start + i) (content s)))"
proof (induction "n - i" arbitrary: i)
  case 0
  then show ?case using assms(4) by (simp add: compare_at.simps)
next
  case (Suc m)
  then have i: "i < length (content t)" "start + i < length (content s)" using assms(3,4) by auto
  have "drop i (content t) = content t ! i # drop (Suc i) (content t)" using i by (simp add: Cons_nth_drop_Suc)
  moreover have "take (n - i) (drop (start + i) (content s)) = content s ! (start + i) # take (n - Suc i) (drop (start + Suc i) (content s))"
    using i Suc.hyps(2) by (simp add: Cons_nth_drop_Suc [symmetric] take_Cons' assms(4) Suc_diff_Suc)
  moreover have "nat (int i + int start) = start + i" by simp
  ultimately show ?case
    using Suc i char_at_content [OF assms(1), of "int i + int start"] char_at_content [OF assms(2), of "int i"]
    by (subst compare_at.simps) (auto simp: assms(4))
qed

lemma prefix_iff_take: "prefix ys xs \<longleftrightarrow> ys = take (length ys) xs"
proof
  assume "ys = take (length ys) xs"
  then have "xs = ys @ drop (length ys) xs" by (metis append_take_drop_id)
  then show "prefix ys xs" by (rule prefixI)
qed (auto simp: prefix_def)

lemma suffix_iff_drop: "length ys \<le> length xs \<Longrightarrow> suffix ys xs \<longleftrightarrow> drop (length xs - length ys) xs = ys"
  by (metis append_eq_conv_conj diff_diff_cancel drop_append length_append length_drop suffix_def suffix_drop add_diff_cancel_right')

lemma compare_at_prefix:
  assumes "flat_of f s" "flat_of g t" "start + str_length t \<le> str_length s"
  shows "compare_at (flat f) (flat g) (int start) (str_length t) 0 = Return (prefix (content t) (drop start (content s)))"
proof -
  have "length (content s) = str_length s" "length (content t) = str_length t"
    using flat_of_length [OF assms(1)] flat_of_length [OF assms(2)] by simp_all
  note len = this
  have "compare_at (flat f) (flat g) (int start) (str_length t) 0 =
      Return (drop 0 (content t) = take (str_length t - 0) (drop (start + 0) (content s)))"
    by (rule compare_at_content [OF assms(1,2)]) (use assms(3) len in simp_all)
  then show ?thesis unfolding prefix_iff_take len(2) drop_0 add_0_right minus_nat.diff_0 .
qed

section \<open>Searching\<close>

lemma strstr_terminated:
  assumes "0 \<in> set haystack" "0 \<in> set needle"
  shows "ucs2_strstr haystack needle =
    Some (if chars needle = [] then None else first_occurrence (chars needle) haystack)"
proof -
  obtain nc n where needle: "needle = nc # n" using assms(2) by (cases needle) auto
  then show ?thesis
    using assms strstr_empty_needle strstr_loop_spec [of nc n haystack]
    by (cases "nc = 0") (simp_all add: ucs2_strstr_def)
qed

text \<open>The first position at which a text occurs.\<close>

fun occurs_at :: "jschar list \<Rightarrow> jschar list \<Rightarrow> nat option" where
  "occurs_at nd [] = (if nd = [] then Some 0 else None)"
| "occurs_at nd (c # xs) = (if prefix nd (c # xs) then Some 0 else map_option Suc (occurs_at nd xs))"

lemma occurs_at_least:
  "occurs_at nd xs = Some k \<longleftrightarrow> k \<le> length xs \<and> prefix nd (drop k xs) \<and> (\<forall>j<k. \<not> prefix nd (drop j xs))"
proof (induction nd xs arbitrary: k rule: occurs_at.induct)
  case (1 nd)
  then show ?case by auto
next
  case (2 nd c xs)
  have all: "(\<forall>j<Suc m. P j) \<longleftrightarrow> P 0 \<and> (\<forall>j<m. P (Suc j))" for P m by (auto simp: less_Suc_eq_0_disj)
  show ?case using 2 by (cases k) (auto simp: all)
qed

lemma occurs_at_None: "occurs_at nd xs = None \<longleftrightarrow> \<not> sublist nd xs"
proof (induction nd xs rule: occurs_at.induct)
  case (2 nd c xs)
  then show ?case by (auto simp: sublist_Cons_right)
qed auto

lemma first_occurrence_at:
  "0 \<notin> set xs \<Longrightarrow> nd \<noteq> [] \<Longrightarrow> first_occurrence nd (xs @ 0 # rest) = map_option (\<lambda>k. drop k (xs @ 0 # rest)) (occurs_at nd xs)"
proof (induction xs)
  case (Cons c xs)
  then have "chars (c # xs @ 0 # rest) = c # xs" using chars_append [of "c # xs" "0 # rest"] by simp
  then show ?case using Cons by (auto simp: option.map_comp comp_def)
qed auto

lemma strstr_content:
  assumes "flat_of f s" "flat_of g t" "0 \<notin> set (content s)" "0 \<notin> set (content t)" "k \<le> str_length s"
  shows "ucs2_strstr (drop k (flat f)) (flat g) =
    Some (if content t = [] then None
          else map_option (\<lambda>j. drop (k + j) (flat f)) (occurs_at (content t) (drop k (content s))))"
proof -
  obtain r1 r2 where r: "flat f = content s @ 0 # r1" "flat g = content t @ 0 # r2" using assms by (auto simp: flat_of_def)
  have k: "k \<le> length (content s)" using assms flat_of_length by simp
  then have d: "drop k (flat f) = drop k (content s) @ 0 # r1" by (simp add: r)
  have "chars (flat g) = content t" using assms(4) r by (simp add: chars_append)
  moreover have "0 \<in> set (drop k (flat f))" "0 \<in> set (flat g)" by (simp_all add: d r(2))
  ultimately have st: "ucs2_strstr (drop k (flat f)) (flat g) =
      Some (if content t = [] then None else first_occurrence (content t) (drop k (flat f)))"
    using strstr_terminated by metis
  have "0 \<notin> set (drop k (content s))" using assms(3) by (meson in_set_dropD)
  then have "content t \<noteq> [] \<Longrightarrow> first_occurrence (content t) (drop k (flat f)) =
      map_option (\<lambda>j. drop j (drop k (flat f))) (occurs_at (content t) (drop k (content s)))"
    using first_occurrence_at [of "drop k (content s)" "content t" r1] by (simp only: d simp_thms)
  then show ?thesis using st by (simp add: add.commute)
qed

text \<open>A flat string with given characters, and an environment in which \<open>true\<close> and every other value convert to given
  strings.\<close>

definition plain_text :: "jschar list \<Rightarrow> EJSPrimString" where
  "plain_text cs = EJS_STRING_FLAT (length cs) None False (cs @ [0])"

lemma plain_text_facts [simp]:
  "content (plain_text cs) = cs" "str_length (plain_text cs) = length cs" "flattenable (plain_text cs)" "dep_base (plain_text cs)"
  "wf_str (plain_text cs) \<longleftrightarrow> length cs < 2 ^ 31" "flat (plain_text cs) = cs @ [0]"
  by (auto simp: plain_text_def nth_append)

definition text_env :: "jschar list \<Rightarrow> jschar list \<Rightarrow> string_env" where
  "text_env s t = \<lparr>to_string = (\<lambda>v. Return (plain_text (if v = ejs_true then s else t))),
     object_string = (\<lambda>v. Return (plain_text (if v = ejs_true then s else t))), string_number = Return,
     string_store = (\<lambda>_. None), primStr = (\<lambda>_. None), is_regexp = (\<lambda>_. Return False),
     method_of = (\<lambda>_. Return ejs_undefined)\<rparr>"

lemma text_env_fields [simp]:
  "to_string (text_env s t) v = Return (plain_text (if v = ejs_true then s else t))"
  "object_string (text_env s t) v = Return (plain_text (if v = ejs_true then s else t))"
  "string_number (text_env s t) v = Return v" "is_regexp (text_env s t) v = Return False"
  "method_of (text_env s t) v = Return ejs_undefined"
  by (simp_all add: text_env_def)

lemma constant_values [simp]:
  "\<not> EJSVAL_IS_UNDEFINED_IMPL ejs_true" "\<not> EJSVAL_IS_UNDEFINED_IMPL ejs_false" "EJSVAL_IS_UNDEFINED_IMPL ejs_undefined"
  "\<not> EJSVAL_IS_NULL_IMPL ejs_true" "\<not> EJSVAL_IS_NULL_IMPL ejs_false" "\<not> EJSVAL_IS_NULL_IMPL ejs_undefined" "ejs_false \<noteq> ejs_true"
  by code_simp+

lemma text_env_integer: "\<bar>i\<bar> < 2 ^ 53 \<Longrightarrow> string_integer (text_env s t) (int_value i) = Return i"
  using of_int_finite [of i] trunc_of_int [of i]
  by (auto simp: string_integer_def ToInteger_def double_to_int64_def of_option_def int_value_def)

text \<open>C19: startsWith, endsWith and includes, called with a search string and a position that is not undefined, for strings that
  flatten properly (no part of a rope that has parts of other strings in it).  With the position clamped to the
  string, startsWith tells whether the search string is a prefix of what follows it, endsWith whether it is a suffix
  of what precedes it, and, if neither string has a NUL, includes tells whether a search string that is not empty
  occurs after it (for the empty one it answers false).  A regular expression as search string is a TypeError.\<close>

theorem search_methods_exact:
  assumes "object_string env this = Return s" "is_regexp env P = Return False" "to_string env P = Return t"
    "wf_str s" "flattenable s" "wf_str t" "flattenable t" "string_integer env N = Return i" "\<not> EJSVAL_IS_UNDEFINED_IMPL N"
    "k = nat (min (max i 0) (int (str_length s)))"
  shows "ejs_String_prototype_startsWith env this [P, N] = Return (prefix (content t) (drop k (content s))) \<and>
    ejs_String_prototype_endsWith env this [P, N] = Return (suffix (content t) (take k (content s))) \<and>
    (0 \<notin> set (content s) \<and> 0 \<notin> set (content t) \<longrightarrow>
      ejs_String_prototype_includes env this [P, N] = Return (content t \<noteq> [] \<and> sublist (content t) (drop k (content s)))) \<and>
    (\<forall>Q. is_regexp env Q = Return True \<longrightarrow>
      ejs_String_prototype_startsWith env this [Q, N] = Throws TypeError \<and>
      ejs_String_prototype_endsWith env this [Q, N] = Throws TypeError \<and>
      ejs_String_prototype_includes env this [Q, N] = Throws TypeError)"
proof -
  obtain f where f: "flatten_string s = Return f" "flat_of f s" using flatten_flat_of [OF assms(4,5)] by auto
  obtain g where g: "flatten_string t = Return g" "flat_of g t" using flatten_flat_of [OF assms(6,7)] by auto
  have len: "length (content s) = str_length s" "length (content t) = str_length t"
    using flat_of_length [OF f(2)] flat_of_length [OF g(2)] by simp_all
  have k: "k \<le> str_length s" "min (max i 0) (int (str_length s)) = int k" using assms(10) by simp_all
  have args: "arg [P, N] 0 = P" "arg [P, N] (Suc 0) = N" by (simp_all add: arg_def)
  have search: "search_string env P = Return t" using assms(2,3) by (simp add: search_string_def)
  have "ejs_String_prototype_startsWith env this [P, N] = Return (prefix (content t) (drop k (content s)))"
  proof (cases "str_length t + k \<le> str_length s")
    case True
    then show ?thesis using compare_at_prefix [OF f(2) g(2), of k] assms(1,8) search f(1) g(1) args k
      by (simp add: ejs_String_prototype_startsWith_def Let_def)
  next
    case False
    then have "\<not> prefix (content t) (drop k (content s))" using prefix_length_le [of "content t" "drop k (content s)"] len k(1) by auto
    then show ?thesis using False assms(1,8) search args k by (simp add: ejs_String_prototype_startsWith_def Let_def)
  qed
  moreover have "ejs_String_prototype_endsWith env this [P, N] = Return (suffix (content t) (take k (content s)))"
  proof (cases "str_length t \<le> k")
    case True
    define j where "j = k - str_length t"
    have j: "int k - int (str_length t) = int j" "j + str_length t \<le> str_length s" "j + str_length t = k" using True k by (auto simp: j_def)
    have "suffix (content t) (take k (content s)) \<longleftrightarrow> drop j (take k (content s)) = content t"
      using suffix_iff_drop [of "content t" "take k (content s)"] j k(1) len by (simp add: min_absorb1 flip: j_def)
    also have "\<dots> \<longleftrightarrow> prefix (content t) (drop j (content s))"
      unfolding prefix_iff_take using j(3) len by (auto simp: drop_take)
    finally show ?thesis using compare_at_prefix [OF f(2) g(2) j(2)] assms(1,8,9) search f(1) g(1) args k j(1)
      by (simp add: ejs_String_prototype_endsWith_def Let_def)
  next
    case False
    then have "\<not> suffix (content t) (take k (content s))" using suffix_length_le [of "content t" "take k (content s)"] len k(1) by auto
    then show ?thesis using False assms(1,8,9) search args k by (simp add: ejs_String_prototype_endsWith_def Let_def)
  qed
  moreover have "ejs_String_prototype_includes env this [P, N] = Return (content t \<noteq> [] \<and> sublist (content t) (drop k (content s)))"
    if "0 \<notin> set (content s)" "0 \<notin> set (content t)"
  proof -
    have "occurs_at (content t) (drop k (content s)) = None \<longleftrightarrow> \<not> sublist (content t) (drop k (content s))" by (rule occurs_at_None)
    then show ?thesis using strstr_content [OF f(2) g(2) that k(1)] assms(1,8) search f(1) g(1) args k(2)
      by (simp add: ejs_String_prototype_includes_def Let_def of_option_def del: not_None_eq)
  qed
  moreover have "ejs_String_prototype_startsWith env this [Q, N] = Throws TypeError \<and>
      ejs_String_prototype_endsWith env this [Q, N] = Throws TypeError \<and>
      ejs_String_prototype_includes env this [Q, N] = Throws TypeError" if "is_regexp env Q = Return True" for Q
    using that assms(1)
    by (simp add: ejs_String_prototype_startsWith_def ejs_String_prototype_endsWith_def ejs_String_prototype_includes_def
        search_string_def arg_def)
  ultimately show ?thesis by blast
qed

theorem search_methods_exact_witness:
  "ejs_String_prototype_endsWith (text_env [97, 98, 99] [98]) ejs_true [ejs_false, int_value 2] = Return True"
proof -
  have "\<not> EJSVAL_IS_UNDEFINED_IMPL (int_value 2)" using double_not_tagged [OF int_value_facts(1) [of 2]] by simp
  moreover have "string_integer (text_env [97, 98, 99] [98]) (int_value 2) = Return 2" by (rule text_env_integer) simp
  ultimately have "ejs_String_prototype_endsWith (text_env [97, 98, 99] [98]) ejs_true [ejs_false, int_value 2] =
      Return (suffix (content (plain_text [98])) (take 2 (content (plain_text [97, 98, 99]))))"
    by (intro search_methods_exact [of "text_env [97, 98, 99] [98]" ejs_true "plain_text [97, 98, 99]" ejs_false
          "plain_text [98]" "int_value 2" 2 2, THEN conjunct2, THEN conjunct1]) simp_all
  then show ?thesis by (simp add: suffix_iff_drop)
qed

end
