(* ===== verification/StringPartLaws.thy ===== *)
theory StringPartLaws
  imports StringLaws
begin

text \<open>
  The parts of strings: substring, slice, substr, trim and split.
\<close>

section \<open>Substrings\<close>

lemma string_part:
  assumes "wf_str s" "dep_base s" "0 \<le> off" "off + int len \<le> int (str_length s)"
  shows "\<exists>t. of_option (ejs_string_new_substring s off len) = Return t \<and> wf_str t \<and> content t = take len (drop (nat off) (content s))"
  using string_substring_content [OF assms] by (auto simp: of_option_def)

lemma take_drop_clamped:
  assumes "length xs = n"
  shows "take (min n hi - min n lo) (drop (min n lo) xs) = drop lo (take hi xs)"
  using assms by (cases "lo \<le> n"; cases "hi \<le> n") (simp_all add: drop_take)

text \<open>C20: substring, slice and substr, called with two arguments that are not undefined, on a string that is flat, a rope of flat
  strings, or a part of such a string (of other strings the wrong characters are taken).  For positions in the range
  of int, substring takes the characters between its arguments, each clamped to the string and in either order;
  slice counts negative positions from the end and is empty when they are in the wrong order; substr takes a number
  of characters from its first argument on, which counts from the end if it is negative.\<close>

theorem string_parts_exact:
  assumes "to_string env this = Return s" "\<not> EJSVAL_IS_NULL_IMPL this" "\<not> EJSVAL_IS_UNDEFINED_IMPL this"
    "wf_str s" "dep_base s" "n = str_length s"
    "string_integer env A = Return a" "string_integer env B = Return b" "\<bar>a\<bar> \<le> INT_MAX" "\<bar>b\<bar> \<le> INT_MAX"
    "\<not> EJSVAL_IS_UNDEFINED_IMPL A" "\<not> EJSVAL_IS_UNDEFINED_IMPL B"
  shows "(\<exists>t. ejs_String_prototype_substring env this [A, B] = Return t \<and> wf_str t \<and>
      content t = drop (min (nat a) (nat b)) (take (max (nat a) (nat b)) (content s))) \<and>
    (\<exists>t. ejs_String_prototype_slice env this [A, B] = Return t \<and> wf_str t \<and>
      content t = drop (position n a) (take (position n b) (content s))) \<and>
    (\<exists>t. ejs_String_prototype_substr env this [A, B] = Return t \<and> wf_str t \<and>
      content t = take (nat b) (drop (nat (if a < 0 then int n + a else a)) (content s)))"
proof -
  have c: "c_int a = a" "c_int b = b" using assms(9,10) by (auto intro!: c_int_id)
  have len: "length (content s) = n" using wf_length [OF assms(4)] assms(6) by simp
  have args: "arg [A, B] 0 = A" "arg [A, B] (Suc 0) = B" by (simp_all add: arg_def)
  define x y where "x = min (max a 0) (int n)" and "y = min (max b 0) (int n)"
  have xy: "0 \<le> x" "x \<le> int n" "0 \<le> y" "y \<le> int n" by (simp_all add: x_def y_def)
  define lo hi where "lo = min x y" and "hi = max x y"
  have lh: "0 \<le> lo" "lo + int (nat (hi - lo)) \<le> int (str_length s)" using xy assms(6) by (simp_all add: lo_def hi_def)
  have "take (nat (hi - lo)) (drop (nat lo) (content s)) = drop (min (nat a) (nat b)) (take (max (nat a) (nat b)) (content s))"
  proof -
    have n: "nat x = min n (nat a)" "nat y = min n (nat b)" by (auto simp: x_def y_def min_def max_def)
    have "nat lo = min (nat x) (nat y)" "nat hi = max (nat x) (nat y)" using xy by (auto simp: lo_def hi_def min_def max_def)
    then have "nat lo = min n (min (nat a) (nat b))" "nat hi = min n (max (nat a) (nat b))" using n by (auto simp: min_def max_def)
    moreover have "nat (hi - lo) = nat hi - nat lo" using lh(1) by (simp add: nat_diff_distrib')
    ultimately show ?thesis using take_drop_clamped [OF len] by presburger
  qed
  then have "\<exists>t. ejs_String_prototype_substring env this [A, B] = Return t \<and> wf_str t \<and>
      content t = drop (min (nat a) (nat b)) (take (max (nat a) (nat b)) (content s))"
    using string_part [OF assms(4,5) lh] assms(1-3,7,8,12) args c unfolding lo_def hi_def x_def y_def
    by (simp add: ejs_String_prototype_substring_def Let_def assms(6))
  moreover have "\<exists>t. ejs_String_prototype_slice env this [A, B] = Return t \<and> wf_str t \<and>
      content t = drop (position n a) (take (position n b) (content s))"
  proof -
    have p: "(if a < 0 then max (int n + a) 0 else min a (int n)) = int (position n a)"
      "(if b < 0 then max (int n + b) 0 else min b (int n)) = int (position n b)" by (auto simp: position_def)
    have eq: "ejs_String_prototype_slice env this [A, B] =
        of_option (ejs_string_new_substring s (int (position n a)) (nat (max (int (position n b) - int (position n a)) 0)))"
      unfolding p [symmetric] using assms(1,7,8,11,12) args c by (simp add: ejs_String_prototype_slice_def Let_def assms(6))
    have k: "nat (max (int (position n b) - int (position n a)) 0) = position n b - position n a" by simp
    have "int (position n a) + int (position n b - position n a) \<le> int (str_length s)"
      using position_le [of n a] position_le [of n b] assms(6) by auto
    then show ?thesis
      using string_part [OF assms(4,5), of "int (position n a)" "position n b - position n a"]
      unfolding eq k by (simp add: drop_take)
  qed
  moreover have "\<exists>t. ejs_String_prototype_substr env this [A, B] = Return t \<and> wf_str t \<and>
      content t = take (nat b) (drop (nat (if a < 0 then int n + a else a)) (content s))"
  proof -
    define o' where "o' = (if a \<ge> 0 then a else max (int n + a) 0)"
    define k where "k = min (max b 0) (int n - o')"
    have o': "0 \<le> o'" "nat o' = nat (if a < 0 then int n + a else a)" by (auto simp: o'_def)
    have eq: "ejs_String_prototype_substr env this [A, B] =
        (if k \<le> 0 then Return atom_empty else of_option (ejs_string_new_substring s o' (nat k)))"
      by (simp only: ejs_String_prototype_substr_def assms(1,7,8,12) args c bind_outcome.simps Let_def if_False o'_def k_def
          assms(6) One_nat_def)
    show ?thesis
    proof (cases "k \<le> 0")
      case True
      then have "b \<le> 0 \<or> n \<le> nat o'" by (auto simp: k_def)
      then have "take (nat b) (drop (nat o') (content s)) = []" using len by auto
      then show ?thesis using eq True o'(2) by (simp add: atom_empty_def)
    next
      case False
      then have "take (nat k) (drop (nat o') (content s)) = take (nat b) (drop (nat o') (content s))"
        using len o' by (auto simp: k_def min_def nat_diff_distrib)
      moreover have "k \<le> int n - o'" by (simp add: k_def)
      moreover have "int (nat k) = k" using False by simp
      ultimately have "o' + int (nat k) \<le> int (str_length s)"
        "take (nat k) (drop (nat o') (content s)) = take (nat b) (drop (nat o') (content s))" using assms(6) by auto
      then show ?thesis
        using eq False string_part [OF assms(4,5) o'(1), of "nat k"] unfolding o'(2) by simp
    qed
  qed
  ultimately show ?thesis by simp
qed

theorem string_parts_exact_witness:
  "\<exists>t. ejs_String_prototype_slice (text_env [97, 98, 99] []) ejs_true [int_value 1, int_value (- 1)] = Return t \<and> content t = [98]"
proof -
  have u: "\<not> EJSVAL_IS_UNDEFINED_IMPL (int_value 1)" "\<not> EJSVAL_IS_UNDEFINED_IMPL (int_value (- 1))"
    using double_not_tagged [OF int_value_facts(1) [of 1]] double_not_tagged [OF int_value_facts(1) [of "- 1"]] by simp_all
  have i: "string_integer (text_env [97, 98, 99] []) (int_value 1) = Return 1"
    "string_integer (text_env [97, 98, 99] []) (int_value (- 1)) = Return (- 1)"
    by (simp_all add: text_env_integer)
  show ?thesis
    using string_parts_exact [of "text_env [97, 98, 99] []" ejs_true "plain_text [97, 98, 99]" 3, OF _ _ _ _ _ _ i _ _ u,
        THEN conjunct2, THEN conjunct1]
    by (auto simp: position_def INT_MAX_def)
qed

section \<open>Trimming\<close>

lemma leading_loop_spec:
  assumes "flat_of f s"
  shows "k \<le> str_length s \<Longrightarrow> leading_loop (flat f) (str_length s) k = Return (k + length (takeWhile IsWhitespace (drop k (content s))))"
proof (induction "str_length s - k" arbitrary: k)
  case 0
  then show ?case using flat_of_length [OF assms] by (simp add: leading_loop.simps)
next
  case (Suc m)
  then have k: "k < length (content s)" using flat_of_length [OF assms] by simp
  then have "drop k (content s) = content s ! k # drop (Suc k) (content s)" by (simp add: Cons_nth_drop_Suc)
  then show ?case
    using Suc k char_at_content [OF assms, of "int k"] flat_of_length [OF assms] by (subst leading_loop.simps) auto
qed

lemma trailing_loop_spec:
  assumes "flat_of f s" "\<not> list_all IsWhitespace (content s)"
  shows "list_all IsWhitespace (take k (rev (content s))) \<Longrightarrow>
    trailing_loop (flat f) (str_length s) k = Return (k + length (takeWhile IsWhitespace (drop k (rev (content s)))))"
proof (induction "str_length s - k" arbitrary: k)
  case 0
  then have "list_all IsWhitespace (rev (content s))" using flat_of_length [OF assms(1)] by simp
  then show ?case using assms(2) by (simp add: list_all_rev)
next
  case (Suc m)
  define xs where "xs = rev (content s)"
  have k: "k < length xs" "length xs = str_length s" using Suc flat_of_length [OF assms(1)] by (simp_all add: xs_def)
  then have d: "drop k xs = xs ! k # drop (Suc k) xs" by (simp add: Cons_nth_drop_Suc)
  have x: "char_at (flat f) (int (str_length s) - 1 - int k) = Return (xs ! k)"
    using char_at_content [OF assms(1), of "int (str_length s) - 1 - int k"] k flat_of_length [OF assms(1)]
    by (simp add: xs_def rev_nth nat_diff_distrib)
  have "list_all IsWhitespace (take (Suc k) xs)" if "IsWhitespace (xs ! k)"
    using Suc.prems that k by (simp add: take_Suc_conv_app_nth xs_def)
  then show ?case
    using Suc k x d unfolding xs_def [symmetric] by (subst trailing_loop.simps) (auto simp: xs_def)
qed

text \<open>Trim removes the white space at both ends of the string and nothing else, for every string that
  flattens properly (no part of a rope that has parts of other strings in it, which is flattened to wrong text); its
  loops stay inside the string.\<close>

theorem trim_exact:
  assumes "to_string env this = Return s" "wf_str s" "flattenable s"
  shows "\<exists>t. ejs_String_prototype_trim env this = Return t \<and> wf_str t \<and>
    content t = rev (dropWhile IsWhitespace (rev (dropWhile IsWhitespace (content s))))"
proof -
  obtain f where f: "flatten_string s = Return f" "flat_of f s" using flatten_flat_of [OF assms(2,3)] by auto
  define xs where "xs = content s"
  define a where "a = length (takeWhile IsWhitespace xs)"
  define b where "b = length (takeWhile IsWhitespace (rev xs))"
  have len: "length xs = str_length s" "str_length f = str_length s"
    using flat_of_length [OF f(2)] f(2) by (simp_all add: xs_def flat_of_def)
  have a: "leading_loop (flat f) (str_length s) 0 = Return a" using leading_loop_spec [OF f(2), of 0] by (simp add: a_def xs_def)
  show ?thesis
  proof (cases "list_all IsWhitespace xs")
    case True
    then have "a = str_length s" "rev (dropWhile IsWhitespace (rev (dropWhile IsWhitespace xs))) = []"
      using len(1) by (auto simp: a_def list_all_iff takeWhile_eq_all_conv [THEN iffD2] dropWhile_eq_Nil_conv [THEN iffD2])
    then show ?thesis using assms(1) f(1) a len
      by (simp add: ejs_String_prototype_trim_def Let_def xs_def [symmetric] atom_empty_def)
  next
    case False
    have b: "trailing_loop (flat f) (str_length s) 0 = Return b"
      using trailing_loop_spec [OF f(2), of 0] False by (simp add: b_def xs_def)
    obtain y where y: "y \<in> set xs" "\<not> IsWhitespace y" using False by (auto simp: list_all_iff)
    have dw: "dropWhile IsWhitespace xs = drop a xs" "a < length xs"
      using y takeWhile_eq_all_conv [of IsWhitespace xs] takeWhile_dropWhile_id [of IsWhitespace xs]
        length_takeWhile_le [of IsWhitespace xs] by (auto simp: a_def dropWhile_eq_drop le_less)
    have "takeWhile IsWhitespace (rev xs) = takeWhile IsWhitespace (rev (drop a xs))"
    proof -
      have "\<exists>z\<in>set (drop a xs). \<not> IsWhitespace z"
        using dw hd_dropWhile [of IsWhitespace xs] by (metis drop_eq_Nil2 hd_in_set not_le)
      then have "takeWhile IsWhitespace (rev (drop a xs) @ rev (take a xs)) = takeWhile IsWhitespace (rev (drop a xs))"
        by (metis set_rev takeWhile_append1)
      then show ?thesis by (metis append_take_drop_id rev_append)
    qed
    then have "dropWhile IsWhitespace (rev (drop a xs)) = drop b (rev (drop a xs))" by (simp add: b_def dropWhile_eq_drop)
    then have goal: "rev (dropWhile IsWhitespace (rev (dropWhile IsWhitespace xs))) = take (length xs - a - b) (drop a xs)"
      using dw rev_drop [of b "rev (drop a xs)"] by (simp only: rev_rev_ident length_rev length_drop)
    show ?thesis
    proof (cases "a = 0 \<and> b = 0")
      case True
      then show ?thesis using assms(1) f a b dw(2) goal len
        by (auto simp: ejs_String_prototype_trim_def Let_def xs_def flat_of_def)
    next
      case nz: False
      have "a + (length xs - a - b) \<le> str_length s" using len dw(2) by simp
      then obtain t where "ejs_string_new_substring f (int a) (length xs - a - b) = Some t" "wf_str t"
        "content t = take (length xs - a - b) (drop a xs)"
        using substring_flat [OF f(2), of a "length xs - a - b"] by (auto simp: xs_def)
      then show ?thesis using assms(1) f(1) a b dw(2) goal len nz
        by (auto simp: ejs_String_prototype_trim_def Let_def xs_def of_option_def)
    qed
  qed
qed

theorem trim_exact_witness:
  "\<exists>t. ejs_String_prototype_trim (text_env [32, 9, 97, 32, 98, 0x3000] []) ejs_true = Return t \<and> content t = [97, 32, 98]"
proof -
  have w: "\<not> IsWhitespace 97" "\<not> IsWhitespace 98" "IsWhitespace 32" "IsWhitespace 9" "IsWhitespace 0x3000"
    by (simp_all add: IsWhitespace_def)
  show ?thesis
    using trim_exact [of "text_env [32, 9, 97, 32, 98, 0x3000] []" ejs_true "plain_text [32, 9, 97, 32, 98, 0x3000]"]
    by (auto simp: w)
qed

end
