(* ===== verification/StringSplitLaws.thy ===== *)
theory StringSplitLaws
  imports StringPartLaws
begin

text \<open>
  \<open>String.prototype.split\<close>: the parts between the occurrences of a separator.
\<close>


text \<open>The reference: cut at every occurrence of the separator, from the left; \<open>acc\<close> is the part that is being read.\<close>

function split_by :: "jschar list \<Rightarrow> jschar list \<Rightarrow> jschar list \<Rightarrow> jschar list list" where
  "split_by sep acc [] = [acc]"
| "split_by sep acc (x # xs) =
     (if sep \<noteq> [] \<and> prefix sep (x # xs) then acc # split_by sep [] (drop (length sep) (x # xs))
      else split_by sep (acc @ [x]) xs)"
  by pat_completeness auto
termination
  by (relation "measure (\<lambda>(sep, acc, xs). length xs)") (auto simp: less_Suc_eq_le neq_Nil_conv)

fun join_with :: "jschar list \<Rightarrow> jschar list list \<Rightarrow> jschar list" where
  "join_with sep [] = []"
| "join_with sep [x] = x"
| "join_with sep (x # y # xs) = x @ sep @ join_with sep (y # xs)"

lemma split_by_nonempty [simp]: "split_by sep acc xs \<noteq> []"
  by (induction sep acc xs rule: split_by.induct) auto

lemma join_with_Cons: "xs \<noteq> [] \<Longrightarrow> join_with sep (x # xs) = x @ sep @ join_with sep xs"
  by (cases xs) auto

lemma join_split: "join_with sep (split_by sep acc xs) = acc @ xs"
proof (induction sep acc xs rule: split_by.induct)
  case (2 sep acc x xs)
  show ?case
  proof (cases "sep \<noteq> [] \<and> prefix sep (x # xs)")
    case True
    then have "sep @ drop (length sep) (x # xs) = x # xs" by (metis prefix_iff_take append_take_drop_id)
    then show ?thesis using 2(1) True by (simp add: join_with_Cons del: drop_Cons')
  next
    case False
    then show ?thesis using 2(2) by auto
  qed
qed simp

lemma split_parts_free:
  "sep \<noteq> [] \<Longrightarrow> \<forall>k<length acc. \<not> prefix sep (drop k (acc @ xs)) \<Longrightarrow> part \<in> set (split_by sep acc xs) \<Longrightarrow> \<not> sublist sep part"
proof (induction sep acc xs rule: split_by.induct)
  have free: "\<not> sublist sep acc" if "sep \<noteq> []" "\<forall>k<length acc. \<not> prefix sep (drop k (acc @ xs))" for sep acc xs :: "jschar list"
  proof
    assume "sublist sep acc"
    then obtain k where "occurs_at sep acc = Some k" using occurs_at_None [of sep acc] by auto
    then have k: "k \<le> length acc" "prefix sep (drop k acc)" using occurs_at_least [of sep acc k] by simp_all
    then have "k < length acc" using that(1) by (cases "k = length acc") auto
    moreover have "prefix sep (drop k (acc @ xs))" using k by (simp add: prefix_prefix)
    ultimately show False using that(2) by simp
  qed
  {
    case (1 sep acc)
    then show ?case using free [of sep acc "[]"] by simp
  next
    case (2 sep acc x xs)
    show ?case
    proof (cases "prefix sep (x # xs)")
      case True
      then show ?thesis using 2(1) 2(3-5) free [of sep acc "x # xs"] by auto
    next
      case False
      then have "\<forall>k<length (acc @ [x]). \<not> prefix sep (drop k ((acc @ [x]) @ xs))" using 2(4) by (auto simp: less_Suc_eq)
      then show ?thesis using 2(2,3,5) False by simp
    qed
  }
qed

definition good_string :: "EJSPrimString \<Rightarrow> jschar list \<Rightarrow> bool" where
  "good_string s cs \<longleftrightarrow> wf_str s \<and> flattenable s \<and> dep_base s \<and> content s = cs"

lemma good_length: "good_string s cs \<Longrightarrow> str_length s = length cs"
  using wf_length by (auto simp: good_string_def)

lemma good_flatten: "good_string s cs \<Longrightarrow> \<exists>f. flatten_string s = Return f \<and> flat_of f s \<and> good_string f cs"
  using flatten_flat_of by (fastforce simp: good_string_def flat_of_def)

lemma good_substring:
  assumes "good_string s cs" "p + k \<le> length cs"
  shows "\<exists>t. ejs_string_new_substring s (int p) k = Some t \<and> good_string t (take k (drop p cs))"
  using assms string_substring_content [of s "int p" k] good_length [OF assms(1)] by (auto simp: good_string_def)

lemma SplitMatch_content:
  assumes "good_string S cs" "good_string R sep" "q \<le> length cs"
  shows "\<exists>S' R'. SplitMatch S q R =
      Return (if prefix sep (drop q cs) then MATCH_RESULT_SUCCESS (q + length sep) else MATCH_RESULT_FAILURE, S', R') \<and>
    good_string S' cs \<and> good_string R' sep"
proof (cases "q + length sep \<le> length cs")
  case True
  obtain f where f: "flatten_string S = Return f" "flat_of f S" "good_string f cs" using good_flatten [OF assms(1)] by auto
  obtain g where g: "flatten_string R = Return g" "flat_of g R" "good_string g sep" using good_flatten [OF assms(2)] by auto
  have "compare_at (flat f) (flat g) (int q) (str_length R) 0 = Return (prefix sep (drop q cs))"
    using compare_at_prefix [OF f(2) g(2), of q] True good_length [OF assms(1)] good_length [OF assms(2)] assms(1,2)
    by (simp add: good_string_def)
  then show ?thesis using True f g good_length [OF assms(1)] good_length [OF assms(2)] by (simp add: SplitMatch_def)
next
  case False
  then have "\<not> prefix sep (drop q cs)" using prefix_length_le [of sep "drop q cs"] assms(3) by auto
  then show ?thesis using False assms good_length [OF assms(1)] good_length [OF assms(2)] by (simp add: SplitMatch_def)
qed

text \<open>The loop either reaches the limit or hands over the last part.\<close>

lemma split_loop_spec:
  assumes "sep \<noteq> []"
  shows "good_string S cs \<Longrightarrow> good_string R sep \<Longrightarrow> p \<le> q \<Longrightarrow> q \<le> length cs \<Longrightarrow> length A < lim \<Longrightarrow>
    parts = split_by sep (take (q - p) (drop p cs)) (drop q cs) \<Longrightarrow>
    (\<exists>B. split_loop S R (int lim) p q A = Return (Inl B) \<and> lim < length A + length parts \<and>
       map content B = map content A @ take (lim - length A) parts) \<or>
    (\<exists>p' S' B. split_loop S R (int lim) p q A = Return (Inr (p', S', B)) \<and> length A + length parts \<le> lim \<and>
       good_string S' cs \<and> p' \<le> length cs \<and> map content B @ [drop p' cs] = map content A @ parts)"
proof (induction "length cs - q" arbitrary: S R p q A parts rule: less_induct)
  case less
  note good = less.prems(1,2) and pq = less.prems(3,4)
  have len: "str_length S = length cs" using good_length [OF good(1)] .
  show ?case
  proof (cases "q < length cs")
    case False
    then show ?thesis using pq less.prems len by (auto simp: split_loop.simps [of S])
  next
    case True
    define acc where "acc = take (q - p) (drop p cs)"
    have d: "drop q cs = cs ! q # drop (Suc q) cs" using True by (simp add: Cons_nth_drop_Suc)
    obtain S' R' where m: "SplitMatch S q R =
        Return (if prefix sep (drop q cs) then MATCH_RESULT_SUCCESS (q + length sep) else MATCH_RESULT_FAILURE, S', R')"
      "good_string S' cs" "good_string R' sep"
      using SplitMatch_content [OF good pq(2)] by auto
    show ?thesis
    proof (cases "prefix sep (drop q cs)")
      case False
      have "take (Suc q - p) (drop p cs) = acc @ [cs ! q]"
        using True pq take_Suc_conv_app_nth [of "q - p" "drop p cs"] by (simp add: acc_def Suc_diff_le)
      then have "parts = split_by sep (take (Suc q - p) (drop p cs)) (drop (Suc q) cs)"
        using less.prems(6) False by (simp add: d acc_def)
      then have "(\<exists>B. split_loop S' R' (int lim) p (Suc q) A = Return (Inl B) \<and> lim < length A + length parts \<and>
           map content B = map content A @ take (lim - length A) parts) \<or>
         (\<exists>p' S'' B. split_loop S' R' (int lim) p (Suc q) A = Return (Inr (p', S'', B)) \<and> length A + length parts \<le> lim \<and>
           good_string S'' cs \<and> p' \<le> length cs \<and> map content B @ [drop p' cs] = map content A @ parts)"
        using less.hyps [of "Suc q" S' R' p A parts] m(2,3) pq True less.prems(5) by simp
      then show ?thesis using m(1) False True len by (simp add: split_loop.simps [of S])
    next
      case pre: True
      define rest where "rest = split_by sep [] (drop (q + length sep) cs)"
      have ql: "q + length sep \<le> length cs" using prefix_length_le [OF pre] True by simp
      have parts: "parts = acc # rest"
      proof -
        have "parts = acc # split_by sep [] (drop (length sep) (drop q cs))"
          using less.prems(6) pre assms unfolding d by (simp add: acc_def)
        then show ?thesis by (simp add: rest_def add.commute)
      qed
      have "p + (q - p) \<le> length cs" using pq by simp
      then obtain T where T: "ejs_string_new_substring S' (int p) (q - p) = Some T" "content T = acc"
        using good_substring [OF m(2), of p "q - p"] by (auto simp: good_string_def acc_def)
      have "q + length sep \<noteq> p" using pq(1) assms by (cases sep) auto
      then have step: "split_loop S R (int lim) p q A =
          (if int (length A) + 1 = int lim then Return (Inl (A @ [T]))
           else split_loop S' R' (int lim) (q + length sep) (q + length sep) (A @ [T]))"
        using m(1) pre True len T(1) by (simp add: split_loop.simps [of S] of_option_def)
      show ?thesis
      proof (cases "Suc (length A) = lim")
        case True
        have "0 < length rest" using split_by_nonempty by (auto simp: rest_def)
        then show ?thesis using True step parts T(2) by auto
      next
        case False
        have dec: "length cs - (q + length sep) < length cs - q" using \<open>q < length cs\<close> assms by (cases sep) auto
        have "(\<exists>B. split_loop S' R' (int lim) (q + length sep) (q + length sep) (A @ [T]) = Return (Inl B) \<and>
             lim < length (A @ [T]) + length rest \<and> map content B = map content (A @ [T]) @ take (lim - length (A @ [T])) rest) \<or>
           (\<exists>p' S'' B. split_loop S' R' (int lim) (q + length sep) (q + length sep) (A @ [T]) = Return (Inr (p', S'', B)) \<and>
             length (A @ [T]) + length rest \<le> lim \<and> good_string S'' cs \<and> p' \<le> length cs \<and>
             map content B @ [drop p' cs] = map content (A @ [T]) @ rest)"
          using less.hyps [OF dec, of S' R' "q + length sep" "A @ [T]" rest] m(2,3) ql False less.prems(5)
          by (simp add: rest_def)
        moreover have "take (lim - length A) (acc # rest) = acc # take (lim - Suc (length A)) rest"
          using less.prems(5) False by (simp add: take_Cons')
        moreover have "int (length A) + 1 \<noteq> int lim" using False by linarith
        ultimately show ?thesis using parts T(2) unfolding step by auto
      qed
    qed
  qed
qed

lemma split_parts:
  assumes "method_of env P = Return ejs_undefined" "\<not> EJSVAL_IS_NULL_IMPL P" "\<not> EJSVAL_IS_UNDEFINED_IMPL P"
    "to_string env this = Return S" "to_string env P = Return R" "good_string S cs" "good_string R sep" "sep \<noteq> []"
    "(if EJSVAL_IS_UNDEFINED_IMPL (arg args 1) then Return EJS_MAX_SAFE_INTEGER
      else bind_outcome (string_number env (arg args 1)) (\<lambda>d. of_option (ToLength d))) = Return (int lim)"
    "0 < lim" "arg args 0 = P"
  shows "\<exists>ts. ejs_String_prototype_split env this args = Return (Own ts) \<and> map content ts = take lim (split_by sep [] cs)"
proof (cases "cs = []")
  case True
  have "str_length S = 0" "\<not> prefix sep (drop 0 cs)" using good_length [OF assms(6)] True assms(8) by simp_all
  moreover obtain S' R' where "SplitMatch S 0 R =
        Return (if prefix sep (drop 0 cs) then MATCH_RESULT_SUCCESS (0 + length sep) else MATCH_RESULT_FAILURE, S', R')" "good_string S' cs"
      using SplitMatch_content [OF assms(6,7), of 0] by auto
  ultimately show ?thesis using assms(1-5,10,11) assms(9) [unfolded One_nat_def] True
    by (auto simp: ejs_String_prototype_split_def good_string_def take_Cons' Let_def)
next
  case False
  define parts where "parts = split_by sep [] cs"
  have loop: "(\<exists>B. split_loop S R (int lim) 0 0 [] = Return (Inl B) \<and> lim < length parts \<and> map content B = take lim parts) \<or>
      (\<exists>p' S' B. split_loop S R (int lim) 0 0 [] = Return (Inr (p', S', B)) \<and> length parts \<le> lim \<and>
         good_string S' cs \<and> p' \<le> length cs \<and> map content B @ [drop p' cs] = parts)"
    using split_loop_spec [OF assms(8,6,7), of 0 0 "[]" lim parts] assms(10) by (simp add: parts_def)
  have eq: "ejs_String_prototype_split env this args =
      bind_outcome (split_loop S R (int lim) 0 0 []) (\<lambda>r. case r of Inl A \<Rightarrow> Return (Own A)
        | Inr (p, S, A) \<Rightarrow> bind_outcome (of_option (ejs_string_new_substring S (int p) (str_length S - p))) (\<lambda>T. Return (Own (A @ [T]))))"
    using assms(1-5,10,11) assms(9) [unfolded One_nat_def] False good_length [OF assms(6)]
    by (simp add: ejs_String_prototype_split_def Let_def)
  show ?thesis using loop
  proof
    assume "\<exists>B. split_loop S R (int lim) 0 0 [] = Return (Inl B) \<and> lim < length parts \<and> map content B = take lim parts"
    then show ?thesis unfolding eq by (auto simp: parts_def)
  next
    assume "\<exists>p' S' B. split_loop S R (int lim) 0 0 [] = Return (Inr (p', S', B)) \<and> length parts \<le> lim \<and>
         good_string S' cs \<and> p' \<le> length cs \<and> map content B @ [drop p' cs] = parts"
    then obtain p' S' B where l: "split_loop S R (int lim) 0 0 [] = Return (Inr (p', S', B))" "length parts \<le> lim"
      "good_string S' cs" "p' \<le> length cs" "map content B @ [drop p' cs] = parts" by auto
    have "p' + (length cs - p') \<le> length cs" using l(4) by simp
    then obtain T where "ejs_string_new_substring S' (int p') (length cs - p') = Some T" "content T = drop p' cs"
      using good_substring [OF l(3), of p' "length cs - p'"] by (auto simp: good_string_def)
    then show ?thesis unfolding eq using l good_length [OF l(3)] by (auto simp: of_option_def parts_def)
  qed
qed

text \<open>C16: split and join are inverse, for a string and a separator each of which is flat, a rope of flat
  strings, or a part of such a string (a dependent string below a rope is flattened wrongly), the
  string of fewer than 2^53 - 1 characters, the separator made of a value other than null and undefined that has no
  \<open>Symbol.split\<close> method.  Splitting the string at a separator that is not empty gives parts that do not contain the separator and that joined with it are the
  string again; they are the parts found by cutting at the leftmost occurrences.  With a limit, zero included, the
  result is that many of them from the front.\<close>

theorem split_join:
  assumes "method_of env P = Return ejs_undefined" "\<not> EJSVAL_IS_NULL_IMPL P" "\<not> EJSVAL_IS_UNDEFINED_IMPL P"
    "to_string env this = Return S" "to_string env P = Return R" "wf_str S" "flattenable S" "dep_base S"
    "wf_str R" "flattenable R" "dep_base R" "content R \<noteq> []" "int (length (content S)) < EJS_MAX_SAFE_INTEGER"
  shows "\<exists>ts. ejs_String_prototype_split env this [P] = Return (Own ts) \<and> join_with (content R) (map content ts) = content S \<and>
    map content ts = split_by (content R) [] (content S) \<and> (\<forall>t\<in>set ts. \<not> sublist (content R) (content t)) \<and>
    (\<forall>L d lim. \<not> EJSVAL_IS_UNDEFINED_IMPL L \<and> string_number env L = Return d \<and> ToLength d = Some (int lim) \<longrightarrow>
      (\<exists>us. ejs_String_prototype_split env this [P, L] = Return (Own us) \<and> map content us = take lim (map content ts)))"
proof -
  have good: "good_string S (content S)" "good_string R (content R)" using assms(6-11) by (simp_all add: good_string_def)
  note sp = split_parts [OF assms(1-5) good assms(12)]
  define M where "M = nat EJS_MAX_SAFE_INTEGER"
  have M: "EJS_MAX_SAFE_INTEGER = int M" "0 < M" by (simp_all add: M_def EJS_MAX_SAFE_INTEGER_def)
  obtain ts where ts: "ejs_String_prototype_split env this [P] = Return (Own ts)"
    "map content ts = take M (split_by (content R) [] (content S))"
    using sp [of "[P]" M] M by (auto simp: arg_def)
  have "length (split_by sep acc xs) \<le> Suc (length xs)" for sep acc xs
    by (induction sep acc xs rule: split_by.induct) (auto simp: neq_Nil_conv)
  then have "length (split_by (content R) [] (content S)) \<le> Suc (length (content S))" .
  then have all: "map content ts = split_by (content R) [] (content S)" using ts(2) assms(13) M(1) by simp
  moreover have "\<not> sublist (content R) (content t)" if "t \<in> set ts" for t
  proof -
    have "content t \<in> set (split_by (content R) [] (content S))" unfolding all [symmetric] using that by simp
    then show ?thesis using split_parts_free [OF assms(12), of "[]" "content S" "content t"] by simp
  qed
  moreover have "\<exists>us. ejs_String_prototype_split env this [P, L] = Return (Own us) \<and> map content us = take lim (map content ts)"
    if "\<not> EJSVAL_IS_UNDEFINED_IMPL L" "string_number env L = Return d" "ToLength d = Some (int lim)" for L d lim
  proof (cases "lim = 0")
    case True
    then show ?thesis using that assms(1-5) by (simp add: ejs_String_prototype_split_def arg_def of_option_def)
  next
    case False
    then show ?thesis using sp [of "[P, L]" lim] that unfolding all by (simp add: arg_def of_option_def)
  qed
  ultimately show ?thesis using ts(1) join_split [of "content R" "[]" "content S"] by auto
qed

theorem split_join_witness:
  "\<exists>ts. ejs_String_prototype_split (text_env [97, 44, 98, 44, 44, 99] [44]) ejs_true [ejs_false] = Return (Own ts) \<and>
     map content ts = [[97], [98], [], [99]]"
  using split_join [of "text_env [97, 44, 98, 44, 44, 99] [44]" ejs_false ejs_true "plain_text [97, 44, 98, 44, 44, 99]" "plain_text [44]"]
  by (auto simp: EJS_MAX_SAFE_INTEGER_def)

end
