(* ===== verification/StringCodeLaws.thy ===== *)
theory StringCodeLaws
  imports StringLaws
begin

text \<open>
  Code points: the string iterator, \<open>String.fromCodePoint\<close> and \<open>codePointAt\<close>; and \<open>repeat\<close>.
\<close>

section \<open>The pieces of a text\<close>

definition high_surrogate :: "jschar \<Rightarrow> bool" where "high_surrogate c \<longleftrightarrow> 0xD800 \<le> c \<and> c \<le> 0xDBFF"
definition low_surrogate :: "jschar \<Rightarrow> bool" where "low_surrogate c \<longleftrightarrow> 0xDC00 \<le> c \<and> c \<le> 0xDFFF"

fun pieces :: "jschar list \<Rightarrow> jschar list list" where
  "pieces [] = []"
| "pieces [c] = [[c]]"
| "pieces (c # d # xs) = (if high_surrogate c \<and> low_surrogate d then [c, d] # pieces xs else [c] # pieces (d # xs))"

lemma concat_pieces: "concat (pieces xs) = xs"
  by (induction xs rule: pieces.induct) auto

lemma length_pieces: "length (pieces xs) \<le> length xs"
  by (induction xs rule: pieces.induct) auto

lemma pieces_unit: "\<not> (high_surrogate c \<and> xs \<noteq> [] \<and> low_surrogate (hd xs)) \<Longrightarrow> pieces (c # xs) = [c] # pieces xs"
  by (cases xs) auto

section \<open>The iterator\<close>

text \<open>Calling \<open>next\<close> until it is done, at most \<open>n\<close> times.\<close>

fun drain_iterator :: "nat \<Rightarrow> EJSStringIterator \<Rightarrow> (EJSPrimString list \<times> EJSStringIterator) outcome" where
  "drain_iterator 0 it = Return ([], it)"
| "drain_iterator (Suc n) it =
     bind_outcome (ejs_StringIterator_prototype_next it) (\<lambda>(r, it).
       case r of
         None \<Rightarrow> Return ([], it)
       | Some t \<Rightarrow> bind_outcome (drain_iterator n it) (\<lambda>(ts, it). Return (t # ts, it)))"

lemma new_units:
  "length cs < 2 ^ 31 \<Longrightarrow> \<exists>t. of_option (ejs_string_new_ucs2_len cs (length cs)) = Return t \<and> content t = cs \<and> wf_str t \<and> flattenable t"
  by (simp add: ejs_string_new_ucs2_len_def of_option_def nth_append)

lemma next_piece:
  assumes "wf_str s" "k < str_length s"
  shows "\<exists>t. ejs_StringIterator_prototype_next \<lparr>iterated = Some s, next_index = k\<rparr> =
      Return (Some t, \<lparr>iterated = Some s, next_index = k + length (content t)\<rparr>) \<and> wf_str t \<and> content t \<noteq> [] \<and>
    k + length (content t) \<le> str_length s \<and>
    pieces (drop k (content s)) = content t # pieces (drop (k + length (content t)) (content s))"
proof -
  define cs where "cs = content s"
  have len: "length cs = str_length s" using wf_length [OF assms(1)] by (simp add: cs_def)
  have d: "drop k cs = cs ! k # drop (Suc k) cs" using assms(2) len by (simp add: Cons_nth_drop_Suc)
  have first: "of_option (ejs_string_ucs2_at s k) = Return (cs ! k)"
    using ucs2_at_content [OF assms] by (simp add: of_option_def cs_def)
  define single where "single \<longleftrightarrow> \<not> high_surrogate (cs ! k) \<or> Suc k = str_length s \<or> \<not> low_surrogate (cs ! Suc k)"
  define cu where "cu = (if single then [cs ! k] else [cs ! k, cs ! Suc k])"
  have second: "of_option (ejs_string_ucs2_at s (k + 1)) = Return (cs ! Suc k)" if "Suc k \<noteq> str_length s"
    using ucs2_at_content [OF assms(1), of "Suc k"] that assms(2) by (simp add: of_option_def cs_def)
  obtain t where t: "of_option (ejs_string_new_ucs2_len cu (length cu)) = Return t" "content t = cu" "wf_str t"
  proof -
    have "length cu < 2 ^ 31" by (simp add: cu_def)
    then show ?thesis using that new_units [of cu] by auto
  qed
  have "ejs_StringIterator_prototype_next \<lparr>iterated = Some s, next_index = k\<rparr> =
      bind_outcome (of_option (ejs_string_new_ucs2_len cu (length cu))) (\<lambda>r.
        Return (Some r, \<lparr>iterated = Some s, next_index = k + length cu\<rparr>))"
    using assms(2) first second
    by (cases "\<not> high_surrogate (cs ! k) \<or> Suc k = str_length s")
      (auto simp: ejs_StringIterator_prototype_next_def Let_def cu_def single_def high_surrogate_def low_surrogate_def not_le not_less)
  moreover have "pieces (drop k cs) = cu # pieces (drop (k + length cu) cs)"
  proof (cases "Suc k = str_length s")
    case True
    then show ?thesis using d len by (simp add: cu_def single_def)
  next
    case False
    then have "drop (Suc k) cs = cs ! Suc k # drop (Suc (Suc k)) cs" using assms(2) len by (simp add: Cons_nth_drop_Suc)
    then show ?thesis using d False by (auto simp: cu_def single_def)
  qed
  moreover have "k + length cu \<le> str_length s" "cu \<noteq> []" using assms(2) by (auto simp: cu_def single_def)
  ultimately show ?thesis using t by (auto simp: cs_def)
qed

lemma drain_pieces:
  assumes "wf_str s"
  shows "k \<le> str_length s \<Longrightarrow> str_length s - k < n \<Longrightarrow>
    \<exists>ts. drain_iterator n \<lparr>iterated = Some s, next_index = k\<rparr> = Return (ts, \<lparr>iterated = None, next_index = str_length s\<rparr>) \<and>
      map content ts = pieces (drop k (content s)) \<and> (\<forall>t\<in>set ts. wf_str t)"
proof (induction n arbitrary: k)
  case (Suc n)
  show ?case
  proof (cases "k = str_length s")
    case True
    then show ?thesis using wf_length [OF assms] by (simp add: ejs_StringIterator_prototype_next_def)
  next
    case False
    then have "k < str_length s" using Suc.prems by simp
    then obtain t where t: "ejs_StringIterator_prototype_next \<lparr>iterated = Some s, next_index = k\<rparr> =
        Return (Some t, \<lparr>iterated = Some s, next_index = k + length (content t)\<rparr>)" "wf_str t" "content t \<noteq> []"
      "k + length (content t) \<le> str_length s"
      "pieces (drop k (content s)) = content t # pieces (drop (k + length (content t)) (content s))"
      using next_piece [OF assms, of k] by auto
    have "0 < length (content t)" using t(3) by simp
    then have "str_length s - (k + length (content t)) < n" using Suc.prems \<open>k < str_length s\<close> by linarith
    then obtain ts where "drain_iterator n \<lparr>iterated = Some s, next_index = k + length (content t)\<rparr> =
        Return (ts, \<lparr>iterated = None, next_index = str_length s\<rparr>)" "map content ts = pieces (drop (k + length (content t)) (content s))"
      "\<forall>t\<in>set ts. wf_str t"
      using Suc.IH [OF t(4)] by auto
    then show ?thesis using t by auto
  qed
qed simp

lemma drain_new:
  assumes "wf_str s" "str_length s < n"
  shows "\<exists>ts. drain_iterator n (ejs_string_iterator_new s) = Return (ts, \<lparr>iterated = None, next_index = str_length s\<rparr>) \<and>
      map content ts = pieces (content s) \<and> (\<forall>t\<in>set ts. wf_str t)"
  using drain_pieces [OF assms(1), of 0 n] assms(2) by (simp add: ejs_string_iterator_new_def)

section \<open>Code points\<close>

text \<open>A code point that is not a surrogate, and its units.\<close>

definition scalar_value :: "int \<Rightarrow> bool" where
  "scalar_value cp \<longleftrightarrow> 0 \<le> cp \<and> cp \<le> 0x10FFFF \<and> \<not> (0xD800 \<le> cp \<and> cp \<le> 0xDFFF)"

definition utf16 :: "int \<Rightarrow> jschar list" where
  "utf16 cp = (if cp \<le> 0xFFFF then [word_of_int cp]
     else [word_of_int ((cp - 0x10000) div 1024 + 0xD800), word_of_int ((cp - 0x10000) mod 1024 + 0xDC00)])"

lemma units_of_codepoint: "scalar_value cp \<Longrightarrow> codepoint_to_codeunits cp = Return (utf16 cp)"
  by (simp add: scalar_value_def codepoint_to_codeunits_def utf16_def)

lemma uint_unit: "0 \<le> i \<Longrightarrow> i < 2 ^ 16 \<Longrightarrow> uint (word_of_int i :: jschar) = i"
  by (simp add: uint_word_of_int)

lemma pair_bounds:
  assumes "0xFFFF < cp" "cp \<le> 0x10FFFF"
  shows "uint (word_of_int ((cp - 0x10000) div 1024 + 0xD800) :: jschar) = (cp - 0x10000) div 1024 + 0xD800"
    "uint (word_of_int ((cp - 0x10000) mod 1024 + 0xDC00) :: jschar) = (cp - 0x10000) mod 1024 + 0xDC00"
    "(cp - 0x10000) div 1024 < 1024" "0 \<le> (cp - 0x10000) div 1024"
proof -
  show d: "(cp - 0x10000) div 1024 < 1024" "0 \<le> (cp - 0x10000) div 1024" using assms by auto
  have m: "0 \<le> (cp - 0x10000) mod 1024" "(cp - 0x10000) mod 1024 < 1024" by simp_all
  show "uint (word_of_int ((cp - 0x10000) div 1024 + 0xD800) :: jschar) = (cp - 0x10000) div 1024 + 0xD800"
    by (rule uint_unit) (use d in simp_all)
  show "uint (word_of_int ((cp - 0x10000) mod 1024 + 0xDC00) :: jschar) = (cp - 0x10000) mod 1024 + 0xDC00"
    by (rule uint_unit) (use m in simp_all)
qed

lemma pieces_utf16:
  assumes "scalar_value cp"
  shows "pieces (utf16 cp @ rest) = utf16 cp # pieces rest"
proof (cases "cp \<le> 0xFFFF")
  case True
  then have "uint (word_of_int cp :: jschar) = cp" using assms by (intro uint_unit) (auto simp: scalar_value_def)
  then have "\<not> high_surrogate (word_of_int cp)" using assms by (auto simp: high_surrogate_def scalar_value_def word_le_def)
  then show ?thesis using True pieces_unit [of "word_of_int cp" rest] by (simp add: utf16_def)
next
  case False
  then have "0xFFFF < cp" "cp \<le> 0x10FFFF" using assms by (auto simp: scalar_value_def)
  note b = pair_bounds [OF this]
  have "high_surrogate (word_of_int ((cp - 0x10000) div 1024 + 0xD800))"
    "low_surrogate (word_of_int ((cp - 0x10000) mod 1024 + 0xDC00))"
    using b by (simp_all add: high_surrogate_def low_surrogate_def word_le_def)
  then show ?thesis using False by (simp add: utf16_def)
qed

lemma pieces_scalars: "\<forall>cp\<in>set cps. scalar_value cp \<Longrightarrow> pieces (concat (map utf16 cps)) = map utf16 cps"
  by (induction cps) (simp_all add: pieces_utf16)

lemma code_points_units:
  assumes "\<forall>i. string_number env (int_value i) = Return (int_value i)"
  shows "\<forall>cp\<in>set cps. scalar_value cp \<Longrightarrow> code_points env (map int_value cps) = Return (concat (map utf16 cps))"
proof (induction cps)
  case (Cons cp cps)
  then have b: "\<bar>cp\<bar> < 2 ^ 53" "0 \<le> cp" "cp \<le> 0x10FFFF" by (auto simp: scalar_value_def)
  have "ToInteger (int_value cp) = Some cp"
    using of_int_finite [OF b(1)] trunc_of_int [OF b(1)] b by (auto simp: ToInteger_def double_to_int64_def int_value_def)
  then show ?case using Cons b assms int_value_facts(2) [OF b(1)] units_of_codepoint [of cp] by (simp add: of_option_def)
qed simp

lemma codePointAt_utf16:
  assumes "scalar_value cp" "object_string env v = Return t" "wf_str t" "content t = utf16 cp"
    "string_integer env P = Return 0"
  shows "ejs_String_prototype_codePointAt env v [P] = Return (int_value cp)"
proof (cases "cp \<le> 0xFFFF")
  case True
  then have u: "uint (word_of_int cp :: jschar) = cp" using assms(1) by (intro uint_unit) (auto simp: scalar_value_def)
  have c: "content t = [word_of_int cp]" "str_length t = 1" using assms(4) True wf_length [OF assms(3)] by (simp_all add: utf16_def)
  then have "ejs_string_ucs2_at t 0 = Some (word_of_int cp)" using ucs2_at_content [OF assms(3), of 0] by simp
  then show ?thesis using c(2) u assms(2,5) by (simp add: ejs_String_prototype_codePointAt_def of_option_def arg_def)
next
  case False
  then have "0xFFFF < cp" "cp \<le> 0x10FFFF" using assms(1) by (auto simp: scalar_value_def)
  note bounds = pair_bounds [OF this]
  define h l where "h = (word_of_int ((cp - 0x10000) div 1024 + 0xD800) :: jschar)" and "l = (word_of_int ((cp - 0x10000) mod 1024 + 0xDC00) :: jschar)"
  note b = bounds [folded h_def l_def]
  have c: "content t = [h, l]" "str_length t = 2" using assms(4) False wf_length [OF assms(3)] by (simp_all add: utf16_def h_def l_def)
  have at: "ejs_string_ucs2_at t 0 = Some h" "ejs_string_ucs2_at t 1 = Some l"
    using ucs2_at_content [OF assms(3), of 0] ucs2_at_content [OF assms(3), of 1] c by simp_all
  have hl: "\<not> h < 0xD800" "\<not> h > 0xDBFF" "\<not> l < 0xDC00" "\<not> l > 0xDFFF"
    using b by (simp_all add: word_less_def)
  have "(uint h - 0xD800) * 1024 + (uint l - 0xDC00) + 0x10000 = cp"
    using div_mult_mod_eq [of "cp - 0x10000" 1024] by (simp add: b(1,2))
  then show ?thesis using at hl c(2) assms(2,5) by (simp add: ejs_String_prototype_codePointAt_def of_option_def arg_def)
qed

lemma iterator_joins:
  assumes "wf_str u"
  shows "\<exists>us jt. drain_iterator (Suc (str_length u)) (ejs_string_iterator_new u) = Return (us, jt) \<and>
    ejs_StringIterator_prototype_next jt = Return (None, jt) \<and> concat (map content us) = content u"
  using drain_new [OF assms lessI] concat_pieces [of "content u"]
  by (auto simp: ejs_StringIterator_prototype_next_def simp del: drain_iterator.simps)

text \<open>C18: code points through a string.  From every sequence of fewer than 2^30 code points that are not surrogates,
  given as numbers, String.fromCodePoint makes a string whose iterator ends after one string for each of them, in order,
  and stays at the end; codePointAt(0) of each is the code point.  The iterator of any well-formed string, whatever its
  representation, ends as well, and the strings it yields are the string again when they are put together.\<close>

theorem code_points_roundtrip:
  assumes "\<forall>cp\<in>set cps. scalar_value cp" "2 * length cps < 2 ^ 31"
    "\<forall>i. string_number env (int_value i) = Return (int_value i)"
  shows "\<exists>s ts it. ejs_String_fromCodePoint env (map int_value cps) = Return s \<and> wf_str s \<and>
    drain_iterator (Suc (str_length s)) (ejs_string_iterator_new s) = Return (ts, it) \<and>
    ejs_StringIterator_prototype_next it = Return (None, it) \<and> concat (map content ts) = content s \<and>
    length ts = length cps \<and>
    (\<forall>i v P. i < length cps \<and> object_string env v = Return (ts ! i) \<and> string_integer env P = Return 0 \<longrightarrow>
      ejs_String_prototype_codePointAt env v [P] = Return (int_value (cps ! i))) \<and>
    (\<forall>u. wf_str u \<longrightarrow> (\<exists>us jt. drain_iterator (Suc (str_length u)) (ejs_string_iterator_new u) = Return (us, jt) \<and>
      ejs_StringIterator_prototype_next jt = Return (None, jt) \<and> concat (map content us) = content u))"
proof -
  define units where "units = concat (map utf16 cps)"
  have "length (concat (map utf16 xs)) \<le> 2 * length xs" for xs by (induction xs) (auto simp: utf16_def)
  then have "length units \<le> 2 * length cps" by (simp add: units_def)
  then have lim: "length units < 2 ^ 31" using assms(2) by linarith
  obtain s where s: "ejs_String_fromCodePoint env (map int_value cps) = Return s" "content s = units" "wf_str s"
  proof (cases cps)
    case Nil
    then show ?thesis using that [of atom_empty] by (simp add: ejs_String_fromCodePoint_def atom_empty_def units_def)
  next
    case (Cons cp cps')
    then show ?thesis using that new_units [OF lim] code_points_units [OF assms(3,1)]
      by (auto simp: ejs_String_fromCodePoint_def units_def)
  qed
  obtain ts where ts: "drain_iterator (Suc (str_length s)) (ejs_string_iterator_new s) = Return (ts, \<lparr>iterated = None, next_index = str_length s\<rparr>)"
    "map content ts = pieces (content s)" "\<forall>t\<in>set ts. wf_str t"
    using drain_new [OF s(3) lessI] by (auto simp del: drain_iterator.simps)
  have m: "map content ts = map utf16 cps" using ts(2) s(2) pieces_scalars [OF assms(1)] by (simp add: units_def)
  have len: "length ts = length cps" using m by (metis length_map)
  have "ejs_String_prototype_codePointAt env v [P] = Return (int_value (cps ! i))"
    if "i < length cps" "object_string env v = Return (ts ! i)" "string_integer env P = Return 0" for i v P
  proof (rule codePointAt_utf16 [OF _ that(2) _ _ that(3)])
    show "scalar_value (cps ! i)" "wf_str (ts ! i)" using assms(1) ts(3) that(1) len by simp_all
    show "content (ts ! i) = utf16 (cps ! i)" using m that(1) len by (metis nth_map)
  qed
  moreover have "\<exists>us jt. drain_iterator (Suc (str_length u)) (ejs_string_iterator_new u) = Return (us, jt) \<and>
      ejs_StringIterator_prototype_next jt = Return (None, jt) \<and> concat (map content us) = content u" if "wf_str u" for u
    using iterator_joins [OF that] .
  ultimately show ?thesis using s ts len concat_pieces [of "content s"]
    by (intro exI [of _ s] exI [of _ ts] exI [of _ "\<lparr>iterated = None, next_index = str_length s\<rparr>"])
      (simp add: ejs_StringIterator_prototype_next_def)
qed

theorem code_points_roundtrip_witness:
  "\<exists>s. ejs_String_fromCodePoint (text_env [] []) [int_value 0x1F600, int_value 97] = Return s \<and> content s = [0xD83D, 0xDE00, 97]"
proof -
  obtain s ts it where s: "ejs_String_fromCodePoint (text_env [] []) (map int_value [0x1F600, 97]) = Return s"
    "drain_iterator (Suc (str_length s)) (ejs_string_iterator_new s) = Return (ts, it)"
    using code_points_roundtrip [of "[0x1F600, 97]" "text_env [] []"] by (auto simp: scalar_value_def)
  have "code_points (text_env [] []) (map int_value [0x1F600, 97]) = Return (concat (map utf16 [0x1F600, 97]))"
    by (rule code_points_units) (simp_all add: scalar_value_def)
  then show ?thesis using s(1)
    by (auto simp: ejs_String_fromCodePoint_def utf16_def ejs_string_new_ucs2_len_def of_option_def)
qed

section \<open>Repetition\<close>

lemma repeat_loop_content:
  "wf_str T \<Longrightarrow> flattenable T \<Longrightarrow> wf_str S \<Longrightarrow> flattenable S \<Longrightarrow> str_length T + n * str_length S < 2 ^ 31 \<Longrightarrow>
   \<exists>r. repeat_loop T S n = Return r \<and> wf_str r \<and> content r = content T @ concat (replicate n (content S))"
proof (induction n arbitrary: T)
  case (Suc n)
  then obtain c where c: "ejs_string_concat T S = Some c" "wf_str c" "flattenable c" "content c = content T @ content S"
    using string_concat_content [of T S] by auto
  moreover have "str_length c = str_length T + str_length S"
    using c(2,4) wf_length [of c] wf_length [of T] wf_length [of S] Suc.prems by auto
  ultimately show ?case using Suc.IH [of c] Suc.prems by (auto simp: of_option_def)
qed simp

text \<open>Repeat.  A count of at least 0 gives that many copies of the string, as long as the result is shorter than
  \<open>2 ^ 31\<close>; a count of -1 or less, and an infinite one, is a RangeError; the count NaN is converted to an integer, which is
  undefined in C.\<close>

theorem repeat_exact:
  assumes "object_string env this = Return s" "wf_str s" "flattenable s" "string_number env N = Return d"
  shows "(isinf d \<longrightarrow> ejs_String_prototype_repeat env this [N] = Throws RangeError) \<and>
    (isnan d \<longrightarrow> ejs_String_prototype_repeat env this [N] = Aborts) \<and>
    (double_to_int64 d = Some n \<and> n < 0 \<longrightarrow> ejs_String_prototype_repeat env this [N] = Throws RangeError) \<and>
    (double_to_int64 d = Some n \<and> 0 \<le> n \<and> nat n * str_length s < 2 ^ 31 \<longrightarrow>
      (\<exists>r. ejs_String_prototype_repeat env this [N] = Return r \<and> wf_str r \<and> content r = concat (replicate (nat n) (content s))))"
proof -
  have "\<not> isinf d" if "double_to_int64 d = Some n" using that by (auto simp: double_to_int64_def split: if_splits)
  moreover have "\<exists>r. repeat_loop s s (nat (n - 1)) = Return r \<and> wf_str r \<and> content r = concat (replicate (nat n) (content s))"
    if "0 < n" "nat n * str_length s < 2 ^ 31"
  proof -
    have n: "nat n = Suc (nat (n - 1))" using that(1) by simp
    then show ?thesis using repeat_loop_content [OF assms(2,3,2,3), of "nat (n - 1)"] that(2) by simp
  qed
  moreover have "isnan d \<Longrightarrow> \<not> isinf d" by (simp add: isnan_def isinf_def)
  ultimately show ?thesis using assms(1,4)
    by (cases "n = 0") (auto simp: ejs_String_prototype_repeat_def arg_def of_option_def atom_empty_def double_to_int64_def
        split: if_splits)
qed

theorem repeat_exact_witness:
  "\<exists>r. ejs_String_prototype_repeat (text_env [97, 98] []) ejs_true [int_value 3] = Return r \<and> content r = [97, 98, 97, 98, 97, 98]"
proof -
  have "double_to_int64 (int_value 3) = Some 3"
    using of_int_finite [of 3] trunc_of_int [of 3] by (simp add: double_to_int64_def int_value_def)
  then show ?thesis
    using repeat_exact [of "text_env [97, 98] []" ejs_true "plain_text [97, 98]" "int_value 3" "int_value 3" 3]
    by (auto simp: numeral_3_eq_3)
qed

end
