(* ===== verification/StringReplaceLaws.thy ===== *)
theory StringReplaceLaws
  imports StringLaws
begin

text \<open>
  \<open>String.prototype.replace\<close> with a string: the expansion of the replacement and what becomes of the rest of the text.
\<close>

section \<open>The expansion of a replacement\<close>

text \<open>The reference: \<open>$$\<close>, \<open>$&\<close> and \<open>$'\<close> stand for a dollar sign, the match \<open>m\<close> and the text \<open>t\<close> after it.\<close>

fun expand :: "jschar list \<Rightarrow> jschar list \<Rightarrow> jschar list \<Rightarrow> jschar list" where
  "expand m t [] = []"
| "expand m t [c] = [c]"
| "expand m t (c # d # xs) =
     (if c \<noteq> dollar then c # expand m t (d # xs)
      else if d = dollar then dollar # expand m t xs
      else if d = 0x26 then m @ expand m t xs
      else if d = 0x27 then t @ expand m t xs
      else dollar # expand m t (d # xs))"

text \<open>No dollar sign is followed by a digit.\<close>

fun no_references :: "jschar list \<Rightarrow> bool" where
  "no_references [] = True"
| "no_references [c] = True"
| "no_references (c # d # xs) =
     (if c \<noteq> dollar then no_references (d # xs)
      else if d = dollar \<or> d = 0x26 \<or> d = 0x27 then no_references xs
      else \<not> is_digit d \<and> no_references (d # xs))"

lemma expand_no_dollar: "dollar \<notin> set cs \<Longrightarrow> expand m t cs = cs"
  by (induction m t cs rule: expand.induct) auto

lemma no_dollar_references: "dollar \<notin> set cs \<Longrightarrow> no_references cs"
  by (induction cs rule: no_references.induct) auto

lemma set_expand: "set (expand m t cs) \<subseteq> set m \<union> set t \<union> set cs"
  by (induction m t cs rule: expand.induct) auto

lemma char_at_nth: "i < length cs \<Longrightarrow> char_at (cs @ z) (int i) = Return (cs ! i)"
  by (simp add: char_at_def nth_append)

lemma terminator_values: "(0 :: jschar) \<noteq> dollar" "dollar \<noteq> 0" "\<not> is_digit 0" "dollar \<noteq> 0x26" "dollar \<noteq> 0x27" "\<not> is_digit 0x26" "\<not> is_digit 0x27" "\<not> is_digit dollar"
  by (simp_all add: dollar_def is_digit_def)

text \<open>Both passes follow the expansion, so the buffer is exactly as long as the result.\<close>

lemma passes_expand:
  assumes "buf = cs @ 0 # z" "int (length t) = (if tail > 0 then tail else 0)"
  shows "i \<le> length cs \<Longrightarrow> no_references (drop i cs) \<Longrightarrow>
    result_length buf (int (length cs)) (int (length m)) tail captures (int i) acc = Return (acc + int (length (expand m t (drop i cs)))) \<and>
    build_result buf (int (length cs)) (Return m) (Return t) captures (int i) res = Return (res @ expand m t (drop i cs))"
proof (induction "length cs - i" arbitrary: i acc res rule: less_induct)
  case less
  note step = result_length.simps [of buf "int (length cs)" "int (length m)" tail captures "int i" acc]
    build_result.simps [of buf "int (length cs)" "Return m" "Return t" captures "int i" res]
  have IH: "result_length buf (int (length cs)) (int (length m)) tail captures (int i + int k) a = Return (a + int (length (expand m t (drop (i + k) cs))))"
    "build_result buf (int (length cs)) (Return m) (Return t) captures (int i + int k) r = Return (r @ expand m t (drop (i + k) cs))"
    if "0 < k" "i + k \<le> length cs" "no_references (drop (i + k) cs)" for k a r
    using less.hyps [of "i + k" a r] that by auto
  consider "i = length cs" | "Suc i = length cs" | "Suc i < length cs" using less.prems(1) by linarith
  then show ?case
  proof cases
    case 1
    then show ?thesis using step by simp
  next
    case 2
    then have d: "drop i cs = [cs ! i]" "drop (Suc i) cs = []" by (simp_all add: Cons_nth_drop_Suc [symmetric])
    have c: "char_at buf (int i) = Return (cs ! i)" "char_at buf (int i + 1) = Return 0"
      using 2 assms(1) by (simp_all add: char_at_def nth_append nat_add_distrib)
    show ?thesis using step c 2 d IH [of 1] terminator_values by auto
  next
    case 3
    define c c1 xs where "c = cs ! i" and "c1 = cs ! Suc i" and "xs = drop (Suc (Suc i)) cs"
    have d1: "drop (Suc i) cs = c1 # xs" using 3 by (simp add: Cons_nth_drop_Suc c1_def xs_def)
    have d: "drop i cs = c # c1 # xs" using 3 by (simp add: Cons_nth_drop_Suc [symmetric] c_def c1_def xs_def)
    have ch: "char_at buf (int i) = Return c" "char_at buf (int i + 1) = Return c1"
      using 3 assms(1) char_at_nth [of i cs] char_at_nth [of "Suc i" cs] by (simp_all add: c_def c1_def add.commute)
    have lt: "int i < int (length cs)" using 3 by simp
    have d2: "drop (i + 2) cs = xs" "drop (i + 1) cs = c1 # xs" using d1 by (simp_all add: xs_def)
    have IH1: "no_references (c1 # xs) \<Longrightarrow> result_length buf (int (length cs)) (int (length m)) tail captures (int i + 1) a = Return (a + int (length (expand m t (c1 # xs))))"
      "no_references (c1 # xs) \<Longrightarrow> build_result buf (int (length cs)) (Return m) (Return t) captures (int i + 1) r = Return (r @ expand m t (c1 # xs))"
      for a r using IH(1) [of 1 a] IH(2) [of 1 r] 3 d2 by simp_all
    have IH2: "no_references xs \<Longrightarrow> result_length buf (int (length cs)) (int (length m)) tail captures (int i + 2) a = Return (a + int (length (expand m t xs)))"
      "no_references xs \<Longrightarrow> build_result buf (int (length cs)) (Return m) (Return t) captures (int i + 2) r = Return (r @ expand m t xs)"
      for a r using IH(1) [of 2 a] IH(2) [of 2 r] 3 d2 by simp_all
    have nr: "no_references (c # c1 # xs)" using less.prems(2) d by simp
    show ?thesis
    proof (cases "c = dollar \<and> (c1 = dollar \<or> c1 = 0x26 \<or> c1 = 0x27)")
      case True
      then have "no_references xs" using nr by simp
      then show ?thesis unfolding step using True ch lt d IH2 assms(2) terminator_values by auto
    next
      case False
      then have "no_references (c1 # xs)" "c = dollar \<Longrightarrow> \<not> is_digit c1" using nr by (auto split: if_splits)
      then show ?thesis unfolding step using False ch lt d IH1 by auto
    qed
  qed
qed

lemma new_ucs2_content:
  assumes "0 \<notin> set cs" "length cs < 2 ^ 31"
  shows "\<exists>t. of_option (ejs_string_new_ucs2 (cs @ [0])) = Return t \<and> content t = cs \<and> wf_str t \<and> flattenable t"
proof -
  have "ucs2_strlen (cs @ [0]) = Some (of_nat (length cs))" using assms strlen_spec [of "cs @ [0]"] by (simp add: chars_append)
  then show ?thesis using assms sint_of_nat_small [OF assms(2)]
    by (simp add: ejs_string_new_ucs2_def ejs_string_new_ucs2_len_def of_option_def nth_append)
qed

lemma substitution_expands:
  assumes "flat_of f s" "flat_of g t" "wf_str r" "flattenable r" "no_references (content r)"
    "0 \<notin> set (content s)" "0 \<notin> set (content t)" "0 \<notin> set (content r)" "k + str_length t \<le> str_length s"
    "length (expand (content t) (drop (k + str_length t) (content s)) (content r)) < 2 ^ 31"
  shows "\<exists>u. GetReplaceSubstitution g f (int k) captures r = Return u \<and> wf_str u \<and> flattenable u \<and>
    content u = expand (content t) (drop (k + str_length t) (content s)) (content r)"
proof -
  define tail where "tail = int (str_length s) - (int k + int (str_length t))"
  define after where "after = drop (k + str_length t) (content s)"
  obtain h where h: "flatten_string r = Return h" "flat_of h r" using flatten_flat_of [OF assms(3,4)] by auto
  obtain z where z: "flat h = content r @ 0 # z" "str_length h = str_length r" using h(2) by (auto simp: flat_of_def)
  have len: "length (content s) = str_length s" "length (content t) = str_length t" "length (content r) = str_length r"
    using flat_of_length [OF assms(1)] flat_of_length [OF assms(2)] flat_of_length [OF h(2)] by simp_all
  obtain z1 z2 where fg: "str_length f = str_length s" "flat f = content s @ 0 # z1" "str_length g = str_length t" "flat g = content t @ 0 # z2"
    using assms(1,2) by (auto simp: flat_of_def)
  have after: "int (length after) = (if tail > 0 then tail else 0)" using assms(9) len by (auto simp: after_def tail_def)
  have a: "(if int k + int (str_length t) < int (str_length s)
      then bind_outcome (flatten_string f) (\<lambda>s'. Return (take (nat tail) (drop (nat (int k + int (str_length t))) (flat s'))))
      else Return []) = Return after"
  proof (cases "k + str_length t < str_length s")
    case True
    then have "nat tail = str_length s - (k + str_length t)" "nat (int k + int (str_length t)) = k + str_length t" by (auto simp: tail_def)
    then show ?thesis using True flat_of_flatten [OF assms(1)] fg len by (simp add: after_def)
  next
    case False
    then show ?thesis using assms(9) len by (simp add: after_def)
  qed
  have m: "bind_outcome (flatten_string g) (\<lambda>m. Return (take (nat (int (str_length t))) (flat m))) = Return (content t)"
    using flat_of_flatten [OF assms(2)] fg len by simp
  define e where "e = expand (content t) after (content r)"
  have p: "result_length (flat h) (int (str_length r)) (int (str_length t)) tail captures 0 0 = Return (int (length e))"
    "build_result (flat h) (int (str_length r)) (Return (content t)) (Return after) captures 0 [] = Return e"
    using passes_expand [OF z(1) after, of 0 "content t" captures 0 "[]"] assms(5) len by (simp_all add: e_def)
  have "0 \<notin> set e" using set_expand [of "content t" after "content r"] assms(6-8) in_set_dropD by (fastforce simp: e_def after_def)
  then obtain u where "of_option (ejs_string_new_ucs2 (e @ [0])) = Return u" "content u = e" "wf_str u" "flattenable u"
    using new_ucs2_content [of e] assms(10) by (auto simp: e_def after_def)
  moreover have "GetReplaceSubstitution g f (int k) captures r = of_option (ejs_string_new_ucs2 (e @ [0]))"
    unfolding GetReplaceSubstitution_def Let_def fg(1,3) h(1) bind_outcome.simps z(2) m
    unfolding tail_def [symmetric] a p bind_outcome.simps using assms(9) by simp
  ultimately show ?thesis by (auto simp: e_def after_def)
qed

section \<open>Replacing the first match\<close>

lemma concatv_three:
  assumes "wf_str a" "flattenable a" "wf_str b" "flattenable b" "wf_str c" "flattenable c"
    "length (content a) + length (content b) + length (content c) < 2 ^ 31"
  shows "\<exists>r. ejs_string_concatv a [b, c] = Some r \<and> wf_str r \<and> content r = content a @ content b @ content c"
proof -
  have len: "str_length a = length (content a)" "str_length b = length (content b)" "str_length c = length (content c)"
    using wf_length assms(1,3,5) by auto
  obtain ab where ab: "ejs_string_concat a b = Some ab" "wf_str ab" "flattenable ab" "content ab = content a @ content b"
    using string_concat_content [OF assms(1,3,2,4)] assms(7) len by auto
  have "str_length ab + str_length c < 2 ^ 31" using wf_length [OF ab(2)] ab(4) assms(7) len by simp
  then obtain r where "ejs_string_concat ab c = Some r" "wf_str r" "content r = content ab @ content c"
    using string_concat_content [OF ab(2) assms(5) ab(3) assms(6)] by auto
  then show ?thesis using ab by simp
qed

text \<open>C17: replacing a string by a string.  For strings that flatten properly (no dependent string over another one
  below a rope), without NUL, a search value without a \<open>Symbol.replace\<close> method, a replacement without numbered references, and a
  result of fewer than 2^31 characters: the result is the string itself if the search string is empty (where the standard inserts the replacement in front) or does
  not occur; otherwise the first occurrence is replaced by the expanded replacement, what precedes it is kept, and so is
  what follows it, unless that is a single character, which is lost.\<close>

theorem replace_exact:
  assumes "method_of env P = Return ejs_undefined" "to_string env this = Return s" "to_string env P = Return t" "to_string env Q = Return r"
    "wf_str s" "flattenable s" "wf_str t" "flattenable t" "wf_str r" "flattenable r"
    "0 \<notin> set (content s)" "0 \<notin> set (content t)" "0 \<notin> set (content r)" "no_references (content r)"
    "\<And>k. length (content s) + length (expand (content t) (drop k (content s)) (content r)) < 2 ^ 31"
  shows "\<exists>u. ejs_String_prototype_replace env None this [P, Q] = Return (Own u) \<and> wf_str u \<and>
    content u = (case (if content t = [] then None else occurs_at (content t) (content s)) of
        None \<Rightarrow> content s
      | Some k \<Rightarrow> take k (content s) @ expand (content t) (drop (k + length (content t)) (content s)) (content r) @
          (if k + length (content t) = length (content s) - 1 then [] else drop (k + length (content t)) (content s)))"
proof -
  obtain f where f: "flatten_string s = Return f" "flat_of f s" using flatten_flat_of [OF assms(5,6)] by auto
  obtain g where g: "flatten_string t = Return g" "flat_of g t" using flatten_flat_of [OF assms(7,8)] by auto
  have len: "length (content s) = str_length s" "length (content t) = str_length t"
    using flat_of_length [OF f(2)] flat_of_length [OF g(2)] by simp_all
  have fl: "str_length f = str_length s" "str_length g = str_length t" "content f = content s" "wf_str f" "dep_base f"
    using f(2) g(2) by (auto simp: flat_of_def)
  obtain z where z: "flat f = content s @ 0 # z" using f(2) by (auto simp: flat_of_def)
  define found where "found = (if content t = [] then None else occurs_at (content t) (content s))"
  have st: "of_option (ucs2_strstr (flat f) (flat g)) = Return (map_option (\<lambda>j. drop j (flat f)) found)"
    using strstr_content [OF f(2) g(2) assms(11,12), of 0] by (simp add: of_option_def found_def)
  have args: "arg [P, Q] 0 = P" "arg [P, Q] 1 = Q" by (simp_all add: arg_def)
  show ?thesis
  proof (cases found)
    case None
    then show ?thesis using assms(1-4) f g st args fl unfolding found_def [symmetric]
      by (simp add: ejs_String_prototype_replace_def Let_def)
  next
    case (Some k)
    then have occ: "content t \<noteq> []" "occurs_at (content t) (content s) = Some k" by (auto simp: found_def split: if_splits)
    then have "k \<le> length (content s)" "prefix (content t) (drop k (content s))" using occurs_at_least by auto
    then have k: "k + str_length t \<le> str_length s" using prefix_length_le [of "content t" "drop k (content s)"] len by simp
    define e where "e = expand (content t) (drop (k + str_length t) (content s)) (content r)"
    have lim: "str_length s + length e < 2 ^ 31" using assms(15) [of "k + str_length t"] len by (simp add: e_def)
    obtain v where v: "GetReplaceSubstitution g f (int k) [] r = Return v" "wf_str v" "flattenable v" "content v = e"
      using substitution_expands [OF f(2) g(2) assms(9,10,14,11,12,13) k, of "[]"] lim by (auto simp: e_def)
    obtain a where a: "(if int k = 0 then Return atom_empty else of_option (ejs_string_new_substring f 0 (nat (int k)))) = Return a"
      "wf_str a" "flattenable a" "content a = take k (content s)"
      using substring_flat [OF f(2), of 0 k] k by (cases "k = 0") (auto simp: of_option_def atom_empty_def)
    define behind where "behind = (if k + str_length t = str_length s - 1 then [] else drop (k + str_length t) (content s))"
    have "0 < str_length s" using k len occ(1) by (cases "content t") auto
    then have last: "int k + int (str_length t) = int (str_length s) - 1 \<longleftrightarrow> k + str_length t = str_length s - 1" by auto
    obtain c where c: "(if int k + int (str_length t) = int (str_length s) - 1 then Return atom_empty
        else of_option (ejs_string_new_substring f (int k + int (str_length t)) (nat (int (str_length s) - (int k + int (str_length t)))))) = Return c"
      "wf_str c" "flattenable c" "content c = behind"
    proof (cases "k + str_length t = str_length s - 1")
      case True
      then show ?thesis using that [of atom_empty] last by (simp add: behind_def atom_empty_def)
    next
      case False
      have "nat (int (str_length s) - (int k + int (str_length t))) = str_length s - (k + str_length t)" using k by simp
      then show ?thesis
        using that substring_flat [OF f(2), of "k + str_length t" "str_length s - (k + str_length t)"] False last k len
        by (auto simp: behind_def of_option_def)
    qed
    have "length (content a) + length (content v) + length (content c) < 2 ^ 31"
      using a(4) v(4) c(4) lim k len by (auto simp: behind_def)
    then obtain u where u: "ejs_string_concatv a [v, c] = Some u" "wf_str u" "content u = take k (content s) @ e @ behind"
      using concatv_three [OF a(2,3) v(2,3) c(2,3)] a(4) v(4) c(4) by auto
    have pos: "position_in (flat f) (drop k (flat f)) = int k" using k len z by (simp add: position_in_def)
    have "ejs_String_prototype_replace env None this [P, Q] = Return (Own u)"
    proof -
      have "of_option (ejs_string_concatv a [v, c]) = Return u" using u(1) by (simp only: of_option_def option.case)
      then show ?thesis
        by (simp only: ejs_String_prototype_replace_def Let_def args assms(1-4) bind_outcome.simps constant_values simp_thms
            if_True if_False f(1) g(1) st Some option.map option.case pos v(1) fl(1,2) a(1) c(1))
    qed
    then show ?thesis using u(2,3) Some len unfolding found_def [symmetric] by (auto simp: e_def behind_def)
  qed
qed

theorem replace_exact_witness:
  "\<exists>u. ejs_String_prototype_replace (text_env [97, 98, 99] [98]) None ejs_true [ejs_false, ejs_false] = Return (Own u) \<and> content u = [97, 98]"
proof -
  have "no_references [98 :: jschar]" "expand [98] ys [98] = [98 :: jschar]" for ys by simp_all
  moreover have "occurs_at [98] [97, 98, 99 :: jschar] = Some 1" by (simp add: prefix_def)
  ultimately show ?thesis
    using replace_exact [of "text_env [97, 98, 99] [98]" ejs_false ejs_true "plain_text [97, 98, 99]" "plain_text [98]" ejs_false "plain_text [98]"]
    by auto
qed

text \<open>The two passes over the replacement do not agree on numbered references: \<open>$0\<close> writes one character more than the
  buffer holds, and \<open>$1\<close> reads an element of the captures that does not exist.\<close>

theorem numbered_references_overflow:
  "GetReplaceSubstitution (plain_text [98]) (plain_text [97, 98, 99]) 1 [] (plain_text [0x24, 0x30]) = Aborts"
  "GetReplaceSubstitution (plain_text [98]) (plain_text [97, 98, 99]) 1 [] (plain_text [0x24, 0x31]) = Aborts"
  by code_simp+

end
