(* ===== verification/NumberText.thy ===== *)
theory NumberText
  imports StringReplaceLaws
begin

text \<open>
  Numbers as texts (\<open>src/runtime/ejs-ops.c\<close>): the digits of integers, \<open>NumberToString\<close>, \<open>ToString\<close> and
  \<open>parseInt\<close>.  The buffer for the digits has 11 characters.  The conversion of numbers that are not integers,
  \<open>_ejs_dtoa\<close>, and \<open>ToPrimitive\<close> are arguments.
\<close>

section \<open>Writing\<close>

definition UINT32_CHAR_BUFFER_LENGTH :: nat where "UINT32_CHAR_BUFFER_LENGTH = 10"

definition digit_char :: "nat \<Rightarrow> jschar" where
  "digit_char d = (if d < 10 then 0x30 + word_of_nat d else 0x61 + word_of_nat (d - 10))"

text \<open>The loops that write the digits from behind: \<open>avail\<close> characters are left in front of \<open>acc\<close>, and a write before
  the buffer is \<open>None\<close>.\<close>

fun backfill :: "nat \<Rightarrow> nat \<Rightarrow> nat \<Rightarrow> jschar list \<Rightarrow> (nat \<times> jschar list) option" where
  "backfill base u 0 acc = None"
| "backfill base u (Suc avail) acc =
     (let acc = digit_char (u mod base) # acc in
      if u div base > 0 then backfill base (u div base) avail acc else Some (avail, acc))"

text \<open>The negation of the smallest integer overflows.\<close>

definition IntToUCS2 :: "int \<Rightarrow> int \<Rightarrow> jschar list option" where
  "IntToUCS2 i base =
     (if i = - INT_MAX - 1 \<or> base < 2 \<or> base > 36 then None
      else case backfill (nat base) (nat \<bar>i\<bar>) UINT32_CHAR_BUFFER_LENGTH [0] of
        None \<Rightarrow> None
      | Some (avail, cp) \<Rightarrow> if i < 0 then (if avail = 0 then None else Some (0x2D # cp)) else Some cp)"

definition ascii_text :: "string \<Rightarrow> EJSPrimString" where
  "ascii_text s = EJS_STRING_FLAT (length s) None False (map (\<lambda>c. word_of_nat (of_char c)) s @ [0])"

text \<open>The atoms of the numbers from 0 to 200 are their decimal texts.\<close>

definition number_atom :: "int \<Rightarrow> EJSPrimString outcome" where
  "number_atom i = of_option (Option.bind (backfill 10 (nat i) 3 [0]) (\<lambda>(_, text). ejs_string_new_ucs2 text))"

text \<open>A number that has no \<open>int32_t\<close> differs from whatever its conversion gives, so the test is false there.\<close>

definition NumberToString :: "(double \<Rightarrow> uint8 list) \<Rightarrow> double \<Rightarrow> int \<Rightarrow> EJSPrimString outcome" where
  "NumberToString ejs_dtoa d base =
     (case EJSDOUBLE_IS_INT32 d of
        Some (True, w) \<Rightarrow>
          let i = sint w in
          if 0 \<le> i \<and> i \<le> 200 \<and> base = 10 then number_atom i
          else of_option (Option.bind (IntToUCS2 i base) ejs_string_new_ucs2)
      | _ \<Rightarrow>
          if isinf d then Return (if dbl_neg d then ascii_text ''-Infinity'' else ascii_text ''Infinity'')
          else if isnan d then Return (ascii_text ''NaN'')
          else of_option (ejs_string_new_utf8 (ejs_dtoa d)))"

definition primitive_text :: "(double \<Rightarrow> uint8 list) \<Rightarrow> strings \<Rightarrow> ejsval \<Rightarrow> EJSPrimString outcome" where
  "primitive_text ejs_dtoa strs exp =
     (if EJSVAL_IS_MAGIC_IMPL exp then Return (ascii_text '''')
      else if EJSVAL_IS_NULL_IMPL exp then Return (ascii_text ''null'')
      else if EJSVAL_IS_UNDEFINED_IMPL exp then Return (ascii_text ''undefined'')
      else if EJSVAL_IS_BOOLEAN_IMPL exp then
        Return (if EJSVAL_TO_BOOLEAN_IMPL exp \<noteq> 0 then ascii_text ''true'' else ascii_text ''false'')
      else if EJSVAL_IS_DOUBLE_IMPL exp then NumberToString ejs_dtoa exp 10
      else if EJSVAL_IS_STRING_IMPL exp then of_option (strs (EJSVAL_TO_STRING_IMPL exp))
      else if EJSVAL_IS_SYMBOL_IMPL exp then Throws TypeError
      else Aborts)"

text \<open>\<open>ToPrimitive\<close> never returns an object, so the recursion ends after one step.\<close>

definition ToString ::
  "(double \<Rightarrow> uint8 list) \<Rightarrow> strings \<Rightarrow> (ejsval \<Rightarrow> ejsval outcome) \<Rightarrow> ejsval \<Rightarrow> EJSPrimString outcome" where
  "ToString ejs_dtoa strs to_primitive exp =
     (if EJSVAL_IS_OBJECT_IMPL exp = Some True \<and> \<not> EJSVAL_IS_NULL_IMPL exp
      then bind_outcome (to_primitive exp) (primitive_text ejs_dtoa strs)
      else primitive_text ejs_dtoa strs exp)"

section \<open>Reading\<close>

definition ascii_units :: "string \<Rightarrow> jschar list" where
  "ascii_units s = map (\<lambda>c. word_of_nat (of_char c)) s @ [0]"

text \<open>The digits of a radix; other radices are not implemented.\<close>

definition radix_chars :: "int \<Rightarrow> (jschar list \<times> jschar list option) outcome" where
  "radix_chars R =
     (if R = 8 then Return (ascii_units ''01234567'', None)
      else if R = 10 then Return (ascii_units ''0123456789'', None)
      else if R = 16 then Return (ascii_units ''0123456789abcdef'', Some (ascii_units ''0123456789ABCDEF''))
      else Aborts)"

text \<open>The position of a character among the digits.\<close>

definition digit_in :: "jschar list \<Rightarrow> jschar \<Rightarrow> int option outcome" where
  "digit_in radix c =
     bind_outcome (of_option (ucs2_strstr radix [c, 0])) (\<lambda>p. Return (map_option (position_in radix) p))"

definition digit_value :: "jschar list \<times> jschar list option \<Rightarrow> jschar \<Rightarrow> int option outcome" where
  "digit_value cs c =
     bind_outcome (digit_in (fst cs) c) (\<lambda>r.
       case r of
         Some v \<Rightarrow> Return (Some v)
       | None \<Rightarrow> (case snd cs of None \<Rightarrow> Return None | Some cs2 \<Rightarrow> digit_in cs2 c))"

text \<open>The loop that finds the digits, from \<open>i\<close> on.\<close>

function count_digits :: "jschar list \<times> jschar list option \<Rightarrow> jschar list \<Rightarrow> int \<Rightarrow> int \<Rightarrow> int \<Rightarrow> int outcome" where
  "count_digits cs S Sidx Slength i =
     (if i < Slength then
        bind_outcome (char_at S (Sidx + i)) (\<lambda>c.
        bind_outcome (digit_value cs c) (\<lambda>v.
          if v = None then Return i else count_digits cs S Sidx Slength (i + 1)))
      else Return i)"
  by pat_completeness auto
termination by (relation "measure (\<lambda>(cs, S, Sidx, n, i). nat (n - i))") auto

declare count_digits.simps [simp del]

text \<open>The loop that adds them up in an \<open>int\<close>, which must not overflow.\<close>

function sum_digits :: "jschar list \<times> jschar list option \<Rightarrow> int \<Rightarrow> jschar list \<Rightarrow> int \<Rightarrow> int \<Rightarrow> int \<Rightarrow> int \<Rightarrow> int outcome" where
  "sum_digits cs R S Sidx Zlen i mathInt =
     (if i < Zlen then
        bind_outcome (char_at S (Sidx + i)) (\<lambda>c.
        bind_outcome (digit_value cs c) (\<lambda>v.
          case v of
            None \<Rightarrow> Aborts
          | Some d \<Rightarrow>
              if mathInt * R + d > INT_MAX then Aborts
              else sum_digits cs R S Sidx Zlen (i + 1) (mathInt * R + d)))
      else Return mathInt)"
  by pat_completeness auto
termination by (relation "measure (\<lambda>(cs, R, S, Sidx, n, i, m). nat (n - i))") auto

declare sum_digits.simps [simp del]

definition ejs_parseInt_impl :: "string_env \<Rightarrow> ejsval list \<Rightarrow> ejsval outcome" where
  "ejs_parseInt_impl env args =
     bind_outcome (to_string env (arg args 0)) (\<lambda>inputString.
     bind_outcome (flatten_string inputString) (\<lambda>inputString.
     let S = flat inputString; Slength = int (str_length inputString); radix = arg args 1 in
     bind_outcome (char_at S 0) (\<lambda>c0.
     let signed = Slength \<noteq> 0 \<and> (c0 = 0x2D \<or> c0 = 0x2B);
         sign = (if Slength \<noteq> 0 \<and> c0 = 0x2D then - 1 else 1);
         Sidx = (if signed then 1 else 0);
         Slength = (if signed then Slength - 1 else Slength) in
     bind_outcome (string_integer env radix) (\<lambda>r.
     let R = c_int r in
     if \<not> EJSVAL_IS_UNDEFINED_IMPL radix \<and> R \<noteq> 0 \<and> (R < 2 \<or> R > 36) then Return ejs_nan
     else
       let given = \<not> EJSVAL_IS_UNDEFINED_IMPL radix \<and> R \<noteq> 0;
           stripPrefix = (\<not> given \<or> R = 16);
           R = (if given then R else 10) in
       bind_outcome
         (if stripPrefix \<and> Slength > 2 then
            bind_outcome (char_at S Sidx) (\<lambda>a. bind_outcome (char_at S (Sidx + 1)) (\<lambda>b.
              Return (a = 0x30 \<and> (b = 0x78 \<or> b = 0x58))))
          else Return False) (\<lambda>hex.
       let Sidx = (if hex then Sidx + 2 else Sidx);
           Slength = (if hex then Slength - 2 else Slength);
           R = (if hex then 16 else R) in
       bind_outcome (radix_chars R) (\<lambda>cs.
       bind_outcome (count_digits cs S Sidx Slength 0) (\<lambda>Zlen.
       if Zlen = 0 then Return ejs_nan
       else bind_outcome (sum_digits cs R S Sidx Zlen 0 0) (\<lambda>mathInt. Return (int_value (mathInt * sign))))))))))"

definition ejs_isNaN_impl :: "string_env \<Rightarrow> ejsval list \<Rightarrow> bool outcome" where
  "ejs_isNaN_impl env args = bind_outcome (string_number env (arg args 0)) (\<lambda>d. Return (isnan d))"

definition ejs_isFinite_impl :: "string_env \<Rightarrow> ejsval list \<Rightarrow> bool outcome" where
  "ejs_isFinite_impl env args =
     (if length args < 1 then Return False
      else bind_outcome (string_number env (args ! 0)) (\<lambda>d. Return (\<not> isnan d \<and> \<not> isinf d)))"

section \<open>Digits\<close>

text \<open>The reference: the digits of a number, and the number that digits denote.\<close>

function digits :: "nat \<Rightarrow> nat \<Rightarrow> nat list" where
  "digits b n = (if n < b \<or> b < 2 then [n] else digits b (n div b) @ [n mod b])"
  by pat_completeness auto
termination by (relation "measure snd") (auto simp: not_less div_less_dividend)

declare digits.simps [simp del]

definition of_digits :: "nat \<Rightarrow> nat list \<Rightarrow> nat" where
  "of_digits b ds = foldl (\<lambda>a d. a * b + d) 0 ds"

lemma of_digits_append: "of_digits b (ds @ [d]) = of_digits b ds * b + d"
  by (simp add: of_digits_def)

lemma of_digits_single [simp]: "of_digits b [n] = n"
  by (simp add: of_digits_def)

lemma of_digits_digits: "of_digits b (digits b n) = n"
proof (induction b n rule: digits.induct)
  case (1 b n)
  then show ?case by (subst digits.simps) (auto simp: of_digits_append)
qed

lemma digits_less: "2 \<le> b \<Longrightarrow> d \<in> set (digits b n) \<Longrightarrow> d < b"
proof (induction b n rule: digits.induct)
  case (1 b n)
  then show ?case by (subst (asm) (2) digits.simps) (auto split: if_splits)
qed

lemma length_digits: "2 \<le> b \<Longrightarrow> 0 < k \<Longrightarrow> length (digits b n) \<le> k \<longleftrightarrow> n < b ^ k"
proof (induction b n arbitrary: k rule: digits.induct)
  case (1 b n)
  show ?case
  proof (cases "n < b")
    case True
    have "b ^ 1 \<le> b ^ k" using 1 by (intro power_increasing) auto
    then show ?thesis using True 1(3) by (simp add: digits.simps)
  next
    case False
    then have d: "digits b n = digits b (n div b) @ [n mod b]" using 1(2) by (simp add: digits.simps)
    obtain j where k: "k = Suc j" using 1(3) by (cases k) auto
    show ?thesis
    proof (cases "j = 0")
      case True
      moreover have "digits b (n div b) \<noteq> []" by (subst digits.simps) auto
      ultimately show ?thesis using False d k by auto
    next
      case j: False
      have "n div b < b ^ j \<longleftrightarrow> n < b ^ k" using 1(2) k by (simp add: div_less_iff_less_mult mult.commute)
      then show ?thesis using 1(1) [of j] False 1(2) j d k by simp
    qed
  qed
qed

lemma digits_nonempty [simp]: "digits b n \<noteq> []"
  by (subst digits.simps) auto

lemma backfill_digits:
  "2 \<le> b \<Longrightarrow> backfill b n avail acc =
     (if length (digits b n) \<le> avail then Some (avail - length (digits b n), map digit_char (digits b n) @ acc) else None)"
proof (induction b n avail acc rule: backfill.induct)
  case (2 b n avail acc)
  show ?case
  proof (cases "n < b")
    case True
    then show ?thesis by (simp add: digits.simps [of b n])
  next
    case False
    then have "0 < n div b" using 2(2) by (simp add: div_greater_zero_iff)
    then show ?thesis using 2 False by (auto simp: digits.simps [of b n] Let_def)
  qed
qed simp


section \<open>Round trip\<close>

lemma of_int_is_int32:
  assumes "\<bar>i\<bar> \<le> INT_MAX"
  shows "EJSDOUBLE_IS_INT32 (int_value i) = Some (True, word_of_int i)" "sint (word_of_int i :: int32) = i"
proof -
  have i: "\<bar>i\<bar> < 2 ^ 53" using assms by (simp add: INT_MAX_def)
  show s: "sint (word_of_int i :: int32) = i"
    using assms by (simp add: signed_of_int signed_take_bit_int_eq_self INT_MAX_def)
  have "dbl_exp 0x8000000000000000 = 0" by code_simp
  then have "dbl_of_int i \<noteq> 0x8000000000000000"
  proof (cases "i = 0")
    case False
    with \<open>dbl_exp 0x8000000000000000 = 0\<close> show ?thesis using of_int_fields [OF False i] by auto
  qed (simp add: dbl_of_int_def)
  then show "EJSDOUBLE_IS_INT32 (int_value i) = Some (True, word_of_int i)"
    using of_int_finite [OF i] trunc_of_int [OF i] s assms
    by (auto simp: EJSDOUBLE_IS_INT32_def int_value_def INT_MAX_def Let_def dbl_eq_def)
qed

lemma digit_value_char:
  assumes "b \<in> {8, 10, 16}" "d < b"
  shows "\<exists>cs. radix_chars (int b) = Return cs \<and> digit_value cs (digit_char d) = Return (Some (int d))"
proof -
  have "\<forall>d\<in>set [0..<8]. digit_value (ascii_units ''01234567'', None) (digit_char d) = Return (Some (int d))"
    "\<forall>d\<in>set [0..<10]. digit_value (ascii_units ''0123456789'', None) (digit_char d) = Return (Some (int d))"
    "\<forall>d\<in>set [0..<16]. digit_value (ascii_units ''0123456789abcdef'', Some (ascii_units ''0123456789ABCDEF'')) (digit_char d)
        = Return (Some (int d))"
    by code_simp+
  then show ?thesis using assms by (auto simp: radix_chars_def)
qed

lemma digit_char_plain:
  assumes "d < 16"
  shows "digit_char d \<notin> {0, 0x2B, 0x2D, 0x58, 0x78}"
proof -
  have "\<forall>d\<in>set [0..<16]. digit_char d \<notin> {0, 0x2B, 0x2D, 0x58, 0x78}" by code_simp
  then show ?thesis using assms by simp
qed

lemma count_digits_all:
  assumes "S = pre @ map digit_char ds @ rest" "\<forall>d\<in>set ds. digit_value cs (digit_char d) = Return (Some (int d))"
  shows "k \<le> length ds \<Longrightarrow> count_digits cs S (int (length pre)) (int (length ds)) (int k) = Return (int (length ds))"
proof (induction "length ds - k" arbitrary: k)
  case 0
  then show ?case by (simp add: count_digits.simps)
next
  case (Suc n)
  then have k: "k < length ds" by simp
  then have "char_at S (int (length pre) + int k) = Return (digit_char (ds ! k))"
    using assms(1) by (simp add: char_at_def nat_add_distrib nth_append)
  moreover have "digit_value cs (digit_char (ds ! k)) = Return (Some (int (ds ! k)))" using assms(2) k by simp
  ultimately show ?case using Suc(1) [of "Suc k"] Suc(2) k
    by (subst count_digits.simps) (simp add: add.commute)
qed

lemma of_digits_mono: "0 < b \<Longrightarrow> of_digits b (take k ds) \<le> of_digits b ds"
proof (induction ds rule: rev_induct)
  case (snoc d ds)
  have "of_digits b ds \<le> of_digits b ds * b + d" using snoc by (cases b) auto
  then show ?case using snoc by (cases "k \<le> length ds") (auto simp: of_digits_append intro: le_trans)
qed simp

lemma sum_digits_all:
  assumes "S = pre @ map digit_char ds @ rest" "\<forall>d\<in>set ds. digit_value cs (digit_char d) = Return (Some (int d))"
    "int (of_digits b ds) \<le> INT_MAX" "0 < b"
  shows "k \<le> length ds \<Longrightarrow> sum_digits cs (int b) S (int (length pre)) (int (length ds)) (int k) (int (of_digits b (take k ds)))
    = Return (int (of_digits b ds))"
proof (induction "length ds - k" arbitrary: k)
  case 0
  then show ?case by (simp add: sum_digits.simps)
next
  case (Suc n)
  then have k: "k < length ds" by simp
  then have c: "char_at S (int (length pre) + int k) = Return (digit_char (ds ! k))"
    using assms(1) by (simp add: char_at_def nat_add_distrib nth_append)
  have v: "digit_value cs (digit_char (ds ! k)) = Return (Some (int (ds ! k)))" using assms(2) k by simp
  have step: "int (of_digits b (take (Suc k) ds)) = int (of_digits b (take k ds)) * int b + int (ds ! k)"
    using k by (simp add: take_Suc_conv_app_nth of_digits_append)
  have "int (of_digits b (take (Suc k) ds)) \<le> INT_MAX" using of_digits_mono [OF assms(4), of "Suc k" ds] assms(3) by simp
  moreover have "sum_digits cs (int b) S (int (length pre)) (int (length ds)) (int k + 1) (int (of_digits b (take (Suc k) ds)))
      = Return (int (of_digits b ds))" using Suc(1) [of "Suc k"] Suc(2) k by (simp add: add.commute)
  ultimately show ?case using k c v by (subst sum_digits.simps) (simp flip: step)
qed


lemma parseInt_digits:
  assumes "to_string env v = Return t" "wf_str t" "flattenable t" "content t = sg @ map digit_char ds"
    "sg = [] \<or> sg = [0x2D]" "b \<in> {8, 10, 16}" "ds \<noteq> []" "\<forall>d\<in>set ds. d < b" "int (of_digits b ds) \<le> INT_MAX"
    "string_integer env (int_value (int b)) = Return (int b)"
  shows "ejs_parseInt_impl env [v, int_value (int b)] =
    Return (int_value (int (of_digits b ds) * (if sg = [] then 1 else - 1)))"
proof -
  obtain f where f: "flatten_string t = Return f" "flat_of f t" using flatten_flat_of [OF assms(2,3)] by blast
  then obtain rest where S: "flat f = sg @ map digit_char ds @ 0 # rest" and len: "str_length f = length sg + length ds"
    using flat_of_length [OF f(2)] assms(4) by (auto simp: flat_of_def)
  obtain cs where cs: "radix_chars (int b) = Return cs" using digit_value_char [of b 0] assms(6) by auto
  have dv: "\<forall>d\<in>set ds. digit_value cs (digit_char d) = Return (Some (int d))"
    using digit_value_char [of b] assms(6,8) cs by fastforce
  have plain: "d < b \<Longrightarrow> digit_char d \<notin> {0, 0x2B, 0x2D, 0x58, 0x78}" for d using digit_char_plain [of d] assms(6) by auto
  obtain d0 ds' where ds: "ds = d0 # ds'" using assms(7) by (cases ds) auto
  have c0: "char_at (flat f) 0 = Return (if sg = [] then digit_char d0 else 0x2D)"
    using assms(5) ds S by (auto simp: char_at_def)
  have c1: "char_at (flat f) (int (length sg)) = Return (digit_char d0)"
    using ds S by (auto simp: char_at_def nth_append)
  have c2: "length ds > 2 \<Longrightarrow> char_at (flat f) (int (length sg) + 1) = Return (digit_char (hd ds'))"
    using ds S by (cases ds') (auto simp: char_at_def nth_append nat_add_distrib)
  have hd: "length ds > 2 \<Longrightarrow> hd ds' \<in> set ds" using ds by (cases ds') auto
  have prefix: "length ds > 2 \<Longrightarrow> digit_char (hd ds') \<notin> {0x78, 0x58}" using plain [of "hd ds'"] hd assms(8) by auto
  have count: "count_digits cs (flat f) (int (length sg)) (int (length ds)) 0 = Return (int (length ds))"
    using count_digits_all [OF S dv, of 0] by simp
  have sum: "sum_digits cs (int b) (flat f) (int (length sg)) (int (length ds)) 0 0 = Return (int (of_digits b ds))"
    using sum_digits_all [OF S dv assms(9), of 0] assms(6) by (auto simp: of_digits_def)
  have idx: "int (length sg) = (if sg = [] then 0 else 1)" using assms(5) by auto
  have b: "c_int (int b) = int b" "\<not> EJSVAL_IS_UNDEFINED_IMPL (int_value (int b))"
    using assms(6) double_not_tagged [OF int_value_facts(1) [of "int b"]] by (auto intro: c_int_id simp: INT_MAX_def)
  note d0 = plain [of d0]
  show ?thesis
    using assms(1,5,6,8,10) f(1) c0 c1 c2 prefix count sum cs b d0 ds
    by (cases "sg = []") (auto simp: ejs_parseInt_impl_def arg_def len Let_def idx split: if_splits)
qed

lemma IntToUCS2_digits:
  assumes "\<bar>i\<bar> \<le> INT_MAX" "2 \<le> b" "b \<le> 36"
  shows "IntToUCS2 i (int b) =
    (if nat \<bar>i\<bar> < b ^ (if i < 0 then 9 else 10)
     then Some ((if i < 0 then [0x2D] else []) @ map digit_char (digits b (nat \<bar>i\<bar>)) @ [0]) else None)"
proof -
  have "nat \<bar>i\<bar> < b ^ 9 \<Longrightarrow> nat \<bar>i\<bar> < b ^ 10" using assms(2) by (simp add: power_Suc2 [of b 9] numeral_eq_Suc less_le_trans)
  then show ?thesis
    using assms length_digits [OF assms(2), of 9 "nat \<bar>i\<bar>"] length_digits [OF assms(2), of 10 "nat \<bar>i\<bar>"]
    by (auto simp: IntToUCS2_def backfill_digits UINT32_CHAR_BUFFER_LENGTH_def INT_MAX_def)
qed

lemma NumberToString_digits:
  assumes "\<bar>i\<bar> \<le> INT_MAX" "2 \<le> b" "b \<le> 36"
  shows "NumberToString dtoa (int_value i) (int b) =
    (if nat \<bar>i\<bar> < b ^ (if i < 0 then 9 else 10)
     then of_option (ejs_string_new_ucs2 ((if i < 0 then [0x2D] else []) @ map digit_char (digits b (nat \<bar>i\<bar>)) @ [0]))
     else Aborts)"
proof -
  have "length (digits 10 (nat i)) \<le> 3" if "i \<le> 200" using that length_digits [of 10 3 "nat i"] by simp
  moreover have "nat i < 10 ^ 10" if "i \<le> 200" using that by simp
  ultimately show ?thesis
    using IntToUCS2_digits [OF assms] of_int_is_int32 [OF assms(1)]
    by (auto simp: NumberToString_def number_atom_def backfill_digits of_option_def)
qed

text \<open>C21: Integers as text, for integers of absolute value at most 2^31 - 1, in the radices 8, 10 and 16.  An
  integer with at most ten digits in the radix, nine with a minus sign, is written with exactly its digits, and
  parseInt with the same radix reads the text back as the same integer; for an integer of this range with more
  digits than that, NumberToString would write in front of its buffer.\<close>

theorem int_text_roundtrip:
  assumes "b \<in> {8, 10, 16}" "\<bar>i\<bar> \<le> INT_MAX" "to_string env v = NumberToString dtoa (int_value i) (int b)"
    "string_integer env (int_value (int b)) = Return (int b)"
  shows "if nat \<bar>i\<bar> < b ^ (if i < 0 then 9 else 10)
    then (\<exists>t. NumberToString dtoa (int_value i) (int b) = Return t \<and>
            content t = (if i < 0 then [0x2D] else []) @ map digit_char (digits b (nat \<bar>i\<bar>))) \<and>
         ejs_parseInt_impl env [v, int_value (int b)] = Return (int_value i)
    else NumberToString dtoa (int_value i) (int b) = Aborts"
proof (cases "nat \<bar>i\<bar> < b ^ (if i < 0 then 9 else 10)")
  case True
  let ?ds = "digits b (nat \<bar>i\<bar>)" and ?sg = "if i < 0 then [0x2D :: jschar] else []"
  have b: "2 \<le> b" "b \<le> 36" using assms(1) by auto
  have ds: "\<forall>d\<in>set ?ds. d < b" using digits_less [OF b(1)] by blast
  have "0 \<notin> set (?sg @ map digit_char ?ds)" using ds digit_char_plain assms(1) by fastforce
  moreover have "length (?sg @ map digit_char ?ds) < 2 ^ 31"
    using True length_digits [OF b(1), of 9 "nat \<bar>i\<bar>"] length_digits [OF b(1), of 10 "nat \<bar>i\<bar>"] by (auto split: if_splits)
  ultimately obtain t where t: "of_option (ejs_string_new_ucs2 ((?sg @ map digit_char ?ds) @ [0])) = Return t"
      "content t = ?sg @ map digit_char ?ds" "wf_str t" "flattenable t"
    using new_ucs2_content by blast
  have N: "NumberToString dtoa (int_value i) (int b) = Return t"
    using NumberToString_digits [OF assms(2) b, of dtoa] True t(1) by simp
  have "ejs_parseInt_impl env [v, int_value (int b)] = Return (int_value (int (of_digits b ?ds) * (if ?sg = [] then 1 else - 1)))"
    by (rule parseInt_digits [OF _ t(3,4,2) _ assms(1) digits_nonempty ds _ assms(4)])
      (use N assms(2,3) in \<open>auto simp: of_digits_digits\<close>)
  then show ?thesis using True N t(2) by (auto simp: of_digits_digits)
next
  case False
  then show ?thesis using NumberToString_digits [OF assms(2), of b dtoa] assms(1) by auto
qed

theorem int_text_roundtrip_witness:
  "\<exists>t. NumberToString (\<lambda>_. []) (int_value (- 255)) 16 = Return t \<and> content t = [0x2D, 0x66, 0x66]"
proof -
  let ?N = "NumberToString (\<lambda>_. []) (int_value (- 255)) (int 16)"
  let ?env = "text_env [] []\<lparr>to_string := (\<lambda>_. ?N)\<rparr>"
  have "string_integer ?env (int_value (int 16)) = Return (int 16)"
    using text_env_integer [of 16 "[]" "[]"] by (simp add: string_integer_def)
  moreover have "digits 16 255 = [15, 15]" by (simp add: digits.simps)
  moreover have "digit_char 15 = 0x66" by code_simp
  ultimately show ?thesis
    using int_text_roundtrip [of 16 "- 255" ?env ejs_undefined "\<lambda>_. []"] by (auto simp: INT_MAX_def)
qed

end
