(* ===== verification/Spec2Isabelle.thy ===== *)
theory Spec2Isabelle
  imports Ejsval EjsList Ucs2 PrimString Doubles Ops PropertyMap PropertyKeys GcMark GcHeap GcCollect
    PropertyDesc Objects ObjectLaws Integrity SpecOps Proxies ProxyLaws ObjectFunctions ObjectFunctionLaws
    Operators OperatorLaws Collections CollectionLaws Promises PromiseLaws
    Arrays ArrayLaws ArraySort ArrayMethods ArrayMethodLaws ArrayIteration ArrayIterationLaws
    Floats TypedArrays TypedArrayMethods TypedArrayLaws DataViewLaws TypedViewLaws
    StringMethods StringBuilders StringLaws StringPartLaws StringSplitLaws StringCodeLaws StringReplaceLaws NumberText
begin

text \<open>
  EchoJS compiles JavaScript ahead of time; the programs it produces run on the C runtime of
  \<open>src/runtime\<close>.  This development models the core of that runtime: how values are represented,
  how strings, properties and objects are stored and operated on, and how memory is reclaimed.

  \<^bold>\<open>The parts and how they interact.\<close>  Every value is a 64-bit word (\<open>ejsval.h\<close>); doubles are
  themselves, other types carry a tag in the upper 17 bits and a payload in the lower 47.  Strings, symbols,
  closure environments and objects are pointers to cells of the collector's heap (\<open>ejs-gc.c\<close>), whose
  pages are kept on the intrusive lists of \<open>ejs-types.c\<close>.  A string is flat, a rope or a slice of
  another string (\<open>ejs-string.c\<close>) over arrays of 16-bit characters.  An object has a prototype, an
  extensible flag and a property map (\<open>ejs-object.c\<close>), a hash table from strings and symbols to
  property descriptors, which hashes with the string functions and compares with the strict equality of
  \<open>ejs-ops.c\<close>.  The collector marks from the roots, the modules and, conservatively, the stack; it
  finds the values in a cell by the scan operation of the cell's class, decides by the value predicates which
  of them are pointers, and frees what stays white.

  \<^bold>\<open>Theories.\<close>

  \<^item> \<open>Prelude\<close>: the fact collections, the names of the machine types, \<open>ejs_assert\<close>, the outcomes
    \<open>Return\<close>, \<open>Throws\<close> and \<open>Aborts\<close>, and generic lemmas.
  \<^item> \<open>Ejsval\<close> (\<open>ejsval.h\<close>, \<open>ejs-value.h\<close>): the constructors, predicates and accessors of the
    64-bit representation under their C names, with their assertions.  Against an algebraic type of values:
    decoding inverts encoding, each predicate holds exactly of its type, and encoding fails exactly on
    pointers the assertions reject.
  \<^item> \<open>EjsList\<close> (\<open>ejs-types.c\<close>): the list operations on an explicit store of \<open>prev\<close> and \<open>next\<close>
    fields.  On well-formed lists they act as on sequences (locale \<open>node_queue\<close>, interpreted on them);
    popping leaves a stale back link, and the theorems show what rests on it.
  \<^item> \<open>Ucs2\<close>, \<open>PrimString\<close> (\<open>ejs-string.c\<close>, \<open>ejs-string.h\<close>): searching, comparing, hashing and
    converting character arrays, where a read or write outside the array is the value \<open>None\<close>;
    construction, concatenation, slicing, flattening and hashing of strings.
  \<^item> \<open>Doubles\<close>, \<open>Ops\<close> (\<open>ejs-ops.c\<close>): binary64 on bit patterns as far as it is used; conversions,
    the three equalities, \<open>typeof\<close> and its specialised tests, the bitwise operators.
  \<^item> \<open>PropertyMap\<close>, \<open>PropertyKeys\<close> (\<open>ejs-object.c\<close>): the chained hash table with its insertion
    order, on an explicit store of entries, for any hash and equality that agree (locale
    \<open>property_keys\<close>); the keys of the runtime satisfy it, and the map then implements an ordered
    association list (locale \<open>ordered_dictionary\<close>).
  \<^item> \<open>PropertyDesc\<close> (\<open>ejs-object.h\<close>, \<open>ejs-object.c\<close>): the flag word of a descriptor, its macros,
    and the decision of \<open>[[DefineOwnProperty]]\<close>: \<open>Reject\<close>, \<open>Keep\<close> or \<open>Store\<close>.
  \<^item> \<open>Objects\<close>, \<open>ObjectLaws\<close>, \<open>Integrity\<close> (\<open>ejs-object.c\<close>): the internal methods of ordinary
    objects over a store from pointers to objects, each a function from store to result and new store.
    Prototype chains stay acyclic, so the searches return; a value that is put is read back and reported to
    the collector; a frozen object is unchanged by every sequence of later operations (the step relation
    \<open>object_step\<close>).
  \<^item> \<open>SpecOps\<close>, \<open>Proxies\<close>, \<open>ProxyLaws\<close> (\<open>ejs-proxy.c\<close>, \<open>ejs-object.h\<close>): the table of
    internal methods that every class has, over any type of states, and the tables of ordinary objects and of proxies,
    whose traps are functions that may change the objects.  What a target is honest about a proxy of it is honest about
    (locale \<open>honest_object\<close>, interpreted on the ordinary objects), hence every chain of proxies; the answers that are
    passed on unchecked are characterised.
  \<^item> \<open>ObjectFunctions\<close>, \<open>ObjectFunctionLaws\<close> (\<open>ejs-object.c\<close>, \<open>ejs-reflect.c\<close>): descriptors as objects,
    and the functions of Object and Reflect over the tables; writing a descriptor to an object and reading it back.
  \<^item> \<open>Operators\<close>, \<open>OperatorLaws\<close> (\<open>ejs-ops.c\<close>): objects as primitive values, loose equality, the order
    of values, shifts, \<open>in\<close>, \<open>instanceof\<close> and the iterator protocol; what equality with null, \<open>instanceof\<close> and the
    shifts compute, and that they return.
  \<^item> \<open>Collections\<close>, \<open>CollectionLaws\<close> (\<open>ejs-map.c\<close>, \<open>ejs-set.c\<close>): the entry lists of Map and
    Set on an explicit store, and their iterators, which hold the index of the next entry.  For any equality
    of keys that is one on the keys in use (locale \<open>collection_keys\<close>, interpreted on the runtime's
    SameValueZero) the operations are those of a dictionary in insertion order, and an iterator visits the
    entries in that order.
  \<^item> \<open>Promises\<close>, \<open>PromiseLaws\<close> (\<open>ejs-promise.c\<close>): promises, their resolving functions and the
    queue of tasks.  The step relation \<open>promise_step\<close> interleaves calls of resolving functions, calls of
    \<open>then\<close> and tasks, and while a resolving function reads the property \<open>then\<close>, which may run a getter, any sequence
    of such steps, nested to any depth; its invariant allows each pending promise one pair of unused resolving functions, from
    which a settled promise never changes again.
  \<^item> \<open>Arrays\<close>, \<open>ArrayLaws\<close> (\<open>ejs-array.c\<close>, \<open>ejs-array.h\<close>): the storage of arrays, the constructor, the fast
    paths of push, pop, shift, unshift and slice, and the internal methods.  Dense arrays implement double-ended
    queues (locale \<open>deque\<close>) and indexed stores, no operation of the step relation \<open>array_step\<close> leaves the
    block, and the cases that do leave it are characterised.
  \<^item> \<open>ArraySort\<close>: the quicksort of dense arrays; it sorts for every comparison that orders the elements.
  \<^item> \<open>ArrayMethods\<close>, \<open>ArrayMethodLaws\<close>, \<open>ArrayIteration\<close>, \<open>ArrayIterationLaws\<close>: the methods of
    \<open>Array.prototype\<close> over the internal methods, those that take a callback, and the array iterators; what
    reverse, splice, every, some, filter, reduce and reduceRight compute.
  \<^item> \<open>Floats\<close>, \<open>TypedArrays\<close>, \<open>TypedArrayMethods\<close>, \<open>TypedArrayLaws\<close>, \<open>DataViewLaws\<close>,
    \<open>TypedViewLaws\<close> (\<open>ejs-typedarrays.c\<close>, \<open>ejs-typedarrays.h\<close>): buffers as blocks of bytes and slices of
    other buffers, typed arrays and data views on them, and their methods.  The memory behind a buffer obeys the laws
    of reading and writing (locale \<open>byte_memory\<close>); on it a typed array acts as a sequence of numbers converted to its
    element type, subarrays are windows, data views honour the byte order, and the operations of the step relation
    \<open>typed_step\<close> stay in the block.  Where the arithmetic of the constructor wraps around, and where the
    bounds of the source are too wide, the theorems say what happens.
  \<^item> \<open>StringMethods\<close>, \<open>StringBuilders\<close>, \<open>StringLaws\<close>, \<open>StringPartLaws\<close>, \<open>StringSplitLaws\<close>,
    \<open>StringCodeLaws\<close>, \<open>StringReplaceLaws\<close> (\<open>ejs-string.c\<close>): the methods of strings and the string
    iterator, over the three representations.  In terms of the characters they search, cut, trim and replace as
    specified, splitting and joining and code points and strings are inverse to each other; where the code deviates
    (the empty search string, NULs, the last character after a replacement) the theorems say how.
  \<^item> \<open>NumberText\<close> (\<open>ejs-ops.c\<close>): integers as text and \<open>parseInt\<close>, which are inverse as long as the text
    fits its buffer; \<open>ToString\<close> of primitive values.
  \<^item> \<open>GcMark\<close>, \<open>GcHeap\<close>, \<open>GcCollect\<close> (\<open>ejs-gc.c\<close>): cell colours, the segmented worklist
    (locale \<open>work_stack\<close>) and marking over an abstract index of cells (locale \<open>cell_index\<close>);
    arenas, pages, large objects, the lookup of a word as a cell, sweeping, whole collections and allocation.
    The lookup of a well-formed heap is an index of cells, so a collection frees exactly the cells that are
    not reachable and keeps the heap well-formed.

  \<^bold>\<open>Conventions.\<close>  State is passed explicitly.  A loop that C may run forever is a
  \<open>partial_function\<close> whose value \<open>None\<close> is not returning; a failed assertion, an unimplemented
  case, and an access outside an array are \<open>None\<close> or \<open>Aborts\<close> as well, so a theorem that gives
  \<open>Some\<close> includes that none of them happens.  No fuel is used.  Machine integers are words of their
  width.  A block of array elements is a list whose entries are \<open>None\<close> until they are written, and reading
  such an entry as a value is \<open>Aborts\<close>.  The host stores numbers least significant byte first, and the
  conversion of a number to an integer type that cannot hold it is \<open>Aborts\<close>.  A property map holds at most 3074 properties: the table of primes of the rehashing ends there and the
  next insertion aborts; \<open>MAX_PROPERTIES\<close> repeats the bound for the objects, whose property map is the
  association list that \<open>PropertyKeys\<close> proves the hash table to implement.

  \<^bold>\<open>Parameters.\<close>  What the operating system and the C library return (the address of a mapping,
  a zeroed block) is an argument of the allocator, with the documented alignment and freshness as hypotheses.
  Strings are read through a store from pointers to strings.  The values that the scan operation of a cell
  visits are an argument of the marking.  A getter or setter that has to be called is returned as a request,
  since it runs compiled code and is the last action of the function that calls it.  The index of a numeric
  property name is an argument of the function that orders the keys.  For promises, reading \<open>then\<close> of a
  resolution, the test for callability and the call of a handler are arguments, since they run compiled code; the reading
  may change the promises.  For proxies, the functions of Object and the operators on objects, reading a property and
  calling a function are arguments that may change the whole state.
  For arrays, the conversion of a property name to a number, the name of an index, a comparison function and the
  callbacks of the methods are arguments; a callback may change the array it is called on.  The methods of strings
  take an environment \<open>string_env\<close>: the conversions of values to strings and numbers, the store of strings, and
  the lookup of a method under a symbol, whose call is returned as a request (\<open>Delegated\<close>).

  \<^bold>\<open>Not modelled.\<close>  The 32-bit value layout; conversions of numbers that are not integers to
  strings and of strings to numbers but for \<open>parseInt\<close>, and the arithmetic operators; the built-in libraries on top of the object operations (regular expressions, dates,
  JSON, WeakMap, WeakSet; \<open>Object.assign\<close> and the methods of \<open>Object.prototype\<close>; calling a proxy; of the strings match, search, lastIndexOf and the locale versions; of the arrays join, concat, from,
  of, and the methods on receivers that are not arrays; of the typed arrays join, sort, from and the iterators;
  the constructors of Map, Set and Promise, \<open>Promise.all\<close> and \<open>Promise.race\<close>); functions, generators and exceptions, which switch stacks or unwind through the
  C++ runtime; statistics and dumps of the collector; the event loop and other input and output; the compiler
  and the LLVM bindings, which are not C code of the runtime.
\<close>

end
